(* ===== verification/Prelude.thy ===== *)
theory Prelude
  imports Main "HOL-Library.Word" "HOL-Library.List_Lexorder" "HOL-Library.Char_ord"
begin

section \<open>Shared vocabulary: Go strings, integers and lookups\<close>

text \<open>
  What every component of the model uses. A Go string is a sequence of bytes, which is
  exactly Isabelle's \<open>string\<close> (a list of 8-bit \<open>char\<close>), so \<open>len(s)\<close> is \<open>length s\<close>. The
  functions of the packages strings, strconv and sort that the sources call are written here
  as they behave, byte for byte. The one part of the standard library that is not written out
  is the Unicode case table: \<open>go_to_lower\<close> and \<open>go_to_upper\<close> take it as the argument \<open>U\<close>, and
  consult it only for a string that holds a byte of 128 or more, as the ASCII fast path of the
  Go functions does.

  The lemma collections: \<open>go_simps\<close> holds the definitions of the string predicates, for proofs
  that compute with them.
\<close>

named_theorems go_simps

subsection \<open>Bytes\<close>

definition byte_of :: "char \<Rightarrow> int" where
  "byte_of c = of_char c"

definition is_ascii :: "string \<Rightarrow> bool" where
  "is_ascii s \<longleftrightarrow> list_all (\<lambda>c. byte_of c < 128) s"

definition is_digit :: "char \<Rightarrow> bool" where
  "is_digit c \<longleftrightarrow> 48 \<le> byte_of c \<and> byte_of c \<le> 57"

definition is_upper :: "char \<Rightarrow> bool" where
  "is_upper c \<longleftrightarrow> 65 \<le> byte_of c \<and> byte_of c \<le> 90"

definition is_lower :: "char \<Rightarrow> bool" where
  "is_lower c \<longleftrightarrow> 97 \<le> byte_of c \<and> byte_of c \<le> 122"

definition lower_char :: "char \<Rightarrow> char" where
  "lower_char c = (if is_upper c then char_of (byte_of c + 32) else c)"

definition upper_char :: "char \<Rightarrow> char" where
  "upper_char c = (if is_lower c then char_of (byte_of c - 32) else c)"

lemma byte_of_bound [simp]: "byte_of c < 256" "0 \<le> byte_of c"
proof -
  have eq: "byte_of c = int (of_char c)"
    unfolding byte_of_def by (rule of_nat_of_char [symmetric])
  have "of_char c < (256 :: nat)" by simp
  then show "byte_of c < 256" "0 \<le> byte_of c" unfolding eq by linarith+
qed

lemma byte_of_char_of [simp]: "byte_of (char_of n) = n mod 256"
  by (simp add: byte_of_def)

lemma byte_of_inj: "byte_of c = byte_of d \<longleftrightarrow> c = d"
  by (simp add: byte_of_def)

lemma is_upper_lower_char [simp]: "\<not> is_upper (lower_char c)"
  by (auto simp: lower_char_def is_upper_def)

lemma lower_char_idem [simp]: "lower_char (lower_char c) = lower_char c"
  by (simp add: lower_char_def [of "lower_char c"])

lemma is_lower_upper_char [simp]: "\<not> is_lower (upper_char c)"
  by (auto simp: upper_char_def is_lower_def)

lemma upper_char_upper [simp]: "is_upper c \<Longrightarrow> upper_char c = c"
  by (auto simp: upper_char_def is_upper_def is_lower_def)

lemma upper_char_idem [simp]: "upper_char (upper_char c) = upper_char c"
  by (simp add: upper_char_def [of "upper_char c"])

subsection \<open>The package strings\<close>

definition has_prefix :: "string \<Rightarrow> string \<Rightarrow> bool" where
  "has_prefix p s \<longleftrightarrow> take (length p) s = p"

definition has_suffix :: "string \<Rightarrow> string \<Rightarrow> bool" where
  "has_suffix p s \<longleftrightarrow> has_prefix (rev p) (rev s)"

fun str_contains :: "string \<Rightarrow> string \<Rightarrow> bool" where
  "str_contains p [] = (p = [])"
| "str_contains p (c # s) = (has_prefix p (c # s) \<or> str_contains p s)"

definition contains_any :: "string \<Rightarrow> string \<Rightarrow> bool" where
  "contains_any cs s \<longleftrightarrow> list_ex (\<lambda>c. List.member cs c) s"

definition trim_prefix :: "string \<Rightarrow> string \<Rightarrow> string" where
  "trim_prefix p s = (if has_prefix p s then drop (length p) s else s)"

definition trim_suffix :: "string \<Rightarrow> string \<Rightarrow> string" where
  "trim_suffix p s = (if has_suffix p s then take (length s - length p) s else s)"

text \<open>\<open>strings.Split\<close> on a one-byte separator: always at least one piece.\<close>

fun split_on :: "char \<Rightarrow> string \<Rightarrow> string list" where
  "split_on d [] = [[]]"
| "split_on d (c # s) =
     (if c = d then [] # split_on d s
      else (case split_on d s of [] \<Rightarrow> [[c]] | p # ps \<Rightarrow> (c # p) # ps))"

fun str_join :: "string \<Rightarrow> string list \<Rightarrow> string" where
  "str_join sep [] = []"
| "str_join sep [s] = s"
| "str_join sep (s # t # ss) = s @ sep @ str_join sep (t # ss)"

text \<open>\<open>strings.IndexByte\<close>: what comes before the first occurrence and what comes after it.\<close>

fun cut_at :: "char \<Rightarrow> string \<Rightarrow> (string \<times> string) option" where
  "cut_at d [] = None"
| "cut_at d (c # s) =
     (if c = d then Some ([], s) else map_option (\<lambda>(a, b). (c # a, b)) (cut_at d s))"

text \<open>\<open>strings.LastIndexByte\<close>.\<close>

definition cut_last :: "char \<Rightarrow> string \<Rightarrow> (string \<times> string) option" where
  "cut_last d s = map_option (\<lambda>(a, b). (rev b, rev a)) (cut_at d (rev s))"

text \<open>
  \<open>strings.TrimSpace\<close>. The code points \<open>unicode.IsSpace\<close> accepts, as the byte sequences that
  encode them in UTF-8. UTF-8 is self-synchronising, so a string starts (ends) with a space
  code point exactly when it starts (ends) with one of these sequences.
\<close>

definition space_seqs :: "string list" where
  "space_seqs = [[CHR 0x09], [CHR 0x0A], [CHR 0x0B], [CHR 0x0C], [CHR 0x0D], [CHR 0x20],
     [CHR 0xC2, CHR 0x85], [CHR 0xC2, CHR 0xA0], [CHR 0xE1, CHR 0x9A, CHR 0x80],
     [CHR 0xE2, CHR 0x80, CHR 0x80], [CHR 0xE2, CHR 0x80, CHR 0x81], [CHR 0xE2, CHR 0x80, CHR 0x82],
     [CHR 0xE2, CHR 0x80, CHR 0x83], [CHR 0xE2, CHR 0x80, CHR 0x84], [CHR 0xE2, CHR 0x80, CHR 0x85],
     [CHR 0xE2, CHR 0x80, CHR 0x86], [CHR 0xE2, CHR 0x80, CHR 0x87], [CHR 0xE2, CHR 0x80, CHR 0x88],
     [CHR 0xE2, CHR 0x80, CHR 0x89], [CHR 0xE2, CHR 0x80, CHR 0x8A], [CHR 0xE2, CHR 0x80, CHR 0xA8],
     [CHR 0xE2, CHR 0x80, CHR 0xA9], [CHR 0xE2, CHR 0x80, CHR 0xAF], [CHR 0xE2, CHR 0x81, CHR 0x9F],
     [CHR 0xE3, CHR 0x80, CHR 0x80]]"

definition leading_seq :: "string list \<Rightarrow> string \<Rightarrow> string option" where
  "leading_seq qs s = find (\<lambda>q. q \<noteq> [] \<and> has_prefix q s) qs"

lemma leading_seq_Some:
  "leading_seq qs s = Some q \<Longrightarrow> q \<in> set qs \<and> q \<noteq> [] \<and> has_prefix q s"
  by (auto simp: leading_seq_def find_Some_iff)

function trim_left_of :: "string list \<Rightarrow> string \<Rightarrow> string" where
  "trim_left_of qs s = (case leading_seq qs s of
     None \<Rightarrow> s | Some q \<Rightarrow> trim_left_of qs (drop (length q) s))"
  by pat_completeness auto
termination
proof (relation "measure (\<lambda>(qs, s). length s)")
  fix qs s q
  assume "leading_seq qs s = Some q"
  then have "q \<noteq> []" and "take (length q) s = q"
    by (auto dest!: leading_seq_Some simp: has_prefix_def)
  moreover from this have "s \<noteq> []" by auto
  ultimately show "((qs, drop (length q) s), qs, s) \<in> measure (\<lambda>(qs, s). length s)"
    by (cases q; cases s) auto
qed simp

declare trim_left_of.simps [simp del]

definition trim_right_of :: "string list \<Rightarrow> string \<Rightarrow> string" where
  "trim_right_of qs s = rev (trim_left_of (map rev qs) (rev s))"

definition trim_space :: "string \<Rightarrow> string" where
  "trim_space s = trim_right_of space_seqs (trim_left_of space_seqs s)"

text \<open>\<open>strings.ToLower\<close> and \<open>strings.ToUpper\<close>; \<open>U\<close> is the Unicode case table.\<close>

definition go_to_lower :: "(string \<Rightarrow> string) \<Rightarrow> string \<Rightarrow> string" where
  "go_to_lower U s = (if is_ascii s then map lower_char s else U s)"

definition go_to_upper :: "(string \<Rightarrow> string) \<Rightarrow> string \<Rightarrow> string" where
  "go_to_upper U s = (if is_ascii s then map upper_char s else U s)"

subsection \<open>The package strconv\<close>

function dec_digits :: "int \<Rightarrow> string" where
  "dec_digits n = (if n < 10 then [char_of (48 + n)] else dec_digits (n div 10) @ [char_of (48 + n mod 10)])"
  by pat_completeness auto
termination
  by (relation "measure nat") auto

declare dec_digits.simps [simp del]

text \<open>\<open>strconv.Itoa\<close> and the verb \<open>%d\<close>.\<close>

definition itoa :: "int \<Rightarrow> string" where
  "itoa i = (if i < 0 then CHR ''-'' # dec_digits (- i) else dec_digits i)"

definition digits_value :: "string \<Rightarrow> int" where
  "digits_value s = foldl (\<lambda>a c. a * 10 + (byte_of c - 48)) 0 s"

text \<open>
  \<open>strconv.ParseInt(s, 10, 64)\<close>: the value it returns and whether its error is nil. A value out
  of range comes back clamped together with an error, a syntax error comes back as 0.
\<close>

definition parse_int64 :: "string \<Rightarrow> int \<times> bool" where
  "parse_int64 s =
     (let neg = has_prefix ''-'' s;
          body = (if has_prefix ''-'' s \<or> has_prefix ''+'' s then drop 1 s else s);
          v = digits_value body
      in if body = [] \<or> \<not> list_all is_digit body then (0, False)
         else if neg then (if v > 2 ^ 63 then (- (2 ^ 63), False) else (- v, True))
         else if v \<ge> 2 ^ 63 then (2 ^ 63 - 1, False) else (v, True))"

text \<open>The value as \<open>strconv.Atoi\<close> callers use it: \<open>None\<close> for any error.\<close>

definition atoi :: "string \<Rightarrow> int option" where
  "atoi s = (case parse_int64 s of (v, ok) \<Rightarrow> if ok then Some v else None)"

subsection \<open>Control characters\<close>

text \<open>
  The three character screens of the sources. They iterate over runes; a rune below 128 is a
  byte below 128, so testing bytes decides the same.
\<close>

definition below_space :: "char \<Rightarrow> bool" where
  "below_space c \<longleftrightarrow> byte_of c < 32 \<or> byte_of c = 127"

subsection \<open>Lemmas on the string functions\<close>

lemma has_prefix_Nil [simp]: "has_prefix [] s"
  by (simp add: has_prefix_def)

lemma has_prefix_self [simp]: "has_prefix p (p @ s)"
  by (simp add: has_prefix_def)

lemma has_prefix_iff: "has_prefix p s \<longleftrightarrow> (\<exists>t. s = p @ t)"
  by (metis append_eq_conv_conj append_take_drop_id has_prefix_def)

lemma has_suffix_iff: "has_suffix p s \<longleftrightarrow> (\<exists>t. s = t @ p)"
  unfolding has_suffix_def has_prefix_iff by (metis rev_append rev_rev_ident)

lemma has_prefix_single: "has_prefix [c] s \<longleftrightarrow> (s \<noteq> [] \<and> hd s = c)"
  by (cases s) (auto simp: has_prefix_iff)

lemma has_suffix_single: "has_suffix [c] s \<longleftrightarrow> (s \<noteq> [] \<and> last s = c)"
  by (cases s rule: rev_cases) (auto simp: has_suffix_iff)

lemma str_contains_iff: "str_contains p s \<longleftrightarrow> (\<exists>a b. s = a @ p @ b)"
proof (induction s)
  case Nil
  then show ?case by auto
next
  case (Cons c s)
  show ?case
  proof
    assume "str_contains p (c # s)"
    then consider "has_prefix p (c # s)" | "str_contains p s" by auto
    then show "\<exists>a b. c # s = a @ p @ b"
    proof cases
      case 1
      then show ?thesis unfolding has_prefix_iff by (metis append_Nil)
    next
      case 2
      then show ?thesis using Cons.IH by (metis append_Cons)
    qed
  next
    assume "\<exists>a b. c # s = a @ p @ b"
    then obtain a b where ab: "c # s = a @ p @ b" by blast
    show "str_contains p (c # s)"
    proof (cases a)
      case Nil
      then have "has_prefix p (c # s)" using ab unfolding has_prefix_iff by auto
      then show ?thesis by simp
    next
      case (Cons d a')
      then have "str_contains p s" using ab Cons.IH by auto
      then show ?thesis by simp
    qed
  qed
qed

lemma contains_any_iff: "contains_any cs s \<longleftrightarrow> set cs \<inter> set s \<noteq> {}"
  by (auto simp: contains_any_def list_ex_iff)

lemma trim_left_of_fix: "leading_seq qs (trim_left_of qs s) = None"
proof (induction qs s rule: trim_left_of.induct)
  case (1 qs s)
  then show ?case by (subst trim_left_of.simps) (auto split: option.split)
qed

lemma trim_left_of_noop: "leading_seq qs s = None \<Longrightarrow> trim_left_of qs s = s"
  by (subst trim_left_of.simps) simp

lemma trim_left_of_suffix: "\<exists>t. s = t @ trim_left_of qs s"
proof (induction qs s rule: trim_left_of.induct)
  case (1 qs s)
  show ?case
  proof (cases "leading_seq qs s")
    case None
    then show ?thesis by (simp add: trim_left_of_noop)
  next
    case (Some q)
    with "1.IH" obtain t where "drop (length q) s = t @ trim_left_of qs (drop (length q) s)"
      by blast
    then have "s = (take (length q) s @ t) @ trim_left_of qs (drop (length q) s)"
      by (metis append.assoc append_take_drop_id)
    moreover have "trim_left_of qs s = trim_left_of qs (drop (length q) s)"
      using Some by (subst trim_left_of.simps) simp
    ultimately show ?thesis by metis
  qed
qed

lemma set_trim_left_of: "set (trim_left_of qs s) \<subseteq> set s"
  using trim_left_of_suffix [of s qs] by (metis set_append sup_ge2)

lemma set_trim_space: "set (trim_space s) \<subseteq> set s"
  unfolding trim_space_def trim_right_of_def
  using set_trim_left_of [of "map rev space_seqs" "rev (trim_left_of space_seqs s)"]
    set_trim_left_of [of space_seqs s] by auto

lemma trim_right_of_prefix: "\<exists>t. s = trim_right_of qs s @ t"
  unfolding trim_right_of_def using trim_left_of_suffix [of "rev s" "map rev qs"]
  by (metis rev_append rev_rev_ident)

lemma length_trim_space: "length (trim_space s) \<le> length s"
  unfolding trim_space_def
  using trim_right_of_prefix [of "trim_left_of space_seqs s" space_seqs]
    trim_left_of_suffix [of s space_seqs]
  by (metis le_add1 le_add2 length_append order_trans)

text \<open>
  Trimming twice is trimming once. A prefix of a string that does not start with a space
  sequence does not start with one either, so cutting at the right brings no new one to the
  left.
\<close>

lemma leading_seq_None_prefix:
  "leading_seq qs (a @ b) = None \<Longrightarrow> leading_seq qs a = None"
  by (auto simp: leading_seq_def find_None_iff has_prefix_iff)

lemma trim_space_idem [simp]: "trim_space (trim_space s) = trim_space s"
proof -
  let ?l = "trim_left_of space_seqs s" and ?t = "trim_space s"
  obtain r where "?l = ?t @ r"
    using trim_right_of_prefix [of ?l space_seqs] by (auto simp: trim_space_def)
  then have "leading_seq space_seqs ?t = None"
    using trim_left_of_fix [of space_seqs s] by (metis leading_seq_None_prefix)
  then have "trim_left_of space_seqs ?t = ?t" by (rule trim_left_of_noop)
  moreover have "trim_right_of space_seqs ?t = ?t"
    by (simp add: trim_space_def trim_right_of_def trim_left_of_noop trim_left_of_fix)
  ultimately show ?thesis by (simp add: trim_space_def [of ?t])
qed

text \<open>A string of printable ASCII characters has nothing to trim.\<close>

lemma space_seqs_not_printable:
  assumes "\<And>c. c \<in> set s \<Longrightarrow> 33 \<le> byte_of c \<and> byte_of c < 127"
  shows "trim_space s = s"
proof -
  have ends: "list_all (\<lambda>q. q = [] \<or> \<not> (33 \<le> byte_of (hd q) \<and> byte_of (hd q) < 127)) (space_seqs @ map rev space_seqs)"
    by code_simp
  have none: "leading_seq qs t = None"
    if "set qs \<subseteq> set (space_seqs @ map rev space_seqs)" "set t = set s" for qs t
  proof (rule ccontr)
    assume "leading_seq qs t \<noteq> None"
    then obtain q r where q: "q \<in> set qs" "q \<noteq> []" "t = q @ r"
      by (auto simp: has_prefix_iff dest!: leading_seq_Some)
    then have "hd q \<in> set s" using that(2) hd_in_set [of q] by auto
    then have "33 \<le> byte_of (hd q) \<and> byte_of (hd q) < 127" by (rule assms)
    moreover have "q \<in> set (space_seqs @ map rev space_seqs)" using q(1) that(1) by (rule rev_subsetD)
    ultimately show False using ends q(2) unfolding list_all_iff by blast
  qed
  have "trim_left_of space_seqs s = s" by (intro trim_left_of_noop none) auto
  moreover have "trim_left_of (map rev space_seqs) (rev s) = rev s"
    by (intro trim_left_of_noop none) auto
  ultimately show ?thesis by (simp add: trim_space_def trim_right_of_def)
qed

lemma split_on_not_Nil [simp]: "split_on d s \<noteq> []"
  by (induction s) (auto split: list.split)

lemma str_join_split_on: "str_join [d] (split_on d s) = s"
proof (induction s)
  case Nil
  then show ?case by simp
next
  case (Cons c s)
  show ?case
  proof (cases "split_on d s")
    case Nil
    then show ?thesis by simp
  next
    case (Cons p ps)
    then show ?thesis using Cons.IH by (cases ps) auto
  qed
qed

lemma split_on_append: "d \<notin> set s \<Longrightarrow> split_on d s = [s] \<and> split_on d (s @ d # t) = s # split_on d t"
  by (induction s) auto

lemma cut_at_Some: "cut_at d s = Some (a, b) \<Longrightarrow> s = a @ d # b \<and> d \<notin> set a"
  by (induction s arbitrary: a b) (auto split: if_splits)

lemma cut_at_None: "cut_at d s = None \<longleftrightarrow> d \<notin> set s"
  by (induction s) auto

lemma cut_at_append: "d \<notin> set a \<Longrightarrow> cut_at d (a @ d # b) = Some (a, b)"
  by (induction a) auto

lemma cut_last_append: "d \<notin> set b \<Longrightarrow> cut_last d (a @ d # b) = Some (a, b)"
  by (simp add: cut_last_def cut_at_append)

lemma length_go_to_lower_ascii: "is_ascii s \<Longrightarrow> length (go_to_lower U s) = length s"
  by (simp add: go_to_lower_def)

subsection \<open>Decimal numbers\<close>

lemma dec_digits_nonempty [simp]: "dec_digits n \<noteq> []"
  by (subst dec_digits.simps) simp

lemma is_digit_char_of: "0 \<le> k \<Longrightarrow> k < 10 \<Longrightarrow> is_digit (char_of (48 + k :: int))"
  by (simp add: is_digit_def)

lemma byte_of_digit: "0 \<le> k \<Longrightarrow> k < 10 \<Longrightarrow> byte_of (char_of (48 + k :: int)) = 48 + k"
  by simp

lemma dec_digits_digits: "0 \<le> n \<Longrightarrow> list_all is_digit (dec_digits n)"
proof (induction n rule: dec_digits.induct)
  case (1 n)
  then show ?case
    by (subst dec_digits.simps) (auto simp: is_digit_char_of)
qed

lemma digits_value_snoc: "digits_value (s @ [c]) = digits_value s * 10 + (byte_of c - 48)"
  by (simp add: digits_value_def)

lemma digits_value_dec_digits [simp]: "0 \<le> n \<Longrightarrow> digits_value (dec_digits n) = n"
proof (induction n rule: dec_digits.induct)
  case (1 n)
  show ?case
  proof (cases "n < 10")
    case True
    with "1.prems" show ?thesis
      by (subst dec_digits.simps) (simp add: digits_value_def)
  next
    case False
    with 1 have "digits_value (dec_digits (n div 10)) = n div 10" by simp
    moreover have "byte_of (char_of (48 + n mod 10)) = 48 + n mod 10"
      by (rule byte_of_digit) simp_all
    ultimately show ?thesis using False
      by (subst dec_digits.simps) (simp add: digits_value_snoc del: byte_of_char_of)
  qed
qed

lemma hd_dec_digits: "0 \<le> n \<Longrightarrow> is_digit (hd (dec_digits n))"
  using dec_digits_digits [of n] by (cases "dec_digits n") (auto simp: list_all_iff)

lemma is_digit_sign [simp]: "\<not> is_digit (CHR ''-'')" "\<not> is_digit (CHR ''+'')"
  by (simp_all add: is_digit_def byte_of_def)

lemma parse_int64_dec_digits:
  assumes "0 \<le> n" "n < 2 ^ 63"
  shows "parse_int64 (dec_digits n) = (n, True)"
proof -
  have "\<not> has_prefix ''-'' (dec_digits n)" and "\<not> has_prefix ''+'' (dec_digits n)"
    using hd_dec_digits [OF assms(1)] by (auto simp: has_prefix_single)
  with assms dec_digits_digits [of n] show ?thesis
    by (simp add: parse_int64_def Let_def)
qed

lemma atoi_itoa:
  assumes "- (2 ^ 63) \<le> i" "i < 2 ^ 63"
  shows "atoi (itoa i) = Some i"
proof (cases "i < 0")
  case False
  then show ?thesis using assms parse_int64_dec_digits [of i] by (simp add: itoa_def atoi_def)
next
  case True
  then have "parse_int64 (CHR ''-'' # dec_digits (- i)) = (i, True)"
    using assms dec_digits_digits [of "- i"] by (simp add: parse_int64_def has_prefix_single Let_def)
  then show ?thesis using True by (simp add: itoa_def atoi_def)
qed

lemma parse_int64_range: "- (2 ^ 63) \<le> fst (parse_int64 s) \<and> fst (parse_int64 s) < 2 ^ 63"
proof -
  have nonneg: "0 \<le> digits_value t" if "list_all is_digit t" for t
    using that
    by (induction t rule: rev_induct) (auto simp: digits_value_snoc is_digit_def digits_value_def [of "[]"])
  define body where "body = (if has_prefix ''-'' s \<or> has_prefix ''+'' s then drop 1 s else s)"
  show ?thesis
    using nonneg [of body] by (auto simp: parse_int64_def Let_def body_def [symmetric])
qed

subsection \<open>First occurrences\<close>

text \<open>
  The loop \<open>for ... { if seen[k(x)] { continue }; seen[k(x)] = true; out = append(out, x) }\<close>,
  which four of the components run: what it keeps, in order.
\<close>

fun dedup_by :: "('a \<Rightarrow> 'k) \<Rightarrow> 'k list \<Rightarrow> 'a list \<Rightarrow> 'a list" where
  "dedup_by f seen [] = []"
| "dedup_by f seen (x # xs) =
     (if List.member seen (f x) then dedup_by f seen xs else x # dedup_by f (f x # seen) xs)"

lemma dedup_by_keys: "f ` set (dedup_by f seen xs) = f ` set xs - set seen"
  by (induction xs arbitrary: seen) auto

lemma dedup_by_subset: "set (dedup_by f seen xs) \<subseteq> set xs"
proof (induction xs arbitrary: seen)
  case Nil
  then show ?case by simp
next
  case (Cons x xs)
  then show ?case by (auto dest: subsetD)
qed

lemma dedup_by_distinct:
  "distinct (map f (dedup_by f seen xs)) \<and> f ` set (dedup_by f seen xs) \<inter> set seen = {}"
  by (induction xs arbitrary: seen) (auto simp: dedup_by_keys)

lemma dedup_by_id:
  "distinct (map f xs) \<Longrightarrow> f ` set xs \<inter> set seen = {} \<Longrightarrow> dedup_by f seen xs = xs"
  by (induction xs arbitrary: seen) auto

subsection \<open>Sequencing fallible steps\<close>

definition bind_res :: "'e + 'a \<Rightarrow> ('a \<Rightarrow> 'e + 'b) \<Rightarrow> 'e + 'b" where
  "bind_res r f = (case r of Inl e \<Rightarrow> Inl e | Inr x \<Rightarrow> f x)"

definition guard_res :: "bool \<Rightarrow> 'e \<Rightarrow> 'e + unit" where
  "guard_res bad e = (if bad then Inl e else Inr ())"

lemma bind_res_simps [simp]:
  "bind_res (Inl e) f = Inl e" "bind_res (Inr x) f = f x"
  by (simp_all add: bind_res_def)

lemma bind_res_Inr: "bind_res r f = Inr y \<longleftrightarrow> (\<exists>x. r = Inr x \<and> f x = Inr y)"
  by (cases r) auto

fun map_res :: "('a \<Rightarrow> 'e + 'b) \<Rightarrow> 'a list \<Rightarrow> 'e + 'b list" where
  "map_res f [] = Inr []"
| "map_res f (x # xs) = (case f x of Inl e \<Rightarrow> Inl e | Inr y \<Rightarrow>
     (case map_res f xs of Inl e \<Rightarrow> Inl e | Inr ys \<Rightarrow> Inr (y # ys)))"

lemma map_res_Inr: "map_res f xs = Inr ys \<Longrightarrow> list_all2 (\<lambda>x y. f x = Inr y) xs ys"
  by (induction xs arbitrary: ys) (auto split: sum.splits)

lemma map_res_range:
  "map_res f xs = Inr ys \<Longrightarrow> y \<in> set ys \<Longrightarrow> \<exists>x \<in> set xs. f x = Inr y"
  by (induction xs arbitrary: ys) (auto split: sum.splits)

declare has_prefix_def [go_simps] has_suffix_def [go_simps] contains_any_def [go_simps]
  trim_prefix_def [go_simps] trim_suffix_def [go_simps]

end
