(* ===== verification/GoNet.thy ===== *)
theory GoNet
  imports Prelude
begin

unbundle bit_operations_syntax

section \<open>The packages net/netip and net\<close>

text \<open>
  Addresses and prefixes of the Go standard library, as far as the sources use them: parsing
  (\<open>netip.ParseAddr\<close>, \<open>netip.ParsePrefix\<close>, \<open>net.ParseIP\<close>, \<open>net.ParseCIDR\<close>), printing
  (\<open>String\<close>), \<open>Unmap\<close>, \<open>Is4\<close>, \<open>Is4In6\<close>, \<open>Masked\<close>, \<open>Contains\<close> and the order \<open>Less\<close>. An address
  is a 32-bit word or a 128-bit word with a zone; a bit string of an address is a machine word,
  so masks and shifts are the word operations. A parse error is \<open>None\<close>: every caller in the
  sources only asks whether there was one. The zero \<open>Addr\<close> and the invalid \<open>Prefix\<close> only
  come with an error in these sources, so they have no representation.

  The lemmas say what a prefix covers (a block of addresses that agree on the leading bits),
  that masking does not change it, and that an IPv4 address printed is parsed back.
\<close>

datatype addr = V4 "32 word" | V6 "128 word" string

datatype ipprefix = Prefix (pfx_addr: addr) (pfx_bits: nat)

fun is4 :: "addr \<Rightarrow> bool" where
  "is4 (V4 _) = True"
| "is4 (V6 _ _) = False"

fun bit_len :: "addr \<Rightarrow> nat" where
  "bit_len (V4 _) = 32"
| "bit_len (V6 _ _) = 128"

fun zone_of :: "addr \<Rightarrow> string" where
  "zone_of (V4 _) = []"
| "zone_of (V6 _ z) = z"

fun without_zone :: "addr \<Rightarrow> addr" where
  "without_zone (V4 w) = V4 w"
| "without_zone (V6 w z) = V6 w []"

fun is4in6 :: "addr \<Rightarrow> bool" where
  "is4in6 (V4 _) = False"
| "is4in6 (V6 w _) = (drop_bit 32 w = 0xffff)"

fun unmap_addr :: "addr \<Rightarrow> addr" where
  "unmap_addr (V4 w) = V4 w"
| "unmap_addr (V6 w z) = (if drop_bit 32 w = 0xffff then V4 (ucast w) else V6 w z)"

definition prefix_from :: "addr \<Rightarrow> nat \<Rightarrow> ipprefix" where
  "prefix_from a b = Prefix (without_zone a) b"

fun mask_addr :: "addr \<Rightarrow> nat \<Rightarrow> addr" where
  "mask_addr (V4 w) b = V4 (push_bit (32 - b) (drop_bit (32 - b) w))"
| "mask_addr (V6 w z) b = V6 (push_bit (128 - b) (drop_bit (128 - b) w)) []"

definition masked :: "ipprefix \<Rightarrow> ipprefix" where
  "masked p = Prefix (mask_addr (pfx_addr p) (pfx_bits p)) (pfx_bits p)"

fun prefix_contains :: "ipprefix \<Rightarrow> addr \<Rightarrow> bool" where
  "prefix_contains (Prefix (V4 p) b) (V4 a) = (drop_bit (32 - b) (a XOR p) = 0)"
| "prefix_contains (Prefix (V6 p _) b) (V6 a z) = (z = [] \<and> drop_bit (128 - b) (a XOR p) = 0)"
| "prefix_contains _ _ = False"

subsection \<open>The order on addresses\<close>

fun addr_key :: "addr \<Rightarrow> int \<times> int \<times> string" where
  "addr_key (V4 w) = (32, uint w, [])"
| "addr_key (V6 w z) = (128, uint w, z)"

lemma addr_key_inj: "addr_key a = addr_key b \<longleftrightarrow> a = b"
  by (cases a; cases b) (auto simp: word_uint_eq_iff)

definition key_less :: "int \<times> int \<times> string \<Rightarrow> int \<times> int \<times> string \<Rightarrow> bool" where
  "key_less k l = (case k of (a, b, c) \<Rightarrow> case l of (d, e, f) \<Rightarrow>
     a < d \<or> (a = d \<and> (b < e \<or> (b = e \<and> c < f))))"

instantiation addr :: linorder
begin

definition less_addr :: "addr \<Rightarrow> addr \<Rightarrow> bool" where
  "less_addr a b = key_less (addr_key a) (addr_key b)"

definition less_eq_addr :: "addr \<Rightarrow> addr \<Rightarrow> bool" where
  "less_eq_addr a b \<longleftrightarrow> a = b \<or> key_less (addr_key a) (addr_key b)"

instance
proof
  fix a b c :: addr
  obtain a1 a2 a3 where a: "addr_key a = (a1, a2, a3)" by (cases "addr_key a")
  obtain b1 b2 b3 where b: "addr_key b = (b1, b2, b3)" by (cases "addr_key b")
  obtain c1 c2 c3 where c: "addr_key c = (c1, c2, c3)" by (cases "addr_key c")
  note eqs = addr_key_inj [of a b, symmetric] addr_key_inj [of b c, symmetric]
    addr_key_inj [of a c, symmetric]
  show "(a < b) = (a \<le> b \<and> \<not> b \<le> a)"
    using eqs a b by (auto simp: less_addr_def less_eq_addr_def key_less_def)
  show "a \<le> a" by (simp add: less_eq_addr_def)
  show "a \<le> b \<Longrightarrow> b \<le> c \<Longrightarrow> a \<le> c"
    using eqs a b c by (auto simp: less_eq_addr_def key_less_def)
  show "a \<le> b \<Longrightarrow> b \<le> a \<Longrightarrow> a = b"
    using eqs a b by (auto simp: less_eq_addr_def key_less_def)
  show "a \<le> b \<or> b \<le> a"
    using eqs a b by (auto simp: less_eq_addr_def key_less_def)
qed

end

subsection \<open>Parsing an address\<close>

text \<open>
  \<open>parseIPv4Fields\<close>: \<open>v\<close> is the value of the current octet, \<open>d\<close> its number of digits, \<open>fs\<close> the
  octets before it, the latest first.
\<close>

fun v4_loop :: "int \<Rightarrow> nat \<Rightarrow> int list \<Rightarrow> string \<Rightarrow> int list option" where
  "v4_loop v d fs [] = (if length fs < 3 then None else Some (rev (v # fs)))"
| "v4_loop v d fs (c # s) =
     (if is_digit c then
        (if d = 1 \<and> v = 0 then None
         else let v' = v * 10 + (byte_of c - 48)
              in if v' > 255 then None else v4_loop v' (Suc d) fs s)
      else if c = CHR ''.'' then
        (if d = 0 \<or> s = [] then None
         else if length fs = 3 then None
         else v4_loop 0 0 (v # fs) s)
      else None)"

definition parse_ipv4 :: "string \<Rightarrow> addr option" where
  "parse_ipv4 s = map_option (\<lambda>fs. V4 (word_of_int (foldl (\<lambda>a b. a * 256 + b) 0 fs))) (v4_loop 0 0 [] s)"

definition hex_digit :: "char \<Rightarrow> int option" where
  "hex_digit c = (let n = byte_of c in
     if 48 \<le> n \<and> n \<le> 57 then Some (n - 48)
     else if 97 \<le> n \<and> n \<le> 102 then Some (n - 87)
     else if 65 \<le> n \<and> n \<le> 70 then Some (n - 55) else None)"

fun hex_run :: "nat \<Rightarrow> int \<Rightarrow> string \<Rightarrow> (int \<times> nat \<times> string) option" where
  "hex_run off acc [] = Some (acc, off, [])"
| "hex_run off acc (c # s) =
     (case hex_digit c of
        None \<Rightarrow> Some (acc, off, c # s)
      | Some h \<Rightarrow> if off > 3 then None
                  else if acc * 16 + h > 65535 then None
                  else hex_run (Suc off) (acc * 16 + h) s)"

text \<open>What \<open>parseIPv6\<close> does after its loop: expand the ellipsis, or refuse.\<close>

definition v6_finish :: "int list \<Rightarrow> nat option \<Rightarrow> int list option" where
  "v6_finish gs ell =
     (if length gs < 8 then
        (case ell of None \<Rightarrow> None
         | Some e \<Rightarrow> Some (take e gs @ replicate (8 - length gs) 0 @ drop e gs))
      else if ell \<noteq> None then None else Some gs)"

text \<open>The loop of \<open>parseIPv6\<close>: the first argument is how many 16-bit groups still have room.\<close>

fun v6_loop :: "nat \<Rightarrow> int list \<Rightarrow> nat option \<Rightarrow> string \<Rightarrow> int list option" where
  "v6_loop 0 gs ell s = (if s \<noteq> [] then None else v6_finish gs ell)"
| "v6_loop (Suc k) gs ell s =
     (case hex_run 0 0 s of None \<Rightarrow> None
      | Some (acc, off, rest) \<Rightarrow>
          if off = 0 then None
          else (case rest of
             [] \<Rightarrow> v6_finish (gs @ [acc]) ell
           | c # r \<Rightarrow>
               if c = CHR ''.'' then
                 (if ell = None \<and> length gs \<noteq> 6 then None
                  else if k = 0 then None
                  else (case v4_loop 0 0 [] s of None \<Rightarrow> None
                        | Some fs \<Rightarrow> v6_finish (gs @ [fs ! 0 * 256 + fs ! 1, fs ! 2 * 256 + fs ! 3]) ell))
               else if c \<noteq> CHR '':'' then None
               else (case r of
                  [] \<Rightarrow> None
                | c2 # r2 \<Rightarrow>
                    if c2 = CHR '':'' then
                      (if ell \<noteq> None then None
                       else if r2 = [] then v6_finish (gs @ [acc]) (Some (Suc (length gs)))
                       else v6_loop k (gs @ [acc]) (Some (Suc (length gs))) r2)
                    else v6_loop k (gs @ [acc]) ell r)))"

definition word_of_groups :: "int list \<Rightarrow> 128 word" where
  "word_of_groups gs = word_of_int (foldl (\<lambda>a b. a * 65536 + b) 0 gs)"

definition parse_ipv6_body :: "string \<Rightarrow> string \<Rightarrow> addr option" where
  "parse_ipv6_body zone s =
     (if has_prefix ''::'' s then
        (if drop 2 s = [] then Some (V6 0 zone)
         else map_option (\<lambda>gs. V6 (word_of_groups gs) zone) (v6_loop 8 [] (Some 0) (drop 2 s)))
      else map_option (\<lambda>gs. V6 (word_of_groups gs) zone) (v6_loop 8 [] None s))"

definition parse_ipv6 :: "string \<Rightarrow> addr option" where
  "parse_ipv6 s = (case cut_at (CHR ''%'') s of
     None \<Rightarrow> parse_ipv6_body [] s
   | Some (a, zone) \<Rightarrow> if zone = [] then None else parse_ipv6_body zone a)"

definition parse_addr :: "string \<Rightarrow> addr option" where
  "parse_addr s = (case find (\<lambda>c. c = CHR ''.'' \<or> c = CHR '':'' \<or> c = CHR ''%'') s of
     None \<Rightarrow> None
   | Some c \<Rightarrow> if c = CHR ''.'' then parse_ipv4 s
               else if c = CHR '':'' then parse_ipv6 s else None)"

definition parse_prefix :: "string \<Rightarrow> ipprefix option" where
  "parse_prefix s = (case cut_last (CHR ''/'') s of
     None \<Rightarrow> None
   | Some (a, bits) \<Rightarrow>
      (case parse_addr a of None \<Rightarrow> None
       | Some ip \<Rightarrow>
          if zone_of ip \<noteq> [] then None
          else if length bits > 1 \<and> \<not> (49 \<le> byte_of (hd bits) \<and> byte_of (hd bits) \<le> 57) then None
          else (case atoi bits of None \<Rightarrow> None
                | Some n \<Rightarrow> if n < 0 \<or> n > int (bit_len ip) then None
                            else Some (prefix_from ip (nat n)))))"

subsection \<open>Printing\<close>

definition octet :: "32 word \<Rightarrow> nat \<Rightarrow> int" where
  "octet w i = uint w div 256 ^ (3 - i) mod 256"

definition v4_string :: "32 word \<Rightarrow> string" where
  "v4_string w = dec_digits (octet w 0) @ ''.'' @ dec_digits (octet w 1) @ ''.'' @
     dec_digits (octet w 2) @ ''.'' @ dec_digits (octet w 3)"

definition group16 :: "128 word \<Rightarrow> nat \<Rightarrow> int" where
  "group16 w i = uint w div 65536 ^ (7 - i) mod 65536"

definition hex_char :: "int \<Rightarrow> char" where
  "hex_char n = (if n < 10 then char_of (48 + n) else char_of (87 + n))"

definition hex16 :: "int \<Rightarrow> string" where
  "hex16 g = (if g \<ge> 4096 then [hex_char (g div 4096)] else []) @
     (if g \<ge> 256 then [hex_char (g div 256 mod 16)] else []) @
     (if g \<ge> 16 then [hex_char (g div 16 mod 16)] else []) @ [hex_char (g mod 16)]"

text \<open>The longest run of two or more zero groups, the first of that length: start and end.\<close>

definition zero_run_from :: "int list \<Rightarrow> nat \<Rightarrow> nat" where
  "zero_run_from gs i = i + length (takeWhile (\<lambda>g. g = 0) (drop i gs))"

definition longest_zeros :: "int list \<Rightarrow> nat \<times> nat" where
  "longest_zeros gs = foldl (\<lambda>(s, e) i. let j = zero_run_from gs i in
      if 2 \<le> j - i \<and> j - i > e - s then (i, j) else (s, e)) (255, 255) [0..<8]"

fun groups_string :: "int list \<Rightarrow> string" where
  "groups_string gs = str_join '':'' (map hex16 gs)"

definition v6_string :: "128 word \<Rightarrow> string" where
  "v6_string w = (let gs = map (group16 w) [0..<8]; (s, e) = longest_zeros gs
     in if s = 255 then groups_string gs
        else groups_string (take s gs) @ ''::'' @ groups_string (drop e gs))"

fun addr_string :: "addr \<Rightarrow> string" where
  "addr_string (V4 w) = v4_string w"
| "addr_string (V6 w z) =
     (if drop_bit 32 w = 0xffff then ''::ffff:'' @ v4_string (ucast w) else v6_string w) @
     (if z = [] then [] else CHR ''%'' # z)"

definition prefix_string :: "ipprefix \<Rightarrow> string" where
  "prefix_string p = addr_string (pfx_addr p) @ ''/'' @ dec_digits (int (pfx_bits p))"

subsection \<open>The package net\<close>

text \<open>
  \<open>net.ParseIP\<close> followed by \<open>IP.String\<close>, and \<open>net.ParseCIDR\<close> followed by \<open>IPNet.String\<close>: the
  16-byte \<open>IP\<close> reads an IPv4-mapped address as IPv4, and a mapped network prints its last 32
  mask bits.
\<close>

definition net_parse_ip :: "string \<Rightarrow> addr option" where
  "net_parse_ip s = (case parse_addr s of None \<Rightarrow> None
     | Some a \<Rightarrow> if zone_of a \<noteq> [] then None else Some (unmap_addr a))"

definition dtoi :: "string \<Rightarrow> nat option" where
  "dtoi s = (if s = [] \<or> \<not> list_all is_digit s \<or> digits_value s \<ge> 0xFFFFFF then None
     else Some (nat (digits_value s)))"

definition net_parse_cidr :: "string \<Rightarrow> ipprefix option" where
  "net_parse_cidr s = (case cut_at (CHR ''/'') s of
     None \<Rightarrow> None
   | Some (a, m) \<Rightarrow>
      (case parse_addr a of None \<Rightarrow> None
       | Some ip \<Rightarrow>
          if zone_of ip \<noteq> [] then None
          else (case dtoi m of None \<Rightarrow> None
                | Some n \<Rightarrow>
                    if n > bit_len ip then None
                    else let p = masked (prefix_from ip n)
                         in if is4in6 (pfx_addr p)
                            then Some (Prefix (unmap_addr (pfx_addr p)) (n - 96))
                            else Some p)))"

subsection \<open>What a prefix covers\<close>

named_theorems net_simps

lemma drop_bit_xor_0: "drop_bit n (a XOR b) = 0 \<longleftrightarrow> drop_bit n a = drop_bit n (b :: 'a::len word)"
  by (auto simp: bit_eq_iff bit_simps)

lemma drop_push_drop [simp]: "drop_bit n (push_bit n (drop_bit n w)) = drop_bit n (w :: 'a::len word)"
  by (rule bit_word_eqI) (auto simp: bit_simps dest: bit_imp_le_length)

lemma prefix_contains_V4 [net_simps]:
  "prefix_contains (Prefix (V4 p) b) (V4 a) \<longleftrightarrow> drop_bit (32 - b) a = drop_bit (32 - b) p"
  by (simp only: prefix_contains.simps drop_bit_xor_0)

lemma prefix_contains_V6 [net_simps]:
  "prefix_contains (Prefix (V6 p y) b) (V6 a z) \<longleftrightarrow> z = [] \<and> drop_bit (128 - b) a = drop_bit (128 - b) p"
  by (simp only: prefix_contains.simps drop_bit_xor_0)

lemma prefix_contains_family: "prefix_contains p a \<Longrightarrow> is4 (pfx_addr p) = is4 a"
  by (cases "(p, a)" rule: prefix_contains.cases) auto

lemma prefix_contains_zone: "prefix_contains p a \<Longrightarrow> zone_of a = []"
  by (cases "(p, a)" rule: prefix_contains.cases) auto

lemma masked_contains [simp]: "prefix_contains (masked p) a = prefix_contains p a"
  by (cases "(p, a)" rule: prefix_contains.cases)
    (simp_all add: masked_def prefix_contains_V4 prefix_contains_V6 del: prefix_contains.simps(1,2))

lemma is4_masked [simp]: "is4 (pfx_addr (masked p)) = is4 (pfx_addr p)"
  by (cases p; cases "pfx_addr p") (auto simp: masked_def)

lemma pfx_bits_masked [simp]: "pfx_bits (masked p) = pfx_bits p"
  by (simp add: masked_def)

lemma zone_of_masked [simp]: "zone_of (pfx_addr (masked p)) = []"
  by (cases p; cases "pfx_addr p") (auto simp: masked_def)

lemma masked_idem [simp]: "masked (masked p) = masked p"
  by (cases p; cases "pfx_addr p") (auto simp: masked_def)

lemma is4_without_zone [simp]: "is4 (without_zone a) = is4 a"
  by (cases a) auto

lemma without_zone_id [simp]: "zone_of a = [] \<Longrightarrow> without_zone a = a"
  by (cases a) auto

lemma unmap_idem [simp]: "unmap_addr (unmap_addr a) = unmap_addr a"
  by (cases a) auto

lemma unmap_not_is4in6 [simp]: "\<not> is4in6 (unmap_addr a)"
  by (cases a) auto

lemma unmap_id: "\<not> is4in6 a \<Longrightarrow> unmap_addr a = a"
  by (cases a) auto

lemma host_prefix_contains:
  "prefix_contains (prefix_from a (bit_len a)) b \<longleftrightarrow> b = without_zone a"
  by (cases a; cases b) (auto simp: prefix_from_def prefix_contains_V4 prefix_contains_V6
      simp del: prefix_contains.simps(1,2))

lemma zero_prefix_contains:
  "prefix_contains (Prefix p 0) a \<longleftrightarrow> is4 p = is4 a \<and> zone_of a = []"
  by (cases p; cases a) (auto simp: prefix_contains_V4 prefix_contains_V6 drop_bit_word_beyond
      simp del: prefix_contains.simps(1,2))

text \<open>A block of \<open>n\<close> free low bits has at most \<open>2 ^ n\<close> addresses.\<close>

lemma uint_drop_bit_nat: "drop_bit n (uint a) = uint (drop_bit n (a :: 'a::len word))"
  by (rule bit_eqI) (simp add: bit_unsigned_iff bit_drop_bit_eq)

lemma card_drop_bit_block:
  fixes q :: "'a::len word"
  shows "card {a. drop_bit n a = q} \<le> 2 ^ n"
proof -
  have inj: "inj_on (\<lambda>a. take_bit n (uint a)) {a. drop_bit n a = q}"
  proof (rule inj_onI)
    fix a b :: "'a word"
    assume a: "a \<in> {a. drop_bit n a = q}" and b: "b \<in> {a. drop_bit n a = q}"
      and eq: "take_bit n (uint a) = take_bit n (uint b)"
    from a b have dr: "drop_bit n (uint a) = drop_bit n (uint b)"
      by (simp add: uint_drop_bit_nat)
    have "uint a = push_bit n (drop_bit n (uint a)) + take_bit n (uint a)"
      by (rule bits_ident [symmetric])
    also have "\<dots> = push_bit n (drop_bit n (uint b)) + take_bit n (uint b)"
      using eq dr by simp
    also have "\<dots> = uint b" by (rule bits_ident)
    finally have "uint a = uint b" .
    then show "a = b" by (simp add: word_uint_eq_iff)
  qed
  have "(\<lambda>a. take_bit n (uint a)) ` {a. drop_bit n a = q} \<subseteq> {0..<2 ^ n}"
    by auto
  then have "card ((\<lambda>a. take_bit n (uint a)) ` {a. drop_bit n a = q}) \<le> card {0..<2 ^ n :: int}"
    by (rule card_mono [rotated]) simp
  then show ?thesis by (simp add: card_image [OF inj] nat_power_eq)
qed

subsection \<open>An address printed is parsed back\<close>

lemma dec_digits_small:
  "0 \<le> k \<Longrightarrow> k < 10 \<Longrightarrow> dec_digits k = [char_of (48 + k)]"
  "10 \<le> k \<Longrightarrow> k < 100 \<Longrightarrow> dec_digits k = [char_of (48 + k div 10), char_of (48 + k mod 10)]"
  "100 \<le> k \<Longrightarrow> k < 1000 \<Longrightarrow>
     dec_digits k = [char_of (48 + k div 100), char_of (48 + k div 10 mod 10), char_of (48 + k mod 10)]"
proof -
  show one: "dec_digits k = [char_of (48 + k)]" if "0 \<le> k" "k < 10" for k
    using that by (subst dec_digits.simps) simp
  show two: "dec_digits k = [char_of (48 + k div 10), char_of (48 + k mod 10)]"
    if "10 \<le> k" "k < 100" for k
    using that by (subst dec_digits.simps) (simp add: one)
  show "dec_digits k = [char_of (48 + k div 100), char_of (48 + k div 10 mod 10), char_of (48 + k mod 10)]"
    if "100 \<le> k" "k < 1000" for k
  proof -
    have "dec_digits (k div 10) =
        [char_of (48 + k div 10 div 10), char_of (48 + k div 10 mod 10)]"
      using that by (intro two) auto
    moreover have "k div 10 div 10 = k div 100"
      by (simp add: div_mult2_eq [symmetric] zdiv_zmult2_eq [symmetric])
    ultimately show ?thesis using that by (subst dec_digits.simps) simp
  qed
qed

lemma v4_loop_octet:
  assumes k: "0 \<le> k" "k < 256"
  shows "v4_loop 0 0 fs (dec_digits k @ s) = v4_loop k (length (dec_digits k)) fs s"
proof -
  have dig: "is_digit (char_of (48 + j))" "byte_of (char_of (48 + j)) - 48 = j"
    if "0 \<le> j" "j < 10" for j :: int
    using that by (auto intro: is_digit_char_of simp: byte_of_digit simp del: byte_of_char_of)
  have step: "v4_loop v d fs (char_of (48 + j) # s) = v4_loop (v * 10 + j) (Suc d) fs s"
    if "0 \<le> j" "j < 10" "\<not> (d = 1 \<and> v = 0)" "v * 10 + j \<le> 255" for v d j fs s
    using that dig [of j] by (auto simp: Let_def simp del: byte_of_char_of)
  consider "k < 10" | "10 \<le> k" "k < 100" | "100 \<le> k" by linarith
  then show ?thesis
  proof cases
    case 1
    then show ?thesis using k dig [of k]
      by (simp add: dec_digits_small(1) Let_def del: byte_of_char_of)
  next
    case 2
    have s1: "1 \<le> k div 10" "k div 10 < 10" "0 \<le> k mod 10" "k mod 10 < 10"
      using 2 by auto
    have e: "k div 10 * 10 + k mod 10 = k" by simp
    have nk: "(255 < k) = False" "(255 < k div 10) = False" using 2 by auto
    show ?thesis using 2 s1 e dig [of "k div 10"] dig [of "k mod 10"]
      by (simp add: dec_digits_small(2) Let_def nk del: byte_of_char_of)
  next
    case 3
    define h t u where "h = k div 100" and "t = k div 10 mod 10" and "u = k mod 10"
    have dec: "dec_digits k = [char_of (48 + h), char_of (48 + t), char_of (48 + u)]"
      using 3 k by (simp add: dec_digits_small(3) h_def t_def u_def)
    have r: "1 \<le> h" "h < 10" "0 \<le> t" "t < 10" "0 \<le> u" "u < 10"
      using 3 k by (auto simp: h_def t_def u_def)
    have "k div 100 = k div 10 div 10" by (simp add: zdiv_zmult2_eq [symmetric])
    then have "h * 10 + t = k div 10"
      using div_mult_mod_eq [of "k div 10" 10] by (simp add: h_def t_def)
    then have e: "(h * 10 + t) * 10 + u = k" unfolding u_def by simp
    have "v4_loop 0 0 fs (char_of (48 + h) # char_of (48 + t) # char_of (48 + u) # s) =
        v4_loop (0 * 10 + h) (Suc 0) fs (char_of (48 + t) # char_of (48 + u) # s)"
      by (rule step) (use r in auto)
    also have "\<dots> = v4_loop ((0 * 10 + h) * 10 + t) (Suc (Suc 0)) fs (char_of (48 + u) # s)"
      by (rule step) (use r in auto)
    also have "\<dots> = v4_loop (((0 * 10 + h) * 10 + t) * 10 + u) (Suc (Suc (Suc 0))) fs s"
      by (rule step) (use r k e in auto)
    also have "((0 * 10 + h) * 10 + t) * 10 + u = k" using e by simp
    finally show ?thesis unfolding dec by simp
  qed
qed

lemma octet_range: "0 \<le> octet w i" "octet w i < 256"
  by (simp_all add: octet_def)

lemma v4_loop_dot:
  "d \<noteq> 0 \<Longrightarrow> s \<noteq> [] \<Longrightarrow> length fs \<noteq> 3 \<Longrightarrow>
    v4_loop v d fs (CHR ''.'' # s) = v4_loop 0 0 (v # fs) s"
  by (simp add: is_digit_def byte_of_def)

lemma octets_value:
  "foldl (\<lambda>a b. a * 256 + b) 0 [octet w 0, octet w 1, octet w 2, octet w 3] = uint w"
proof -
  have "uint w < 2 ^ 32" "0 \<le> uint w" using uint_lt2p [of w] by simp_all
  moreover have "uint w div (n * 256) * 256 + uint w div n mod 256 = uint w div n" if "0 < n" for n
    using that div_mult_mod_eq [of "uint w div n" 256] by (simp add: zdiv_zmult2_eq)
  from this [of 65536] this [of 256] this [of 1]
  have "uint w div 16777216 * 256 + uint w div 65536 mod 256 = uint w div 65536"
    "uint w div 65536 * 256 + uint w div 256 mod 256 = uint w div 256"
    "uint w div 256 * 256 + uint w mod 256 = uint w" by simp_all
  moreover have "uint w div 16777216 mod 256 = uint w div 16777216"
    using \<open>uint w < 2 ^ 32\<close> by (intro mod_pos_pos_trivial) (auto simp: div_less_iff_less_mult pos_imp_zdiv_nonneg_iff)
  ultimately show ?thesis by (simp add: octet_def)
qed

lemma v4_loop_v4_string:
  "v4_loop 0 0 [] (v4_string w) = Some [octet w 0, octet w 1, octet w 2, octet w 3]"
proof -
  have last: "v4_loop 0 0 fs (dec_digits (octet w 3)) =
      v4_loop (octet w 3) (length (dec_digits (octet w 3))) fs []" for fs
    using v4_loop_octet [of "octet w 3" fs "[]"] by (simp add: octet_range)
  show ?thesis
    by (simp add: v4_string_def v4_loop_octet octet_range v4_loop_dot last del: v4_loop.simps(2))
qed

lemma parse_ipv4_v4_string [simp]: "parse_ipv4 (v4_string w) = Some (V4 w)"
  unfolding parse_ipv4_def v4_loop_v4_string option.map(2) octets_value by simp

lemma no_special_in_digits:
  "0 \<le> n \<Longrightarrow> c \<in> set (dec_digits n) \<Longrightarrow> c \<noteq> CHR ''.'' \<and> c \<noteq> CHR '':'' \<and> c \<noteq> CHR ''%'' \<and> c \<noteq> CHR ''/''"
  using dec_digits_digits [of n] by (auto simp: list_all_iff is_digit_def byte_of_def)

lemma find_append_None: "find P xs = None \<Longrightarrow> find P (xs @ ys) = find P ys"
  by (induction xs) (auto split: if_splits)

lemma v4_string_no_slash [simp]: "CHR ''/'' \<notin> set (v4_string w)"
  using no_special_in_digits octet_range by (auto simp: v4_string_def)

lemma parse_addr_v4_string [simp]: "parse_addr (v4_string w) = Some (V4 w)"
proof -
  let ?P = "\<lambda>c. c = CHR ''.'' \<or> c = CHR '':'' \<or> c = CHR ''%''"
  have "find ?P (dec_digits (octet w 0)) = None"
    using no_special_in_digits [OF octet_range(1)] by (auto simp: find_None_iff)
  then have "find ?P (v4_string w) = Some (CHR ''.'')"
    by (simp add: v4_string_def find_append_None)
  then show ?thesis by (simp add: parse_addr_def)
qed

lemma v4_string_no_space: "c \<in> set (v4_string w) \<Longrightarrow> is_digit c \<or> c = CHR ''.''"
  using dec_digits_digits [OF octet_range(1)] by (auto simp: v4_string_def list_all_iff)

lemma trim_v4_string [simp]: "trim_space (v4_string w) = v4_string w"
proof (rule space_seqs_not_printable)
  fix c
  assume "c \<in> set (v4_string w)"
  then show "33 \<le> byte_of c \<and> byte_of c < 127"
    using v4_string_no_space [of c w] by (auto simp: is_digit_def byte_of_def)
qed

lemma parse_prefix_V4_string:
  assumes b: "b \<le> 32"
  shows "parse_prefix (prefix_string (Prefix (V4 w) b)) = Some (Prefix (V4 w) b)"
proof -
  let ?d = "dec_digits (int b)"
  have "CHR ''/'' \<notin> set ?d" using no_special_in_digits [of "int b"] by auto
  then have cut: "cut_last (CHR ''/'') (prefix_string (Prefix (V4 w) b)) = Some (v4_string w, ?d)"
    by (simp add: prefix_string_def cut_last_append)
  have lead: "\<not> (length ?d > 1 \<and> \<not> (49 \<le> byte_of (hd ?d) \<and> byte_of (hd ?d) \<le> 57))"
  proof (cases "b < 10")
    case True
    then show ?thesis by (simp add: dec_digits_small(1))
  next
    case False
    then have q: "1 \<le> int b div 10" "int b div 10 < 10" using b by auto
    then have "byte_of (char_of (48 + int b div 10)) = 48 + int b div 10" by (intro byte_of_digit) auto
    then show ?thesis using False b q by (simp add: dec_digits_small(2) del: byte_of_char_of)
  qed
  have "atoi ?d = Some (int b)" using b by (simp add: atoi_def parse_int64_dec_digits)
  with cut lead b show ?thesis by (simp add: parse_prefix_def prefix_from_def)
qed

end
