(* ===== verification/KTombstones.thy ===== *)
theory KTombstones
  imports GoNet "HOL-Library.AList"
begin

section \<open>moswaf-kbans: addresses released too recently to re-add\<close>

text \<open>
  \<open>control/cmd/moswaf-kbans/tombstone.go\<close>. The map \<open>t_upto\<close> is an association list with distinct
  keys (\<open>tombs_inv\<close>, kept by every operation), a time is a number of nanoseconds. The lemmas give
  what \<open>held\<close> answers after each operation; the locale \<open>release_notes\<close> states them as the
  interface the reconcile relies on, and is interpreted on the operations of this file.
\<close>

record tombstones =
  t_upto :: "(addr \<times> int) list"

definition newTombstones :: tombstones where
  "newTombstones = \<lparr>t_upto = []\<rparr>"

definition mark :: "addr \<Rightarrow> int \<Rightarrow> int \<Rightarrow> tombstones \<Rightarrow> tombstones" where
  "mark a now d t = t\<lparr>t_upto := AList.update a (now + d) (t_upto t)\<rparr>"

definition clear :: "addr \<Rightarrow> tombstones \<Rightarrow> tombstones" where
  "clear a t = t\<lparr>t_upto := AList.delete a (t_upto t)\<rparr>"

definition held :: "addr \<Rightarrow> int \<Rightarrow> tombstones \<Rightarrow> bool" where
  "held a now t = (case map_of (t_upto t) a of None \<Rightarrow> False | Some until \<Rightarrow> now < until)"

definition prune :: "int \<Rightarrow> tombstones \<Rightarrow> tombstones" where
  "prune now t = t\<lparr>t_upto := filter (\<lambda>(a, until). now < until) (t_upto t)\<rparr>"

definition tombs_len :: "tombstones \<Rightarrow> nat" where
  "tombs_len t = length (t_upto t)"

definition tombs_inv :: "tombstones \<Rightarrow> bool" where
  "tombs_inv t \<longleftrightarrow> distinct (map fst (t_upto t))"

subsection \<open>Every operation keeps the keys distinct\<close>

named_theorems tombs_simps

lemma tombs_inv_new [tombs_simps]: "tombs_inv newTombstones"
  by (simp add: tombs_inv_def newTombstones_def)

lemma tombs_inv_mark [tombs_simps]: "tombs_inv t \<Longrightarrow> tombs_inv (mark a now d t)"
  by (simp add: tombs_inv_def mark_def distinct_update)

lemma tombs_inv_clear [tombs_simps]: "tombs_inv t \<Longrightarrow> tombs_inv (clear a t)"
  by (simp add: tombs_inv_def clear_def distinct_delete)

lemma distinct_map_fst_filter: "distinct (map fst xs) \<Longrightarrow> distinct (map fst (filter P xs))"
  by (induction xs) auto

lemma tombs_inv_prune [tombs_simps]: "tombs_inv t \<Longrightarrow> tombs_inv (prune now t)"
  by (simp add: tombs_inv_def prune_def distinct_map_fst_filter)

subsection \<open>What a lookup answers after each operation\<close>

lemma held_new [tombs_simps]: "\<not> held a now newTombstones"
  by (simp add: held_def newTombstones_def)

lemma held_mark [tombs_simps]:
  "held b later (mark a now d t) = (if b = a then later < now + d else held b later t)"
  by (simp add: held_def mark_def update_conv)

lemma held_clear [tombs_simps]: "held b now (clear a t) = (b \<noteq> a \<and> held b now t)"
  by (simp add: held_def clear_def delete_conv)

lemma map_of_filter_until:
  "distinct (map fst xs) \<Longrightarrow> map_of (filter (\<lambda>(a, until). now < until) xs) a =
     (case map_of xs a of None \<Rightarrow> None | Some u \<Rightarrow> if now < u then Some u else None)"
proof (induction xs)
  case Nil
  then show ?case by simp
next
  case (Cons x xs)
  obtain b u where x: "x = (b, u)" by (cases x)
  have "map_of xs b = None" using Cons.prems x by (auto simp: map_of_eq_None_iff)
  then show ?case using Cons x by auto
qed

lemma held_prune [tombs_simps]:
  "tombs_inv t \<Longrightarrow> held a later (prune now t) = (held a later t \<and> held a now t)"
  by (auto simp: held_def prune_def tombs_inv_def map_of_filter_until split: option.splits)

lemma prune_keeps_held: "tombs_inv t \<Longrightarrow> now \<le> later \<Longrightarrow> held a later t \<Longrightarrow> held a later (prune now t)"
  by (auto simp: tombs_simps) (auto simp: held_def split: option.splits)

lemma prune_len:
  assumes "tombs_inv t"
  shows "tombs_len (prune now t) = card {a. held a now t}"
proof -
  let ?xs = "filter (\<lambda>(a, until). now < until) (t_upto t)"
  have d: "distinct (map fst ?xs)" using assms by (simp add: tombs_inv_def distinct_map_fst_filter)
  have "a \<in> fst ` set ?xs \<longleftrightarrow> held a now t" for a
  proof -
    have "a \<in> fst ` set ?xs \<longleftrightarrow> map_of ?xs a \<noteq> None" by (simp only: map_of_eq_None_iff) simp
    also have "\<dots> \<longleftrightarrow> held a now t"
      using assms by (simp add: map_of_filter_until tombs_inv_def held_def split: option.split)
    finally show ?thesis .
  qed
  then have "fst ` set ?xs = {a. held a now t}" by blast
  moreover have "length ?xs = card (set (map fst ?xs))" using d distinct_card [of "map fst ?xs"] by (simp only: length_map)
  ultimately show ?thesis by (simp only: tombs_len_def prune_def set_map) simp
qed

subsection \<open>The interface the reconcile relies on\<close>

locale release_notes =
  fixes inv :: "'t \<Rightarrow> bool"
    and note_of :: "addr \<Rightarrow> int \<Rightarrow> int \<Rightarrow> 't \<Rightarrow> 't"
    and forget :: "addr \<Rightarrow> 't \<Rightarrow> 't"
    and tidy :: "int \<Rightarrow> 't \<Rightarrow> 't"
    and blocks :: "addr \<Rightarrow> int \<Rightarrow> 't \<Rightarrow> bool"
  assumes inv_note: "inv t \<Longrightarrow> inv (note_of a now d t)"
    and inv_forget: "inv t \<Longrightarrow> inv (forget a t)"
    and inv_tidy: "inv t \<Longrightarrow> inv (tidy now t)"
    and blocks_note: "blocks b later (note_of a now d t) = (if b = a then later < now + d else blocks b later t)"
    and blocks_forget: "blocks b now (forget a t) = (b \<noteq> a \<and> blocks b now t)"
    and blocks_tidy: "inv t \<Longrightarrow> blocks b later (tidy now t) = (blocks b later t \<and> blocks b now t)"
    and blocks_mono: "blocks b later t \<Longrightarrow> now \<le> later \<Longrightarrow> blocks b now t"
begin

lemma tidy_harmless: "inv t \<Longrightarrow> now \<le> later \<Longrightarrow> blocks b later (tidy now t) = blocks b later t"
  using blocks_tidy blocks_mono by blast

lemma note_survives_tidy:
  "inv t \<Longrightarrow> later < now + d \<Longrightarrow> mid \<le> later \<Longrightarrow> blocks a later (tidy mid (note_of a now d t))"
  by (simp add: tidy_harmless inv_note blocks_note)

lemma notes_fold:
  "inv t \<Longrightarrow> inv (foldl (\<lambda>t a. note_of a now d t) t as) \<and>
    blocks b later (foldl (\<lambda>t a. note_of a now d t) t as) =
      (if b \<in> set as then later < now + d else blocks b later t)"
  by (induction as arbitrary: t) (auto simp: inv_note blocks_note)

end

interpretation rn: release_notes tombs_inv mark clear prune held
proof
  show "held b now t" if "held b later t" "now \<le> later" for b later t now
    using that by (auto simp: held_def split: option.splits)
qed (auto simp: tombs_simps)

text \<open>
  A note outlives the cycle it was made in: after \<open>mark\<close> at time \<open>now\<close>, and any pruning done
  before, the address is held exactly until \<open>now + d\<close>; pruning forgets no note that still counts;
  and what remains after a prune is one entry per address still held.
\<close>

theorem tombstone_window:
  assumes "tombs_inv t" and "mid \<le> later"
  shows "held b later (prune mid (mark a now d t)) = (if b = a then later < now + d else held b later t)
    \<and> tombs_len (prune mid t) = card {b. held b mid t}"
  using assms by (simp add: rn.tidy_harmless rn.inv_note rn.blocks_note prune_len)

lemma tombstone_window_witness:
  "held (V4 7) 50 (prune 20 (mark (V4 7) 0 120 \<lparr>t_upto = [(V4 9, 30)]\<rparr>)) \<and>
   tombs_len (prune 40 \<lparr>t_upto = [(V4 9, 30)]\<rparr>) = card {b. held b 40 \<lparr>t_upto = [(V4 9, 30)]\<rparr>}"
  using tombstone_window [of "\<lparr>t_upto = [(V4 9, 30)]\<rparr>" 20 50 "V4 7" "V4 7" 0 120]
    tombstone_window [of "\<lparr>t_upto = [(V4 9, 30)]\<rparr>" 40 40]
  by (simp add: tombs_inv_def)

end
