(* ===== verification/KAllowlist.thy ===== *)
theory KAllowlist
  imports GoNet
begin

section \<open>moswaf-kbans: the addresses the agent never drops\<close>

text \<open>
  \<open>control/cmd/moswaf-kbans/allowlist.go\<close>: \<open>neverDrop\<close> with its two fields, \<open>newNeverDrop\<close> with
  each of its refusals as a value of \<open>nd_error\<close>, \<open>covers\<close> with the reason it returns and
  \<open>parsePrefix\<close>. The lemmas characterise \<open>covers\<close> by the ranges of the list and show that a list
  that could be built at all protects its management ranges and every infrastructure range.
\<close>

definition infrastructure :: "string list" where
  "infrastructure = [''0.0.0.0/8'', ''10.0.0.0/8'', ''100.64.0.0/10'', ''127.0.0.0/8'',
     ''169.254.0.0/16'', ''172.16.0.0/12'', ''192.168.0.0/16'', ''224.0.0.0/4'', ''240.0.0.0/4'',
     ''ff00::/8'', ''::1/128'', ''::/128'', ''fc00::/7'', ''fe80::/10'']"

record never_drop =
  nd_prefixes :: "ipprefix list"
  nd_management :: "string list"

datatype nd_error =
    BadManagement string
  | NoManagement
  | BadInfrastructure string
  | BadSubnet string

definition parsePrefix :: "string \<Rightarrow> ipprefix option" where
  "parsePrefix raw =
     (if str_contains ''/'' raw then map_option masked (parse_prefix raw)
      else map_option (\<lambda>a. prefix_from (unmap_addr a) (bit_len (unmap_addr a))) (parse_addr raw))"

text \<open>The loop over the management ranges and the one over the container subnets.\<close>

fun read_ranges :: "string list \<Rightarrow> string + ipprefix list" where
  "read_ranges [] = Inr []"
| "read_ranges (raw # rest) =
     (let r = trim_space raw
      in if r = [] then read_ranges rest
         else (case parsePrefix r of
                 None \<Rightarrow> Inl r
               | Some p \<Rightarrow> (case read_ranges rest of Inl e \<Rightarrow> Inl e | Inr ps \<Rightarrow> Inr (p # ps))))"

definition parse_const :: "string \<Rightarrow> string + ipprefix" where
  "parse_const raw = (case parsePrefix raw of None \<Rightarrow> Inl raw | Some p \<Rightarrow> Inr p)"

definition newNeverDrop :: "string list \<Rightarrow> string list \<Rightarrow> nd_error + never_drop" where
  "newNeverDrop managementCIDRs dockerSubnets =
     (case read_ranges managementCIDRs of
        Inl r \<Rightarrow> Inl (BadManagement r)
      | Inr ms \<Rightarrow>
          if ms = [] then Inl NoManagement
          else (case map_res parse_const infrastructure of
                  Inl r \<Rightarrow> Inl (BadInfrastructure r)
                | Inr fs \<Rightarrow>
                    (case read_ranges dockerSubnets of
                       Inl r \<Rightarrow> Inl (BadSubnet r)
                     | Inr ds \<Rightarrow> Inr \<lparr>nd_prefixes = ms @ fs @ ds,
                                       nd_management = map prefix_string ms\<rparr>)))"

fun covers_loop :: "addr \<Rightarrow> ipprefix list \<Rightarrow> bool \<times> string" where
  "covers_loop a [] = (False, [])"
| "covers_loop a (p # ps) =
     (if is4 (pfx_addr p) \<noteq> is4 a then covers_loop a ps
      else if prefix_contains p a then (True, prefix_string p)
      else covers_loop a ps)"

definition covers :: "never_drop \<Rightarrow> addr \<Rightarrow> bool \<times> string" where
  "covers n a = covers_loop (unmap_addr a) (nd_prefixes n)"

subsection \<open>What covers answers\<close>

lemma covers_loop_iff: "fst (covers_loop a ps) \<longleftrightarrow> (\<exists>p \<in> set ps. prefix_contains p a)"
  by (induction ps) (auto dest: prefix_contains_family)

lemma covers_loop_reason:
  "covers_loop a ps = (True, why) \<Longrightarrow> \<exists>p \<in> set ps. prefix_contains p a \<and> why = prefix_string p"
  by (induction ps) (auto split: if_splits)

lemma covers_iff: "fst (covers n a) \<longleftrightarrow> (\<exists>p \<in> set (nd_prefixes n). prefix_contains p (unmap_addr a))"
  by (simp add: covers_def covers_loop_iff)

lemma covers_unmap [simp]: "covers n (unmap_addr a) = covers n a"
  by (simp add: covers_def)

lemma covers_zoned: "zone_of (unmap_addr a) \<noteq> [] \<Longrightarrow> \<not> fst (covers n a)"
  by (auto simp: covers_iff dest: prefix_contains_zone)

subsection \<open>What a list that was built holds\<close>

lemma read_ranges_set:
  "read_ranges raws = Inr ps \<Longrightarrow>
     set ps = {p. \<exists>raw \<in> set raws. trim_space raw \<noteq> [] \<and> parsePrefix (trim_space raw) = Some p}"
proof (induction raws arbitrary: ps)
  case Nil
  then show ?case by simp
next
  case (Cons raw raws)
  then show ?case by (auto simp: Let_def split: if_splits option.splits sum.splits)
qed

lemma newNeverDrop_Inr:
  assumes "newNeverDrop m d = Inr nd"
  obtains ms fs ds where "read_ranges m = Inr ms" "ms \<noteq> []" "map_res parse_const infrastructure = Inr fs"
    "read_ranges d = Inr ds" "nd = \<lparr>nd_prefixes = ms @ fs @ ds, nd_management = map prefix_string ms\<rparr>"
  using assms by (auto simp: newNeverDrop_def split: sum.splits if_splits)

definition infrastructure_prefixes :: "ipprefix list" where
  "infrastructure_prefixes =
     [Prefix (V4 0) 8, Prefix (V4 0x0a000000) 8, Prefix (V4 0x64400000) 10, Prefix (V4 0x7f000000) 8,
      Prefix (V4 0xa9fe0000) 16, Prefix (V4 0xac100000) 12, Prefix (V4 0xc0a80000) 16,
      Prefix (V4 0xe0000000) 4, Prefix (V4 0xf0000000) 4, Prefix (V6 (push_bit 120 0xff) []) 8,
      Prefix (V6 1 []) 128, Prefix (V6 0 []) 128, Prefix (V6 (push_bit 120 0xfc) []) 7,
      Prefix (V6 (push_bit 112 0xfe80) []) 10]"

lemma infrastructure_parses: "map_res parse_const infrastructure = Inr infrastructure_prefixes"
  by code_simp

lemma infrastructure_trimmed:
  "raw \<in> set infrastructure \<Longrightarrow> trim_space raw = raw \<and> raw \<noteq> []"
proof -
  have "list_all (\<lambda>raw. list_all (\<lambda>c. 33 \<le> byte_of c \<and> byte_of c < 127) raw \<and> raw \<noteq> []) infrastructure" by code_simp
  then show "raw \<in> set infrastructure \<Longrightarrow> trim_space raw = raw \<and> raw \<noteq> []"
    unfolding list_all_iff by (blast intro: space_seqs_not_printable)
qed

lemma map_res_parse_const:
  "map_res parse_const raws = Inr ps \<Longrightarrow> set ps = {p. \<exists>raw \<in> set raws. parsePrefix raw = Some p}"
proof (induction raws arbitrary: ps)
  case Nil
  then show ?case by simp
next
  case (Cons raw raws)
  then show ?case by (auto simp: parse_const_def split: option.splits sum.splits)
qed

lemma nd_prefixes_set:
  assumes "newNeverDrop m d = Inr nd"
  shows "set (nd_prefixes nd) = {p. \<exists>raw \<in> set m \<union> set infrastructure \<union> set d.
     trim_space raw \<noteq> [] \<and> parsePrefix (trim_space raw) = Some p}"
  using assms
proof (rule newNeverDrop_Inr)
  fix ms fs ds
  assume m: "read_ranges m = Inr ms" and f: "map_res parse_const infrastructure = Inr fs"
    and d: "read_ranges d = Inr ds"
    and nd: "nd = \<lparr>nd_prefixes = ms @ fs @ ds, nd_management = map prefix_string ms\<rparr>"
  have "set fs = {p. \<exists>raw \<in> set infrastructure. trim_space raw \<noteq> [] \<and> parsePrefix (trim_space raw) = Some p}"
    using map_res_parse_const [OF f] infrastructure_trimmed by auto
  then show ?thesis
    using read_ranges_set [OF m] read_ranges_set [OF d] nd by auto
qed

lemma infrastructure_covered:
  assumes "newNeverDrop m d = Inr nd" "p \<in> set infrastructure_prefixes" "prefix_contains p (unmap_addr a)"
  shows "fst (covers nd a)"
  using assms(1)
proof (rule newNeverDrop_Inr)
  fix ms fs ds
  assume "map_res parse_const infrastructure = Inr fs"
    and "nd = \<lparr>nd_prefixes = ms @ fs @ ds, nd_management = map prefix_string ms\<rparr>"
  with assms(2,3) show "fst (covers nd a)"
    by (auto simp: infrastructure_parses covers_iff)
qed

lemma parsePrefix_v4_string [simp]: "parsePrefix (v4_string w) = Some (Prefix (V4 w) 32)"
proof -
  have "\<not> str_contains ''/'' (v4_string w)"
    using v4_string_no_slash [of w] unfolding str_contains_iff
    by (metis append_Cons append_Nil in_set_conv_decomp)
  then show ?thesis by (simp add: parsePrefix_def prefix_from_def)
qed

subsection \<open>Properties\<close>

lemma read_ranges_ok:
  "(\<exists>ps. read_ranges raws = Inr ps) \<longleftrightarrow> (\<forall>raw \<in> set raws. trim_space raw \<noteq> [] \<longrightarrow> parsePrefix (trim_space raw) \<noteq> None)"
proof (induction raws)
  case (Cons raw raws)
  then show ?case by (cases "read_ranges raws") (auto simp: Let_def split: option.split)
qed simp

lemma newNeverDrop_ok:
  "(\<exists>nd. newNeverDrop m d = Inr nd) \<longleftrightarrow>
     (\<exists>raw \<in> set m. trim_space raw \<noteq> [])
     \<and> (\<forall>raw \<in> set m \<union> set d. trim_space raw \<noteq> [] \<longrightarrow> parsePrefix (trim_space raw) \<noteq> None)"
proof -
  have "ms = [] \<longleftrightarrow> (\<forall>raw \<in> set m. trim_space raw = [])" if "read_ranges m = Inr ms" for ms
  proof -
    have p: "parsePrefix (trim_space raw) \<noteq> None" if "raw \<in> set m" "trim_space raw \<noteq> []" for raw
      using read_ranges_ok [of m] \<open>read_ranges m = Inr ms\<close> that by blast
    have "ms = [] \<longleftrightarrow> set ms = {}" by simp
    then show ?thesis unfolding read_ranges_set [OF that] using p by fastforce
  qed
  then show ?thesis using read_ranges_ok [of m] read_ranges_ok [of d]
    by (auto simp: newNeverDrop_def infrastructure_parses split: sum.splits)
qed

text \<open>
  C34 The agent starts exactly with a complete configuration: \<open>newNeverDrop\<close> succeeds if and only if at least
  one management range is given, blank entries not counted, and every entry of both lists that is not blank
  parses. The refusal list is then exactly what was configured plus the fourteen infrastructure ranges:
  \<open>covers\<close> answers true for an address precisely when a configured or built-in range contains it, and the
  reason it gives is the text of a range that does.
\<close>

theorem never_drop_exact:
  "((\<exists>nd. newNeverDrop m d = Inr nd) \<longleftrightarrow>
     (\<exists>raw \<in> set m. trim_space raw \<noteq> [])
     \<and> (\<forall>raw \<in> set m \<union> set d. trim_space raw \<noteq> [] \<longrightarrow> parsePrefix (trim_space raw) \<noteq> None))
   \<and> (\<forall>nd. newNeverDrop m d = Inr nd \<longrightarrow>
        (let ranges = {p. \<exists>raw \<in> set m \<union> set d. trim_space raw \<noteq> [] \<and> parsePrefix (trim_space raw) = Some p}
             \<union> set infrastructure_prefixes
         in (fst (covers nd a) \<longleftrightarrow> (\<exists>p \<in> ranges. prefix_contains p (unmap_addr a)))
          \<and> (\<forall>why. covers nd a = (True, why) \<longrightarrow> (\<exists>p \<in> ranges. prefix_contains p (unmap_addr a) \<and> why = prefix_string p))))"
proof (intro conjI allI impI, rule newNeverDrop_ok)
  fix nd assume nd: "newNeverDrop m d = Inr nd"
  have i: "set infrastructure_prefixes = {p. \<exists>raw \<in> set infrastructure. trim_space raw \<noteq> [] \<and> parsePrefix (trim_space raw) = Some p}"
    using map_res_parse_const [OF infrastructure_parses] infrastructure_trimmed by auto
  have s: "{p. \<exists>raw \<in> set m \<union> set d. trim_space raw \<noteq> [] \<and> parsePrefix (trim_space raw) = Some p} \<union> set infrastructure_prefixes
      = set (nd_prefixes nd)"
    unfolding i nd_prefixes_set [OF nd] by auto
  show "let ranges = {p. \<exists>raw \<in> set m \<union> set d. trim_space raw \<noteq> [] \<and> parsePrefix (trim_space raw) = Some p}
             \<union> set infrastructure_prefixes
         in (fst (covers nd a) \<longleftrightarrow> (\<exists>p \<in> ranges. prefix_contains p (unmap_addr a)))
          \<and> (\<forall>why. covers nd a = (True, why) \<longrightarrow> (\<exists>p \<in> ranges. prefix_contains p (unmap_addr a) \<and> why = prefix_string p))"
    unfolding s Let_def using covers_loop_reason [of "unmap_addr a" "nd_prefixes nd"] by (simp add: covers_iff covers_def [symmetric])
qed

text \<open>
  Starting at all means being safe: \<open>newNeverDrop\<close> refuses a configuration without a
  management range; once it succeeds, every bare IPv4 address listed as management is refused,
  and so is every address of the fourteen infrastructure ranges (in its mapped form too).
\<close>

theorem never_drop_protects:
  assumes "newNeverDrop m d = Inr nd"
  shows "nd_management nd \<noteq> []
    \<and> (v4_string w \<in> set m \<longrightarrow> fst (covers nd (V4 w)))
    \<and> (\<forall>p \<in> set infrastructure_prefixes. prefix_contains p (unmap_addr a) \<longrightarrow> fst (covers nd a))"
proof -
  have "nd_management nd \<noteq> []" using assms by (rule newNeverDrop_Inr) auto
  moreover have "fst (covers nd (V4 w))" if "v4_string w \<in> set m"
  proof -
    have "v4_string w \<noteq> []" by (simp add: v4_string_def)
    then have "Prefix (V4 w) 32 \<in> set (nd_prefixes nd)"
      using that unfolding nd_prefixes_set [OF assms] by (auto intro!: bexI [of _ "v4_string w"])
    then show ?thesis by (force simp: covers_iff)
  qed
  ultimately show ?thesis using infrastructure_covered [OF assms] by blast
qed

lemma newNeverDrop_example:
  "newNeverDrop [''59.153.224.0/20'', '' 203.0.113.7 ''] [''172.17.0.0/16''] =
     Inr \<lparr>nd_prefixes = [Prefix (V4 0x3b99e000) 20, Prefix (V4 0xcb007107) 32] @ infrastructure_prefixes
            @ [Prefix (V4 0xac110000) 16],
          nd_management = [''59.153.224.0/20'', ''203.0.113.7/32'']\<rparr>"
proof -
  have "read_ranges [''59.153.224.0/20'', '' 203.0.113.7 ''] =
      Inr [Prefix (V4 0x3b99e000) 20, Prefix (V4 0xcb007107) 32]" by code_simp
  moreover have "read_ranges [''172.17.0.0/16''] = Inr [Prefix (V4 0xac110000) 16]" by code_simp
  moreover have "map prefix_string [Prefix (V4 0x3b99e000) 20, Prefix (V4 0xcb007107) 32] =
      [''59.153.224.0/20'', ''203.0.113.7/32'']" by code_simp
  ultimately show ?thesis by (simp add: newNeverDrop_def infrastructure_parses)
qed

lemma never_drop_exact_witness:
  "fst (covers \<lparr>nd_prefixes = [Prefix (V4 0x3b99e000) 20, Prefix (V4 0xcb007107) 32] @ infrastructure_prefixes
            @ [Prefix (V4 0xac110000) 16],
          nd_management = [''59.153.224.0/20'', ''203.0.113.7/32'']\<rparr> (V4 0x0a000001))
   \<and> (\<exists>raw \<in> set [''59.153.224.0/20'', '' 203.0.113.7 '']. trim_space raw \<noteq> [])"
proof -
  have "Prefix (V4 0x0a000000) 8 \<in> set infrastructure_prefixes" by (simp add: infrastructure_prefixes_def)
  moreover have "prefix_contains (Prefix (V4 0x0a000000) 8) (unmap_addr (V4 0x0a000001))" by code_simp
  ultimately show ?thesis
    using never_drop_exact [of "[''59.153.224.0/20'', '' 203.0.113.7 '']" "[''172.17.0.0/16'']" "V4 0x0a000001"]
      newNeverDrop_example unfolding Let_def by blast
qed

lemma newNeverDrop_example2:
  "newNeverDrop [v4_string 0xcb007107] [] =
     Inr \<lparr>nd_prefixes = Prefix (V4 0xcb007107) 32 # infrastructure_prefixes,
          nd_management = [prefix_string (Prefix (V4 0xcb007107) 32)]\<rparr>"
proof -
  have "v4_string 0xcb007107 \<noteq> []" by (simp add: v4_string_def)
  then have "read_ranges [v4_string 0xcb007107] = Inr [Prefix (V4 0xcb007107) 32]" by simp
  then show ?thesis by (simp add: newNeverDrop_def infrastructure_parses)
qed

lemma never_drop_protects_witness:
  "fst (covers \<lparr>nd_prefixes = Prefix (V4 0xcb007107) 32 # infrastructure_prefixes,
          nd_management = [prefix_string (Prefix (V4 0xcb007107) 32)]\<rparr> (V4 0xcb007107)) \<and>
   fst (covers \<lparr>nd_prefixes = Prefix (V4 0xcb007107) 32 # infrastructure_prefixes,
          nd_management = [prefix_string (Prefix (V4 0xcb007107) 32)]\<rparr> (V6 0xffff0a010203 []))"
proof -
  have p: "Prefix (V4 0x0a000000) 8 \<in> set infrastructure_prefixes"
    by (simp add: infrastructure_prefixes_def)
  have c: "prefix_contains (Prefix (V4 0x0a000000) 8) (unmap_addr (V6 0xffff0a010203 []))" by code_simp
  have m: "v4_string 0xcb007107 \<in> set [v4_string 0xcb007107]" by simp
  show ?thesis
    using never_drop_protects [OF newNeverDrop_example2, of "0xcb007107" "V6 0xffff0a010203 []"] p c m
    by blast
qed

text \<open>
  An address with a zone is never refused, whatever the list holds: \<open>netip.Prefix.Contains\<close>
  answers false for it. \<open>fe80::1%eth0\<close> and \<open>::1%lo\<close> parse, lie in the infrastructure ranges
  without their zone, and \<open>covers\<close> still says they may be dropped.
\<close>

theorem zoned_address_not_refused:
  "parse_addr ''fe80::1%eth0'' = Some (V6 (push_bit 112 0xfe80 + 1) ''eth0'')
   \<and> fst (covers nd (V6 (push_bit 112 0xfe80 + 1) ''eth0'')) = False
   \<and> (\<exists>p \<in> set infrastructure_prefixes. prefix_contains p (without_zone (V6 (push_bit 112 0xfe80 + 1) ''eth0'')))
   \<and> parse_addr ''::1%lo'' = Some (V6 1 ''lo'') \<and> fst (covers nd (V6 1 ''lo'')) = False"
proof (intro conjI)
  show "parse_addr ''fe80::1%eth0'' = Some (V6 (push_bit 112 0xfe80 + 1) ''eth0'')" by code_simp
  show "parse_addr ''::1%lo'' = Some (V6 1 ''lo'')" by code_simp
  have "zone_of (unmap_addr (V6 (push_bit 112 0xfe80 + 1) ''eth0'')) \<noteq> []" by code_simp
  then show "fst (covers nd (V6 (push_bit 112 0xfe80 + 1) ''eth0'')) = False" using covers_zoned by blast
  have "zone_of (unmap_addr (V6 1 ''lo'')) \<noteq> []" by code_simp
  then show "fst (covers nd (V6 1 ''lo'')) = False" using covers_zoned by blast
  have "prefix_contains (Prefix (V6 (push_bit 112 0xfe80) []) 10)
      (without_zone (V6 (push_bit 112 0xfe80 + 1) ''eth0''))" by code_simp
  then show "\<exists>p \<in> set infrastructure_prefixes.
      prefix_contains p (without_zone (V6 (push_bit 112 0xfe80 + 1) ''eth0''))"
    unfolding infrastructure_prefixes_def list.set by blast
qed

text \<open>
  A management range written in IPv4-mapped form is accepted and protects nobody:
  \<open>parsePrefix\<close> unmaps a bare address but not a CIDR, while \<open>covers\<close> unmaps what it compares.
\<close>

theorem mapped_management_range_dead:
  "newNeverDrop [''::ffff:59.153.224.0/116''] [] =
     Inr \<lparr>nd_prefixes = Prefix (V6 0xffff3b99e000 []) 116 # infrastructure_prefixes,
          nd_management = [''::ffff:59.153.224.0/116'']\<rparr>
   \<and> fst (covers \<lparr>nd_prefixes = Prefix (V6 0xffff3b99e000 []) 116 # infrastructure_prefixes,
          nd_management = [''::ffff:59.153.224.0/116'']\<rparr> (V4 0x3b99e43e)) = False"
proof
  have "read_ranges [''::ffff:59.153.224.0/116''] = Inr [Prefix (V6 0xffff3b99e000 []) 116]" by code_simp
  moreover have "prefix_string (Prefix (V6 0xffff3b99e000 []) 116) = ''::ffff:59.153.224.0/116''" by code_simp
  ultimately show "newNeverDrop [''::ffff:59.153.224.0/116''] [] =
     Inr \<lparr>nd_prefixes = Prefix (V6 0xffff3b99e000 []) 116 # infrastructure_prefixes,
          nd_management = [''::ffff:59.153.224.0/116'']\<rparr>"
    by (simp add: newNeverDrop_def infrastructure_parses)
  show "fst (covers \<lparr>nd_prefixes = Prefix (V6 0xffff3b99e000 []) 116 # infrastructure_prefixes,
          nd_management = [''::ffff:59.153.224.0/116'']\<rparr> (V4 0x3b99e43e)) = False"
    by code_simp
qed

end
