(* ===== verification/GoJson.thy ===== *)
theory GoJson
  imports Prelude
begin

section \<open>The package encoding/json: decoding into structs\<close>

text \<open>
  \<open>json.Unmarshal\<close> in two halves. The syntax (bytes to a value) is a parameter of every
  definition that decodes, \<open>parse_json\<close>, with \<open>None\<close> for a syntax error. The second half is
  written out here: which object key a struct field takes (the last one whose name matches up to
  case), what a \<open>null\<close> does (nothing, except to a slice, which becomes nil), and which values are a type error. A number keeps its
  literal, as the decoder's \<open>literalStore\<close> does.
\<close>

datatype json =
    JNull
  | JBool bool
  | JNum string
  | JStr string
  | JArr "json list"
  | JObj "(string \<times> json) list"

text \<open>
  \<open>foldName\<close>: the simple case folding of a key. Besides the ASCII letters, the two code points
  that fold to an ASCII letter are U+017F (to s) and U+212A (to k).
\<close>

fun fold_name :: "string \<Rightarrow> string" where
  "fold_name (a # b # c # s) =
     (if [a, b] = [CHR 0xC5, CHR 0xBF] then CHR ''s'' # fold_name (c # s)
      else if [a, b, c] = [CHR 0xE2, CHR 0x84, CHR 0xAA] then CHR ''k'' # fold_name s
      else lower_char a # fold_name (b # c # s))"
| "fold_name [a, b] = (if [a, b] = [CHR 0xC5, CHR 0xBF] then ''s'' else [lower_char a, lower_char b])"
| "fold_name s = map lower_char s"

text \<open>
  The last value given for a struct field, a \<open>null\<close> leaving the field as it was; \<open>JNull\<close> when there
  is none. (The type of an earlier duplicate of the same field is not checked.)
\<close>

definition jfield :: "string \<Rightarrow> (string \<times> json) list \<Rightarrow> json" where
  "jfield name kvs = (case filter (\<lambda>(k, v). fold_name k = fold_name name \<and> v \<noteq> JNull) kvs of
     [] \<Rightarrow> JNull | ms \<Rightarrow> snd (last ms))"

text \<open>For a slice or a pointer a \<open>null\<close> counts: it sets nil. \<open>None\<close> when the key is absent.\<close>

definition jlast :: "string \<Rightarrow> (string \<times> json) list \<Rightarrow> json option" where
  "jlast name kvs = (case filter (\<lambda>(k, v). fold_name k = fold_name name) kvs of
     [] \<Rightarrow> None | ms \<Rightarrow> Some (snd (last ms)))"

definition jslice :: "string \<Rightarrow> (string \<times> json) list \<Rightarrow> json" where
  "jslice name kvs = (case jlast name kvs of None \<Rightarrow> JNull | Some j \<Rightarrow> j)"

text \<open>The value of a map key: exact names only, the last one counts.\<close>

definition jkey :: "string \<Rightarrow> (string \<times> json) list \<Rightarrow> json option" where
  "jkey name kvs = map_of (rev kvs) name"

text \<open>Decoding into a field that holds its zero value: the value, or \<open>None\<close> for a type error.\<close>

fun as_string :: "json \<Rightarrow> string option" where
  "as_string JNull = Some []"
| "as_string (JStr s) = Some s"
| "as_string _ = None"

fun as_int :: "json \<Rightarrow> int option" where
  "as_int JNull = Some 0"
| "as_int (JNum lit) = atoi lit"
| "as_int _ = None"

fun as_bool :: "json \<Rightarrow> bool option" where
  "as_bool JNull = Some False"
| "as_bool (JBool b) = Some b"
| "as_bool _ = None"

fun as_list :: "json \<Rightarrow> json list option" where
  "as_list JNull = Some []"
| "as_list (JArr xs) = Some xs"
| "as_list _ = None"

fun as_struct :: "json \<Rightarrow> (string \<times> json) list option" where
  "as_struct JNull = Some []"
| "as_struct (JObj kvs) = Some kvs"
| "as_struct _ = None"

fun opt_all :: "('a \<Rightarrow> 'b option) \<Rightarrow> 'a list \<Rightarrow> 'b list option" where
  "opt_all f [] = Some []"
| "opt_all f (x # xs) = (case f x of None \<Rightarrow> None
     | Some y \<Rightarrow> (case opt_all f xs of None \<Rightarrow> None | Some ys \<Rightarrow> Some (y # ys)))"

text \<open>
  Decoding over a value \<open>d\<close>: a field is kept when the key is absent or null; a slice becomes empty on a null.
  (An element that is null is the empty string; Go would keep what the old slice held there.)
\<close>

definition over_string :: "(string \<times> json) list \<Rightarrow> string \<Rightarrow> string \<Rightarrow> string option" where
  "over_string kvs k d = (case jfield k kvs of JNull \<Rightarrow> Some d | j \<Rightarrow> as_string j)"

definition over_int :: "(string \<times> json) list \<Rightarrow> string \<Rightarrow> int \<Rightarrow> int option" where
  "over_int kvs k d = (case jfield k kvs of JNull \<Rightarrow> Some d | j \<Rightarrow> as_int j)"

definition over_bool :: "(string \<times> json) list \<Rightarrow> string \<Rightarrow> bool \<Rightarrow> bool option" where
  "over_bool kvs k d = (case jfield k kvs of JNull \<Rightarrow> Some d | j \<Rightarrow> as_bool j)"

definition over_strings :: "(string \<times> json) list \<Rightarrow> string \<Rightarrow> string list \<Rightarrow> string list option" where
  "over_strings kvs k d = (case jlast k kvs of None \<Rightarrow> Some d
     | Some j \<Rightarrow> Option.bind (as_list j) (opt_all as_string))"

lemma opt_all_set: "opt_all f xs = Some ys \<Longrightarrow> y \<in> set ys \<longleftrightarrow> (\<exists>x \<in> set xs. f x = Some y)"
  by (induction xs arbitrary: ys) (auto split: option.splits)

end
