(* ===== verification/KNft.thy ===== *)
theory KNft
  imports GoNet GoJson
begin

section \<open>moswaf-kbans: the nft command and the ban list\<close>

text \<open>
  \<open>control/cmd/moswaf-kbans/nftables.go\<close>. The program \<open>nft\<close> and the kernel behind it are the
  parameter \<open>nft\<close>: it takes the argument vector and the kernel's state and gives standard output,
  standard error, the error of \<open>cmd.Run\<close> (\<open>None\<close> for success) and the state after it. \<open>run\<close>,
  \<open>add\<close>, \<open>remove\<close>, \<open>flush\<close> and \<open>list\<close> build the argument vectors the source builds. \<open>parseSet\<close>
  and \<open>fetchBans\<close> decode JSON values (theory GoJson).

  What the code relies on of nft is the predicate \<open>nft_laws\<close>, over a reading \<open>banned\<close> of the
  kernel's state as the set of dropped addresses; properties that need it name it as a hypothesis.
\<close>

type_synonym 'k nft_prog = "string list \<Rightarrow> 'k \<Rightarrow> (string \<times> string \<times> string option) \<times> 'k"

record nftables =
  nf_dryRun :: bool
  nf_maxElements :: int

definition tableFamily :: string where "tableFamily = ''inet''"
definition tableName :: string where "tableName = ''moswaf''"
definition set4 :: string where "set4 = ''ban4''"
definition set6 :: string where "set6 = ''ban6''"

text \<open>The output of \<open>run\<close> with the text of its error, if any.\<close>

definition nft_error_text :: "string list \<Rightarrow> string \<Rightarrow> string \<Rightarrow> string" where
  "nft_error_text args msg err = ''nft '' @ str_join '' '' args @ '': '' @ msg @ '': '' @ trim_space err"

definition run :: "nftables \<Rightarrow> 'k nft_prog \<Rightarrow> string list \<Rightarrow> 'k \<Rightarrow> (string \<times> string option) \<times> 'k" where
  "run n nft args k =
     (if nf_dryRun n then (([], None), k)
      else (case nft args k of ((out, err, e), k') \<Rightarrow>
              (case e of
                 None \<Rightarrow> ((out, None), k')
               | Some msg \<Rightarrow> ((out, Some (nft_error_text args msg err)), k'))))"

definition ensure_args :: "string list" where
  "ensure_args = [''-f'', ''-'']"

text \<open>The ruleset goes to nft on standard input; here it is the last element of the vector.\<close>

definition ruleset :: string where
  "ruleset = CHR 0x0A # str_join [CHR 0x0A]
     [''table inet moswaf {'',
      CHR 0x09 # ''set ban4 { type ipv4_addr; flags timeout; }'',
      CHR 0x09 # ''set ban6 { type ipv6_addr; flags timeout; }'',
      CHR 0x09 # ''chain input {'',
      [CHR 0x09, CHR 0x09] @ ''type filter hook input priority -150; policy accept;'',
      [CHR 0x09, CHR 0x09] @ ''ct state established,related accept'',
      [CHR 0x09, CHR 0x09] @ ''ip saddr @ban4 drop'',
      [CHR 0x09, CHR 0x09] @ ''ip6 saddr @ban6 drop'',
      CHR 0x09 # ''}'', ''}'', []]"

definition ensureTable :: "nftables \<Rightarrow> 'k nft_prog \<Rightarrow> 'k \<Rightarrow> string option \<times> 'k" where
  "ensureTable n nft k =
     (if nf_dryRun n then (None, k)
      else (case nft (ensure_args @ [ruleset]) k of ((out, err, e), k') \<Rightarrow>
              (map_option (\<lambda>msg. msg @ '': '' @ trim_space err) e, k')))"

definition setFor :: "addr \<Rightarrow> string" where
  "setFor a = (if is4 a then set4 else set6)"

definition add_args :: "addr \<Rightarrow> int \<Rightarrow> string list" where
  "add_args a ttl = [''add'', ''element'', tableFamily, tableName, setFor a,
     ''{ '' @ addr_string a @ '' timeout '' @ itoa ttl @ ''s }'']"

definition delete_args :: "addr \<Rightarrow> string list" where
  "delete_args a = [''delete'', ''element'', tableFamily, tableName, setFor a,
     ''{ '' @ addr_string a @ '' }'']"

definition flush_args :: "string \<Rightarrow> string list" where
  "flush_args s = [''flush'', ''set'', tableFamily, tableName, s]"

definition list_args :: "string \<Rightarrow> string list" where
  "list_args s = [''-j'', ''list'', ''set'', tableFamily, tableName, s]"

text \<open>The operations give the error text, \<open>None\<close> for success.\<close>

definition nft_add :: "nftables \<Rightarrow> 'k nft_prog \<Rightarrow> addr \<Rightarrow> int \<Rightarrow> 'k \<Rightarrow> string option \<times> 'k" where
  "nft_add n nft a ttl k =
     (if ttl \<le> 0 then (None, k)
      else if nf_dryRun n then (None, k)
      else (case run n nft (add_args a ttl) k of ((out, e), k') \<Rightarrow> (e, k')))"

definition says_absent :: "(string \<Rightarrow> string) \<Rightarrow> string \<Rightarrow> string \<Rightarrow> bool" where
  "says_absent U msg out = str_contains ''no such file'' (go_to_lower U (msg @ out))"

definition nft_remove :: "(string \<Rightarrow> string) \<Rightarrow> nftables \<Rightarrow> 'k nft_prog \<Rightarrow> addr \<Rightarrow> 'k \<Rightarrow> string option \<times> 'k" where
  "nft_remove U n nft a k =
     (if nf_dryRun n then (None, k)
      else (case run n nft (delete_args a) k of ((out, e), k') \<Rightarrow>
              (case e of
                 None \<Rightarrow> (None, k')
               | Some msg \<Rightarrow> if says_absent U msg out then (None, k')
                             else (Some msg, k'))))"

definition nft_flush :: "nftables \<Rightarrow> 'k nft_prog \<Rightarrow> 'k \<Rightarrow> string option \<times> 'k" where
  "nft_flush n nft k =
     (if nf_dryRun n then (None, k)
      else (case run n nft (flush_args set4) k of ((out, e), k') \<Rightarrow>
              (case e of Some msg \<Rightarrow> (Some msg, k')
               | None \<Rightarrow> (case run n nft (flush_args set6) k' of ((out, e), k'') \<Rightarrow> (e, k'')))))"

text \<open>\<open>parseSet\<close>: the elements of the set nodes, in the order read; \<open>None\<close> for unreadable output.\<close>

definition elem_addr :: "json \<Rightarrow> addr option" where
  "elem_addr e =
     (case as_string e of
        Some plain \<Rightarrow> map_option unmap_addr (parse_addr plain)
      | None \<Rightarrow>
          (case as_struct e of None \<Rightarrow> None
           | Some kvs \<Rightarrow>
              (case as_struct (jfield ''elem'' kvs) of None \<Rightarrow> None
               | Some inner \<Rightarrow>
                  (case as_string (jfield ''val'' inner) of None \<Rightarrow> None
                   | Some v \<Rightarrow> if v \<noteq> [] then map_option unmap_addr (parse_addr v) else None))))"

definition node_elems :: "(string \<times> json) list \<Rightarrow> addr list" where
  "node_elems node =
     (case jkey ''set'' node of None \<Rightarrow> []
      | Some rawSet \<Rightarrow>
         (case as_struct rawSet of None \<Rightarrow> []
          | Some s \<Rightarrow> (case as_list (jslice ''elem'' s) of None \<Rightarrow> []
              | Some es \<Rightarrow> List.map_filter elem_addr es)))"

definition parseSet :: "(string \<Rightarrow> json option) \<Rightarrow> string \<Rightarrow> addr list option" where
  "parseSet parse_json raw =
     (if trim_space raw = [] then Some []
      else (case parse_json raw of None \<Rightarrow> None
            | Some doc \<Rightarrow>
               (case as_struct doc of None \<Rightarrow> None
                | Some kvs \<Rightarrow>
                   (case as_list (jslice ''nftables'' kvs) of None \<Rightarrow> None
                    | Some nodes \<Rightarrow>
                       (case opt_all as_struct nodes of None \<Rightarrow> None
                        | Some ns \<Rightarrow> Some (concat (map node_elems ns)))))))"

text \<open>\<open>list\<close>: the set of addresses the kernel holds, as a list without repetitions.\<close>

definition nft_list :: "nftables \<Rightarrow> 'k nft_prog \<Rightarrow> (string \<Rightarrow> json option) \<Rightarrow> 'k \<Rightarrow> (string + addr list) \<times> 'k" where
  "nft_list n nft parse_json k =
     (if nf_dryRun n then (Inr [], k)
      else (case run n nft (list_args set4) k of ((out4, e4), k1) \<Rightarrow>
        (case e4 of Some msg \<Rightarrow> (Inl msg, k1)
         | None \<Rightarrow>
           (case parseSet parse_json out4 of None \<Rightarrow> (Inl ''reading the kernel set'', k1)
            | Some as4 \<Rightarrow>
               (case run n nft (list_args set6) k1 of ((out6, e6), k2) \<Rightarrow>
                 (case e6 of Some msg \<Rightarrow> (Inl msg, k2)
                  | None \<Rightarrow>
                    (case parseSet parse_json out6 of None \<Rightarrow> (Inl ''reading the kernel set'', k2)
                     | Some as6 \<Rightarrow> (Inr (remdups (as4 @ as6)), k2))))))))"

subsection \<open>The ban list\<close>

record ban_row =
  br_ip :: string
  br_reason :: string
  br_ttl :: int

definition decode_row :: "json \<Rightarrow> ban_row option" where
  "decode_row j =
     (case as_struct j of None \<Rightarrow> None
      | Some kvs \<Rightarrow>
         (case (as_string (jfield ''ip'' kvs), as_string (jfield ''reason'' kvs), as_int (jfield ''ttl'' kvs)) of
            (Some ip, Some reason, Some ttl) \<Rightarrow> Some \<lparr>br_ip = ip, br_reason = reason, br_ttl = ttl\<rparr>
          | _ \<Rightarrow> None))"

datatype fetch_error =
    FetchTransport string
  | FetchStatus int
  | FetchDecode
  | FetchTruncated

text \<open>
  \<open>fetchBans\<close>: the HTTP exchange is an argument, an error of the client or a status and a body.
\<close>

definition body_limit :: nat where "body_limit = 33554432"

definition fetchBans :: "(string \<Rightarrow> json option) \<Rightarrow> string + int \<times> string \<Rightarrow> fetch_error + ban_row list" where
  "fetchBans parse_json res =
     (case res of
        Inl e \<Rightarrow> Inl (FetchTransport e)
      | Inr (status, content) \<Rightarrow>
          if status \<noteq> 200 then Inl (FetchStatus status)
          else (case parse_json (take body_limit content) of None \<Rightarrow> Inl FetchDecode
                | Some doc \<Rightarrow>
                   (case as_struct doc of None \<Rightarrow> Inl FetchDecode
                    | Some kvs \<Rightarrow>
                       (case (as_list (jslice ''items'' kvs), as_bool (jfield ''complete'' kvs)) of
                          (Some items, Some complete) \<Rightarrow>
                             (case opt_all decode_row items of None \<Rightarrow> Inl FetchDecode
                              | Some rows \<Rightarrow> if \<not> complete then Inl FetchTruncated else Inr rows)
                        | _ \<Rightarrow> Inl FetchDecode))))"

subsection \<open>What the code relies on of nft\<close>

text \<open>
  \<open>banned k\<close> is what the two sets hold, \<open>A\<close> the addresses in play. An accepted command has the
  documented effect, a refused one has none, a listing changes nothing and, when it is accepted,
  prints elements that \<open>parseSet\<close> reads back; a deletion refused with
  the words of ENOENT means the element was not there.
\<close>

definition nft_laws :: "(string \<Rightarrow> string) \<Rightarrow> addr set \<Rightarrow> 'k nft_prog \<Rightarrow> (string \<Rightarrow> json option) \<Rightarrow> ('k \<Rightarrow> addr set) \<Rightarrow> bool" where
  "nft_laws U A nft parse_json banned \<longleftrightarrow>
     (\<forall>k. \<forall>a \<in> A. \<forall>ttl. case nft (add_args a ttl) k of ((out, err, e), k') \<Rightarrow>
        banned k' = (if e = None then insert a (banned k) else banned k)) \<and>
     (\<forall>k. \<forall>a \<in> A. case nft (delete_args a) k of ((out, err, e), k') \<Rightarrow>
        banned k' = (if e = None then banned k - {a} else banned k) \<and>
        (\<forall>msg. e = Some msg \<and> says_absent U (nft_error_text (delete_args a) msg err) out \<longrightarrow> a \<notin> banned k)) \<and>
     (\<forall>k f. case nft (flush_args (if f then set4 else set6)) k of ((out, err, e), k') \<Rightarrow>
        banned k' = (if e = None then {a \<in> banned k. is4 a \<noteq> f} else banned k)) \<and>
     (\<forall>k f. case nft (list_args (if f then set4 else set6)) k of ((out, err, e), k') \<Rightarrow>
        banned k' = banned k \<and>
        (e = None \<longrightarrow> (\<exists>as. parseSet parse_json out = Some as \<and> set as = {a \<in> banned k. is4 a = f})))"

lemma nft_add_effect:
  assumes "nft_laws U A nft parse_json banned" "a \<in> A" "\<not> nf_dryRun n" "0 < ttl"
    and "nft_add n nft a ttl k = (e, k')"
  shows "banned k' = (if e = None then insert a (banned k) else banned k)"
proof -
  obtain out err e0 k0 where n: "nft (add_args a ttl) k = ((out, err, e0), k0)"
    by (metis prod.exhaust)
  have "banned k0 = (if e0 = None then insert a (banned k) else banned k)"
    using assms(1) [unfolded nft_laws_def, THEN conjunct1, rule_format, OF assms(2), of k ttl] n
    by (simp only: prod.case)
  then show ?thesis using assms(3-5) n
    by (auto simp: nft_add_def run_def split: option.splits)
qed

lemma nft_remove_effect:
  assumes "nft_laws U A nft parse_json banned" "a \<in> A" "\<not> nf_dryRun n"
    and "nft_remove U n nft a k = (e, k')"
  shows "banned k' = (if e = None then banned k - {a} else banned k)"
proof -
  obtain out err e0 k0 where n: "nft (delete_args a) k = ((out, err, e0), k0)"
    by (metis prod.exhaust)
  have "banned k0 = (if e0 = None then banned k - {a} else banned k)"
    and "\<And>msg. e0 = Some msg \<Longrightarrow> says_absent U (nft_error_text (delete_args a) msg err) out \<Longrightarrow> a \<notin> banned k"
    using assms(1) [unfolded nft_laws_def, THEN conjunct2, THEN conjunct1, rule_format, OF assms(2), of k] n
    by simp_all
  then show ?thesis using assms(3,4) n
    by (auto simp: nft_remove_def run_def split: option.splits if_splits)
qed

lemma nft_list_effect:
  assumes laws: "nft_laws U A nft parse_json banned" and "\<not> nf_dryRun n"
    and "nft_list n nft parse_json k = (r, k')"
  shows "banned k' = banned k \<and> (\<forall>as. r = Inr as \<longrightarrow> set as = banned k \<and> distinct as)"
proof -
  obtain o4 r4 e4 k1 where n4: "nft (list_args set4) k = ((o4, r4, e4), k1)" by (metis prod.exhaust)
  obtain o6 r6 e6 k2 where n6: "nft (list_args set6) k1 = ((o6, r6, e6), k2)" by (metis prod.exhaust)
  have law: "case nft (list_args (if f then set4 else set6)) k of ((out, err, e), k') \<Rightarrow>
        banned k' = banned k \<and>
        (e = None \<longrightarrow> (\<exists>as. parseSet parse_json out = Some as \<and> set as = {a \<in> banned k. is4 a = f}))" for k f
    using laws [unfolded nft_laws_def, THEN conjunct2, THEN conjunct2, THEN conjunct2, rule_format] .
  have b4: "banned k1 = banned k" "e4 = None \<Longrightarrow> \<exists>as. parseSet parse_json o4 = Some as \<and> set as = {a \<in> banned k. is4 a}"
    using law [of k True] n4 by auto
  have b6: "banned k2 = banned k1" "e6 = None \<Longrightarrow> \<exists>as. parseSet parse_json o6 = Some as \<and> set as = {a \<in> banned k1. \<not> is4 a}"
    using law [of k1 False] n6 by auto
  show ?thesis using assms(2,3) n4 n6 b4 b6
    by (auto simp: nft_list_def run_def split: option.splits)
qed

lemma nft_flush_effect:
  assumes laws: "nft_laws U A nft parse_json banned" and "\<not> nf_dryRun n"
    and "nft_flush n nft k = (e, k')"
  shows "banned k' \<subseteq> banned k \<and> (e = None \<longrightarrow> banned k' = {})"
proof -
  obtain o4 r4 e4 k1 where n4: "nft (flush_args set4) k = ((o4, r4, e4), k1)" by (metis prod.exhaust)
  obtain o6 r6 e6 k2 where n6: "nft (flush_args set6) k1 = ((o6, r6, e6), k2)" by (metis prod.exhaust)
  have law: "case nft (flush_args (if f then set4 else set6)) k of ((out, err, e), k') \<Rightarrow>
        banned k' = (if e = None then {a \<in> banned k. is4 a \<noteq> f} else banned k)" for k f
    using laws [unfolded nft_laws_def, THEN conjunct2, THEN conjunct2, THEN conjunct1, rule_format] .
  show ?thesis using assms(2,3) n4 n6 law [of k True] law [of k1 False]
    by (auto simp: nft_flush_def run_def split: option.splits if_splits)
qed

subsection \<open>Decoding the ban list\<close>

text \<open>
  A ban list is used whole or not at all: \<open>fetchBans\<close> succeeds exactly for a 200 whose body
  decodes with \<open>complete\<close> set, and then yields one row per item; every other answer is an error.
\<close>

theorem fetchBans_complete:
  "fetchBans parse_json res = Inr rows \<longleftrightarrow>
     (\<exists>content doc kvs items. res = Inr (200, content) \<and> parse_json (take body_limit content) = Some doc
        \<and> as_struct doc = Some kvs \<and> as_list (jslice ''items'' kvs) = Some items
        \<and> as_bool (jfield ''complete'' kvs) = Some True \<and> opt_all decode_row items = Some rows)"
proof (cases res)
  case (Inl e)
  then show ?thesis by (simp add: fetchBans_def)
next
  case (Inr sc)
  obtain status content where sc: "sc = (status, content)" by (cases sc)
  show ?thesis
  proof (cases "parse_json (take body_limit content)")
    case None
    with Inr sc show ?thesis by (simp add: fetchBans_def)
  next
    case (Some doc)
    note d = this
    show ?thesis
    proof (cases "as_struct doc")
      case None
      with Inr sc d show ?thesis by (simp add: fetchBans_def)
    next
      case (Some kvs)
      with Inr sc d show ?thesis
        by (cases "as_list (jslice ''items'' kvs)"; cases "as_bool (jfield ''complete'' kvs)")
          (auto simp: fetchBans_def split: option.split)
    qed
  qed
qed

end
