(* ===== verification/KPublish.thy ===== *)
theory KPublish
  imports GoNet
begin

section \<open>moswaf-kbans: what the agent publishes about itself\<close>

text \<open>
  \<open>control/cmd/moswaf-kbans/publish.go\<close>. Every function is modelled by the Redis pipeline it
  sends, a list of \<open>redis_cmd\<close>; the server is the parameter \<open>red\<close> of theory KAgent. Where a
  property is about what a reader then sees, \<open>redis_laws\<close> states the documented effect of the
  commands on the hashes, and is a named hypothesis.
\<close>

datatype redis_cmd =
    HSetNX string string string
  | HSet string "(string \<times> string) list"
  | HDel string string
  | Del "string list"
  | Expire string int
  | Rename string string
  | RPush string "string list"

definition keyApplied :: string where "keyApplied = ''moswaf:kernel_applied''"
definition keyRefused :: string where "keyRefused = ''moswaf:kernel_refused''"
definition keyOrphans :: string where "keyOrphans = ''moswaf:kernel_orphans''"
definition keyHealth :: string where "keyHealth = ''moswaf:kernel_agent''"

definition orphanReport :: nat where "orphanReport = 100"

text \<open>Durations are in nanoseconds, \<open>resync\<close> is \<open>cfg.resyncEvery\<close>; a Unix time is in seconds.\<close>

definition expiry :: "int \<Rightarrow> int" where
  "expiry resync = resync * 4"

definition holdFor :: "int \<Rightarrow> int" where
  "holdFor resync = resync * 2"

definition unix_secs :: "int \<Rightarrow> int" where
  "unix_secs now = now div 1000000000"

definition noteApplied :: "int \<Rightarrow> int \<Rightarrow> addr \<Rightarrow> redis_cmd list" where
  "noteApplied resync now a =
     [HSetNX keyApplied (addr_string a) (itoa (unix_secs now)),
      HDel keyRefused (addr_string a),
      Expire keyApplied (expiry resync)]"

definition noteRefused :: "int \<Rightarrow> addr \<Rightarrow> string \<Rightarrow> redis_cmd list" where
  "noteRefused resync a why =
     [HSet keyRefused [(addr_string a, why)],
      HDel keyApplied (addr_string a),
      Expire keyRefused (expiry resync)]"

definition forget :: "addr \<Rightarrow> redis_cmd list" where
  "forget a = [HDel keyApplied (addr_string a), HDel keyRefused (addr_string a)]"

definition forgetAll :: "redis_cmd list" where
  "forgetAll = [Del [keyApplied, keyRefused, keyOrphans]]"

definition scratch_key :: string where
  "scratch_key = keyApplied @ '':building''"

definition since_of :: "(string \<rightharpoonup> string) \<Rightarrow> int \<Rightarrow> addr \<Rightarrow> string" where
  "since_of prev now a = (case prev (addr_string a) of Some s \<Rightarrow> s | None \<Rightarrow> itoa (unix_secs now))"

definition publishState :: "int \<Rightarrow> int \<Rightarrow> (string \<rightharpoonup> string) \<Rightarrow> (addr \<times> int) list \<Rightarrow> addr list \<Rightarrow> redis_cmd list" where
  "publishState resync now prev have orphans =
     [Del [scratch_key]] @
     (if length have > 0 then
        [HSet scratch_key (map (\<lambda>(a, ttl). (addr_string a, since_of prev now a)) have),
         Expire scratch_key (expiry resync), Rename scratch_key keyApplied]
      else [Del [keyApplied]]) @
     [Del [keyOrphans]] @
     (if length orphans > 0 then
        [RPush keyOrphans (map addr_string (take orphanReport orphans)),
         Expire keyOrphans (expiry resync)]
      else [])"

subsection \<open>The effect of a pipeline on the hashes\<close>

type_synonym hashes = "string \<Rightarrow> string \<rightharpoonup> string"

fun hash_step :: "redis_cmd \<Rightarrow> hashes \<Rightarrow> hashes" where
  "hash_step (HSetNX k f v) h = (if h k f = None then h(k := (h k)(f \<mapsto> v)) else h)"
| "hash_step (HSet k fvs) h = h(k := h k ++ map_of (rev fvs))"
| "hash_step (HDel k f) h = h(k := (h k)(f := None))"
| "hash_step (Del ks) h = (\<lambda>k. if k \<in> set ks then Map.empty else h k)"
| "hash_step (Expire k d) h = h"
| "hash_step (Rename a b) h = h(b := h a, a := Map.empty)"
| "hash_step (RPush k vs) h = h"

definition redis_laws :: "(redis_cmd list \<Rightarrow> 'r \<Rightarrow> bool \<times> 'r) \<Rightarrow> ('r \<Rightarrow> hashes) \<Rightarrow> bool" where
  "redis_laws red hash \<longleftrightarrow>
     (\<forall>cmds r. fst (red cmds r) \<longrightarrow> hash (snd (red cmds r)) = fold hash_step cmds (hash r))"

lemma redis_keys_distinct [simp]:
  "keyApplied \<noteq> keyRefused" "keyRefused \<noteq> keyApplied" "scratch_key \<noteq> keyApplied"
  "keyApplied \<noteq> scratch_key" "keyApplied \<noteq> keyOrphans" "keyOrphans \<noteq> keyApplied"
  "keyRefused \<noteq> scratch_key" "keyRefused \<noteq> keyOrphans" "scratch_key \<noteq> keyRefused"
  "keyOrphans \<noteq> keyRefused"
  by (simp_all add: keyApplied_def keyRefused_def keyOrphans_def scratch_key_def)

lemma applied_after_note:
  "fold hash_step (noteApplied resync now a) h keyApplied (addr_string b) =
     (if addr_string b = addr_string a
      then Some (case h keyApplied (addr_string a) of None \<Rightarrow> itoa (unix_secs now) | Some s \<Rightarrow> s)
      else h keyApplied (addr_string b))"
  by (auto simp: noteApplied_def split: option.split)

lemma map_of_fields:
  "map_of (rev (map (\<lambda>(a, ttl). (addr_string a, since_of prev now a)) have)) ip =
     (if ip \<in> addr_string ` fst ` set have
      then Some (case prev ip of Some s \<Rightarrow> s | None \<Rightarrow> itoa (unix_secs now)) else None)"
proof -
  define g where "g = (\<lambda>ip. case prev ip of Some s \<Rightarrow> s | None \<Rightarrow> itoa (unix_secs now))"
  have "rev (map (\<lambda>(a, ttl). (addr_string a, since_of prev now a)) have) =
      map (\<lambda>k. (k, g k)) (rev (map (addr_string \<circ> fst) have))"
    by (simp add: rev_map since_of_def g_def split_def comp_def)
  then have "map_of (rev (map (\<lambda>(a, ttl). (addr_string a, since_of prev now a)) have)) ip =
      (if ip \<in> (addr_string \<circ> fst) ` set have then Some (g ip) else None)"
    by (simp only: map_of_map_restrict) (simp add: restrict_map_def)
  then show ?thesis by (simp add: g_def image_comp)
qed

subsection \<open>Properties\<close>

text \<open>
  What is published is what the kernel was read to hold: after \<open>publishState\<close> the applied hash
  lists exactly the addresses of \<open>have\<close>, each with the time it was first published (the old value
  when it was already there, now otherwise), whatever the hash held before.
\<close>

theorem publishState_exact:
  assumes "redis_laws red hash" and "red (publishState resync now (hash r keyApplied) have orphans) r = (True, r')"
  shows "hash r' keyApplied ip =
    (if ip \<in> addr_string ` fst ` set have
     then Some (case hash r keyApplied ip of Some s \<Rightarrow> s | None \<Rightarrow> itoa (unix_secs now)) else None)"
proof -
  let ?prev = "hash r keyApplied"
  have r': "hash r' = fold hash_step (publishState resync now ?prev have orphans) (hash r)"
    using assms unfolding redis_laws_def by (metis fst_conv snd_conv)
  show ?thesis
  proof (cases "have = []")
    case True
    then show ?thesis unfolding r' by (simp add: publishState_def)
  next
    case False
    then have "hash r' keyApplied = map_of (rev (map (\<lambda>(a, ttl). (addr_string a, since_of ?prev now a)) have))"
      unfolding r' by (simp add: publishState_def)
    then show ?thesis by (simp only: map_of_fields)
  qed
qed

lemma publishState_exact_witness:
  "(\<lambda>h. h keyApplied (addr_string (V4 7)) = Some ''12'' \<and> h keyApplied (addr_string (V4 8)) = Some (itoa 5))
     (fold hash_step (publishState 60 5000000000 [addr_string (V4 7) \<mapsto> ''12''] [(V4 7, 30), (V4 8, 0)] [V4 8])
       ((\<lambda>k. Map.empty)(keyApplied := [addr_string (V4 7) \<mapsto> ''12''])))"
proof -
  define red where "red = (\<lambda>cmds (h :: hashes). (True, fold hash_step cmds h))"
  define h where "h = (\<lambda>k. Map.empty :: string \<rightharpoonup> string)(keyApplied := [addr_string (V4 7) \<mapsto> ''12''])"
  have laws: "redis_laws red (\<lambda>h. h)" by (simp add: redis_laws_def red_def)
  have hk: "h keyApplied = [addr_string (V4 7) \<mapsto> ''12'']" by (simp add: h_def)
  let ?p = "publishState 60 5000000000 (h keyApplied) [(V4 7, 30), (V4 8, 0)] [V4 8]"
  have "red ?p h = (True, fold hash_step ?p h)" by (simp add: red_def)
  note t = publishState_exact [OF laws this]
  have ne: "addr_string (V4 8) \<noteq> addr_string (V4 7)" by code_simp
  have "unix_secs 5000000000 = 5" by (simp add: unix_secs_def)
  with t [of "addr_string (V4 7)"] t [of "addr_string (V4 8)"] ne
  show ?thesis unfolding hk by (simp add: h_def)
qed

text \<open>
  The two published hashes never contradict each other on an address: noting it applied clears
  its refusal and keeps its first timestamp, noting it refused clears its entry, forgetting it
  clears both, and no other address is touched.
\<close>

theorem publish_exclusive:
  "fold hash_step (noteApplied resync now a) h keyApplied (addr_string a) \<noteq> None
   \<and> (\<forall>s. h keyApplied (addr_string a) = Some s \<longrightarrow>
        fold hash_step (noteApplied resync now a) h keyApplied (addr_string a) = Some s)
   \<and> fold hash_step (noteApplied resync now a) h keyRefused (addr_string a) = None
   \<and> fold hash_step (noteRefused resync a why) h keyRefused (addr_string a) = Some why
   \<and> fold hash_step (noteRefused resync a why) h keyApplied (addr_string a) = None
   \<and> fold hash_step (forget a) h keyApplied (addr_string a) = None
   \<and> fold hash_step (forget a) h keyRefused (addr_string a) = None
   \<and> (\<forall>cmds \<in> {noteApplied resync now a, noteRefused resync a why, forget a}. \<forall>k ip.
        ip \<noteq> addr_string a \<longrightarrow> fold hash_step cmds h k ip = h k ip)"
  by (auto simp: noteApplied_def noteRefused_def forget_def)

lemma publish_exclusive_witness:
  "fold hash_step (noteApplied 60 5000000000 (V4 7)) (\<lambda>k. [addr_string (V4 7) \<mapsto> ''12'']) keyApplied (addr_string (V4 7)) = Some ''12''"
  using publish_exclusive [of 60 5000000000 "V4 7" "\<lambda>k. [addr_string (V4 7) \<mapsto> ''12'']"] by simp

end
