(* ===== verification/KAgent.thy ===== *)
theory KAgent
  imports KTombstones KAllowlist KNft KPublish
begin

section \<open>moswaf-kbans: the agent\<close>

text \<open>
  \<open>control/cmd/moswaf-kbans/main.go\<close>: the configuration, the ban events, \<open>preflight\<close>, \<open>apply\<close>,
  \<open>drop\<close>, \<open>desired\<close>, \<open>reconcile\<close> and \<open>reportHealth\<close>. The agent's own state is its configuration,
  its refusal list and its tombstones; the kernel and the Redis server it writes to are the
  parameters \<open>nft\<close> and \<open>red\<close> of the record \<open>externals\<close>, acting on the components \<open>kern\<close> and \<open>rds\<close>
  of the world. A Go map is an association list with distinct keys, so the order in which the
  reconcile visits it is arbitrary. One handler reads the clock once. Log lines are left out.

  The lemmas say which nft commands an operation can issue (\<open>agent_cmd\<close>), from which the safety
  properties follow, and what a reconcile makes of the kernel's set.
\<close>

record config =
  c_redisAddr :: string
  c_redisPassword :: string
  c_redisDB :: int
  c_bansURL :: string
  c_internalToken :: string
  c_management :: "string list"
  c_docker :: "string list"
  c_resyncEvery :: int
  c_maxElements :: int
  c_dryRun :: bool

definition env :: "(string \<Rightarrow> string) \<Rightarrow> string \<Rightarrow> string \<Rightarrow> string" where
  "env E k d = (if E k \<noteq> [] then E k else d)"

text \<open>\<open>time.ParseDuration\<close> is the parameter \<open>dur\<close>, in nanoseconds.\<close>

definition loadConfig :: "(string \<Rightarrow> int option) \<Rightarrow> (string \<Rightarrow> string) \<Rightarrow> config" where
  "loadConfig dur E =
     (let db = fst (parse_int64 (env E ''MOSWAF_KBANS_REDIS_DB'' ''0''));
          resync = (case dur (env E ''MOSWAF_KBANS_RESYNC'' ''60s'') of
                      None \<Rightarrow> 60000000000
                    | Some d \<Rightarrow> if d < 10000000000 then 60000000000 else d);
          maxEl = fst (parse_int64 (env E ''MOSWAF_KBANS_MAX_ELEMENTS'' ''262144''))
      in \<lparr>c_redisAddr = env E ''MOSWAF_KBANS_REDIS'' ''127.0.0.1:6379'',
          c_redisPassword = E ''MOSWAF_KBANS_REDIS_PASSWORD'',
          c_redisDB = db,
          c_bansURL = env E ''MOSWAF_KBANS_BANS_URL'' ''http://127.0.0.1:8081/bans?limit=0'',
          c_internalToken = E ''MOSWAF_INTERNAL_TOKEN'',
          c_management = split_on (CHR '','') (env E ''MOSWAF_KBANS_ALLOW'' []),
          c_docker = split_on (CHR '','') (env E ''MOSWAF_KBANS_DOCKER_SUBNETS'' ''172.17.0.0/16,172.18.0.0/16''),
          c_resyncEvery = resync,
          c_maxElements = maxEl,
          c_dryRun = (E ''MOSWAF_KBANS_DRY_RUN'' = ''1'')\<rparr>)"

record ban_event =
  be_op :: string
  be_ip :: string
  be_ttl :: int
  be_reason :: string
  be_ts :: int

definition decode_event :: "json \<Rightarrow> ban_event option" where
  "decode_event j =
     (case as_struct j of None \<Rightarrow> None
      | Some kvs \<Rightarrow>
         (case (as_string (jfield ''op'' kvs), as_string (jfield ''ip'' kvs), as_int (jfield ''ttl'' kvs),
                as_string (jfield ''reason'' kvs), as_int (jfield ''ts'' kvs)) of
            (Some opn, Some ip, Some ttl, Some reason, Some ts) \<Rightarrow>
              Some \<lparr>be_op = opn, be_ip = ip, be_ttl = ttl, be_reason = reason, be_ts = ts\<rparr>
          | _ \<Rightarrow> None))"

text \<open>The exit status of \<open>-check\<close>.\<close>

definition preflight :: "config \<Rightarrow> string \<Rightarrow> int" where
  "preflight cfg from =
     (case newNeverDrop (c_management cfg) (c_docker cfg) of
        Inl e \<Rightarrow> 1
      | Inr nd \<Rightarrow>
          if from = [] then 1
          else (case parse_addr (trim_space from) of
                  None \<Rightarrow> 1
                | Some a \<Rightarrow> if \<not> fst (covers nd (unmap_addr a)) then 1 else 0))"

record agent =
  ag_cfg :: config
  ag_nd :: never_drop
  ag_nft :: nftables

record ('k, 'r) externals =
  x_nft :: "'k nft_prog"
  x_red :: "redis_cmd list \<Rightarrow> 'r \<Rightarrow> bool \<times> 'r"
  x_hgetall :: "'r \<Rightarrow> string \<Rightarrow> string \<rightharpoonup> string"
  x_json :: "string \<Rightarrow> json option"
  x_lower :: "string \<Rightarrow> string"
  x_rfc3339 :: "int \<Rightarrow> string"

record ('k, 'r) world =
  kern :: 'k
  rds :: 'r
  just :: tombstones

text \<open>What \<open>main\<close> builds before it starts the two loops; \<open>None\<close> when it exits instead.\<close>

definition start_agent :: "('k, 'r) externals \<Rightarrow> config \<Rightarrow> 'k \<Rightarrow> 'r \<Rightarrow> (agent \<times> ('k, 'r) world) option" where
  "start_agent X cfg k r =
     (case newNeverDrop (c_management cfg) (c_docker cfg) of
        Inl e \<Rightarrow> None
      | Inr nd \<Rightarrow>
          (let n = \<lparr>nf_dryRun = c_dryRun cfg, nf_maxElements = c_maxElements cfg\<rparr>
           in (case ensureTable n (x_nft X) k of
                 (Some e, k') \<Rightarrow> None
               | (None, k') \<Rightarrow> Some (\<lparr>ag_cfg = cfg, ag_nd = nd, ag_nft = n\<rparr>,
                                  \<lparr>kern = k', rds = r, just = newTombstones\<rparr>))))"

definition publish :: "('k, 'r) externals \<Rightarrow> redis_cmd list \<Rightarrow> ('k, 'r) world \<Rightarrow> ('k, 'r) world" where
  "publish X cmds w = w\<lparr>rds := snd (x_red X cmds (rds w))\<rparr>"

definition resync_of :: "agent \<Rightarrow> int" where
  "resync_of ag = c_resyncEvery (ag_cfg ag)"

definition drop_addr :: "('k, 'r) externals \<Rightarrow> agent \<Rightarrow> int \<Rightarrow> addr \<Rightarrow> int \<Rightarrow> ('k, 'r) world \<Rightarrow> ('k, 'r) world" where
  "drop_addr X ag now a ttl w =
     (if ttl \<le> 0 then w
      else (case covers (ag_nd ag) a of (refusedBy, why) \<Rightarrow>
        if refusedBy then publish X (noteRefused (resync_of ag) a why) w
        else (let w1 = w\<lparr>just := clear a (just w)\<rparr>
              in (case nft_add (ag_nft ag) (x_nft X) a ttl (kern w1) of (e, k') \<Rightarrow>
                    (let w2 = w1\<lparr>kern := k'\<rparr>
                     in if e \<noteq> None then w2 else publish X (noteApplied (resync_of ag) now a) w2)))))"

definition release_all :: "('k, 'r) externals \<Rightarrow> agent \<Rightarrow> int \<Rightarrow> ('k, 'r) world \<Rightarrow> ('k, 'r) world" where
  "release_all X ag now w =
     (case nft_list (ag_nft ag) (x_nft X) (x_json X) (kern w) of (was, k1) \<Rightarrow>
       (case nft_flush (ag_nft ag) (x_nft X) k1 of (e, k2) \<Rightarrow>
         (if e \<noteq> None then w\<lparr>kern := k2\<rparr>
          else (let marked = (case was of Inl err \<Rightarrow> just w
                  | Inr as \<Rightarrow> foldl (\<lambda>t a. mark a now (holdFor (resync_of ag)) t) (just w) as)
                in publish X forgetAll (w\<lparr>kern := k2, just := marked\<rparr>)))))"

definition release_addr :: "('k, 'r) externals \<Rightarrow> agent \<Rightarrow> int \<Rightarrow> addr \<Rightarrow> ('k, 'r) world \<Rightarrow> ('k, 'r) world" where
  "release_addr X ag now a w =
     (case nft_remove (x_lower X) (ag_nft ag) (x_nft X) a (kern w) of (e, k') \<Rightarrow>
       (if e \<noteq> None then w\<lparr>kern := k'\<rparr>
        else publish X (forget a) (w\<lparr>kern := k', just := mark a now (holdFor (resync_of ag)) (just w)\<rparr>)))"

definition apply_event :: "('k, 'r) externals \<Rightarrow> agent \<Rightarrow> int \<Rightarrow> string \<Rightarrow> ('k, 'r) world \<Rightarrow> ('k, 'r) world" where
  "apply_event X ag now raw w =
     (case Option.bind (x_json X raw) decode_event of
        None \<Rightarrow> w
      | Some ev \<Rightarrow>
          if be_op ev = ''release_all'' then release_all X ag now w
          else (case parse_addr (trim_space (be_ip ev)) of
                  None \<Rightarrow> w
                | Some a0 \<Rightarrow>
                    (let a = unmap_addr a0
                     in if be_op ev = ''drop'' then drop_addr X ag now a (be_ttl ev) w
                        else if be_op ev = ''release'' then release_addr X ag now a w
                        else w)))"

text \<open>The result of \<open>BLPop\<close> in \<open>consumeLoop\<close>: an error or the list it returned.\<close>

definition consume_step :: "('k, 'r) externals \<Rightarrow> agent \<Rightarrow> int \<Rightarrow> string + string list \<Rightarrow> ('k, 'r) world \<Rightarrow> ('k, 'r) world" where
  "consume_step X ag now res w =
     (case res of Inl e \<Rightarrow> w
      | Inr vals \<Rightarrow> if length vals < 2 then w else apply_event X ag now (vals ! 1) w)"

fun desired_loop :: "never_drop \<Rightarrow> tombstones \<Rightarrow> int \<Rightarrow> ban_row list \<Rightarrow> (addr \<times> int) list \<Rightarrow> (addr \<times> int) list" where
  "desired_loop nd t now [] want = want"
| "desired_loop nd t now (b # bs) want =
     (case parse_addr (trim_space (br_ip b)) of
        None \<Rightarrow> desired_loop nd t now bs want
      | Some a0 \<Rightarrow>
          if br_ttl b \<le> 0 then desired_loop nd t now bs want
          else (let a = unmap_addr a0
                in if fst (covers nd a) then desired_loop nd t now bs want
                   else if held a now t then desired_loop nd t now bs want
                   else desired_loop nd t now bs (AList.update a (br_ttl b) want)))"

definition desired :: "agent \<Rightarrow> tombstones \<Rightarrow> ban_row list \<Rightarrow> int \<Rightarrow> (addr \<times> int) list" where
  "desired ag t bans now = desired_loop (ag_nd ag) t now bans []"

text \<open>The two loops of the reconcile. A failed command is logged and the loop goes on.\<close>

fun add_loop :: "('k, 'r) externals \<Rightarrow> agent \<Rightarrow> (addr \<times> int) list \<Rightarrow> 'k \<Rightarrow> 'k" where
  "add_loop X ag [] k = k"
| "add_loop X ag ((a, ttl) # want) k = add_loop X ag want (snd (nft_add (ag_nft ag) (x_nft X) a ttl k))"

fun remove_loop :: "('k, 'r) externals \<Rightarrow> agent \<Rightarrow> (addr \<times> int) list \<Rightarrow> addr list \<Rightarrow> 'k \<Rightarrow> 'k" where
  "remove_loop X ag want [] k = k"
| "remove_loop X ag want (a # have) k =
     (case map_of want a of
        Some ttl \<Rightarrow> remove_loop X ag want have k
      | None \<Rightarrow> remove_loop X ag want have (snd (nft_remove (x_lower X) (ag_nft ag) (x_nft X) a k)))"

definition health_cmd :: "('k, 'r) externals \<Rightarrow> agent \<Rightarrow> int \<Rightarrow> int \<Rightarrow> redis_cmd" where
  "health_cmd X ag now applied = HSet keyHealth
     [(''seen_at'', x_rfc3339 X now), (''seen_unix'', itoa (unix_secs now)),
      (''applied'', itoa applied), (''resync_every'', itoa (resync_of ag div 1000000000))]"

definition reportHealth :: "('k, 'r) externals \<Rightarrow> agent \<Rightarrow> int \<Rightarrow> int \<Rightarrow> ('k, 'r) world \<Rightarrow> ('k, 'r) world" where
  "reportHealth X ag now applied w =
     (case x_red X [health_cmd X ag now applied] (rds w) of
       (ok, r') \<Rightarrow> if \<not> ok then w\<lparr>rds := r'\<rparr>
                  else publish X [Expire keyHealth (expiry (resync_of ag))] (w\<lparr>rds := r'\<rparr>))"

definition applied_of :: "(addr \<times> int) list \<Rightarrow> addr list \<Rightarrow> (addr \<times> int) list" where
  "applied_of want final = map (\<lambda>a. (a, case map_of want a of Some ttl \<Rightarrow> ttl | None \<Rightarrow> 0)) final"

definition orphans_of :: "(addr \<times> int) list \<Rightarrow> addr list \<Rightarrow> addr list" where
  "orphans_of want final = filter (\<lambda>a. map_of want a = None) final"

definition reconcile :: "('k, 'r) externals \<Rightarrow> agent \<Rightarrow> int \<Rightarrow> string + int \<times> string \<Rightarrow> ('k, 'r) world \<Rightarrow> ('k, 'r) world" where
  "reconcile X ag now res w0 =
     (let w = w0\<lparr>just := prune now (just w0)\<rparr>
      in (case fetchBans (x_json X) res of
            Inl e \<Rightarrow> reportHealth X ag now (- 1) w
          | Inr bans \<Rightarrow>
              (let want = desired ag (just w) bans now
               in (case nft_list (ag_nft ag) (x_nft X) (x_json X) (kern w) of
                     (Inl e, k1) \<Rightarrow> reportHealth X ag now (- 1) (w\<lparr>kern := k1\<rparr>)
                   | (Inr have, k1) \<Rightarrow>
                       (let k2 = add_loop X ag want k1;
                            k3 = remove_loop X ag want have k2
                        in (case nft_list (ag_nft ag) (x_nft X) (x_json X) k3 of
                              (Inl e, k4) \<Rightarrow> reportHealth X ag now (- 1) (w\<lparr>kern := k4\<rparr>)
                            | (Inr final, k4) \<Rightarrow>
                                (let applied = applied_of want final;
                                     prev = x_hgetall X (rds w) keyApplied
                                 in reportHealth X ag now (int (length applied))
                                      (publish X (publishState (resync_of ag) now prev applied (orphans_of want final))
                                        (w\<lparr>kern := k4\<rparr>)))))))))"

subsection \<open>The commands an operation can issue\<close>

definition agent_cmd :: "never_drop \<Rightarrow> string list \<Rightarrow> bool" where
  "agent_cmd nd args \<longleftrightarrow>
     (\<exists>a ttl. args = add_args a ttl \<and> 0 < ttl \<and> \<not> fst (covers nd a)) \<or>
     (\<exists>a. args = delete_args a) \<or> args \<in> {flush_args set4, flush_args set6} \<or>
     args \<in> {list_args set4, list_args set6}"

text \<open>\<open>P\<close> survives every command of that kind, accepted or refused.\<close>

definition keeps :: "never_drop \<Rightarrow> 'k nft_prog \<Rightarrow> ('k \<Rightarrow> bool) \<Rightarrow> bool" where
  "keeps nd nft P \<longleftrightarrow> (\<forall>args k. agent_cmd nd args \<longrightarrow> P k \<longrightarrow> P (snd (nft args k)))"

named_theorems keeps_intros

lemma keeps_run: "keeps nd nft P \<Longrightarrow> agent_cmd nd args \<Longrightarrow> P k \<Longrightarrow> P (snd (run n nft args k))"
  by (fastforce simp: keeps_def run_def split: prod.split option.split)

lemma agent_cmd_simps [simp]:
  "agent_cmd nd (delete_args a)" "agent_cmd nd (flush_args set4)" "agent_cmd nd (flush_args set6)"
  "agent_cmd nd (list_args set4)" "agent_cmd nd (list_args set6)"
  "0 < ttl \<Longrightarrow> \<not> fst (covers nd a) \<Longrightarrow> agent_cmd nd (add_args a ttl)"
  by (auto simp: agent_cmd_def)

lemma keeps_run_eq: "keeps nd nft P \<Longrightarrow> agent_cmd nd args \<Longrightarrow> P k \<Longrightarrow> run n nft args k = (x, k') \<Longrightarrow> P k'"
  using keeps_run [of nd nft P args k n] by simp

lemma keeps_add [keeps_intros]:
  "keeps nd nft P \<Longrightarrow> P k \<Longrightarrow> \<not> fst (covers nd a) \<Longrightarrow> P (snd (nft_add n nft a ttl k))"
  by (auto simp: nft_add_def split: prod.split elim!: keeps_run_eq [rotated 3])

lemma keeps_remove [keeps_intros]:
  "keeps nd nft P \<Longrightarrow> P k \<Longrightarrow> P (snd (nft_remove U n nft a k))"
  by (auto simp: nft_remove_def split: prod.split option.split elim!: keeps_run_eq [rotated 3])

lemma keeps_flush [keeps_intros]:
  assumes "keeps nd nft P" "P k"
  shows "P (snd (nft_flush n nft k))"
proof -
  note first = keeps_run [OF assms(1), of "flush_args set4" k n]
  note second = keeps_run [OF assms(1), of "flush_args set6" "snd (run n nft (flush_args set4) k)" n]
  show ?thesis using assms(2) first second
    by (auto simp: nft_flush_def split: prod.splits option.splits)
qed

lemma keeps_list [keeps_intros]:
  assumes "keeps nd nft P" "P k"
  shows "P (snd (nft_list n nft J k))"
proof -
  note first = keeps_run [OF assms(1), of "list_args set4" k n]
  note second = keeps_run [OF assms(1), of "list_args set6" "snd (run n nft (list_args set4) k)" n]
  show ?thesis using assms(2) first second
    by (auto simp: nft_list_def split: prod.splits option.splits)
qed

lemma kern_publish [simp]: "kern (publish X cmds w) = kern w"
  by (simp add: publish_def)

lemma just_publish [simp]: "just (publish X cmds w) = just w"
  by (simp add: publish_def)

lemma kern_reportHealth [simp]: "kern (reportHealth X ag now n w) = kern w"
  by (simp add: reportHealth_def split: prod.split)

lemma just_reportHealth [simp]: "just (reportHealth X ag now n w) = just w"
  by (simp add: reportHealth_def split: prod.split)

subsection \<open>What desired asks for\<close>

definition row_entry :: "ban_row \<Rightarrow> (addr \<times> int) option" where
  "row_entry b = (case parse_addr (trim_space (br_ip b)) of None \<Rightarrow> None
     | Some a \<Rightarrow> if br_ttl b \<le> 0 then None else Some (unmap_addr a, br_ttl b))"

lemma set_map_filter: "y \<in> set (List.map_filter f xs) \<longleftrightarrow> (\<exists>x \<in> set xs. f x = Some y)"
  by (force simp: List.map_filter_def image_iff)

lemma desired_loop_lookup:
  "map_of (desired_loop nd t now bs want) a =
     (if fst (covers nd a) \<or> held a now t then map_of want a
      else (case map_of (rev (List.map_filter row_entry bs)) a of
              Some ttl \<Rightarrow> Some ttl | None \<Rightarrow> map_of want a))"
proof (induction bs arbitrary: want)
  case Nil
  then show ?case by (simp add: List.map_filter_def)
next
  case (Cons b bs)
  then show ?case
    by (auto simp: row_entry_def [of b] map_filter_simps Let_def update_conv map_add_def
        split: option.split)
qed

lemma desired_lookup:
  "map_of (desired ag t bans now) a =
     (if fst (covers (ag_nd ag) a) \<or> held a now t then None
      else map_of (rev (List.map_filter row_entry bans)) a)"
  by (simp add: desired_def desired_loop_lookup split: option.split)

lemma last_entry:
  "map_of (rev (List.map_filter f bs)) a = Some v \<longleftrightarrow>
     (\<exists>before b later. bs = before @ b # later \<and> f b = Some (a, v)
        \<and> a \<notin> {fst e | c e. c \<in> set later \<and> f c = Some e})"
proof (induction bs)
  case Nil
  then show ?case by (simp add: List.map_filter_def)
next
  case (Cons x xs)
  have none: "map_of (rev (List.map_filter f xs)) a = None \<longleftrightarrow>
      a \<notin> {fst e | c e. c \<in> set xs \<and> f c = Some e}"
    unfolding map_of_eq_None_iff set_rev image_iff Bex_def set_map_filter by fastforce
  have split: "(\<exists>before b later. x # xs = before @ b # later \<and> Q b later) \<longleftrightarrow>
      Q x xs \<or> (\<exists>before b later. xs = before @ b # later \<and> Q b later)" for Q
    by (metis append_Cons append_Nil list.inject neq_Nil_conv)
  show ?case unfolding split using Cons.IH none
    by (auto simp: map_filter_simps map_add_def split: option.splits)
qed

lemma desired_distinct: "distinct (map fst (desired ag t bans now))"
proof -
  have "distinct (map fst want) \<Longrightarrow> distinct (map fst (desired_loop nd t now bs want))" for nd bs want
    by (induction bs arbitrary: want) (auto simp: Let_def distinct_update split: option.split)
  then show ?thesis by (simp add: desired_def)
qed

lemma desired_positive:
  assumes "(a, ttl) \<in> set (desired ag t bans now)"
  shows "0 < ttl \<and> \<not> fst (covers (ag_nd ag) a) \<and> \<not> held a now t"
proof -
  have m: "map_of (desired ag t bans now) a = Some ttl"
    using assms desired_distinct by (metis map_of_is_SomeI)
  then have "map_of (rev (List.map_filter row_entry bans)) a = Some ttl"
    and *: "\<not> fst (covers (ag_nd ag) a) \<and> \<not> held a now t"
    by (auto simp: desired_lookup split: if_splits)
  then have "(a, ttl) \<in> set (List.map_filter row_entry bans)" by (auto dest: map_of_SomeD)
  then have "0 < ttl" by (auto simp: set_map_filter row_entry_def split: option.splits if_splits)
  with * show ?thesis by simp
qed


subsection \<open>Runs of the agent\<close>

text \<open>One event of the feed, or one reconcile, at any time and with any answer from outside.\<close>

inductive agent_run :: "('k, 'r) externals \<Rightarrow> agent \<Rightarrow> ('k, 'r) world \<Rightarrow> ('k, 'r) world \<Rightarrow> bool"
  for X ag w0 where
  run_start: "agent_run X ag w0 w0"
| run_event: "agent_run X ag w0 w \<Longrightarrow> agent_run X ag w0 (consume_step X ag now res w)"
| run_reconcile: "agent_run X ag w0 w \<Longrightarrow> agent_run X ag w0 (reconcile X ag now http w)"

lemma keeps_drop [keeps_intros]:
  "keeps (ag_nd ag) (x_nft X) P \<Longrightarrow> P (kern w) \<Longrightarrow> P (kern (drop_addr X ag now a ttl w))"
  using keeps_add [of "ag_nd ag" "x_nft X" P "kern w" a "ag_nft ag" ttl]
  by (auto simp: drop_addr_def Let_def split: prod.split)

lemma keeps_release [keeps_intros]:
  "keeps (ag_nd ag) (x_nft X) P \<Longrightarrow> P (kern w) \<Longrightarrow> P (kern (release_addr X ag now a w))"
  using keeps_remove [of "ag_nd ag" "x_nft X" P "kern w" "x_lower X" "ag_nft ag" a]
  by (auto simp: release_addr_def split: prod.split)

lemma keeps_release_all [keeps_intros]:
  assumes "keeps (ag_nd ag) (x_nft X) P" "P (kern w)"
  shows "P (kern (release_all X ag now w))"
  using keeps_list [OF assms, of "ag_nft ag" "x_json X"]
    keeps_flush [OF assms(1), of "snd (nft_list (ag_nft ag) (x_nft X) (x_json X) (kern w))" "ag_nft ag"]
  by (auto simp: release_all_def Let_def split: prod.splits)

lemma keeps_apply [keeps_intros]:
  "keeps (ag_nd ag) (x_nft X) P \<Longrightarrow> P (kern w) \<Longrightarrow> P (kern (apply_event X ag now raw w))"
  by (auto simp: apply_event_def Let_def intro: keeps_intros split: option.split)

lemma keeps_add_loop [keeps_intros]:
  "keeps (ag_nd ag) (x_nft X) P \<Longrightarrow> P k \<Longrightarrow> \<forall>(a, ttl) \<in> set want. \<not> fst (covers (ag_nd ag) a) \<Longrightarrow>
    P (add_loop X ag want k)"
  by (induction X ag want k rule: add_loop.induct) (auto intro: keeps_intros)

lemma keeps_remove_loop [keeps_intros]:
  "keeps (ag_nd ag) (x_nft X) P \<Longrightarrow> P k \<Longrightarrow> P (remove_loop X ag want hs k)"
  by (induction X ag want hs k rule: remove_loop.induct) (auto intro: keeps_intros split: option.split)

lemma keeps_reconcile [keeps_intros]:
  assumes K: "keeps (ag_nd ag) (x_nft X) P" and P: "P (kern w)"
  shows "P (kern (reconcile X ag now http w))"
proof -
  have l: "P k'' \<Longrightarrow> nft_list (ag_nft ag) (x_nft X) (x_json X) k'' = (r, k') \<Longrightarrow> P k'" for k'' r k'
    using keeps_list [OF K, of k'' "ag_nft ag" "x_json X"] by simp
  show ?thesis
  proof (cases "fetchBans (x_json X) http")
    case (Inl e)
    then show ?thesis using P by (simp add: reconcile_def)
  next
    case (Inr bans)
    let ?t = "prune now (just w)"
    define want where "want = desired ag ?t bans now"
    obtain r k1 where l1: "nft_list (ag_nft ag) (x_nft X) (x_json X) (kern w) = (r, k1)"
      by (metis prod.exhaust)
    have P1: "P k1" using l [OF P l1] .
    show ?thesis
    proof (cases r)
      case (Inl e)
      then show ?thesis using P1 l1 Inr by (simp add: reconcile_def)
    next
      fix hs
      assume r: "r = Inr hs"
      define k3 where "k3 = remove_loop X ag want hs (add_loop X ag want k1)"
      obtain r4 k4 where l4: "nft_list (ag_nft ag) (x_nft X) (x_json X) k3 = (r4, k4)"
        by (metis prod.exhaust)
      have "\<forall>(a, ttl) \<in> set want. \<not> fst (covers (ag_nd ag) a)"
        unfolding want_def using desired_positive by fastforce
      then have "P k3" unfolding k3_def by (rule keeps_remove_loop [OF K keeps_add_loop [OF K P1]])
      then have "P k4" using l4 by (rule l)
      then show ?thesis using l1 l4 r Inr
        by (cases r4) (simp_all add: reconcile_def want_def k3_def Let_def)
    qed
  qed
qed


lemma keeps_agent_run:
  "agent_run X ag w0 w \<Longrightarrow> keeps (ag_nd ag) (x_nft X) P \<Longrightarrow> P (kern w0) \<Longrightarrow> P (kern w)"
  by (induction rule: agent_run.induct)
    (auto simp: consume_step_def keeps_apply keeps_reconcile split: sum.split)

subsection \<open>What a reconcile makes of the kernel's set\<close>

text \<open>The kernel's set under the documented behaviour of nft, for addresses \<open>A\<close> in play.\<close>

definition laws_for :: "('k, 'r) externals \<Rightarrow> addr set \<Rightarrow> ('k \<Rightarrow> addr set) \<Rightarrow> bool" where
  "laws_for X A banned \<longleftrightarrow> nft_laws (x_lower X) A (x_nft X) (x_json X) banned"

lemma add_loop_effect:
  assumes "laws_for X A banned" "\<not> nf_dryRun (ag_nft ag)"
    and "\<forall>(a, ttl) \<in> set want. a \<in> A \<and> 0 < ttl"
  shows "banned k \<subseteq> banned (add_loop X ag want k) \<and> banned (add_loop X ag want k) \<subseteq> banned k \<union> fst ` set want"
  using assms
proof (induction X ag want k rule: add_loop.induct)
  case (1 X ag k)
  then show ?case by simp
next
  case (2 X ag a ttl want k)
  obtain e k' where n: "nft_add (ag_nft ag) (x_nft X) a ttl k = (e, k')" by (metis prod.exhaust)
  have "banned k' = (if e = None then insert a (banned k) else banned k)"
    using 2 n by (intro nft_add_effect) (auto simp: laws_for_def)
  then show ?case using 2 n by (auto split: if_splits)
qed

lemma add_loop_all:
  assumes "laws_for X A banned" "\<not> nf_dryRun (ag_nft ag)"
    and "\<forall>(a, ttl) \<in> set want. a \<in> A \<and> 0 < ttl" and "\<forall>args k. snd (snd (fst (x_nft X args k))) = None"
  shows "banned (add_loop X ag want k) = banned k \<union> fst ` set want"
  using assms
proof (induction X ag want k rule: add_loop.induct)
  case (1 X ag k)
  then show ?case by simp
next
  case (2 X ag a ttl want k)
  obtain e k' where n: "nft_add (ag_nft ag) (x_nft X) a ttl k = (e, k')" by (metis prod.exhaust)
  have "e = None" using n 2(5)
    by (auto simp: nft_add_def run_def split: if_splits prod.splits option.splits)
      (metis fst_conv snd_conv option.distinct(1))+
  moreover have "banned k' = (if e = None then insert a (banned k) else banned k)"
    using 2 n by (intro nft_add_effect) (auto simp: laws_for_def)
  ultimately show ?case using 2 n by auto
qed

lemma remove_loop_effect:
  assumes "laws_for X A banned" "\<not> nf_dryRun (ag_nft ag)" and "set hs \<subseteq> A"
  shows "banned (remove_loop X ag want hs k) \<subseteq> banned k
    \<and> banned k - {a \<in> set hs. map_of want a = None} \<subseteq> banned (remove_loop X ag want hs k)"
  using assms
proof (induction X ag want hs k rule: remove_loop.induct)
  case (1 X ag want k)
  then show ?case by simp
next
  case (2 X ag want a hs k)
  obtain e k' where n: "nft_remove (x_lower X) (ag_nft ag) (x_nft X) a k = (e, k')" by (metis prod.exhaust)
  have b: "banned k' = (if e = None then banned k - {a} else banned k)"
    using 2 n by (intro nft_remove_effect) (auto simp: laws_for_def)
  show ?case
  proof (cases "map_of want a")
    case None
    then have "banned (remove_loop X ag want hs k') \<subseteq> banned k' \<and>
        banned k' - {a \<in> set hs. map_of want a = None} \<subseteq> banned (remove_loop X ag want hs k')"
      using 2 n by simp
    then show ?thesis using None n b by (auto split: if_splits)
  next
    case (Some ttl)
    then have "banned (remove_loop X ag want hs k) \<subseteq> banned k \<and>
        banned k - {a \<in> set hs. map_of want a = None} \<subseteq> banned (remove_loop X ag want hs k)"
      using 2 by simp
    moreover have "{a \<in> set hs. map_of want a = None} = {b \<in> set (a # hs). map_of want b = None}"
      using Some by auto
    ultimately show ?thesis using Some by simp
  qed
qed

lemma remove_loop_all:
  assumes "laws_for X A banned" "\<not> nf_dryRun (ag_nft ag)" and "set hs \<subseteq> A"
    and "\<forall>args k. snd (snd (fst (x_nft X args k))) = None"
  shows "banned (remove_loop X ag want hs k) = banned k - {a \<in> set hs. map_of want a = None}"
  using assms
proof (induction X ag want hs k rule: remove_loop.induct)
  case (1 X ag want k)
  then show ?case by simp
next
  case (2 X ag want a hs k)
  obtain e k' where n: "nft_remove (x_lower X) (ag_nft ag) (x_nft X) a k = (e, k')" by (metis prod.exhaust)
  obtain out err e0 k0 where x: "x_nft X (delete_args a) k = ((out, err, e0), k0)" by (metis prod.exhaust)
  then have "e0 = None" using 2(6) by (metis fst_conv snd_conv)
  then have "e = None" using n x 2(4) by (simp add: nft_remove_def run_def)
  moreover have "banned k' = (if e = None then banned k - {a} else banned k)"
    using 2 n by (intro nft_remove_effect) (auto simp: laws_for_def)
  ultimately show ?case using 2 n by (cases "map_of want a") auto
qed

text \<open>The kernel a reconcile leaves behind, without the publishing.\<close>

definition reconcile_kernel :: "('k, 'r) externals \<Rightarrow> agent \<Rightarrow> (addr \<times> int) list \<Rightarrow> 'k \<Rightarrow> 'k" where
  "reconcile_kernel X ag want k =
     (case nft_list (ag_nft ag) (x_nft X) (x_json X) k of
        (Inl e, k1) \<Rightarrow> k1
      | (Inr hs, k1) \<Rightarrow>
          snd (nft_list (ag_nft ag) (x_nft X) (x_json X) (remove_loop X ag want hs (add_loop X ag want k1))))"

lemma kern_reconcile:
  "fetchBans (x_json X) http = Inr bans \<Longrightarrow>
   kern (reconcile X ag now http w) =
     reconcile_kernel X ag (desired ag (prune now (just w)) bans now) (kern w)"
  by (simp add: reconcile_def reconcile_kernel_def Let_def split: prod.split sum.split)

lemma just_reconcile: "just (reconcile X ag now http w) = prune now (just w)"
  by (simp add: reconcile_def Let_def split: prod.split sum.split)

lemma reconcile_kernel_bound:
  assumes L: "laws_for X A banned" "\<not> nf_dryRun (ag_nft ag)"
    and W: "\<forall>(a, ttl) \<in> set want. a \<in> A \<and> 0 < ttl" and B: "banned k \<subseteq> A"
  shows "banned (reconcile_kernel X ag want k) \<subseteq> banned k \<union> fst ` set want
    \<and> banned k \<inter> fst ` set want \<subseteq> banned (reconcile_kernel X ag want k)"
proof -
  have li: "banned k'' = banned k' \<and> (\<forall>as. r = Inr as \<longrightarrow> set as = banned k')"
    if "nft_list (ag_nft ag) (x_nft X) (x_json X) k' = (r, k'')" for k' r k''
    using nft_list_effect [OF L(1) [unfolded laws_for_def] L(2) that] by blast
  obtain r k1 where l1: "nft_list (ag_nft ag) (x_nft X) (x_json X) k = (r, k1)" by (metis prod.exhaust)
  show ?thesis
  proof (cases r)
    case (Inl e)
    then show ?thesis using l1 li [OF l1] by (simp add: reconcile_kernel_def)
  next
    case (Inr hs)
    let ?k2 = "add_loop X ag want k1" and ?k3 = "remove_loop X ag want hs (add_loop X ag want k1)"
    have hs: "set hs = banned k" "banned k1 = banned k" using li [OF l1] Inr by auto
    have add: "banned k \<subseteq> banned ?k2" "banned ?k2 \<subseteq> banned k \<union> fst ` set want"
      using add_loop_effect [OF L W, of k1] hs by auto
    have rem: "banned ?k3 \<subseteq> banned ?k2" "banned ?k2 - {a \<in> set hs. map_of want a = None} \<subseteq> banned ?k3"
      using remove_loop_effect [OF L, of hs want ?k2] hs B by auto
    obtain r4 k4 where l4: "nft_list (ag_nft ag) (x_nft X) (x_json X) ?k3 = (r4, k4)" by (metis prod.exhaust)
    have "banned (reconcile_kernel X ag want k) = banned ?k3"
      using l1 l4 Inr li [OF l4] by (simp add: reconcile_kernel_def)
    moreover have "fst ` set want \<inter> {a \<in> set hs. map_of want a = None} = {}"
      by (auto simp: map_of_eq_None_iff)
    ultimately show ?thesis using add rem by blast
  qed
qed


lemma reconcile_kernel_exact:
  assumes L: "laws_for X A banned" "\<not> nf_dryRun (ag_nft ag)"
    and W: "\<forall>(a, ttl) \<in> set want. a \<in> A \<and> 0 < ttl" and B: "banned k \<subseteq> A"
    and N: "\<forall>args k. snd (snd (fst (x_nft X args k))) = None"
  shows "banned (reconcile_kernel X ag want k) = fst ` set want"
proof -
  have ne: "snd (fst (run (ag_nft ag) (x_nft X) args k')) = None" for args k'
    using N by (auto simp: run_def split: prod.split option.split) (metis fst_conv snd_conv option.distinct(1))
  have li: "\<exists>as. r = Inr as \<and> set as = banned k' \<and> banned k'' = banned k'"
    if "nft_list (ag_nft ag) (x_nft X) (x_json X) k' = (r, k'')" for k' r k''
  proof -
    obtain o4 r4 e4 k1 where n4: "x_nft X (list_args set4) k' = ((o4, r4, e4), k1)" by (metis prod.exhaust)
    obtain o6 r6 e6 k2 where n6: "x_nft X (list_args set6) k1 = ((o6, r6, e6), k2)" by (metis prod.exhaust)
    note law = L(1) [unfolded laws_for_def nft_laws_def, THEN conjunct2, THEN conjunct2, THEN conjunct2, rule_format]
    have "e4 = None" "e6 = None" using N n4 n6 by (metis fst_conv snd_conv)+
    then have "\<exists>as. r = Inr as"
      using law [of k' True] law [of k1 False] n4 n6 that L(2) by (auto simp: nft_list_def run_def)
    then show ?thesis using nft_list_effect [OF L(1) [unfolded laws_for_def] L(2) that] by auto
  qed
  obtain r k1 where l1: "nft_list (ag_nft ag) (x_nft X) (x_json X) k = (r, k1)" by (metis prod.exhaust)
  obtain hs where hs: "r = Inr hs" "set hs = banned k" "banned k1 = banned k" using li [OF l1] by auto
  let ?k3 = "remove_loop X ag want hs (add_loop X ag want k1)"
  obtain r4 k4 where l4: "nft_list (ag_nft ag) (x_nft X) (x_json X) ?k3 = (r4, k4)" by (metis prod.exhaust)
  have "banned ?k3 = banned k \<union> fst ` set want - {a \<in> banned k. map_of want a = None}"
    using remove_loop_all [OF L _ N, of hs want] add_loop_all [OF L W N, of k1] hs B by simp
  also have "\<dots> = fst ` set want" by (auto simp: map_of_eq_None_iff)
  finally show ?thesis using l1 l4 hs li [OF l4] by (auto simp: reconcile_kernel_def)
qed

lemma desired_in_play:
  assumes "\<And>b a ttl. b \<in> set bans \<Longrightarrow> row_entry b = Some (a, ttl) \<Longrightarrow> a \<in> A"
  shows "\<forall>(a, ttl) \<in> set (desired ag t bans now). a \<in> A \<and> 0 < ttl"
proof clarify
  fix a ttl
  assume d: "(a, ttl) \<in> set (desired ag t bans now)"
  then have "map_of (desired ag t bans now) a = Some ttl"
    using desired_distinct by (metis map_of_is_SomeI)
  then have "map_of (rev (List.map_filter row_entry bans)) a = Some ttl"
    by (auto simp: desired_lookup split: if_splits)
  then have "(a, ttl) \<in> set (List.map_filter row_entry bans)" by (auto dest: map_of_SomeD)
  then have "a \<in> A" using assms by (auto simp: set_map_filter)
  then show "a \<in> A \<and> 0 < ttl" using desired_positive [OF d] by simp
qed

subsection \<open>A concrete outside world\<close>

text \<open>
  A kernel that knows one address, 203.0.113.9, and a JSON reader for the three documents the
  examples below use: it satisfies the laws.
\<close>

definition demo_addr :: addr where "demo_addr = V4 0xcb007109"

definition demo_nft :: "bool nft_prog" where
  "demo_nft args k =
     (if args ! 0 = ''add'' then (([], [], None), True)
      else if args ! 0 = ''delete'' then (([], [], None), False)
      else if args ! 0 = ''flush'' then (([], [], None), if args ! 4 = set4 then False else k)
      else ((if args ! 5 = set4 \<and> k then ''S'' else [], [], None), k))"

definition demo_json :: "string \<Rightarrow> json option" where
  "demo_json s =
     (if s = ''S'' then Some (JObj [(''nftables'', JArr [JObj [(''metainfo'', JNull)],
         JObj [(''set'', JObj [(''elem'', JArr [JObj [(''elem'', JObj [(''val'', JStr ''203.0.113.9'')])]])])]])])
      else if s = ''B'' then Some (JObj [(''complete'', JBool True), (''items'', JArr
         [JObj [(''ip'', JStr ''203.0.113.9''), (''ttl'', JNum ''600'')]])])
      else if s = ''R'' then Some (JObj [(''op'', JStr ''release''), (''ip'', JStr ''203.0.113.9'')])
      else None)"

definition demo_x :: "(bool, unit) externals" where
  "demo_x = \<lparr>x_nft = demo_nft, x_red = (\<lambda>cmds r. (True, r)), x_hgetall = (\<lambda>r k. Map.empty),
     x_json = demo_json, x_lower = (\<lambda>s. s), x_rfc3339 = (\<lambda>t. [])\<rparr>"

definition demo_banned :: "bool \<Rightarrow> addr set" where
  "demo_banned k = (if k then {demo_addr} else {})"

definition demo_cfg :: config where
  "demo_cfg = loadConfig (\<lambda>s. Some 60000000000) ((\<lambda>k. [])(''MOSWAF_KBANS_ALLOW'' := v4_string 0xcb007107,
     ''MOSWAF_KBANS_DOCKER_SUBNETS'' := '' ''))"

definition demo_nd :: never_drop where
  "demo_nd = \<lparr>nd_prefixes = Prefix (V4 0xcb007107) 32 # infrastructure_prefixes,
     nd_management = [prefix_string (Prefix (V4 0xcb007107) 32)]\<rparr>"

definition demo_agent :: agent where
  "demo_agent = \<lparr>ag_cfg = demo_cfg, ag_nd = demo_nd, ag_nft = \<lparr>nf_dryRun = False, nf_maxElements = 262144\<rparr>\<rparr>"

lemma demo_laws: "laws_for demo_x {demo_addr} demo_banned"
proof -
  have S: "parseSet demo_json ''S'' = Some [demo_addr]" by code_simp
  have N: "parseSet demo_json [] = Some []" by code_simp
  have n4: "set4 \<noteq> set6" "is4 demo_addr" by (simp_all add: set4_def set6_def demo_addr_def)
  show ?thesis
    unfolding laws_for_def nft_laws_def demo_x_def externals.select_convs
    using S N n4
    by (auto simp: demo_nft_def add_args_def delete_args_def flush_args_def list_args_def demo_banned_def)
qed


lemma demo_newNeverDrop: "newNeverDrop (c_management demo_cfg) (c_docker demo_cfg) = Inr demo_nd"
proof -
  have "CHR '','' \<notin> set (v4_string 0xcb007107)"
    using v4_string_no_space [of "CHR '',''" "0xcb007107"] by (auto simp: is_digit_def byte_of_def)
  moreover have "CHR '','' \<notin> set s \<Longrightarrow> split_on (CHR '','') s = [s]" for s
    by (induction s) auto
  moreover have "v4_string 0xcb007107 \<noteq> []" by (simp add: v4_string_def)
  ultimately have "c_management demo_cfg = [v4_string 0xcb007107]"
    by (simp add: demo_cfg_def loadConfig_def env_def Let_def)
  moreover have "c_docker demo_cfg = ['' '']"
    by (simp add: demo_cfg_def loadConfig_def env_def Let_def)
  moreover have "trim_space '' '' = []" by code_simp
  ultimately show ?thesis
    using \<open>v4_string 0xcb007107 \<noteq> []\<close>
    by (simp add: newNeverDrop_def infrastructure_parses demo_nd_def)
qed

lemma demo_rows: "fetchBans demo_json (Inr (200, ''B'')) = Inr [\<lparr>br_ip = ''203.0.113.9'', br_reason = [], br_ttl = 600\<rparr>]"
proof -
  have "demo_json ''B'' = Some (JObj [(''complete'', JBool True), (''items'', JArr
         [JObj [(''ip'', JStr ''203.0.113.9''), (''ttl'', JNum ''600'')]])])" by (simp add: demo_json_def)
  moreover have "opt_all decode_row [JObj [(''ip'', JStr ''203.0.113.9''), (''ttl'', JNum ''600'')]] =
      Some [\<lparr>br_ip = ''203.0.113.9'', br_reason = [], br_ttl = 600\<rparr>]" by code_simp
  moreover have "jslice ''items'' [(''complete'', JBool True), (''items'', j)] = j"
    "jfield ''complete'' [(''complete'', JBool True), (''items'', j)] = JBool True" for j
    by (simp_all add: jfield_def jslice_def jlast_def lower_char_def is_upper_def byte_of_def)
  moreover have "take body_limit ''B'' = ''B''" by (simp add: body_limit_def)
  ultimately show ?thesis by (simp add: fetchBans_def)
qed

lemma demo_desired:
  "\<not> held demo_addr now t \<Longrightarrow>
   desired demo_agent t [\<lparr>br_ip = ''203.0.113.9'', br_reason = [], br_ttl = 600\<rparr>] now = [(demo_addr, 600)]"
proof -
  have "parse_addr (trim_space ''203.0.113.9'') = Some demo_addr" by code_simp
  moreover have "unmap_addr demo_addr = demo_addr" by (simp add: demo_addr_def)
  moreover have "\<not> fst (covers demo_nd demo_addr)" by code_simp
  ultimately show "\<not> held demo_addr now t \<Longrightarrow> ?thesis"
    by (simp add: desired_def demo_agent_def)
qed

subsection \<open>Properties\<close>

text \<open>
  C1 Nothing the agent does can drop a protected address. Whatever events arrive, whatever the
  ban list says and however often the reconcile runs, the only nft commands issued are additions
  of addresses the refusal list does not cover, with a positive timeout, removals, flushes of
  the two ban sets and listings: every condition on the kernel those commands keep holds for ever.
\<close>

theorem agent_commands_safe:
  assumes "agent_run X ag w0 w"
    and "\<And>args k. agent_cmd (ag_nd ag) args \<Longrightarrow> P k \<Longrightarrow> P (snd (x_nft X args k))"
    and "P (kern w0)"
  shows "P (kern w)"
  using assms(1) _ assms(3) by (rule keeps_agent_run) (simp add: keeps_def assms(2))

lemma agent_commands_safe_witness:
  "list_all (agent_cmd demo_nd)
     (kern (reconcile (externals.make (\<lambda>args k. (([], [], None), args # k)) (\<lambda>cmds r. (True, r)) (\<lambda>r k. Map.empty)
        demo_json (\<lambda>s. s) (\<lambda>t. [])) demo_agent 5 (Inr (200, ''B''))
       \<lparr>kern = [], rds = (), just = newTombstones\<rparr>))"
  by (rule agent_commands_safe [OF run_reconcile [OF run_start]])
    (simp_all add: externals.make_def demo_agent_def)

text \<open>
  The installer's check means what it says: if \<open>-check -check-from a\<close> exits 0 and the agent
  then starts with the same configuration, the agent never asks for a drop of \<open>a\<close>, neither for an
  event nor for a ban list that contains it.
\<close>

theorem preflight_protects:
  assumes "preflight cfg from = 0" and "start_agent X cfg k r = Some (ag, w0)"
    and "parse_addr (trim_space from) = Some a"
  shows "map_of (desired ag t bans now) (unmap_addr a) = None
    \<and> kern (drop_addr X ag now (unmap_addr a) ttl w) = kern w"
proof -
  have "fst (covers (ag_nd ag) (unmap_addr a))"
    using assms by (auto simp: preflight_def start_agent_def Let_def
        split: sum.splits if_splits option.splits prod.splits)
  then show ?thesis by (auto simp: desired_lookup drop_addr_def split: prod.split)
qed

lemma preflight_protects_witness:
  "kern (drop_addr demo_x \<lparr>ag_cfg = demo_cfg, ag_nd = demo_nd,
       ag_nft = \<lparr>nf_dryRun = False, nf_maxElements = c_maxElements demo_cfg\<rparr>\<rparr> 3 (V4 0xcb007107) 60
     \<lparr>kern = False, rds = (), just = newTombstones\<rparr>) = False"
proof -
  have "fst (covers demo_nd (V4 0xcb007107))" by (simp add: demo_nd_def covers_def)
  then have pre: "preflight demo_cfg (v4_string 0xcb007107) = 0"
    by (simp add: preflight_def demo_newNeverDrop) (simp add: v4_string_def)
  have "c_dryRun demo_cfg = False"
    by (simp add: demo_cfg_def loadConfig_def Let_def)
  then have "start_agent demo_x demo_cfg False () =
      Some (\<lparr>ag_cfg = demo_cfg, ag_nd = demo_nd,
             ag_nft = \<lparr>nf_dryRun = False, nf_maxElements = c_maxElements demo_cfg\<rparr>\<rparr>,
            \<lparr>kern = False, rds = (), just = newTombstones\<rparr>)"
    by (simp add: start_agent_def demo_newNeverDrop ensureTable_def demo_x_def demo_nft_def ensure_args_def)
  then show ?thesis
    using preflight_protects [OF pre, of demo_x False "()" _ _ "V4 0xcb007107"] by simp
qed

text \<open>
  The set the reconcile aims at: an address is wanted exactly when it is not protected, was not
  released too recently and has a row that parses with a positive time to live; the last such row
  decides, and the time asked of the kernel is its own.
\<close>

theorem desired_exact:
  "map_of (desired ag t bans now) a = Some ttl \<longleftrightarrow>
     \<not> fst (covers (ag_nd ag) a) \<and> \<not> held a now t \<and>
     (\<exists>before b later. bans = before @ b # later \<and> row_entry b = Some (a, ttl)
        \<and> a \<notin> {fst e | c e. c \<in> set later \<and> row_entry c = Some e})"
  by (auto simp: desired_lookup last_entry)

text \<open>
  C2 A reconcile converges: when nft behaves as documented and refuses nothing, the kernel holds
  after a successful cycle exactly the addresses \<open>desired\<close> asks for, whatever it held before.
\<close>

theorem reconcile_converges:
  assumes "laws_for X A banned" and "\<not> nf_dryRun (ag_nft ag)" and "banned (kern w) \<subseteq> A"
    and "fetchBans (x_json X) http = Inr bans"
    and "\<And>b a ttl. b \<in> set bans \<Longrightarrow> row_entry b = Some (a, ttl) \<Longrightarrow> a \<in> A"
    and "\<And>args k. snd (snd (fst (x_nft X args k))) = None"
  shows "banned (kern (reconcile X ag now http w)) =
     {a. map_of (desired ag (prune now (just w)) bans now) a \<noteq> None}"
proof -
  have W: "\<forall>(a, ttl) \<in> set (desired ag (prune now (just w)) bans now). a \<in> A \<and> 0 < ttl"
    by (rule desired_in_play) (rule assms(5))
  have N: "\<forall>args k. snd (snd (fst (x_nft X args k))) = None" using assms(6) by blast
  have "banned (reconcile_kernel X ag (desired ag (prune now (just w)) bans now) (kern w)) =
      fst ` set (desired ag (prune now (just w)) bans now)"
    by (rule reconcile_kernel_exact [OF assms(1,2) W assms(3) N])
  then show ?thesis using kern_reconcile [OF assms(4)] by (simp add: map_of_eq_None_iff)
qed

lemma reconcile_converges_witness:
  "demo_banned (kern (reconcile demo_x demo_agent 5 (Inr (200, ''B''))
       \<lparr>kern = False, rds = (), just = newTombstones\<rparr>)) = {demo_addr}"
proof -
  have row: "row_entry \<lparr>br_ip = ''203.0.113.9'', br_reason = [], br_ttl = 600\<rparr> = Some (demo_addr, 600)"
    by code_simp
  have "demo_banned (kern (reconcile demo_x demo_agent 5 (Inr (200, ''B''))
       \<lparr>kern = False, rds = (), just = newTombstones\<rparr>)) =
      {a. map_of (desired demo_agent (prune 5 newTombstones)
            [\<lparr>br_ip = ''203.0.113.9'', br_reason = [], br_ttl = 600\<rparr>] 5) a \<noteq> None}"
    using row demo_rows
    by (subst reconcile_converges [OF demo_laws])
      (auto simp: demo_agent_def demo_banned_def demo_x_def demo_nft_def)
  also have "\<dots> = {demo_addr}"
    using held_prune [OF tombs_inv_new] by (subst demo_desired) (auto simp: tombs_simps)
  finally show ?thesis .
qed

text \<open>
  A cycle that cannot read the ban list changes nothing in the kernel, and forgets no release
  that still counts; so does a feed message that is short, unreadable or of unknown kind.
\<close>

theorem failed_cycle_harmless:
  assumes "fetchBans (x_json X) http = Inl e" and "tombs_inv (just w)" and "now \<le> later"
  shows "kern (reconcile X ag now http w) = kern w
    \<and> held a later (just (reconcile X ag now http w)) = held a later (just w)
    \<and> kern (consume_step X ag now (Inl msg) w) = kern w"
  using assms by (simp add: reconcile_def consume_step_def rn.tidy_harmless)

lemma failed_cycle_harmless_witness:
  "kern (reconcile demo_x demo_agent 5 (Inr (503, [])) \<lparr>kern = True, rds = (), just = newTombstones\<rparr>) = True"
  using failed_cycle_harmless [of demo_x "Inr (503, [])" "FetchStatus 503"
      "\<lparr>kern = True, rds = (), just = newTombstones\<rparr>" 5 5]
  by (simp add: fetchBans_def tombs_inv_new)


subsection \<open>A release and the reconcile\<close>

text \<open>The event handler when the kernel accepted the removal.\<close>

lemma release_accepted:
  assumes "fst (nft_remove (x_lower X) (ag_nft ag) (x_nft X) a (kern w)) = None"
  shows "just (release_addr X ag t0 a w) = mark a t0 (holdFor (resync_of ag)) (just w)"
    and "kern (release_addr X ag t0 a w) = snd (nft_remove (x_lower X) (ag_nft ag) (x_nft X) a (kern w))"
  using assms by (auto simp: release_addr_def split: prod.split)

text \<open>What an event names, and whether it bans it.\<close>

definition event_names :: "('k, 'r) externals \<Rightarrow> string \<Rightarrow> (string \<times> addr) option" where
  "event_names X raw =
     (case Option.bind (x_json X raw) decode_event of
        None \<Rightarrow> None
      | Some ev \<Rightarrow> map_option (\<lambda>a. (be_op ev, unmap_addr a)) (parse_addr (trim_space (be_ip ev))))"

text \<open>
  What can follow a release of \<open>a\<close> at \<open>t0\<close>: messages of the feed from then on that do not ban \<open>a\<close> again,
  and reconciles that start within two intervals, with any ban list or none. \<open>A\<close> holds every address named.
\<close>

inductive after_release :: "('k, 'r) externals \<Rightarrow> agent \<Rightarrow> addr set \<Rightarrow> addr \<Rightarrow> int \<Rightarrow> ('k, 'r) world \<Rightarrow> ('k, 'r) world \<Rightarrow> bool"
  for X ag A a t0 w0 where
  released: "after_release X ag A a t0 w0 w0"
| feed_event: "after_release X ag A a t0 w0 w \<Longrightarrow> t0 \<le> now \<Longrightarrow> event_names X raw \<noteq> Some (''drop'', a) \<Longrightarrow>
    (\<forall>opn b. event_names X raw = Some (opn, b) \<longrightarrow> b \<in> A) \<Longrightarrow>
    after_release X ag A a t0 w0 (apply_event X ag now raw w)"
| cycle: "after_release X ag A a t0 w0 w \<Longrightarrow> now < t0 + 2 * resync_of ag \<Longrightarrow>
    (\<forall>bans b c ttl. fetchBans (x_json X) http = Inr bans \<and> b \<in> set bans \<and> row_entry b = Some (c, ttl) \<longrightarrow> c \<in> A) \<Longrightarrow>
    after_release X ag A a t0 w0 (reconcile X ag now http w)"

text \<open>The note counts for the whole window, and the address is not in the kernel.\<close>

definition let_go :: "('k \<Rightarrow> addr set) \<Rightarrow> addr set \<Rightarrow> addr \<Rightarrow> int \<Rightarrow> ('k, 'r) world \<Rightarrow> bool" where
  "let_go banned A a limit w \<longleftrightarrow> tombs_inv (just w) \<and> (\<forall>later < limit. held a later (just w)) \<and> a \<notin> banned (kern w) \<and> banned (kern w) \<subseteq> A"

lemma let_go_reconcile:
  assumes L: "laws_for X A banned" "\<not> nf_dryRun (ag_nft ag)" and G: "let_go banned A a limit w" and "now < limit"
    and A: "\<And>bans b c ttl. fetchBans (x_json X) http = Inr bans \<Longrightarrow> b \<in> set bans \<Longrightarrow> row_entry b = Some (c, ttl) \<Longrightarrow> c \<in> A"
  shows "let_go banned A a limit (reconcile X ag now http w)"
proof -
  let ?t = "prune now (just w)"
  have t: "tombs_inv ?t" "\<forall>later < limit. held a later ?t" using G assms(4) by (auto simp: let_go_def tombs_simps)
  have "a \<notin> banned (kern (reconcile X ag now http w)) \<and> banned (kern (reconcile X ag now http w)) \<subseteq> A"
  proof (cases "fetchBans (x_json X) http")
    case (Inl e)
    then show ?thesis using G by (simp add: let_go_def reconcile_def)
  next
    case (Inr bans)
    let ?want = "desired ag ?t bans now"
    have W: "\<forall>(c, ttl) \<in> set ?want. c \<in> A \<and> 0 < ttl" by (rule desired_in_play) (rule A [OF Inr])
    have "a \<notin> fst ` set ?want" using t(2) assms(4) desired_positive [of a _ ag] by fastforce
    moreover have "fst ` set ?want \<subseteq> A" using W by auto
    moreover have "banned (kern w) \<subseteq> A" "a \<notin> banned (kern w)" using G by (simp_all add: let_go_def)
    ultimately show ?thesis
      using reconcile_kernel_bound [OF L W, of "kern w"] unfolding kern_reconcile [OF Inr, of ag now w] by blast
  qed
  then show ?thesis using t by (simp add: let_go_def just_reconcile)
qed

lemma let_go_release:
  assumes L: "laws_for X A banned" "\<not> nf_dryRun (ag_nft ag)" and "c \<in> A" and "banned (kern w) \<subseteq> A" and "tombs_inv (just w)"
  shows "banned (kern (release_addr X ag now c w)) \<subseteq> banned (kern w)"
    and "let_go banned A a (t0 + 2 * resync_of ag) w \<Longrightarrow> t0 \<le> now \<Longrightarrow> let_go banned A a (t0 + 2 * resync_of ag) (release_addr X ag now c w)"
    and "fst (nft_remove (x_lower X) (ag_nft ag) (x_nft X) c (kern w)) = None \<Longrightarrow>
      let_go banned A c (now + 2 * resync_of ag) (release_addr X ag now c w)"
proof -
  obtain e k' where n: "nft_remove (x_lower X) (ag_nft ag) (x_nft X) c (kern w) = (e, k')" by (metis prod.exhaust)
  have "banned k' = (if e = None then banned (kern w) - {c} else banned (kern w))"
    by (rule nft_remove_effect [OF L(1) [unfolded laws_for_def] assms(3) L(2) n])
  then show "banned (kern (release_addr X ag now c w)) \<subseteq> banned (kern w)"
    "let_go banned A a (t0 + 2 * resync_of ag) w \<Longrightarrow> t0 \<le> now \<Longrightarrow> let_go banned A a (t0 + 2 * resync_of ag) (release_addr X ag now c w)"
    "fst (nft_remove (x_lower X) (ag_nft ag) (x_nft X) c (kern w)) = None \<Longrightarrow>
      let_go banned A c (now + 2 * resync_of ag) (release_addr X ag now c w)"
    using assms(4,5) n by (auto simp: release_addr_def let_go_def tombs_simps holdFor_def)
qed

lemma let_go_release_all:
  assumes L: "laws_for X A banned" "\<not> nf_dryRun (ag_nft ag)" and G: "let_go banned A a (t0 + 2 * resync_of ag) w" "t0 \<le> now"
  shows "let_go banned A a (t0 + 2 * resync_of ag) (release_all X ag now w)"
proof -
  obtain r k1 where l: "nft_list (ag_nft ag) (x_nft X) (x_json X) (kern w) = (r, k1)" by (metis prod.exhaust)
  obtain e k2 where f: "nft_flush (ag_nft ag) (x_nft X) k1 = (e, k2)" by (metis prod.exhaust)
  have "banned k2 \<subseteq> banned (kern w)"
    using nft_list_effect [OF L(1) [unfolded laws_for_def] L(2) l] nft_flush_effect [OF L(1) [unfolded laws_for_def] L(2) f] by simp
  moreover have "tombs_inv (just w)" using G by (simp add: let_go_def)
  note rn.notes_fold [OF this, of now "holdFor (resync_of ag)"]
  ultimately show ?thesis using G
    by (auto simp: release_all_def l f let_go_def Let_def holdFor_def split: sum.split)
qed

lemma let_go_drop:
  assumes L: "laws_for X A banned" "\<not> nf_dryRun (ag_nft ag)" and "c \<in> A" "c \<noteq> a" and G: "let_go banned A a limit w"
  shows "let_go banned A a limit (drop_addr X ag now c ttl w)"
proof -
  obtain e k' where n: "nft_add (ag_nft ag) (x_nft X) c ttl (kern w) = (e, k')" by (metis prod.exhaust)
  have "banned k' = (if e = None then insert c (banned (kern w)) else banned (kern w))" if "0 < ttl"
    by (rule nft_add_effect [OF L(1) [unfolded laws_for_def] assms(3) L(2) that n])
  then show ?thesis using G assms(3,4) n
    by (auto simp: drop_addr_def let_go_def Let_def tombs_simps split: prod.split)
qed

lemma let_go_event:
  assumes L: "laws_for X A banned" "\<not> nf_dryRun (ag_nft ag)" and G: "let_go banned A a (t0 + 2 * resync_of ag) w" "t0 \<le> now"
    and "event_names X raw \<noteq> Some (''drop'', a)" "\<forall>opn b. event_names X raw = Some (opn, b) \<longrightarrow> b \<in> A"
  shows "let_go banned A a (t0 + 2 * resync_of ag) (apply_event X ag now raw w)"
proof (cases "Option.bind (x_json X raw) decode_event")
  case (Some ev)
  show ?thesis
  proof (cases "parse_addr (trim_space (be_ip ev))")
    case None
    then show ?thesis using let_go_release_all [OF L G] G(1) Some by (simp add: apply_event_def)
  next
    case p: (Some c)
    have A: "unmap_addr c \<in> A" and d: "be_op ev = ''drop'' \<longrightarrow> unmap_addr c \<noteq> a"
      using assms(5,6) Some p by (auto simp: event_names_def)
    have w: "banned (kern w) \<subseteq> A" "tombs_inv (just w)" using G(1) by (simp_all add: let_go_def)
    show ?thesis
      using let_go_release_all [OF L G] let_go_drop [OF L A _ G(1)] let_go_release(2) [OF L A w G] G(1) d Some p
      by (simp add: apply_event_def Let_def)
  qed
qed (simp add: apply_event_def G(1))

text \<open>
  C4 A release sticks. Once the kernel accepted the removal at \<open>t0\<close>, the address stays out of the kernel
  through any sequence of later feed messages and reconciles in any order, as long as no message bans it
  again and every reconcile starts within two intervals of the release - even from ban lists that still name
  it. Messages and reconciles are taken one at a time here, and the addresses they name are those \<open>A\<close> for
  which nft behaves as documented; what a release in the middle of a cycle can meet is \<open>release_race\<close>.
\<close>

theorem release_sticks:
  assumes "laws_for X A banned" and "\<not> nf_dryRun (ag_nft ag)" and "banned (kern w) \<subseteq> A" and "a \<in> A"
    and "tombs_inv (just w)"
    and "fst (nft_remove (x_lower X) (ag_nft ag) (x_nft X) a (kern w)) = None"
    and "after_release X ag A a t0 (release_addr X ag t0 a w) w'"
  shows "a \<notin> banned (kern w')"
proof -
  have "let_go banned A a (t0 + 2 * resync_of ag) w'" using assms(7)
  proof induction
    case released
    show ?case by (rule let_go_release(3) [OF assms(1,2,4,3,5,6)])
  next
    case (feed_event w now raw)
    then show ?case by (intro let_go_event [OF assms(1,2)])
  next
    case (cycle w now http)
    then show ?case by (intro let_go_reconcile [OF assms(1,2)]) blast+
  qed
  then show ?thesis by (simp add: let_go_def)
qed

lemma release_sticks_witness:
  "demo_addr \<notin> demo_banned (kern (reconcile demo_x demo_agent 91000000000 (Inr (200, ''B''))
     (reconcile demo_x demo_agent 90000000000 (Inr (200, ''B''))
       (apply_event demo_x demo_agent 60 ''R''
         (release_addr demo_x demo_agent 5 demo_addr \<lparr>kern = True, rds = (), just = newTombstones\<rparr>)))))"
proof -
  let ?w = "\<lparr>kern = True, rds = (), just = newTombstones\<rparr>"
  have row: "row_entry \<lparr>br_ip = ''203.0.113.9'', br_reason = [], br_ttl = 600\<rparr> = Some (demo_addr, 600)" by code_simp
  have f: "fetchBans (x_json demo_x) (Inr (200, ''B'')) = Inr [\<lparr>br_ip = ''203.0.113.9'', br_reason = [], br_ttl = 600\<rparr>]"
    using demo_rows by (simp add: demo_x_def)
  have e: "event_names demo_x ''R'' = Some (''release'', demo_addr)"
  proof -
    have "Option.bind (demo_json ''R'') decode_event =
        Some \<lparr>be_op = ''release'', be_ip = ''203.0.113.9'', be_ttl = 0, be_reason = [], be_ts = 0\<rparr>"
      and "map_option unmap_addr (parse_addr (trim_space ''203.0.113.9'')) = Some demo_addr" by code_simp+
    then show ?thesis by (auto simp: event_names_def demo_x_def)
  qed
  have rs: "resync_of demo_agent = 60000000000" by (simp add: resync_of_def demo_agent_def demo_cfg_def loadConfig_def)
  have c: "\<forall>bans b c ttl. fetchBans (x_json demo_x) (Inr (200, ''B'')) = Inr bans \<and> b \<in> set bans \<and> row_entry b = Some (c, ttl) \<longrightarrow> c \<in> {demo_addr}"
    using f row by simp
  have run: "after_release demo_x demo_agent {demo_addr} demo_addr 5 (release_addr demo_x demo_agent 5 demo_addr ?w)
      (reconcile demo_x demo_agent 91000000000 (Inr (200, ''B''))
        (reconcile demo_x demo_agent 90000000000 (Inr (200, ''B''))
          (apply_event demo_x demo_agent 60 ''R'' (release_addr demo_x demo_agent 5 demo_addr ?w))))"
    by (intro cycle feed_event released c) (simp_all add: rs e)
  show ?thesis
    by (rule release_sticks [OF demo_laws _ _ _ _ _ run])
      (simp_all add: demo_agent_def demo_banned_def tombs_inv_new nft_remove_def run_def demo_x_def demo_nft_def delete_args_def)
qed

subsection \<open>The reconcile and the feed, interleaved\<close>

text \<open>
  \<open>main\<close> starts the reconcile as a goroutine beside the consumer; the two share the kernel, the tombstones and
  Redis, and no lock spans a cycle or a message. Each goroutine is cut at every point where the other can act:
  one nft command, one critical section of the tombstones, one exchange with Redis or the ban list per step.
  A phase says what the goroutine does next and what it remembers; the clock is read anew where the code does.
\<close>

datatype cycle_phase =
    CIdle
  | CPruned int
  | CWanting int "ban_row list" "(addr \<times> int) list"
  | CList4 "(addr \<times> int) list"
  | CList6 "(addr \<times> int) list" "addr list"
  | CAdding "(addr \<times> int) list" "addr list" "(addr \<times> int) list"
  | CRemoving "(addr \<times> int) list" "addr list"
  | CRead4 "(addr \<times> int) list"
  | CRead6 "(addr \<times> int) list" "addr list"
  | CCollect "(addr \<times> int) list" "addr list"
  | CPublish "redis_cmd list" int
  | CHealth int
  | CExpire

datatype feed_phase =
    FIdle
  | FDrop addr int
  | FAdd addr int
  | FRelease addr
  | FWas4
  | FWas6 "addr list"
  | FFlush4 "addr list"
  | FFlush6 "addr list"
  | FMark "addr list" "redis_cmd list"
  | FSend "redis_cmd list"

text \<open>One of the two listings of \<open>list\<close>.\<close>

definition list_part :: "('k, 'r) externals \<Rightarrow> agent \<Rightarrow> string \<Rightarrow> 'k \<Rightarrow> (string + addr list) \<times> 'k" where
  "list_part X ag s k =
     (case run (ag_nft ag) (x_nft X) (list_args s) k of ((out, e), k') \<Rightarrow>
        ((case e of Some msg \<Rightarrow> Inl msg
          | None \<Rightarrow> (case parseSet (x_json X) out of None \<Rightarrow> Inl ''reading the kernel set'' | Some as \<Rightarrow> Inr as)), k'))"

inductive cycle_step :: "('k, 'r) externals \<Rightarrow> agent \<Rightarrow> cycle_phase \<times> ('k, 'r) world \<Rightarrow> cycle_phase \<times> ('k, 'r) world \<Rightarrow> bool"
  for X ag where
  c_prune: "cycle_step X ag (CIdle, w) (CPruned now, w\<lparr>just := prune now (just w)\<rparr>)"
| c_fetch: "cycle_step X ag (CPruned now, w)
    (case fetchBans (x_json X) http of Inl e \<Rightarrow> CHealth (- 1) | Inr bans \<Rightarrow> CWanting now bans [], w)"
| c_want: "cycle_step X ag (CWanting now (b # bs) want, w)
    (CWanting now bs (desired_loop (ag_nd ag) (just w) now [b] want), w)"
| c_wanted: "cycle_step X ag (CWanting now [] want, w) (CList4 want, w)"
| c_list4: "list_part X ag set4 (kern w) = (r, k') \<Longrightarrow> cycle_step X ag (CList4 want, w)
    (case r of Inl e \<Rightarrow> CHealth (- 1) | Inr as4 \<Rightarrow> CList6 want as4, w\<lparr>kern := k'\<rparr>)"
| c_list6: "list_part X ag set6 (kern w) = (r, k') \<Longrightarrow> cycle_step X ag (CList6 want as4, w)
    (case r of Inl e \<Rightarrow> CHealth (- 1) | Inr as6 \<Rightarrow> CAdding want (remdups (as4 @ as6)) want, w\<lparr>kern := k'\<rparr>)"
| c_add: "(a, ttl) \<in> set todo \<Longrightarrow> cycle_step X ag (CAdding want hs todo, w)
    (CAdding want hs (remove1 (a, ttl) todo), w\<lparr>kern := snd (nft_add (ag_nft ag) (x_nft X) a ttl (kern w))\<rparr>)"
| c_added: "cycle_step X ag (CAdding want hs [], w) (CRemoving want hs, w)"
| c_keep: "a \<in> set hs \<Longrightarrow> map_of want a \<noteq> None \<Longrightarrow> cycle_step X ag (CRemoving want hs, w) (CRemoving want (remove1 a hs), w)"
| c_remove: "a \<in> set hs \<Longrightarrow> map_of want a = None \<Longrightarrow> cycle_step X ag (CRemoving want hs, w)
    (CRemoving want (remove1 a hs), w\<lparr>kern := snd (nft_remove (x_lower X) (ag_nft ag) (x_nft X) a (kern w))\<rparr>)"
| c_removed: "cycle_step X ag (CRemoving want [], w) (CRead4 want, w)"
| c_read4: "list_part X ag set4 (kern w) = (r, k') \<Longrightarrow> cycle_step X ag (CRead4 want, w)
    (case r of Inl e \<Rightarrow> CHealth (- 1) | Inr as4 \<Rightarrow> CRead6 want as4, w\<lparr>kern := k'\<rparr>)"
| c_read6: "list_part X ag set6 (kern w) = (r, k') \<Longrightarrow> cycle_step X ag (CRead6 want as4, w)
    (case r of Inl e \<Rightarrow> CHealth (- 1) | Inr as6 \<Rightarrow> CCollect want (remdups (as4 @ as6)), w\<lparr>kern := k'\<rparr>)"
| c_collect: "cycle_step X ag (CCollect want final, w)
    (CPublish (publishState (resync_of ag) now (x_hgetall X (rds w) keyApplied) (applied_of want final) (orphans_of want final))
       (int (length (applied_of want final))), w)"
| c_publish: "cycle_step X ag (CPublish cmds n, w) (CHealth n, publish X cmds w)"
| c_health: "x_red X [health_cmd X ag now n] (rds w) = (ok, r') \<Longrightarrow>
    cycle_step X ag (CHealth n, w) (if ok then CExpire else CIdle, w\<lparr>rds := r'\<rparr>)"
| c_expire: "cycle_step X ag (CExpire, w) (CIdle, publish X [Expire keyHealth (expiry (resync_of ag))] w)"

text \<open>A message that names no operation, or one without a readable address, is no step.\<close>

definition message :: "('k, 'r) externals \<Rightarrow> string \<Rightarrow> feed_phase" where
  "message X raw =
     (case Option.bind (x_json X raw) decode_event of
        None \<Rightarrow> FIdle
      | Some ev \<Rightarrow>
          if be_op ev = ''release_all'' then FWas4
          else (case parse_addr (trim_space (be_ip ev)) of
                  None \<Rightarrow> FIdle
                | Some a \<Rightarrow>
                    if be_op ev = ''drop'' then (if be_ttl ev \<le> 0 then FIdle else FDrop (unmap_addr a) (be_ttl ev))
                    else if be_op ev = ''release'' then FRelease (unmap_addr a)
                    else FIdle))"

inductive feed_step :: "('k, 'r) externals \<Rightarrow> agent \<Rightarrow> feed_phase \<times> ('k, 'r) world \<Rightarrow> feed_phase \<times> ('k, 'r) world \<Rightarrow> bool"
  for X ag where
  f_message: "feed_step X ag (FIdle, w) (message X raw, w)"
| f_refused: "covers (ag_nd ag) a = (True, why) \<Longrightarrow>
    feed_step X ag (FDrop a ttl, w) (FSend (noteRefused (resync_of ag) a why), w)"
| f_clear: "\<not> fst (covers (ag_nd ag) a) \<Longrightarrow> feed_step X ag (FDrop a ttl, w) (FAdd a ttl, w\<lparr>just := clear a (just w)\<rparr>)"
| f_add: "nft_add (ag_nft ag) (x_nft X) a ttl (kern w) = (e, k') \<Longrightarrow> feed_step X ag (FAdd a ttl, w)
    (if e = None then FSend (noteApplied (resync_of ag) now a) else FIdle, w\<lparr>kern := k'\<rparr>)"
| f_remove: "nft_remove (x_lower X) (ag_nft ag) (x_nft X) a (kern w) = (e, k') \<Longrightarrow> feed_step X ag (FRelease a, w)
    (if e = None then FMark [a] (forget a) else FIdle, w\<lparr>kern := k'\<rparr>)"
| f_was4: "list_part X ag set4 (kern w) = (r, k') \<Longrightarrow> feed_step X ag (FWas4, w)
    (case r of Inl e \<Rightarrow> FFlush4 [] | Inr as4 \<Rightarrow> FWas6 as4, w\<lparr>kern := k'\<rparr>)"
| f_was6: "list_part X ag set6 (kern w) = (r, k') \<Longrightarrow> feed_step X ag (FWas6 as4, w)
    (case r of Inl e \<Rightarrow> FFlush4 [] | Inr as6 \<Rightarrow> FFlush4 (remdups (as4 @ as6)), w\<lparr>kern := k'\<rparr>)"
| f_flush4: "run (ag_nft ag) (x_nft X) (flush_args set4) (kern w) = ((out, e), k') \<Longrightarrow> feed_step X ag (FFlush4 was, w)
    (if e = None then FFlush6 was else FIdle, w\<lparr>kern := k'\<rparr>)"
| f_flush6: "run (ag_nft ag) (x_nft X) (flush_args set6) (kern w) = ((out, e), k') \<Longrightarrow> feed_step X ag (FFlush6 was, w)
    (if e = None then FMark was forgetAll else FIdle, w\<lparr>kern := k'\<rparr>)"
| f_mark: "a \<in> set as \<Longrightarrow> feed_step X ag (FMark as cmds, w)
    (FMark (remove1 a as) cmds, w\<lparr>just := mark a now (holdFor (resync_of ag)) (just w)\<rparr>)"
| f_marked: "feed_step X ag (FMark [] cmds, w) (FSend cmds, w)"
| f_send: "feed_step X ag (FSend cmds, w) (FIdle, publish X cmds w)"

text \<open>The two goroutines over one world.\<close>

inductive conc_step :: "('k, 'r) externals \<Rightarrow> agent \<Rightarrow> cycle_phase \<times> feed_phase \<times> ('k, 'r) world \<Rightarrow> cycle_phase \<times> feed_phase \<times> ('k, 'r) world \<Rightarrow> bool"
  for X ag where
  by_cycle: "cycle_step X ag (c, w) (c', w') \<Longrightarrow> conc_step X ag (c, f, w) (c', f, w')"
| by_feed: "feed_step X ag (f, w) (f', w') \<Longrightarrow> conc_step X ag (c, f, w) (c, f', w')"

text \<open>What every phase holds of its lists: only addresses that may be dropped.\<close>

definition droppable :: "never_drop \<Rightarrow> (addr \<times> int) list \<Rightarrow> bool" where
  "droppable nd xs \<longleftrightarrow> list_all (\<lambda>(a, ttl). \<not> fst (covers nd a)) xs"

fun cycle_ok :: "never_drop \<Rightarrow> cycle_phase \<Rightarrow> bool" where
  "cycle_ok nd (CWanting now bs want) = droppable nd want"
| "cycle_ok nd (CList4 want) = droppable nd want"
| "cycle_ok nd (CList6 want as) = droppable nd want"
| "cycle_ok nd (CAdding want hs todo) = droppable nd todo"
| "cycle_ok nd _ = True"

fun feed_ok :: "never_drop \<Rightarrow> feed_phase \<Rightarrow> bool" where
  "feed_ok nd (FAdd a ttl) = (\<not> fst (covers nd a))"
| "feed_ok nd _ = True"

lemma droppable_Nil [simp]: "droppable nd []"
  by (simp add: droppable_def)

lemma droppable_loop: "droppable nd want \<Longrightarrow> droppable nd (desired_loop nd t now bs want)"
proof (induction bs arbitrary: want)
  case (Cons b bs)
  have "droppable nd (AList.update a ttl want)" if "droppable nd want" "\<not> fst (covers nd a)" for a ttl want
    using that by (induction want) (auto simp: droppable_def)
  then show ?case using Cons by (auto simp: Let_def split: option.split)
qed simp

lemma keeps_list_part [keeps_intros]: "keeps (ag_nd ag) (x_nft X) P \<Longrightarrow> P k \<Longrightarrow> s \<in> {set4, set6} \<Longrightarrow> P (snd (list_part X ag s k))"
  by (auto simp: list_part_def split: prod.split elim!: keeps_run_eq [rotated 3])

lemma cycle_step_keeps:
  assumes "cycle_step X ag (c, w) (c', w')" and K: "keeps (ag_nd ag) (x_nft X) P"
    and "cycle_ok (ag_nd ag) c" "P (kern w)" "tombs_inv (just w)"
  shows "cycle_ok (ag_nd ag) c' \<and> P (kern w') \<and> tombs_inv (just w')"
proof -
  have l: "P k'" if "list_part X ag s (kern w) = (r, k')" "s \<in> {set4, set6}" for s r k'
    using keeps_list_part [OF K assms(4) that(2)] that(1) by simp
  have r: "droppable nd (remove1 x xs)" if "droppable nd xs" for nd x xs
    using that by (auto simp: droppable_def list_all_iff dest: notin_set_remove1)
  show ?thesis using assms(1)
  proof (cases rule: cycle_step.cases)
    case (c_add a ttl todo want hs)
    moreover have "\<not> fst (covers (ag_nd ag) a)" using assms(3) c_add by (auto simp: droppable_def list_all_iff)
    ultimately show ?thesis using assms(3-5) keeps_add [OF K assms(4)] r by simp
  next
    case (c_remove a hs want)
    then show ?thesis using assms(4,5) keeps_remove [OF K] by simp
  qed (use assms(3-5) l in \<open>auto simp: tombs_simps droppable_loop split: sum.split simp del: desired_loop.simps\<close>)
qed

lemma feed_step_keeps:
  assumes "feed_step X ag (f, w) (f', w')" and K: "keeps (ag_nd ag) (x_nft X) P"
    and "feed_ok (ag_nd ag) f" "P (kern w)" "tombs_inv (just w)"
  shows "feed_ok (ag_nd ag) f' \<and> P (kern w') \<and> tombs_inv (just w')"
proof -
  have l: "P k'" if "list_part X ag s (kern w) = (r, k')" "s \<in> {set4, set6}" for s r k'
    using keeps_list_part [OF K assms(4) that(2)] that(1) by simp
  have m: "feed_ok nd (message X raw)" for nd raw by (simp add: message_def split: option.split)
  show ?thesis using assms(1)
  proof (cases rule: feed_step.cases)
    case (f_add a ttl e k' now)
    then show ?thesis using assms(3-5) keeps_add [OF K assms(4), of a "ag_nft ag" ttl] by simp
  next
    case (f_remove a e k')
    then show ?thesis using assms(4,5) keeps_remove [OF K assms(4), of "x_lower X" "ag_nft ag" a] by simp
  next
    case (f_flush4 out e k' was)
    then show ?thesis using assms(4,5) keeps_run [OF K _ assms(4), of "flush_args set4" "ag_nft ag"] by simp
  next
    case (f_flush6 out e k' was)
    then show ?thesis using assms(4,5) keeps_run [OF K _ assms(4), of "flush_args set6" "ag_nft ag"] by simp
  qed (use assms(3-5) l m in \<open>auto simp: tombs_simps split: sum.split\<close>)
qed

text \<open>
  C3 That safety does not depend on the two goroutines taking turns. Both are cut at every nft command, every
  critical section of the tombstones and every exchange with Redis - the two listings of a cycle and those of
  the read-back, each addition and each removal in any order, the fetch and the listings that fail, and the
  handler of a message likewise - and act in any order: the kernel conditions kept by the agent's
  own kinds of command still hold in every reachable state.
\<close>

theorem interleaved_commands_safe:
  assumes "(conc_step X ag)\<^sup>*\<^sup>* (CIdle, FIdle, w0) (c, f, w)" and "tombs_inv (just w0)"
    and "\<And>args k. agent_cmd (ag_nd ag) args \<Longrightarrow> P k \<Longrightarrow> P (snd (x_nft X args k))"
    and "P (kern w0)"
  shows "P (kern w) \<and> tombs_inv (just w)"
proof -
  have K: "keeps (ag_nd ag) (x_nft X) P" by (simp add: keeps_def assms(3))
  have "case s of (c, f, w) \<Rightarrow> cycle_ok (ag_nd ag) c \<and> feed_ok (ag_nd ag) f \<and> P (kern w) \<and> tombs_inv (just w)"
    if "(conc_step X ag)\<^sup>*\<^sup>* (CIdle, FIdle, w0) s" for s
    using that
  proof induction
    case base
    then show ?case using assms(2,4) by simp
  next
    case (step s t)
    from step(2) show ?case
    proof (cases rule: conc_step.cases)
      case (by_cycle c w c' w' f)
      then show ?thesis using step(3) cycle_step_keeps [OF _ K] by auto
    next
      case (by_feed f w f' w' c)
      then show ?thesis using step(3) feed_step_keeps [OF _ K] by auto
    qed
  qed
  from this [OF assms(1)] show ?thesis by simp
qed

subsection \<open>The sequential operations are runs of the steps\<close>

lemma nft_list_parts:
  "nft_list (ag_nft ag) (x_nft X) (x_json X) k =
     (case list_part X ag set4 k of
        (Inl e, k1) \<Rightarrow> (Inl e, k1)
      | (Inr as4, k1) \<Rightarrow>
          (case list_part X ag set6 k1 of (Inl e, k2) \<Rightarrow> (Inl e, k2) | (Inr as6, k2) \<Rightarrow> (Inr (remdups (as4 @ as6)), k2)))"
proof -
  have "parseSet J [] = Some []" for J
  proof -
    have "trim_space [] = []" by code_simp
    then show ?thesis by (simp add: parseSet_def)
  qed
  then show ?thesis
    by (auto simp: nft_list_def list_part_def run_def split: prod.split option.split)
qed

lemma c_then: "cycle_step X ag s t \<Longrightarrow> (cycle_step X ag)\<^sup>*\<^sup>* t u \<Longrightarrow> (cycle_step X ag)\<^sup>*\<^sup>* s u"
  by (rule converse_rtranclp_into_rtranclp)

lemma f_then: "feed_step X ag s t \<Longrightarrow> (feed_step X ag)\<^sup>*\<^sup>* t u \<Longrightarrow> (feed_step X ag)\<^sup>*\<^sup>* s u"
  by (rule converse_rtranclp_into_rtranclp)

lemmas c_one = r_into_rtranclp [where r = "cycle_step X ag" for X ag]
lemmas f_one = r_into_rtranclp [where r = "feed_step X ag" for X ag]

lemma lists_run:
  assumes "nft_list (ag_nft ag) (x_nft X) (x_json X) (kern w) = (r, k')"
  shows "(cycle_step X ag)\<^sup>*\<^sup>* (CList4 want, w) (case r of Inl e \<Rightarrow> CHealth (- 1) | Inr hs \<Rightarrow> CAdding want hs want, w\<lparr>kern := k'\<rparr>)"
    and "(cycle_step X ag)\<^sup>*\<^sup>* (CRead4 want, w) (case r of Inl e \<Rightarrow> CHealth (- 1) | Inr hs \<Rightarrow> CCollect want hs, w\<lparr>kern := k'\<rparr>)"
    and "(feed_step X ag)\<^sup>*\<^sup>* (FWas4, w) (FFlush4 (case r of Inl e \<Rightarrow> [] | Inr hs \<Rightarrow> hs), w\<lparr>kern := k'\<rparr>)"
proof -
  obtain r4 k1 where 4: "list_part X ag set4 (kern w) = (r4, k1)" by (metis prod.exhaust)
  obtain r6 k2 where 6: "list_part X ag set6 k1 = (r6, k2)" by (metis prod.exhaust)
  note l4 = c_list4 [OF 4, of want] and d4 = c_read4 [OF 4, of want] and w4 = f_was4 [OF 4]
  have 6: "list_part X ag set6 (kern (w\<lparr>kern := k1\<rparr>)) = (r6, k2)" by (simp add: 6)
  note l6 = c_list6 [OF 6, of want] and d6 = c_read6 [OF 6, of want] and w6 = f_was6 [OF 6]
  have o: "((\<exists>e. r4 = Inl e \<and> r = Inl e) \<and> k' = k1) \<or> (\<exists>as4. r4 = Inr as4 \<and> k' = k2 \<and>
      ((\<exists>e. r6 = Inl e \<and> r = Inl e) \<or> (\<exists>as6. r6 = Inr as6 \<and> r = Inr (remdups (as4 @ as6)))))"
    using assms 4 6 by (auto simp: nft_list_parts split: sum.splits)
  show "(cycle_step X ag)\<^sup>*\<^sup>* (CList4 want, w) (case r of Inl e \<Rightarrow> CHealth (- 1) | Inr hs \<Rightarrow> CAdding want hs want, w\<lparr>kern := k'\<rparr>)"
  proof (cases r4)
    case (Inl e)
    then show ?thesis using c_one [OF l4] o by auto
  next
    case (Inr as4)
    then show ?thesis using c_then [OF l4 [unfolded Inr sum.case] c_one [OF l6 [of as4]]] o by auto
  qed
  show "(cycle_step X ag)\<^sup>*\<^sup>* (CRead4 want, w) (case r of Inl e \<Rightarrow> CHealth (- 1) | Inr hs \<Rightarrow> CCollect want hs, w\<lparr>kern := k'\<rparr>)"
  proof (cases r4)
    case (Inl e)
    then show ?thesis using c_one [OF d4] o by auto
  next
    case (Inr as4)
    then show ?thesis using c_then [OF d4 [unfolded Inr sum.case] c_one [OF d6 [of as4]]] o by auto
  qed
  show "(feed_step X ag)\<^sup>*\<^sup>* (FWas4, w) (FFlush4 (case r of Inl e \<Rightarrow> [] | Inr hs \<Rightarrow> hs), w\<lparr>kern := k'\<rparr>)"
  proof (cases r4)
    case (Inl e)
    then show ?thesis using f_one [OF w4] o by auto
  next
    case (Inr as4)
    then show ?thesis using f_then [OF w4 [unfolded Inr sum.case] f_one [OF w6 [of as4]]] o by auto
  qed
qed

lemma desired_loop_step: "desired_loop nd t now bs (desired_loop nd t now [b] want) = desired_loop nd t now (b # bs) want"
  by (simp add: Let_def split: option.split)

lemma wants_run:
  "(cycle_step X ag)\<^sup>*\<^sup>* (CWanting now bs want, w) (CList4 (desired_loop (ag_nd ag) (just w) now bs want), w)"
proof (induction bs arbitrary: want)
  case Nil
  then show ?case using c_wanted [of X ag now want w] by simp
next
  case (Cons b bs)
  show ?case by (rule c_then [OF c_want Cons [of "desired_loop (ag_nd ag) (just w) now [b] want", unfolded desired_loop_step]])
qed

lemma adds_run:
  "(cycle_step X ag)\<^sup>*\<^sup>* (CAdding want hs todo, w) (CRemoving want hs, w\<lparr>kern := add_loop X ag todo (kern w)\<rparr>)"
proof (induction todo arbitrary: w)
  case Nil
  then show ?case using c_added [of X ag want hs w] by simp
next
  case (Cons e todo)
  obtain a ttl where e: "e = (a, ttl)" by (cases e)
  have "cycle_step X ag (CAdding want hs ((a, ttl) # todo), w)
      (CAdding want hs todo, w\<lparr>kern := snd (nft_add (ag_nft ag) (x_nft X) a ttl (kern w))\<rparr>)"
    using c_add [of a ttl "(a, ttl) # todo" X ag want hs w] by simp
  then show ?case using c_then [OF _ Cons] by (fastforce simp: e)
qed

lemma removes_run:
  "(cycle_step X ag)\<^sup>*\<^sup>* (CRemoving want hs, w) (CRead4 want, w\<lparr>kern := remove_loop X ag want hs (kern w)\<rparr>)"
proof (induction hs arbitrary: w)
  case Nil
  then show ?case using c_removed [of X ag want w] by simp
next
  case (Cons a hs)
  have "cycle_step X ag (CRemoving want (a # hs), w)
      (CRemoving want hs, if map_of want a = None then w\<lparr>kern := snd (nft_remove (x_lower X) (ag_nft ag) (x_nft X) a (kern w))\<rparr> else w)"
    using c_remove [of a "a # hs" want X ag w] c_keep [of a "a # hs" want X ag w] by simp
  from c_then [OF this Cons] show ?case by (cases "map_of want a") simp_all
qed

lemma health_run: "(cycle_step X ag)\<^sup>*\<^sup>* (CHealth n, w) (CIdle, reportHealth X ag now n w)"
proof -
  obtain ok r' where h: "x_red X [health_cmd X ag now n] (rds w) = (ok, r')" by (metis prod.exhaust)
  show ?thesis using c_health [OF h] c_expire [of X ag "w\<lparr>rds := r'\<rparr>"]
    by (cases ok) (auto simp: reportHealth_def h intro: c_then)
qed

lemma cycle_run: "(cycle_step X ag)\<^sup>*\<^sup>* (CIdle, w0) (CIdle, reconcile X ag now http w0)"
proof -
  let ?S = "(cycle_step X ag)\<^sup>*\<^sup>*" and ?w = "w0\<lparr>just := prune now (just w0)\<rparr>"
  note tr = rtranclp_trans [of "cycle_step X ag"]
  note h = health_run [of X ag _ _ now]
  have start: "?S (CIdle, w0) (case fetchBans (x_json X) http of Inl e \<Rightarrow> CHealth (- 1) | Inr bans \<Rightarrow> CWanting now bans [], ?w)"
    by (rule c_then [OF c_prune [of X ag w0 now] c_one [OF c_fetch]])
  show ?thesis
  proof (cases "fetchBans (x_json X) http")
    case (Inl e)
    then show ?thesis using tr [OF _ h] start by (force simp: reconcile_def)
  next
    case (Inr bans)
    define want where "want = desired ag (just ?w) bans now"
    obtain r k1 where l: "nft_list (ag_nft ag) (x_nft X) (x_json X) (kern ?w) = (r, k1)" by (metis prod.exhaust)
    have "?S (CIdle, w0) (CList4 want, ?w)"
      using tr [OF _ wants_run [of X ag now bans "[]" ?w]] start Inr by (simp add: want_def desired_def)
    then have 1: "?S (CIdle, w0) (case r of Inl e \<Rightarrow> CHealth (- 1) | Inr hs \<Rightarrow> CAdding want hs want, ?w\<lparr>kern := k1\<rparr>)"
      by (rule tr [OF _ lists_run(1) [OF l]])
    show ?thesis
    proof (cases r)
      case Inl': (Inl e)
      then show ?thesis using tr [OF _ h] 1 Inr l by (force simp: reconcile_def)
    next
      case Inr': (Inr hs)
      let ?k3 = "remove_loop X ag want hs (add_loop X ag want k1)"
      let ?w3 = "?w\<lparr>kern := ?k3\<rparr>"
      obtain r4 k4 where l4: "nft_list (ag_nft ag) (x_nft X) (x_json X) (kern ?w3) = (r4, k4)" by (metis prod.exhaust)
      have "?S (CIdle, w0) (CRemoving want hs, ?w\<lparr>kern := add_loop X ag want k1\<rparr>)"
        using tr [OF _ adds_run [of X ag want hs want "?w\<lparr>kern := k1\<rparr>"]] 1 Inr' by simp
      then have "?S (CIdle, w0) (CRead4 want, ?w3)"
        using tr [OF _ removes_run [of X ag want hs "?w\<lparr>kern := add_loop X ag want k1\<rparr>"]] by simp
      then have 2: "?S (CIdle, w0) (case r4 of Inl e \<Rightarrow> CHealth (- 1) | Inr hs \<Rightarrow> CCollect want hs, ?w3\<lparr>kern := k4\<rparr>)"
        by (rule tr [OF _ lists_run(2) [OF l4]])
      show ?thesis
      proof (cases r4)
        case (Inl e)
        then show ?thesis using tr [OF _ h] 2 Inr Inr' l l4 by (force simp: reconcile_def want_def Let_def)
      next
        case Inr4: (Inr final)
        let ?w4 = "?w\<lparr>kern := k4\<rparr>" and ?n = "int (length (applied_of want final))"
        let ?cmds = "publishState (resync_of ag) now (x_hgetall X (rds ?w4) keyApplied) (applied_of want final) (orphans_of want final)"
        have "?S (CCollect want final, ?w4) (CIdle, reportHealth X ag now ?n (publish X ?cmds ?w4))"
          by (rule c_then [OF c_collect c_then [OF c_publish h]])
        moreover have "?S (CIdle, w0) (CCollect want final, ?w4)" using 2 Inr4 by simp
        ultimately show ?thesis using tr Inr Inr' Inr4 l l4
          by (fastforce simp: reconcile_def want_def Let_def)
      qed
    qed
  qed
qed

lemma marks_run:
  "(feed_step X ag)\<^sup>*\<^sup>* (FMark as cmds, w)
     (FIdle, publish X cmds (w\<lparr>just := foldl (\<lambda>t a. mark a now (holdFor (resync_of ag)) t) (just w) as\<rparr>))"
proof (induction as arbitrary: w)
  case Nil
  show ?case using f_then [OF f_marked [of X ag cmds w] f_one [OF f_send]] by simp
next
  case (Cons a as)
  have "feed_step X ag (FMark (a # as) cmds, w) (FMark as cmds, w\<lparr>just := mark a now (holdFor (resync_of ag)) (just w)\<rparr>)"
    using f_mark [of a "a # as" X ag cmds w now] by simp
  from f_then [OF this Cons] show ?case by simp
qed

lemma drop_run: "0 < ttl \<Longrightarrow> (feed_step X ag)\<^sup>*\<^sup>* (FDrop a ttl, w) (FIdle, drop_addr X ag now a ttl w)"
proof -
  assume "0 < ttl"
  let ?w = "w\<lparr>just := clear a (just w)\<rparr>"
  obtain e k' where n: "nft_add (ag_nft ag) (x_nft X) a ttl (kern ?w) = (e, k')" by (metis prod.exhaust)
  show ?thesis
  proof (cases "fst (covers (ag_nd ag) a)")
    case True
    then obtain why where c: "covers (ag_nd ag) a = (True, why)" by (metis prod.collapse)
    show ?thesis using \<open>0 < ttl\<close> c
      f_then [OF f_refused [OF c, of X ttl w] f_one [OF f_send]]
      by (simp add: drop_addr_def)
  next
    case False
    then have "drop_addr X ag now a ttl w =
        (if e = None then publish X (noteApplied (resync_of ag) now a) (?w\<lparr>kern := k'\<rparr>) else ?w\<lparr>kern := k'\<rparr>)"
      using \<open>0 < ttl\<close> n by (auto simp: drop_addr_def Let_def split: prod.splits)
    moreover have "feed_step X ag (FAdd a ttl, ?w)
        (if e = None then FSend (noteApplied (resync_of ag) now a) else FIdle, ?w\<lparr>kern := k'\<rparr>)"
      by (rule f_add [OF n])
    then have "(feed_step X ag)\<^sup>*\<^sup>* (FAdd a ttl, ?w)
        (FIdle, if e = None then publish X (noteApplied (resync_of ag) now a) (?w\<lparr>kern := k'\<rparr>) else ?w\<lparr>kern := k'\<rparr>)"
      by (cases e) (simp_all add: f_then [OF _ f_one [OF f_send]] f_one)
    ultimately show ?thesis using f_then [OF f_clear [OF False, of X ttl w]] by simp
  qed
qed

lemma release_run: "(feed_step X ag)\<^sup>*\<^sup>* (FRelease a, w) (FIdle, release_addr X ag now a w)"
proof -
  obtain e k' where n: "nft_remove (x_lower X) (ag_nft ag) (x_nft X) a (kern w) = (e, k')" by (metis prod.exhaust)
  show ?thesis using f_remove [OF n] marks_run [of X ag "[a]" "forget a" "w\<lparr>kern := k'\<rparr>" now]
    by (cases e) (auto simp: release_addr_def n intro: f_then)
qed

lemma release_all_run: "(feed_step X ag)\<^sup>*\<^sup>* (FWas4, w) (FIdle, release_all X ag now w)"
proof -
  obtain r k1 where l: "nft_list (ag_nft ag) (x_nft X) (x_json X) (kern w) = (r, k1)" by (metis prod.exhaust)
  define was where "was = (case r of Inl e \<Rightarrow> [] | Inr hs \<Rightarrow> hs)"
  obtain o4 e4 k2 where f4: "run (ag_nft ag) (x_nft X) (flush_args set4) (kern (w\<lparr>kern := k1\<rparr>)) = ((o4, e4), k2)" by (metis prod.exhaust)
  obtain o6 e6 k3 where f6: "run (ag_nft ag) (x_nft X) (flush_args set6) (kern (w\<lparr>kern := k2\<rparr>)) = ((o6, e6), k3)" by (metis prod.exhaust)
  have fl: "nft_flush (ag_nft ag) (x_nft X) k1 = (if e4 \<noteq> None then (e4, k2) else (e6, k3))"
  proof (cases "nf_dryRun (ag_nft ag)")
    case True
    then show ?thesis using f4 f6 by (simp add: nft_flush_def run_def)
  next
    case False
    then show ?thesis using f4 f6 by (simp add: nft_flush_def split: option.split)
  qed
  have m: "(case r of Inl e \<Rightarrow> t | Inr as \<Rightarrow> foldl (\<lambda>t a. mark a now h t) t as) = foldl (\<lambda>t a. mark a now h t) t was" for t h
    by (simp add: was_def split: sum.split)
  have "release_all X ag now w =
      (if e4 \<noteq> None then w\<lparr>kern := k2\<rparr> else if e6 \<noteq> None then w\<lparr>kern := k3\<rparr>
       else publish X forgetAll (w\<lparr>kern := k3, just := foldl (\<lambda>t a. mark a now (holdFor (resync_of ag)) t) (just w) was\<rparr>))"
    by (simp add: release_all_def l fl m)
  then have "(feed_step X ag)\<^sup>*\<^sup>* (FFlush4 was, w\<lparr>kern := k1\<rparr>) (FIdle, release_all X ag now w)"
    using f_flush4 [OF f4, of was] f_flush6 [OF f6, of was] marks_run [of X ag was forgetAll "w\<lparr>kern := k3\<rparr>" now]
    by (cases e4; cases e6) (auto intro: f_then)
  then show ?thesis using lists_run(3) [OF l] rtranclp_trans [of "feed_step X ag"] was_def by blast
qed

lemma message_run: "(feed_step X ag)\<^sup>*\<^sup>* (FIdle, w) (FIdle, apply_event X ag now raw w)"
proof -
  have nothing [simp]: "ttl \<le> 0 \<Longrightarrow> drop_addr X ag now a ttl w = w" for a ttl by (simp add: drop_addr_def)
  have "(feed_step X ag)\<^sup>*\<^sup>* (message X raw, w) (FIdle, apply_event X ag now raw w)"
    using drop_run [where now = now and X = X and ag = ag and w = w] release_run [of X ag _ w now] release_all_run [of X ag w now]
    by (auto simp: message_def apply_event_def Let_def not_le split: option.split)
  then show ?thesis by (rule f_then [OF f_message])
qed

lemma cycles_conc: "(cycle_step X ag)\<^sup>*\<^sup>* (c, w) (c', w') \<Longrightarrow> (conc_step X ag)\<^sup>*\<^sup>* (c, f, w) (c', f, w')"
  by (induction rule: rtranclp_induct2) (auto intro: rtranclp.rtrancl_into_rtrancl by_cycle)

lemma feeds_conc: "(feed_step X ag)\<^sup>*\<^sup>* (f, w) (f', w') \<Longrightarrow> (conc_step X ag)\<^sup>*\<^sup>* (c, f, w) (c, f', w')"
  by (induction rule: rtranclp_induct2) (auto intro: rtranclp.rtrancl_into_rtrancl by_feed)

text \<open>
  The steps are a faithful cut of the handlers: a cycle or a message nobody interrupts runs through
  its phases and ends in exactly the world of \<open>reconcile\<close> or \<open>apply_event\<close>, on every branch.
\<close>

theorem turns_are_runs:
  "(conc_step X ag)\<^sup>*\<^sup>* (CIdle, f, w) (CIdle, f, reconcile X ag now http w)"
  "(conc_step X ag)\<^sup>*\<^sup>* (c, FIdle, w) (c, FIdle, apply_event X ag now raw w)"
  by (rule cycles_conc [OF cycle_run], rule feeds_conc [OF message_run])

lemma interleaved_commands_safe_witness:
  "list_all (agent_cmd demo_nd)
     (kern (apply_event (externals.make (\<lambda>args k. (([], [], None), args # k)) (\<lambda>cmds r. (True, r)) (\<lambda>r k. Map.empty)
        demo_json (\<lambda>s. s) (\<lambda>t. [])) demo_agent 6 ''R'' (reconcile (externals.make (\<lambda>args k. (([], [], None), args # k)) (\<lambda>cmds r. (True, r)) (\<lambda>r k. Map.empty)
        demo_json (\<lambda>s. s) (\<lambda>t. [])) demo_agent 5 (Inr (200, ''B''))
       \<lparr>kern = [], rds = (), just = newTombstones\<rparr>)))"
  by (rule interleaved_commands_safe [OF rtranclp_trans [OF turns_are_runs(1) turns_are_runs(2)], THEN conjunct1])
    (simp_all add: externals.make_def demo_agent_def tombs_inv_new)

text \<open>
  A release in the middle of a cycle is lost. The note is read once, in \<open>desired\<close>; between that
  and the add loop a release can be applied and published, and the loop then puts the address
  back although it is held: here 203.0.113.9 ends up in the kernel with its note still counting.
\<close>

theorem release_race:
  "\<exists>c w'. (conc_step demo_x demo_agent)\<^sup>*\<^sup>* (CIdle, FIdle, \<lparr>kern = True, rds = (), just = newTombstones\<rparr>) (c, FIdle, w')
    \<and> c = CRead4 [(demo_addr, 600)] \<and> demo_banned (kern w') = {demo_addr} \<and> held demo_addr 30000000000 (just w')"
proof -
  define t1 where "t1 = prune 5 newTombstones"
  define t2 where "t2 = mark demo_addr 10 (holdFor (resync_of demo_agent)) t1"
  define want where "want = [(demo_addr, 600 :: int)]"
  define st where "st = (\<lambda>(k :: bool) t. \<lparr>kern = k, rds = (), just = t\<rparr>)"
  let ?row = "\<lparr>br_ip = ''203.0.113.9'', br_reason = [], br_ttl = 600\<rparr>" and ?S = "cycle_step demo_x demo_agent"
  have f: "fetchBans (x_json demo_x) (Inr (200, ''B'')) = Inr [?row]"
    using demo_rows by (simp add: demo_x_def)
  have "parseSet demo_json ''S'' = Some [demo_addr]" "parseSet demo_json [] = Some []" by code_simp+
  then have l: "nft_list (ag_nft demo_agent) (x_nft demo_x) (x_json demo_x) (kern (st True t1)) = (Inr [demo_addr], True)"
    by (simp add: nft_list_def run_def demo_agent_def demo_x_def demo_nft_def list_args_def st_def set4_def set6_def)
  have "Option.bind (demo_json ''R'') decode_event =
      Some \<lparr>be_op = ''release'', be_ip = ''203.0.113.9'', be_ttl = 0, be_reason = [], be_ts = 0\<rparr>"
    and "map_option unmap_addr (parse_addr (trim_space ''203.0.113.9'')) = Some demo_addr" by code_simp+
  then have ev: "apply_event demo_x demo_agent 10 ''R'' (st True t1) = st False t2"
    by (auto simp: apply_event_def demo_x_def release_addr_def nft_remove_def run_def demo_nft_def
        delete_args_def demo_agent_def publish_def st_def t2_def Let_def)
  have nh: "\<not> held demo_addr 5 t1" by (simp add: t1_def held_prune tombs_inv_new held_new)
  have w: "desired_loop (ag_nd demo_agent) (just (st True t1)) 5 [?row] [] = want"
    using demo_desired [OF nh] by (simp add: st_def want_def desired_def)
  have 1: "?S\<^sup>*\<^sup>* (CIdle, st True newTombstones) (CWanting 5 [?row] [], st True t1)"
    using c_then [OF c_prune [of demo_x demo_agent "st True newTombstones" 5]
        c_one [OF c_fetch [where http = "Inr (200, ''B'')"]]] f by (simp add: st_def t1_def)
  have 2: "?S\<^sup>*\<^sup>* (CWanting 5 [?row] [], st True t1) (CList4 want, st True t1)"
    using wants_run [of demo_x demo_agent 5 "[?row]" "[]" "st True t1"] unfolding w .
  have 3: "?S\<^sup>*\<^sup>* (CList4 want, st True t1) (CAdding want [demo_addr] want, st True t1)"
    using lists_run(1) [OF l, of want] by (simp add: st_def)
  have feed: "(feed_step demo_x demo_agent)\<^sup>*\<^sup>* (FIdle, st True t1) (FIdle, st False t2)"
    using message_run [of demo_x demo_agent "st True t1" 10 "''R''"] unfolding ev .
  have 4: "?S\<^sup>*\<^sup>* (CAdding want [demo_addr] want, st False t2) (CRemoving want [demo_addr], st True t2)"
    using adds_run [of demo_x demo_agent want "[demo_addr]" want "st False t2"]
    by (simp add: want_def st_def nft_add_def run_def demo_agent_def demo_x_def demo_nft_def add_args_def)
  have 5: "?S\<^sup>*\<^sup>* (CRemoving want [demo_addr], st True t2) (CRead4 want, st True t2)"
    using removes_run [of demo_x demo_agent want "[demo_addr]" "st True t2"] by (simp add: want_def st_def)
  note go = rtranclp_trans [of "conc_step demo_x demo_agent"]
  have "(conc_step demo_x demo_agent)\<^sup>*\<^sup>* (CIdle, FIdle, st True newTombstones) (CRead4 want, FIdle, st True t2)"
    by (rule go [OF cycles_conc [OF 1] go [OF cycles_conc [OF 2] go [OF cycles_conc [OF 3] go [OF feeds_conc [OF feed]
          go [OF cycles_conc [OF 4] cycles_conc [OF 5]]]]]])
  moreover have "held demo_addr 30000000000 t2"
    by (simp add: t2_def held_mark holdFor_def resync_of_def demo_agent_def demo_cfg_def loadConfig_def)
  ultimately show ?thesis unfolding st_def demo_banned_def want_def
    by (intro exI [of _ "CRead4 [(demo_addr, 600)]"] exI [of _ "\<lparr>kern = True, rds = (), just = t2\<rparr>"]) simp
qed

end
