(* ===== verification/StoreTable.thy ===== *)
theory StoreTable
  imports Prelude
begin

section \<open>The store: tables and statements\<close>

text \<open>
  The vocabulary of \<open>control/internal/store\<close>. A table is the list of its rows in insertion order;
  a statement is a function on it, named after the SQL it translates: \<open>find_row\<close> (SELECT by key),
  \<open>upsert_row\<close> (INSERT .. ON CONFLICT DO UPDATE), \<open>update_rows\<close> and \<open>delete_rows\<close> (with the number
  of rows affected). A statement can fail: every operation takes the error of its statement as an
  argument, \<open>None\<close> when Postgres accepted it, and a failed statement changes nothing.

  The locale \<open>keyed_table\<close> is the contract of a table with a unique key, for the row an INSERT makes
  (\<open>ins\<close>) and the one an ON CONFLICT makes (\<open>merge\<close>): it is interpreted on every such table.
\<close>

datatype store_error =
    DbFailed string
  | ErrNotFound
  | ErrBadCredentials
  | Invalid string
  | InvalidValue string string

type_synonym 'a result = "store_error + 'a"

text \<open>Go's \<open>int\<close> has 64 bits; a product that leaves the range wraps.\<close>

definition wrap64 :: "int \<Rightarrow> int" where
  "wrap64 i = (i + 2 ^ 63) mod 2 ^ 64 - 2 ^ 63"

lemma wrap64_id: "- (2 ^ 63) \<le> i \<Longrightarrow> i < 2 ^ 63 \<Longrightarrow> wrap64 i = i"
  by (simp add: wrap64_def)

subsection \<open>Statements\<close>

definition find_row :: "('r \<Rightarrow> 'k) \<Rightarrow> 'k \<Rightarrow> 'r list \<Rightarrow> 'r option" where
  "find_row key k tbl = find (\<lambda>r. key r = k) tbl"

definition upsert_row :: "('r \<Rightarrow> 'k) \<Rightarrow> ('r \<Rightarrow> 'r) \<Rightarrow> ('r \<Rightarrow> 'r \<Rightarrow> 'r) \<Rightarrow> 'r \<Rightarrow> 'r list \<Rightarrow> 'r list" where
  "upsert_row key ins merge r tbl =
     (if list_ex (\<lambda>x. key x = key r) tbl then map (\<lambda>x. if key x = key r then merge x r else x) tbl
      else tbl @ [ins r])"

definition update_rows :: "('r \<Rightarrow> bool) \<Rightarrow> ('r \<Rightarrow> 'r) \<Rightarrow> 'r list \<Rightarrow> nat \<times> 'r list" where
  "update_rows P f tbl = (length (filter P tbl), map (\<lambda>x. if P x then f x else x) tbl)"

definition delete_rows :: "('r \<Rightarrow> bool) \<Rightarrow> 'r list \<Rightarrow> nat \<times> 'r list" where
  "delete_rows P tbl = (length (filter P tbl), filter (\<lambda>x. \<not> P x) tbl)"

text \<open>The shape \<open>tag, err := Exec(..); if err ..; if tag.RowsAffected() == 0 { return e }\<close>.\<close>

definition exec_affected :: "string option \<Rightarrow> store_error \<Rightarrow> nat \<times> 't \<Rightarrow> 't \<Rightarrow> unit result \<times> 't" where
  "exec_affected db e res tbl =
     (case db of Some msg \<Rightarrow> (Inl (DbFailed msg), tbl)
      | None \<Rightarrow> (case res of (n, tbl') \<Rightarrow> if n = 0 then (Inl e, tbl') else (Inr (), tbl')))"

text \<open>\<open>_, err := Exec(..); return err\<close>.\<close>

definition exec_plain :: "string option \<Rightarrow> 't \<Rightarrow> 't \<Rightarrow> unit result \<times> 't" where
  "exec_plain db tbl' tbl = (case db of Some msg \<Rightarrow> (Inl (DbFailed msg), tbl) | None \<Rightarrow> (Inr (), tbl'))"

definition query :: "string option \<Rightarrow> 'a \<Rightarrow> 'a result" where
  "query db x = (case db of Some msg \<Rightarrow> Inl (DbFailed msg) | None \<Rightarrow> Inr x)"

text \<open>\<open>if errors.Is(err, pgx.ErrNoRows) { return e }\<close> after a one-row query.\<close>

definition query_row :: "string option \<Rightarrow> store_error \<Rightarrow> 'a option \<Rightarrow> 'a result" where
  "query_row db e res = (case db of Some msg \<Rightarrow> Inl (DbFailed msg)
     | None \<Rightarrow> (case res of None \<Rightarrow> Inl e | Some x \<Rightarrow> Inr x))"

definition unique_by :: "('r \<Rightarrow> 'k) \<Rightarrow> 'r list \<Rightarrow> bool" where
  "unique_by key tbl \<longleftrightarrow> distinct (map key tbl)"

subsection \<open>ORDER BY\<close>

text \<open>A stable sort by the key; rows of equal key keep the order they were found in.\<close>

abbreviation order_by :: "('r \<Rightarrow> 'k :: linorder) \<Rightarrow> 'r list \<Rightarrow> 'r list" where
  "order_by k tbl \<equiv> sort_key k tbl"

subsection \<open>What the statements do\<close>

named_theorems table_simps

lemma find_row_None: "find_row key k tbl = None \<longleftrightarrow> k \<notin> key ` set tbl"
  by (auto simp: find_row_def find_None_iff)

lemma find_row_Some: "find_row key k tbl = Some r \<Longrightarrow> r \<in> set tbl \<and> key r = k"
  by (auto simp: find_row_def find_Some_iff)

lemma find_row_unique: "unique_by key tbl \<Longrightarrow> r \<in> set tbl \<Longrightarrow> find_row key (key r) tbl = Some r"
  unfolding unique_by_def find_row_def by (induction tbl) auto

lemma find_row_Cons [table_simps]:
  "find_row key k (r # rs) = (if key r = k then Some r else find_row key k rs)"
  by (simp add: find_row_def)

lemma find_row_append [table_simps]:
  "find_row key k (tbl @ tbl2) = (case find_row key k tbl of Some r \<Rightarrow> Some r | None \<Rightarrow> find_row key k tbl2)"
  by (induction tbl) (auto simp: find_row_def)

lemma find_row_map [table_simps]:
  "(\<And>x. key (f x) = key x) \<Longrightarrow> find_row key k (map f tbl) = map_option f (find_row key k tbl)"
  by (induction tbl) (auto simp: find_row_def)

lemma find_row_filter:
  "find_row key k (filter (\<lambda>x. key x \<noteq> j) tbl) = (if k = j then None else find_row key k tbl)"
  by (induction tbl) (auto simp: find_row_def)

lemma update_rows_find:
  "(\<And>x. key (f x) = key x) \<Longrightarrow>
   find_row key k (snd (update_rows P f tbl)) = map_option (\<lambda>x. if P x then f x else x) (find_row key k tbl)"
  by (simp add: update_rows_def find_row_map)

lemma update_rows_unique: "(\<And>x. key (f x) = key x) \<Longrightarrow> unique_by key tbl \<Longrightarrow> unique_by key (snd (update_rows P f tbl))"
  by (simp add: update_rows_def unique_by_def comp_def if_distrib cong: if_cong)

lemma delete_rows_find:
  "find_row key k (snd (delete_rows (\<lambda>r. key r = j) tbl)) = (if k = j then None else find_row key k tbl)"
  by (simp add: delete_rows_def find_row_filter)

lemma delete_rows_unique: "unique_by key tbl \<Longrightarrow> unique_by key (snd (delete_rows P tbl))"
  by (simp add: delete_rows_def unique_by_def distinct_map_filter)

lemma delete_rows_none: "fst (delete_rows P tbl) = 0 \<longleftrightarrow> snd (delete_rows P tbl) = tbl"
  by (auto simp: delete_rows_def filter_empty_conv intro!: filter_True)
    (metis filter_id_conv)

subsection \<open>The contract of a table with a unique key\<close>

locale keyed_table =
  fixes key :: "'r \<Rightarrow> 'k" and ins :: "'r \<Rightarrow> 'r" and merge :: "'r \<Rightarrow> 'r \<Rightarrow> 'r"
  assumes key_ins: "key (ins r) = key r"
    and key_merge: "key r = key old \<Longrightarrow> key (merge old r) = key old"
begin

lemma key_step: "key (if key x = key r then merge x r else x) = key x"
  using key_merge by simp

lemma upsert_unique: "unique_by key tbl \<Longrightarrow> unique_by key (upsert_row key ins merge r tbl)"
proof -
  assume u: "unique_by key tbl"
  have m: "map key (map (\<lambda>x. if key x = key r then merge x r else x) tbl) = map key tbl"
    by (simp add: key_step)
  show ?thesis
  proof (cases "list_ex (\<lambda>x. key x = key r) tbl")
    case True
    then show ?thesis using u m by (simp only: upsert_row_def unique_by_def if_True)
  next
    case False
    then show ?thesis using u key_ins by (auto simp: upsert_row_def unique_by_def list_ex_iff)
  qed
qed

lemma upsert_find_same:
  "find_row key (key r) (upsert_row key ins merge r tbl) =
     Some (case find_row key (key r) tbl of None \<Rightarrow> ins r | Some old \<Rightarrow> merge old r)"
proof (cases "find_row key (key r) tbl")
  case None
  then have "\<not> list_ex (\<lambda>x. key x = key r) tbl" unfolding find_row_None list_ex_iff image_iff by metis
  then show ?thesis using None key_ins by (simp add: upsert_row_def find_row_append) (simp add: find_row_def)
next
  case (Some old)
  then have "list_ex (\<lambda>x. key x = key r) tbl" and "key old = key r"
    using find_row_Some by (force simp: list_ex_iff)+
  then show ?thesis using Some by (simp add: upsert_row_def find_row_map key_step)
qed

lemma upsert_find_other:
  assumes k: "k \<noteq> key r"
  shows "find_row key k (upsert_row key ins merge r tbl) = find_row key k tbl"
proof (cases "list_ex (\<lambda>x. key x = key r) tbl")
  case True
  have "map_option (\<lambda>x. if key x = key r then merge x r else x) (find_row key k tbl) = find_row key k tbl"
    using k find_row_Some by (cases "find_row key k tbl") fastforce+
  then show ?thesis using True by (simp add: upsert_row_def find_row_map key_step)
next
  case False
  have "find_row key k [ins r] = None" using k key_ins by (simp add: find_row_def)
  then show ?thesis using False by (simp add: upsert_row_def find_row_append split: option.split)
qed

end

end
