(* ===== verification/Normaliser.thy ===== *)
theory Normaliser
  imports Prelude
begin

section \<open>The contract of a normaliser\<close>

text \<open>
  The control plane normalises a value where it is written and again where it is read or
  published, and relies on the two agreeing. The locale states what that takes: the result is in
  normal form, and a value in normal form is left alone. It is interpreted on the normalisers of
  the country rules in theory StoreModels, of a CIDR in StoreIps and of the path list (which does
  not satisfy it, see StoreSiteUsers).
\<close>

locale normaliser =
  fixes norm :: "'a \<Rightarrow> 'a" and normal :: "'a \<Rightarrow> bool"
  assumes norm_normal: "normal (norm x)"
    and normal_fixed: "normal x \<Longrightarrow> norm x = x"
begin

lemma norm_idem: "norm (norm x) = norm x"
  by (rule normal_fixed) (rule norm_normal)

lemma normal_iff: "normal x \<longleftrightarrow> norm x = x"
  using norm_normal [of x] normal_fixed [of x] by auto

end

end
