(* ===== verification/StoreModels.thy ===== *)
theory StoreModels
  imports StoreTable Normaliser
begin

section \<open>The store: the data model and the country rules\<close>

text \<open>
  \<open>control/internal/store/models.go\<close> and \<open>NormaliseSiteGeo\<close> of \<open>sites.go\<close>. A Go slice is a list, nil
  and empty alike (the sources turn nil into empty wherever it could be seen); a \<open>*time.Time\<close> is an
  option; times are nanoseconds. \<open>U\<close> is the Unicode upper-case table of the prelude.
\<close>

record site =
  s_id :: string
  s_name :: string
  s_domains :: "string list"
  s_upstreamScheme :: string
  s_upstreamHost :: string
  s_upstreamPort :: int
  s_mode :: string
  s_challenge :: string
  s_rateRPS :: int
  s_rateBurst :: int
  s_floodRPS :: int
  s_authEnabled :: bool
  s_authPaths :: "string list"
  s_geoMode :: string
  s_geoCountries :: "string list"
  s_tlsCert :: string
  s_tlsKey :: string
  s_hasTLS :: bool
  s_forceHTTPS :: bool
  s_acmeEnabled :: bool
  s_acmeEmail :: string
  s_certExpiresAt :: "int option"
  s_acmeLastError :: string
  s_acmeLastTry :: "int option"
  s_enabled :: bool
  s_rulesOff :: "string list"
  s_createdAt :: int
  s_updatedAt :: int

record rule =
  ru_id :: string
  ru_name :: string
  ru_category :: string
  ru_target :: string
  ru_pattern :: string
  ru_action :: string
  ru_severity :: string
  ru_enabled :: bool
  ru_builtin :: bool
  ru_createdAt :: int

record ip_entry =
  ip_id :: int
  ip_cidr :: string
  ip_kind :: string
  ip_reason :: string
  ip_expiresAt :: "int option"
  ip_createdAt :: int

record event =
  ev_id :: int
  ev_ts :: int
  ev_ray :: string
  ev_site :: string
  ev_ip :: string
  ev_method :: string
  ev_host :: string
  ev_uri :: string
  ev_ua :: string
  ev_referer :: string
  ev_action :: string
  ev_reason :: string
  ev_ruleID :: string
  ev_ruleName :: string
  ev_severity :: string
  ev_status :: int
  ev_rt :: string
  ev_country :: string

record settings =
  st_underAttack :: bool
  st_defaultMode :: string
  st_realIPHeader :: string
  st_trustedProxies :: "string list"
  st_globalRateRPS :: int
  st_globalRateBurst :: int
  st_banSeconds :: int
  st_challengeDifficulty :: int
  st_challengeTTL :: int
  st_blockStatus :: int
  st_maxBodyScan :: int
  st_scanBody :: bool
  st_logAllowed :: bool
  st_logRetainDays :: int
  st_floodRPS :: int
  st_floodErrorRate :: int
  st_floodHold :: int
  st_geoMode :: string
  st_geoCountries :: "string list"

record geo_policy =
  gp_mode :: string
  gp_countries :: "string list"

record stat_point =
  sp_minute :: int
  sp_total :: int
  sp_blocked :: int
  sp_challenged :: int
  sp_monitored :: int
  sp_errors4xx :: int
  sp_blocked4xx :: int
  sp_errors5xx :: int
  sp_pageViews :: int

record site_user =
  su_id :: int
  su_siteID :: string
  su_username :: string
  su_generation :: int
  su_createdAt :: int

record user =
  us_id :: int
  us_username :: string
  us_createdAt :: int

definition DefaultSettings :: settings where
  "DefaultSettings = \<lparr>st_underAttack = False, st_defaultMode = ''protect'', st_realIPHeader = [],
     st_trustedProxies = [], st_globalRateRPS = 20, st_globalRateBurst = 300, st_banSeconds = 600,
     st_challengeDifficulty = 16, st_challengeTTL = 1800, st_blockStatus = 403, st_maxBodyScan = 65536,
     st_scanBody = True, st_logAllowed = False, st_logRetainDays = 7, st_floodRPS = 1000,
     st_floodErrorRate = 50, st_floodHold = 120, st_geoMode = ''off'', st_geoCountries = []\<rparr>"

subsection \<open>Country rules\<close>

definition two_letters :: "string \<Rightarrow> bool" where
  "two_letters c \<longleftrightarrow> length c = 2 \<and> list_all is_upper c"

fun geo_loop :: "(string \<Rightarrow> string) \<Rightarrow> string list \<Rightarrow> string list \<Rightarrow> string list" where
  "geo_loop U [] out = out"
| "geo_loop U (c # cs) out =
     (let c' = go_to_upper U (trim_space c)
      in if length c' \<noteq> 2 then geo_loop U cs out
         else if \<not> list_all is_upper c' then geo_loop U cs out
         else if List.member out c' then geo_loop U cs out
         else if length (out @ [c']) \<ge> 250 then out @ [c']
         else geo_loop U cs (out @ [c']))"

definition NormaliseGeo :: "(string \<Rightarrow> string) \<Rightarrow> string \<Rightarrow> string list \<Rightarrow> string \<times> string list" where
  "NormaliseGeo U mode countries =
     (let out = sort (geo_loop U countries [])
      in if mode \<noteq> ''block'' \<and> mode \<noteq> ''allow'' then (''off'', out)
         else if out = [] then (''off'', out)
         else (mode, out))"

definition NormaliseSiteGeo :: "(string \<Rightarrow> string) \<Rightarrow> string \<Rightarrow> string list \<Rightarrow> string \<times> string list" where
  "NormaliseSiteGeo U mode countries =
     (if mode = [] then ([], countries)
      else (case NormaliseGeo U mode countries of (out, list) \<Rightarrow>
              (if out = ''off'' \<and> mode \<noteq> ''off'' then [] else out, list)))"

text \<open>What the loop keeps: distinct two-letter codes, all of them codes of the input.\<close>

definition code_of :: "(string \<Rightarrow> string) \<Rightarrow> string \<Rightarrow> string" where
  "code_of U c = go_to_upper U (trim_space c)"

lemma geo_loop_codes:
  "list_all two_letters out \<Longrightarrow> distinct out \<Longrightarrow> length out < 250 \<Longrightarrow>
   list_all two_letters (geo_loop U cs out) \<and> distinct (geo_loop U cs out) \<and> length (geo_loop U cs out) \<le> 250
   \<and> set (geo_loop U cs out) \<subseteq> set out \<union> code_of U ` set cs"
proof (induction U cs out rule: geo_loop.induct)
  case (1 U out)
  then show ?case by simp
next
  case (2 U c cs out)
  let ?c = "go_to_upper U (trim_space c)"
  consider "length ?c \<noteq> 2 \<or> \<not> list_all is_upper ?c \<or> ?c \<in> set out"
    | (add) "two_letters ?c" "?c \<notin> set out" by (auto simp: two_letters_def)
  then show ?case
  proof cases
    case 1
    then show ?thesis using 2 by (auto simp: code_of_def Let_def)
  next
    case add
    then show ?thesis using 2
      by (cases "249 \<le> length out") (auto simp: two_letters_def code_of_def Let_def)
  qed
qed

lemma geo_loop_all:
  "length (geo_loop U cs out) < 250 \<Longrightarrow>
   set (geo_loop U cs out) = set out \<union> {c \<in> code_of U ` set cs. two_letters c}"
  by (induction U cs out rule: geo_loop.induct) (auto simp: two_letters_def code_of_def Let_def split: if_splits)

lemma geo_loop_fixed:
  "list_all two_letters cs \<Longrightarrow> distinct (out @ cs) \<Longrightarrow> length (out @ cs) \<le> 250 \<Longrightarrow>
   geo_loop U cs out = out @ cs"
proof (induction cs arbitrary: out)
  case Nil
  then show ?case by simp
next
  case (Cons c cs)
  from Cons.prems(1) obtain a b where c: "c = [a, b]" and ab: "is_upper a" "is_upper b"
    by (auto simp: two_letters_def length_Suc_conv numeral_2_eq_2)
  have p: "33 \<le> byte_of x \<and> byte_of x < 127" if "x \<in> set c" for x
    using that c ab by (auto simp: is_upper_def)
  have "trim_space c = c" using space_seqs_not_printable [of c] p by blast
  moreover have "is_ascii c" using p by (force simp: is_ascii_def list_all_iff)
  ultimately have "go_to_upper U (trim_space c) = c" using c ab by (simp add: go_to_upper_def)
  moreover have "geo_loop U cs (out @ [c]) = (out @ [c]) @ cs" using Cons by simp
  moreover have "250 \<le> length (out @ [c]) \<Longrightarrow> cs = []" using Cons.prems(3) by (cases cs) auto
  moreover have "length c = 2" "list_all is_upper c" "c \<notin> set out" using c ab Cons.prems(2) by auto
  ultimately show ?case by (simp add: Let_def)
qed


lemma two_letters_not_Nil [simp]: "two_letters c \<Longrightarrow> c \<noteq> []"
  by (auto simp: two_letters_def)

definition geo_normal :: "string \<times> string list \<Rightarrow> bool" where
  "geo_normal p = (case p of (m, cs) \<Rightarrow>
     (m = ''off'' \<or> ((m = ''block'' \<or> m = ''allow'') \<and> cs \<noteq> []))
     \<and> sorted cs \<and> distinct cs \<and> list_all two_letters cs \<and> length cs \<le> 250)"

definition site_geo_normal :: "string \<times> string list \<Rightarrow> bool" where
  "site_geo_normal p = (fst p = [] \<or> geo_normal p)"

lemma geo_normal_result: "geo_normal (NormaliseGeo U mode cs)"
  using geo_loop_codes [of "[]" U cs]
  by (auto simp: geo_normal_def NormaliseGeo_def Let_def list_all_iff)

lemma geo_normal_fixed: "geo_normal (m, cs) \<Longrightarrow> NormaliseGeo U m cs = (m, cs)"
  using geo_loop_fixed [of cs "[]" U]
  by (auto simp: geo_normal_def NormaliseGeo_def Let_def sorted_sort_id)

interpretation geo: normaliser "\<lambda>(m, cs). NormaliseGeo U m cs" geo_normal for U
  by unfold_locales (auto simp: geo_normal_result geo_normal_fixed)

interpretation site_geo: normaliser "\<lambda>(m, cs). NormaliseSiteGeo U m cs" site_geo_normal for U
proof
  show "site_geo_normal (case x of (m, cs) \<Rightarrow> NormaliseSiteGeo U m cs)" for x
    using geo_normal_result [of U "fst x" "snd x"]
    by (auto simp: site_geo_normal_def NormaliseSiteGeo_def split: prod.split)
  show "(case x of (m, cs) \<Rightarrow> NormaliseSiteGeo U m cs) = x" if "site_geo_normal x" for x
    using that geo_normal_fixed [of "fst x" "snd x" U]
    by (cases x) (auto simp: site_geo_normal_def NormaliseSiteGeo_def geo_normal_def)
qed

text \<open>
  A country rule is normalised to one safe shape: the codes come out sorted, distinct, two
  upper-case letters each and at most 250; the mode is off, or the one asked for with at least one
  country behind it, so no rule refuses everybody by naming nobody; and normalising again changes
  nothing, so the write path and the read path cannot disagree.
\<close>

theorem geo_rule_normal:
  assumes "NormaliseGeo U mode cs = (m, out)"
  shows "sorted out \<and> distinct out \<and> list_all two_letters out \<and> length out \<le> 250
    \<and> (m = ''off'' \<or> m = mode \<and> (mode = ''block'' \<or> mode = ''allow'') \<and> out \<noteq> [])
    \<and> (length out < 250 \<longrightarrow> set out = {c \<in> code_of U ` set cs. two_letters c})
    \<and> NormaliseGeo U m out = (m, out)"
proof -
  have n: "geo_normal (m, out)" using assms geo_normal_result by metis
  have l: "out = sort (geo_loop U cs [])" using assms by (auto simp: NormaliseGeo_def Let_def split: if_splits)
  then have "length out < 250 \<longrightarrow> set out = {c \<in> code_of U ` set cs. two_letters c}"
    using geo_loop_all [of U cs "[]"] by simp
  moreover have "m = ''off'' \<or> m = mode \<and> (mode = ''block'' \<or> mode = ''allow'') \<and> out \<noteq> []"
    using assms by (auto simp: NormaliseGeo_def Let_def split: if_splits)
  ultimately show ?thesis using n geo.normal_fixed [OF n, of U] by (simp add: geo_normal_def)
qed

lemma geo_rule_normal_witness:
  "NormaliseGeo (\<lambda>s. s) ''allow'' ['' vn'', ''US'', ''usa'', ''us''] = (''allow'', [''US'', ''VN''])
   \<and> sorted [''US'', ''VN'']"
proof -
  have "NormaliseGeo (\<lambda>s. s) ''allow'' ['' vn'', ''US'', ''usa'', ''us''] = (''allow'', [''US'', ''VN''])"
    by code_simp
  from this geo_rule_normal [OF this] show ?thesis by blast
qed

text \<open>
  A site's own rule never ends up weaker than what was asked for by being unusable: a rule that
  cannot be used follows the global one (the empty mode), a deliberate off survives, an empty mode
  is passed through, and normalising the stored value again changes nothing.
\<close>

theorem site_geo_rule:
  "NormaliseSiteGeo U [] cs = ([], cs)
   \<and> fst (NormaliseSiteGeo U ''off'' cs) = ''off''
   \<and> (mode \<noteq> ''off'' \<longrightarrow> fst (NormaliseSiteGeo U mode cs) \<in> {[], mode})
   \<and> (fst (NormaliseSiteGeo U mode cs) \<in> {''block'', ''allow''} \<longrightarrow> snd (NormaliseSiteGeo U mode cs) \<noteq> [])
   \<and> (case NormaliseSiteGeo U mode cs of (m, out) \<Rightarrow> NormaliseSiteGeo U m out = (m, out))"
proof -
  have "(case NormaliseSiteGeo U mode cs of (m, out) \<Rightarrow> NormaliseSiteGeo U m out) = NormaliseSiteGeo U mode cs"
    using site_geo.norm_idem [of U "(mode, cs)"] by simp
  then have "case NormaliseSiteGeo U mode cs of (m, out) \<Rightarrow> NormaliseSiteGeo U m out = (m, out)"
    by (auto split: prod.split)
  then show ?thesis
    by (auto simp: NormaliseSiteGeo_def NormaliseGeo_def Let_def split: if_splits)
qed

lemma site_geo_rule_witness:
  "NormaliseSiteGeo (\<lambda>s. s) ''allow'' [''nowhere''] = ([], []) \<and> fst (NormaliseSiteGeo (\<lambda>s. s) ''off'' []) = ''off''"
proof -
  have "NormaliseSiteGeo (\<lambda>s. s) ''allow'' [''nowhere''] = ([], [])" by code_simp
  then show ?thesis using site_geo_rule [of "\<lambda>s. s" "[]" "''allow''"] by simp
qed

end
