(* ===== verification/StoreSiteUsers.thy ===== *)
theory StoreSiteUsers
  imports StoreModels
begin

section \<open>The store: accounts and paths of the login gate\<close>

text \<open>
  \<open>control/internal/store/siteusers.go\<close>: \<open>ValidateSiteUser\<close>, \<open>NormaliseAuthPaths\<close> and the
  operations on the table \<open>site_users\<close>. bcrypt is a parameter: \<open>hash\<close> gives the hash of a password
  (or an error) and \<open>compare\<close> answers whether a stored hash matches. \<open>L\<close> is the Unicode lower-case
  table. The lemmas give the shape of a normalised path list, and what a change of password, a
  revocation and a deletion do to the generations the data plane checks sessions against.
\<close>

definition minSitePasswordLength :: nat where "minSitePasswordLength = 10"

definition ValidateSiteUser :: "string \<Rightarrow> string \<Rightarrow> string result" where
  "ValidateSiteUser username0 password =
     (let username = trim_space username0
      in if username = [] then Inl (Invalid ''a username is required'')
         else if length username > 64 then Inl (Invalid ''the username is too long'')
         else if list_ex below_space username then Inl (Invalid ''the username contains a control character'')
         else if length password < minSitePasswordLength then
           Inl (Invalid ''the password must be at least 10 characters'')
         else Inr username)"

subsection \<open>The protected paths\<close>

definition maxAuthPaths :: nat where "maxAuthPaths = 32"

fun strip_slashes :: "string \<Rightarrow> string" where
  "strip_slashes s = (if length s > 1 \<and> has_suffix ''/'' s then strip_slashes (butlast s) else s)"

declare strip_slashes.simps [simp del]

text \<open>The body of the loop for one path: \<open>None\<close> where the source continues with the next.\<close>

definition auth_path :: "string \<Rightarrow> string option" where
  "auth_path p0 =
     (let p = trim_space (trim_suffix ''*'' (trim_space p0))
      in if p = [] then None
         else let q = takeWhile (\<lambda>c. c \<noteq> CHR ''?'' \<and> c \<noteq> CHR ''#'') p;
                  r = (if has_prefix ''/'' q then q else CHR ''/'' # q)
              in if str_contains ''/../'' r \<or> has_suffix ''/..'' r \<or> str_contains ''//'' r then None
                 else if contains_any [CHR 0x00, CHR 0x0A, CHR 0x0D] r then None
                 else let t = strip_slashes r
                      in if length t > 256 then None else Some t)"

fun auth_loop :: "(string \<Rightarrow> string) \<Rightarrow> string list \<Rightarrow> string list \<Rightarrow> string list \<Rightarrow> string list" where
  "auth_loop L [] seen out = (if out = [] then [''/''] else out)"
| "auth_loop L (p # ps) seen out =
     (case auth_path p of
        None \<Rightarrow> auth_loop L ps seen out
      | Some q \<Rightarrow>
          if q = ''/'' then [''/'']
          else let k = go_to_lower L q
               in if List.member seen k then auth_loop L ps seen out
                  else if length (out @ [q]) \<ge> maxAuthPaths then out @ [q]
                  else auth_loop L ps (k # seen) (out @ [q]))"

definition NormaliseAuthPaths :: "(string \<Rightarrow> string) \<Rightarrow> string list \<Rightarrow> string list" where
  "NormaliseAuthPaths L paths = auth_loop L paths [] []"

subsection \<open>The table\<close>

record su_row =
  sr_id :: int
  sr_siteID :: string
  sr_username :: string
  sr_hash :: string
  sr_generation :: int
  sr_createdAt :: int

record su_table =
  sut_next :: int
  sut_rows :: "su_row list"

definition site_user_of :: "su_row \<Rightarrow> site_user" where
  "site_user_of r = \<lparr>su_id = sr_id r, su_siteID = sr_siteID r, su_username = sr_username r,
     su_generation = sr_generation r, su_createdAt = sr_createdAt r\<rparr>"

definition ListSiteUsers :: "string option \<Rightarrow> string \<Rightarrow> su_table \<Rightarrow> site_user list result" where
  "ListSiteUsers db siteID t =
     query db (map site_user_of (order_by sr_username (filter (\<lambda>r. sr_siteID r = siteID) (sut_rows t))))"

text \<open>
  The INSERT draws the next id, and is refused by UNIQUE (site_id, username). (The foreign key on
  sites is the caller's concern: the handler looks the site up first.)
\<close>

definition CreateSiteUser ::
  "(string \<Rightarrow> string result) \<Rightarrow> string option \<Rightarrow> int \<Rightarrow> string \<Rightarrow> string \<Rightarrow> string \<Rightarrow> su_table \<Rightarrow> site_user result \<times> su_table" where
  "CreateSiteUser hash db now siteID username0 password t =
     (case ValidateSiteUser username0 password of
        Inl e \<Rightarrow> (Inl e, t)
      | Inr username \<Rightarrow>
          (case hash password of
             Inl e \<Rightarrow> (Inl e, t)
           | Inr h \<Rightarrow>
               (case db of
                  Some msg \<Rightarrow> (Inl (DbFailed msg), t)
                | None \<Rightarrow>
                    if list_ex (\<lambda>r. sr_siteID r = siteID \<and> sr_username r = username) (sut_rows t)
                    then (Inl (Invalid ''that username already exists on this site''), t\<lparr>sut_next := sut_next t + 1\<rparr>)
                    else (let row = \<lparr>sr_id = sut_next t, sr_siteID = siteID, sr_username = username,
                                     sr_hash = h, sr_generation = 1, sr_createdAt = now\<rparr>
                          in (Inr (site_user_of row),
                              \<lparr>sut_next = sut_next t + 1, sut_rows = sut_rows t @ [row]\<rparr>)))))"

definition on_rows :: "su_table \<Rightarrow> unit result \<times> su_row list \<Rightarrow> unit result \<times> su_table" where
  "on_rows t res = (case res of (r, rows) \<Rightarrow> (r, t\<lparr>sut_rows := rows\<rparr>))"

definition SetSiteUserPassword ::
  "(string \<Rightarrow> string result) \<Rightarrow> string option \<Rightarrow> int \<Rightarrow> string \<Rightarrow> su_table \<Rightarrow> unit result \<times> su_table" where
  "SetSiteUserPassword hash db uid password t =
     (if length password < minSitePasswordLength then
        (Inl (Invalid ''the password must be at least 10 characters''), t)
      else (case hash password of
              Inl e \<Rightarrow> (Inl e, t)
            | Inr h \<Rightarrow> on_rows t (exec_affected db ErrNotFound
                (update_rows (\<lambda>r. sr_id r = uid) (\<lambda>r. r\<lparr>sr_hash := h, sr_generation := sr_generation r + 1\<rparr>) (sut_rows t))
                (sut_rows t))))"

definition RevokeSiteUserSessions :: "string option \<Rightarrow> int \<Rightarrow> su_table \<Rightarrow> unit result \<times> su_table" where
  "RevokeSiteUserSessions db uid t = on_rows t (exec_affected db ErrNotFound
     (update_rows (\<lambda>r. sr_id r = uid) (\<lambda>r. r\<lparr>sr_generation := sr_generation r + 1\<rparr>) (sut_rows t)) (sut_rows t))"

definition DeleteSiteUser :: "string option \<Rightarrow> int \<Rightarrow> su_table \<Rightarrow> unit result \<times> su_table" where
  "DeleteSiteUser db uid t = on_rows t (exec_affected db ErrNotFound
     (delete_rows (\<lambda>r. sr_id r = uid) (sut_rows t)) (sut_rows t))"

definition AuthenticateSiteUser ::
  "(string \<Rightarrow> string \<Rightarrow> bool) \<Rightarrow> string option \<Rightarrow> string \<Rightarrow> string \<Rightarrow> string \<Rightarrow> su_table \<Rightarrow> site_user result" where
  "AuthenticateSiteUser compare db siteID username password t =
     (case query_row db ErrBadCredentials
             (find (\<lambda>r. sr_siteID r = siteID \<and> sr_username r = trim_space username) (sut_rows t)) of
        Inl e \<Rightarrow> Inl e
      | Inr r \<Rightarrow> if \<not> compare (sr_hash r) password then Inl ErrBadCredentials else Inr (site_user_of r))"

text \<open>\<open>SiteGenerations\<close>: the nested map, built row by row.\<close>

definition SiteGenerations :: "string option \<Rightarrow> su_table \<Rightarrow> (string \<Rightarrow> int \<rightharpoonup> int) result" where
  "SiteGenerations db t = query db
     (foldl (\<lambda>out r. out(sr_siteID r := (out (sr_siteID r))(sr_id r \<mapsto> sr_generation r)))
        (\<lambda>site. Map.empty) (sut_rows t))"


subsection \<open>The shape of a normalised path\<close>

definition path_ok :: "string \<Rightarrow> bool" where
  "path_ok t \<longleftrightarrow> has_prefix ''/'' t \<and> (t = ''/'' \<or> \<not> has_suffix ''/'' t)
     \<and> \<not> str_contains ''//'' t \<and> \<not> str_contains ''/../'' t \<and> \<not> has_suffix ''/..'' t
     \<and> set t \<inter> {CHR ''?'', CHR ''#'', CHR 0x00, CHR 0x0A, CHR 0x0D} = {} \<and> length t \<le> 256"

lemma strip_slashes_split: "\<exists>n. s = strip_slashes s @ replicate n (CHR ''/'')"
proof (induction s rule: strip_slashes.induct)
  case (1 s)
  show ?case
  proof (cases "length s > 1 \<and> has_suffix ''/'' s")
    case True
    then obtain n where "butlast s = strip_slashes (butlast s) @ replicate n (CHR ''/'')" using 1 by blast
    moreover have "s = butlast s @ ''/''" using True append_butlast_last_id [of s] by (auto simp: has_suffix_single)
    ultimately have "s = strip_slashes (butlast s) @ replicate (Suc n) (CHR ''/'')"
      by (metis append.assoc replicate_Suc replicate_append_same)
    then show ?thesis using True by (subst strip_slashes.simps) metis
  next
    case False
    then show ?thesis by (subst strip_slashes.simps) (auto intro: exI [of _ 0])
  qed
qed

lemma strip_slashes_end: "length (strip_slashes s) \<le> 1 \<or> \<not> has_suffix ''/'' (strip_slashes s)"
proof (induction s rule: strip_slashes.induct)
  case (1 s)
  then show ?case by (subst (1 2) strip_slashes.simps) auto
qed

lemma strip_slashes_nonempty: "s \<noteq> [] \<Longrightarrow> strip_slashes s \<noteq> []"
proof (induction s rule: strip_slashes.induct)
  case (1 s)
  then show ?case by (subst strip_slashes.simps) (auto simp: butlast_conv_take)
qed

lemma disjoint_five: "S \<inter> {a, b} = {} \<Longrightarrow> S \<inter> {c, d, e} = {} \<Longrightarrow> T \<subseteq> S \<Longrightarrow> T \<inter> {a, b, c, d, e} = {}"
  by blast

lemma auth_path_ok:
  assumes "auth_path p0 = Some t"
  shows "path_ok t"
proof -
  define p where "p = trim_space (trim_suffix ''*'' (trim_space p0))"
  define q where "q = takeWhile (\<lambda>c. c \<noteq> CHR ''?'' \<and> c \<noteq> CHR ''#'') p"
  define r where "r = (if has_prefix ''/'' q then q else CHR ''/'' # q)"
  have r: "\<not> str_contains ''/../'' r" "\<not> has_suffix ''/..'' r" "\<not> str_contains ''//'' r"
      "\<not> contains_any [CHR 0x00, CHR 0x0A, CHR 0x0D] r" "length t \<le> 256" "t = strip_slashes r"
    using assms by (auto simp: auth_path_def p_def [symmetric] q_def [symmetric] r_def [symmetric] Let_def
        split: if_splits)
  obtain n where n: "r = t @ replicate n (CHR ''/'')" using strip_slashes_split [of r] r(6) by metis
  have rp: "has_prefix ''/'' r" "r \<noteq> []" by (auto simp: r_def has_prefix_single)
  have t1: "t \<noteq> []" using strip_slashes_nonempty [OF rp(2)] r(6) by metis
  then have "hd t = hd r" using n by (metis hd_append2)
  then have t: "t \<noteq> []" "has_prefix ''/'' t" using t1 rp by (simp_all add: has_prefix_single)
  have sub: "set t \<subseteq> set r" using n by (metis set_append sup_ge1)
  have "set r \<inter> {CHR ''?'', CHR ''#''} = {}"
    by (auto simp: r_def q_def dest: set_takeWhileD split: if_splits)
  moreover have "set r \<inter> {CHR 0x00, CHR 0x0A, CHR 0x0D} = {}" using r(4) by (auto simp: contains_any_iff)
  ultimately have chars: "set t \<inter> {CHR ''?'', CHR ''#'', CHR 0x00, CHR 0x0A, CHR 0x0D} = {}"
    by (rule disjoint_five [OF _ _ sub])
  have inside: "\<not> str_contains m t" if "\<not> str_contains m r" for m
  proof
    assume "str_contains m t"
    then obtain a b where "t = a @ m @ b" unfolding str_contains_iff by blast
    then have "r = a @ m @ (b @ replicate n (CHR ''/''))" using n by simp
    then show False using that unfolding str_contains_iff by blast
  qed
  have dots: "\<not> has_suffix ''/..'' t"
  proof
    assume "has_suffix ''/..'' t"
    then obtain u where u: "t = u @ ''/..''" by (auto simp: has_suffix_iff)
    show False
    proof (cases n)
      case 0
      then show ?thesis using r(2) n u by (auto simp: has_suffix_iff)
    next
      case (Suc m)
      then have "r = u @ ''/../'' @ replicate m (CHR ''/'')" using n u by simp
      then show ?thesis using r(1) unfolding str_contains_iff by blast
    qed
  qed
  have "length t \<le> 1 \<or> \<not> has_suffix ''/'' t"
    using strip_slashes_end [of r] r(6) by metis
  moreover have "length t \<le> 1 \<Longrightarrow> t = ''/''"
    using t by (cases t rule: list.exhaust) (auto simp: has_prefix_single)
  ultimately have "t = ''/'' \<or> \<not> has_suffix ''/'' t" by blast
  then show ?thesis using t(2) chars inside r(1,3,5) dots by (simp add: path_ok_def)
qed

lemma auth_loop_ok:
  assumes "list_all path_ok out" and "''/'' \<notin> set out" and "length out < maxAuthPaths"
    and "distinct (map (go_to_lower L) out)" and "set seen = go_to_lower L ` set out"
  shows "auth_loop L ps seen out = [''/''] \<or>
    (auth_loop L ps seen out \<noteq> [] \<and> list_all path_ok (auth_loop L ps seen out)
     \<and> ''/'' \<notin> set (auth_loop L ps seen out) \<and> length (auth_loop L ps seen out) \<le> maxAuthPaths
     \<and> distinct (map (go_to_lower L) (auth_loop L ps seen out)))"
  using assms
proof (induction L ps seen out rule: auth_loop.induct)
  case (1 L seen out)
  then show ?case by simp
next
  case (2 L p ps seen out)
  show ?case
  proof (cases "auth_path p")
    case None
    then show ?thesis using 2 by simp
  next
    case (Some q)
    then have q: "path_ok q" by (rule auth_path_ok)
    show ?thesis
    proof (cases "q = ''/'' \<or> go_to_lower L q \<in> set seen")
      case True
      then show ?thesis using 2 Some by (auto simp: Let_def)
    next
      case False
      then have "list_all path_ok (out @ [q])" "''/'' \<notin> set (out @ [q])"
        "distinct (map (go_to_lower L) (out @ [q]))"
        "set (go_to_lower L q # seen) = go_to_lower L ` set (out @ [q])"
        using 2(4-8) q by auto
      then show ?thesis using 2(3) [OF Some] 2(6) Some False
        by (cases "maxAuthPaths \<le> length (out @ [q])") (auto simp: Let_def)
    qed
  qed
qed


subsection \<open>What the account operations do to the generations\<close>

definition su_inv :: "su_table \<Rightarrow> bool" where
  "su_inv t \<longleftrightarrow> unique_by sr_id (sut_rows t)
     \<and> unique_by (\<lambda>r. (sr_siteID r, sr_username r)) (sut_rows t)
     \<and> list_all (\<lambda>r. sr_id r < sut_next t) (sut_rows t)"

definition generation_of :: "su_table \<Rightarrow> string \<Rightarrow> int \<Rightarrow> int option" where
  "generation_of t site uid = (case SiteGenerations None t of Inl e \<Rightarrow> None | Inr g \<Rightarrow> g site uid)"

lemma generation_of_row:
  "unique_by sr_id (sut_rows t) \<Longrightarrow> generation_of t site uid =
     (case find_row sr_id uid (sut_rows t) of None \<Rightarrow> None
      | Some r \<Rightarrow> if sr_siteID r = site then Some (sr_generation r) else None)"
proof -
  have *: "foldl (\<lambda>out r. out(sr_siteID r := (out (sr_siteID r))(sr_id r \<mapsto> sr_generation r))) g rows site uid =
      (case find_row sr_id uid rows of
         None \<Rightarrow> g site uid | Some r \<Rightarrow> if sr_siteID r = site then Some (sr_generation r) else g site uid)"
    if "unique_by sr_id rows" for rows g
    using that
  proof (induction rows arbitrary: g)
    case Nil
    then show ?case by (simp add: find_row_def)
  next
    case (Cons r rows)
    then have "find_row sr_id (sr_id r) rows = None"
      by (auto simp: unique_by_def find_row_None)
    moreover have "unique_by sr_id rows" using Cons.prems by (simp add: unique_by_def)
    ultimately show ?case using Cons.IH
      by (cases "sr_id r = uid") (auto simp: find_row_def split: option.split)
  qed
  show "unique_by sr_id (sut_rows t) \<Longrightarrow> ?thesis"
    unfolding generation_of_def SiteGenerations_def query_def using * [of "sut_rows t" "\<lambda>s. Map.empty"]
    by (simp split: option.split)
qed

lemma su_inv_update:
  "(\<And>r. sr_id (f r) = sr_id r \<and> sr_siteID (f r) = sr_siteID r \<and> sr_username (f r) = sr_username r) \<Longrightarrow>
   su_inv t \<Longrightarrow> su_inv (t\<lparr>sut_rows := snd (update_rows P f (sut_rows t))\<rparr>)"
  by (auto simp: su_inv_def update_rows_unique) (auto simp: update_rows_def list_all_iff)

lemma su_inv_delete: "su_inv t \<Longrightarrow> su_inv (t\<lparr>sut_rows := snd (delete_rows P (sut_rows t))\<rparr>)"
  by (auto simp: su_inv_def delete_rows_unique) (auto simp: delete_rows_def list_all_iff)

lemma on_rows_exec:
  "snd (on_rows t (exec_affected None e res tbl)) = t\<lparr>sut_rows := snd res\<rparr>"
  "fst (on_rows t (exec_affected None e res tbl)) = (if fst res = 0 then Inl e else Inr ())"
  by (auto simp: on_rows_def exec_affected_def split: prod.split)

lemma CreateSiteUser_inv:
  assumes "su_inv t" and "CreateSiteUser hash db now siteID username password t = (Inr u, t')"
  shows "su_inv t' \<and> su_id u = sut_next t \<and> sut_next t' = sut_next t + 1"
proof -
  have fresh: "sr_id r < sut_next t" if "r \<in> set (sut_rows t)" for r
    using assms(1) that by (simp add: su_inv_def list_all_iff)
  then have "sut_next t \<notin> sr_id ` set (sut_rows t)" and "\<And>r. r \<in> set (sut_rows t) \<Longrightarrow> sr_id r < sut_next t + 1"
    by fastforce+
  then show ?thesis using assms
    by (auto simp: CreateSiteUser_def Let_def su_inv_def unique_by_def site_user_of_def list_all_iff list_ex_iff
        split: sum.splits option.splits if_splits)
qed

subsection \<open>Properties\<close>

text \<open>
  The gate never protects nothing. Whatever was typed or stored, the normalised list is not
  empty; it is the whole site, or at most 32 paths that each start with a slash, do not end in one,
  hold no empty or parent segment, no query, fragment or line break, and are pairwise different up
  to case.
\<close>

theorem auth_paths_shape:
  "NormaliseAuthPaths L ps = [''/''] \<or>
    (NormaliseAuthPaths L ps \<noteq> [] \<and> list_all path_ok (NormaliseAuthPaths L ps)
     \<and> ''/'' \<notin> set (NormaliseAuthPaths L ps) \<and> length (NormaliseAuthPaths L ps) \<le> 32
     \<and> distinct (map (go_to_lower L) (NormaliseAuthPaths L ps)))"
  using auth_loop_ok [of "[]" L "[]" ps] by (simp add: NormaliseAuthPaths_def maxAuthPaths_def)

text \<open>
  Normalising the paths again at publication is not neutral: a path typed as \<open>/admin/**\<close> is
  stored as \<open>/admin/*\<close>, which the second pass turns into \<open>/admin\<close>; and a path with a \<open>.\<close>
  segment, which the gate can never match, survives both.
\<close>

theorem auth_paths_drift:
  "NormaliseAuthPaths L [''/admin/**''] = [''/admin/*'']
   \<and> NormaliseAuthPaths L (NormaliseAuthPaths L [''/admin/**'']) = [''/admin'']
   \<and> NormaliseAuthPaths L [''/a/./b''] = [''/a/./b'']"
proof -
  have "auth_path ''/admin/**'' = Some ''/admin/*''" "auth_path ''/admin/*'' = Some ''/admin''"
    "auth_path ''/a/./b'' = Some ''/a/./b''" by code_simp+
  then show ?thesis by (simp add: NormaliseAuthPaths_def maxAuthPaths_def)
qed

text \<open>
  Sessions are revocable. Signing an account out everywhere, or giving it a new password,
  raises the generation the data plane compares by one and touches no other account; deleting it
  removes its generation; a user created afterwards never gets an id a deleted one had; and the
  uniqueness constraints of the table hold throughout.
\<close>

theorem site_user_revocation:
  assumes "su_inv t" and "generation_of t site uid = Some g"
  shows "generation_of (snd (RevokeSiteUserSessions None uid t)) site uid = Some (g + 1)
    \<and> (length pw \<ge> 10 \<longrightarrow> generation_of (snd (SetSiteUserPassword hash None uid pw t)) site uid =
         (case hash pw of Inl e \<Rightarrow> Some g | Inr h \<Rightarrow> Some (g + 1)))
    \<and> generation_of (snd (DeleteSiteUser None uid t)) site uid = None
    \<and> (other \<noteq> uid \<longrightarrow> generation_of (snd (RevokeSiteUserSessions None uid t)) site2 other = generation_of t site2 other
         \<and> generation_of (snd (DeleteSiteUser None uid t)) site2 other = generation_of t site2 other)
    \<and> su_inv (snd (RevokeSiteUserSessions None uid t)) \<and> su_inv (snd (DeleteSiteUser None uid t))
    \<and> (\<forall>u t'. CreateSiteUser hash db now site3 name pw2 (snd (DeleteSiteUser None uid t)) = (Inr u, t') \<longrightarrow>
         su_id u \<noteq> uid \<and> su_inv t')"
proof -
  have u: "unique_by sr_id (sut_rows t)" using assms(1) by (simp add: su_inv_def)
  obtain r where r: "find_row sr_id uid (sut_rows t) = Some r" "sr_siteID r = site" "sr_generation r = g"
    using assms(2) by (auto simp: generation_of_row [OF u] split: option.splits if_splits)
  have id: "sr_id r = uid" "r \<in> set (sut_rows t)" using find_row_Some [OF r(1)] by auto
  have upd: "unique_by sr_id (snd (update_rows P f (sut_rows t)))"
    if "\<And>x. sr_id (f x) = sr_id x" for P f using that u by (rule update_rows_unique)
  have del: "unique_by sr_id (snd (delete_rows P (sut_rows t)))" for P using u by (rule delete_rows_unique)
  have lt: "uid < sut_next t" using assms(1) id by (auto simp: su_inv_def list_all_iff)
  have iv: "su_inv (snd (RevokeSiteUserSessions None uid t))" "su_inv (snd (DeleteSiteUser None uid t))"
    using assms(1) by (simp_all add: RevokeSiteUserSessions_def DeleteSiteUser_def on_rows_exec su_inv_update su_inv_delete)
  have nx: "sut_next (snd (DeleteSiteUser None uid t)) = sut_next t"
    by (simp add: DeleteSiteUser_def on_rows_exec)
  have "generation_of (snd (DeleteSiteUser None uid t)) s k = (if k = uid then None else generation_of t s k)" for s k
    by (simp add: DeleteSiteUser_def on_rows_exec generation_of_row del u delete_rows_find)
  moreover have "generation_of (snd (RevokeSiteUserSessions None uid t)) s k =
      (if k = uid then map_option (\<lambda>g. g + 1) (generation_of t s k) else generation_of t s k)" for s k
    using find_row_Some
    by (fastforce simp: RevokeSiteUserSessions_def on_rows_exec generation_of_row upd u update_rows_find split: option.split)
  moreover have "generation_of (snd (SetSiteUserPassword hash None uid pw t)) site uid =
      (case hash pw of Inl e \<Rightarrow> Some g | Inr h \<Rightarrow> Some (g + 1))" if "length pw \<ge> 10"
    using that r id assms(2)
    by (simp add: SetSiteUserPassword_def minSitePasswordLength_def on_rows_exec generation_of_row upd
        update_rows_find split: sum.split)
  moreover have "\<forall>u t'. CreateSiteUser hash db now site3 name pw2 (snd (DeleteSiteUser None uid t)) = (Inr u, t') \<longrightarrow>
      su_id u \<noteq> uid \<and> su_inv t'"
    using CreateSiteUser_inv [OF iv(2)] nx lt by (metis less_irrefl)
  ultimately show ?thesis using assms(2) iv by simp
qed

lemma site_user_revocation_witness:
  "generation_of (snd (DeleteSiteUser None 4
     \<lparr>sut_next = 6, sut_rows = [\<lparr>sr_id = 4, sr_siteID = ''s'', sr_username = ''ann'', sr_hash = ''h'',
        sr_generation = 2, sr_createdAt = 0\<rparr>]\<rparr>)) ''s'' 4 = None"
proof -
  let ?t = "\<lparr>sut_next = 6, sut_rows = [\<lparr>sr_id = 4, sr_siteID = ''s'', sr_username = ''ann'', sr_hash = ''h'',
        sr_generation = 2, sr_createdAt = 0\<rparr>]\<rparr>"
  have "su_inv ?t" by (simp add: su_inv_def unique_by_def)
  moreover have "generation_of ?t ''s'' 4 = Some 2"
    by (simp add: generation_of_def SiteGenerations_def query_def)
  ultimately show ?thesis using site_user_revocation [of ?t "''s''" 4 2] by blast
qed

end
