(* ===== verification/StoreSites.thy ===== *)
theory StoreSites
  imports StoreSiteUsers GoNet
begin

section \<open>The store: sites\<close>

text \<open>
  \<open>control/internal/store/sites.go\<close>: the screen \<open>hasControlChar\<close>, \<open>ValidateSite\<close> with every check and
  every default it fills in, in the order of the source, \<open>checkACMEDomain\<close>, the cooldown of manual
  orders and the operations on the table \<open>sites\<close>. A validated site is the value of \<open>Inr\<close>; after an
  error the callers drop the site, so the half-normalised value is not returned. \<open>L\<close> and \<open>U\<close> are the
  Unicode case tables. \<open>site_valid\<close> states what everything downstream (the generated nginx files, the
  publisher, the certificate loop) takes from validation.
\<close>

definition hasControlChar :: "string \<Rightarrow> bool" where
  "hasControlChar v = list_ex (\<lambda>c. c = CHR 0x0A \<or> c = CHR 0x0D \<or> c = CHR 0x00
     \<or> (byte_of c < 32 \<and> c \<noteq> CHR 0x09) \<or> byte_of c = 127) v"

definition domain_forbidden :: string where
  "domain_forbidden = '' /'' @ [CHR 0x5C] @ '':;{}'' @ [CHR 0x22, CHR 0x27] @ ''$''"

definition host_forbidden :: string where
  "host_forbidden = '' /'' @ [CHR 0x5C] @ '';{}'' @ [CHR 0x22, CHR 0x27] @ ''$''"

fun check_labels :: "string \<Rightarrow> string list \<Rightarrow> unit result" where
  "check_labels d [] = Inr ()"
| "check_labels d (label # ls) =
     (if label = [] then Inl (InvalidValue ''domain name has an empty label'' d)
      else if length label > 63 then Inl (InvalidValue ''domain label is too long'' d)
      else if has_prefix ''-'' label \<or> has_suffix ''-'' label then
        Inl (InvalidValue ''domain label cannot start or end with a hyphen'' d)
      else check_labels d ls)"

definition checkACMEDomain :: "string \<Rightarrow> unit result" where
  "checkACMEDomain d =
     (if str_contains ''*'' d then Inl (InvalidValue ''a wildcard needs a DNS challenge'' d)
      else let trimmed = trim_suffix ''.'' d
           in if net_parse_ip trimmed \<noteq> None then
                Inl (InvalidValue ''automatic certificates need a domain name, not the address'' d)
              else if \<not> str_contains ''.'' trimmed then
                Inl (InvalidValue ''automatic certificates need a public domain name'' d)
              else if length trimmed > 253 then Inl (InvalidValue ''domain name is too long'' d)
              else check_labels d (split_on (CHR ''.'') trimmed))"

fun check_all :: "('a \<Rightarrow> unit result) \<Rightarrow> 'a list \<Rightarrow> unit result" where
  "check_all f [] = Inr ()"
| "check_all f (x # xs) = (case f x of Inl e \<Rightarrow> Inl e | Inr _ \<Rightarrow> check_all f xs)"

definition clean_domain :: "(string \<Rightarrow> string) \<Rightarrow> string \<Rightarrow> string result" where
  "clean_domain L d0 =
     (let d = go_to_lower L (trim_space d0)
      in if d = [] \<or> contains_any domain_forbidden d \<or> hasControlChar d
         then Inl (InvalidValue ''invalid domain'' d0) else Inr d)"

definition one_of :: "string list \<Rightarrow> string \<Rightarrow> string \<Rightarrow> string" where
  "one_of allowed dflt v = (if List.member allowed v then v else dflt)"

text \<open>The part after the name and the domains, on the site they were normalised in.\<close>

definition check_acme :: "site \<Rightarrow> site result" where
  "check_acme s1 =
     (if s_acmeEnabled s1 then
        (let s2 = s1\<lparr>s_acmeEmail := trim_space (s_acmeEmail s1)\<rparr>
         in if s_acmeEmail s2 = [] then
              Inl (Invalid ''an email address is required for automatic certificates'')
            else if \<not> str_contains ''@'' (s_acmeEmail s2) \<or> hasControlChar (s_acmeEmail s2) then
              Inl (InvalidValue ''invalid email address'' (s_acmeEmail s2))
            else (case check_all checkACMEDomain (s_domains s2) of Inl e \<Rightarrow> Inl e | Inr _ \<Rightarrow> Inr s2))
      else Inr s1)"

definition site_defaults :: "site \<Rightarrow> site" where
  "site_defaults s = s\<lparr>s_upstreamScheme := one_of [''http'', ''https''] ''http'' (s_upstreamScheme s),
     s_mode := one_of [''protect'', ''monitor'', ''off''] ''protect'' (s_mode s),
     s_challenge := one_of [''auto'', ''always'', ''off''] ''auto'' (s_challenge s)\<rparr>"

definition site_paths :: "(string \<Rightarrow> string) \<Rightarrow> (string \<Rightarrow> string) \<Rightarrow> site \<Rightarrow> site" where
  "site_paths L U s =
     (let s3 = s\<lparr>s_authPaths := NormaliseAuthPaths L (s_authPaths s)\<rparr>;
          g = NormaliseSiteGeo U (s_geoMode s3) (s_geoCountries s3)
      in s3\<lparr>s_geoMode := fst g, s_geoCountries := snd g\<rparr>)"

definition validate_rest :: "(string \<Rightarrow> string) \<Rightarrow> (string \<Rightarrow> string) \<Rightarrow> site \<Rightarrow> site result" where
  "validate_rest L U s =
     (if s_upstreamHost s = [] then Inl (Invalid ''the upstream host is required'')
      else if contains_any host_forbidden (s_upstreamHost s) \<or> hasControlChar (s_upstreamHost s) then
        Inl (Invalid ''invalid upstream host'')
      else if s_upstreamPort s \<le> 0 \<or> s_upstreamPort s > 65535 then Inl (Invalid ''invalid upstream port'')
      else let s1 = site_defaults s
           in if s_rateRPS s1 < 0 \<or> s_rateBurst s1 < 0 then Inl (Invalid ''rate limits cannot be negative'')
              else if (s_tlsCert s1 = []) \<noteq> (s_tlsKey s1 = []) then
                Inl (Invalid ''both the certificate and the private key are required'')
              else if s_forceHTTPS s1 \<and> s_tlsCert s1 = [] \<and> \<not> s_acmeEnabled s1 then
                Inl (Invalid ''forcing HTTPS requires a certificate'')
              else (case check_acme s1 of
                      Inl e \<Rightarrow> Inl e
                    | Inr s2 \<Rightarrow>
                        (let s4 = site_paths L U s2
                         in if s_authEnabled s4 \<and> s_tlsCert s4 = [] \<and> \<not> s_acmeEnabled s4 then
                              Inl (Invalid ''the login gate needs HTTPS'')
                            else Inr s4)))"

definition ValidateSite :: "(string \<Rightarrow> string) \<Rightarrow> (string \<Rightarrow> string) \<Rightarrow> site \<Rightarrow> site result" where
  "ValidateSite L U s0 =
     (let s = s0\<lparr>s_name := trim_space (s_name s0), s_upstreamHost := trim_space (s_upstreamHost s0)\<rparr>
      in if s_name s = [] then Inl (Invalid ''the site name is required'')
         else if hasControlChar (s_name s) then
           Inl (Invalid ''the site name cannot contain line breaks or control characters'')
         else if s_domains s = [] then Inl (Invalid ''at least one domain is required'')
         else (case map_res (clean_domain L) (s_domains s) of
                 Inl e \<Rightarrow> Inl e
               | Inr ds \<Rightarrow> validate_rest L U (s\<lparr>s_domains := ds\<rparr>)))"

subsection \<open>Manual orders\<close>

definition nanos :: "int \<Rightarrow> int" where "nanos secs = secs * 1000000000"

definition ManualIssueWindow :: int where
  "ManualIssueWindow = nanos (15 * 60)"

text \<open>\<open>Time.Sub\<close> saturates at the range of a Duration.\<close>

definition time_sub :: "int \<Rightarrow> int \<Rightarrow> int" where
  "time_sub a b = max (- (2 ^ 63)) (min (2 ^ 63 - 1) (a - b))"

definition ManualIssueCooldown :: "site \<Rightarrow> int \<Rightarrow> int" where
  "ManualIssueCooldown s now =
     (case s_acmeLastTry s of
        None \<Rightarrow> 0
      | Some t \<Rightarrow> (let elapsed = time_sub now t
                   in if elapsed < ManualIssueWindow then wrap64 (ManualIssueWindow - elapsed) else 0))"

subsection \<open>The table\<close>

text \<open>What every reader of a row makes of it.\<close>

definition scanSite :: "(string \<Rightarrow> string) \<Rightarrow> (string \<Rightarrow> string) \<Rightarrow> site \<Rightarrow> site" where
  "scanSite L U r =
     (let s1 = site_paths L U r in s1\<lparr>s_hasTLS := (s_tlsCert s1 \<noteq> [] \<and> s_tlsKey s1 \<noteq> [])\<rparr>)"

definition ListSites :: "(string \<Rightarrow> string) \<Rightarrow> (string \<Rightarrow> string) \<Rightarrow> string option \<Rightarrow> site list \<Rightarrow> site list result" where
  "ListSites L U db t = query db (map (scanSite L U) (order_by s_createdAt t))"

definition GetSite :: "(string \<Rightarrow> string) \<Rightarrow> (string \<Rightarrow> string) \<Rightarrow> string option \<Rightarrow> string \<Rightarrow> site list \<Rightarrow> site result" where
  "GetSite L U db k t = query_row db ErrNotFound (map_option (scanSite L U) (find_row s_id k t))"

text \<open>The row of an INSERT: the columns it names, the defaults of the others.\<close>

definition site_ins :: "(string \<Rightarrow> string) \<Rightarrow> int \<Rightarrow> site \<Rightarrow> site" where
  "site_ins L now s = s\<lparr>s_authPaths := NormaliseAuthPaths L (s_authPaths s), s_hasTLS := False,
     s_acmeLastError := [], s_acmeLastTry := None, s_createdAt := now, s_updatedAt := now\<rparr>"

definition site_merge :: "(string \<Rightarrow> string) \<Rightarrow> int \<Rightarrow> site \<Rightarrow> site \<Rightarrow> site" where
  "site_merge L now old s = s\<lparr>s_authPaths := NormaliseAuthPaths L (s_authPaths s), s_hasTLS := False,
     s_acmeLastError := s_acmeLastError old, s_acmeLastTry := s_acmeLastTry old,
     s_createdAt := s_createdAt old, s_updatedAt := now\<rparr>"

definition UpsertSite :: "(string \<Rightarrow> string) \<Rightarrow> string option \<Rightarrow> int \<Rightarrow> site \<Rightarrow> site list \<Rightarrow> unit result \<times> site list" where
  "UpsertSite L db now s t = exec_plain db (upsert_row s_id (site_ins L now) (site_merge L now) s t) t"

definition DeleteSite :: "string option \<Rightarrow> string \<Rightarrow> site list \<Rightarrow> unit result \<times> site list" where
  "DeleteSite db k t = exec_affected db ErrNotFound (delete_rows (\<lambda>r. s_id r = k) t) t"

definition StoreCertificate ::
  "string option \<Rightarrow> int \<Rightarrow> string \<Rightarrow> string \<Rightarrow> string \<Rightarrow> int \<Rightarrow> site list \<Rightarrow> unit result \<times> site list" where
  "StoreCertificate db now k certPEM keyPEM expires t = exec_affected db ErrNotFound
     (update_rows (\<lambda>r. s_id r = k)
        (\<lambda>r. r\<lparr>s_tlsCert := certPEM, s_tlsKey := keyPEM, s_certExpiresAt := Some expires,
               s_acmeLastError := [], s_acmeLastTry := Some now, s_updatedAt := now\<rparr>) t) t"

definition RecordACMEAttempt :: "string option \<Rightarrow> int \<Rightarrow> string \<Rightarrow> string \<Rightarrow> site list \<Rightarrow> unit result \<times> site list" where
  "RecordACMEAttempt db now k failure t = exec_plain db
     (snd (update_rows (\<lambda>r. s_id r = k) (\<lambda>r. r\<lparr>s_acmeLastError := failure, s_acmeLastTry := Some now\<rparr>) t)) t"

interpretation sites: keyed_table s_id "site_ins L now" "site_merge L now" for L now
  by unfold_locales (simp_all add: site_ins_def site_merge_def)

subsection \<open>What validation guarantees\<close>

definition no_break :: "string \<Rightarrow> bool" where
  "no_break v \<longleftrightarrow> CHR 0x0A \<notin> set v \<and> CHR 0x0D \<notin> set v \<and> CHR 0x00 \<notin> set v"

definition site_valid :: "site \<Rightarrow> bool" where
  "site_valid s \<longleftrightarrow> s_name s \<noteq> [] \<and> \<not> hasControlChar (s_name s)
     \<and> s_domains s \<noteq> []
     \<and> list_all (\<lambda>d. d \<noteq> [] \<and> \<not> contains_any domain_forbidden d \<and> \<not> hasControlChar d) (s_domains s)
     \<and> s_upstreamHost s \<noteq> [] \<and> \<not> contains_any host_forbidden (s_upstreamHost s) \<and> \<not> hasControlChar (s_upstreamHost s)
     \<and> 0 < s_upstreamPort s \<and> s_upstreamPort s \<le> 65535
     \<and> s_upstreamScheme s \<in> {''http'', ''https''} \<and> s_mode s \<in> {''protect'', ''monitor'', ''off''}
     \<and> s_challenge s \<in> {''auto'', ''always'', ''off''}
     \<and> 0 \<le> s_rateRPS s \<and> 0 \<le> s_rateBurst s
     \<and> ((s_tlsCert s = []) = (s_tlsKey s = []))
     \<and> (s_forceHTTPS s \<longrightarrow> s_tlsCert s \<noteq> [] \<or> s_acmeEnabled s)
     \<and> (s_authEnabled s \<longrightarrow> s_tlsCert s \<noteq> [] \<or> s_acmeEnabled s)
     \<and> (s_acmeEnabled s \<longrightarrow> s_acmeEmail s \<noteq> [] \<and> \<not> hasControlChar (s_acmeEmail s)
          \<and> list_all (\<lambda>d. checkACMEDomain d = Inr ()) (s_domains s))
     \<and> s_authPaths s \<noteq> [] \<and> site_geo_normal (s_geoMode s, s_geoCountries s)"

lemma hasControlChar_no_break: "\<not> hasControlChar v \<Longrightarrow> no_break v"
  by (auto simp: hasControlChar_def no_break_def list_ex_iff)

lemma check_all_Inr: "check_all f xs = Inr u \<longleftrightarrow> (\<forall>x \<in> set xs. f x = Inr ())"
  by (induction xs) (auto split: sum.splits)

lemma one_of_in: "one_of as d v \<in> insert d (set as)"
  by (simp add: one_of_def)

lemma clean_domain_Inr:
  "clean_domain L d0 = Inr d \<longleftrightarrow> d = go_to_lower L (trim_space d0) \<and>
     d \<noteq> [] \<and> \<not> contains_any domain_forbidden d \<and> \<not> hasControlChar d"
  by (auto simp: clean_domain_def Let_def)

lemma auth_paths_nonempty: "NormaliseAuthPaths L ps \<noteq> []"
  using auth_loop_ok [of "[]" L "[]" ps] by (auto simp: NormaliseAuthPaths_def maxAuthPaths_def)


lemma site_geo_normal_result: "site_geo_normal (NormaliseSiteGeo U m cs)"
  using site_geo.norm_normal [of U "(m, cs)"] by simp

lemma check_acme_Inr:
  "check_acme s = Inr s' \<Longrightarrow>
     s' = s\<lparr>s_acmeEmail := s_acmeEmail s'\<rparr> \<and>
     (s_acmeEnabled s \<longrightarrow> s_acmeEmail s' \<noteq> [] \<and> \<not> hasControlChar (s_acmeEmail s')
        \<and> list_all (\<lambda>d. checkACMEDomain d = Inr ()) (s_domains s))"
  by (auto simp: check_acme_def Let_def check_all_Inr list_all_iff split: if_splits sum.splits)

lemma validate_rest_Inr:
  assumes "validate_rest L U s = Inr s'"
  shows "\<exists>e. s' = site_paths L U ((site_defaults s)\<lparr>s_acmeEmail := e\<rparr>)
     \<and> (s_acmeEnabled s \<longrightarrow> e \<noteq> [] \<and> \<not> hasControlChar e \<and> list_all (\<lambda>d. checkACMEDomain d = Inr ()) (s_domains s))
     \<and> s_upstreamHost s \<noteq> [] \<and> \<not> contains_any host_forbidden (s_upstreamHost s) \<and> \<not> hasControlChar (s_upstreamHost s)
     \<and> 0 < s_upstreamPort s \<and> s_upstreamPort s \<le> 65535 \<and> 0 \<le> s_rateRPS s \<and> 0 \<le> s_rateBurst s
     \<and> ((s_tlsCert s = []) = (s_tlsKey s = []))
     \<and> (s_forceHTTPS s \<longrightarrow> s_tlsCert s \<noteq> [] \<or> s_acmeEnabled s)
     \<and> (s_authEnabled s \<longrightarrow> s_tlsCert s \<noteq> [] \<or> s_acmeEnabled s)"
proof -
  have same: "s_rateRPS (site_defaults s) = s_rateRPS s" "s_rateBurst (site_defaults s) = s_rateBurst s"
    "s_tlsCert (site_defaults s) = s_tlsCert s" "s_tlsKey (site_defaults s) = s_tlsKey s"
    "s_forceHTTPS (site_defaults s) = s_forceHTTPS s" "s_acmeEnabled (site_defaults s) = s_acmeEnabled s"
    "s_domains (site_defaults s) = s_domains s" "s_authEnabled (site_defaults s) = s_authEnabled s"
    by (simp_all add: site_defaults_def)
  have keep: "s_authEnabled (site_paths L U x) = s_authEnabled x" "s_tlsCert (site_paths L U x) = s_tlsCert x"
    "s_acmeEnabled (site_paths L U x) = s_acmeEnabled x" for x
    by (simp_all add: site_paths_def Let_def)
  obtain s2 where s2: "check_acme (site_defaults s) = Inr s2"
    using assms by (auto simp: validate_rest_def Let_def split: if_splits sum.splits)
  from check_acme_Inr [OF this] have e: "s2 = (site_defaults s)\<lparr>s_acmeEmail := s_acmeEmail s2\<rparr>"
    "s_acmeEnabled s \<longrightarrow> s_acmeEmail s2 \<noteq> [] \<and> \<not> hasControlChar (s_acmeEmail s2)
        \<and> list_all (\<lambda>d. checkACMEDomain d = Inr ()) (s_domains s)" by (simp_all add: same)
  have k: "s_authEnabled s2 = s_authEnabled s" "s_tlsCert s2 = s_tlsCert s" "s_acmeEnabled s2 = s_acmeEnabled s"
    by (subst e(1), simp add: same)+
  have "s' = site_paths L U s2"
    and rest: "s_upstreamHost s \<noteq> []" "\<not> contains_any host_forbidden (s_upstreamHost s)" "\<not> hasControlChar (s_upstreamHost s)"
      "0 < s_upstreamPort s" "s_upstreamPort s \<le> 65535" "0 \<le> s_rateRPS s" "0 \<le> s_rateBurst s"
      "(s_tlsCert s = []) = (s_tlsKey s = [])" "s_forceHTTPS s \<longrightarrow> s_tlsCert s \<noteq> [] \<or> s_acmeEnabled s"
      "s_authEnabled s \<longrightarrow> s_tlsCert s \<noteq> [] \<or> s_acmeEnabled s"
    using assms by (auto simp: validate_rest_def Let_def s2 same keep k split: if_splits)
  then show ?thesis using e by metis
qed

lemma validate_rest_valid:
  assumes v: "validate_rest L U s = Inr s'"
    and name: "s_name s \<noteq> []" "\<not> hasControlChar (s_name s)"
    and dom: "s_domains s \<noteq> []"
      "list_all (\<lambda>d. d \<noteq> [] \<and> \<not> contains_any domain_forbidden d \<and> \<not> hasControlChar d) (s_domains s)"
  shows "site_valid s' \<and> s_name s' = s_name s \<and> s_domains s' = s_domains s \<and> s_id s' = s_id s"
proof -
  obtain e where e: "s' = site_paths L U ((site_defaults s)\<lparr>s_acmeEmail := e\<rparr>)"
    and r: "s_acmeEnabled s \<longrightarrow> e \<noteq> [] \<and> \<not> hasControlChar e \<and> list_all (\<lambda>d. checkACMEDomain d = Inr ()) (s_domains s)"
      "s_upstreamHost s \<noteq> [] \<and> \<not> contains_any host_forbidden (s_upstreamHost s) \<and> \<not> hasControlChar (s_upstreamHost s)"
      "0 < s_upstreamPort s \<and> s_upstreamPort s \<le> 65535 \<and> 0 \<le> s_rateRPS s \<and> 0 \<le> s_rateBurst s"
      "(s_tlsCert s = []) = (s_tlsKey s = [])"
      "s_forceHTTPS s \<longrightarrow> s_tlsCert s \<noteq> [] \<or> s_acmeEnabled s"
      "s_authEnabled s \<longrightarrow> s_tlsCert s \<noteq> [] \<or> s_acmeEnabled s"
    using validate_rest_Inr [OF v] by metis
  have one: "one_of [''http'', ''https''] ''http'' x \<in> {''http'', ''https''}"
    "one_of [''protect'', ''monitor'', ''off''] ''protect'' y \<in> {''protect'', ''monitor'', ''off''}"
    "one_of [''auto'', ''always'', ''off''] ''auto'' z \<in> {''auto'', ''always'', ''off''}" for x y z
    using one_of_in [of "[''http'', ''https'']" "''http''" x]
      one_of_in [of "[''protect'', ''monitor'', ''off'']" "''protect''" y]
      one_of_in [of "[''auto'', ''always'', ''off'']" "''auto''" z] by (simp_all only: list.set insert_absorb2)
  show ?thesis
    unfolding e site_valid_def site_paths_def site_defaults_def Let_def
    using r name dom one by (simp add: auth_paths_nonempty site_geo_normal_result)
qed

lemma ValidateSite_Inr:
  assumes "ValidateSite L U s = Inr s'"
  shows "site_valid s' \<and> s_name s' = trim_space (s_name s) \<and> s_id s' = s_id s
    \<and> s_domains s' = map (\<lambda>d. go_to_lower L (trim_space d)) (s_domains s)"
proof -
  let ?s = "s\<lparr>s_name := trim_space (s_name s), s_upstreamHost := trim_space (s_upstreamHost s)\<rparr>"
  obtain ds where ds: "map_res (clean_domain L) (s_domains s) = Inr ds"
    and v: "validate_rest L U (?s\<lparr>s_domains := ds\<rparr>) = Inr s'"
    and n: "trim_space (s_name s) \<noteq> []" "\<not> hasControlChar (trim_space (s_name s))" "s_domains s \<noteq> []"
    using assms by (auto simp: ValidateSite_def Let_def split: if_splits sum.splits)
  have l: "list_all2 (\<lambda>x y. clean_domain L x = Inr y) (s_domains s) ds" by (rule map_res_Inr [OF ds])
  then have "ds = map (\<lambda>d. go_to_lower L (trim_space d)) (s_domains s)"
    by (induction rule: list_all2_induct) (auto simp: clean_domain_Inr)
  moreover have "list_all (\<lambda>d. d \<noteq> [] \<and> \<not> contains_any domain_forbidden d \<and> \<not> hasControlChar d) ds"
    using l by (induction rule: list_all2_induct) (auto simp: clean_domain_Inr)
  ultimately show ?thesis using validate_rest_valid [OF v] n by auto
qed

text \<open>
  What validation lets through is what the rest of the control plane assumes: a named site
  with at least one domain, no control character and none of nginx's structural characters in its
  domains or upstream host, a port in range, an enumerated scheme, mode and challenge, a
  certificate whole or absent, HTTPS behind every forced redirect and every login gate, orderable
  domains when automatic certificates are on, a non-empty path list and a normal country rule.
\<close>

theorem ValidateSite_valid:
  assumes "ValidateSite L U s = Inr s'"
  shows "site_valid s' \<and> s_name s' = trim_space (s_name s) \<and> s_id s' = s_id s
    \<and> s_domains s' = map (\<lambda>d. go_to_lower L (trim_space d)) (s_domains s)"
  using assms by (rule ValidateSite_Inr)


definition demo_site :: site where
  "demo_site = \<lparr>s_id = ''abc'', s_name = '' Shop '', s_domains = ['' Shop.Example ''], s_upstreamScheme = ''ftp'',
     s_upstreamHost = ''10.0.0.5'', s_upstreamPort = 8080, s_mode = [], s_challenge = ''always'', s_rateRPS = 0,
     s_rateBurst = 0, s_floodRPS = 0, s_authEnabled = True, s_authPaths = [''admin/''], s_geoMode = ''block'',
     s_geoCountries = [''vn''], s_tlsCert = ''C'', s_tlsKey = ''K'', s_hasTLS = False, s_forceHTTPS = True,
     s_acmeEnabled = False, s_acmeEmail = [], s_certExpiresAt = None, s_acmeLastError = [],
     s_acmeLastTry = None, s_enabled = True, s_rulesOff = [], s_createdAt = 0, s_updatedAt = 0\<rparr>"

definition demo_site_ok :: site where
  "demo_site_ok = demo_site\<lparr>s_name := ''Shop'', s_domains := [''shop.example''], s_upstreamScheme := ''http'',
     s_mode := ''protect'', s_authPaths := [''/admin''], s_geoCountries := [''VN'']\<rparr>"

lemma demo_site_validates: "ValidateSite (\<lambda>s. s) (\<lambda>s. s) demo_site = Inr demo_site_ok"
  by code_simp

lemma demo_site_ok_valid: "site_valid demo_site_ok"
  by code_simp

lemma ValidateSite_valid_witness: "site_valid demo_site_ok"
  using ValidateSite_valid [OF demo_site_validates] by blast

text \<open>
  The screens leave a gap: a tab passes \<open>hasControlChar\<close> and a hash is in neither list of
  forbidden characters, so a domain or an upstream host can carry what nginx reads as a second
  parameter or as the start of a comment.
\<close>

theorem validate_site_gap:
  "ValidateSite (\<lambda>s. s) (\<lambda>s. s) (demo_site\<lparr>s_domains := [[CHR ''a'', CHR 0x09, CHR ''b''], ''c#d''], s_upstreamHost := ''h#x''\<rparr>)
   = Inr (demo_site_ok\<lparr>s_domains := [[CHR ''a'', CHR 0x09, CHR ''b''], ''c#d''], s_upstreamHost := ''h#x''\<rparr>)"
  by code_simp

subsection \<open>What the table operations keep\<close>

text \<open>
  C35 A saved site is read back as it was saved. After \<open>UpsertSite\<close> of a validated site whose path
  list is already normal, \<open>GetSite\<close> returns it with the certificate flag computed from its two
  PEM fields, the creation time and the certificate bookkeeping of the row it replaced (or of a
  fresh row), and every other site as before; ids stay unique.
\<close>

theorem site_roundtrip:
  assumes "site_valid s" and "NormaliseAuthPaths L (s_authPaths s) = s_authPaths s" and "unique_by s_id t"
    and "UpsertSite L None now s t = (Inr u, t')"
  shows "GetSite L U None (s_id s) t' = Inr (s\<lparr>s_hasTLS := (s_tlsCert s \<noteq> []), s_updatedAt := now,
       s_createdAt := (case find_row s_id (s_id s) t of None \<Rightarrow> now | Some old \<Rightarrow> s_createdAt old),
       s_acmeLastError := (case find_row s_id (s_id s) t of None \<Rightarrow> [] | Some old \<Rightarrow> s_acmeLastError old),
       s_acmeLastTry := (case find_row s_id (s_id s) t of None \<Rightarrow> None | Some old \<Rightarrow> s_acmeLastTry old)\<rparr>)
    \<and> (other \<noteq> s_id s \<longrightarrow> GetSite L U None other t' = GetSite L U None other t)
    \<and> unique_by s_id t'"
proof -
  have t': "t' = upsert_row s_id (site_ins L now) (site_merge L now) s t"
    using assms(4) by (simp add: UpsertSite_def exec_plain_def)
  have geo: "NormaliseSiteGeo U (s_geoMode s) (s_geoCountries s) = (s_geoMode s, s_geoCountries s)"
    using site_geo.normal_fixed [of "(s_geoMode s, s_geoCountries s)" U] assms(1) by (simp add: site_valid_def)
  have key: "(s_tlsCert s \<noteq> [] \<and> s_tlsKey s \<noteq> []) = (s_tlsCert s \<noteq> [])"
    using assms(1) by (auto simp: site_valid_def)
  have "GetSite L U None other t' = GetSite L U None other t" if "other \<noteq> s_id s"
    using that by (simp add: GetSite_def t' sites.upsert_find_other)
  moreover have "unique_by s_id t'" using assms(3) by (simp add: t' sites.upsert_unique)
  ultimately show ?thesis
    by (simp add: GetSite_def query_row_def t' sites.upsert_find_same scanSite_def site_paths_def Let_def
        site_ins_def site_merge_def assms(2) geo key split: option.split)
qed

lemma site_roundtrip_witness:
  "GetSite (\<lambda>s. s) (\<lambda>s. s) None ''abc'' (snd (UpsertSite (\<lambda>s. s) None 7 demo_site_ok [])) =
     Inr (demo_site_ok\<lparr>s_hasTLS := True, s_updatedAt := 7, s_createdAt := 7\<rparr>)"
proof -
  have v: "site_valid demo_site_ok" by (simp only: demo_site_ok_valid)
  have n: "NormaliseAuthPaths (\<lambda>s. s) (s_authPaths demo_site_ok) = s_authPaths demo_site_ok" by code_simp
  have q: "unique_by s_id []" by (simp add: unique_by_def)
  have u: "UpsertSite (\<lambda>s. s) None 7 demo_site_ok [] = (Inr (), snd (UpsertSite (\<lambda>s. s) None 7 demo_site_ok []))"
    by (simp add: UpsertSite_def exec_plain_def)
  show ?thesis
    using site_roundtrip [OF v n q u, of "\<lambda>s. s" "[]", THEN conjunct1]
    by (simp add: find_row_def demo_site_ok_def demo_site_def)
qed

text \<open>
  The manual order is rate limited: after an attempt recorded at \<open>t\<close> the cooldown is what is
  left of fifteen minutes, it never exceeds them while the clock does not run backwards, it ends
  exactly when they have passed, and any recorded attempt or issued certificate starts it anew.
\<close>

theorem manual_cooldown:
  assumes "unique_by s_id sites" and "s \<in> set sites" and "t \<le> now" and "now - t < 2 ^ 62"
  shows "ManualIssueCooldown (s\<lparr>s_acmeLastTry := Some t\<rparr>) now = max 0 (ManualIssueWindow - (now - t))
    \<and> ManualIssueCooldown (s\<lparr>s_acmeLastTry := Some t\<rparr>) now \<le> nanos 900
    \<and> (\<exists>r. find_row s_id (s_id s) (snd (RecordACMEAttempt None t (s_id s) failure sites)) = Some r
         \<and> ManualIssueCooldown r t = nanos 900 \<and> s_acmeLastError r = failure)
    \<and> (\<exists>r. find_row s_id (s_id s) (snd (StoreCertificate None t (s_id s) c k e sites)) = Some r
         \<and> ManualIssueCooldown r t = nanos 900 \<and> s_tlsCert r = c \<and> s_tlsKey r = k \<and> s_acmeLastError r = [])"
proof -
  have f: "find_row s_id (s_id s) sites = Some s" using assms(1,2) by (rule find_row_unique)
  have sub: "time_sub now t = now - t" "time_sub t t = 0"
    using assms(3,4) by (simp_all add: time_sub_def)
  have w: "wrap64 (ManualIssueWindow - (now - t)) = ManualIssueWindow - (now - t)"
    "wrap64 ManualIssueWindow = ManualIssueWindow"
    using assms(3,4) by (auto intro!: wrap64_id simp: ManualIssueWindow_def nanos_def)
  have a: "ManualIssueCooldown (s\<lparr>s_acmeLastTry := Some t\<rparr>) now = max 0 (ManualIssueWindow - (now - t))"
    using assms(3) w by (simp add: ManualIssueCooldown_def sub Let_def)
  moreover have "max 0 (ManualIssueWindow - (now - t)) \<le> nanos 900"
    using assms(3) by (simp add: ManualIssueWindow_def nanos_def)
  moreover have "ManualIssueCooldown r t = nanos 900" if "s_acmeLastTry r = Some t" for r
    using that w(2) by (simp add: ManualIssueCooldown_def sub Let_def) (simp add: ManualIssueWindow_def nanos_def)
  moreover have "find_row s_id (s_id s) (snd (RecordACMEAttempt None t (s_id s) failure sites)) =
      Some (s\<lparr>s_acmeLastError := failure, s_acmeLastTry := Some t\<rparr>)"
    by (simp add: RecordACMEAttempt_def exec_plain_def update_rows_find f)
  moreover have "find_row s_id (s_id s) (snd (StoreCertificate None t (s_id s) c k e sites)) =
      Some (s\<lparr>s_tlsCert := c, s_tlsKey := k, s_certExpiresAt := Some e, s_acmeLastError := [],
              s_acmeLastTry := Some t, s_updatedAt := t\<rparr>)"
    using update_rows_find [of s_id "\<lambda>r. r\<lparr>s_tlsCert := c, s_tlsKey := k, s_certExpiresAt := Some e,
        s_acmeLastError := [], s_acmeLastTry := Some t, s_updatedAt := t\<rparr>" "s_id s" "\<lambda>r. s_id r = s_id s" sites]
    by (auto simp: StoreCertificate_def exec_affected_def f split: prod.split)
  ultimately show ?thesis by simp
qed

lemma manual_cooldown_witness:
  "ManualIssueCooldown (demo_site\<lparr>s_acmeLastTry := Some 5\<rparr>) 5 \<le> nanos 900"
  by (rule manual_cooldown [of "[demo_site]", THEN conjunct2, THEN conjunct1]) (simp_all add: unique_by_def)

end
