(* ===== verification/StoreIps.thy ===== *)
theory StoreIps
  imports StoreModels GoNet
begin

section \<open>The store: the block and allow lists\<close>

text \<open>
  \<open>control/internal/store/ips.go\<close>: \<open>NormalizeCIDR\<close> and the operations on the table \<open>ip_entries\<close>,
  whose rows are unique by range and list and carry an optional expiry. The lemmas show what the
  canonical form of an IPv4 address or range is, and that an entry is listed until it expires,
  purged or not.
\<close>

definition NormalizeCIDR :: "string \<Rightarrow> string result" where
  "NormalizeCIDR v0 =
     (let v = trim_space v0
      in if v = [] then Inl (Invalid ''empty address'')
         else if str_contains ''/'' v then
           (case net_parse_cidr v of
              None \<Rightarrow> Inl (InvalidValue ''invalid IP range'' v)
            | Some ipnet \<Rightarrow> Inr (prefix_string ipnet))
         else (case net_parse_ip v of
                 None \<Rightarrow> Inl (InvalidValue ''invalid IP address'' v)
               | Some ip \<Rightarrow> Inr (addr_string ip)))"

record ip_table =
  ipt_next :: int
  ipt_rows :: "ip_entry list"

definition live :: "int \<Rightarrow> ip_entry \<Rightarrow> bool" where
  "live now e = (case ip_expiresAt e of None \<Rightarrow> True | Some x \<Rightarrow> now < x)"

definition ListIPs :: "string option \<Rightarrow> int \<Rightarrow> string \<Rightarrow> ip_table \<Rightarrow> ip_entry list result" where
  "ListIPs db now kind t = query db
     (order_by (\<lambda>e. - ip_createdAt e)
        (filter (\<lambda>e. live now e \<and> (kind \<noteq> [] \<longrightarrow> ip_kind e = kind)) (ipt_rows t)))"

definition ip_key :: "ip_entry \<Rightarrow> string \<times> string" where
  "ip_key e = (ip_cidr e, ip_kind e)"

definition ip_merge :: "ip_entry \<Rightarrow> ip_entry \<Rightarrow> ip_entry" where
  "ip_merge old e = old\<lparr>ip_reason := ip_reason e, ip_expiresAt := ip_expiresAt e\<rparr>"

definition AddIP ::
  "string option \<Rightarrow> int \<Rightarrow> string \<Rightarrow> string \<Rightarrow> string \<Rightarrow> int \<Rightarrow> ip_table \<Rightarrow> ip_entry result \<times> ip_table" where
  "AddIP db now cidr kind reason ttl t =
     (case NormalizeCIDR cidr of
        Inl e \<Rightarrow> (Inl e, t)
      | Inr norm \<Rightarrow>
          if kind \<noteq> ''black'' \<and> kind \<noteq> ''white'' then (Inl (InvalidValue ''invalid list type'' kind), t)
          else (case db of
                  Some msg \<Rightarrow> (Inl (DbFailed msg), t)
                | None \<Rightarrow>
                    (let row = \<lparr>ip_id = ipt_next t, ip_cidr = norm, ip_kind = kind, ip_reason = reason,
                                ip_expiresAt = (if ttl > 0 then Some (now + ttl) else None), ip_createdAt = now\<rparr>;
                         rows = upsert_row ip_key (\<lambda>e. e) ip_merge row (ipt_rows t)
                     in (case find_row ip_key (norm, kind) rows of
                           None \<Rightarrow> (Inl ErrNotFound, t)
                         | Some e \<Rightarrow> (Inr e, \<lparr>ipt_next = ipt_next t + 1, ipt_rows = rows\<rparr>)))))"

definition DeleteIP :: "string option \<Rightarrow> int \<Rightarrow> ip_table \<Rightarrow> unit result \<times> ip_table" where
  "DeleteIP db i t = (case exec_affected db ErrNotFound (delete_rows (\<lambda>e. ip_id e = i) (ipt_rows t)) (ipt_rows t) of
     (r, rows) \<Rightarrow> (r, t\<lparr>ipt_rows := rows\<rparr>))"

definition PurgeExpiredIPs :: "string option \<Rightarrow> int \<Rightarrow> ip_table \<Rightarrow> nat result \<times> ip_table" where
  "PurgeExpiredIPs db now t =
     (case db of Some msg \<Rightarrow> (Inl (DbFailed msg), t)
      | None \<Rightarrow> (case delete_rows (\<lambda>e. case ip_expiresAt e of None \<Rightarrow> False | Some x \<Rightarrow> x \<le> now) (ipt_rows t) of
                   (n, rows) \<Rightarrow> (Inr n, t\<lparr>ipt_rows := rows\<rparr>)))"

interpretation ips: keyed_table ip_key "\<lambda>e. e" ip_merge
  by unfold_locales (simp_all add: ip_key_def ip_merge_def)

subsection \<open>The canonical form\<close>

lemma printed_prefix_chars:
  "c \<in> set (prefix_string (Prefix (V4 w) b)) \<Longrightarrow> is_digit c \<or> c = CHR ''.'' \<or> c = CHR ''/''"
  using v4_string_no_space [of c w] dec_digits_digits [of "int b"]
  by (auto simp: prefix_string_def list_all_iff)

lemma trim_printed_prefix: "trim_space (prefix_string (Prefix (V4 w) b)) = prefix_string (Prefix (V4 w) b)"
proof (rule space_seqs_not_printable)
  fix c
  assume "c \<in> set (prefix_string (Prefix (V4 w) b))"
  then show "33 \<le> byte_of c \<and> byte_of c < 127"
    using printed_prefix_chars [of c w b] by (auto simp: is_digit_def byte_of_def)
qed

lemma net_parse_cidr_printed:
  assumes "b \<le> 32"
  shows "net_parse_cidr (prefix_string (Prefix (V4 w) b)) = Some (masked (Prefix (V4 w) b))"
proof -
  have "cut_at (CHR ''/'') (prefix_string (Prefix (V4 w) b)) = Some (v4_string w, dec_digits (int b))"
    by (simp add: prefix_string_def cut_at_append)
  moreover have "dtoi (dec_digits (int b)) = Some b"
    using assms dec_digits_digits [of "int b"] by (simp add: dtoi_def)
  ultimately show ?thesis using assms by (simp add: net_parse_cidr_def prefix_from_def Let_def masked_def)
qed

lemma NormalizeCIDR_v4: "NormalizeCIDR (v4_string w) = Inr (v4_string w)"
proof -
  have "\<not> str_contains ''/'' (v4_string w)" "v4_string w \<noteq> []"
    using v4_string_no_slash [of w] unfolding str_contains_iff
    by (metis append_Cons append_Nil in_set_conv_decomp) (simp add: v4_string_def)
  then show ?thesis by (simp add: NormalizeCIDR_def net_parse_ip_def Let_def)
qed

text \<open>
  The canonical form of an IPv4 entry: an address is its own canonical form, a range is printed
  with its host bits cleared, covers the same addresses as the range that was typed, and is its own
  canonical form from then on; so two spellings of one range are one row.
\<close>

theorem cidr_canonical:
  assumes "b \<le> 32"
  shows "NormalizeCIDR (v4_string w) = Inr (v4_string w)
    \<and> NormalizeCIDR (prefix_string (Prefix (V4 w) b)) = Inr (prefix_string (masked (Prefix (V4 w) b)))
    \<and> prefix_contains (masked (Prefix (V4 w) b)) a = prefix_contains (Prefix (V4 w) b) a
    \<and> NormalizeCIDR (prefix_string (masked (Prefix (V4 w) b))) = Inr (prefix_string (masked (Prefix (V4 w) b)))"
proof -
  have range: "NormalizeCIDR (prefix_string (Prefix (V4 v) b)) = Inr (prefix_string (masked (Prefix (V4 v) b)))" for v
  proof -
    have "str_contains ''/'' (prefix_string (Prefix (V4 v) b))"
      unfolding str_contains_iff by (auto simp: prefix_string_def)
    moreover have "prefix_string (Prefix (V4 v) b) \<noteq> []" by (simp add: prefix_string_def)
    ultimately show ?thesis
      by (simp add: NormalizeCIDR_def trim_printed_prefix net_parse_cidr_printed [OF assms] Let_def)
  qed
  have m: "masked (Prefix (V4 w) b) = Prefix (V4 (push_bit (32 - b) (drop_bit (32 - b) w))) b"
    by (simp add: masked_def)
  have "NormalizeCIDR (prefix_string (masked (Prefix (V4 w) b))) = Inr (prefix_string (masked (masked (Prefix (V4 w) b))))"
    unfolding m by (rule range)
  then show ?thesis using range NormalizeCIDR_v4 by simp
qed

lemma cidr_canonical_witness:
  "NormalizeCIDR (prefix_string (Prefix (V4 0x0a010203) 8)) = Inr (prefix_string (masked (Prefix (V4 0x0a010203) 8)))"
  using cidr_canonical [of 8 "0x0a010203"] by simp

text \<open>
  An entry holds exactly until it expires. After \<open>AddIP\<close> the listing contains the entry, with
  the identity and age of the row it replaced if there was one, until its time to live has passed
  (for ever when none was given), and not after; the purge changes no listing; entries of the
  other list and other ranges are untouched.
\<close>

theorem ip_entry_lifetime:
  assumes "unique_by ip_key (ipt_rows t)" and "AddIP None now cidr kind reason ttl t = (Inr e, t')"
  shows "e \<in> set (ipt_rows t') \<and> unique_by ip_key (ipt_rows t')
    \<and> ip_reason e = reason \<and> ip_kind e = kind
    \<and> (\<forall>later. live later e \<longleftrightarrow> ttl \<le> 0 \<or> later < now + ttl)
    \<and> (case find_row ip_key (ip_key e) (ipt_rows t) of
         None \<Rightarrow> ip_id e = ipt_next t | Some old \<Rightarrow> ip_id e = ip_id old \<and> ip_createdAt e = ip_createdAt old)
    \<and> (\<forall>later. ListIPs None later k (snd (PurgeExpiredIPs None later t')) = ListIPs None later k t')
    \<and> (other \<noteq> ip_key e \<longrightarrow> find_row ip_key other (ipt_rows t') = find_row ip_key other (ipt_rows t))"
proof -
  obtain norm where n: "NormalizeCIDR cidr = Inr norm" using assms(2) by (auto simp: AddIP_def split: sum.splits)
  define row where "row = \<lparr>ip_id = ipt_next t, ip_cidr = norm, ip_kind = kind, ip_reason = reason,
      ip_expiresAt = (if ttl > 0 then Some (now + ttl) else None), ip_createdAt = now\<rparr>"
  have k: "ip_key row = (norm, kind)" by (simp add: row_def ip_key_def)
  let ?rows = "upsert_row ip_key (\<lambda>e. e) ip_merge row (ipt_rows t)"
  note same = ips.upsert_find_same [of row "ipt_rows t", unfolded k]
  have e: "find_row ip_key (norm, kind) ?rows = Some e" "ipt_rows t' = ?rows"
    using assms(2) n same by (auto simp: AddIP_def Let_def row_def split: if_splits)
  have ek: "ip_key e = (norm, kind)" "e \<in> set ?rows" using find_row_Some [OF e(1)] by auto
  have eq: "e = (case find_row ip_key (norm, kind) (ipt_rows t) of None \<Rightarrow> row | Some old \<Rightarrow> ip_merge old row)"
    using e(1) same by simp
  have body: "ip_reason e = reason \<and> ip_expiresAt e = ip_expiresAt row"
    unfolding eq by (auto simp: ip_merge_def row_def split: option.split)
  have life: "live later e \<longleftrightarrow> ttl \<le> 0 \<or> later < now + ttl" for later
    using body by (auto simp: live_def row_def)
  have ids: "case find_row ip_key (ip_key e) (ipt_rows t) of
         None \<Rightarrow> ip_id e = ipt_next t | Some old \<Rightarrow> ip_id e = ip_id old \<and> ip_createdAt e = ip_createdAt old"
    unfolding ek(1) using eq by (auto simp: ip_merge_def row_def split: option.split)
  have purge: "ListIPs None later k (snd (PurgeExpiredIPs None later t')) = ListIPs None later k t'" for later
  proof -
    have "filter (\<lambda>e. live later e \<and> (k \<noteq> [] \<longrightarrow> ip_kind e = k))
        (filter (\<lambda>e. \<not> (case ip_expiresAt e of None \<Rightarrow> False | Some x \<Rightarrow> x \<le> later)) xs) =
        filter (\<lambda>e. live later e \<and> (k \<noteq> [] \<longrightarrow> ip_kind e = k)) xs" for xs
      by (induction xs) (auto simp: live_def split: option.splits)
    then show ?thesis by (simp add: ListIPs_def PurgeExpiredIPs_def delete_rows_def query_def)
  qed
  have other: "other \<noteq> ip_key e \<longrightarrow> find_row ip_key other ?rows = find_row ip_key other (ipt_rows t)"
    using ips.upsert_find_other [of other row] k ek(1) by simp
  have "unique_by ip_key ?rows" using assms(1) by (rule ips.upsert_unique)
  moreover have "ip_kind e = kind" using ek(1) by (simp add: ip_key_def)
  ultimately show ?thesis using e ek(2) body life ids purge other by simp
qed

lemma ip_entry_lifetime_witness:
  "fst (AddIP None 100 (v4_string 0xcb007109) ''black'' ''x'' 60 \<lparr>ipt_next = 1, ipt_rows = []\<rparr>) =
     Inr \<lparr>ip_id = 1, ip_cidr = v4_string 0xcb007109, ip_kind = ''black'', ip_reason = ''x'',
          ip_expiresAt = Some 160, ip_createdAt = 100\<rparr>
   \<and> live 159 \<lparr>ip_id = 1, ip_cidr = v4_string 0xcb007109, ip_kind = ''black'', ip_reason = ''x'',
          ip_expiresAt = Some 160, ip_createdAt = 100\<rparr>"
proof -
  note n = NormalizeCIDR_v4 [of "0xcb007109"]
  define e where "e = \<lparr>ip_id = 1, ip_cidr = v4_string 0xcb007109, ip_kind = ''black'', ip_reason = ''x'',
          ip_expiresAt = Some 160, ip_createdAt = 100\<rparr>"
  have a: "AddIP None 100 (v4_string 0xcb007109) ''black'' ''x'' 60 \<lparr>ipt_next = 1, ipt_rows = []\<rparr> =
      (Inr e, \<lparr>ipt_next = 2, ipt_rows = [e]\<rparr>)"
    by (simp add: AddIP_def n e_def upsert_row_def find_row_def ip_key_def Let_def)
  have "unique_by ip_key (ipt_rows \<lparr>ipt_next = 1, ipt_rows = []\<rparr>)" by (simp add: unique_by_def)
  from ip_entry_lifetime [OF this a] a show ?thesis by (simp add: e_def [symmetric])
qed

end
