(* ===== verification/StoreSettings.thy ===== *)
theory StoreSettings
  imports StoreIps GoJson
begin

section \<open>The store: the global settings\<close>

text \<open>
  \<open>control/internal/store/settings.go\<close>: \<open>ValidateSettings\<close>, and reading and writing the row \<open>global\<close> of
  the table \<open>settings\<close>. A JSONB value is a \<open>json\<close> value; \<open>overlay_settings\<close> is \<open>json.Unmarshal\<close> into
  the defaults (a key that is missing or null keeps the default, a wrong type is an error),
  \<open>settings_json\<close> is \<open>json.Marshal\<close>. \<open>settings_valid\<close> is what the publisher and the data plane take
  from validation.
\<close>

definition MaxBurstSeconds :: int where "MaxBurstSeconds = 60"

definition prefixBits :: "string \<Rightarrow> nat option" where
  "prefixBits cidr = map_option pfx_bits (parse_prefix cidr)"

definition check_proxy :: "string \<Rightarrow> string result" where
  "check_proxy p =
     (case NormalizeCIDR p of
        Inl e \<Rightarrow> Inl (InvalidValue ''invalid trusted proxy'' p)
      | Inr norm \<Rightarrow> if prefixBits norm = Some 0 then Inl (InvalidValue ''trusts every address'' p) else Inr norm)"

definition settings_defaults :: "settings \<Rightarrow> settings" where
  "settings_defaults st = st\<lparr>st_challengeTTL := max 60 (st_challengeTTL st), st_banSeconds := max 10 (st_banSeconds st),
     st_blockStatus := (if st_blockStatus st < 400 \<or> st_blockStatus st > 599 then 403 else st_blockStatus st)\<rparr>"

definition settings_limits :: "settings \<Rightarrow> settings" where
  "settings_limits st = st\<lparr>st_floodHold := max 10 (st_floodHold st),
     st_maxBodyScan := (if st_maxBodyScan st < 0 \<or> st_maxBodyScan st > 1048576 then 65536 else st_maxBodyScan st),
     st_logRetainDays := (if st_logRetainDays st < 1 then 7 else st_logRetainDays st)\<rparr>"

definition ValidateSettings :: "(string \<Rightarrow> string) \<Rightarrow> settings \<Rightarrow> settings result" where
  "ValidateSettings U st0 =
     (let st = st0\<lparr>st_defaultMode := (if List.member [''protect'', ''monitor'', ''off''] (st_defaultMode st0)
                                        then st_defaultMode st0 else ''protect'')\<rparr>
      in if st_globalRateRPS st < 0 \<or> st_globalRateBurst st < 0 then Inl (Invalid ''rate limits cannot be negative'')
         else let mx = wrap64 (st_globalRateRPS st * MaxBurstSeconds)
              in if st_globalRateRPS st > 0 \<and> st_globalRateBurst st > mx then Inl (Invalid ''a burst cannot take effect'')
                 else let st1 = st\<lparr>st_challengeDifficulty := max 8 (st_challengeDifficulty st)\<rparr>
                      in if st_challengeDifficulty st1 > 24 then
                           Inl (Invalid ''the challenge difficulty is capped at 24 bits'')
                         else let g = NormaliseGeo U (st_geoMode st1) (st_geoCountries st1);
                                  st2 = (settings_defaults st1)\<lparr>st_geoMode := fst g, st_geoCountries := snd g\<rparr>
                              in if st_floodRPS st2 < 0 \<or> st_floodErrorRate st2 < 0 then
                                   Inl (Invalid ''flood thresholds cannot be negative'')
                                 else if st_floodErrorRate st2 > 100 then
                                   Inl (Invalid ''the origin error threshold is a percentage'')
                                 else let st3 = settings_limits st2
                                      in if st_realIPHeader st3 \<noteq> [] \<and> st_trustedProxies st3 = [] then
                                           Inl (InvalidValue ''can only be trusted when trusted_proxies is set'' (st_realIPHeader st3))
                                         else (case map_res check_proxy (st_trustedProxies st3) of
                                                 Inl e \<Rightarrow> Inl e
                                               | Inr ps \<Rightarrow> Inr (st3\<lparr>st_trustedProxies := ps\<rparr>)))"

subsection \<open>Marshalling\<close>

fun json_of_int :: "int \<Rightarrow> json" where "json_of_int i = JNum (itoa i)"

fun json_of_strings :: "string list \<Rightarrow> json" where "json_of_strings ss = JArr (map JStr ss)"

definition settings_json :: "settings \<Rightarrow> json" where
  "settings_json st = JObj
     [(''under_attack'', JBool (st_underAttack st)), (''default_mode'', JStr (st_defaultMode st)),
      (''real_ip_header'', JStr (st_realIPHeader st)), (''trusted_proxies'', json_of_strings (st_trustedProxies st)),
      (''global_rate_rps'', json_of_int (st_globalRateRPS st)), (''global_rate_burst'', json_of_int (st_globalRateBurst st)),
      (''ban_seconds'', json_of_int (st_banSeconds st)),
      (''challenge_difficulty'', json_of_int (st_challengeDifficulty st)),
      (''challenge_ttl'', json_of_int (st_challengeTTL st)), (''block_status'', json_of_int (st_blockStatus st)),
      (''max_body_scan'', json_of_int (st_maxBodyScan st)), (''scan_body'', JBool (st_scanBody st)),
      (''log_allowed'', JBool (st_logAllowed st)), (''log_retain_days'', json_of_int (st_logRetainDays st)),
      (''flood_rps'', json_of_int (st_floodRPS st)), (''flood_error_rate'', json_of_int (st_floodErrorRate st)),
      (''flood_hold'', json_of_int (st_floodHold st)), (''geo_mode'', JStr (st_geoMode st)),
      (''geo_countries'', json_of_strings (st_geoCountries st))]"

definition overlay_settings :: "json \<Rightarrow> settings \<Rightarrow> settings option" where
  "overlay_settings j d = Option.bind (as_struct j) (\<lambda>kvs.
     Option.bind (over_bool kvs ''under_attack'' (st_underAttack d)) (\<lambda>x1.
     Option.bind (over_string kvs ''default_mode'' (st_defaultMode d)) (\<lambda>x2.
     Option.bind (over_string kvs ''real_ip_header'' (st_realIPHeader d)) (\<lambda>x3.
     Option.bind (over_strings kvs ''trusted_proxies'' (st_trustedProxies d)) (\<lambda>x4.
     Option.bind (over_int kvs ''global_rate_rps'' (st_globalRateRPS d)) (\<lambda>x5.
     Option.bind (over_int kvs ''global_rate_burst'' (st_globalRateBurst d)) (\<lambda>x6.
     Option.bind (over_int kvs ''ban_seconds'' (st_banSeconds d)) (\<lambda>x7.
     Option.bind (over_int kvs ''challenge_difficulty'' (st_challengeDifficulty d)) (\<lambda>x8.
     Option.bind (over_int kvs ''challenge_ttl'' (st_challengeTTL d)) (\<lambda>x9.
     Option.bind (over_int kvs ''block_status'' (st_blockStatus d)) (\<lambda>x10.
     Option.bind (over_int kvs ''max_body_scan'' (st_maxBodyScan d)) (\<lambda>x11.
     Option.bind (over_bool kvs ''scan_body'' (st_scanBody d)) (\<lambda>x12.
     Option.bind (over_bool kvs ''log_allowed'' (st_logAllowed d)) (\<lambda>x13.
     Option.bind (over_int kvs ''log_retain_days'' (st_logRetainDays d)) (\<lambda>x14.
     Option.bind (over_int kvs ''flood_rps'' (st_floodRPS d)) (\<lambda>x15.
     Option.bind (over_int kvs ''flood_error_rate'' (st_floodErrorRate d)) (\<lambda>x16.
     Option.bind (over_int kvs ''flood_hold'' (st_floodHold d)) (\<lambda>x17.
     Option.bind (over_string kvs ''geo_mode'' (st_geoMode d)) (\<lambda>x18.
     Option.bind (over_strings kvs ''geo_countries'' (st_geoCountries d)) (\<lambda>x19.
       Some \<lparr>st_underAttack = x1, st_defaultMode = x2, st_realIPHeader = x3, st_trustedProxies = x4,
             st_globalRateRPS = x5, st_globalRateBurst = x6, st_banSeconds = x7, st_challengeDifficulty = x8,
             st_challengeTTL = x9, st_blockStatus = x10, st_maxBodyScan = x11, st_scanBody = x12,
             st_logAllowed = x13, st_logRetainDays = x14, st_floodRPS = x15, st_floodErrorRate = x16,
             st_floodHold = x17, st_geoMode = x18, st_geoCountries = x19\<rparr>))))))))))))))))))))"

subsection \<open>The table\<close>

type_synonym settings_row = "string \<times> json"

definition settingsKey :: string where "settingsKey = ''global''"

definition PutSetting :: "string option \<Rightarrow> string \<Rightarrow> json \<Rightarrow> settings_row list \<Rightarrow> unit result \<times> settings_row list" where
  "PutSetting db k raw t = exec_plain db (upsert_row fst (\<lambda>r. r) (\<lambda>old r. (fst old, snd r)) (k, raw) t) t"

definition GetSetting :: "string option \<Rightarrow> string \<Rightarrow> settings_row list \<Rightarrow> json option result" where
  "GetSetting db k t = query db (map_option snd (find_row fst k t))"

definition SaveSettings :: "string option \<Rightarrow> settings \<Rightarrow> settings_row list \<Rightarrow> unit result \<times> settings_row list" where
  "SaveSettings db st t = exec_plain db
     (upsert_row fst (\<lambda>r. r) (\<lambda>old r. (fst old, snd r)) (settingsKey, settings_json st) t) t"

text \<open>The settings come back in every case; the error is beside them.\<close>

definition GetSettings ::
  "string option \<Rightarrow> string option \<Rightarrow> settings_row list \<Rightarrow> (settings \<times> store_error option) \<times> settings_row list" where
  "GetSettings db1 db2 t =
     (case db1 of
        Some msg \<Rightarrow> ((DefaultSettings, Some (DbFailed msg)), t)
      | None \<Rightarrow>
          (case find_row fst settingsKey t of
             None \<Rightarrow> (case SaveSettings db2 DefaultSettings t of
                        (Inl e, t') \<Rightarrow> ((DefaultSettings, Some e), t')
                      | (Inr _, t') \<Rightarrow> ((DefaultSettings, None), t'))
           | Some (k, raw) \<Rightarrow>
               (case overlay_settings raw DefaultSettings of
                  None \<Rightarrow> ((DefaultSettings, Some (Invalid ''the stored configuration is corrupt'')), t)
                | Some st \<Rightarrow> ((st, None), t))))"

interpretation settings: keyed_table "fst :: settings_row \<Rightarrow> string" "\<lambda>r. r" "\<lambda>old r. (fst old, snd r)"
  by unfold_locales simp_all

subsection \<open>What validation guarantees\<close>

definition settings_valid :: "settings \<Rightarrow> bool" where
  "settings_valid st \<longleftrightarrow> st_defaultMode st \<in> {''protect'', ''monitor'', ''off''}
     \<and> 0 \<le> st_globalRateRPS st \<and> 0 \<le> st_globalRateBurst st
     \<and> (0 < st_globalRateRPS st \<longrightarrow> st_globalRateBurst st \<le> wrap64 (st_globalRateRPS st * 60))
     \<and> 8 \<le> st_challengeDifficulty st \<and> st_challengeDifficulty st \<le> 24 \<and> 60 \<le> st_challengeTTL st
     \<and> 10 \<le> st_banSeconds st \<and> 400 \<le> st_blockStatus st \<and> st_blockStatus st \<le> 599
     \<and> 0 \<le> st_floodRPS st \<and> 0 \<le> st_floodErrorRate st \<and> st_floodErrorRate st \<le> 100 \<and> 10 \<le> st_floodHold st
     \<and> 0 \<le> st_maxBodyScan st \<and> st_maxBodyScan st \<le> 1048576 \<and> 1 \<le> st_logRetainDays st
     \<and> geo_normal (st_geoMode st, st_geoCountries st)
     \<and> (st_realIPHeader st \<noteq> [] \<longrightarrow> st_trustedProxies st \<noteq> [])
     \<and> list_all (\<lambda>p. prefixBits p \<noteq> Some 0) (st_trustedProxies st)"

lemma check_proxies:
  "map_res check_proxy ps = Inr qs \<Longrightarrow> list_all (\<lambda>p. prefixBits p \<noteq> Some 0) qs \<and> (qs = []) = (ps = [])"
  by (induction ps arbitrary: qs) (auto simp: check_proxy_def split: sum.splits if_splits)

text \<open>The settings as they are once every guard has passed, before the proxies are replaced.\<close>

definition settings_shape :: "(string \<Rightarrow> string) \<Rightarrow> settings \<Rightarrow> settings" where
  "settings_shape U st0 =
     (let st = st0\<lparr>st_defaultMode := (if List.member [''protect'', ''monitor'', ''off''] (st_defaultMode st0)
                                        then st_defaultMode st0 else ''protect'')\<rparr>;
          st1 = st\<lparr>st_challengeDifficulty := max 8 (st_challengeDifficulty st)\<rparr>;
          g = NormaliseGeo U (st_geoMode st1) (st_geoCountries st1)
      in settings_limits ((settings_defaults st1)\<lparr>st_geoMode := fst g, st_geoCountries := snd g\<rparr>))"

lemma settings_defaults_keep [simp]:
  "st_floodRPS (settings_defaults st) = st_floodRPS st"
  "st_floodErrorRate (settings_defaults st) = st_floodErrorRate st"
  "st_realIPHeader (settings_limits st) = st_realIPHeader st"
  "st_trustedProxies (settings_limits st) = st_trustedProxies st"
  "st_realIPHeader (settings_defaults st) = st_realIPHeader st"
  "st_trustedProxies (settings_defaults st) = st_trustedProxies st"
  by (simp_all add: settings_defaults_def settings_limits_def)

lemma ValidateSettings_Inr:
  assumes "ValidateSettings U st = Inr st'"
  shows "\<exists>ps. map_res check_proxy (st_trustedProxies st) = Inr ps
    \<and> st' = (settings_shape U st)\<lparr>st_trustedProxies := ps\<rparr>
    \<and> 0 \<le> st_globalRateRPS st \<and> 0 \<le> st_globalRateBurst st
    \<and> (0 < st_globalRateRPS st \<longrightarrow> st_globalRateBurst st \<le> wrap64 (st_globalRateRPS st * 60))
    \<and> st_challengeDifficulty st \<le> 24 \<and> 0 \<le> st_floodRPS st \<and> 0 \<le> st_floodErrorRate st
    \<and> st_floodErrorRate st \<le> 100 \<and> (st_realIPHeader st \<noteq> [] \<longrightarrow> st_trustedProxies st \<noteq> [])"
proof -
  have g: "0 \<le> st_globalRateRPS st" "0 \<le> st_globalRateBurst st"
    "0 < st_globalRateRPS st \<longrightarrow> st_globalRateBurst st \<le> wrap64 (st_globalRateRPS st * 60)"
    "st_challengeDifficulty st \<le> 24" "0 \<le> st_floodRPS st" "0 \<le> st_floodErrorRate st"
    "st_floodErrorRate st \<le> 100" "st_realIPHeader st \<noteq> [] \<longrightarrow> st_trustedProxies st \<noteq> []"
    using assms unfolding ValidateSettings_def Let_def MaxBurstSeconds_def
    by (simp_all split: if_splits) (linarith | blast)+
  obtain ps where ps: "map_res check_proxy (st_trustedProxies st) = Inr ps"
    using assms unfolding ValidateSettings_def Let_def
    by (cases "map_res check_proxy (st_trustedProxies st)") (simp_all split: if_splits)
  have "st' = (settings_shape U st)\<lparr>st_trustedProxies := ps\<rparr>"
    using assms unfolding ValidateSettings_def settings_shape_def Let_def by (auto simp: ps split: if_splits)
  then show ?thesis using g ps by blast
qed

lemma ValidateSettings_ok:
  assumes "ValidateSettings U st = Inr st'"
  shows "settings_valid st' \<and> st_underAttack st' = st_underAttack st \<and> st_globalRateRPS st' = st_globalRateRPS st
    \<and> st_globalRateBurst st' = st_globalRateBurst st"
proof -
  obtain ps where ps: "map_res check_proxy (st_trustedProxies st) = Inr ps"
    and st': "st' = (settings_shape U st)\<lparr>st_trustedProxies := ps\<rparr>"
    and g: "0 \<le> st_globalRateRPS st" "0 \<le> st_globalRateBurst st"
      "0 < st_globalRateRPS st \<longrightarrow> st_globalRateBurst st \<le> wrap64 (st_globalRateRPS st * 60)"
      "st_challengeDifficulty st \<le> 24" "0 \<le> st_floodRPS st" "0 \<le> st_floodErrorRate st"
      "st_floodErrorRate st \<le> 100" "st_realIPHeader st \<noteq> [] \<longrightarrow> st_trustedProxies st \<noteq> []"
    using ValidateSettings_Inr [OF assms] by metis
  have "geo_normal (fst (NormaliseGeo U (st_geoMode st) (st_geoCountries st)),
      snd (NormaliseGeo U (st_geoMode st) (st_geoCountries st)))" using geo_normal_result [of U] by simp
  then show ?thesis
    unfolding st' settings_valid_def settings_shape_def settings_limits_def settings_defaults_def Let_def
    using g check_proxies [OF ps] by simp
qed

text \<open>
  C33 Accepted settings are in force as displayed. Whatever was posted, validated settings have
  every number inside the range the engine honours, a burst it can pay off within a minute, a
  normal country rule, and no real-IP header without a list of proxies, none of which is the
  whole address space.
\<close>

theorem ValidateSettings_valid:
  assumes "ValidateSettings U st = Inr st'"
  shows "settings_valid st' \<and> st_underAttack st' = st_underAttack st \<and> st_globalRateRPS st' = st_globalRateRPS st
    \<and> st_globalRateBurst st' = st_globalRateBurst st"
  using assms by (rule ValidateSettings_ok)

lemma ValidateSettings_valid_witness: "settings_valid DefaultSettings"
proof -
  have "ValidateSettings (\<lambda>s. s) DefaultSettings = Inr DefaultSettings" by code_simp
  from ValidateSettings_valid [OF this] show ?thesis by blast
qed


text \<open>
  The refusal of a list that trusts every address looks at one entry at a time: the two halves
  of the address space are accepted together, with a real-IP header, and every IPv4 address is in
  one of them.
\<close>

theorem trusted_proxy_halves:
  "ValidateSettings (\<lambda>s. s) (DefaultSettings\<lparr>st_realIPHeader := ''X-Real-IP'',
       st_trustedProxies := [''0.0.0.0/1'', ''128.0.0.0/1'']\<rparr>) =
     Inr (DefaultSettings\<lparr>st_realIPHeader := ''X-Real-IP'', st_trustedProxies := [''0.0.0.0/1'', ''128.0.0.0/1'']\<rparr>)
   \<and> (prefix_contains (Prefix (V4 0) 1) (V4 w) \<or> prefix_contains (Prefix (V4 0x80000000) 1) (V4 w))
   \<and> parse_prefix ''0.0.0.0/1'' = Some (Prefix (V4 0) 1) \<and> parse_prefix ''128.0.0.0/1'' = Some (Prefix (V4 0x80000000) 1)"
proof (intro conjI)
  show "ValidateSettings (\<lambda>s. s) (DefaultSettings\<lparr>st_realIPHeader := ''X-Real-IP'',
       st_trustedProxies := [''0.0.0.0/1'', ''128.0.0.0/1'']\<rparr>) =
     Inr (DefaultSettings\<lparr>st_realIPHeader := ''X-Real-IP'', st_trustedProxies := [''0.0.0.0/1'', ''128.0.0.0/1'']\<rparr>)"
    by code_simp
  show "parse_prefix ''0.0.0.0/1'' = Some (Prefix (V4 0) 1)"
    "parse_prefix ''128.0.0.0/1'' = Some (Prefix (V4 0x80000000) 1)" by code_simp+
  have d: "drop_bit 31 w = 0 \<or> drop_bit 31 w = (1 :: 32 word)"
  proof -
    have "uint w < 2 ^ 32" "0 \<le> uint w" using uint_lt2p [of w] by simp_all
    then have "uint w div 2 ^ 31 = 0 \<or> uint w div 2 ^ 31 = 1" by auto
    then have "uint (drop_bit 31 w) = 0 \<or> uint (drop_bit 31 w) = 1"
      by (simp add: drop_bit_eq_div uint_div_distrib unsigned_drop_bit_eq)
    then show ?thesis by (auto simp: word_uint_eq_iff)
  qed
  have "drop_bit 31 (0x80000000 :: 32 word) = 1" by code_simp
  with d show "prefix_contains (Prefix (V4 0) 1) (V4 w) \<or> prefix_contains (Prefix (V4 0x80000000) 1) (V4 w)"
    by (auto simp: prefix_contains_V4 simp del: prefix_contains.simps)
qed

subsection \<open>Saved settings are read back\<close>

lemma jfield_snoc:
  "jfield name (kvs @ [(k, v)]) = (if fold_name k = fold_name name \<and> v \<noteq> JNull then v else jfield name kvs)"
  by (cases "filter (\<lambda>(k, v). fold_name k = fold_name name \<and> v \<noteq> JNull) kvs") (auto simp: jfield_def)

lemma jfield_folded:
  "list_all (\<lambda>(k, v). fold_name k = k \<and> v \<noteq> JNull) kvs \<Longrightarrow> fold_name name = name \<Longrightarrow>
   jfield name kvs = (case map_of (rev kvs) name of None \<Rightarrow> JNull | Some v \<Rightarrow> v)"
proof (induction kvs rule: rev_induct)
  case Nil
  then show ?case by (simp add: jfield_def)
next
  case (snoc e kvs)
  then show ?case by (cases e) (auto simp: jfield_snoc)
qed

lemma jlast_folded:
  "list_all (\<lambda>(k, v). fold_name k = k) kvs \<Longrightarrow> fold_name name = name \<Longrightarrow> jlast name kvs = map_of (rev kvs) name"
proof (induction kvs rule: rev_induct)
  case Nil
  then show ?case by (simp add: jlast_def)
next
  case (snoc e kvs)
  then show ?case
    by (cases e; cases "filter (\<lambda>(k, v). fold_name k = fold_name name) kvs") (auto simp: jlast_def)
qed

definition settings_names :: "string list" where
  "settings_names = [''under_attack'', ''default_mode'', ''real_ip_header'', ''trusted_proxies'', ''global_rate_rps'',
     ''global_rate_burst'', ''ban_seconds'', ''challenge_difficulty'', ''challenge_ttl'', ''block_status'',
     ''max_body_scan'', ''scan_body'', ''log_allowed'', ''log_retain_days'', ''flood_rps'', ''flood_error_rate'',
     ''flood_hold'', ''geo_mode'', ''geo_countries'']"

lemma settings_names_folded: "list_all (\<lambda>k. fold_name k = k) settings_names"
  by code_simp

lemma settings_keys: "map fst (case settings_json st of JObj kvs \<Rightarrow> kvs) = settings_names"
  by (simp add: settings_json_def settings_names_def)

lemma settings_field:
  assumes "settings_json st = JObj kvs" and "name \<in> set settings_names"
  shows "jfield name kvs = (case map_of (rev kvs) name of None \<Rightarrow> JNull | Some v \<Rightarrow> v)"
proof (rule jfield_folded)
  have k: "map fst kvs = settings_names" using settings_keys [of st] assms(1) by simp
  have "\<forall>k \<in> set (map fst kvs). fold_name k = k"
    using settings_names_folded unfolding k list_all_iff .
  moreover have "\<forall>(k, v) \<in> set kvs. v \<noteq> JNull" using assms(1) by (auto simp: settings_json_def)
  ultimately show "list_all (\<lambda>(k, v). fold_name k = k \<and> v \<noteq> JNull) kvs" by (auto simp: list_all_iff)
  show "fold_name name = name" using settings_names_folded assms(2) by (auto simp: list_all_iff)
qed

lemma opt_all_strings: "opt_all as_string (map JStr ss) = Some ss"
  by (induction ss) auto

definition int64 :: "int \<Rightarrow> bool" where "int64 i \<longleftrightarrow> - (2 ^ 63) \<le> i \<and> i < 2 ^ 63"

definition settings_int64 :: "settings \<Rightarrow> bool" where
  "settings_int64 st \<longleftrightarrow> list_all int64
     [st_globalRateRPS st, st_globalRateBurst st, st_banSeconds st, st_challengeDifficulty st, st_challengeTTL st,
      st_blockStatus st, st_maxBodyScan st, st_logRetainDays st, st_floodRPS st, st_floodErrorRate st, st_floodHold st]"

lemma settings_slice:
  assumes "settings_json st = JObj kvs" and "name \<in> set settings_names"
  shows "jlast name kvs = map_of (rev kvs) name"
proof (rule jlast_folded)
  have k: "map fst kvs = settings_names" using settings_keys [of st] assms(1) by simp
  have "\<forall>k \<in> set (map fst kvs). fold_name k = k"
    using settings_names_folded unfolding k list_all_iff .
  then show "list_all (\<lambda>(k, v). fold_name k = k) kvs" by (auto simp: list_all_iff)
  show "fold_name name = name" using settings_names_folded assms(2) by (auto simp: list_all_iff)
qed

lemma overlay_settings_json:
  assumes "settings_int64 st"
  shows "overlay_settings (settings_json st) d = Some st"
proof -
  obtain kvs where kvs: "settings_json st = JObj kvs" by (simp add: settings_json_def)
  note f = settings_field [OF kvs, unfolded settings_names_def]
  have k: "kvs = (case settings_json st of JObj kvs \<Rightarrow> kvs)" using kvs by simp
  have i: "as_int (json_of_int n) = Some n" if "int64 n" for n
    using that atoi_itoa by (simp add: int64_def)
  have jf: "jfield ''under_attack'' kvs = JBool (st_underAttack st)" "jfield ''default_mode'' kvs = JStr (st_defaultMode st)"
    "jfield ''real_ip_header'' kvs = JStr (st_realIPHeader st)"
    "jfield ''global_rate_rps'' kvs = JNum (itoa (st_globalRateRPS st))"
    "jfield ''global_rate_burst'' kvs = JNum (itoa (st_globalRateBurst st))"
    "jfield ''ban_seconds'' kvs = JNum (itoa (st_banSeconds st))"
    "jfield ''challenge_difficulty'' kvs = JNum (itoa (st_challengeDifficulty st))"
    "jfield ''challenge_ttl'' kvs = JNum (itoa (st_challengeTTL st))"
    "jfield ''block_status'' kvs = JNum (itoa (st_blockStatus st))"
    "jfield ''max_body_scan'' kvs = JNum (itoa (st_maxBodyScan st))"
    "jfield ''scan_body'' kvs = JBool (st_scanBody st)" "jfield ''log_allowed'' kvs = JBool (st_logAllowed st)"
    "jfield ''log_retain_days'' kvs = JNum (itoa (st_logRetainDays st))"
    "jfield ''flood_rps'' kvs = JNum (itoa (st_floodRPS st))"
    "jfield ''flood_error_rate'' kvs = JNum (itoa (st_floodErrorRate st))"
    "jfield ''flood_hold'' kvs = JNum (itoa (st_floodHold st))" "jfield ''geo_mode'' kvs = JStr (st_geoMode st)"
    by (subst f, simp, simp add: k settings_json_def)+
  note sl = settings_slice [OF kvs, unfolded settings_names_def]
  have js: "jlast ''trusted_proxies'' kvs = Some (JArr (map JStr (st_trustedProxies st)))"
    "jlast ''geo_countries'' kvs = Some (JArr (map JStr (st_geoCountries st)))"
    by (subst sl, simp, simp add: k settings_json_def)+
  have ints: "atoi (itoa (st_globalRateRPS st)) = Some (st_globalRateRPS st)"
    "atoi (itoa (st_globalRateBurst st)) = Some (st_globalRateBurst st)"
    "atoi (itoa (st_banSeconds st)) = Some (st_banSeconds st)"
    "atoi (itoa (st_challengeDifficulty st)) = Some (st_challengeDifficulty st)"
    "atoi (itoa (st_challengeTTL st)) = Some (st_challengeTTL st)"
    "atoi (itoa (st_blockStatus st)) = Some (st_blockStatus st)"
    "atoi (itoa (st_maxBodyScan st)) = Some (st_maxBodyScan st)"
    "atoi (itoa (st_logRetainDays st)) = Some (st_logRetainDays st)"
    "atoi (itoa (st_floodRPS st)) = Some (st_floodRPS st)"
    "atoi (itoa (st_floodErrorRate st)) = Some (st_floodErrorRate st)"
    "atoi (itoa (st_floodHold st)) = Some (st_floodHold st)"
    using assms by (simp_all add: settings_int64_def int64_def atoi_itoa)
  show ?thesis unfolding kvs
    by (simp add: overlay_settings_def over_bool_def over_string_def over_int_def over_strings_def jf js ints opt_all_strings)
qed

text \<open>
  Saving and reading are inverse: settings with 64-bit numbers that were saved are what
  \<open>GetSettings\<close> returns next, without an error, and no other row of the table changes; on an empty
  table the defaults are stored and returned; and a stored value from before a field existed keeps
  the default for it.
\<close>

theorem settings_roundtrip:
  assumes "settings_int64 st" and "SaveSettings None st t = (Inr u, t')"
  shows "GetSettings None db2 t' = ((st, None), t')
    \<and> (k \<noteq> ''global'' \<longrightarrow> GetSetting None k t' = GetSetting None k t)
    \<and> GetSettings None None [] = ((DefaultSettings, None), [(''global'', settings_json DefaultSettings)])
    \<and> overlay_settings (JObj []) DefaultSettings = Some DefaultSettings"
proof -
  let ?r = "(settingsKey, settings_json st)"
  have t': "t' = upsert_row fst (\<lambda>r. r) (\<lambda>old r. (fst old, snd r)) ?r t"
    using assms(2) by (simp add: SaveSettings_def exec_plain_def)
  obtain v where v: "find_row fst settingsKey t' = Some (settingsKey, settings_json st)"
    using settings.upsert_find_same [of ?r t] find_row_Some [of fst settingsKey t]
    by (cases "find_row fst settingsKey t") (auto simp: t')
  have "GetSettings None db2 t' = ((st, None), t')"
    by (simp add: GetSettings_def v overlay_settings_json [OF assms(1)])
  moreover have "k \<noteq> ''global'' \<longrightarrow> GetSetting None k t' = GetSetting None k t"
    using settings.upsert_find_other [of k ?r t] by (simp add: GetSetting_def t' settingsKey_def)
  moreover have "GetSettings None None [] = ((DefaultSettings, None), [(''global'', settings_json DefaultSettings)])"
    by (simp add: GetSettings_def find_row_def SaveSettings_def exec_plain_def upsert_row_def settingsKey_def)
  moreover have "overlay_settings (JObj []) DefaultSettings = Some DefaultSettings"
    by (simp add: overlay_settings_def over_bool_def over_string_def over_int_def over_strings_def jfield_def jlast_def)
  ultimately show ?thesis by blast
qed

lemma settings_roundtrip_witness:
  "GetSettings None None (snd (SaveSettings None DefaultSettings [])) =
     ((DefaultSettings, None), [(''global'', settings_json DefaultSettings)])"
proof -
  have i: "settings_int64 DefaultSettings" by (simp add: settings_int64_def int64_def DefaultSettings_def)
  have s: "SaveSettings None DefaultSettings [] = (Inr (), [(''global'', settings_json DefaultSettings)])"
    by (simp add: SaveSettings_def exec_plain_def upsert_row_def settingsKey_def)
  show ?thesis using settings_roundtrip [OF i s, of None] s by simp
qed

end
