(* ===== verification/StoreAccessRules.thy ===== *)
theory StoreAccessRules
  imports StoreSites
begin

section \<open>The store: ordered access rules\<close>

text \<open>
  \<open>control/internal/store/accessrules.go\<close>: the rule and its conditions, \<open>ValidateAccessRule\<close> with
  \<open>validateCondition\<close> and \<open>validateAllow\<close>, the operations on the table \<open>access_rules\<close>, the
  transaction \<open>ReorderAccessRules\<close> and \<open>RuleCountries\<close>. The lemmas give the shape of an accepted rule,
  in particular of an accepted allow rule, and the order the rules are listed in.
\<close>

definition MaxAccessRules :: int where "MaxAccessRules = 200"
definition MaxRuleConditions :: nat where "MaxRuleConditions = 10"
definition MaxConditionValues :: nat where "MaxConditionValues = 50"
definition maxConditionValue :: nat where "maxConditionValue = 256"
definition maxAccessRuleName :: nat where "maxAccessRuleName = 120"

record rule_condition =
  rc_field :: string
  rc_op :: string
  rc_values :: "string list"

record access_rule =
  ar_id :: string
  ar_name :: string
  ar_action :: string
  ar_priority :: int
  ar_enabled :: bool
  ar_siteID :: string
  ar_conditions :: "rule_condition list"
  ar_createdAt :: int
  ar_updatedAt :: int

definition conditionOps :: "(string \<times> string list) list" where
  "conditionOps = [(''ip'', [''in_cidr'']), (''country'', [''in'']), (''crawler'', [''is'']),
     (''path'', [''prefix'', ''equals'', ''contains'']), (''host'', [''equals'', ''suffix'']),
     (''ua'', [''contains'', ''equals'']), (''method'', [''in''])]"

definition allowFields :: "string list" where
  "allowFields = [''ip'', ''crawler'']"

definition parseRulePrefix :: "string \<Rightarrow> ipprefix option" where
  "parseRulePrefix v =
     (if str_contains ''/'' v then map_option masked (parse_prefix v)
      else map_option (\<lambda>a. prefix_from a (bit_len a)) (parse_addr v))"

text \<open>The loop that keeps the usable values, at most fifty.\<close>

fun clean_values :: "string list \<Rightarrow> string list \<Rightarrow> string list" where
  "clean_values [] out = out"
| "clean_values (v0 # vs) out =
     (let v = trim_space v0
      in if v = [] \<or> length v > maxConditionValue \<or> hasControlChar v then clean_values vs out
         else if length (out @ [v]) \<ge> MaxConditionValues then out @ [v]
         else clean_values vs (out @ [v]))"

definition ip_value :: "string \<Rightarrow> string result" where
  "ip_value v = (case parseRulePrefix v of None \<Rightarrow> Inl (InvalidValue ''is not an address or range'' v)
     | Some p \<Rightarrow> Inr (prefix_string p))"

definition country_value :: "(string \<Rightarrow> string) \<Rightarrow> string \<Rightarrow> string result" where
  "country_value U v0 = (let v = go_to_upper U v0
     in if length v \<noteq> 2 \<or> \<not> list_all is_upper v then Inl (InvalidValue ''is not a two-letter country code'' v) else Inr v)"

definition method_value :: "(string \<Rightarrow> string) \<Rightarrow> string \<Rightarrow> string result" where
  "method_value U v0 = (let v = go_to_upper U v0
     in if contains_any [CHR '' '', CHR 0x09] v then Inl (InvalidValue ''is not a method'' v) else Inr v)"

definition check_values :: "(string \<Rightarrow> string) \<Rightarrow> (string \<Rightarrow> string) \<Rightarrow> string \<Rightarrow> string list \<Rightarrow> string list result" where
  "check_values L U field clean =
     (if field = ''ip'' then map_res ip_value clean
      else if field = ''country'' then map_res (country_value U) clean
      else if field = ''method'' then map_res (method_value U) clean
      else if field = ''crawler'' then
        (if length clean \<noteq> 1 \<or> (hd clean \<noteq> ''true'' \<and> hd clean \<noteq> ''false'')
         then Inl (Invalid ''the crawler condition must be true or false'') else Inr clean)
      else if field = ''host'' then Inr (map (go_to_lower L) clean)
      else Inr clean)"

definition validateCondition :: "(string \<Rightarrow> string) \<Rightarrow> (string \<Rightarrow> string) \<Rightarrow> rule_condition \<Rightarrow> rule_condition result" where
  "validateCondition L U c0 =
     (let field = go_to_lower L (trim_space (rc_field c0)); opn = go_to_lower L (trim_space (rc_op c0))
      in (case map_of conditionOps field of
            None \<Rightarrow> Inl (InvalidValue ''unknown condition field'' field)
          | Some ops \<Rightarrow>
              if \<not> List.member ops opn then Inl (InvalidValue ''cannot be tested with'' opn)
              else (let clean = clean_values (rc_values c0) []
                    in if clean = [] then Inl (InvalidValue ''the condition has no values'' field)
                       else (case check_values L U field clean of
                               Inl e \<Rightarrow> Inl e
                             | Inr vs \<Rightarrow> Inr \<lparr>rc_field = field, rc_op = opn, rc_values = vs\<rparr>))))"

fun check_allow_values :: "string list \<Rightarrow> unit result" where
  "check_allow_values [] = Inr ()"
| "check_allow_values (v # vs) =
     (case parseRulePrefix v of
        None \<Rightarrow> Inl (InvalidValue ''is not an address or range'' v)
      | Some p \<Rightarrow> if pfx_bits p = 0 then Inl (InvalidValue ''covers every address'' v) else check_allow_values vs)"

definition allow_condition :: "rule_condition \<Rightarrow> unit result" where
  "allow_condition c =
     (if \<not> List.member allowFields (rc_field c) then
        Inl (InvalidValue ''an allow rule cannot be matched on'' (rc_field c))
      else (case (if rc_field c = ''ip'' then check_allow_values (rc_values c) else Inr ()) of
              Inl e \<Rightarrow> Inl e
            | Inr _ \<Rightarrow> if rc_field c = ''crawler'' \<and> rc_values c = [''false'']
                       then Inl (Invalid ''an allow rule on not a verified crawler'') else Inr ()))"

definition validateAllow :: "rule_condition list \<Rightarrow> unit result" where
  "validateAllow cs = check_all allow_condition cs"

definition clamp_priority :: "int \<Rightarrow> int" where
  "clamp_priority p = (let q = (if p < 0 then 0 else p) in if q > 100000 then 100000 else q)"

definition ValidateAccessRule :: "(string \<Rightarrow> string) \<Rightarrow> (string \<Rightarrow> string) \<Rightarrow> access_rule \<Rightarrow> access_rule result" where
  "ValidateAccessRule L U r =
     (let name = trim_space (ar_name r)
      in if name = [] then Inl (Invalid ''the rule needs a name'')
         else if length name > maxAccessRuleName then Inl (Invalid ''the name is too long'')
         else if hasControlChar name then Inl (Invalid ''the name cannot contain line breaks or control characters'')
         else if \<not> List.member [''allow'', ''deny'', ''challenge'', ''log''] (ar_action r) then
           Inl (InvalidValue ''unknown action'' (ar_action r))
         else if ar_conditions r = [] then Inl (Invalid ''the rule needs at least one condition'')
         else if length (ar_conditions r) > MaxRuleConditions then Inl (Invalid ''a rule may have at most 10 conditions'')
         else (case map_res (validateCondition L U) (ar_conditions r) of
                 Inl e \<Rightarrow> Inl e
               | Inr cs \<Rightarrow>
                   (case (if ar_action r = ''allow'' then validateAllow cs else Inr ()) of
                      Inl e \<Rightarrow> Inl e
                    | Inr _ \<Rightarrow> Inr (r\<lparr>ar_name := name, ar_conditions := cs, ar_siteID := trim_space (ar_siteID r),
                                       ar_priority := clamp_priority (ar_priority r)\<rparr>))))"

subsection \<open>The table\<close>

definition rule_order :: "access_rule list \<Rightarrow> access_rule list" where
  "rule_order t = order_by ar_priority (order_by ar_createdAt t)"

definition ListAccessRules :: "string option \<Rightarrow> string \<Rightarrow> access_rule list \<Rightarrow> access_rule list result" where
  "ListAccessRules db siteID t = query db
     (rule_order (filter (\<lambda>r. siteID \<noteq> [] \<longrightarrow> ar_siteID r = siteID) t))"

definition GetAccessRule :: "string option \<Rightarrow> string \<Rightarrow> access_rule list \<Rightarrow> access_rule result" where
  "GetAccessRule db k t = query_row db ErrNotFound (find_row ar_id k t)"

definition ar_ins :: "int \<Rightarrow> access_rule \<Rightarrow> access_rule" where
  "ar_ins now r = r\<lparr>ar_createdAt := now, ar_updatedAt := now\<rparr>"

definition ar_merge :: "int \<Rightarrow> access_rule \<Rightarrow> access_rule \<Rightarrow> access_rule" where
  "ar_merge now old r = r\<lparr>ar_createdAt := ar_createdAt old, ar_updatedAt := now\<rparr>"

definition UpsertAccessRule ::
  "(string \<Rightarrow> string) \<Rightarrow> (string \<Rightarrow> string) \<Rightarrow> string option \<Rightarrow> int \<Rightarrow> access_rule \<Rightarrow> access_rule list \<Rightarrow> unit result \<times> access_rule list" where
  "UpsertAccessRule L U db now r0 t =
     (case ValidateAccessRule L U r0 of
        Inl e \<Rightarrow> (Inl e, t)
      | Inr r \<Rightarrow> exec_plain db (upsert_row ar_id (ar_ins now) (ar_merge now) r t) t)"

definition DeleteAccessRule :: "string option \<Rightarrow> string \<Rightarrow> access_rule list \<Rightarrow> unit result \<times> access_rule list" where
  "DeleteAccessRule db k t = exec_affected db ErrNotFound (delete_rows (\<lambda>r. ar_id r = k) t) t"

definition CountAccessRules :: "string option \<Rightarrow> access_rule list \<Rightarrow> int result" where
  "CountAccessRules db t = query db (int (length t))"

text \<open>
  The transaction: \<open>stmt i\<close> is the error of the i-th UPDATE. Rolled back, it leaves the table as it
  was.
\<close>

fun reorder_loop :: "(nat \<Rightarrow> string option) \<Rightarrow> int \<Rightarrow> nat \<Rightarrow> string list \<Rightarrow> access_rule list \<Rightarrow> string + access_rule list" where
  "reorder_loop stmt now i [] t = Inr t"
| "reorder_loop stmt now i (k # ks) t =
     (case stmt i of
        Some msg \<Rightarrow> Inl msg
      | None \<Rightarrow> reorder_loop stmt now (Suc i) ks
          (snd (update_rows (\<lambda>r. ar_id r = k) (\<lambda>r. r\<lparr>ar_priority := int i + 1, ar_updatedAt := now\<rparr>) t)))"

definition ReorderAccessRules ::
  "string option \<Rightarrow> (nat \<Rightarrow> string option) \<Rightarrow> string option \<Rightarrow> int \<Rightarrow> string list \<Rightarrow> access_rule list \<Rightarrow> unit result \<times> access_rule list" where
  "ReorderAccessRules db stmt commit now ids t =
     (case db of
        Some msg \<Rightarrow> (Inl (DbFailed msg), t)
      | None \<Rightarrow> (case reorder_loop stmt now 0 ids t of
                   Inl msg \<Rightarrow> (Inl (DbFailed msg), t)
                 | Inr t' \<Rightarrow> (case commit of Some msg \<Rightarrow> (Inl (DbFailed msg), t) | None \<Rightarrow> (Inr (), t'))))"

definition RuleCountries :: "access_rule list \<Rightarrow> string list" where
  "RuleCountries rules = dedup_by (\<lambda>v. v) []
     (concat (map (\<lambda>r. concat (map rc_values (filter (\<lambda>c. rc_field c = ''country'') (ar_conditions r))))
        (filter ar_enabled rules)))"

interpretation access_rules: keyed_table ar_id "ar_ins now" "ar_merge now" for now
  by unfold_locales (simp_all add: ar_ins_def ar_merge_def)


subsection \<open>The shape of an accepted rule\<close>

definition condition_ok :: "rule_condition \<Rightarrow> bool" where
  "condition_ok c \<longleftrightarrow> (\<exists>ops. map_of conditionOps (rc_field c) = Some ops \<and> rc_op c \<in> set ops)
     \<and> rc_values c \<noteq> [] \<and> length (rc_values c) \<le> 50
     \<and> (rc_field c = ''ip'' \<longrightarrow> list_all (\<lambda>v. \<exists>p. v = prefix_string p) (rc_values c))
     \<and> (rc_field c = ''country'' \<longrightarrow> list_all two_letters (rc_values c))
     \<and> (rc_field c = ''crawler'' \<longrightarrow> rc_values c = [''true''] \<or> rc_values c = [''false''])"

lemma clean_values_bound:
  "length out < 50 \<Longrightarrow> length (clean_values vs out) \<le> 50"
  by (induction vs out rule: clean_values.induct) (auto simp: Let_def MaxConditionValues_def)

lemma map_res_length: "map_res f xs = Inr ys \<Longrightarrow> length ys = length xs"
  by (drule map_res_Inr) (rule sym, rule list_all2_lengthD)

lemma check_values_ok:
  assumes "check_values L U field clean = Inr vs" "clean \<noteq> []" "length clean \<le> 50"
  shows "vs \<noteq> [] \<and> length vs \<le> 50
    \<and> (field = ''ip'' \<longrightarrow> list_all (\<lambda>v. \<exists>p. v = prefix_string p) vs)
    \<and> (field = ''country'' \<longrightarrow> list_all two_letters vs)
    \<and> (field = ''crawler'' \<longrightarrow> vs = [''true''] \<or> vs = [''false''])"
proof -
  have len: "length vs = length clean"
    using assms(1) by (auto simp: check_values_def map_res_length split: if_splits)
  have ip: "list_all (\<lambda>v. \<exists>p. v = prefix_string p) vs" if "field = ''ip''"
    using assms(1) that map_res_range [of ip_value clean vs]
    by (fastforce simp: check_values_def list_all_iff ip_value_def split: option.splits)
  have co: "list_all two_letters vs" if "field = ''country''"
    using assms(1) that map_res_range [of "country_value U" clean vs]
    by (fastforce simp: check_values_def list_all_iff country_value_def two_letters_def Let_def split: if_splits)
  have cr: "vs = [''true''] \<or> vs = [''false'']" if "field = ''crawler''"
    using assms(1) that by (cases clean) (auto simp: check_values_def split: if_splits)
  show ?thesis using len ip co cr assms(2,3) by auto
qed

lemma validateCondition_ok:
  assumes "validateCondition L U c0 = Inr c"
  shows "condition_ok c"
proof -
  define field where "field = go_to_lower L (trim_space (rc_field c0))"
  define opn where "opn = go_to_lower L (trim_space (rc_op c0))"
  define clean where "clean = clean_values (rc_values c0) []"
  obtain ops vs where o: "map_of conditionOps field = Some ops" "opn \<in> set ops" "clean \<noteq> []"
    "check_values L U field clean = Inr vs" "c = \<lparr>rc_field = field, rc_op = opn, rc_values = vs\<rparr>"
    using assms by (auto simp: validateCondition_def Let_def field_def [symmetric] opn_def [symmetric]
        clean_def [symmetric] split: option.splits if_splits sum.splits)
  have "length clean \<le> 50" unfolding clean_def by (rule clean_values_bound) simp
  from check_values_ok [OF o(4,3) this] o show ?thesis by (simp add: condition_ok_def)
qed

definition allow_condition_ok :: "rule_condition \<Rightarrow> bool" where
  "allow_condition_ok c \<longleftrightarrow>
     (rc_field c = ''ip'' \<and> list_all (\<lambda>v. \<exists>p. parseRulePrefix v = Some p \<and> 0 < pfx_bits p) (rc_values c))
     \<or> (rc_field c = ''crawler'' \<and> rc_values c = [''true''])"

lemma check_allow_values_ok:
  "check_allow_values vs = Inr u \<Longrightarrow> list_all (\<lambda>v. \<exists>p. parseRulePrefix v = Some p \<and> 0 < pfx_bits p) vs"
  by (induction vs) (auto split: option.splits if_splits)

lemma validateAllow_ok:
  assumes "validateAllow cs = Inr u" "list_all condition_ok cs"
  shows "list_all allow_condition_ok cs"
  unfolding list_all_iff
proof
  fix c
  assume c: "c \<in> set cs"
  then have a: "allow_condition c = Inr ()" using assms(1) by (simp add: validateAllow_def check_all_Inr)
  have ok: "condition_ok c" using assms(2) c by (simp add: list_all_iff)
  show "allow_condition_ok c"
  proof (cases "rc_field c = ''ip''")
    case True
    then show ?thesis using a check_allow_values_ok [of "rc_values c"]
      by (auto simp: allow_condition_def allow_condition_ok_def split: sum.splits if_splits)
  next
    case False
    then show ?thesis using a ok
      by (auto simp: allow_condition_def allow_condition_ok_def condition_ok_def allowFields_def split: if_splits)
  qed
qed

lemma list_all2_right: "list_all2 P xs ys \<Longrightarrow> (\<And>x y. P x y \<Longrightarrow> Q y) \<Longrightarrow> list_all Q ys"
  by (induction rule: list_all2_induct) auto

lemma ValidateAccessRule_Inr:
  assumes "ValidateAccessRule L U r = Inr r'"
  shows "ar_id r' = ar_id r \<and> ar_action r' = ar_action r \<and> ar_name r' \<noteq> [] \<and> no_break (ar_name r')
    \<and> ar_action r' \<in> {''allow'', ''deny'', ''challenge'', ''log''}
    \<and> ar_conditions r' \<noteq> [] \<and> length (ar_conditions r') \<le> 10 \<and> list_all condition_ok (ar_conditions r')
    \<and> (ar_action r' = ''allow'' \<longrightarrow> list_all allow_condition_ok (ar_conditions r'))
    \<and> 0 \<le> ar_priority r' \<and> ar_priority r' \<le> 100000"
proof -
  obtain cs where cs: "map_res (validateCondition L U) (ar_conditions r) = Inr cs"
    and al: "ar_action r = ''allow'' \<longrightarrow> (\<exists>u. validateAllow cs = Inr u)"
    and r': "r' = r\<lparr>ar_name := trim_space (ar_name r), ar_conditions := cs, ar_siteID := trim_space (ar_siteID r),
               ar_priority := clamp_priority (ar_priority r)\<rparr>"
    and g: "trim_space (ar_name r) \<noteq> []" "\<not> hasControlChar (trim_space (ar_name r))" "ar_conditions r \<noteq> []"
      "length (ar_conditions r) \<le> 10" "ar_action r \<in> {''allow'', ''deny'', ''challenge'', ''log''}"
    using assms by (auto simp: ValidateAccessRule_def Let_def MaxRuleConditions_def split: if_splits sum.splits)
  have ok: "list_all condition_ok cs"
    by (rule list_all2_right [OF map_res_Inr [OF cs]]) (rule validateCondition_ok)
  have "cs \<noteq> []" "length cs \<le> 10" using map_res_length [OF cs] g(3,4) by auto
  moreover have "ar_action r = ''allow'' \<longrightarrow> list_all allow_condition_ok cs"
    using al validateAllow_ok [OF _ ok] by blast
  moreover have "0 \<le> clamp_priority p \<and> clamp_priority p \<le> 100000" for p
    by (simp add: clamp_priority_def Let_def)
  ultimately show ?thesis unfolding r' using g ok hasControlChar_no_break by simp
qed

subsection \<open>Properties\<close>

text \<open>
  C22 No accepted allow rule can be fired by the request's own claims: every condition of it is an
  address condition, each value a prefix with at least one fixed bit, or the condition that the
  visitor is a verified crawler. Every accepted rule has between one and ten conditions, each on a
  known field with an operator that field takes and between one and fifty values.
\<close>

theorem allow_rule_safe:
  assumes "ValidateAccessRule L U r = Inr r'"
  shows "(ar_action r' = ''allow'' \<longrightarrow> list_all allow_condition_ok (ar_conditions r'))
    \<and> ar_action r' = ar_action r \<and> ar_conditions r' \<noteq> [] \<and> length (ar_conditions r') \<le> 10
    \<and> list_all condition_ok (ar_conditions r') \<and> ar_name r' \<noteq> [] \<and> no_break (ar_name r')
    \<and> 0 \<le> ar_priority r' \<and> ar_priority r' \<le> 100000"
  using ValidateAccessRule_Inr [OF assms] by blast

definition demo_rule :: access_rule where
  "demo_rule = \<lparr>ar_id = ''r'', ar_name = ''office'', ar_action = ''allow'', ar_priority = -4, ar_enabled = True,
     ar_siteID = [], ar_conditions = [\<lparr>rc_field = '' IP'', rc_op = ''in_cidr'', rc_values = [''59.153.228.1/20'', '' '']\<rparr>],
     ar_createdAt = 0, ar_updatedAt = 0\<rparr>"

lemma demo_rule_accepted:
  "ValidateAccessRule (\<lambda>s. s) (\<lambda>s. s) demo_rule = Inr (demo_rule\<lparr>ar_priority := 0,
     ar_conditions := [\<lparr>rc_field = ''ip'', rc_op = ''in_cidr'', rc_values = [''59.153.224.0/20'']\<rparr>]\<rparr>)"
  by code_simp

lemma allow_rule_safe_witness:
  "list_all allow_condition_ok [\<lparr>rc_field = ''ip'', rc_op = ''in_cidr'', rc_values = [''59.153.224.0/20'']\<rparr>]"
  using allow_rule_safe [OF demo_rule_accepted] by (simp add: demo_rule_def)

text \<open>
  The check for a range that covers everything counts the bits of an IPv4-mapped prefix as IPv6
  bits: an allow rule on \<open>::ffff:0.0.0.0/96\<close> is accepted, and it holds the mapped form of every IPv4
  address, which the data plane compares as IPv4.
\<close>

theorem mapped_allow_everything:
  "ValidateAccessRule (\<lambda>s. s) (\<lambda>s. s) (demo_rule\<lparr>ar_conditions :=
       [\<lparr>rc_field = ''ip'', rc_op = ''in_cidr'', rc_values = [''::ffff:0.0.0.0/96'']\<rparr>]\<rparr>) =
     Inr (demo_rule\<lparr>ar_priority := 0, ar_conditions :=
       [\<lparr>rc_field = ''ip'', rc_op = ''in_cidr'', rc_values = [''::ffff:0.0.0.0/96'']\<rparr>]\<rparr>)
   \<and> parse_prefix ''::ffff:0.0.0.0/96'' = Some (Prefix (V6 0xffff00000000 []) 96)
   \<and> (unmap_addr (V6 w []) = V4 v \<longrightarrow> prefix_contains (Prefix (V6 0xffff00000000 []) 96) (V6 w []))"
proof (intro conjI)
  show "ValidateAccessRule (\<lambda>s. s) (\<lambda>s. s) (demo_rule\<lparr>ar_conditions :=
       [\<lparr>rc_field = ''ip'', rc_op = ''in_cidr'', rc_values = [''::ffff:0.0.0.0/96'']\<rparr>]\<rparr>) =
     Inr (demo_rule\<lparr>ar_priority := 0, ar_conditions :=
       [\<lparr>rc_field = ''ip'', rc_op = ''in_cidr'', rc_values = [''::ffff:0.0.0.0/96'']\<rparr>]\<rparr>)" by code_simp
  show "parse_prefix ''::ffff:0.0.0.0/96'' = Some (Prefix (V6 0xffff00000000 []) 96)" by code_simp
  have "drop_bit 32 (0xffff00000000 :: 128 word) = 0xffff" by code_simp
  then show "unmap_addr (V6 w []) = V4 v \<longrightarrow> prefix_contains (Prefix (V6 0xffff00000000 []) 96) (V6 w [])"
    by (simp add: prefix_contains_V6 del: prefix_contains.simps split: if_splits)
qed

lemma mapped_allow_everything_witness:
  "prefix_contains (Prefix (V6 0xffff00000000 []) 96) (V6 0xffffcb007109 [])"
proof -
  have "unmap_addr (V6 0xffffcb007109 []) = V4 0xcb007109" by code_simp
  then show ?thesis using mapped_allow_everything by blast
qed


subsection \<open>The order\<close>

lemma reorder_loop_rows:
  "reorder_loop stmt now i ks t = Inr t' \<Longrightarrow> distinct ks \<Longrightarrow>
    map ar_id t' = map ar_id t
    \<and> (\<forall>r \<in> set t'. \<forall>j < length ks. ar_id r = ks ! j \<longrightarrow> ar_priority r = int (i + j) + 1)
    \<and> (\<forall>r \<in> set t'. ar_id r \<notin> set ks \<longrightarrow> r \<in> set t)"
proof (induction ks arbitrary: i t)
  case Nil
  then show ?case by simp
next
  case (Cons k ks)
  let ?f = "\<lambda>r. r\<lparr>ar_priority := int i + 1, ar_updatedAt := now\<rparr>"
  define t1 where "t1 = snd (update_rows (\<lambda>r. ar_id r = k) ?f t)"
  have t1: "t1 = map (\<lambda>r. if ar_id r = k then ?f r else r) t" by (simp add: t1_def update_rows_def)
  have loop: "reorder_loop stmt now (Suc i) ks t1 = Inr t'"
    using Cons.prems(1) by (simp add: t1_def split: option.splits)
  have dks: "distinct ks" "k \<notin> set ks" using Cons.prems(2) by simp_all
  have IH: "map ar_id t' = map ar_id t1"
    "\<forall>r \<in> set t'. \<forall>j < length ks. ar_id r = ks ! j \<longrightarrow> ar_priority r = int (Suc i + j) + 1"
    "\<forall>r \<in> set t'. ar_id r \<notin> set ks \<longrightarrow> r \<in> set t1"
    using Cons.IH [OF loop dks(1)] by simp_all
  have same: "map ar_id t1 = map ar_id t" by (simp add: t1)
  have first: "ar_priority r = int i + 1" if "r \<in> set t'" "ar_id r = k" for r
  proof -
    have "r \<in> set t1" using IH(3) that dks(2) by blast
    then obtain x where "r = (if ar_id x = k then ?f x else x)" unfolding t1 set_map image_iff by blast
    then show ?thesis using that(2) by (cases "ar_id x = k") simp_all
  qed
  have "ar_priority r = int (i + j) + 1" if "r \<in> set t'" "j < length (k # ks)" "ar_id r = (k # ks) ! j" for r j
  proof (cases j)
    case 0
    then show ?thesis using that first by simp
  next
    case (Suc m)
    then have "m < length ks" "ar_id r = ks ! m" using that by simp_all
    with IH(2) that(1) have "ar_priority r = int (Suc i + m) + 1" by blast
    then show ?thesis using Suc by simp
  qed
  moreover have "r \<in> set t" if r: "r \<in> set t'" "ar_id r \<notin> set (k # ks)" for r
  proof -
    have "r \<in> set t1" using IH(3) r by (metis list.set_intros(2))
    then obtain x where x: "x \<in> set t" "r = (if ar_id x = k then ?f x else x)"
      unfolding t1 set_map image_iff by blast
    then have "ar_id x \<noteq> k" using r(2) by auto
    then show ?thesis using x by simp
  qed
  ultimately show ?case using IH(1) same by simp
qed

lemma set_rule_order [simp]: "set (rule_order t) = set t"
  by (simp add: rule_order_def)

lemma map_id_rule_order_distinct: "unique_by ar_id t \<Longrightarrow> distinct (map ar_id (rule_order t))"
  by (simp add: unique_by_def rule_order_def distinct_map)

lemma rule_order_sorted: "sorted (map ar_priority (rule_order t))"
  by (simp add: rule_order_def)

text \<open>
  Reordering does what the page shows or nothing: any failure, of the transaction, of one of its
  statements or of the commit, leaves the table as it was; on success with a complete list of the
  rules, they are listed in exactly that order, and no rule is added, lost or changed otherwise.
\<close>

theorem reorder_exact:
  assumes "unique_by ar_id t" and "distinct ids" and "set ids = ar_id ` set t"
    and "ReorderAccessRules db stmt commit now ids t = (res, t')"
  shows "(case res of Inl e \<Rightarrow> t' = t | Inr u \<Rightarrow> map ar_id (rule_order t') = ids \<and> map ar_id t' = map ar_id t)"
proof (cases res)
  case (Inl e)
  then show ?thesis using assms(4) by (auto simp: ReorderAccessRules_def split: option.splits sum.splits)
next
  case (Inr u)
  then have loop: "reorder_loop stmt now 0 ids t = Inr t'"
    using assms(4) by (auto simp: ReorderAccessRules_def split: option.splits sum.splits)
  note rows = reorder_loop_rows [OF loop assms(2)]
  have idt: "map ar_id t' = map ar_id t" using rows by blast
  define g where "g = (\<lambda>p :: int. ids ! nat (p - 1))"
  define xs where "xs = rule_order t'"
  have pr: "ar_id r \<in> set ids \<and> ar_id r = g (ar_priority r) \<and> 1 \<le> ar_priority r \<and> ar_priority r \<le> int (length ids)"
    if r: "r \<in> set t'" for r
  proof -
    have "ar_id r \<in> set ids" using r idt assms(3) by (metis imageI set_map)
    then obtain j where j: "j < length ids" "ar_id r = ids ! j" by (metis in_set_conv_nth)
    then have "ar_priority r = int j + 1" using rows r by auto
    then show ?thesis using j by (simp add: g_def)
  qed
  have u': "unique_by ar_id t'" using assms(1) idt by (simp add: unique_by_def)
  have ids_xs: "map ar_id xs = map g (map ar_priority xs)"
    using pr by (simp add: xs_def)
  have inj: "distinct (map g (map ar_priority xs))"
    using map_id_rule_order_distinct [OF u'] ids_xs xs_def by metis
  then have d: "distinct (map ar_priority xs)" by (simp only: distinct_map)
  have card: "length xs = length ids"
  proof -
    have "length xs = card (ar_id ` set t')"
      using distinct_card [OF map_id_rule_order_distinct [OF u']] by (simp add: xs_def rule_order_def)
    also have "\<dots> = card (set ids)" using idt assms(3) by (metis set_map)
    finally show ?thesis using assms(2) by (simp add: distinct_card)
  qed
  let ?ys = "map (\<lambda>j. int j + 1) [0..<length ids]"
  have "set (map ar_priority xs) \<subseteq> set ?ys"
  proof
    fix p
    assume "p \<in> set (map ar_priority xs)"
    then obtain r where "r \<in> set t'" "p = ar_priority r" by (auto simp: xs_def)
    with pr have "1 \<le> p \<and> p \<le> int (length ids)" by auto
    then have "p = int (nat (p - 1)) + 1 \<and> nat (p - 1) < length ids" by auto
    then show "p \<in> set ?ys" by (metis (no_types, lifting) atLeastLessThan_iff image_eqI le0 set_map set_upt)
  qed
  moreover have "card (set (map ar_priority xs)) = card (set ?ys)"
    using distinct_card [OF d] card by (simp add: card_image inj_on_def)
  ultimately have "set (map ar_priority xs) = set ?ys" by (intro card_subset_eq) auto
  moreover have "sorted ?ys" "distinct ?ys"
    by (auto simp: distinct_map inj_on_def sorted_map sorted_wrt_iff_nth_less)
  ultimately have "map ar_priority xs = ?ys"
    using d rule_order_sorted [of t'] by (intro sorted_distinct_set_unique) (simp_all add: xs_def)
  then have "map ar_id xs = map g ?ys" using ids_xs by simp
  also have "\<dots> = ids" by (simp add: g_def comp_def map_nth)
  finally show ?thesis using Inr idt by (simp add: xs_def)
qed

lemma reorder_exact_witness:
  "map ar_id (rule_order (snd (ReorderAccessRules None (\<lambda>i. None) None 9 [''b'', ''a'']
     [demo_rule\<lparr>ar_id := ''a''\<rparr>, demo_rule\<lparr>ar_id := ''b''\<rparr>]))) = [''b'', ''a'']"
proof -
  let ?t = "[demo_rule\<lparr>ar_id := ''a''\<rparr>, demo_rule\<lparr>ar_id := ''b''\<rparr>]"
  have u: "unique_by ar_id ?t" by (simp add: unique_by_def)
  have r: "ReorderAccessRules None (\<lambda>i. None) None 9 [''b'', ''a''] ?t =
      (Inr (), snd (ReorderAccessRules None (\<lambda>i. None) None 9 [''b'', ''a''] ?t))"
    by (simp add: ReorderAccessRules_def)
  show ?thesis using reorder_exact [OF u _ _ r] by auto
qed

text \<open>
  The publisher ships ranges for exactly the countries the enabled rules test, each once.
\<close>

theorem RuleCountries_exact:
  "distinct (RuleCountries rules) \<and>
   set (RuleCountries rules) = {v. \<exists>r c. r \<in> set rules \<and> ar_enabled r \<and> c \<in> set (ar_conditions r)
      \<and> rc_field c = ''country'' \<and> v \<in> set (rc_values c)}"
proof
  show "distinct (RuleCountries rules)"
    using dedup_by_distinct [of "\<lambda>v :: string. v" "[]"] by (auto simp: RuleCountries_def)
  show "set (RuleCountries rules) = {v. \<exists>r c. r \<in> set rules \<and> ar_enabled r \<and> c \<in> set (ar_conditions r)
      \<and> rc_field c = ''country'' \<and> v \<in> set (rc_values c)}"
    using dedup_by_keys [of "\<lambda>v :: string. v" "[]"] by (auto simp: RuleCountries_def)
qed

end
