(* ===== verification/StoreRules.thy ===== *)
theory StoreRules
  imports StoreModels
begin

section \<open>The store: detection rules\<close>

text \<open>
  \<open>control/internal/store/rules.go\<close>: the built-in rules, \<open>ValidateRule\<close> with \<open>validatePattern\<close> and
  the operations on the table \<open>rules\<close>. \<open>nested_quantifier\<close> is the regular expression of that name,
  written out as the search it performs; \<open>re_error\<close> is the error text of \<open>regexp.Compile\<close> (\<open>None\<close>
  when the pattern compiles). Text columns are ordered bytewise. The lemmas are about what seeding
  does to the rows an administrator edited, and about the order rules are evaluated in.
\<close>

definition bs :: string where "bs = [CHR 0x5C]"

definition mk_rule :: "string \<Rightarrow> string \<Rightarrow> string \<Rightarrow> string \<Rightarrow> string \<Rightarrow> string \<Rightarrow> string \<Rightarrow> rule" where
  "mk_rule i name cat target pat act sev = \<lparr>ru_id = i, ru_name = name, ru_category = cat, ru_target = target,
     ru_pattern = pat, ru_action = act, ru_severity = sev, ru_enabled = False, ru_builtin = False, ru_createdAt = 0\<rparr>"

definition BuiltinRules :: "rule list" where
  "BuiltinRules =
    [mk_rule ''sqli-union'' ''SQLi - UNION SELECT'' ''sqli'' ''any''
       (''(?i)union['' @ bs @ ''s/*()]+(all['' @ bs @ ''s/*()]+)?select'') ''deny'' ''high'',
     mk_rule ''sqli-common'' ''SQLi - common syntax'' ''sqli'' ''any''
       (''(?i)('' @ bs @ ''bselect'' @ bs @ ''b['' @ bs @ ''s'' @ bs @ ''S]{1,60}'' @ bs @ ''bfrom'' @ bs @
        ''b|'' @ bs @ ''binsert'' @ bs @ ''b'' @ bs @ ''s+into'' @ bs @ ''b|'' @ bs @ ''bdrop'' @ bs @ ''b'' @ bs @
        ''s+table'' @ bs @ ''b|'' @ bs @ ''bupdate'' @ bs @ ''b['' @ bs @ ''s'' @ bs @ ''S]{1,40}'' @ bs @
        ''bset'' @ bs @ ''b['' @ bs @ ''s'' @ bs @ ''S]{1,40}=)'') ''deny'' ''high'',
     mk_rule ''sqli-blind'' ''SQLi - blind / time based'' ''sqli'' ''any''
       (''(?i)(sleep'' @ bs @ ''s*'' @ bs @ ''('' @ bs @ ''s*'' @ bs @ ''d|benchmark'' @ bs @ ''s*'' @ bs @
        ''(|pg_sleep'' @ bs @ ''s*'' @ bs @ ''(|waitfor'' @ bs @ ''s+delay|'' @ bs @ ''bor'' @ bs @ ''b'' @ bs @
        ''s+'' @ bs @ ''d+'' @ bs @ ''s*='' @ bs @ ''s*'' @ bs @ ''d+|'' @ [CHR 0x27, CHR 0x5C] @ ''s*or'' @ bs @
        ''s*'' @ [CHR 0x27] @ ''1'' @ [CHR 0x27, CHR 0x5C] @ ''s*='' @ bs @ ''s*'' @ [CHR 0x27] @
        ''1)'') ''deny'' ''high'',
     mk_rule ''sqli-meta'' ''SQLi - metadata probing'' ''sqli'' ''any''
       (''(?i)(information_schema|load_file'' @ bs @ ''s*'' @ bs @ ''(|into'' @ bs @
        ''s+(out|dump)file|@@version|version'' @ bs @ ''s*'' @ bs @ ''('' @ bs @ ''s*'' @ bs @
        ''))'') ''deny'' ''high'',
     mk_rule ''xss-tag'' ''XSS - dangerous tags'' ''xss'' ''any''
       (''(?i)<'' @ bs @ ''s*(script|iframe|object|embed|svg'' @ bs @ ''b[^>]*onload)'') ''deny'' ''high'',
     mk_rule ''xss-event'' ''XSS - event handler / js:'' ''xss'' ''any''
       (''(?i)(javascript'' @ bs @ ''s*:|on(error|load|click|mouseover|focus)'' @ bs @ ''s*=|document'' @ bs @
        ''.cookie|eval'' @ bs @ ''s*'' @ bs @ ''(|atob'' @ bs @ ''s*'' @ bs @ ''()'') ''deny'' ''medium'',
     mk_rule ''lfi-traversal'' ''Path traversal'' ''lfi'' ''any''
       (''(?i)('' @ bs @ ''.'' @ bs @ ''./|'' @ bs @ ''.'' @ bs @ ''.'' @ [CHR 0x5C, CHR 0x5C] @
        ''|%2e%2e[/%5c]|'' @ bs @ ''.'' @ bs @ ''.%2f)'') ''deny'' ''high'',
     mk_rule ''lfi-file'' ''System file access'' ''lfi'' ''any''
       (''(?i)(/etc/(passwd|shadow|hosts)|/proc/self/(environ|cmdline)|boot'' @ bs @ ''.ini|win'' @ bs @
        ''.ini)'') ''deny'' ''high'',
     mk_rule ''lfi-wrapper'' ''PHP wrapper'' ''lfi'' ''any''
       (''(?i)(php://(input|filter|memory)|data://text|expect://|zip://)'') ''deny'' ''high'',
     mk_rule ''rce-shell'' ''RCE - shell command injection'' ''rce'' ''any''
       (''(?i)([;|&'' @ [CHR 0x60] @ '']'' @ bs @
        ''s*(cat|ls|id|pwd|whoami|uname|wget|curl|nc|ncat|bash|sh|python|perl)'' @ bs @ ''b|'' @ bs @ ''$'' @ bs @
        ''([^)]{1,40}'' @ bs @ ''))'') ''deny'' ''critical'',
     mk_rule ''rce-php'' ''RCE - dangerous PHP functions'' ''rce'' ''any''
       (''(?i)'' @ bs @ ''b(system|exec|passthru|shell_exec|popen|proc_open|assert|base64_decode)'' @ bs @ ''s*'' @
        bs @ ''('') ''deny'' ''critical'',
     mk_rule ''path-secret'' ''Secret file probing'' ''recon'' ''uri''
       (''(?i)/('' @ bs @ ''.env|'' @ bs @ ''.git/|'' @ bs @ ''.svn/|'' @ bs @ ''.ssh/|'' @ bs @
        ''.aws/|wp-config'' @ bs @ ''.php('' @ bs @ ''.bak)?|config'' @ bs @ ''.php'' @ bs @ ''.(bak|old|save)|'' @
        bs @ ''.DS_Store|docker-compose'' @ bs @ ''.ya?ml|backup'' @ bs @ ''.(sql|zip|tar'' @ bs @
        ''.gz))'') ''deny'' ''medium'',
     mk_rule ''path-admin'' ''Admin panel probing'' ''recon'' ''uri''
       (''(?i)/(phpmyadmin|pma|adminer'' @ bs @ ''.php|phpinfo'' @ bs @ ''.php)'') ''log'' ''low'',
     mk_rule ''ua-scanner'' ''Vulnerability scanner'' ''bot'' ''ua''
       (''(?i)(sqlmap|nikto|nmap|masscan|zgrab|acunetix|nessus|openvas|dirbuster|gobuster|feroxbuster|wpscan|joomscan|hydra|havij|netsparker|arachni|w3af|xsstrike)'') ''deny'' ''high'',
     mk_rule ''ua-empty'' ''Missing User-Agent'' ''bot'' ''ua''
       (''^$'') ''challenge'' ''low'',
     mk_rule ''ua-lib'' ''Automated HTTP client'' ''bot'' ''ua''
       (''(?i)^(python-requests|python-urllib|go-http-client|java/|okhttp|libwww-perl|axios/|scrapy|node-fetch)'') ''log'' ''low'',
     mk_rule ''hdr-inject'' ''Header injection / CRLF'' ''proto'' ''any''
       (''(?i)(%0d%0a|'' @ bs @ ''r'' @ bs @ ''n)(set-cookie|location|content-length)'' @ bs @
        ''s*:'') ''deny'' ''medium'',
     mk_rule ''ssrf-meta'' ''SSRF - cloud metadata'' ''ssrf'' ''any''
       (''(?i)(169'' @ bs @ ''.254'' @ bs @ ''.169'' @ bs @ ''.254|metadata'' @ bs @ ''.google'' @ bs @
        ''.internal|100'' @ bs @ ''.100'' @ bs @ ''.100'' @ bs @ ''.200)'') ''deny'' ''high'']"

subsection \<open>Validation\<close>

definition re_space :: "char \<Rightarrow> bool" where
  "re_space c \<longleftrightarrow> List.member [CHR 0x09, CHR 0x0A, CHR 0x0C, CHR 0x0D, CHR 0x20] c"

definition is_paren :: "char \<Rightarrow> bool" where "is_paren c \<longleftrightarrow> c = CHR 0x28 \<or> c = CHR 0x29"

definition is_repeat :: "char \<Rightarrow> bool" where "is_repeat c \<longleftrightarrow> c = CHR ''+'' \<or> c = CHR ''*''"

definition group_here :: "string \<Rightarrow> bool" where
  "group_here s =
     (let body = takeWhile (\<lambda>c. \<not> is_paren c) s; rest = dropWhile (\<lambda>c. \<not> is_paren c) s
      in list_ex is_repeat body \<and>
         (case rest of [] \<Rightarrow> False
          | c # after \<Rightarrow> c = CHR 0x29 \<and>
              (case dropWhile re_space after of [] \<Rightarrow> False | d # _ \<Rightarrow> is_repeat d)))"

fun nested_quantifier :: "string \<Rightarrow> bool" where
  "nested_quantifier [] = False"
| "nested_quantifier (c # s) = ((c = CHR 0x28 \<and> group_here s) \<or> nested_quantifier s)"

definition validatePattern :: "(string \<Rightarrow> string option) \<Rightarrow> string \<Rightarrow> unit result" where
  "validatePattern re_error pattern =
     (if nested_quantifier pattern then Inl (Invalid ''invalid pattern: a quantified group containing a quantifier'')
      else (case re_error pattern of
              Some msg \<Rightarrow> if str_contains ''invalid or unsupported Perl syntax'' msg then Inr ()
                          else Inl (InvalidValue ''invalid pattern'' msg)
            | None \<Rightarrow> Inr ()))"

definition ValidateRule :: "(string \<Rightarrow> string option) \<Rightarrow> rule \<Rightarrow> rule result" where
  "ValidateRule re_error r0 =
     (let r = r0\<lparr>ru_id := trim_space (ru_id r0), ru_name := trim_space (ru_name r0)\<rparr>
      in if ru_name r = [] then Inl (Invalid ''the rule name is required'')
         else if ru_pattern r = [] then Inl (Invalid ''the pattern is required'')
         else (case validatePattern re_error (ru_pattern r) of
                 Inl e \<Rightarrow> Inl e
               | Inr _ \<Rightarrow>
                   if \<not> List.member [''uri'', ''args'', ''body'', ''ua'', ''header'', ''cookie'', ''any''] (ru_target r)
                   then Inl (InvalidValue ''invalid target'' (ru_target r))
                   else if \<not> List.member [''deny'', ''challenge'', ''ban'', ''log''] (ru_action r)
                   then Inl (InvalidValue ''invalid action'' (ru_action r))
                   else Inr (r\<lparr>ru_severity := (if List.member [''low'', ''medium'', ''high'', ''critical''] (ru_severity r)
                                                then ru_severity r else ''medium''),
                               ru_category := (if ru_category r = [] then ''custom'' else ru_category r)\<rparr>)))"

subsection \<open>The table\<close>

text \<open>The row an INSERT of \<open>SeedRules\<close> makes, and what ON CONFLICT .. WHERE rules.builtin does.\<close>

definition seed_ins :: "int \<Rightarrow> rule \<Rightarrow> rule" where
  "seed_ins now r = r\<lparr>ru_enabled := True, ru_builtin := True, ru_createdAt := now\<rparr>"

definition seed_merge :: "rule \<Rightarrow> rule \<Rightarrow> rule" where
  "seed_merge old r = (if ru_builtin old then old\<lparr>ru_name := ru_name r, ru_category := ru_category r\<rparr> else old)"

text \<open>\<open>stmt\<close> gives the error of the INSERT of a rule; the first one ends the loop.\<close>

fun seed_loop :: "(string \<Rightarrow> string option) \<Rightarrow> int \<Rightarrow> rule list \<Rightarrow> rule list \<Rightarrow> unit result \<times> rule list" where
  "seed_loop stmt now [] t = (Inr (), t)"
| "seed_loop stmt now (r # rs) t =
     (case stmt (ru_id r) of
        Some msg \<Rightarrow> (Inl (InvalidValue ''seeding rule'' (ru_id r)), t)
      | None \<Rightarrow> seed_loop stmt now rs (upsert_row ru_id (seed_ins now) seed_merge r t))"

definition SeedRules :: "(string \<Rightarrow> string option) \<Rightarrow> int \<Rightarrow> rule list \<Rightarrow> unit result \<times> rule list" where
  "SeedRules stmt now t = seed_loop stmt now BuiltinRules t"

definition actionOrder :: "rule \<Rightarrow> int" where
  "actionOrder r = (if ru_action r = ''deny'' then 0 else if ru_action r = ''ban'' then 1
     else if ru_action r = ''challenge'' then 2 else 3)"

definition ListRules :: "string option \<Rightarrow> rule list \<Rightarrow> rule list result" where
  "ListRules db t = query db
     (order_by actionOrder (order_by (\<lambda>r. \<not> ru_builtin r) (order_by ru_category (order_by ru_id t))))"

definition GetRule :: "string option \<Rightarrow> string \<Rightarrow> rule list \<Rightarrow> rule result" where
  "GetRule db k t = query_row db ErrNotFound (find_row ru_id k t)"

definition rule_ins :: "int \<Rightarrow> rule \<Rightarrow> rule" where
  "rule_ins now r = r\<lparr>ru_createdAt := now\<rparr>"

definition rule_merge :: "rule \<Rightarrow> rule \<Rightarrow> rule" where
  "rule_merge old r = r\<lparr>ru_builtin := ru_builtin old, ru_createdAt := ru_createdAt old\<rparr>"

definition UpsertRule :: "string option \<Rightarrow> int \<Rightarrow> rule \<Rightarrow> rule list \<Rightarrow> unit result \<times> rule list" where
  "UpsertRule db now r t = exec_plain db (upsert_row ru_id (rule_ins now) rule_merge r t) t"

definition SetRuleEnabled :: "string option \<Rightarrow> string \<Rightarrow> bool \<Rightarrow> rule list \<Rightarrow> unit result \<times> rule list" where
  "SetRuleEnabled db k enabled t = exec_affected db ErrNotFound
     (update_rows (\<lambda>r. ru_id r = k) (\<lambda>r. r\<lparr>ru_enabled := enabled\<rparr>) t) t"

definition DeleteRule :: "string option \<Rightarrow> string \<Rightarrow> rule list \<Rightarrow> unit result \<times> rule list" where
  "DeleteRule db k t = exec_affected db
     (Invalid ''cannot delete: the rule does not exist or is built in (disable it instead)'')
     (delete_rows (\<lambda>r. ru_id r = k \<and> \<not> ru_builtin r) t) t"

interpretation seeding: keyed_table ru_id "seed_ins now" seed_merge for now
  by unfold_locales (simp_all add: seed_ins_def seed_merge_def)

interpretation rules: keyed_table ru_id "rule_ins now" rule_merge for now
  by unfold_locales (simp_all add: rule_ins_def rule_merge_def)

subsection \<open>Seeding\<close>

lemma builtin_ids: "unique_by ru_id BuiltinRules"
  by (simp add: unique_by_def BuiltinRules_def mk_rule_def)

lemma seed_loop_find:
  "unique_by ru_id rs \<Longrightarrow> (\<And>k. stmt k = None) \<Longrightarrow>
   find_row ru_id k (snd (seed_loop stmt now rs t)) =
     (case find_row ru_id k rs of
        None \<Rightarrow> find_row ru_id k t
      | Some r \<Rightarrow> Some (case find_row ru_id k t of None \<Rightarrow> seed_ins now r | Some old \<Rightarrow> seed_merge old r))"
proof (induction rs arbitrary: t)
  case Nil
  then show ?case by (simp add: find_row_def)
next
  case (Cons r rs)
  have u: "unique_by ru_id rs" and new: "find_row ru_id (ru_id r) rs = None"
    using Cons.prems(1) by (auto simp: unique_by_def find_row_None)
  show ?case
  proof (cases "k = ru_id r")
    case True
    then show ?thesis using Cons.IH [OF u Cons.prems(2)] Cons.prems(2) new
        seeding.upsert_find_same [of r now t] by (simp add: find_row_Cons)
  next
    case False
    then show ?thesis using Cons.IH [OF u Cons.prems(2)] Cons.prems(2)
        seeding.upsert_find_other [of k r now t] by (simp add: find_row_Cons split: option.split)
  qed
qed

text \<open>
  An upgrade never undoes an administrator's decision. After seeding every built-in rule exists;
  a built-in row that was already there keeps its pattern, target, action, severity and switch and
  only takes the new name and category; custom rules, even one under a built-in's id, stay as they
  were; and no built-in rule can be deleted.
\<close>

theorem seed_keeps_edits:
  assumes "\<And>k. stmt k = None" and "find_row ru_id k t = Some old"
  shows "(\<exists>r. find_row ru_id k (snd (SeedRules stmt now t)) = Some r \<and> ru_pattern r = ru_pattern old
        \<and> ru_target r = ru_target old \<and> ru_action r = ru_action old \<and> ru_severity r = ru_severity old
        \<and> ru_enabled r = ru_enabled old \<and> ru_builtin r = ru_builtin old
        \<and> (\<not> ru_builtin old \<or> find_row ru_id k BuiltinRules = None \<longrightarrow> r = old))
    \<and> list_all (\<lambda>b. find_row ru_id (ru_id b) (snd (SeedRules stmt now t)) \<noteq> None) BuiltinRules
    \<and> (ru_builtin old \<and> unique_by ru_id t \<longrightarrow> find_row ru_id k (snd (DeleteRule None j t)) = Some old)"
proof -
  note f = seed_loop_find [OF builtin_ids assms(1), folded SeedRules_def]
  have "\<exists>r. find_row ru_id k (snd (SeedRules stmt now t)) = Some r \<and> ru_pattern r = ru_pattern old
        \<and> ru_target r = ru_target old \<and> ru_action r = ru_action old \<and> ru_severity r = ru_severity old
        \<and> ru_enabled r = ru_enabled old \<and> ru_builtin r = ru_builtin old
        \<and> (\<not> ru_builtin old \<or> find_row ru_id k BuiltinRules = None \<longrightarrow> r = old)"
    using assms(2) by (auto simp: f seed_merge_def split: option.split)
  moreover have "list_all (\<lambda>b. find_row ru_id (ru_id b) (snd (SeedRules stmt now t)) \<noteq> None) BuiltinRules"
    using find_row_unique [OF builtin_ids] by (auto simp: f list_all_iff)
  moreover have "find_row ru_id k (snd (DeleteRule None j t)) = Some old" if b: "ru_builtin old" and u: "unique_by ru_id t"
  proof -
    have old: "old \<in> set t" "ru_id old = k" using find_row_Some [OF assms(2)] by auto
    define t' where "t' = snd (delete_rows (\<lambda>r. ru_id r = j \<and> \<not> ru_builtin r) t)"
    have "old \<in> set t'" using old b by (simp add: t'_def delete_rows_def)
    moreover have "unique_by ru_id t'" using u by (simp add: t'_def delete_rows_unique)
    ultimately have "find_row ru_id k t' = Some old" using find_row_unique [of ru_id t' old] old by simp
    moreover have "snd (DeleteRule None j t) = t'"
      by (simp add: DeleteRule_def exec_affected_def t'_def split: prod.split)
    ultimately show ?thesis by simp
  qed
  ultimately show ?thesis by blast
qed

lemma seed_keeps_edits_witness:
  "\<exists>r. find_row ru_id ''ua-empty'' (snd (SeedRules (\<lambda>k. None) 5
     [(mk_rule ''ua-empty'' ''Leer'' ''bot'' ''ua'' ''^$'' ''log'' ''low'')\<lparr>ru_builtin := True\<rparr>])) = Some r
     \<and> ru_action r = ''log'' \<and> \<not> ru_enabled r"
proof -
  let ?old = "(mk_rule ''ua-empty'' ''Leer'' ''bot'' ''ua'' ''^$'' ''log'' ''low'')\<lparr>ru_builtin := True\<rparr>"
  have "find_row ru_id ''ua-empty'' [?old] = Some ?old" by (simp add: find_row_def mk_rule_def)
  from seed_keeps_edits [of "\<lambda>k. None", OF _ this] have
    "\<exists>r. find_row ru_id ''ua-empty'' (snd (SeedRules (\<lambda>k. None) 5 [?old])) = Some r
       \<and> ru_action r = ru_action ?old \<and> ru_enabled r = ru_enabled ?old" by blast
  then show ?thesis by (simp add: mk_rule_def)
qed

subsection \<open>The order of evaluation\<close>

text \<open>
  The data plane stops at the first match, so the listing puts every rule that denies before
  every rule that bans, those before the challenges and all of them before the rules that only
  log; the listing has the rules of the table, each as often as the table has it.
\<close>

theorem rules_order:
  assumes "ListRules None t = Inr rs" and "i < j" and "j < length rs"
  shows "actionOrder (rs ! i) \<le> actionOrder (rs ! j)
    \<and> (ru_action (rs ! j) = ''deny'' \<longrightarrow> ru_action (rs ! i) = ''deny'')
    \<and> (ru_action (rs ! i) = ''log'' \<longrightarrow> ru_action (rs ! j) \<notin> {''deny'', ''ban'', ''challenge''})
    \<and> set rs = set t \<and> length rs = length t"
proof -
  have rs: "rs = order_by actionOrder (order_by (\<lambda>r. \<not> ru_builtin r) (order_by ru_category (order_by ru_id t)))"
    using assms(1) by (simp add: ListRules_def query_def)
  have "sorted (map actionOrder rs)" by (simp add: rs)
  then have "actionOrder (rs ! i) \<le> actionOrder (rs ! j)"
    using assms(2,3) by (simp add: sorted_iff_nth_mono_less)
  moreover have "set rs = set t" "length rs = length t" by (simp_all add: rs)
  ultimately show ?thesis by (auto simp: actionOrder_def split: if_splits)
qed

lemma rules_order_witness:
  "ru_action ([mk_rule ''b'' ''B'' ''z'' ''any'' ''x'' ''deny'' ''low'', mk_rule ''a'' ''A'' ''a'' ''any'' ''x'' ''log'' ''low''] ! 0) = ''deny''"
proof -
  let ?b = "mk_rule ''b'' ''B'' ''z'' ''any'' ''x'' ''deny'' ''low''" and ?a = "mk_rule ''a'' ''A'' ''a'' ''any'' ''x'' ''log'' ''low''"
  have l: "ListRules None [?a, ?b] = Inr [?b, ?a]" by code_simp
  have "actionOrder ([?b, ?a] ! 0) \<le> actionOrder ([?b, ?a] ! 1)" using rules_order [OF l, of 0 1] by simp
  then show ?thesis by (simp add: mk_rule_def)
qed

text \<open>
  The built-in rules are themselves acceptable: known targets and actions, patterns without a
  quantified group that contains a quantifier.
\<close>

lemma builtin_rules_shape:
  "list_all (\<lambda>r. ru_pattern r \<noteq> [] \<and> \<not> nested_quantifier (ru_pattern r) \<and>
     List.member [''uri'', ''args'', ''body'', ''ua'', ''header'', ''cookie'', ''any''] (ru_target r) \<and>
     List.member [''deny'', ''challenge'', ''ban'', ''log''] (ru_action r)) BuiltinRules"
  by code_simp

end
