(* ===== verification/StoreEvents.thy ===== *)
theory StoreEvents
  imports StoreModels
begin

section \<open>The store: the event log and the statistics\<close>

text \<open>
  \<open>control/internal/store/events.go\<close>. \<open>where_clause\<close> builds the SQL text and its arguments as the
  source does; evaluating it is Postgres's business, so \<open>ListEvents\<close> and the counts take the meaning
  of a WHERE text as the argument \<open>sat\<close>. GROUP BY keeps groups in the order of their first row, a tie
  the SQL leaves open. The statistics are one row per minute, merged by maximum.
\<close>

datatype sql_arg = ArgText string | ArgTime int

record event_filter =
  ef_site :: string
  ef_ip :: string
  ef_action :: string
  ef_severity :: string
  ef_search :: string
  ef_from :: "int option"
  ef_to :: "int option"
  ef_limit :: int
  ef_offset :: int

text \<open>The closure \<open>add\<close>: append the argument, then the condition with its number.\<close>

type_synonym clause = "string list \<times> sql_arg list"

definition add_cond :: "string \<Rightarrow> sql_arg \<Rightarrow> clause \<Rightarrow> clause" where
  "add_cond before v = (\<lambda>(cond, args). (cond @ [before @ itoa (int (length args) + 1)], args @ [v]))"

definition add_search :: "string \<Rightarrow> clause \<Rightarrow> clause" where
  "add_search v = (\<lambda>(cond, args).
     (let n = itoa (int (length args) + 1)
      in (cond @ [''(uri ILIKE $'' @ n @ '' OR ua ILIKE $'' @ n @ '' OR rule_name ILIKE $'' @ n @ '')''],
          args @ [ArgText (''%'' @ v @ ''%'')])))"

definition add_if :: "bool \<Rightarrow> (clause \<Rightarrow> clause) \<Rightarrow> clause \<Rightarrow> clause" where
  "add_if b f c = (if b then f c else c)"

definition clauses :: "event_filter \<Rightarrow> clause" where
  "clauses f =
     (let c1 = add_if (ef_site f \<noteq> []) (add_cond ''site = $'' (ArgText (ef_site f))) ([], []);
          c2 = add_if (ef_ip f \<noteq> []) (add_cond ''ip = $'' (ArgText (ef_ip f))) c1;
          c3 = add_if (ef_action f \<noteq> []) (add_cond ''action = $'' (ArgText (ef_action f))) c2;
          c4 = add_if (ef_severity f \<noteq> []) (add_cond ''severity = $'' (ArgText (ef_severity f))) c3;
          c5 = add_if (ef_search f \<noteq> []) (add_search (ef_search f)) c4;
          c6 = (case ef_from f of None \<Rightarrow> c5 | Some t \<Rightarrow> add_cond ''ts >= $'' (ArgTime t) c5)
      in (case ef_to f of None \<Rightarrow> c6 | Some t \<Rightarrow> add_cond ''ts <= $'' (ArgTime t) c6))"

definition where_clause :: "event_filter \<Rightarrow> string \<times> sql_arg list" where
  "where_clause f = (case clauses f of (cond, args) \<Rightarrow>
     if cond = [] then ([], args) else ('' WHERE '' @ str_join '' AND '' cond, args))"

record event_table =
  evt_next :: int
  evt_rows :: "event list"

text \<open>COPY numbers the rows in order; a failed COPY writes none.\<close>

fun number_events :: "int \<Rightarrow> event list \<Rightarrow> event list" where
  "number_events n [] = []"
| "number_events n (e # es) = e\<lparr>ev_id := n\<rparr> # number_events (n + 1) es"

definition InsertEvents :: "string option \<Rightarrow> event list \<Rightarrow> event_table \<Rightarrow> unit result \<times> event_table" where
  "InsertEvents db evs t =
     (if evs = [] then (Inr (), t)
      else exec_plain db \<lparr>evt_next = evt_next t + int (length evs),
                          evt_rows = evt_rows t @ number_events (evt_next t) evs\<rparr> t)"

text \<open>The columns the SELECT of \<open>ListEvents\<close> names; the field of any other column stays zero.\<close>

definition listed_columns :: "event \<Rightarrow> event" where
  "listed_columns e = e\<lparr>ev_country := []\<rparr>"

definition list_limit :: "int \<Rightarrow> int" where
  "list_limit n = (if n \<le> 0 \<or> n > 500 then 50 else n)"

definition newest_first :: "event list \<Rightarrow> event list" where
  "newest_first es = order_by (\<lambda>e. - ev_ts e) (order_by (\<lambda>e. - ev_id e) es)"

definition ListEvents ::
  "string option \<Rightarrow> string option \<Rightarrow> (string \<Rightarrow> sql_arg list \<Rightarrow> event \<Rightarrow> bool) \<Rightarrow> event_filter \<Rightarrow> event_table \<Rightarrow> (event list \<times> int) result" where
  "ListEvents db1 db2 sat f t =
     (case where_clause f of (w, args) \<Rightarrow>
       (case query db1 (length (filter (sat w args) (evt_rows t))) of
          Inl e \<Rightarrow> Inl e
        | Inr cnt \<Rightarrow>
            (case query db2 (take (nat (list_limit (ef_limit f))) (drop (nat (max 0 (ef_offset f)))
                     (newest_first (filter (sat w args) (evt_rows t))))) of
               Inl e \<Rightarrow> Inl e
             | Inr rows \<Rightarrow> Inr (map listed_columns rows, int cnt))))"

subsection \<open>Counting\<close>

record bucket =
  bk_key :: string
  bk_label :: string
  bk_count :: int

definition group_keys :: "(event \<Rightarrow> string) \<Rightarrow> event list \<Rightarrow> string list" where
  "group_keys k es = dedup_by (\<lambda>v. v) [] (map k es)"

definition group_count :: "(event \<Rightarrow> string) \<Rightarrow> event list \<Rightarrow> (string \<times> int) list" where
  "group_count k es = map (\<lambda>v. (v, int (length (filter (\<lambda>e. k e = v) es)))) (group_keys k es)"

definition top_groups :: "nat \<Rightarrow> (string \<times> int) list \<Rightarrow> (string \<times> int) list" where
  "top_groups limit gs = take limit (order_by (\<lambda>(v, n). - n) gs)"

definition TopAttackers :: "string option \<Rightarrow> int \<Rightarrow> nat \<Rightarrow> event_table \<Rightarrow> bucket list result" where
  "TopAttackers db since limit t = query db
     (map (\<lambda>(v, n). \<lparr>bk_key = v, bk_label = v, bk_count = n\<rparr>)
        (top_groups limit (group_count ev_ip
           (filter (\<lambda>e. ev_ts e \<ge> since \<and> (ev_action e = ''deny'' \<or> ev_action e = ''challenge'')) (evt_rows t)))))"

definition max_string :: "string list \<Rightarrow> string" where
  "max_string ss = foldl (\<lambda>a b. if a < b then b else a) [] ss"

definition TopRules :: "string option \<Rightarrow> int \<Rightarrow> nat \<Rightarrow> event_table \<Rightarrow> bucket list result" where
  "TopRules db since limit t = query db
     (let es = filter (\<lambda>e. ev_ts e \<ge> since \<and> ev_ruleID e \<noteq> []) (evt_rows t)
      in map (\<lambda>(v, n). (let m = max_string (map ev_ruleName (filter (\<lambda>e. ev_ruleID e = v) es))
                        in \<lparr>bk_key = v, bk_label = (if m = [] then v else m), bk_count = n\<rparr>))
           (top_groups limit (group_count ev_ruleID es)))"

definition CountEventsSince :: "string option \<Rightarrow> int \<Rightarrow> event_table \<Rightarrow> (string \<times> int) list result" where
  "CountEventsSince db since t = query db (group_count ev_action (filter (\<lambda>e. ev_ts e \<ge> since) (evt_rows t)))"

definition TopCountries :: "string option \<Rightarrow> int \<Rightarrow> nat \<Rightarrow> event_table \<Rightarrow> bucket list result" where
  "TopCountries db since limit t = query db
     (map (\<lambda>(v, n). \<lparr>bk_key = v, bk_label = v, bk_count = n\<rparr>)
        (top_groups limit (group_count ev_country
           (filter (\<lambda>e. ev_ts e \<ge> since \<and> ev_country e \<noteq> []) (evt_rows t)))))"

definition day_nanos :: int where "day_nanos = 86400000000000"

definition PurgeOldEvents :: "string option \<Rightarrow> int \<Rightarrow> int \<Rightarrow> event_table \<Rightarrow> nat result \<times> event_table" where
  "PurgeOldEvents db now days0 t =
     (let days = (if days0 \<le> 0 then 7 else days0)
      in (case db of Some msg \<Rightarrow> (Inl (DbFailed msg), t)
          | None \<Rightarrow> (case delete_rows (\<lambda>e. ev_ts e < now - days * day_nanos) (evt_rows t) of
                       (n, rows) \<Rightarrow> (Inr n, t\<lparr>evt_rows := rows\<rparr>))))"

subsection \<open>Statistics\<close>

definition stat_merge :: "stat_point \<Rightarrow> stat_point \<Rightarrow> stat_point" where
  "stat_merge old p = \<lparr>sp_minute = sp_minute old, sp_total = max (sp_total old) (sp_total p),
     sp_blocked = max (sp_blocked old) (sp_blocked p), sp_challenged = max (sp_challenged old) (sp_challenged p),
     sp_monitored = max (sp_monitored old) (sp_monitored p), sp_errors4xx = max (sp_errors4xx old) (sp_errors4xx p),
     sp_blocked4xx = max (sp_blocked4xx old) (sp_blocked4xx p), sp_errors5xx = max (sp_errors5xx old) (sp_errors5xx p),
     sp_pageViews = max (sp_pageViews old) (sp_pageViews p)\<rparr>"

definition UpsertStat :: "string option \<Rightarrow> stat_point \<Rightarrow> stat_point list \<Rightarrow> unit result \<times> stat_point list" where
  "UpsertStat db p t = exec_plain db (upsert_row sp_minute (\<lambda>p. p) stat_merge p t) t"

definition Timeseries :: "string option \<Rightarrow> int \<Rightarrow> stat_point list \<Rightarrow> stat_point list result" where
  "Timeseries db since t = query db (order_by sp_minute (filter (\<lambda>p. sp_minute p \<ge> since) t))"

definition StatTotals :: "string option \<Rightarrow> int \<Rightarrow> stat_point list \<Rightarrow> stat_point result" where
  "StatTotals db since t = query db
     (let ps = filter (\<lambda>p. sp_minute p \<ge> since) t
      in \<lparr>sp_minute = 0, sp_total = sum_list (map sp_total ps), sp_blocked = sum_list (map sp_blocked ps),
          sp_challenged = sum_list (map sp_challenged ps), sp_monitored = sum_list (map sp_monitored ps),
          sp_errors4xx = sum_list (map sp_errors4xx ps), sp_blocked4xx = sum_list (map sp_blocked4xx ps),
          sp_errors5xx = sum_list (map sp_errors5xx ps), sp_pageViews = sum_list (map sp_pageViews ps)\<rparr>)"

definition PurgeOldStats :: "string option \<Rightarrow> int \<Rightarrow> int \<Rightarrow> stat_point list \<Rightarrow> unit result \<times> stat_point list" where
  "PurgeOldStats db now days t = exec_plain db (snd (delete_rows (\<lambda>p. sp_minute p < now - days * day_nanos) t)) t"

interpretation stats: keyed_table sp_minute "\<lambda>p. p" stat_merge
  by unfold_locales (simp_all add: stat_merge_def)

subsection \<open>The WHERE text carries no user input\<close>

text \<open>Which fields of a filter are set: all the SQL text can depend on.\<close>

definition filter_shape :: "event_filter \<Rightarrow> bool list" where
  "filter_shape f = [ef_site f \<noteq> [], ef_ip f \<noteq> [], ef_action f \<noteq> [], ef_severity f \<noteq> [], ef_search f \<noteq> [],
     ef_from f \<noteq> None, ef_to f \<noteq> None]"

definition same_clause :: "clause \<Rightarrow> clause \<Rightarrow> bool" where
  "same_clause c d \<longleftrightarrow> fst c = fst d \<and> length (snd c) = length (snd d) \<and> length (fst c) = length (snd c)"

lemma same_clause_add: "same_clause c d \<Longrightarrow> same_clause (add_cond s v c) (add_cond s w d)"
  by (auto simp: same_clause_def add_cond_def split: prod.split)

lemma same_clause_search: "same_clause c d \<Longrightarrow> same_clause (add_search v c) (add_search w d)"
  by (auto simp: same_clause_def add_search_def Let_def split: prod.split)

lemma same_clause_add_if: "(\<And>c d. same_clause c d \<Longrightarrow> same_clause (f c) (g d)) \<Longrightarrow> same_clause c d \<Longrightarrow>
   same_clause (add_if b f c) (add_if b g d)"
  by (simp add: add_if_def)

lemma clauses_shape:
  assumes "filter_shape f = filter_shape g"
  shows "same_clause (clauses f) (clauses g)"
proof -
  have e: "(ef_site f \<noteq> []) = (ef_site g \<noteq> [])" "(ef_ip f \<noteq> []) = (ef_ip g \<noteq> [])"
    "(ef_action f \<noteq> []) = (ef_action g \<noteq> [])" "(ef_severity f \<noteq> []) = (ef_severity g \<noteq> [])"
    "(ef_search f \<noteq> []) = (ef_search g \<noteq> [])" "(ef_from f \<noteq> None) = (ef_from g \<noteq> None)"
    "(ef_to f \<noteq> None) = (ef_to g \<noteq> None)"
    using assms by (simp_all add: filter_shape_def)
  have last: "same_clause (case ef_to f of None \<Rightarrow> c | Some t \<Rightarrow> add_cond s (ArgTime t) c)
      (case ef_to g of None \<Rightarrow> d | Some t \<Rightarrow> add_cond s (ArgTime t) d)" if "same_clause c d" for c d s
    using that e(7) by (auto simp: same_clause_add split: option.split)
  have frm: "same_clause (case ef_from f of None \<Rightarrow> c | Some t \<Rightarrow> add_cond s (ArgTime t) c)
      (case ef_from g of None \<Rightarrow> d | Some t \<Rightarrow> add_cond s (ArgTime t) d)" if "same_clause c d" for c d s
    using that e(6) by (auto simp: same_clause_add split: option.split)
  have base: "same_clause ([], []) ([], [])" by (simp add: same_clause_def)
  show ?thesis
    unfolding clauses_def Let_def e(1-5)
    by (intro last frm same_clause_add_if same_clause_add same_clause_search base)
qed

text \<open>
  No search term reaches the SQL text: two filters that set the same fields produce the same
  WHERE text, whatever they contain, and it has one numbered condition for each argument bound.
\<close>

theorem where_text_constant:
  assumes "filter_shape f = filter_shape g"
  shows "fst (where_clause f) = fst (where_clause g)
    \<and> length (snd (where_clause f)) = length (snd (where_clause g))
    \<and> length (fst (clauses f)) = length (snd (where_clause f))"
  using clauses_shape [OF assms] by (auto simp: where_clause_def same_clause_def split: prod.split)

lemma where_text_constant_witness:
  "fst (where_clause \<lparr>ef_site = ''s'', ef_ip = [], ef_action = [], ef_severity = [], ef_search = ''x OR 1=1'',
      ef_from = None, ef_to = None, ef_limit = 0, ef_offset = 0\<rparr>) =
   fst (where_clause \<lparr>ef_site = ''t'', ef_ip = [], ef_action = [], ef_severity = [], ef_search = ''y'',
      ef_from = None, ef_to = None, ef_limit = 9, ef_offset = 3\<rparr>)"
  using where_text_constant [of "\<lparr>ef_site = ''s'', ef_ip = [], ef_action = [], ef_severity = [], ef_search = ''x OR 1=1'',
      ef_from = None, ef_to = None, ef_limit = 0, ef_offset = 0\<rparr>"
     "\<lparr>ef_site = ''t'', ef_ip = [], ef_action = [], ef_severity = [], ef_search = ''y'',
      ef_from = None, ef_to = None, ef_limit = 9, ef_offset = 3\<rparr>"]
  by (simp add: filter_shape_def)

text \<open>
  A listing is bounded and total: at most 500 events come back whatever limit is asked for, all
  of them stored events that satisfy the filter, with the number of matches beside them. But the
  country recorded with an event never comes back: the SELECT does not name the column.
\<close>

theorem list_events_page:
  assumes "ListEvents db1 db2 sat f t = Inr (es, cnt)"
  shows "length es \<le> 500 \<and> int (length es) \<le> cnt
    \<and> cnt = int (length (filter (sat (fst (where_clause f)) (snd (where_clause f))) (evt_rows t)))
    \<and> list_all (\<lambda>e. ev_country e = []) es
    \<and> set es \<subseteq> listed_columns ` {e \<in> set (evt_rows t). sat (fst (where_clause f)) (snd (where_clause f)) e}"
proof -
  obtain w args where wa: "where_clause f = (w, args)" by (cases "where_clause f")
  let ?m = "filter (sat w args) (evt_rows t)"
  have es: "es = map listed_columns (take (nat (list_limit (ef_limit f))) (drop (nat (max 0 (ef_offset f))) (newest_first ?m)))"
    and cnt: "cnt = int (length ?m)"
    using assms by (auto simp: ListEvents_def wa query_def split: option.splits)
  have "list_limit (ef_limit f) \<le> 500" by (simp add: list_limit_def)
  then have "nat (list_limit (ef_limit f)) \<le> 500" by linarith
  then have "length es \<le> 500" by (simp add: es)
  moreover have "set (take a (drop b (newest_first ?m))) \<subseteq> set ?m" for a b
    using set_take_subset [of a "drop b (newest_first ?m)"] set_drop_subset [of b "newest_first ?m"]
    by (auto simp: newest_first_def)
  moreover have "length (newest_first ?m) = length ?m" by (simp add: newest_first_def)
  moreover have "length (map listed_columns (take a (drop b (newest_first ?m)))) \<le> length ?m" for a b
    by (simp add: newest_first_def min.coboundedI1)
  ultimately show ?thesis using cnt
    unfolding es wa by (simp add: list_all_iff listed_columns_def del: length_map length_take) blast
qed

lemma list_events_page_witness:
  "fst (where_clause \<lparr>ef_site = [], ef_ip = [], ef_action = [], ef_severity = [], ef_search = [],
      ef_from = None, ef_to = None, ef_limit = 0, ef_offset = 0\<rparr>) = [] \<and> length ([] :: event list) \<le> 500"
proof -
  let ?f = "\<lparr>ef_site = [], ef_ip = [], ef_action = [], ef_severity = [], ef_search = [],
      ef_from = None, ef_to = None, ef_limit = 0, ef_offset = 0\<rparr>"
  have w: "where_clause ?f = ([], [])" by (simp add: where_clause_def clauses_def add_if_def)
  have l: "ListEvents None None (\<lambda>w a e. True) ?f \<lparr>evt_next = 1, evt_rows = []\<rparr> = Inr ([], 0)"
    by (simp add: ListEvents_def w query_def newest_first_def)
  from list_events_page [OF l] w show ?thesis by simp
qed

subsection \<open>The counters of a minute\<close>

definition stat_le :: "stat_point \<Rightarrow> stat_point \<Rightarrow> bool" where
  "stat_le p q \<longleftrightarrow> sp_total p \<le> sp_total q \<and> sp_blocked p \<le> sp_blocked q \<and> sp_challenged p \<le> sp_challenged q
     \<and> sp_monitored p \<le> sp_monitored q \<and> sp_errors4xx p \<le> sp_errors4xx q \<and> sp_blocked4xx p \<le> sp_blocked4xx q
     \<and> sp_errors5xx p \<le> sp_errors5xx q \<and> sp_pageViews p \<le> sp_pageViews q"

lemma stat_merge_upper: "stat_le p (stat_merge p q) \<and> stat_le q (stat_merge p q)"
  by (simp add: stat_le_def stat_merge_def)

lemma stat_le_trans: "stat_le p q \<Longrightarrow> stat_le q r \<Longrightarrow> stat_le p r"
  by (auto simp: stat_le_def)

lemma stat_merge_idem: "stat_merge (stat_merge p q) q = stat_merge p q"
  by (simp add: stat_merge_def)

lemma stat_merge_swap: "stat_merge (stat_merge p q) r = stat_merge (stat_merge p r) q"
  by (simp add: stat_merge_def max.commute max.left_commute)

lemma stat_merge_commute: "sp_minute p = sp_minute q \<Longrightarrow> stat_merge p q = stat_merge q p"
  by (simp add: stat_merge_def max.commute)

lemma stat_merge_self [simp]: "stat_merge p p = p"
  by (simp add: stat_merge_def)

abbreviation flush_stat :: "stat_point \<Rightarrow> stat_point list \<Rightarrow> stat_point list" where
  "flush_stat p t \<equiv> snd (UpsertStat None p t)"

lemma flush_stat_row: "flush_stat p t = upsert_row sp_minute (\<lambda>p. p) stat_merge p t"
  by (simp add: UpsertStat_def exec_plain_def)

text \<open>The row of one minute after a flush, from the contract of a keyed table.\<close>

lemma flush_stat_find:
  "find_row sp_minute m (flush_stat p t) =
     (if m \<noteq> sp_minute p then find_row sp_minute m t
      else Some (case find_row sp_minute m t of None \<Rightarrow> p | Some old \<Rightarrow> stat_merge old p))"
  using stats.upsert_find_same [of p t] stats.upsert_find_other [of m p t]
  by (simp add: flush_stat_row split: option.split)

lemma flush_stat_swap:
  "find_row sp_minute m (flush_stat p (flush_stat q t)) = find_row sp_minute m (flush_stat q (flush_stat p t))"
proof (cases "m = sp_minute p \<and> m = sp_minute q")
  case True
  then have "sp_minute p = m" and "sp_minute q = m" by simp_all
  then show ?thesis
    by (cases "find_row sp_minute m t") (simp_all add: flush_stat_find stat_merge_swap [of _ q p] stat_merge_commute [of q p])
next
  case False
  then show ?thesis by (cases "m = sp_minute p") (simp_all add: flush_stat_find)
qed

text \<open>
  The counters of a minute only grow. Merging a point in is a maximum: it never lowers a
  counter, merging the same point again changes nothing, the order of two flushes does not matter,
  and the totals since any time are monotone in it; no other minute is touched.
\<close>

theorem stat_counters_grow:
  "(\<forall>old. find_row sp_minute m t = Some old \<longrightarrow>
      (\<exists>r. find_row sp_minute m (flush_stat p t) = Some r \<and> stat_le old r))
    \<and> (\<exists>r. find_row sp_minute (sp_minute p) (flush_stat p t) = Some r \<and> stat_le p r)
    \<and> find_row sp_minute m (flush_stat p (flush_stat p t)) = find_row sp_minute m (flush_stat p t)
    \<and> find_row sp_minute m (flush_stat p (flush_stat q t)) = find_row sp_minute m (flush_stat q (flush_stat p t))
    \<and> (m \<noteq> sp_minute p \<longrightarrow> find_row sp_minute m (flush_stat p t) = find_row sp_minute m t)"
proof (intro conjI)
  show "\<forall>old. find_row sp_minute m t = Some old \<longrightarrow>
      (\<exists>r. find_row sp_minute m (flush_stat p t) = Some r \<and> stat_le old r)"
    by (auto simp: flush_stat_find stat_merge_upper) (simp add: stat_le_def)
  show "\<exists>r. find_row sp_minute (sp_minute p) (flush_stat p t) = Some r \<and> stat_le p r"
    by (auto simp: flush_stat_find stat_merge_upper split: option.split) (simp add: stat_le_def)
  show "find_row sp_minute m (flush_stat p (flush_stat p t)) = find_row sp_minute m (flush_stat p t)"
    by (auto simp: flush_stat_find stat_merge_idem split: option.split)
  show "find_row sp_minute m (flush_stat p (flush_stat q t)) = find_row sp_minute m (flush_stat q (flush_stat p t))"
    by (rule flush_stat_swap)
  show "m \<noteq> sp_minute p \<longrightarrow> find_row sp_minute m (flush_stat p t) = find_row sp_minute m t"
    by (simp add: flush_stat_find)
qed

abbreviation demo_stat :: "int \<Rightarrow> int \<Rightarrow> stat_point" where
  "demo_stat m n \<equiv> \<lparr>sp_minute = m, sp_total = n, sp_blocked = 0, sp_challenged = 0, sp_monitored = 0,
     sp_errors4xx = 0, sp_blocked4xx = 0, sp_errors5xx = 0, sp_pageViews = 0\<rparr>"

lemma stat_counters_grow_witness:
  "\<exists>r. find_row sp_minute 60 (flush_stat (demo_stat 60 3) [demo_stat 60 9]) = Some r \<and> sp_total r = 9"
proof -
  have "find_row sp_minute 60 [demo_stat 60 9] = Some (demo_stat 60 9)" by (simp add: find_row_def)
  then obtain r where "find_row sp_minute 60 (flush_stat (demo_stat 60 3) [demo_stat 60 9]) = Some r"
      and "stat_le (demo_stat 60 9) r"
    using stat_counters_grow [of 60 "[demo_stat 60 9]" "demo_stat 60 3" "demo_stat 60 3"] by blast
  moreover from this have "sp_total r = 9"
    by (auto simp: flush_stat_find find_row_Cons stat_merge_def)
  ultimately show ?thesis by blast
qed

end
