(* ===== verification/StoreUsers.thy ===== *)
theory StoreUsers
  imports StoreModels
begin

section \<open>The store: the dashboard's own accounts\<close>

text \<open>
  \<open>control/internal/store/users.go\<close> on the table \<open>users\<close>. Times are nanoseconds; \<open>hash\<close> and
  \<open>compare\<close> are bcrypt, as in \<open>StoreSiteUsers\<close>. The column \<open>updated_at\<close> (\<open>ur_updatedAt\<close>) is the
  moment the credentials last changed: it is what ends the sessions opened before it (\<open>ApiAuth\<close>).
\<close>

record user_row =
  ur_id :: int
  ur_username :: string
  ur_hash :: string
  ur_createdAt :: int
  ur_updatedAt :: int

record user_table =
  urt_next :: int
  urt_rows :: "user_row list"

definition user_of :: "user_row \<Rightarrow> user" where
  "user_of r = \<lparr>us_id = ur_id r, us_username = ur_username r, us_createdAt = ur_createdAt r\<rparr>"

definition CountUsers :: "string option \<Rightarrow> user_table \<Rightarrow> int result" where
  "CountUsers db t = query db (int (length (urt_rows t)))"

text \<open>The id is drawn before the conflict is found, so a refused INSERT leaves a gap.\<close>

definition CreateUser ::
  "(string \<Rightarrow> string result) \<Rightarrow> string option \<Rightarrow> int \<Rightarrow> string \<Rightarrow> string \<Rightarrow> user_table \<Rightarrow> unit result \<times> user_table" where
  "CreateUser hash db now username password t =
     (case hash password of
        Inl e \<Rightarrow> (Inl e, t)
      | Inr h \<Rightarrow> exec_plain db
          \<lparr>urt_next = urt_next t + 1,
           urt_rows = (if list_ex (\<lambda>r. ur_username r = username) (urt_rows t) then urt_rows t
                       else urt_rows t @ [\<lparr>ur_id = urt_next t, ur_username = username, ur_hash = h,
                                            ur_createdAt = now, ur_updatedAt = now\<rparr>])\<rparr> t)"

definition AuthenticateUser ::
  "(string \<Rightarrow> string \<Rightarrow> bool) \<Rightarrow> string option \<Rightarrow> string \<Rightarrow> string \<Rightarrow> user_table \<Rightarrow> user result" where
  "AuthenticateUser compare db username password t =
     (case query_row db ErrBadCredentials (find_row ur_username username (urt_rows t)) of
        Inl e \<Rightarrow> Inl e
      | Inr r \<Rightarrow> if \<not> compare (ur_hash r) password then Inl ErrBadCredentials else Inr (user_of r))"

definition GetUser :: "string option \<Rightarrow> int \<Rightarrow> user_table \<Rightarrow> user result" where
  "GetUser db uid t = query_row db ErrNotFound (map_option user_of (find_row ur_id uid (urt_rows t)))"

definition PasswordChangedAt :: "string option \<Rightarrow> int \<Rightarrow> user_table \<Rightarrow> int result" where
  "PasswordChangedAt db uid t = query_row db ErrNotFound (map_option ur_updatedAt (find_row ur_id uid (urt_rows t)))"

definition SetPassword ::
  "(string \<Rightarrow> string result) \<Rightarrow> string option \<Rightarrow> int \<Rightarrow> string \<Rightarrow> string \<Rightarrow> user_table \<Rightarrow> unit result \<times> user_table" where
  "SetPassword hash db now username password t =
     (if length password < 8 then (Inl (Invalid ''the password must be at least 8 characters''), t)
      else (case hash password of
              Inl e \<Rightarrow> (Inl e, t)
            | Inr h \<Rightarrow> (case exec_affected db ErrNotFound
                  (update_rows (\<lambda>r. ur_username r = username) (\<lambda>r. r\<lparr>ur_hash := h, ur_updatedAt := now\<rparr>) (urt_rows t))
                  (urt_rows t) of (res, rows) \<Rightarrow> (res, t\<lparr>urt_rows := rows\<rparr>))))"

subsection \<open>Invariant and facts\<close>

definition users_inv :: "user_table \<Rightarrow> bool" where
  "users_inv t \<longleftrightarrow> unique_by ur_id (urt_rows t) \<and> unique_by ur_username (urt_rows t)
     \<and> list_all (\<lambda>r. ur_id r < urt_next t) (urt_rows t)"

lemma CreateUser_inv: "users_inv t \<Longrightarrow> users_inv (snd (CreateUser hash db now username password t))"
  by (auto simp: CreateUser_def exec_plain_def users_inv_def unique_by_def list_all_iff list_ex_iff
      split: sum.split option.split)

lemma SetPassword_inv: "users_inv t \<Longrightarrow> users_inv (snd (SetPassword hash db now username password t))"
  by (auto simp: SetPassword_def exec_affected_def users_inv_def update_rows_def unique_by_def comp_def
      if_distrib list_all_iff cong: if_cong split: sum.split option.split)

text \<open>A successful change stamps the row, and only that row, with the time of the change.\<close>

lemma SetPassword_Inr:
  assumes "SetPassword hash db now username password t = (Inr (), t')"
  obtains h where "hash password = Inr h" and "length password \<ge> 8"
    and "t' = t\<lparr>urt_rows := snd (update_rows (\<lambda>r. ur_username r = username)
           (\<lambda>r. r\<lparr>ur_hash := h, ur_updatedAt := now\<rparr>) (urt_rows t))\<rparr>"
  using assms by (auto simp: SetPassword_def exec_affected_def split: if_splits sum.splits option.splits prod.splits)

lemma PasswordChangedAt_after:
  assumes "SetPassword hash db now username password t = (Inr (), t')"
  shows "PasswordChangedAt None uid t' =
    (case find_row ur_id uid (urt_rows t) of None \<Rightarrow> Inl ErrNotFound
     | Some r \<Rightarrow> Inr (if ur_username r = username then now else ur_updatedAt r))"
proof -
  obtain h where "t' = t\<lparr>urt_rows := snd (update_rows (\<lambda>r. ur_username r = username)
           (\<lambda>r. r\<lparr>ur_hash := h, ur_updatedAt := now\<rparr>) (urt_rows t))\<rparr>"
    using assms by (rule SetPassword_Inr)
  then show ?thesis
    by (simp add: PasswordChangedAt_def query_row_def update_rows_find split: option.split)
qed

lemma AuthenticateUser_after:
  assumes "SetPassword hash db now username password t = (Inr (), t')"
    and "find_row ur_username username (urt_rows t) = Some r"
  shows "\<exists>h. hash password = Inr h \<and> AuthenticateUser compare None username pw t' =
    (if compare h pw then Inr (user_of r) else Inl ErrBadCredentials)"
proof -
  obtain h where h: "hash password = Inr h" "t' = t\<lparr>urt_rows := snd (update_rows (\<lambda>r. ur_username r = username)
           (\<lambda>r. r\<lparr>ur_hash := h, ur_updatedAt := now\<rparr>) (urt_rows t))\<rparr>"
    using assms(1) by (rule SetPassword_Inr)
  have "ur_username r = username" using find_row_Some [OF assms(2)] by simp
  then show ?thesis using h assms(2)
    by (auto simp: AuthenticateUser_def query_row_def update_rows_find user_of_def)
qed

end
