(* ===== verification/ApiHttp.thy ===== *)
theory ApiHttp
  imports StoreTable GoJson
begin

section \<open>The API: requests and replies\<close>

text \<open>
  The helpers of \<open>control/internal/api/server.go\<close> that every handler uses. A handler is a function
  from the parts of the request it reads (and the state it works on) to the reply it writes. An
  error reply carries its text, or the store error whose text it is; \<open>rp_retry\<close> is the header
  \<open>Retry-After\<close>. A body is the bytes read from the request, or a read error; \<open>P\<close> is the JSON
  syntax and \<open>E\<close> the text of a decoding error.
\<close>

datatype api_error = Msg string | FromStore store_error

record 'a reply =
  rp_code :: int
  rp_retry :: "int option"
  rp_body :: "api_error + 'a"

definition writeJSON :: "int \<Rightarrow> 'a \<Rightarrow> 'a reply" where
  "writeJSON code v = \<lparr>rp_code = code, rp_retry = None, rp_body = Inr v\<rparr>"

definition writeErr :: "int \<Rightarrow> string \<Rightarrow> 'a reply" where
  "writeErr code msg = \<lparr>rp_code = code, rp_retry = None, rp_body = Inl (Msg msg)\<rparr>"

text \<open>\<open>writeErr(w, code, err.Error())\<close>.\<close>

definition writeStoreErr :: "int \<Rightarrow> store_error \<Rightarrow> 'a reply" where
  "writeStoreErr code e = \<lparr>rp_code = code, rp_retry = None, rp_body = Inl (FromStore e)\<rparr>"

lemma reply_simps [simp]:
  "rp_code (writeJSON c v) = c" "rp_body (writeJSON c v) = Inr v" "rp_retry (writeJSON c v) = None"
  "rp_code (writeErr c m) = c" "rp_body (writeErr c m) = Inl (Msg m)" "rp_retry (writeErr c m) = None"
  "rp_code (writeStoreErr c e) = c" "rp_body (writeStoreErr c e) = Inl (FromStore e)"
  "rp_retry (writeStoreErr c e) = None"
  by (simp_all add: writeJSON_def writeErr_def writeStoreErr_def)

definition readJSON ::
  "(string \<Rightarrow> json option) \<Rightarrow> (string \<Rightarrow> string) \<Rightarrow> (json \<Rightarrow> 'r option) \<Rightarrow> string option \<Rightarrow> 'a reply + 'r" where
  "readJSON P E decode body =
     (case body of
        None \<Rightarrow> Inl (writeErr 400 ''could not read the request body'')
      | Some b \<Rightarrow>
          (let b = take 1048576 b
           in case P b of
                None \<Rightarrow> Inl (writeErr 400 (''invalid JSON: '' @ E b))
              | Some j \<Rightarrow> (case decode j of None \<Rightarrow> Inl (writeErr 400 (''invalid JSON: '' @ E b)) | Some r \<Rightarrow> Inr r)))"

text \<open>A refused body never reaches the handler's work: the reply is a 400.\<close>

lemma readJSON_Inl: "readJSON P E decode body = Inl r \<Longrightarrow> rp_code r = 400"
  by (auto simp: readJSON_def Let_def split: option.splits)

text \<open>\<open>queryInt\<close>: the first value of the query parameter, empty when it is absent.\<close>

definition queryInt :: "string \<Rightarrow> int \<Rightarrow> int" where
  "queryInt v def = (if v \<noteq> [] then (case atoi v of Some n \<Rightarrow> n | None \<Rightarrow> def) else def)"

text \<open>\<open>net.SplitHostPort\<close>, as \<open>clientIP\<close> uses it.\<close>

definition bracket_host :: "string \<Rightarrow> string option" where
  "bracket_host s =
     (case cut_at (CHR '']'') s of
        None \<Rightarrow> None
      | Some (host, rest) \<Rightarrow>
          (case rest of
             [] \<Rightarrow> None
           | c # port \<Rightarrow> if c \<noteq> CHR '':'' \<or> CHR '':'' \<in> set port \<or> CHR ''['' \<in> set (drop 1 host @ port)
                            \<or> CHR '']'' \<in> set port
                         then None else Some (drop 1 host)))"

definition split_host :: "string \<Rightarrow> string option" where
  "split_host s =
     (case cut_last (CHR '':'') s of
        None \<Rightarrow> None
      | Some (host, port) \<Rightarrow>
          if has_prefix ''['' s then bracket_host s
          else if CHR '':'' \<in> set host \<or> CHR ''['' \<in> set s \<or> CHR '']'' \<in> set s then None
          else Some host)"

definition clientIP :: "string \<Rightarrow> string" where
  "clientIP remote = (case split_host remote of None \<Rightarrow> remote | Some host \<Rightarrow> host)"

end
