(* ===== verification/LoginGuard.thy ===== *)
theory LoginGuard
  imports StoreSites "HOL-Library.AList"
begin

section \<open>The API: the brute force guard\<close>

text \<open>
  The type \<open>loginGuard\<close> of \<open>control/internal/api/auth.go\<close>, which counts failed logins per key (an
  address, or a site and an address). The Go map is a list of pairs with distinct keys, in the order
  a \<open>range\<close> over it takes; times are nanoseconds, and the readings of the clock inside one call are
  taken as one. The locale \<open>limiter\<close> is what the login handlers use of it, interpreted at the end.
\<close>

definition guardRetention :: int where "guardRetention = nanos (30 * 60)"
definition guardMaxIPs :: nat where "guardMaxIPs = 50000"

record attempt =
  at_fails :: int
  at_until :: int
  at_last :: int

type_synonym guard = "(string \<times> attempt) list"

text \<open>The zero \<open>time.Time\<close>: the first instant of year 1.\<close>

definition zero_time :: int where "zero_time = nanos (- 62135596800)"

definition new_attempt :: attempt where
  "new_attempt = \<lparr>at_fails = 0, at_until = zero_time, at_last = zero_time\<rparr>"

definition reap :: "int \<Rightarrow> guard \<Rightarrow> guard" where
  "reap now g = filter (\<lambda>(k, v). \<not> (now > at_until v \<and> time_sub now (at_last v) > guardRetention)) g"

definition blocked :: "int \<Rightarrow> string \<Rightarrow> guard \<Rightarrow> int" where
  "blocked now ip g =
     (case map_of g ip of
        None \<Rightarrow> 0
      | Some a \<Rightarrow> (let d = time_sub (at_until a) now in if d > 0 then d div 1000000000 + 1 else 0))"

fun evict_scan :: "guard \<Rightarrow> string \<times> int \<Rightarrow> string \<times> int" where
  "evict_scan [] acc = acc"
| "evict_scan ((k, v) # g) acc =
     evict_scan g (if fst acc = [] \<or> at_last v < snd acc then (k, at_last v) else acc)"

definition evictOldestLocked :: "guard \<Rightarrow> guard" where
  "evictOldestLocked g =
     (let oldest = fst (evict_scan g ([], zero_time)) in if oldest \<noteq> [] then AList.delete oldest g else g)"

definition fail :: "int \<Rightarrow> string \<Rightarrow> guard \<Rightarrow> guard" where
  "fail now ip g =
     (let g1 = (if map_of g ip = None \<and> length g \<ge> guardMaxIPs then evictOldestLocked g else g);
          a = (case map_of g ip of None \<Rightarrow> new_attempt | Some a \<Rightarrow> a);
          n = at_fails a + 1;
          until = (if n \<ge> 10 then now + nanos (30 * 60) else if n \<ge> 5 then now + nanos (5 * 60) else at_until a)
      in AList.update ip \<lparr>at_fails = n, at_until = until, at_last = now\<rparr> g1)"

definition success :: "string \<Rightarrow> guard \<Rightarrow> guard" where
  "success ip g = AList.delete ip g"

subsection \<open>The invariant\<close>

definition guard_inv :: "guard \<Rightarrow> bool" where
  "guard_inv g \<longleftrightarrow> distinct (map fst g) \<and> [] \<notin> fst ` set g \<and> length g \<le> guardMaxIPs
     \<and> list_all (\<lambda>(k, a). at_fails a \<ge> 1) g"

definition fails_of :: "guard \<Rightarrow> string \<Rightarrow> int" where
  "fails_of g ip = (case map_of g ip of None \<Rightarrow> 0 | Some a \<Rightarrow> at_fails a)"

lemma guard_inv_subset:
  "guard_inv g \<Longrightarrow> guard_inv (filter P g)"
  unfolding guard_inv_def
  by (auto simp: distinct_map_filter list_all_iff intro: le_trans [OF length_filter_le])

lemma delete_filter: "AList.delete k g = filter (\<lambda>(j, v). j \<noteq> k) g"
  by (auto simp: AList.delete_eq case_prod_unfold intro!: filter_cong)

lemma reap_inv: "guard_inv g \<Longrightarrow> guard_inv (reap now g)"
  unfolding reap_def by (rule guard_inv_subset)

lemma success_inv: "guard_inv g \<Longrightarrow> guard_inv (success ip g)"
  unfolding success_def delete_filter by (rule guard_inv_subset)

lemma evict_scan_key:
  "fst acc \<noteq> [] \<Longrightarrow> [] \<notin> fst ` set g \<Longrightarrow> fst (evict_scan g acc) \<noteq> []
     \<and> (evict_scan g acc = acc \<or> (\<exists>(k, v) \<in> set g. evict_scan g acc = (k, at_last v)))
     \<and> snd (evict_scan g acc) \<le> snd acc \<and> (\<forall>(k, v) \<in> set g. snd (evict_scan g acc) \<le> at_last v)"
proof (induction g acc rule: evict_scan.induct)
  case (1 acc)
  then show ?case by simp
next
  case (2 k v g acc)
  let ?acc = "if fst acc = [] \<or> at_last v < snd acc then (k, at_last v) else acc"
  have "fst ?acc \<noteq> []" and "[] \<notin> fst ` set g" using 2 by auto
  from 2(1) [OF this] show ?case
    by (cases "at_last v < snd acc") (use 2(2,3) in fastforce)+
qed

text \<open>What is evicted: one record, and none that was active less recently remains.\<close>

lemma evictOldest:
  assumes "guard_inv g" and "g \<noteq> []"
  shows "\<exists>(k, v) \<in> set g. evictOldestLocked g = AList.delete k g \<and> k \<noteq> []
    \<and> (\<forall>(k', v') \<in> set g. at_last v \<le> at_last v')"
proof -
  obtain k0 v0 g' where g: "g = (k0, v0) # g'" using assms(2) by (cases g) auto
  have k: "k0 \<noteq> []" "[] \<notin> fst ` set g'" using assms(1) by (auto simp: g guard_inv_def)
  let ?r = "evict_scan g' (k0, at_last v0)"
  have r: "evict_scan g ([], zero_time) = ?r" by (simp add: g)
  have *: "fst ?r \<noteq> []" "?r = (k0, at_last v0) \<or> (\<exists>(k, v) \<in> set g'. ?r = (k, at_last v))"
    "snd ?r \<le> at_last v0" "\<forall>(k, v) \<in> set g'. snd ?r \<le> at_last v"
    using evict_scan_key [of "(k0, at_last v0)" g'] k by auto
  obtain v where v: "(fst ?r, v) \<in> set g" "snd ?r = at_last v"
    using *(2)
  proof
    assume "?r = (k0, at_last v0)"
    then show thesis using that [of v0] by (simp add: g)
  next
    assume "\<exists>(k, v) \<in> set g'. ?r = (k, at_last v)"
    then obtain k v where "(k, v) \<in> set g'" "?r = (k, at_last v)" by blast
    then show thesis using that [of v] by (simp add: g)
  qed
  have "evictOldestLocked g = AList.delete (fst ?r) g"
    using *(1) by (simp add: evictOldestLocked_def r)
  moreover have "\<forall>(k', v') \<in> set g. at_last v \<le> at_last v'"
    using *(3,4) v(2) by (auto simp: g)
  ultimately show ?thesis using v(1) *(1) by blast
qed

lemma evict_length: "guard_inv g \<Longrightarrow> g \<noteq> [] \<Longrightarrow> length (evictOldestLocked g) < length g"
proof -
  assume "guard_inv g" "g \<noteq> []"
  then obtain k v where "(k, v) \<in> set g" and e: "evictOldestLocked g = AList.delete k g"
    using evictOldest [of g] by blast
  then show ?thesis unfolding e delete_filter by (auto intro!: length_filter_less)
qed

lemma evict_inv: "guard_inv g \<Longrightarrow> guard_inv (evictOldestLocked g)"
  unfolding evictOldestLocked_def Let_def delete_filter by (simp add: guard_inv_subset)

lemma evict_other: "map_of g ip = None \<Longrightarrow> map_of (evictOldestLocked g) ip = None"
  by (simp add: evictOldestLocked_def Let_def AList.delete_conv')

lemma fail_map:
  "map_of (fail now ip g) ip = Some (let n = fails_of g ip + 1 in
     \<lparr>at_fails = n,
      at_until = (if n \<ge> 10 then now + nanos (30 * 60) else if n \<ge> 5 then now + nanos (5 * 60)
                  else (case map_of g ip of None \<Rightarrow> zero_time | Some a \<Rightarrow> at_until a)),
      at_last = now\<rparr>)"
  by (simp add: fail_def Let_def AList.update_conv' fails_of_def new_attempt_def split: option.split)

lemma fail_fails: "fails_of (fail now ip g) ip = fails_of g ip + 1"
  by (simp add: fails_of_def [of "fail now ip g"] fail_map Let_def)

lemma fail_other: "k \<noteq> ip \<Longrightarrow> map_of g ip \<noteq> None \<or> length g < guardMaxIPs \<Longrightarrow> map_of (fail now ip g) k = map_of g k"
  by (auto simp: fail_def Let_def AList.update_conv')

lemma fails_nonneg: "guard_inv g \<Longrightarrow> 0 \<le> fails_of g ip"
  unfolding fails_of_def guard_inv_def
  by (force simp: list_all_iff dest: map_of_SomeD split: option.split)

lemma guard_inv_update:
  assumes "guard_inv g" and "ip \<noteq> []" and "at_fails a \<ge> 1" and "map_of g ip = None \<longrightarrow> length g < guardMaxIPs"
  shows "guard_inv (AList.update ip a g)"
proof -
  have keys: "map fst (AList.update ip a g) = (if ip \<in> set (map fst g) then map fst g else map fst g @ [ip])"
    by (rule AList.update_keys)
  have "ip \<in> set (map fst g) \<longleftrightarrow> map_of g ip \<noteq> None" by (simp add: map_of_eq_None_iff)
  then have "length (map fst (AList.update ip a g)) \<le> guardMaxIPs"
    using assms(1,4) unfolding keys by (auto simp: guard_inv_def)
  moreover have "distinct (map fst (AList.update ip a g))" and "[] \<notin> set (map fst (AList.update ip a g))"
    using assms(1,2) unfolding keys by (auto simp: guard_inv_def)
  moreover have "set (AList.update ip a g) \<subseteq> insert (ip, a) (set g)"
    by (induction g) auto
  ultimately show ?thesis using assms(1,3) by (auto simp: guard_inv_def list_all_iff)
qed

lemma fail_inv: "guard_inv g \<Longrightarrow> ip \<noteq> [] \<Longrightarrow> guard_inv (fail now ip g)"
proof -
  assume inv: "guard_inv g" and ip: "ip \<noteq> []"
  define g1 where "g1 = (if map_of g ip = None \<and> length g \<ge> guardMaxIPs then evictOldestLocked g else g)"
  have "guard_inv g1" using inv by (simp add: g1_def evict_inv)
  moreover have "map_of g1 ip = None \<longrightarrow> length g1 < guardMaxIPs"
    using inv evict_length [OF inv] by (cases "g = []") (auto simp: g1_def guard_inv_def guardMaxIPs_def)
  moreover have "fails_of g ip + 1 \<ge> 1" using fails_nonneg [OF inv] by simp
  ultimately show ?thesis using ip
    by (auto simp: fail_def Let_def g1_def [symmetric] fails_of_def new_attempt_def
        intro!: guard_inv_update split: option.splits)
qed

lemma success_map: "map_of (success ip g) = (map_of g)(ip := None)"
  by (simp add: success_def AList.delete_conv')

lemma blocked_pos: "blocked now ip g > 0 \<longleftrightarrow> (\<exists>a. map_of g ip = Some a \<and> now < at_until a)"
  by (auto simp: blocked_def Let_def time_sub_def div_add1_eq split: option.split)

text \<open>Reaping never lifts a lock: only records whose lock is over are dropped.\<close>

lemma reap_map: "distinct (map fst g) \<Longrightarrow> map_of (reap now g) k =
   (case map_of g k of None \<Rightarrow> None
    | Some a \<Rightarrow> if now > at_until a \<and> time_sub now (at_last a) > guardRetention then None else Some a)"
proof (induction g)
  case Nil
  then show ?case by (simp add: reap_def)
next
  case (Cons e g)
  obtain j v where e: "e = (j, v)" by (cases e)
  have "map_of (reap now g) j = None" if "j = k"
    using Cons.prems by (auto simp: e reap_def map_of_eq_None_iff)
  moreover have "map_of g j = None" using Cons.prems by (auto simp: e map_of_eq_None_iff)
  ultimately show ?case using Cons by (auto simp: e reap_def split: option.splits)
qed

lemma time_sub_pos: "0 < time_sub a b \<longleftrightarrow> b < a"
  by (auto simp: time_sub_def)

lemma reap_blocked: "guard_inv g \<Longrightarrow> now \<le> t \<Longrightarrow> blocked t k (reap now g) = blocked t k g"
  unfolding guard_inv_def
  by (cases "map_of g k") (auto simp: blocked_def reap_map Let_def time_sub_pos)

subsection \<open>What happens to the guard between two logins of an address\<close>

text \<open>The reaper's tick, and the failures and sign-ins of other addresses.\<close>

datatype guard_event = Reaped int | Refused int string | Accepted string

fun guard_after :: "guard_event \<Rightarrow> guard \<Rightarrow> guard" where
  "guard_after (Reaped now) g = reap now g"
| "guard_after (Refused now k) g = fail now k g"
| "guard_after (Accepted k) g = success k g"

text \<open>Events up to \<open>t\<close> that are not about \<open>k\<close>.\<close>

fun other_key :: "string \<Rightarrow> int \<Rightarrow> guard_event \<Rightarrow> bool" where
  "other_key k t (Reaped now) \<longleftrightarrow> now \<le> t"
| "other_key k t (Refused now j) \<longleftrightarrow> j \<noteq> k \<and> j \<noteq> []"
| "other_key k t (Accepted j) \<longleftrightarrow> j \<noteq> k"

lemma fail_length: "length (fail now k g) \<le> Suc (length g)"
proof -
  have u: "length (AList.update k a h) \<le> Suc (length h)" for a and h :: guard by (induction h) auto
  have "length (evictOldestLocked g) \<le> length g" by (simp add: evictOldestLocked_def Let_def delete_filter)
  then show ?thesis using u [of _ "evictOldestLocked g"] u [of _ g] by (auto simp: fail_def Let_def intro: le_trans)
qed

lemma guard_after_ok:
  assumes "guard_inv g" "other_key k t e"
  shows "guard_inv (guard_after e g)" "length (guard_after e g) \<le> Suc (length g)"
proof -
  show "guard_inv (guard_after e g)" using assms by (cases e) (auto simp: reap_inv success_inv fail_inv)
  have f: "length (filter P g) \<le> Suc (length g)" for P by (rule le_SucI) simp
  show "length (guard_after e g) \<le> Suc (length g)"
    by (cases e) (simp_all add: fail_length reap_def success_def delete_filter f)
qed

text \<open>A record that was active within the retention, or is locked, survives while there is room.\<close>

lemma guard_after_keeps:
  assumes "guard_inv g" "other_key k t e" "length g < guardMaxIPs" "map_of g k = Some a" "t \<le> at_last a + nanos 1800 \<or> t \<le> at_until a"
  shows "map_of (guard_after e g) k = Some a"
proof (cases e)
  case (Reaped now)
  have "\<not> (now > at_until a \<and> time_sub now (at_last a) > guardRetention)"
    using assms(2,5) Reaped by (auto simp: time_sub_def guardRetention_def nanos_def)
  then show ?thesis using assms(1,4) Reaped by (auto simp: reap_map guard_inv_def)
next
  case (Refused now j)
  then show ?thesis using assms(2,3,4) fail_other [of k j g now] by auto
next
  case (Accepted j)
  then show ?thesis using assms(2,4) by (simp add: success_map)
qed

text \<open>What the last failure left: the lock its number asks for.\<close>

definition lock_set :: "attempt \<Rightarrow> bool" where
  "lock_set a \<longleftrightarrow> (at_fails a \<ge> 10 \<longrightarrow> at_until a = at_last a + nanos 1800)
     \<and> (at_fails a \<in> {5..9} \<longrightarrow> at_until a = at_last a + nanos 300)"

lemma fail_lock_set:
  "\<exists>a. map_of (fail now k g) k = Some a \<and> at_fails a = fails_of g k + 1 \<and> at_last a = now \<and> lock_set a"
  by (simp add: fail_map Let_def lock_set_def)

subsection \<open>What a login handler relies on\<close>

text \<open>
  A limiter keeps a record per key and has room for \<open>cap\<close> of them. Events away from a key keep its record as
  long as there is room and the record is locked or was active within the retention.
\<close>

locale limiter =
  fixes inv :: "'g \<Rightarrow> bool" and rec :: "'g \<Rightarrow> string \<Rightarrow> attempt option" and room :: "'g \<Rightarrow> nat" and cap :: nat
    and wait :: "int \<Rightarrow> string \<Rightarrow> 'g \<Rightarrow> int" and miss :: "int \<Rightarrow> string \<Rightarrow> 'g \<Rightarrow> 'g" and hit :: "string \<Rightarrow> 'g \<Rightarrow> 'g"
    and after :: "'e \<Rightarrow> 'g \<Rightarrow> 'g" and away :: "string \<Rightarrow> int \<Rightarrow> 'e \<Rightarrow> bool"
  assumes miss_inv: "inv g \<Longrightarrow> k \<noteq> [] \<Longrightarrow> inv (miss now k g)"
    and miss_room: "room (miss now k g) \<le> Suc (room g)"
    and miss_rec: "inv g \<Longrightarrow> \<exists>a. rec (miss now k g) k = Some a \<and> at_fails a = (case rec g k of None \<Rightarrow> 0 | Some b \<Rightarrow> at_fails b) + 1
        \<and> at_last a = now \<and> lock_set a"
    and rec_pos: "inv g \<Longrightarrow> rec g k = Some a \<Longrightarrow> 1 \<le> at_fails a"
    and hit_resets: "rec (hit k g) k = None" "wait t k (hit k g) = 0"
    and after_inv: "inv g \<Longrightarrow> away k t e \<Longrightarrow> inv (after e g)"
    and after_room: "inv g \<Longrightarrow> away k t e \<Longrightarrow> room (after e g) \<le> Suc (room g)"
    and after_keeps: "inv g \<Longrightarrow> away k t e \<Longrightarrow> room g < cap \<Longrightarrow> rec g k = Some a \<Longrightarrow>
        t \<le> at_last a + nanos 1800 \<or> t \<le> at_until a \<Longrightarrow> rec (after e g) k = Some a"
    and wait_locked: "rec g k = Some a \<Longrightarrow> t < at_until a \<Longrightarrow> 0 < wait t k g"
begin

lemma events_ok: "inv g \<Longrightarrow> list_all (away k t) es \<Longrightarrow> inv (fold after es g) \<and> room (fold after es g) \<le> room g + length es"
proof (induction es arbitrary: g)
  case (Cons e es)
  then have "away k t e" by simp
  note e = after_inv [OF Cons.prems(1) this] after_room [OF Cons.prems(1) this]
  show ?case using Cons.IH [OF e(1)] e(2) Cons.prems(2) by fastforce
qed simp

lemma events_keep:
  assumes "inv g" "list_all (away k t) es" "room g + length es \<le> cap" "rec g k = Some a"
    "t \<le> at_last a + nanos 1800 \<or> t \<le> at_until a"
  shows "rec (fold after es g) k = Some a"
  using assms(1-4)
proof (induction es arbitrary: g)
  case (Cons e es)
  have e: "away k t e" "room g < cap" using Cons.prems by simp_all
  show ?case unfolding fold.simps comp_apply
    by (rule Cons.IH [OF after_inv [OF Cons.prems(1) e(1)] _ _ after_keeps [OF Cons.prems(1) e Cons.prems(4) assms(5)]])
      (use after_room [OF Cons.prems(1) e(1)] Cons.prems in auto)
qed simp

text \<open>Failures of one key, each after some events elsewhere; and the room they can take.\<close>

definition misses :: "string \<Rightarrow> ('e list \<times> int) list \<Rightarrow> 'g \<Rightarrow> 'g" where
  "misses k xs g = fold (\<lambda>(es, now) g. miss now k (fold after es g)) xs g"

definition steady :: "string \<Rightarrow> ('e list \<times> int) list \<Rightarrow> bool" where
  "steady k xs \<longleftrightarrow> list_all (\<lambda>(es, now). list_all (away k now) es) xs \<and> successively (\<lambda>x y. snd y \<le> snd x + nanos 1800) xs"

definition weight :: "('e list \<times> int) list \<Rightarrow> nat" where
  "weight xs = sum_list (map (\<lambda>(es, now). Suc (length es)) xs)"

lemma misses_more:
  assumes "inv g" "k \<noteq> []" "rec g k = Some a" "lock_set a" "steady k ((es0, at_last a) # xs)" "room g + weight xs \<le> cap"
  shows "\<exists>b. inv (misses k xs g) \<and> rec (misses k xs g) k = Some b \<and> lock_set b \<and> at_fails b = at_fails a + int (length xs)
    \<and> at_last b = snd (last ((es0, at_last a) # xs)) \<and> room (misses k xs g) \<le> room g + weight xs"
  using assms
proof (induction xs arbitrary: g a es0)
  case (Cons x xs)
  obtain es now where x: "x = (es, now)" by (cases x)
  let ?h = "fold after es g" and ?g = "miss now k (fold after es g)"
  have away: "list_all (away k now) es" and near: "now \<le> at_last a + nanos 1800" and st: "steady k (x # xs)"
    using Cons.prems(5) by (simp_all add: x steady_def)
  have r: "room g + length es \<le> cap" using Cons.prems(6) by (simp add: x weight_def)
  have h: "inv ?h" "room ?h \<le> room g + length es" using events_ok [OF Cons.prems(1) away] by simp_all
  have ra: "rec ?h k = Some a" using events_keep [OF Cons.prems(1) away r Cons.prems(3)] near by blast
  obtain b where b: "rec ?g k = Some b" "at_fails b = at_fails a + 1" "at_last b = now" "lock_set b"
    using miss_rec [OF h(1), of now k] ra by auto
  have g: "inv ?g" "room ?g \<le> Suc (room g + length es)" using miss_inv [OF h(1) Cons.prems(2)] miss_room [of now k ?h] h(2) by simp_all
  then have w: "room ?g + weight xs \<le> cap" using Cons.prems(6) by (simp add: x weight_def)
  have "steady k ((es, at_last b) # xs)" using st b(3) by (simp add: x)
  from Cons.IH [OF g(1) Cons.prems(2) b(1,4) this w] show ?case
    using g(2) b(2,3) by (auto simp: x misses_def weight_def)
qed (auto simp: misses_def weight_def)

text \<open>The lock after a run of failures, and after further events up to the moment of the next login.\<close>

lemma misses_lock:
  assumes "inv g" "k \<noteq> []" "steady k xs" "room g + weight xs + length es \<le> cap" "length xs \<ge> 5"
    and "list_all (away k t) es" "t < snd (last xs) + nanos (if length xs \<ge> 10 then 1800 else 300)"
  shows "wait t k (fold after es (misses k xs g)) > 0"
proof -
  obtain es0 now ys where xs: "xs = (es0, now) # ys" using assms(5) by (cases xs) auto
  let ?h = "fold after es0 g" and ?g = "miss now k (fold after es0 g)"
  have h: "inv ?h" "room ?h \<le> room g + length es0" using events_ok [OF assms(1)] assms(3) by (auto simp: xs steady_def)
  obtain b where b: "rec ?g k = Some b" "1 \<le> at_fails b" "at_last b = now" "lock_set b"
    using miss_rec [OF h(1), of now k] rec_pos [OF h(1)] by (fastforce split: option.splits)
  have g: "inv ?g" "room ?g \<le> Suc (room g + length es0)" using miss_inv [OF h(1) assms(2)] miss_room [of now k ?h] h(2) by simp_all
  have m: "misses k xs g = misses k ys ?g" by (simp add: xs misses_def)
  have w: "room ?g + weight ys \<le> cap" using g(2) assms(4) by (simp add: xs weight_def)
  obtain c where c: "inv (misses k xs g)" "rec (misses k xs g) k = Some c" "lock_set c" "at_fails c \<ge> int (length xs)"
    "at_last c = snd (last xs)" "room (misses k xs g) \<le> room ?g + weight ys"
    using misses_more [OF g(1) assms(2) b(1,4) _ w, of es0] assms(3) b(2,3) m by (auto simp: xs)
  have r: "room (misses k xs g) + length es \<le> cap" using c(6) g(2) assms(4) by (simp add: xs weight_def)
  have t: "t < at_until c" using c(3,4,5) assms(5,7) by (auto simp: lock_set_def nanos_def split: if_splits)
  show ?thesis by (rule wait_locked [OF events_keep [OF c(1) assms(6) r c(2)] t]) (use t in simp)
qed

end

interpretation login_guard: limiter guard_inv map_of length guardMaxIPs blocked fail success guard_after other_key
proof unfold_locales
  fix g :: guard and k :: string and t now :: int and e :: guard_event and a :: attempt
  show "guard_inv g \<Longrightarrow> k \<noteq> [] \<Longrightarrow> guard_inv (fail now k g)" by (rule fail_inv)
  show "length (fail now k g) \<le> Suc (length g)" by (rule fail_length)
  show "\<exists>a. map_of (fail now k g) k = Some a \<and> at_fails a = (case map_of g k of None \<Rightarrow> 0 | Some b \<Rightarrow> at_fails b) + 1
        \<and> at_last a = now \<and> lock_set a"
    using fail_lock_set [of now k g] by (simp add: fails_of_def)
  show "guard_inv g \<Longrightarrow> map_of g k = Some a \<Longrightarrow> 1 \<le> at_fails a"
    by (force simp: guard_inv_def list_all_iff dest: map_of_SomeD)
  show "map_of (success k g) k = None" by (simp add: success_map)
  show "blocked t k (success k g) = 0" by (simp add: blocked_def success_map)
  show "guard_inv g \<Longrightarrow> other_key k t e \<Longrightarrow> guard_inv (guard_after e g)" by (rule guard_after_ok)
  show "guard_inv g \<Longrightarrow> other_key k t e \<Longrightarrow> length (guard_after e g) \<le> Suc (length g)" by (rule guard_after_ok)
  show "guard_inv g \<Longrightarrow> other_key k t e \<Longrightarrow> length g < guardMaxIPs \<Longrightarrow> map_of g k = Some a \<Longrightarrow>
        t \<le> at_last a + nanos 1800 \<or> t \<le> at_until a \<Longrightarrow> map_of (guard_after e g) k = Some a"
    by (rule guard_after_keeps)
  show "map_of g k = Some a \<Longrightarrow> t < at_until a \<Longrightarrow> 0 < blocked t k g" using blocked_pos by blast
qed

subsection \<open>What the guard promises\<close>

text \<open>
  C36 The guard keeps its promises. A failure counts one for its key; with the fifth the key is locked
  for five minutes and with the tenth for thirty, to the second; below five nothing is locked that
  was not, be the key known or new (on a clock that is past 1970); other keys are untouched while there is
  room, and when there is none a new key costs exactly the record that was active least recently; a success
  forgets the key, reaping never lifts a lock, and the map never holds more than 50000 records.
\<close>

theorem login_guard_exact:
  assumes "guard_inv g" and "k \<noteq> []" and "j \<noteq> k"
  shows "guard_inv (fail now k g) \<and> guard_inv (success k g) \<and> guard_inv (reap now g)
    \<and> length (fail now k g) \<le> 50000
    \<and> fails_of (fail now k g) k = fails_of g k + 1
    \<and> (fails_of g k \<ge> 9 \<longrightarrow> (\<forall>t. blocked t k (fail now k g) > 0 \<longleftrightarrow> t < now + nanos 1800))
    \<and> (fails_of g k \<in> {4..8} \<longrightarrow> (\<forall>t. blocked t k (fail now k g) > 0 \<longleftrightarrow> t < now + nanos 300))
    \<and> (fails_of g k < 4 \<longrightarrow> (\<forall>t \<ge> 0. blocked t k (fail now k g) = blocked t k g))
    \<and> (length g < 50000 \<or> map_of g k \<noteq> None \<longrightarrow> map_of (fail now k g) j = map_of g j)
    \<and> (length g = 50000 \<and> map_of g k = None \<longrightarrow>
         (\<exists>(old, v) \<in> set g. (\<forall>(k', v') \<in> set g. at_last v \<le> at_last v')
            \<and> map_of (fail now k g) j = (if j = old then None else map_of g j)))
    \<and> blocked now k (success k g) = 0 \<and> map_of (success k g) j = map_of g j
    \<and> (\<forall>t \<ge> now. blocked t k (reap now g) = blocked t k g)"
proof (intro conjI impI allI)
  show "guard_inv (fail now k g)" using assms by (simp add: fail_inv)
  then show "length (fail now k g) \<le> 50000" by (simp add: guard_inv_def guardMaxIPs_def)
  show "guard_inv (success k g)" and "guard_inv (reap now g)" using assms by (simp_all add: success_inv reap_inv)
  show "fails_of (fail now k g) k = fails_of g k + 1" by (rule fail_fails)
  show "blocked t k (fail now k g) > 0 \<longleftrightarrow> t < now + nanos 1800" if "fails_of g k \<ge> 9" for t
    using that by (simp add: blocked_pos fail_map Let_def nanos_def)
  show "blocked t k (fail now k g) > 0 \<longleftrightarrow> t < now + nanos 300" if "fails_of g k \<in> {4..8}" for t
    using that by (simp add: blocked_pos fail_map Let_def nanos_def)
  show "blocked t k (fail now k g) = blocked t k g" if "fails_of g k < 4" "0 \<le> t" for t
    using that by (auto simp: blocked_def fail_map Let_def zero_time_def time_sub_def nanos_def split: option.split)
  show "map_of (fail now k g) j = map_of g j" if "length g < 50000 \<or> map_of g k \<noteq> None"
    using fail_other [OF assms(3)] that by (auto simp: guardMaxIPs_def)
  show "\<exists>(old, v) \<in> set g. (\<forall>(k', v') \<in> set g. at_last v \<le> at_last v')
      \<and> map_of (fail now k g) j = (if j = old then None else map_of g j)" if "length g = 50000 \<and> map_of g k = None"
  proof -
    have "g \<noteq> []" using that by auto
    then obtain old v where o: "(old, v) \<in> set g" "evictOldestLocked g = AList.delete old g" "\<forall>(k', v') \<in> set g. at_last v \<le> at_last v'"
      using evictOldest [OF assms(1)] by blast
    then have "map_of (fail now k g) j = (if j = old then None else map_of g j)"
      using that assms(3) by (simp add: fail_def Let_def guardMaxIPs_def AList.update_conv' AList.delete_conv')
    then show ?thesis using o(1,3) by blast
  qed
  show "blocked now k (success k g) = 0" by (rule login_guard.hit_resets)
  show "map_of (success k g) j = map_of g j" using assms(3) by (simp add: success_map)
  show "blocked t k (reap now g) = blocked t k g" if "now \<le> t" for t
    using reap_blocked [OF assms(1) that] .
qed

lemma login_guard_exact_witness:
  "length (fail 0 ''10.0.0.1'' []) \<le> 50000 \<and> fails_of (fail 0 ''10.0.0.1'' []) ''10.0.0.1'' = 1"
  using login_guard_exact [of "[]" "''10.0.0.1''" "''b''" 0] by (simp add: guard_inv_def fails_of_def)

end
