(* ===== verification/ApiAuth.thy ===== *)
theory ApiAuth
  imports ApiHttp LoginGuard StoreUsers
begin

section \<open>The API: signing in to the dashboard\<close>

text \<open>
  Tokens, the authentication middleware and the handlers of \<open>control/internal/api/auth.go\<close>. The JWT
  library is two parameters: \<open>sign\<close> (\<open>SignedString\<close>) and \<open>jwt\<close> (\<open>jwt.Parse\<close> with the method list
  [HS256] at a moment: the claims and \<open>Valid\<close>), and \<open>trunc\<close> is the integer part of a JSON number.
  \<open>jwt_lib\<close> states what the library documents of a token it signed itself.
\<close>

type_synonym claims = "(string \<times> json) list"

definition second :: int where "second = 1000000000"

definition unix :: "int \<Rightarrow> int" where "unix t = t div second"

definition issueToken :: "(claims \<Rightarrow> string result) \<Rightarrow> int \<Rightarrow> int \<Rightarrow> user \<Rightarrow> (string \<times> int) result" where
  "issueToken sign ttl now u =
     (let exp = now + ttl
      in (case sign [(''sub'', JStr (itoa (us_id u))), (''usr'', JStr (us_username u)),
                     (''iat'', JNum (itoa (unix now))), (''exp'', JNum (itoa (unix exp)))] of
            Inl e \<Rightarrow> Inl e | Inr str \<Rightarrow> Inr (str, exp)))"

definition claim_string :: "string \<Rightarrow> claims \<Rightarrow> string" where
  "claim_string k cs = (case jkey k cs of Some (JStr s) \<Rightarrow> s | _ \<Rightarrow> [])"

definition parseToken ::
  "(int \<Rightarrow> string \<Rightarrow> (claims \<times> bool) option) \<Rightarrow> (string \<Rightarrow> int) \<Rightarrow> int \<Rightarrow> string \<Rightarrow> (user \<times> int) option" where
  "parseToken jwt trunc now raw =
     (case jwt now raw of
        None \<Rightarrow> None
      | Some (cs, valid) \<Rightarrow>
          if \<not> valid then None
          else (case atoi (claim_string ''sub'' cs) of
                  None \<Rightarrow> None
                | Some uid \<Rightarrow>
                    (case jkey ''iat'' cs of
                       Some (JNum lit) \<Rightarrow>
                         Some (\<lparr>us_id = uid, us_username = claim_string ''usr'' cs, us_createdAt = zero_time\<rparr>,
                               trunc lit * second)
                     | _ \<Rightarrow> None)))"

text \<open>\<open>Inr u\<close>: the wrapped handler runs with \<open>u\<close> in the request context.\<close>

definition requireAuth ::
  "(int \<Rightarrow> string \<Rightarrow> (claims \<times> bool) option) \<Rightarrow> (string \<Rightarrow> int) \<Rightarrow> string option \<Rightarrow> int \<Rightarrow> string \<Rightarrow> user_table \<Rightarrow> 'a reply + user" where
  "requireAuth jwt trunc db now h users =
     (if \<not> has_prefix ''Bearer '' h then Inl (writeErr 401 ''not signed in'')
      else (case parseToken jwt trunc now (trim_prefix ''Bearer '' h) of
              None \<Rightarrow> Inl (writeErr 401 ''session is invalid or has expired'')
            | Some (u, issued) \<Rightarrow>
                (case PasswordChangedAt db (us_id u) users of
                   Inl e \<Rightarrow> Inl (writeErr 401 ''this account no longer exists'')
                 | Inr changed \<Rightarrow>
                     if issued < changed - second then Inl (writeErr 401 ''the password changed; sign in again'')
                     else Inr u)))"

subsection \<open>Handlers\<close>

record login_ok =
  lo_token :: string
  lo_expires_at :: int
  lo_user :: user

definition decode_login :: "json \<Rightarrow> (string \<times> string) option" where
  "decode_login j = (case as_struct j of None \<Rightarrow> None
     | Some kvs \<Rightarrow> (case (as_string (jfield ''username'' kvs), as_string (jfield ''password'' kvs)) of
         (Some u, Some p) \<Rightarrow> Some (u, p) | _ \<Rightarrow> None))"

text \<open>\<open>writeErr\<close> after \<open>w.Header().Set("Retry-After", strconv.Itoa(wait))\<close>.\<close>

definition too_many :: "int \<Rightarrow> string \<Rightarrow> 'a reply" where
  "too_many wait msg = \<lparr>rp_code = 429, rp_retry = Some wait, rp_body = Inl (Msg msg)\<rparr>"

definition handleLogin ::
  "(string \<Rightarrow> json option) \<Rightarrow> (string \<Rightarrow> string) \<Rightarrow> (string \<Rightarrow> string \<Rightarrow> bool) \<Rightarrow> (claims \<Rightarrow> string result) \<Rightarrow> int \<Rightarrow>
   string option \<Rightarrow> int \<Rightarrow> string \<Rightarrow> string option \<Rightarrow> user_table \<Rightarrow> guard \<Rightarrow> login_ok reply \<times> guard" where
  "handleLogin P E compare sign ttl db now remote body users g =
     (let ip = clientIP remote; wait = blocked now ip g
      in if wait > 0
         then (too_many wait (''Too many failed attempts. Try again in '' @ itoa wait @ '' seconds.''), g)
         else (case readJSON P E decode_login body of
                 Inl r \<Rightarrow> (r, g)
               | Inr (username, password) \<Rightarrow>
                   (case AuthenticateUser compare db (trim_space username) password users of
                      Inl e \<Rightarrow> (writeErr 401 ''Wrong username or password'', fail now ip g)
                    | Inr u \<Rightarrow>
                        (case issueToken sign ttl now u of
                           Inl e \<Rightarrow> (writeErr 500 ''could not create a session'', success ip g)
                         | Inr (tok, exp) \<Rightarrow>
                             (writeJSON 200 \<lparr>lo_token = tok, lo_expires_at = exp, lo_user = u\<rparr>, success ip g)))))"

record me_out =
  me_user :: user
  me_country :: string
  me_country_resolved :: bool

text \<open>\<open>geo\<close> is the attached dataset's \<open>Lookup\<close>, \<open>None\<close> when there is none.\<close>

definition handleMe :: "(string \<Rightarrow> string) option \<Rightarrow> string option \<Rightarrow> user \<Rightarrow> string \<Rightarrow> user_table \<Rightarrow> me_out reply" where
  "handleMe geo db u remote users =
     (case GetUser db (us_id u) users of
        Inl e \<Rightarrow> writeErr 401 ''this account no longer exists''
      | Inr full \<Rightarrow>
          (let country = (case geo of None \<Rightarrow> [] | Some look \<Rightarrow> look (clientIP remote))
           in writeJSON 200 \<lparr>me_user = full, me_country = country, me_country_resolved = (country \<noteq> [])\<rparr>))"

definition decode_change :: "json \<Rightarrow> (string \<times> string) option" where
  "decode_change j = (case as_struct j of None \<Rightarrow> None
     | Some kvs \<Rightarrow> (case (as_string (jfield ''current'' kvs), as_string (jfield ''new'' kvs)) of
         (Some u, Some p) \<Rightarrow> Some (u, p) | _ \<Rightarrow> None))"

definition handleChangePassword ::
  "(string \<Rightarrow> json option) \<Rightarrow> (string \<Rightarrow> string) \<Rightarrow> (string \<Rightarrow> string \<Rightarrow> bool) \<Rightarrow> (string \<Rightarrow> string result) \<Rightarrow>
   string option \<Rightarrow> string option \<Rightarrow> int \<Rightarrow> user \<Rightarrow> string option \<Rightarrow> user_table \<Rightarrow> string reply \<times> user_table" where
  "handleChangePassword P E compare hash db1 db2 now u body users =
     (case readJSON P E decode_change body of
        Inl r \<Rightarrow> (r, users)
      | Inr (current, new) \<Rightarrow>
          (case AuthenticateUser compare db1 (us_username u) current users of
             Inl e \<Rightarrow> (writeErr 401 ''Current password is incorrect'', users)
           | Inr _ \<Rightarrow>
               if length new < 8 then (writeErr 400 ''The new password must be at least 8 characters'', users)
               else (case SetPassword hash db2 now (us_username u) new users of
                       (Inl e, users') \<Rightarrow> (writeStoreErr 500 e, users')
                     | (Inr _, users') \<Rightarrow> (writeJSON 200 ''password changed'', users'))))"

subsection \<open>The lockout\<close>

lemma handleLogin_401:
  "rp_code (fst (handleLogin P E compare sign ttl db now remote body users g)) = 401 \<Longrightarrow>
   snd (handleLogin P E compare sign ttl db now remote body users g) = fail now (clientIP remote) g"
  by (auto simp: handleLogin_def Let_def too_many_def dest: readJSON_Inl split: if_splits sum.splits prod.splits)

text \<open>
  A sequence of logins from one address, each after some events of the guard elsewhere (the reaper, other
  addresses): those events, when it came, what the database answered, the accounts then, and the body.
\<close>

fun login_run where
  "login_run P E compare sign ttl remote [] g = ([], g)"
| "login_run P E compare sign ttl remote ((es, now, db, users, body) # reqs) g =
     (case handleLogin P E compare sign ttl db now remote body users (fold guard_after es g) of
        (r, g') \<Rightarrow> (case login_run P E compare sign ttl remote reqs g' of (rs, g'') \<Rightarrow> (r # rs, g'')))"

definition bout :: "guard_event list \<times> int \<times> 'd \<Rightarrow> guard_event list \<times> int" where
  "bout q = (fst q, fst (snd q))"

lemma login_run_refused:
  "list_all (\<lambda>r. rp_code r = 401) (fst (login_run P E compare sign ttl remote reqs g)) \<Longrightarrow>
   snd (login_run P E compare sign ttl remote reqs g) = login_guard.misses (clientIP remote) (map bout reqs) g"
proof (induction reqs arbitrary: g)
  case Nil
  then show ?case by (simp add: login_guard.misses_def)
next
  case (Cons q reqs)
  obtain es now db users body where q: "q = (es, now, db, users, body)" by (cases q)
  obtain r g' where h: "handleLogin P E compare sign ttl db now remote body users (fold guard_after es g) = (r, g')" by fastforce
  obtain rs g'' where l: "login_run P E compare sign ttl remote reqs g' = (rs, g'')" by fastforce
  have "rp_code r = 401" and "list_all (\<lambda>r. rp_code r = 401) rs" using Cons.prems by (simp_all add: q h l)
  moreover from this have "g' = fail now (clientIP remote) (fold guard_after es g)" using handleLogin_401 h by (metis fst_conv snd_conv)
  ultimately show ?case using Cons.IH [of g'] l by (simp add: q h login_guard.misses_def bout_def)
qed

text \<open>
  C23 Guessing is bounded. Once five logins in a row from one address were refused, none of them more than
  thirty minutes after the one before, the next is answered 429 for the five minutes after the last, whatever
  it carries - the right password included - and does not reach the database; after ten, for thirty minutes.
  Between the logins the reaper may run and other addresses may fail or sign in, as long as the map does not
  fill up: the records it held, the logins and the events in between number at most 50000. (A failure that
  comes more than thirty minutes after the one before may find its record reaped, and counts from one again.)
\<close>

theorem login_lockout:
  assumes "guard_inv g" and "clientIP remote \<noteq> []"
    and "login_run P E compare sign ttl remote reqs g = (rs, g')"
    and "list_all (\<lambda>r. rp_code r = 401) rs"
    and "length reqs \<ge> 5"
    and "successively (\<lambda>x y. fst (snd y) \<le> fst (snd x) + nanos 1800) reqs"
    and "list_all (\<lambda>q. list_all (other_key (clientIP remote) (fst (snd q))) (fst q)) reqs"
    and "list_all (other_key (clientIP remote) t) es"
    and "length g + sum_list (map (\<lambda>q. Suc (length (fst q))) reqs) + length es \<le> 50000"
    and "t < fst (snd (last reqs)) + nanos (if length reqs \<ge> 10 then 1800 else 300)"
  shows "\<exists>wait msg. wait > 0 \<and>
    handleLogin P E compare sign ttl db t remote body users (fold guard_after es g') = (too_many wait msg, fold guard_after es g')"
proof -
  let ?ip = "clientIP remote" and ?ts = "map bout reqs"
  have g': "g' = login_guard.misses ?ip ?ts g"
    using login_run_refused [of P E compare sign ttl remote reqs g] assms(3,4) by simp
  have ne: "reqs \<noteq> []" using assms(5) by auto
  have "login_guard.steady ?ip ?ts"
    using assms(6,7) by (auto simp: login_guard.steady_def bout_def successively_map list_all_iff)
  moreover have "login_guard.weight ?ts = sum_list (map (\<lambda>q. Suc (length (fst q))) reqs)"
    by (simp add: login_guard.weight_def bout_def comp_def)
  ultimately have "blocked t ?ip (fold guard_after es g') > 0" unfolding g'
    by (intro login_guard.misses_lock [OF assms(1,2)]) (use assms(5,8-10) ne in \<open>simp_all add: guardMaxIPs_def last_map bout_def\<close>)
  then show ?thesis by (auto simp: handleLogin_def Let_def)
qed

definition no_users :: user_table where "no_users = \<lparr>urt_next = 1, urt_rows = []\<rparr>"

definition wrong_login :: "int \<Rightarrow> string option \<Rightarrow> guard \<Rightarrow> login_ok reply \<times> guard" where
  "wrong_login = (\<lambda>t body. handleLogin (\<lambda>b. Some JNull) (\<lambda>b. []) (\<lambda>h p. False) (\<lambda>c. Inr ''T'') 0 None t ''10.0.0.1:5'' body no_users)"

lemma wrong_step:
  "handleLogin (\<lambda>b. Some JNull) (\<lambda>b. []) (\<lambda>h p. False) sign ttl None t remote (Some b) no_users g =
     (if blocked t (clientIP remote) g > 0
      then (too_many (blocked t (clientIP remote) g) (''Too many failed attempts. Try again in ''
              @ itoa (blocked t (clientIP remote) g) @ '' seconds.''), g)
      else (writeErr 401 ''Wrong username or password'', fail t (clientIP remote) g))"
  by (simp add: handleLogin_def Let_def readJSON_def decode_login_def jfield_def AuthenticateUser_def no_users_def
      query_row_def find_row_def)

lemma login_lockout_witness:
  "\<exists>wait msg g. wait > 0 \<and> wrong_login 100 (Some ''{}'') g = (too_many wait msg, g)"
proof -
  let ?req = "\<lambda>t. ([Reaped t], t, None, no_users, Some ''{}'')"
  let ?reqs = "[?req 0, ?req 1, ?req 2, ?req 3, ?req 4]"
  let ?run = "login_run (\<lambda>b. Some JNull) (\<lambda>b. []) (\<lambda>h p. False) (\<lambda>c. Inr ''T'') 0 ''10.0.0.1:5'' ?reqs []"
  have ip: "clientIP ''10.0.0.1:5'' = ''10.0.0.1''" by code_simp
  have codes: "list_all (\<lambda>r. rp_code r = 401) (fst ?run)"
    by (simp add: wrong_step ip blocked_def fail_def reap_def Let_def new_attempt_def zero_time_def nanos_def time_sub_def guardMaxIPs_def guardRetention_def)
  obtain rs g' where r: "?run = (rs, g')" by (cases ?run)
  have refused: "list_all (\<lambda>r. rp_code r = 401) rs" using codes by (simp only: r fst_conv)
  have "\<exists>wait msg. wait > 0 \<and> handleLogin (\<lambda>b. Some JNull) (\<lambda>b. []) (\<lambda>h p. False) (\<lambda>c. Inr ''T'') 0 None 100 ''10.0.0.1:5'' (Some ''{}'') no_users
      (fold guard_after [] g') = (too_many wait msg, fold guard_after [] g')"
    by (rule login_lockout [OF _ _ r refused]) (simp_all add: guard_inv_def ip nanos_def)
  then show ?thesis by (auto simp: wrong_login_def)
qed

subsection \<open>How long a session lives\<close>

definition jwt_lib ::
  "(claims \<Rightarrow> string result) \<Rightarrow> (int \<Rightarrow> string \<Rightarrow> (claims \<times> bool) option) \<Rightarrow> (string \<Rightarrow> int) \<Rightarrow> bool" where
  "jwt_lib sign jwt trunc \<longleftrightarrow>
     (\<forall>cs tok e now. sign cs = Inr tok \<and> jkey ''exp'' cs = Some (JNum (itoa e)) \<longrightarrow>
        jwt now tok = (if now < e * second then Some (cs, True) else None))
     \<and> (\<forall>n. 0 \<le> n \<and> n < 2 ^ 53 \<longrightarrow> trunc (itoa n) = n)"

lemma parse_issued:
  assumes "jwt_lib sign jwt trunc" and "issueToken sign ttl t0 u = Inr (tok, exp)"
    and "0 \<le> t0" "t0 < 2 ^ 53 * second" "0 \<le> us_id u" "us_id u < 2 ^ 63"
  shows "exp = t0 + ttl \<and> parseToken jwt trunc now tok =
    (if now < unix exp * second then Some (u\<lparr>us_createdAt := zero_time\<rparr>, unix t0 * second) else None)"
proof -
  define cs where "cs = [(''sub'', JStr (itoa (us_id u))), (''usr'', JStr (us_username u)),
     (''iat'', JNum (itoa (unix t0))), (''exp'', JNum (itoa (unix exp)))]"
  have e: "exp = t0 + ttl" and s: "sign cs = Inr tok"
    using assms(2) by (auto simp: issueToken_def cs_def Let_def split: sum.splits)
  have k: "jkey ''exp'' cs = Some (JNum (itoa (unix exp)))" "jkey ''iat'' cs = Some (JNum (itoa (unix t0)))"
    "claim_string ''sub'' cs = itoa (us_id u)" "claim_string ''usr'' cs = us_username u"
    by (simp_all add: cs_def jkey_def claim_string_def)
  have "unix t0 < 2 ^ 53" "0 \<le> unix t0" using assms(3,4) by (auto simp: unix_def second_def)
  then have "trunc (itoa (unix t0)) = unix t0" using assms(1) by (simp add: jwt_lib_def)
  moreover have "jwt now tok = (if now < unix exp * second then Some (cs, True) else None)"
    using assms(1) s k(1) by (simp add: jwt_lib_def)
  ultimately show ?thesis using assms(5,6) e
    by (simp add: parseToken_def k atoi_itoa)
qed

lemma bearer: "has_prefix ''Bearer '' (''Bearer '' @ tok) = True" "trim_prefix ''Bearer '' (''Bearer '' @ tok) = tok"
  by (simp_all add: has_prefix_def trim_prefix_def)

lemma token_session:
  assumes "jwt_lib sign jwt trunc" and "issueToken sign ttl t0 u = Inr (tok, exp)"
    and "0 \<le> t0" "t0 < 2 ^ 53 * second" "0 \<le> us_id u" "us_id u < 2 ^ 63"
  shows "requireAuth jwt trunc None now (''Bearer '' @ tok) users =
    (if now \<ge> unix (t0 + ttl) * second then Inl (writeErr 401 ''session is invalid or has expired'')
     else (case find_row ur_id (us_id u) (urt_rows users) of
             None \<Rightarrow> Inl (writeErr 401 ''this account no longer exists'')
           | Some r \<Rightarrow> if unix t0 * second < ur_updatedAt r - second
                       then Inl (writeErr 401 ''the password changed; sign in again'')
                       else Inr (u\<lparr>us_createdAt := zero_time\<rparr>)))"
  using parse_issued [OF assms, of now] unfolding requireAuth_def bearer
  by (auto simp: PasswordChangedAt_def query_row_def split: option.split)

text \<open>
  C25 What a token is worth. A token issued to an account opens the API until the second it expires,
  for as long as the account exists and its password was not changed more than a second after the
  (truncated) second the token was issued in; it never names another account.
\<close>

theorem token_lifetime:
  assumes "jwt_lib sign jwt trunc" and "issueToken sign ttl t0 u = Inr (tok, exp)"
    and "0 \<le> t0" "t0 < 2 ^ 53 * second" "0 \<le> us_id u" "us_id u < 2 ^ 63"
  shows "requireAuth jwt trunc None now (''Bearer '' @ tok) users =
    (if now \<ge> unix (t0 + ttl) * second then Inl (writeErr 401 ''session is invalid or has expired'')
     else (case find_row ur_id (us_id u) (urt_rows users) of
             None \<Rightarrow> Inl (writeErr 401 ''this account no longer exists'')
           | Some r \<Rightarrow> if unix t0 * second < ur_updatedAt r - second
                       then Inl (writeErr 401 ''the password changed; sign in again'')
                       else Inr (u\<lparr>us_createdAt := zero_time\<rparr>)))"
  by (rule token_session [OF assms])

text \<open>A concrete signer for the witnesses: it signs one set of claims.\<close>

definition demo_user :: user where
  "demo_user = \<lparr>us_id = 7, us_username = ''ann'', us_createdAt = zero_time\<rparr>"

definition demo_claims :: claims where
  "demo_claims = [(''sub'', JStr ''7''), (''usr'', JStr ''ann''), (''iat'', JNum ''100''), (''exp'', JNum ''160'')]"

definition demo_sign :: "claims \<Rightarrow> string result" where
  "demo_sign cs = (if cs = demo_claims then Inr ''T'' else Inl (DbFailed ''no key''))"

definition demo_jwt :: "int \<Rightarrow> string \<Rightarrow> (claims \<times> bool) option" where
  "demo_jwt now tok = (if tok = ''T'' \<and> now < 160 * second then Some (demo_claims, True) else None)"

definition demo_accounts :: user_table where
  "demo_accounts = \<lparr>urt_next = 8, urt_rows = [\<lparr>ur_id = 7, ur_username = ''ann'', ur_hash = ''old'',
     ur_createdAt = 0, ur_updatedAt = 0\<rparr>]\<rparr>"

lemma demo_itoa: "itoa 160 = ''160''" "itoa 100 = ''100''" "itoa 7 = ''7''"
  by code_simp+

lemma digits_value_itoa: "0 \<le> n \<Longrightarrow> digits_value (itoa n) = n"
  by (simp add: itoa_def)

lemma itoa_neg: "n < 0 \<Longrightarrow> itoa n \<noteq> ''160''"
  by (simp add: itoa_def)

lemma demo_lib: "jwt_lib demo_sign demo_jwt digits_value"
proof -
  have "e = 160" if "jkey ''exp'' demo_claims = Some (JNum (itoa e))" for e
  proof -
    from that have "itoa e = ''160''" by (simp add: demo_claims_def jkey_def)
    moreover from this have "\<not> e < 0" using itoa_neg by blast
    ultimately show ?thesis using digits_value_itoa [of e] digits_value_itoa [of 160] demo_itoa by simp
  qed
  then show ?thesis by (auto simp: jwt_lib_def demo_sign_def demo_jwt_def digits_value_itoa split: if_splits)
qed

lemma demo_issued: "issueToken demo_sign (60 * second) (100 * second) demo_user = Inr (''T'', 160 * second)"
  by (simp add: issueToken_def demo_user_def demo_sign_def demo_claims_def unix_def second_def demo_itoa)

lemma token_lifetime_witness:
  "requireAuth demo_jwt digits_value None (120 * second) (''Bearer '' @ ''T'') demo_accounts = Inr demo_user"
  using token_lifetime [OF demo_lib demo_issued, of "120 * second" demo_accounts]
  by (simp add: demo_user_def demo_accounts_def second_def unix_def find_row_Cons)

text \<open>
  C24 Changing the password ends sessions. A token records the second it was issued in, cut off to a whole
  second. After a change by \<open>handleChangePassword\<close> at \<open>tc\<close> that answered 200, a token of the account is refused
  from then on when that whole second lies more than a second before \<open>tc\<close>, whatever its remaining lifetime,
  and only then: otherwise it opens the API until it expires. So every token issued a second or more before the
  change is refused unless it was issued exactly a second before it on a whole second, none issued after
  the change is, and of those issued within the last second before it the ones whose whole second is too early.
\<close>

theorem password_change_ends_sessions:
  assumes "jwt_lib sign jwt trunc" and "issueToken sign ttl t0 u = Inr (tok, exp)"
    and "0 \<le> t0" "t0 < 2 ^ 53 * second" "0 \<le> us_id u" "us_id u < 2 ^ 63"
    and "handleChangePassword P E compare hash db1 db2 tc u' body users = (r, users')" "rp_code r = 200"
    and "find_row ur_id (us_id u) (urt_rows users) = Some row" "ur_username row = us_username u'"
  shows "(unix t0 * second < tc - second \<longrightarrow>
          (\<exists>m. requireAuth jwt trunc None now (''Bearer '' @ tok) users' = Inl (writeErr 401 m)))
    \<and> (\<not> unix t0 * second < tc - second \<and> now < unix (t0 + ttl) * second \<longrightarrow>
          requireAuth jwt trunc None now (''Bearer '' @ tok) users' = Inr (u\<lparr>us_createdAt := zero_time\<rparr>))
    \<and> (t0 < tc - second \<longrightarrow> unix t0 * second < tc - second)
    \<and> (t0 = tc - second \<longrightarrow> (unix t0 * second < tc - second \<longleftrightarrow> t0 mod second \<noteq> 0))
    \<and> (tc \<le> t0 \<longrightarrow> \<not> unix t0 * second < tc - second)"
proof -
  obtain new where set: "SetPassword hash db2 tc (us_username u') new users = (Inr (), users')"
    using assms(7,8)
    by (auto simp: handleChangePassword_def dest: readJSON_Inl split: sum.splits prod.splits if_splits)
  obtain h where "users' = users\<lparr>urt_rows := snd (update_rows (\<lambda>r. ur_username r = us_username u')
           (\<lambda>r. r\<lparr>ur_hash := h, ur_updatedAt := tc\<rparr>) (urt_rows users))\<rparr>"
    using set by (rule SetPassword_Inr)
  then have f: "find_row ur_id (us_id u) (urt_rows users') = Some (row\<lparr>ur_hash := h, ur_updatedAt := tc\<rparr>)"
    using assms(9,10) by (simp add: update_rows_find)
  have u: "unix t0 * second \<le> t0" "t0 < unix t0 * second + second" "t0 = unix t0 * second + t0 mod second" "0 \<le> t0 mod second"
    by (simp_all add: unix_def second_def)
  show ?thesis
    unfolding token_session [OF assms(1-6)] using u f by (auto simp: second_def)
qed

definition demo_change :: "string \<Rightarrow> json option" where
  "demo_change b = Some (JObj [(''current'', JStr ''old-pass''), (''new'', JStr ''new-pass'')])"

lemma password_change_ends_sessions_witness:
  "\<exists>users' m. requireAuth demo_jwt digits_value None (130 * second) (''Bearer '' @ ''T'') users' = Inl (writeErr 401 m)"
proof -
  let ?h = "handleChangePassword demo_change (\<lambda>b. []) (\<lambda>h p. p = ''old-pass'') (\<lambda>p. Inr ''new'') None None
    (120 * second) demo_user (Some []) demo_accounts"
  obtain r users' where h: "?h = (r, users')" by (cases ?h)
  have "decode_change (JObj [(''current'', JStr ''old-pass''), (''new'', JStr ''new-pass'')]) = Some (''old-pass'', ''new-pass'')"
    by code_simp
  then have "rp_code (fst ?h) = 200"
    by (simp add: handleChangePassword_def readJSON_def demo_change_def AuthenticateUser_def query_row_def
        demo_accounts_def demo_user_def find_row_Cons SetPassword_def exec_affected_def update_rows_def)
  then have "rp_code r = 200" by (simp only: h fst_conv)
  moreover have "find_row ur_id (us_id demo_user) (urt_rows demo_accounts) = Some (hd (urt_rows demo_accounts))"
    by (simp add: demo_accounts_def demo_user_def find_row_Cons)
  moreover have "ur_username (hd (urt_rows demo_accounts)) = us_username demo_user"
    by (simp add: demo_accounts_def demo_user_def)
  ultimately show ?thesis
    using password_change_ends_sessions [OF demo_lib demo_issued _ _ _ _ h, of _ "130 * second"]
    by (auto simp: second_def demo_user_def)
qed

end
