(* ===== verification/DataplaneAuth.thy ===== *)
theory DataplaneAuth
  imports ApiHttp
begin

section \<open>The data plane: what it checks of a site session\<close>

text \<open>
  The other half of the login gate, in Lua: \<open>verify\<close> and \<open>gated\<close> of
  \<open>dataplane/lua/moswaf/auth.lua\<close> and \<open>is_local_path\<close> of \<open>util.lua\<close>. \<open>mac\<close> is HMAC-SHA1 in
  base64url, the same function on both sides, \<open>secret\<close> the environment variable (\<open>None\<close> when unset),
  \<open>tostr\<close> Lua's \<open>tostring\<close> of a number. The published generations are a map from the decimal id,
  \<open>None\<close> when the site has no accounts and the field is a JSON null. \<open>tonumber\<close> of a string of digits
  is its value; a double rounds it above \<open>2^53\<close>, which does not change a comparison with the time.
\<close>

definition is_word_char :: "char \<Rightarrow> bool" where
  "is_word_char c \<longleftrightarrow> is_digit c \<or> is_upper c \<or> is_lower c \<or> c = CHR ''-'' \<or> c = CHR ''_''"

definition digit_run :: "string \<Rightarrow> bool" where
  "digit_run s \<longleftrightarrow> s \<noteq> [] \<and> list_all is_digit s"

text \<open>The match \<open>^(%d+)%.(%d+)%.(%d+)%.([%w%-_]+)$\<close>: no group can hold a dot.\<close>

definition match_cookie :: "string \<Rightarrow> (string \<times> string \<times> string \<times> string) option" where
  "match_cookie c =
     (case cut_at (CHR ''.'') c of None \<Rightarrow> None
      | Some (u, r1) \<Rightarrow> (case cut_at (CHR ''.'') r1 of None \<Rightarrow> None
      | Some (g, r2) \<Rightarrow> (case cut_at (CHR ''.'') r2 of None \<Rightarrow> None
      | Some (e, sig) \<Rightarrow>
          if digit_run u \<and> digit_run g \<and> digit_run e \<and> sig \<noteq> [] \<and> list_all is_word_char sig
          then Some (u, g, e, sig) else None)))"

definition payload :: "string \<Rightarrow> string \<Rightarrow> string \<Rightarrow> string \<Rightarrow> string" where
  "payload site u g e = str_join ''|'' [site, u, g, e]"

text \<open>\<open>verify\<close>: \<open>Inl\<close> the short reason, \<open>Inr\<close> the user id.\<close>

definition lua_verify ::
  "(string \<Rightarrow> string \<Rightarrow> string) \<Rightarrow> (int \<Rightarrow> string) \<Rightarrow> string option \<Rightarrow> string \<Rightarrow> string option \<Rightarrow>
   (string \<rightharpoonup> int) option \<Rightarrow> int \<Rightarrow> string + string" where
  "lua_verify mac tostr secret site cookie gens now =
     (case secret of None \<Rightarrow> Inl ''no_secret''
      | Some key \<Rightarrow> if key = [] then Inl ''no_secret'' else
     (case cookie of None \<Rightarrow> Inl ''no_cookie''
      | Some c \<Rightarrow> if c = [] then Inl ''no_cookie'' else
     (case match_cookie c of None \<Rightarrow> Inl ''malformed''
      | Some (u, g, e, sig) \<Rightarrow>
          if digits_value e \<le> now then Inl ''expired''
          else if sig \<noteq> mac key (payload site u g e) then Inl ''bad_signature''
          else (case gens of None \<Rightarrow> Inl ''no_such_user''
                | Some m \<Rightarrow> (case m u of None \<Rightarrow> Inl ''no_such_user''
                            | Some current \<Rightarrow> if tostr current \<noteq> g then Inl ''revoked'' else Inr u)))))"

definition login_uri :: string where "login_uri = ''/__moswaf/login''"
definition logout_uri :: string where "logout_uri = ''/__moswaf/logout''"
definition acme_prefix :: string where "acme_prefix = ''/.well-known/acme-challenge/''"

text \<open>\<open>gated\<close>: Lua's \<open>lower\<close> in the C locale changes ASCII letters only.\<close>

definition path_covers :: "string \<Rightarrow> string \<Rightarrow> bool" where
  "path_covers lower p0 \<longleftrightarrow> p0 \<noteq> [] \<and>
     (let p = map lower_char p0 in p = ''/'' \<or> lower = p \<or> has_prefix (p @ ''/'') lower)"

definition gated :: "string \<Rightarrow> string list \<Rightarrow> bool" where
  "gated uri paths =
     (if uri = login_uri \<or> uri = logout_uri then False
      else if has_prefix acme_prefix uri then False
      else if paths = [] then True
      else list_ex (path_covers (map lower_char uri)) paths)"

definition is_local_path :: "string \<Rightarrow> bool" where
  "is_local_path v \<longleftrightarrow> v \<noteq> [] \<and> length v \<le> 2048 \<and> has_prefix ''/'' v
     \<and> \<not> (length v > 1 \<and> (v ! 1 = CHR ''/'' \<or> v ! 1 = CHR 0x5C))
     \<and> \<not> list_ex below_space v \<and> \<not> str_contains ''://'' (map lower_char v)"

subsection \<open>Facts\<close>

lemma digit_run_no_dot: "digit_run s \<Longrightarrow> CHR ''.'' \<notin> set s \<and> CHR ''|'' \<notin> set s"
  by (auto simp: digit_run_def list_all_iff is_digit_def byte_of_def)

lemma digit_run_itoa: "0 \<le> n \<Longrightarrow> digit_run (itoa n)"
  by (simp add: digit_run_def itoa_def dec_digits_digits)

lemma match_cookie_build:
  assumes "digit_run u" "digit_run g" "digit_run e" "sig \<noteq> []" "list_all is_word_char sig"
  shows "match_cookie (u @ ''.'' @ g @ ''.'' @ e @ ''.'' @ sig) = Some (u, g, e, sig)"
  using assms by (simp add: match_cookie_def cut_at_append digit_run_no_dot)

lemma append_bar:
  "a @ CHR ''|'' # x = b @ CHR ''|'' # y \<Longrightarrow> CHR ''|'' \<notin> set x \<Longrightarrow> CHR ''|'' \<notin> set y \<Longrightarrow> a = b \<and> x = y"
  by (induction a arbitrary: b) (auto simp: Cons_eq_append_conv)

text \<open>What is signed determines what it names, whatever the site id holds.\<close>

lemma payload_inj:
  assumes "payload s u g e = payload s' u' g' e'"
    and "digit_run u" "digit_run g" "digit_run e" "digit_run u'" "digit_run g'" "digit_run e'"
  shows "s = s' \<and> u = u' \<and> g = g' \<and> e = e'"
proof -
  note nb = assms(2-) [THEN digit_run_no_dot, THEN conjunct2]
  have "(s @ ''|'' @ u @ ''|'' @ g) @ CHR ''|'' # e = (s' @ ''|'' @ u' @ ''|'' @ g') @ CHR ''|'' # e'"
    using assms(1) by (simp add: payload_def)
  from append_bar [OF this nb(3) nb(6)] have 1: "e = e'" "(s @ ''|'' @ u) @ CHR ''|'' # g = (s' @ ''|'' @ u') @ CHR ''|'' # g'"
    by simp_all
  from append_bar [OF 1(2) nb(2) nb(5)] have 2: "g = g'" "s @ CHR ''|'' # u = s' @ CHR ''|'' # u'"
    by simp_all
  from append_bar [OF 2(2) nb(1) nb(4)] show ?thesis using 1 2 by simp
qed

end
