(* ===== verification/ApiSiteLogin.thy ===== *)
theory ApiSiteLogin
  imports LoginGuard StoreSiteUsers DataplaneAuth
begin

section \<open>The API: signing in to a site\<close>

text \<open>
  \<open>control/internal/api/sitelogin.go\<close>: the internal endpoint that turns a password into a session
  cookie, and the token that guards it. \<open>mac\<close> is HMAC-SHA1 in base64url, as in \<open>DataplaneAuth\<close>;
  \<open>L\<close> is the Unicode lower-case table.
\<close>

definition sessionTTL :: int where "sessionTTL = nanos (12 * 3600)"

definition siteLoginKey :: "string \<Rightarrow> string \<Rightarrow> string" where
  "siteLoginKey site ip = site @ ''|'' @ ip"

definition signSession :: "(string \<Rightarrow> string \<Rightarrow> string) \<Rightarrow> string \<Rightarrow> string \<Rightarrow> int \<Rightarrow> int \<Rightarrow> int \<Rightarrow> string" where
  "signSession mac secret siteID userID generation exp =
     (let msg = siteID @ ''|'' @ itoa userID @ ''|'' @ itoa generation @ ''|'' @ itoa exp;
          sig = mac secret msg
      in itoa userID @ ''.'' @ itoa generation @ ''.'' @ itoa exp @ ''.'' @ sig)"

text \<open>\<open>None\<close>: the wrapped handler runs.\<close>

definition requireInternalToken :: "string \<Rightarrow> string \<Rightarrow> 'a reply option" where
  "requireInternalToken want got =
     (if want = [] then Some (writeErr 503 ''the internal token is not configured'')
      else if got \<noteq> want then Some (writeErr 403 ''forbidden'')
      else None)"

definition safeNext :: "(string \<Rightarrow> string) \<Rightarrow> string \<Rightarrow> string" where
  "safeNext L v =
     (if v = [] \<or> length v > 1024 then ''/''
      else if \<not> has_prefix ''/'' v then ''/''
      else if length v > 1 \<and> (v ! 1 = CHR ''/'' \<or> v ! 1 = CHR 0x5C) then ''/''
      else if contains_any [CHR 0x00, CHR 0x0D, CHR 0x0A] v then ''/''
      else if list_ex below_space v then ''/''
      else if str_contains ''://'' (go_to_lower L v) then ''/''
      else v)"

record site_login_request =
  slr_username :: string
  slr_password :: string
  slr_next :: string

text \<open>The fields \<open>site\<close> and \<open>ip\<close> of the body are decoded (so they have to be strings) and not used.\<close>

definition decode_site_login :: "json \<Rightarrow> site_login_request option" where
  "decode_site_login j = (case as_struct j of None \<Rightarrow> None
     | Some kvs \<Rightarrow>
         (case (as_string (jfield ''site'' kvs), as_string (jfield ''username'' kvs), as_string (jfield ''password'' kvs),
                as_string (jfield ''next'' kvs), as_string (jfield ''ip'' kvs)) of
            (Some _, Some u, Some p, Some n, Some _) \<Rightarrow>
              Some \<lparr>slr_username = u, slr_password = p, slr_next = n\<rparr>
          | _ \<Rightarrow> None))"

record site_login_ok =
  slo_token :: string
  slo_max_age :: int
  slo_next :: string

text \<open>After the password was accepted: the guard is already told of the success.\<close>

definition mint_session ::
  "(string \<Rightarrow> string \<Rightarrow> string) \<Rightarrow> (string \<Rightarrow> string) \<Rightarrow> string \<Rightarrow> int \<Rightarrow> string \<Rightarrow> string \<Rightarrow> site_user \<Rightarrow> site_login_ok reply" where
  "mint_session mac L secret now site next u =
     (if secret = [] then writeErr 503 ''the session secret is not configured''
      else writeJSON 200
        \<lparr>slo_token = signSession mac secret site (su_id u) (su_generation u) ((now + sessionTTL) div 1000000000),
         slo_max_age = sessionTTL div 1000000000, slo_next = safeNext L next\<rparr>)"

definition handleSiteLogin ::
  "(string \<Rightarrow> json option) \<Rightarrow> (string \<Rightarrow> string) \<Rightarrow> (string \<Rightarrow> string \<Rightarrow> bool) \<Rightarrow> (string \<Rightarrow> string \<Rightarrow> string) \<Rightarrow>
   (string \<Rightarrow> string) \<Rightarrow> string \<Rightarrow> string option \<Rightarrow> int \<Rightarrow> string option \<Rightarrow> string \<Rightarrow> string \<Rightarrow> su_table \<Rightarrow> guard \<Rightarrow>
   site_login_ok reply \<times> guard" where
  "handleSiteLogin P E compare mac L secret db now body hsite hip t g =
     (case readJSON P E decode_site_login body of
        Inl r \<Rightarrow> (r, g)
      | Inr req \<Rightarrow>
          (let site = trim_space hsite
           in if site = [] then (writeErr 400 ''no site'', g)
              else let ip = (if trim_space hip = [] then ''unknown'' else trim_space hip);
                       key = siteLoginKey site ip;
                       wait = blocked now key g
                   in if wait > 0
                      then (\<lparr>rp_code = 429, rp_retry = Some wait,
                             rp_body = Inl (Msg ''too many attempts; wait a few minutes and try again'')\<rparr>, g)
                      else (case AuthenticateSiteUser compare db site (slr_username req) (slr_password req) t of
                              Inl e \<Rightarrow> if e = ErrBadCredentials
                                       then (writeErr 401 ''wrong username or password'', fail now key g)
                                       else (writeErr 500 ''could not check those details'', g)
                            | Inr u \<Rightarrow> (mint_session mac L secret now site (slr_next req) u, success key g))))"

definition internal_site_login where
  "internal_site_login want got P E compare mac L secret db now body hsite hip t g =
     (case requireInternalToken want got of
        Some r \<Rightarrow> (r, g)
      | None \<Rightarrow> handleSiteLogin P E compare mac L secret db now body hsite hip t g)"

subsection \<open>What a login does\<close>

lemma AuthenticateSiteUser_Inr:
  assumes "AuthenticateSiteUser compare db site username password t = Inr u"
  shows "\<exists>row \<in> set (sut_rows t). u = site_user_of row \<and> sr_siteID row = site
    \<and> sr_username row = trim_space username \<and> compare (sr_hash row) password"
proof -
  obtain row where f: "find (\<lambda>r. sr_siteID r = site \<and> sr_username r = trim_space username) (sut_rows t) = Some row"
      and c: "compare (sr_hash row) password" "u = site_user_of row"
    using assms by (auto simp: AuthenticateSiteUser_def query_row_def split: option.splits if_splits)
  from f have "row \<in> set (sut_rows t) \<and> sr_siteID row = site \<and> sr_username row = trim_space username"
    by (auto simp: find_Some_iff)
  then show ?thesis using c by blast
qed

lemma mint_session_code: "rp_code (mint_session mac L secret now site next u) = (if secret = [] then 503 else 200)"
  by (simp add: mint_session_def)

abbreviation read_login :: "(string \<Rightarrow> json option) \<Rightarrow> (string \<Rightarrow> string) \<Rightarrow> string option \<Rightarrow>
    site_login_ok reply + site_login_request" where
  "read_login P E body \<equiv> readJSON P E decode_site_login body"

lemma handleSiteLogin_200:
  assumes "handleSiteLogin P E compare mac L secret db now body hsite hip t g = (r, g')" and "rp_code r = 200"
  obtains req u where "read_login P E body = Inr req" and "trim_space hsite \<noteq> []"
    and "AuthenticateSiteUser compare db (trim_space hsite) (slr_username req) (slr_password req) t = Inr u"
    and "r = mint_session mac L secret now (trim_space hsite) (slr_next req) u" and "secret \<noteq> []"
proof (cases "read_login P E body")
  case (Inl e)
  then have "rp_code r = 400" using assms(1) readJSON_Inl [OF Inl] by (simp add: handleSiteLogin_def)
  then show thesis using assms(2) by simp
next
  case (Inr req)
  show thesis
  proof (cases "AuthenticateSiteUser compare db (trim_space hsite) (slr_username req) (slr_password req) t")
    case (Inl e)
    then show thesis using assms Inr by (auto simp: handleSiteLogin_def Let_def split: if_splits)
  next
    case u: (Inr u)
    then have "trim_space hsite \<noteq> []" "r = mint_session mac L secret now (trim_space hsite) (slr_next req) u"
      using assms Inr by (auto simp: handleSiteLogin_def Let_def split: if_splits)
    moreover from this have "secret \<noteq> []" using assms(2) by (auto simp: mint_session_code)
    ultimately show thesis using that Inr u by blast
  qed
qed

text \<open>
  C27 A site session is only ever minted for somebody who knows a password of that site. A 200 means
  the internal token matched, the data plane named a site, and the table holds an account of that
  very site with the given name whose hash matches the password; the cookie signs that account's id
  and current generation for that site and expires twelve hours later.
\<close>

theorem site_login_sound:
  assumes "internal_site_login want got P E compare mac L secret db now body hsite hip t g = (r, g')"
    and "rp_code r = 200"
  shows "want \<noteq> [] \<and> got = want \<and> secret \<noteq> [] \<and> trim_space hsite \<noteq> []
    \<and> (\<exists>req. read_login P E body = Inr req
        \<and> (\<exists>row \<in> set (sut_rows t). sr_siteID row = trim_space hsite
              \<and> sr_username row = trim_space (slr_username req) \<and> compare (sr_hash row) (slr_password req)
              \<and> rp_body r = Inr
                  \<lparr>slo_token = signSession mac secret (trim_space hsite) (sr_id row) (sr_generation row)
                      ((now + sessionTTL) div 1000000000),
                   slo_max_age = 43200, slo_next = safeNext L (slr_next req)\<rparr>))"
proof -
  have tok: "want \<noteq> []" "got = want"
    and h: "handleSiteLogin P E compare mac L secret db now body hsite hip t g = (r, g')"
    using assms by (auto simp: internal_site_login_def requireInternalToken_def split: if_splits)
  obtain req u where q: "read_login P E body = Inr req" "trim_space hsite \<noteq> []"
      "r = mint_session mac L secret now (trim_space hsite) (slr_next req) u" "secret \<noteq> []"
      and a: "AuthenticateSiteUser compare db (trim_space hsite) (slr_username req) (slr_password req) t = Inr u"
    using handleSiteLogin_200 [OF h assms(2)] by metis
  obtain row where "row \<in> set (sut_rows t)" "u = site_user_of row" "sr_siteID row = trim_space hsite"
      "sr_username row = trim_space (slr_username req)" "compare (sr_hash row) (slr_password req)"
    using AuthenticateSiteUser_Inr [OF a] by blast
  moreover have "rp_body r = Inr \<lparr>slo_token = signSession mac secret (trim_space hsite) (su_id u) (su_generation u)
        ((now + sessionTTL) div 1000000000), slo_max_age = 43200, slo_next = safeNext L (slr_next req)\<rparr>"
    using q(3,4) by (simp add: mint_session_def sessionTTL_def nanos_def)
  ultimately show ?thesis using tok q(1,2,4) unfolding site_user_of_def by (intro conjI exI [of _ req] bexI [of _ row]) simp_all
qed

text \<open>The accounts of the witnesses.\<close>

definition demo_su :: su_table where
  "demo_su = \<lparr>sut_next = 6, sut_rows = [\<lparr>sr_id = 4, sr_siteID = ''s1'', sr_username = ''ann'', sr_hash = ''h'',
     sr_generation = 2, sr_createdAt = 0\<rparr>]\<rparr>"

definition demo_login :: "string \<Rightarrow> json option" where
  "demo_login b = Some (JObj [(''username'', JStr ''ann''), (''password'', JStr ''pw''), (''next'', JStr ''/a'')])"

definition demo_site_login where
  "demo_site_login mac = handleSiteLogin demo_login (\<lambda>b. []) (\<lambda>h p. h = ''h'' \<and> p = ''pw'') mac (\<lambda>s. s) ''k''
     None 0 (Some []) ''s1'' ''10.0.0.1'' demo_su []"

lemma demo_decoded:
  "decode_site_login (JObj [(''username'', JStr ''ann''), (''password'', JStr ''pw''), (''next'', JStr ''/a'')]) =
     Some \<lparr>slr_username = ''ann'', slr_password = ''pw'', slr_next = ''/a''\<rparr>"
  by code_simp

lemma demo_trim: "trim_space ''s1'' = ''s1''" "trim_space ''ann'' = ''ann''"
  by (simp_all add: trim_space_def trim_left_of_noop trim_right_of_def leading_seq_def space_seqs_def has_prefix_def)

lemma demo_site_login_200: "rp_code (fst (demo_site_login mac)) = 200"
  by (simp add: demo_site_login_def handleSiteLogin_def readJSON_def demo_login_def demo_decoded demo_trim Let_def
      blocked_def AuthenticateSiteUser_def query_row_def demo_su_def mint_session_def)

lemma site_login_sound_witness:
  "\<exists>row \<in> set (sut_rows demo_su). sr_siteID row = ''s1''"
proof -
  obtain r g' where h: "demo_site_login (\<lambda>k m. m) = (r, g')" by fastforce
  have "internal_site_login ''t'' ''t'' demo_login (\<lambda>b. []) (\<lambda>h p. h = ''h'' \<and> p = ''pw'') (\<lambda>k m. m) (\<lambda>s. s) ''k''
     None 0 (Some []) ''s1'' ''10.0.0.1'' demo_su [] = (r, g')"
    using h by (simp add: internal_site_login_def requireInternalToken_def demo_site_login_def)
  moreover have "rp_code r = 200" using demo_site_login_200 [of "\<lambda>k m. m"] by (simp add: h)
  ultimately show ?thesis using site_login_sound demo_trim by metis
qed

subsection \<open>Where the cookie is good\<close>

text \<open>
  What is used of HMAC-SHA1 in base64url: its text is of the characters the cookie's pattern takes; and, of the messages
  that meet, that no other site served has the message with this account, generation and expiry under the
  same MAC as the site of the cookie. (That nobody finds two such messages is what a MAC is for.)
\<close>

definition mac_text :: "(string \<Rightarrow> string \<Rightarrow> string) \<Rightarrow> bool" where
  "mac_text mac \<longleftrightarrow> (\<forall>k m. mac k m \<noteq> [] \<and> list_all is_word_char (mac k m))"

definition told_apart :: "(string \<Rightarrow> string \<Rightarrow> string) \<Rightarrow> string \<Rightarrow> string \<Rightarrow> string list \<Rightarrow> string \<Rightarrow> bool" where
  "told_apart mac key site served cookie =
     (case match_cookie cookie of
        None \<Rightarrow> True
      | Some (u, g, e, sig) \<Rightarrow> list_all (\<lambda>s. s = site \<or> mac key (payload s u g e) \<noteq> mac key (payload site u g e)) served)"

lemma signSession_payload:
  "signSession mac key site uid gen exp =
     itoa uid @ ''.'' @ itoa gen @ ''.'' @ itoa exp @ ''.'' @ mac key (payload site (itoa uid) (itoa gen) (itoa exp))"
  by (simp add: signSession_def payload_def Let_def)

lemma match_signed:
  assumes "mac_text mac" "0 \<le> uid" "0 \<le> gen" "0 \<le> exp"
  shows "match_cookie (signSession mac key site uid gen exp) =
    Some (itoa uid, itoa gen, itoa exp, mac key (payload site (itoa uid) (itoa gen) (itoa exp)))"
  unfolding signSession_payload using assms by (intro match_cookie_build) (simp_all add: digit_run_itoa mac_text_def)

lemma verify_signed:
  assumes "mac_text mac" "key \<noteq> []" "0 \<le> uid" "0 \<le> gen" "0 \<le> exp"
    and "told_apart mac key site served (signSession mac key site uid gen exp)" "site' \<in> set (site # served)"
  shows "lua_verify mac tostr (Some key) site' (Some (signSession mac key site uid gen exp)) gens now =
    (if exp \<le> now then Inl ''expired'' else if site' \<noteq> site then Inl ''bad_signature''
     else (case gens of None \<Rightarrow> Inl ''no_such_user''
           | Some m \<Rightarrow> (case m (itoa uid) of None \<Rightarrow> Inl ''no_such_user''
                       | Some cur \<Rightarrow> if tostr cur \<noteq> itoa gen then Inl ''revoked'' else Inr (itoa uid))))"
proof -
  note parsed = match_signed [OF assms(1,3,4,5), of key site]
  have ne: "signSession mac key site uid gen exp \<noteq> []" by (simp add: signSession_def Let_def)
  have sig: "mac key (payload site (itoa uid) (itoa gen) (itoa exp)) = mac key (payload site' (itoa uid) (itoa gen) (itoa exp))
      \<longleftrightarrow> site' = site"
    using assms(6,7) by (auto simp: told_apart_def parsed list_all_iff)
  have "digits_value (itoa exp) = exp" using assms(5) by (simp add: itoa_def)
  then show ?thesis using assms(2) ne sig by (simp add: lua_verify_def parsed)
qed

text \<open>
  What the publisher puts in \<open>auth_users\<close> for a site: the accounts of \<open>SiteGenerations\<close> under their
  decimal ids, a null when there are none.
\<close>

definition published_gens :: "su_table \<Rightarrow> string \<Rightarrow> (string \<rightharpoonup> int) option" where
  "published_gens t site =
     (if list_ex (\<lambda>r. sr_siteID r = site) (sut_rows t)
      then Some (\<lambda>s. case atoi s of None \<Rightarrow> None | Some n \<Rightarrow> if itoa n = s then generation_of t site n else None)
      else None)"

lemma published_gens_lookup:
  assumes "su_inv t" "0 \<le> uid" "uid < 2 ^ 63"
  shows "(case published_gens t site of None \<Rightarrow> None | Some m \<Rightarrow> m (itoa uid)) = generation_of t site uid"
proof (cases "list_ex (\<lambda>r. sr_siteID r = site) (sut_rows t)")
  case True
  then show ?thesis using assms by (simp add: published_gens_def atoi_itoa)
next
  case False
  have "generation_of t site uid = None"
    using assms(1) False find_row_Some [of sr_id uid "sut_rows t"]
    by (auto simp: generation_of_row su_inv_def list_ex_iff split: option.split)
  then show ?thesis using False by (simp add: published_gens_def)
qed

lemma itoa_inj: "0 \<le> a \<Longrightarrow> 0 \<le> b \<Longrightarrow> itoa a = itoa b \<longleftrightarrow> a = b"
  by (metis digits_value_dec_digits itoa_def linorder_not_less)

text \<open>
  What happens to the accounts after a login: the operations of \<open>StoreSiteUsers\<close>, each with the answer of the
  database, and the deletion of a whole site, which takes its accounts along. \<open>fst\<close> says whether it succeeded.
\<close>

datatype account_change =
    AddAccount "string option" int string string string
  | NewPassword "string option" int string
  | SignOut "string option" int
  | DropAccount "string option" int
  | DropSiteAccounts string

definition done_well :: "'a result \<times> su_table \<Rightarrow> bool \<times> su_table" where
  "done_well res = (case res of (Inl e, t) \<Rightarrow> (False, t) | (Inr x, t) \<Rightarrow> (True, t))"

fun account_step :: "(string \<Rightarrow> string result) \<Rightarrow> account_change \<Rightarrow> su_table \<Rightarrow> bool \<times> su_table" where
  "account_step hash (AddAccount db now site name pw) t = done_well (CreateSiteUser hash db now site name pw t)"
| "account_step hash (NewPassword db uid pw) t = done_well (SetSiteUserPassword hash db uid pw t)"
| "account_step hash (SignOut db uid) t = done_well (RevokeSiteUserSessions db uid t)"
| "account_step hash (DropAccount db uid) t = done_well (DeleteSiteUser db uid t)"
| "account_step hash (DropSiteAccounts site) t = (True, t\<lparr>sut_rows := filter (\<lambda>r. sr_siteID r \<noteq> site) (sut_rows t)\<rparr>)"

definition account_run :: "(string \<Rightarrow> string result) \<Rightarrow> account_change list \<Rightarrow> su_table \<Rightarrow> su_table" where
  "account_run hash cs t = fold (\<lambda>c t. snd (account_step hash c t)) cs t"

text \<open>The changes that are meant to end the sessions of an account, and whether one of them succeeded on the way.\<close>

fun meant_to_end :: "su_row \<Rightarrow> account_change \<Rightarrow> bool" where
  "meant_to_end r (AddAccount db now site name pw) = False"
| "meant_to_end r (NewPassword db uid pw) = (uid = sr_id r)"
| "meant_to_end r (SignOut db uid) = (uid = sr_id r)"
| "meant_to_end r (DropAccount db uid) = (uid = sr_id r)"
| "meant_to_end r (DropSiteAccounts site) = (site = sr_siteID r)"

fun ended :: "(string \<Rightarrow> string result) \<Rightarrow> su_row \<Rightarrow> account_change list \<Rightarrow> su_table \<Rightarrow> bool" where
  "ended hash r [] t = False"
| "ended hash r (c # cs) t =
     (meant_to_end r c \<and> fst (account_step hash c t) \<or> ended hash r cs (snd (account_step hash c t)))"

text \<open>An account is as it was at the login, or its generation is past that one for good.\<close>

definition unchanged :: "su_row \<Rightarrow> su_table \<Rightarrow> bool" where
  "unchanged r t \<longleftrightarrow> (\<exists>x \<in> set (sut_rows t). sr_id x = sr_id r \<and> sr_siteID x = sr_siteID r \<and> sr_generation x = sr_generation r)"

definition past :: "su_row \<Rightarrow> su_table \<Rightarrow> bool" where
  "past r t \<longleftrightarrow> sr_id r < sut_next t \<and> (\<forall>x \<in> set (sut_rows t). sr_id x = sr_id r \<longrightarrow> sr_generation r < sr_generation x)"

lemma create_cases:
  obtains (refused) e where "CreateSiteUser hash db now site name pw t = (Inl e, t)"
  | (taken) e where "CreateSiteUser hash db now site name pw t = (Inl e, t\<lparr>sut_next := sut_next t + 1\<rparr>)"
  | (added) u x where "CreateSiteUser hash db now site name pw t = (Inr u, \<lparr>sut_next = sut_next t + 1, sut_rows = sut_rows t @ [x]\<rparr>)"
      "sr_id x = sut_next t"
proof (cases "CreateSiteUser hash db now site name pw t")
  case (Pair res t')
  then show ?thesis using that
    by (cases res) (auto simp: CreateSiteUser_def Let_def split: sum.splits option.splits if_splits)
qed

lemma create_keeps_inv:
  assumes "su_inv t"
  shows "su_inv (snd (CreateSiteUser hash db now site name pw t))"
proof (cases rule: create_cases [of hash db now site name pw t])
  case (taken e)
  then show ?thesis using assms by (auto simp: su_inv_def list_all_iff)
next
  case (added u x)
  then show ?thesis using CreateSiteUser_inv [OF assms added(1)] by simp
qed (use assms in simp)

lemma done_table [simp]: "snd (done_well res) = snd res"
  by (auto simp: done_well_def split: prod.split sum.split)

lemma exec_cases:
  "on_rows t (exec_affected db e res (sut_rows t)) =
     (case db of Some m \<Rightarrow> (Inl (DbFailed m), t) | None \<Rightarrow> (if fst res = 0 then Inl e else Inr (), t\<lparr>sut_rows := snd res\<rparr>))"
  by (auto simp: on_rows_def exec_affected_def split: prod.split option.split)

lemma one_row: "su_inv t \<Longrightarrow> x \<in> set (sut_rows t) \<Longrightarrow> y \<in> set (sut_rows t) \<Longrightarrow> sr_id x = sr_id y \<Longrightarrow> x = y"
  by (auto simp: su_inv_def unique_by_def distinct_map dest: inj_onD)

lemma known_id: "su_inv t \<Longrightarrow> unchanged r t \<Longrightarrow> sr_id r < sut_next t"
  by (auto simp: su_inv_def unchanged_def list_all_iff)

lemma step_inv:
  assumes "su_inv t"
  shows "su_inv (snd (account_step hash c t))"
proof (cases c)
  case (AddAccount db now site name pw)
  then show ?thesis using create_keeps_inv [OF assms] by simp
next
  case (NewPassword db uid pw)
  then show ?thesis using assms by (auto simp: SetSiteUserPassword_def exec_cases su_inv_update split: sum.split option.split)
next
  case (SignOut db uid)
  then show ?thesis using assms by (auto simp: RevokeSiteUserSessions_def exec_cases su_inv_update split: option.split)
next
  case (DropAccount db uid)
  then show ?thesis using assms by (auto simp: DeleteSiteUser_def exec_cases su_inv_delete split: option.split)
next
  case (DropSiteAccounts site)
  then show ?thesis using su_inv_delete [OF assms, of "\<lambda>r. sr_siteID r = site"] by (simp add: delete_rows_def)
qed

text \<open>What a statement that raises the generation of one account does to the two.\<close>

lemma bump_rows:
  assumes "\<And>x. sr_id (f x) = sr_id x \<and> sr_siteID (f x) = sr_siteID x \<and> sr_generation (f x) = sr_generation x + 1"
  shows "past r t \<Longrightarrow> past r (t\<lparr>sut_rows := snd (update_rows (\<lambda>x. sr_id x = uid) f (sut_rows t))\<rparr>)"
    and "unchanged r t \<Longrightarrow> uid \<noteq> sr_id r \<Longrightarrow> unchanged r (t\<lparr>sut_rows := snd (update_rows (\<lambda>x. sr_id x = uid) f (sut_rows t))\<rparr>)"
    and "unchanged r t \<Longrightarrow> su_inv t \<Longrightarrow> past r (t\<lparr>sut_rows := snd (update_rows (\<lambda>x. sr_id x = sr_id r) f (sut_rows t))\<rparr>)"
proof -
  show "past r t \<Longrightarrow> past r (t\<lparr>sut_rows := snd (update_rows (\<lambda>x. sr_id x = uid) f (sut_rows t))\<rparr>)"
    using assms by (fastforce simp: past_def update_rows_def)
  show "unchanged r t \<Longrightarrow> uid \<noteq> sr_id r \<Longrightarrow> unchanged r (t\<lparr>sut_rows := snd (update_rows (\<lambda>x. sr_id x = uid) f (sut_rows t))\<rparr>)"
    by (force simp: unchanged_def update_rows_def)
  assume u: "unchanged r t" and i: "su_inv t"
  then obtain x where x: "x \<in> set (sut_rows t)" "sr_id x = sr_id r" "sr_generation x = sr_generation r" by (auto simp: unchanged_def)
  have "sr_generation r < sr_generation (f y)" if "y \<in> set (sut_rows t)" "sr_id y = sr_id r" for y
    using one_row [OF i that(1) x(1)] that(2) x assms [of y] by simp
  then show "past r (t\<lparr>sut_rows := snd (update_rows (\<lambda>x. sr_id x = sr_id r) f (sut_rows t))\<rparr>)"
    using known_id [OF i u] assms by (auto simp: past_def update_rows_def)
qed

lemma bump_found: "unchanged r t \<Longrightarrow> fst (update_rows (\<lambda>x. sr_id x = sr_id r) f (sut_rows t)) \<noteq> 0"
  by (auto simp: unchanged_def update_rows_def filter_empty_conv)

lemma step_past: "past r t \<Longrightarrow> past r (snd (account_step hash c t))"
proof (cases c)
  case (AddAccount db now site name pw)
  assume "past r t"
  then show ?thesis by (cases rule: create_cases [of hash db now site name pw t]) (auto simp: AddAccount past_def)
next
  case (NewPassword db uid pw)
  assume "past r t"
  then show ?thesis by (auto simp: NewPassword SetSiteUserPassword_def exec_cases bump_rows split: sum.split option.split)
next
  case (SignOut db uid)
  assume "past r t"
  then show ?thesis by (auto simp: SignOut RevokeSiteUserSessions_def exec_cases bump_rows split: option.split)
qed (auto simp: DeleteSiteUser_def exec_cases delete_rows_def past_def split: option.split)

lemma step_unchanged:
  assumes "su_inv t" "unchanged r t"
  shows "if meant_to_end r c \<and> fst (account_step hash c t) then past r (snd (account_step hash c t))
    else unchanged r (snd (account_step hash c t))"
proof (cases c)
  case (AddAccount db now site name pw)
  then show ?thesis using assms(2)
    by (cases rule: create_cases [of hash db now site name pw t]) (auto simp: unchanged_def)
next
  case (NewPassword db uid pw)
  then show ?thesis using assms
    by (cases "uid = sr_id r") (auto simp: bump_found [OF assms(2)] SetSiteUserPassword_def exec_cases bump_rows(2,3) done_well_def split: sum.split option.split)
next
  case (SignOut db uid)
  then show ?thesis using assms
    by (cases "uid = sr_id r") (auto simp: bump_found [OF assms(2)] RevokeSiteUserSessions_def exec_cases bump_rows(2,3) done_well_def split: option.split)
next
  case (DropAccount db uid)
  have "filter (\<lambda>x. sr_id x = sr_id r) (sut_rows t) \<noteq> []" using assms(2) by (auto simp: unchanged_def filter_empty_conv)
  then show ?thesis using assms(2) known_id [OF assms]
    by (auto simp: DropAccount DeleteSiteUser_def exec_cases delete_rows_def unchanged_def past_def done_well_def split: option.split)
next
  case (DropSiteAccounts site)
  have "past r (t\<lparr>sut_rows := filter (\<lambda>x. sr_siteID x \<noteq> sr_siteID r) (sut_rows t)\<rparr>)"
    using assms known_id [OF assms] one_row [OF assms(1)] by (fastforce simp: past_def unchanged_def)
  then show ?thesis using assms(2) by (auto simp: DropSiteAccounts unchanged_def)
qed

lemma run_simps [simp]:
  "account_run hash [] t = t" "account_run hash (c # cs) t = account_run hash cs (snd (account_step hash c t))"
  by (simp_all add: account_run_def)

lemma run_inv: "su_inv t \<Longrightarrow> su_inv (account_run hash cs t)"
  by (induction cs arbitrary: t) (simp_all add: step_inv)

lemma run_past: "past r t \<Longrightarrow> past r (account_run hash cs t)"
  by (induction cs arbitrary: t) (simp_all add: step_past)

lemma run_account:
  "su_inv t \<Longrightarrow> unchanged r t \<Longrightarrow> if ended hash r cs t then past r (account_run hash cs t) else unchanged r (account_run hash cs t)"
proof (induction cs arbitrary: t)
  case (Cons c cs)
  show ?case using step_unchanged [OF Cons.prems, of c hash] Cons.IH [OF step_inv [OF Cons.prems(1)], of hash c]
      run_past [of r "snd (account_step hash c t)" hash cs]
    by (auto split: if_splits)
qed simp

lemma unchanged_generation:
  assumes "su_inv t"
  shows "unchanged r t \<Longrightarrow> generation_of t (sr_siteID r) (sr_id r) = Some (sr_generation r)"
    and "past r t \<Longrightarrow> generation_of t (sr_siteID r) (sr_id r) \<noteq> Some (sr_generation r)"
proof -
  have g: "generation_of t (sr_siteID r) (sr_id r) = (case find_row sr_id (sr_id r) (sut_rows t) of None \<Rightarrow> None
      | Some x \<Rightarrow> if sr_siteID x = sr_siteID r then Some (sr_generation x) else None)"
    using assms by (simp add: generation_of_row su_inv_def)
  show "past r t \<Longrightarrow> generation_of t (sr_siteID r) (sr_id r) \<noteq> Some (sr_generation r)"
    unfolding g using find_row_Some [of sr_id "sr_id r" "sut_rows t"] by (fastforce simp: past_def split: option.splits if_splits)
  assume "unchanged r t"
  then obtain x where x: "x \<in> set (sut_rows t)" "sr_id x = sr_id r" "sr_siteID x = sr_siteID r" "sr_generation x = sr_generation r"
    by (auto simp: unchanged_def)
  have "find_row sr_id (sr_id r) (sut_rows t) = Some x"
    using find_row_unique [OF _ x(1), of sr_id] assms x(2) by (simp add: su_inv_def)
  then show "generation_of t (sr_siteID r) (sr_id r) = Some (sr_generation r)" using x(3,4) by (simp add: g)
qed

text \<open>
  C26 A cookie from one successful login is good exactly where and as long as it should be. Whatever
  is done to the accounts afterwards - accounts added, passwords changed, sessions revoked, accounts or whole
  sites deleted, with the database failing now and then - the data plane, with the accounts as they then are
  published, accepts it if and only if the site being served is the one it was minted for, its twelve
  hours are not over, and none of those operations that succeeded was a new password, a revocation or a deletion
  of this account or of its site; so never on another site, and never again after a password change. Relied on are
  a table with unique ids, generations below 10^14, which Lua prints as Go does, a MAC in the characters of a
  cookie, and that no other site served has its message under the MAC of this cookie.
\<close>

theorem site_session_exact:
  assumes "mac_text mac" "\<forall>n. 0 \<le> n \<and> n < 10 ^ 14 \<longrightarrow> tostr n = itoa n"
    and "handleSiteLogin P E compare mac L key db t0 body hsite hip t g = (r, g')" "rp_body r = Inr out" "rp_code r = 200"
    and "su_inv t" "list_all (\<lambda>x. 0 \<le> sr_id x \<and> sr_id x < 2 ^ 63 \<and> 0 \<le> sr_generation x) (sut_rows t)" "0 \<le> t0"
    and "list_all (\<lambda>x. 0 \<le> sr_generation x \<and> sr_generation x < 10 ^ 14) (sut_rows (account_run hash cs t))"
    and "told_apart mac key (trim_space hsite) served (slo_token out)"
  shows "\<exists>row \<in> set (sut_rows t). sr_siteID row = trim_space hsite \<and>
    (\<forall>site' \<in> set (trim_space hsite # served). \<forall>now u.
       lua_verify mac tostr (Some key) site' (Some (slo_token out)) (published_gens (account_run hash cs t) site') now = Inr u \<longleftrightarrow>
        u = itoa (sr_id row) \<and> site' = trim_space hsite \<and> now < (t0 + sessionTTL) div 1000000000 \<and> \<not> ended hash row cs t)"
proof -
  let ?t = "account_run hash cs t"
  obtain req u where "read_login P E body = Inr req" and "trim_space hsite \<noteq> []"
      and u: "AuthenticateSiteUser compare db (trim_space hsite) (slr_username req) (slr_password req) t = Inr u"
      and r: "r = mint_session mac L key t0 (trim_space hsite) (slr_next req) u" and key: "key \<noteq> []"
    using assms(3,5) by (rule handleSiteLogin_200)
  obtain row where row: "row \<in> set (sut_rows t)" "u = site_user_of row" "sr_siteID row = trim_space hsite"
    using AuthenticateSiteUser_Inr [OF u] by blast
  let ?exp = "(t0 + sessionTTL) div 1000000000"
  have tok: "slo_token out = signSession mac key (trim_space hsite) (sr_id row) (sr_generation row) ?exp"
    using assms(4) key by (auto simp: r mint_session_def row(2) site_user_of_def)
  have b: "0 \<le> sr_id row" "sr_id row < 2 ^ 63" "0 \<le> sr_generation row" "0 \<le> ?exp"
    using assms(7,8) row(1) by (auto simp: list_all_iff sessionTTL_def nanos_def)
  have i: "su_inv ?t" using run_inv [OF assms(6)] .
  have gen: "0 \<le> cur \<and> tostr cur = itoa cur" if "generation_of ?t site' (sr_id row) = Some cur" for site' cur
  proof -
    have "\<exists>x \<in> set (sut_rows ?t). sr_generation x = cur"
      using that i find_row_Some [of sr_id "sr_id row" "sut_rows ?t"]
      by (auto simp: generation_of_row su_inv_def split: option.splits if_splits)
    then show ?thesis using assms(2,9) by (auto simp: list_all_iff)
  qed
  have "unchanged row t" using row(1) by (auto simp: unchanged_def)
  from run_account [OF assms(6) this, of hash cs]
  have last: "generation_of ?t (trim_space hsite) (sr_id row) = Some (sr_generation row) \<longleftrightarrow> \<not> ended hash row cs t"
    using unchanged_generation [OF i, of row] row(3) by (auto split: if_splits)
  have "lua_verify mac tostr (Some key) site' (Some (slo_token out)) (published_gens ?t site') now = Inr v \<longleftrightarrow>
      v = itoa (sr_id row) \<and> site' = trim_space hsite \<and> now < ?exp \<and> \<not> ended hash row cs t"
    if "site' \<in> set (trim_space hsite # served)" for site' now v
    unfolding tok verify_signed [OF assms(1) key b(1,3,4) assms(10) [unfolded tok] that] last [symmetric]
    using published_gens_lookup [OF i b(1,2), of site'] gen [of site'] b(3) row(3) itoa_inj
    by (auto split: option.splits)
  then show ?thesis using row(1,3) by blast
qed

text \<open>A function for the MAC of the witness, and two ends of the story: nothing happens, and the password is changed.\<close>

definition demo_mac :: "string \<Rightarrow> string \<Rightarrow> string" where
  "demo_mac k m = CHR ''S'' # filter is_word_char m"

lemma demo_mac_text: "mac_text demo_mac"
proof -
  have "is_word_char (CHR ''S'')" by code_simp
  then show ?thesis by (simp add: mac_text_def demo_mac_def list_all_iff)
qed

lemma demo_su_inv: "su_inv demo_su"
  by (simp add: su_inv_def demo_su_def unique_by_def)

lemma site_session_exact_witness:
  "\<exists>out. rp_body (fst (demo_site_login demo_mac)) = Inr out
    \<and> lua_verify demo_mac itoa (Some ''k'') ''s1'' (Some (slo_token out)) (published_gens demo_su ''s1'') 100 = Inr ''4''
    \<and> (\<forall>u. lua_verify demo_mac itoa (Some ''k'') ''s2'' (Some (slo_token out)) (published_gens demo_su ''s2'') 100 \<noteq> Inr u)
    \<and> (\<forall>u. lua_verify demo_mac itoa (Some ''k'') ''s1'' (Some (slo_token out))
         (published_gens (account_run Inr [NewPassword None 4 ''0123456789''] demo_su) ''s1'') 100 \<noteq> Inr u)"
proof -
  let ?new = "[NewPassword None 4 ''0123456789'']"
  obtain r g' where h: "demo_site_login demo_mac = (r, g')" by fastforce
  have c: "rp_code r = 200" using demo_site_login_200 [of demo_mac] by (simp add: h)
  have "rp_body (fst (demo_site_login demo_mac)) = Inr \<lparr>slo_token = signSession demo_mac ''k'' ''s1'' 4 2 43200, slo_max_age = 43200, slo_next = safeNext (\<lambda>s. s) ''/a''\<rparr>"
    by (simp add: demo_site_login_def handleSiteLogin_def readJSON_def demo_login_def demo_decoded demo_trim Let_def
      blocked_def AuthenticateSiteUser_def query_row_def demo_su_def mint_session_def site_user_of_def sessionTTL_def nanos_def)
  then obtain out where out: "rp_body r = Inr out" "slo_token out = signSession demo_mac ''k'' ''s1'' 4 2 43200" by (simp add: h)
  have apart: "told_apart demo_mac ''k'' (trim_space ''s1'') [''s2''] (slo_token out)"
    unfolding out(2) demo_trim by code_simp
  have rows: "list_all (\<lambda>x. 0 \<le> sr_id x \<and> sr_id x < 2 ^ 63 \<and> 0 \<le> sr_generation x) (sut_rows demo_su)" by (simp add: demo_su_def)
  have later: "sut_rows (account_run Inr ?new demo_su) = [\<lparr>sr_id = 4, sr_siteID = ''s1'', sr_username = ''ann'', sr_hash = ''0123456789'',
     sr_generation = 3, sr_createdAt = 0\<rparr>]"
    by (simp add: SetSiteUserPassword_def minSitePasswordLength_def on_rows_def exec_affected_def update_rows_def demo_su_def)
  have four: "itoa 4 = ''4''" by code_simp
  have row: "x = hd (sut_rows demo_su)" if "x \<in> set (sut_rows demo_su)" for x using that by (simp add: demo_su_def)
  then have id: "sr_id x = 4" if "x \<in> set (sut_rows demo_su)" for x using that by (simp add: demo_su_def)
  note session = site_session_exact [OF demo_mac_text _ h [unfolded demo_site_login_def] out(1) c demo_su_inv rows _ _ apart, of itoa Inr]
  obtain x where x: "x \<in> set (sut_rows demo_su)" and v: "\<forall>site' \<in> {''s1'', ''s2''}. \<forall>now u. lua_verify demo_mac itoa (Some ''k'') site'
      (Some (slo_token out)) (published_gens demo_su site') now = Inr u \<longleftrightarrow>
        u = itoa (sr_id x) \<and> site' = ''s1'' \<and> now < sessionTTL div 1000000000"
    using session [of "[]"] by (auto simp: demo_trim demo_su_def)
  obtain y where y: "y \<in> set (sut_rows demo_su)" and w: "\<forall>site' \<in> {''s1'', ''s2''}. \<forall>now u. lua_verify demo_mac itoa (Some ''k'') site'
      (Some (slo_token out)) (published_gens (account_run Inr ?new demo_su) site') now = Inr u \<longrightarrow> \<not> ended Inr y ?new demo_su"
    using session [of ?new] by (auto simp: demo_trim later simp del: run_simps ended.simps)
  have "ended Inr y ?new demo_su"
    using id [OF y] by (simp add: SetSiteUserPassword_def minSitePasswordLength_def on_rows_def exec_affected_def update_rows_def demo_su_def done_well_def)
  then show ?thesis using v w out(1) four id [OF x] by (simp add: h sessionTTL_def nanos_def)
qed

subsection \<open>Where the visitor is sent\<close>

lemma contains_after_ascii: "is_ascii s \<Longrightarrow> go_to_lower L s = map lower_char s"
  by (simp add: go_to_lower_def)

lemma no_breaks: "\<not> list_ex below_space v \<Longrightarrow> \<not> contains_any [CHR 0x00, CHR 0x0D, CHR 0x0A] v"
proof
  assume "\<not> list_ex below_space v" and "contains_any [CHR 0x00, CHR 0x0D, CHR 0x0A] v"
  moreover have "below_space (CHR 0x00)" "below_space (CHR 0x0D)" "below_space (CHR 0x0A)" by code_simp+
  ultimately show False by (auto simp: contains_any_iff list_ex_iff)
qed

text \<open>
  The redirect after a login stays on the site: whatever \<open>next\<close> says, the answer is a path the
  data plane's own test accepts as local - no scheme, no second slash or backslash, no control
  character - and a plain ASCII path that test accepts is passed through unchanged, if it is not
  longer than 1024 bytes. \<open>L\<close> may do what it likes to letters, as long as it keeps \<open>://\<close>.
\<close>

theorem safe_next_local:
  assumes "\<forall>s. str_contains ''://'' (map lower_char s) \<longrightarrow> str_contains ''://'' (L s)"
  shows "is_local_path (safeNext L v)
    \<and> (is_ascii v \<and> length v \<le> 1024 \<and> is_local_path v \<longrightarrow> safeNext L v = v)
    \<and> safeNext L (safeNext L v) = safeNext L v"
proof -
  have slash: "is_local_path ''/''" by code_simp
  have low: "str_contains ''://'' (map lower_char s) \<Longrightarrow> str_contains ''://'' (go_to_lower L s)" for s
    using assms by (simp add: go_to_lower_def)
  have "is_local_path (safeNext L v)"
    using slash low [of v] by (auto simp: safeNext_def is_local_path_def)
  moreover have "is_ascii v \<and> length v \<le> 1024 \<and> is_local_path v \<longrightarrow> safeNext L v = v"
    by (auto simp: safeNext_def is_local_path_def contains_after_ascii no_breaks)
  moreover have "safeNext L v = v \<or> safeNext L v = ''/''" and "safeNext L ''/'' = ''/''" by (simp_all add: safeNext_def)
  then have "safeNext L (safeNext L v) = safeNext L v" by metis
  ultimately show ?thesis by blast
qed

lemma safe_next_local_witness: "is_local_path (safeNext (map lower_char) ''//evil.example'')"
  using safe_next_local [of "map lower_char" "''//evil.example''"] by simp

end
