(* ===== verification/EngineAcme.thy ===== *)
theory EngineAcme
  imports StoreSites StoreSettings
begin

section \<open>The engine: certificates\<close>

text \<open>
  \<open>control/internal/engine/acme.go\<close>: which sites need a certificate, one order from start to finish
  and the sweep over all sites. The ACME client library, the certificate and key encodings and the
  Redis server's answers are the record \<open>acme_lib\<close>. Its functions that reach the authority while a
  challenge is open take the tokens published at that moment. \<open>leaf\<close> reads the DNS names of the first
  certificate of a PEM text; \<open>fmt\<close> is the RFC 3339 form of a time; \<open>L\<close> and \<open>U\<close> are the case tables.
\<close>

definition renewBefore :: int where "renewBefore = nanos (30 * 24 * 3600)"
definition retryAfterFailure :: int where "retryAfterFailure = nanos 3600"
definition acmeTokenPrefix :: string where "acmeTokenPrefix = ''moswaf:acme:''"

subsection \<open>Which site needs a certificate\<close>

definition domainsNotCovered :: "(string \<Rightarrow> string) \<Rightarrow> (string \<Rightarrow> string list option) \<Rightarrow> site \<Rightarrow> string list" where
  "domainsNotCovered L leaf s =
     (if s_tlsCert s = [] \<or> s_domains s = [] then []
      else (case leaf (s_tlsCert s) of
              None \<Rightarrow> []
            | Some names \<Rightarrow>
                filter (\<lambda>d. \<not> List.member (map (go_to_lower L) names) (go_to_lower L (trim_suffix ''.'' d))) (s_domains s)))"

definition CertificateWanted ::
  "(string \<Rightarrow> string) \<Rightarrow> (string \<Rightarrow> string list option) \<Rightarrow> (int \<Rightarrow> string) \<Rightarrow> site \<Rightarrow> int \<Rightarrow> bool \<times> string" where
  "CertificateWanted L leaf fmt s now =
     (if \<not> s_enabled s \<or> \<not> s_acmeEnabled s then (False, [])
      else (case s_certExpiresAt s of
              None \<Rightarrow> (True, ''no certificate yet'')
            | Some exp \<Rightarrow>
                if s_tlsCert s = [] then (True, ''no certificate yet'')
                else if now + renewBefore > exp then (True, ''expires '' @ fmt exp)
                else let missing = domainsNotCovered L leaf s
                     in if missing \<noteq> [] then (True, ''the certificate does not cover '' @ str_join '', '' missing)
                        else (False, [])))"

definition NeedsCertificate ::
  "(string \<Rightarrow> string) \<Rightarrow> (string \<Rightarrow> string list option) \<Rightarrow> (int \<Rightarrow> string) \<Rightarrow> site \<Rightarrow> int \<Rightarrow> bool \<times> string" where
  "NeedsCertificate L leaf fmt s now =
     (case CertificateWanted L leaf fmt s now of (want, reason) \<Rightarrow>
        if \<not> want then (False, [])
        else (case s_acmeLastTry s of
                None \<Rightarrow> (True, reason)
              | Some t \<Rightarrow> if s_acmeLastError s \<noteq> [] \<and> time_sub now t < retryAfterFailure then (False, [])
                          else (True, reason)))"

subsection \<open>One order\<close>

record acme_account =
  aa_keyPEM :: string
  aa_directory :: string
  aa_uri :: string
  aa_email :: string

record authz =
  az_valid :: bool
  az_challenges :: "(string \<times> string) list"
  az_uri :: string
  az_ident :: string

text \<open>The challenge answers Redis holds: what the data plane serves to the authority.\<close>

type_synonym tokens = "string \<rightharpoonup> string"

record acme_lib =
  al_newKey :: "string + string"
  al_register :: "string \<Rightarrow> string \<Rightarrow> string + string"
  al_keyError :: "string \<Rightarrow> string option"
  al_order :: "string list \<Rightarrow> string + (string list \<times> string)"
  al_authz :: "string \<Rightarrow> string + authz"
  al_response :: "string \<Rightarrow> string + string"
  al_set :: "string \<Rightarrow> string option"
  al_del :: "string \<Rightarrow> bool"
  al_accept :: "tokens \<Rightarrow> string \<Rightarrow> string option"
  al_waitAuthz :: "tokens \<Rightarrow> string \<Rightarrow> string option"
  al_waitOrder :: "string \<Rightarrow> string + string"
  al_csr :: "string list \<Rightarrow> string + (string \<times> string)"
  al_create :: "string \<Rightarrow> string \<Rightarrow> string + string list"
  al_notAfter :: "string \<Rightarrow> string + int"
  al_pem :: "string \<Rightarrow> string"
  al_keyPEM :: "string \<Rightarrow> string + string"

record acme_state =
  st_sites :: "site list"
  st_settings :: "settings_row list"
  st_tokens :: tokens

definition account_json :: "acme_account \<Rightarrow> json" where
  "account_json a = JObj [(''key_pem'', JStr (aa_keyPEM a)), (''directory'', JStr (aa_directory a)),
     (''uri'', JStr (aa_uri a)), (''email'', JStr (aa_email a))]"

definition decode_account :: "json \<Rightarrow> acme_account option" where
  "decode_account j = (case as_struct j of None \<Rightarrow> None
     | Some kvs \<Rightarrow>
         (case (as_string (jfield ''key_pem'' kvs), as_string (jfield ''directory'' kvs),
                as_string (jfield ''uri'' kvs), as_string (jfield ''email'' kvs)) of
            (Some k, Some d, Some u, Some e) \<Rightarrow>
              Some \<lparr>aa_keyPEM = k, aa_directory = d, aa_uri = u, aa_email = e\<rparr>
          | _ \<Rightarrow> None))"

definition no_account :: acme_account where
  "no_account = \<lparr>aa_keyPEM = [], aa_directory = [], aa_uri = [], aa_email = []\<rparr>"

text \<open>\<open>Error()\<close> of a store error. (The statements used here only return the first two.)\<close>

fun error_text :: "store_error \<Rightarrow> string" where
  "error_text (DbFailed m) = m"
| "error_text ErrNotFound = ''not found''"
| "error_text ErrBadCredentials = ''wrong username or password''"
| "error_text (Invalid m) = m"
| "error_text (InvalidValue m v) = v @ '' '' @ m"

definition stored_account :: "string option \<Rightarrow> settings_row list \<Rightarrow> string + acme_account" where
  "stored_account db t =
     (case GetSetting db ''acme_account'' t of
        Inl e \<Rightarrow> Inl (error_text e)
      | Inr None \<Rightarrow> Inr no_account
      | Inr (Some raw) \<Rightarrow> (case decode_account raw of
                             None \<Rightarrow> Inl ''the stored acme account is unreadable'' | Some a \<Rightarrow> Inr a))"

text \<open>\<open>client\<close>: the account key to use; \<open>db1\<close>, \<open>db2\<close> are the errors of its two statements.\<close>

definition acme_client ::
  "acme_lib \<Rightarrow> string \<Rightarrow> string option \<Rightarrow> string option \<Rightarrow> string \<Rightarrow> settings_row list \<Rightarrow> (string + string) \<times> settings_row list" where
  "acme_client X dir db1 db2 email t =
     (case stored_account db1 t of
        Inl e \<Rightarrow> (Inl e, t)
      | Inr acct \<Rightarrow>
          if aa_keyPEM acct = [] \<or> aa_directory acct \<noteq> dir then
            (case al_newKey X of
               Inl e \<Rightarrow> (Inl e, t)
             | Inr key \<Rightarrow>
                 (case al_register X key (''mailto:'' @ email) of
                    Inl e \<Rightarrow> (Inl (''registering with the CA: '' @ e), t)
                  | Inr uri \<Rightarrow>
                      (case PutSetting db2 ''acme_account''
                          (account_json \<lparr>aa_keyPEM = key, aa_directory = dir, aa_uri = uri, aa_email = email\<rparr>) t of
                         (Inl e, t') \<Rightarrow> (Inl (error_text e), t')
                       | (Inr _, t') \<Rightarrow> (Inr key, t'))))
          else (case al_keyError X (aa_keyPEM acct) of
                  Some e \<Rightarrow> (Inl e, t)
                | None \<Rightarrow> (Inr (aa_keyPEM acct), t)))"

text \<open>
  \<open>solveHTTP01\<close>: the deferred \<open>Del\<close> removes the token however the function returns; its own failure
  is ignored, and Redis drops the token ten minutes later.
\<close>

definition drop_token :: "acme_lib \<Rightarrow> string \<Rightarrow> tokens \<Rightarrow> tokens" where
  "drop_token X key T = (if al_del X key then T(key := None) else T)"

text \<open>From \<open>Accept\<close> on, with the token published in \<open>T\<close>.\<close>

definition validate_open :: "acme_lib \<Rightarrow> authz \<Rightarrow> string \<Rightarrow> tokens \<Rightarrow> string option" where
  "validate_open X az tok T =
     (case al_accept X T tok of
        Some e \<Rightarrow> Some (''accepting the challenge: '' @ e)
      | None \<Rightarrow> (case al_waitAuthz X T (az_uri az) of
                   Some e \<Rightarrow> Some (''the CA could not validate '' @ az_ident az @ '': '' @ e)
                 | None \<Rightarrow> None))"

definition solveHTTP01 :: "acme_lib \<Rightarrow> string \<Rightarrow> tokens \<Rightarrow> string option \<times> tokens" where
  "solveHTTP01 X url T =
     (case al_authz X url of
        Inl e \<Rightarrow> (Some (''reading the authorization: '' @ e), T)
      | Inr az \<Rightarrow>
          if az_valid az then (None, T)
          else (case find (\<lambda>(ty, tok). ty = ''http-01'') (az_challenges az) of
                  None \<Rightarrow> (Some (''the CA offered no http-01 challenge for '' @ az_ident az), T)
                | Some (ty, tok) \<Rightarrow>
                    (case al_response X tok of
                       Inl e \<Rightarrow> (Some e, T)
                     | Inr resp \<Rightarrow>
                         (let key = acmeTokenPrefix @ tok
                          in (case al_set X key of
                                Some e \<Rightarrow> (Some (''publishing the challenge token: '' @ e), T)
                              | None \<Rightarrow> (let open = T(key \<mapsto> resp)
                                         in (validate_open X az tok open, drop_token X key open)))))))"

fun solve_all :: "acme_lib \<Rightarrow> string list \<Rightarrow> tokens \<Rightarrow> string option \<times> tokens" where
  "solve_all X [] T = (None, T)"
| "solve_all X (u # us) T = (case solveHTTP01 X u T of (Some e, T') \<Rightarrow> (Some e, T') | (None, T') \<Rightarrow> solve_all X us T')"

text \<open>
  \<open>newCertificateRequest\<close>: the check for a domain. The key and the signed request for these names are made by
  \<open>crypto/ecdsa\<close> and \<open>crypto/x509\<close>: both are \<open>al_csr\<close> of the whole list of domains, and nothing is claimed of the
  contents of the request.
\<close>

definition newCertificateRequest :: "acme_lib \<Rightarrow> string list \<Rightarrow> string + (string \<times> string)" where
  "newCertificateRequest X domains =
     (if domains = [] then Inl ''a certificate needs at least one domain'' else al_csr X domains)"

definition encodeIssued :: "acme_lib \<Rightarrow> string list \<Rightarrow> string \<Rightarrow> string + (string \<times> string \<times> int)" where
  "encodeIssued X chain key =
     (case chain of
        [] \<Rightarrow> Inl ''the authority returned an empty chain''
      | der # ders \<Rightarrow>
          (case al_notAfter X der of
             Inl e \<Rightarrow> Inl (''parsing the issued certificate: '' @ e)
           | Inr notAfter \<Rightarrow>
               (case al_keyPEM X key of
                  Inl e \<Rightarrow> Inl e
                | Inr keyPEM \<Rightarrow> Inr (concat (map (al_pem X) (der # ders)), keyPEM, notAfter))))"

definition wrap_error :: "string \<Rightarrow> string + 'a \<Rightarrow> string + 'a" where
  "wrap_error msg r = (case r of Inl e \<Rightarrow> Inl (msg @ e) | Inr x \<Rightarrow> Inr x)"

text \<open>The steps of \<open>Issue\<close> after the authorizations, which touch no token.\<close>

definition finish_order :: "acme_lib \<Rightarrow> string list \<Rightarrow> string \<Rightarrow> string + (string \<times> string \<times> int)" where
  "finish_order X domains order_uri =
     bind_res (wrap_error ''waiting for the order: '' (al_waitOrder X order_uri)) (\<lambda>finalize.
     bind_res (newCertificateRequest X domains) (\<lambda>(csr, key).
     bind_res (wrap_error ''finalising the order: '' (al_create X finalize csr)) (\<lambda>chain. encodeIssued X chain key)))"

definition store_issued :: "string option \<Rightarrow> int \<Rightarrow> string \<Rightarrow> string \<times> string \<times> int \<Rightarrow> site list \<Rightarrow> string option \<times> site list" where
  "store_issued db now k issued t =
     (case issued of (certPEM, keyPEM, notAfter) \<Rightarrow>
        (case StoreCertificate db now k certPEM keyPEM notAfter t of
           (Inl e, t') \<Rightarrow> (Some (error_text e), t')
         | (Inr _, t') \<Rightarrow> (None, t')))"

text \<open>
  What the world answers while one site is worked on: the library and Redis, the directory, the
  errors of the four statements, the clock of the check and the clock of the database.
\<close>

record acme_env =
  ae_lib :: acme_lib
  ae_dir :: string
  ae_get :: "string option"
  ae_put :: "string option"
  ae_store :: "string option"
  ae_record :: "string option"
  ae_check :: int
  ae_stored :: int

text \<open>\<open>Issue\<close> after the authorizations.\<close>

definition complete_order :: "acme_env \<Rightarrow> site \<Rightarrow> string \<Rightarrow> acme_state \<Rightarrow> string option \<times> acme_state" where
  "complete_order E s uri w =
     (case finish_order (ae_lib E) (s_domains s) uri of
        Inl e \<Rightarrow> (Some e, w)
      | Inr issued \<Rightarrow> (case store_issued (ae_store E) (ae_stored E) (s_id s) issued (st_sites w) of
                         (r, t) \<Rightarrow> (r, w\<lparr>st_sites := t\<rparr>)))"

definition Issue :: "acme_env \<Rightarrow> site \<Rightarrow> acme_state \<Rightarrow> string option \<times> acme_state" where
  "Issue E s w =
     (case acme_client (ae_lib E) (ae_dir E) (ae_get E) (ae_put E) (s_acmeEmail s) (st_settings w) of
        (Inl e, t1) \<Rightarrow> (Some e, w\<lparr>st_settings := t1\<rparr>)
      | (Inr key, t1) \<Rightarrow>
          (case al_order (ae_lib E) (s_domains s) of
             Inl e \<Rightarrow> (Some (''creating the order: '' @ e), w\<lparr>st_settings := t1\<rparr>)
           | Inr (urls, uri) \<Rightarrow>
               (case solve_all (ae_lib E) urls (st_tokens w) of
                  (Some e, T) \<Rightarrow> (Some e, w\<lparr>st_settings := t1, st_tokens := T\<rparr>)
                | (None, T) \<Rightarrow> complete_order E s uri (w\<lparr>st_settings := t1, st_tokens := T\<rparr>))))"

subsection \<open>The sweep\<close>

definition recordFailure :: "acme_env \<Rightarrow> site \<Rightarrow> string \<Rightarrow> acme_state \<Rightarrow> acme_state" where
  "recordFailure E s cause w =
     w\<lparr>st_sites := snd (RecordACMEAttempt (ae_record E) (ae_stored E) (s_id s) (take 500 cause) (st_sites w))\<rparr>"

text \<open>The loop over the sites read at the start, \<open>E\<close> by site; the flag is \<open>issued\<close>.\<close>

fun sweep_loop where
  "sweep_loop L leaf fmt E [] issued w = (issued, w)"
| "sweep_loop L leaf fmt E (s # ss) issued w =
     (if \<not> fst (NeedsCertificate L leaf fmt s (ae_check (E (s_id s)))) then sweep_loop L leaf fmt E ss issued w
      else (case Issue (E (s_id s)) s w of
              (Some e, w') \<Rightarrow> sweep_loop L leaf fmt E ss issued (recordFailure (E (s_id s)) s e w')
            | (None, w') \<Rightarrow> sweep_loop L leaf fmt E ss True w'))"

text \<open>The result: whether \<open>onIssued\<close> is called, and the state. \<open>db\<close> is the error of the listing.\<close>

definition sweep where
  "sweep L U leaf fmt db E w =
     (case ListSites L U db (st_sites w) of
        Inl e \<Rightarrow> (False, w)
      | Inr sites \<Rightarrow> sweep_loop L leaf fmt E sites False w)"

subsection \<open>When a certificate is wanted\<close>

named_theorems acme_simps

lemma scan_fields [acme_simps]:
  "s_id (scanSite L U r) = s_id r" "s_enabled (scanSite L U r) = s_enabled r"
  "s_acmeEnabled (scanSite L U r) = s_acmeEnabled r" "s_tlsCert (scanSite L U r) = s_tlsCert r"
  "s_domains (scanSite L U r) = s_domains r" "s_certExpiresAt (scanSite L U r) = s_certExpiresAt r"
  "s_acmeLastError (scanSite L U r) = s_acmeLastError r" "s_acmeLastTry (scanSite L U r) = s_acmeLastTry r"
  by (simp_all add: scanSite_def site_paths_def Let_def)

lemma needs_scan [acme_simps]: "NeedsCertificate L leaf fmt (scanSite K U r) t = NeedsCertificate L leaf fmt r t"
  unfolding NeedsCertificate_def CertificateWanted_def domainsNotCovered_def acme_simps by (rule refl)

lemma uncovered_cong: "s_tlsCert r = s_tlsCert s \<Longrightarrow> s_domains r = s_domains s \<Longrightarrow>
    domainsNotCovered L leaf r = domainsNotCovered L leaf s"
  unfolding domainsNotCovered_def by (simp only:)

lemma covered_none:
  "domainsNotCovered L leaf s = [] \<longleftrightarrow>
     s_tlsCert s = [] \<or> leaf (s_tlsCert s) = None
     \<or> (\<forall>d \<in> set (s_domains s). \<exists>n \<in> set (the (leaf (s_tlsCert s))). go_to_lower L n = go_to_lower L (trim_suffix ''.'' d))"
proof (cases "leaf (s_tlsCert s)")
  case (Some names)
  have "y \<in> go_to_lower L ` set names \<longleftrightarrow> (\<exists>n \<in> set names. go_to_lower L n = y)" for y
    by (auto simp: image_iff)
  then show ?thesis
    by (auto simp: domainsNotCovered_def Some filter_empty_conv)
qed (simp add: domainsNotCovered_def)

lemma needs_exact: "fst (NeedsCertificate L leaf fmt s now) \<longleftrightarrow> fst (CertificateWanted L leaf fmt s now)
    \<and> (s_acmeLastTry s = None \<or> s_acmeLastError s = [] \<or> the (s_acmeLastTry s) + nanos 3600 \<le> now)"
proof -
  have "time_sub now t < retryAfterFailure \<longleftrightarrow> \<not> t + nanos 3600 \<le> now" for t
    by (auto simp: time_sub_def retryAfterFailure_def nanos_def)
  then show ?thesis by (auto simp: NeedsCertificate_def split: prod.splits option.splits)
qed

text \<open>
  A site needs a certificate exactly when it is enabled and ACME is on for it, it has none, or
  has no known expiry, or that expiry is less than thirty days away, or the stored certificate is
  readable and does not name one of the site's domains, and no failure of the last hour is recorded.
  The button of the dashboard asks the same question without the last condition.
\<close>

theorem needs_certificate_exact:
  "(fst (CertificateWanted L leaf fmt s now) \<longleftrightarrow>
     s_enabled s \<and> s_acmeEnabled s \<and>
     (s_tlsCert s = [] \<or> s_certExpiresAt s = None \<or> the (s_certExpiresAt s) - now < nanos (30 * 24 * 3600)
      \<or> (\<exists>names. leaf (s_tlsCert s) = Some names
           \<and> (\<exists>d \<in> set (s_domains s). \<forall>n \<in> set names. go_to_lower L n \<noteq> go_to_lower L (trim_suffix ''.'' d)))))
   \<and> (fst (NeedsCertificate L leaf fmt s now) \<longleftrightarrow>
       fst (CertificateWanted L leaf fmt s now)
       \<and> (s_acmeLastTry s = None \<or> s_acmeLastError s = [] \<or> the (s_acmeLastTry s) + nanos 3600 \<le> now))"
proof
  have "(domainsNotCovered L leaf s \<noteq> []) \<longleftrightarrow> s_tlsCert s \<noteq> [] \<and> (\<exists>names. leaf (s_tlsCert s) = Some names
      \<and> (\<exists>d \<in> set (s_domains s). \<forall>n \<in> set names. go_to_lower L n \<noteq> go_to_lower L (trim_suffix ''.'' d)))"
    by (cases "leaf (s_tlsCert s)") (simp_all add: covered_none)
  then show "fst (CertificateWanted L leaf fmt s now) \<longleftrightarrow>
     s_enabled s \<and> s_acmeEnabled s \<and>
     (s_tlsCert s = [] \<or> s_certExpiresAt s = None \<or> the (s_certExpiresAt s) - now < nanos (30 * 24 * 3600)
      \<or> (\<exists>names. leaf (s_tlsCert s) = Some names
           \<and> (\<exists>d \<in> set (s_domains s). \<forall>n \<in> set names. go_to_lower L n \<noteq> go_to_lower L (trim_suffix ''.'' d))))"
    by (auto simp: CertificateWanted_def renewBefore_def Let_def split: option.splits)
qed (rule needs_exact)

subsection \<open>One order\<close>

definition certified :: "string \<Rightarrow> string \<Rightarrow> int \<Rightarrow> int \<Rightarrow> site \<Rightarrow> site" where
  "certified c key na now r = r\<lparr>s_tlsCert := c, s_tlsKey := key, s_certExpiresAt := Some na,
     s_acmeLastError := [], s_acmeLastTry := Some now, s_updatedAt := now\<rparr>"

lemma certified_id [simp]: "s_id (certified c key na now r) = s_id r"
  by (simp add: certified_def)

lemma store_issued_ok:
  assumes "k \<in> s_id ` set t"
  shows "store_issued None now k (c, key, na) t = (None, map (\<lambda>r. if s_id r = k then certified c key na now r else r) t)"
proof -
  have "filter (\<lambda>r. s_id r = k) t \<noteq> []" using assms by (auto simp: filter_empty_conv)
  then show ?thesis
    by (simp add: store_issued_def StoreCertificate_def exec_affected_def update_rows_def certified_def)
qed

lemma store_issued_fails:
  assumes "db \<noteq> None \<or> k \<notin> s_id ` set t"
  shows "\<exists>e. store_issued db now k (c, key, na) t = (Some e, t)"
proof (cases db)
  case None
  then have "filter (\<lambda>r. s_id r = k) t = []" "map (\<lambda>r. if s_id r = k then f r else r) t = t" for f
    using assms by (auto simp: filter_empty_conv intro!: map_idI)
  then show ?thesis
    by (simp add: None store_issued_def StoreCertificate_def exec_affected_def update_rows_def)
qed (simp add: store_issued_def StoreCertificate_def exec_affected_def)

lemma complete_order_cases:
  "(\<exists>e. complete_order E s uri w = (Some e, w)) \<or>
   (\<exists>c key na. finish_order (ae_lib E) (s_domains s) uri = Inr (c, key, na) \<and> s_id s \<in> s_id ` set (st_sites w)
     \<and> complete_order E s uri w = (None,
         w\<lparr>st_sites := map (\<lambda>r. if s_id r = s_id s then certified c key na (ae_stored E) r else r) (st_sites w)\<rparr>))"
proof (cases "finish_order (ae_lib E) (s_domains s) uri")
  case (Inr issued)
  obtain c key na where i: "issued = (c, key, na)" by (rule prod_cases3)
  show ?thesis
  proof (cases "ae_store E = None \<and> s_id s \<in> s_id ` set (st_sites w)")
    case True
    then show ?thesis
      by (simp add: complete_order_def Inr i store_issued_ok [OF conjunct2 [OF True]])
  next
    case False
    then obtain e where "store_issued (ae_store E) (ae_stored E) (s_id s) (c, key, na) (st_sites w) = (Some e, st_sites w)"
      using store_issued_fails by blast
    then show ?thesis by (simp add: complete_order_def Inr i)
  qed
qed (simp add: complete_order_def)

text \<open>What an order that succeeded went through.\<close>

definition authorized :: "acme_lib \<Rightarrow> string \<Rightarrow> bool" where
  "authorized X u \<longleftrightarrow> (\<exists>az. al_authz X u = Inr az \<and>
     (az_valid az \<or> (\<exists>tok resp T. (''http-01'', tok) \<in> set (az_challenges az) \<and> al_response X tok = Inr resp
        \<and> T (acmeTokenPrefix @ tok) = Some resp \<and> al_accept X T tok = None \<and> al_waitAuthz X T (az_uri az) = None)))"

lemma find_mem: "find P xs = Some x \<Longrightarrow> x \<in> set xs \<and> P x"
  by (auto simp: find_Some_iff)

lemma solve_authorized:
  assumes "solveHTTP01 X u T = (None, T')"
  shows "authorized X u"
proof -
  from assms obtain az where az: "al_authz X u = Inr az" by (auto simp: solveHTTP01_def split: sum.splits)
  show ?thesis
  proof (cases "az_valid az")
    case False
    with assms az obtain ty tok resp where f: "find (\<lambda>(ty, tok). ty = ''http-01'') (az_challenges az) = Some (ty, tok)"
      and r: "al_response X tok = Inr resp"
      and v: "validate_open X az tok (T(acmeTokenPrefix @ tok \<mapsto> resp)) = None"
      by (auto simp: solveHTTP01_def Let_def split: sum.splits option.splits)
    have "ty = ''http-01''" "(ty, tok) \<in> set (az_challenges az)" using find_mem [OF f] by auto
    then show ?thesis using az r v unfolding authorized_def validate_open_def
      by (intro exI [of _ az] conjI disjI2 exI [of _ tok] exI [of _ resp] exI [of _ "T(acmeTokenPrefix @ tok \<mapsto> resp)"])
        (auto split: option.splits)
  qed (auto simp: authorized_def az)
qed

lemma solve_all_authorized: "solve_all X us T = (None, T') \<Longrightarrow> u \<in> set us \<Longrightarrow> authorized X u"
  by (induction us arbitrary: T) (auto dest: solve_authorized split: prod.splits option.splits)

text \<open>The two ways an order ends.\<close>

definition order_done :: "acme_env \<Rightarrow> site \<Rightarrow> string \<Rightarrow> string \<Rightarrow> int \<Rightarrow> bool" where
  "order_done E s c key na \<longleftrightarrow> (\<exists>urls uri. al_order (ae_lib E) (s_domains s) = Inr (urls, uri)
     \<and> (\<forall>u \<in> set urls. authorized (ae_lib E) u) \<and> finish_order (ae_lib E) (s_domains s) uri = Inr (c, key, na))"

lemma Issue_cases:
  "(\<exists>e. fst (Issue E s w) = Some e \<and> st_sites (snd (Issue E s w)) = st_sites w) \<or>
   (\<exists>c key na. order_done E s c key na \<and> s_id s \<in> s_id ` set (st_sites w) \<and> fst (Issue E s w) = None
     \<and> st_sites (snd (Issue E s w)) = map (\<lambda>r. if s_id r = s_id s then certified c key na (ae_stored E) r else r) (st_sites w))"
proof -
  obtain r t1 where c: "acme_client (ae_lib E) (ae_dir E) (ae_get E) (ae_put E) (s_acmeEmail s) (st_settings w) = (r, t1)"
    by (rule prod.exhaust)
  show ?thesis
  proof (cases r)
    case (Inr k)
    show ?thesis
    proof (cases "al_order (ae_lib E) (s_domains s)")
      case o: (Inr ou)
      obtain urls uri where ou: "ou = (urls, uri)" by (rule prod.exhaust)
      obtain res T where a: "solve_all (ae_lib E) urls (st_tokens w) = (res, T)" by (rule prod.exhaust)
      define v where "v = w\<lparr>st_settings := t1, st_tokens := T\<rparr>"
      have sv: "st_sites v = st_sites w" by (simp add: v_def)
      show ?thesis
      proof (cases res)
        case None
        have I: "Issue E s w = complete_order E s uri v" by (simp add: Issue_def c Inr o ou a None v_def)
        have "\<forall>u \<in> set urls. authorized (ae_lib E) u" using solve_all_authorized a None by blast
        then show ?thesis using complete_order_cases [of E s uri v] unfolding I sv order_done_def o ou
          by (elim disjE exE conjE) (auto simp: sv)
      qed (simp add: Issue_def c Inr o ou a)
    qed (simp add: Issue_def c Inr)
  qed (simp add: Issue_def c)
qed

subsection \<open>The sweep, site by site\<close>

definition failed_row :: "string \<Rightarrow> int \<Rightarrow> site \<Rightarrow> site" where
  "failed_row e now r = r\<lparr>s_acmeLastError := take 500 e, s_acmeLastTry := Some now\<rparr>"

lemma recordFailure_sites: "ae_record E = None \<Longrightarrow>
    st_sites (recordFailure E s e w) = map (\<lambda>r. if s_id r = s_id s then failed_row e (ae_stored E) r else r) (st_sites w)"
  by (simp add: recordFailure_def RecordACMEAttempt_def exec_plain_def update_rows_def failed_row_def)

text \<open>One turn of the loop.\<close>

definition turn where
  "turn L leaf fmt E s w =
     (if \<not> fst (NeedsCertificate L leaf fmt s (ae_check (E (s_id s)))) then (False, w)
      else (case Issue (E (s_id s)) s w of
              (Some e, w') \<Rightarrow> (False, recordFailure (E (s_id s)) s e w')
            | (None, w') \<Rightarrow> (True, w')))"

lemma sweep_turn: "sweep_loop L leaf fmt E (s # ss) issued w =
    (case turn L leaf fmt E s w of (b, w') \<Rightarrow> sweep_loop L leaf fmt E ss (issued \<or> b) w')"
  by (simp add: turn_def split: prod.splits option.splits)

declare sweep_loop.simps(2) [simp del]

lemma find_row_other: "j \<noteq> k \<Longrightarrow> (\<And>r. s_id (f r) = s_id r) \<Longrightarrow>
    find_row s_id j (map (\<lambda>r. if s_id r = k then f r else r) t) = find_row s_id j t"
  by (induction t) (auto simp: find_row_def)

lemma find_row_self: "find_row s_id k t = Some r \<Longrightarrow> (\<And>r. s_id (f r) = s_id r) \<Longrightarrow>
    find_row s_id k (map (\<lambda>r. if s_id r = k then f r else r) t) = Some (f r)"
  by (induction t) (auto simp: find_row_def split: if_splits)

lemma failed_row_id [simp]: "s_id (failed_row e now r) = s_id r"
  by (simp add: failed_row_def)

lemma recordFailure_other: "j \<noteq> s_id s \<Longrightarrow>
    find_row s_id j (st_sites (recordFailure E s e w)) = find_row s_id j (st_sites w)"
  by (cases "ae_record E") (simp_all add: recordFailure_sites find_row_other, simp add: recordFailure_def
      RecordACMEAttempt_def exec_plain_def)

lemma turn_other:
  assumes "j \<noteq> s_id s"
  shows "find_row s_id j (st_sites (snd (turn L leaf fmt E s w))) = find_row s_id j (st_sites w)"
  using Issue_cases [of "E (s_id s)" s w] assms
  by (cases "Issue (E (s_id s)) s w") (auto simp: turn_def recordFailure_other find_row_other)

lemma loop_other: "j \<notin> s_id ` set ss \<Longrightarrow>
    find_row s_id j (st_sites (snd (sweep_loop L leaf fmt E ss issued w))) = find_row s_id j (st_sites w)"
proof (induction ss arbitrary: issued w)
  case (Cons s ss)
  then show ?case using turn_other [of j s L leaf fmt E w]
    by (cases "turn L leaf fmt E s w") (simp add: sweep_turn)
qed simp

lemma loop_issued: "fst (sweep_loop L leaf fmt E ss True w)"
  by (induction ss arbitrary: w) (simp_all add: sweep_turn split: prod.splits)

lemma turn_self:
  assumes "fst (NeedsCertificate L leaf fmt s (ae_check (E (s_id s))))"
    and "find_row s_id (s_id s) (st_sites w) = Some r" and "ae_record (E (s_id s)) = None"
  shows "(\<exists>e. fst (Issue (E (s_id s)) s w) = Some e \<and> find_row s_id (s_id s) (st_sites (snd (turn L leaf fmt E s w)))
           = Some (failed_row e (ae_stored (E (s_id s))) r)) \<or>
    (\<exists>c key na. order_done (E (s_id s)) s c key na \<and> fst (turn L leaf fmt E s w)
       \<and> find_row s_id (s_id s) (st_sites (snd (turn L leaf fmt E s w)))
           = Some (certified c key na (ae_stored (E (s_id s))) r))"
  using Issue_cases [of "E (s_id s)" s w]
proof (elim disjE exE conjE)
  fix e assume "fst (Issue (E (s_id s)) s w) = Some e" "st_sites (snd (Issue (E (s_id s)) s w)) = st_sites w"
  then show ?thesis using assms
    by (cases "Issue (E (s_id s)) s w") (simp add: turn_def recordFailure_sites find_row_self)
next
  fix c key na assume d: "order_done (E (s_id s)) s c key na" and i: "fst (Issue (E (s_id s)) s w) = None"
    "st_sites (snd (Issue (E (s_id s)) s w)) =
       map (\<lambda>r. if s_id r = s_id s then certified c key na (ae_stored (E (s_id s))) r else r) (st_sites w)"
  have "fst (turn L leaf fmt E s w)" "find_row s_id (s_id s) (st_sites (snd (turn L leaf fmt E s w)))
      = Some (certified c key na (ae_stored (E (s_id s))) r)"
    using i assms by (cases "Issue (E (s_id s)) s w"; simp add: turn_def find_row_self)+
  with d show ?thesis by blast
qed

lemma loop_self:
  assumes "unique_by s_id ss" and "s \<in> set ss" and "find_row s_id (s_id s) (st_sites w) = Some r"
    and "fst (NeedsCertificate L leaf fmt s (ae_check (E (s_id s))))" and "ae_record (E (s_id s)) = None"
    and "sweep_loop L leaf fmt E ss issued w = (issued', w')"
  shows "(\<exists>e v. fst (Issue (E (s_id s)) s v) = Some e
        \<and> find_row s_id (s_id s) (st_sites w') = Some (failed_row e (ae_stored (E (s_id s))) r)) \<or>
    (\<exists>c key na. order_done (E (s_id s)) s c key na \<and> issued'
        \<and> find_row s_id (s_id s) (st_sites w') = Some (certified c key na (ae_stored (E (s_id s))) r))"
  using assms
proof (induction ss arbitrary: issued w)
  case (Cons u us)
  obtain b v where t: "turn L leaf fmt E u w = (b, v)" by (rule prod.exhaust)
  have l: "sweep_loop L leaf fmt E us (issued \<or> b) v = (issued', w')" using Cons.prems(6) by (simp add: sweep_turn t)
  show ?case
  proof (cases "u = s")
    case True
    then have "s_id s \<notin> s_id ` set us" using Cons.prems(1) by (simp add: unique_by_def)
    then have "find_row s_id (s_id s) (st_sites w') = find_row s_id (s_id s) (st_sites v)"
      using loop_other [of "s_id s" us L leaf fmt E "issued \<or> b" v] l by simp
    moreover have "issued'" if b using that l loop_issued [of L leaf fmt E us v] by simp
    ultimately show ?thesis
      using turn_self [where E = E and s = s and w = w, OF Cons.prems(4,3,5)] t True by fastforce
  next
    case False
    then have s: "s \<in> set us" using Cons.prems(2) by simp
    then have n: "s_id s \<noteq> s_id u" using Cons.prems(1) imageI [OF s, of s_id] unfolding unique_by_def by (metis distinct.simps(2) list.simps(9) set_map)
    have "find_row s_id (s_id s) (st_sites v) = Some r"
      using turn_other [OF n, of L leaf fmt E w] Cons.prems(3) t by simp
    then show ?thesis using Cons.IH [OF _ s _ Cons.prems(4,5) l] Cons.prems(1) by (simp add: unique_by_def)
  qed
qed simp

lemma find_scan: "find_row s_id k t = Some r \<Longrightarrow> unique_by s_id t \<Longrightarrow>
    scanSite L U r \<in> set (map (scanSite L U) (order_by s_createdAt t))"
  using find_row_Some [of s_id k t r] by simp

lemma scan_unique: "unique_by s_id t \<Longrightarrow> unique_by s_id (map (scanSite L U) (order_by s_createdAt t))"
  by (simp add: unique_by_def comp_def acme_simps distinct_map)

text \<open>What the sweep made of one site.\<close>

lemma sweep_outcome:
  assumes "unique_by s_id (st_sites w)" and "s \<in> set (st_sites w)"
    and "fst (NeedsCertificate L leaf fmt s (ae_check (E (s_id s))))" and "ae_record (E (s_id s)) = None"
    and "sweep L U leaf fmt None E w = (issued, w')"
  shows "(\<exists>e v. fst (Issue (E (s_id s)) (scanSite L U s) v) = Some e
        \<and> find_row s_id (s_id s) (st_sites w') = Some (failed_row e (ae_stored (E (s_id s))) s)) \<or>
    (\<exists>c key na. order_done (E (s_id s)) (scanSite L U s) c key na \<and> issued
        \<and> find_row s_id (s_id s) (st_sites w') = Some (certified c key na (ae_stored (E (s_id s))) s))"
proof -
  have "find_row s_id (s_id s) (st_sites w) = Some s" using assms(1,2) by (rule find_row_unique)
  then have "find_row s_id (s_id (scanSite L U s)) (st_sites w) = Some s" by (simp add: acme_simps)
  moreover have "scanSite L U s \<in> set (map (scanSite L U) (order_by s_createdAt (st_sites w)))" using assms(2) by simp
  moreover have "sweep_loop L leaf fmt E (map (scanSite L U) (order_by s_createdAt (st_sites w))) False w = (issued, w')"
    using assms(5) by (simp add: sweep_def ListSites_def query_def)
  ultimately show ?thesis using loop_self [OF scan_unique [OF assms(1)], of "scanSite L U s" L U w s L leaf fmt E] assms(3,4)
    by (simp add: acme_simps)
qed


subsection \<open>What one order leaves behind\<close>

lemma wrap_error_Inr: "wrap_error m r = Inr x \<longleftrightarrow> r = Inr x"
  by (simp add: wrap_error_def split: sum.splits)

lemma newCertificateRequest_Inr: "newCertificateRequest X ds = Inr p \<longleftrightarrow> ds \<noteq> [] \<and> al_csr X ds = Inr p"
  by (simp add: newCertificateRequest_def)

lemma encodeIssued_Inr: "encodeIssued X chain k = Inr (c, key, na) \<longleftrightarrow> chain \<noteq> [] \<and> c = concat (map (al_pem X) chain)
    \<and> al_keyPEM X k = Inr key \<and> al_notAfter X (hd chain) = Inr na"
  by (cases chain) (auto simp: encodeIssued_def split: sum.splits)

lemma finish_order_Inr: "finish_order X ds uri = Inr (c, key, na) \<Longrightarrow>
    \<exists>fin csr k chain. ds \<noteq> [] \<and> al_waitOrder X uri = Inr fin \<and> al_csr X ds = Inr (csr, k) \<and> al_create X fin csr = Inr chain
      \<and> chain \<noteq> [] \<and> c = concat (map (al_pem X) chain) \<and> al_keyPEM X k = Inr key \<and> al_notAfter X (hd chain) = Inr na"
  unfolding finish_order_def bind_res_Inr wrap_error_Inr newCertificateRequest_Inr
  by (elim exE conjE) (auto simp: bind_res_Inr wrap_error_Inr encodeIssued_Inr)

definition tokens_kept :: "tokens \<Rightarrow> tokens \<Rightarrow> bool" where
  "tokens_kept T T' \<longleftrightarrow> (\<forall>k. T' k = T k \<or> (\<exists>tok. k = acmeTokenPrefix @ tok) \<and> T' k = None)"

lemma tokens_kept_refl [simp]: "tokens_kept T T"
  by (simp add: tokens_kept_def)

lemma tokens_kept_trans: "tokens_kept T T' \<Longrightarrow> tokens_kept T' T'' \<Longrightarrow> tokens_kept T T''"
  unfolding tokens_kept_def by metis

lemma solve_tokens:
  assumes "\<And>k. al_del X k"
  shows "tokens_kept T (snd (solveHTTP01 X u T))"
proof -
  have "tokens_kept T ((T(acmeTokenPrefix @ tok \<mapsto> resp))(acmeTokenPrefix @ tok := None))" for tok resp
    by (auto simp: tokens_kept_def)
  then show ?thesis
    by (simp add: solveHTTP01_def Let_def drop_token_def assms split: sum.splits option.splits prod.splits)
qed

lemma solve_all_tokens: "(\<And>k. al_del X k) \<Longrightarrow> tokens_kept T (snd (solve_all X us T))"
proof (induction us arbitrary: T)
  case (Cons u us)
  have "tokens_kept T (snd (solveHTTP01 X u T))" using Cons.prems by (rule solve_tokens)
  then show ?case using Cons.IH [OF Cons.prems, of "snd (solveHTTP01 X u T)"]
    by (cases "solveHTTP01 X u T"; cases "fst (solveHTTP01 X u T)") (auto intro: tokens_kept_trans)
qed simp

lemma complete_order_tokens: "st_tokens (snd (complete_order E s uri w)) = st_tokens w"
  using complete_order_cases [of E s uri w] by auto

lemma Issue_tokens:
  assumes "\<And>k. al_del (ae_lib E) k"
  shows "tokens_kept (st_tokens w) (st_tokens (snd (Issue E s w)))"
proof -
  have "tokens_kept (st_tokens w) T" if "solve_all (ae_lib E) urls (st_tokens w) = (r, T)" for urls r T
    using solve_all_tokens [OF assms, of "st_tokens w" urls] that by simp
  then show ?thesis
    by (simp add: Issue_def complete_order_tokens split: prod.splits sum.splits option.splits)
qed

text \<open>
  C30 An order is all or nothing. When it fails, at whatever step, every site is as it was. When it
  succeeds, the one row of the site holds a certificate made of every element of the chain the
  authority returned for a request naming exactly the site's domains, with the key of that request
  and the expiry of the leaf, and every authorization of the order was valid already or validated
  while Redis answered with the challenge's response. Either way no token stays behind, if Redis
  carries out its deletions.
\<close>

theorem order_all_or_nothing:
  assumes "\<And>k. al_del (ae_lib E) k" and "Issue E s w = (res, w')"
  shows "(\<forall>k. st_tokens w' k = st_tokens w k \<or> (\<exists>tok. k = acmeTokenPrefix @ tok) \<and> st_tokens w' k = None)
    \<and> (case res of
         Some e \<Rightarrow> st_sites w' = st_sites w
       | None \<Rightarrow> (\<exists>urls uri fin csr k chain key na.
             al_order (ae_lib E) (s_domains s) = Inr (urls, uri) \<and> (\<forall>u \<in> set urls. authorized (ae_lib E) u)
             \<and> al_csr (ae_lib E) (s_domains s) = Inr (csr, k) \<and> al_create (ae_lib E) fin csr = Inr chain \<and> chain \<noteq> []
             \<and> al_keyPEM (ae_lib E) k = Inr key \<and> al_notAfter (ae_lib E) (hd chain) = Inr na
             \<and> st_sites w' = map (\<lambda>r. if s_id r = s_id s
                  then certified (concat (map (al_pem (ae_lib E)) chain)) key na (ae_stored E) r else r) (st_sites w)))"
proof
  show "\<forall>k. st_tokens w' k = st_tokens w k \<or> (\<exists>tok. k = acmeTokenPrefix @ tok) \<and> st_tokens w' k = None"
    using Issue_tokens [OF assms(1), of w s] assms(2) by (simp add: tokens_kept_def)
  from Issue_cases [of E s w] show "case res of
         Some e \<Rightarrow> st_sites w' = st_sites w
       | None \<Rightarrow> (\<exists>urls uri fin csr k chain key na.
             al_order (ae_lib E) (s_domains s) = Inr (urls, uri) \<and> (\<forall>u \<in> set urls. authorized (ae_lib E) u)
             \<and> al_csr (ae_lib E) (s_domains s) = Inr (csr, k) \<and> al_create (ae_lib E) fin csr = Inr chain \<and> chain \<noteq> []
             \<and> al_keyPEM (ae_lib E) k = Inr key \<and> al_notAfter (ae_lib E) (hd chain) = Inr na
             \<and> st_sites w' = map (\<lambda>r. if s_id r = s_id s
                  then certified (concat (map (al_pem (ae_lib E)) chain)) key na (ae_stored E) r else r) (st_sites w))"
  proof (elim disjE exE conjE)
    fix c key na assume d: "order_done E s c key na" and "fst (Issue E s w) = None"
      and "st_sites (snd (Issue E s w)) =
        map (\<lambda>r. if s_id r = s_id s then certified c key na (ae_stored E) r else r) (st_sites w)"
    then have r: "res = None" and w: "st_sites w' =
        map (\<lambda>r. if s_id r = s_id s then certified c key na (ae_stored E) r else r) (st_sites w)"
      using assms(2) by simp_all
    from d show ?thesis unfolding order_done_def r w by (auto dest!: finish_order_Inr) blast
  qed (simp add: assms(2))
qed

lemma settings_get:
  fixes t :: "settings_row list"
  shows "map_option snd (find_row fst k (upsert_row fst (\<lambda>r. r) (\<lambda>old r. (fst old, snd r)) (k, v) t)) = Some v"
  using settings.upsert_find_same [of "(k, v)" t]
  by (simp split: option.splits)

text \<open>
  The account is registered once. After an order that got its client, the same directory is used
  with the same key again, without a new key, a registration or a write, whatever the authority
  would answer.
\<close>

theorem account_reused:
  assumes "acme_client X dir db1 db2 email t = (Inr key, t')" and "key \<noteq> []" and "al_keyError Y key = None"
  shows "acme_client Y dir None db3 email2 t' = (Inr key, t')"
proof -
  have dec: "decode_account (account_json a) = Some a" for a
    by (simp add: decode_account_def account_json_def jfield_def)
  obtain acct where acct: "stored_account db1 t = Inr acct" using assms(1) by (auto simp: acme_client_def split: sum.splits)
  show ?thesis
  proof (cases "aa_keyPEM acct = [] \<or> aa_directory acct \<noteq> dir")
    case True
    then obtain uri where t': "t' = upsert_row fst (\<lambda>r. r) (\<lambda>old r. (fst old, snd r)) (''acme_account'',
        account_json \<lparr>aa_keyPEM = key, aa_directory = dir, aa_uri = uri, aa_email = email\<rparr>) t"
      using assms(1) acct by (auto simp: acme_client_def PutSetting_def exec_plain_def split: sum.splits option.splits)
    have "stored_account None t' = Inr \<lparr>aa_keyPEM = key, aa_directory = dir, aa_uri = uri, aa_email = email\<rparr>"
      by (simp add: t' stored_account_def GetSetting_def query_def dec settings_get)
    then show ?thesis using assms(2,3) by (simp add: acme_client_def)
  next
    case False
    then have "key = aa_keyPEM acct" "t' = t" using assms(1) acct by (auto simp: acme_client_def split: option.splits)
    moreover have "stored_account None t = Inr acct"
      using acct by (auto simp: stored_account_def GetSetting_def query_def split: option.splits)
    ultimately show ?thesis using False assms(3) by (simp add: acme_client_def)
  qed
qed

subsection \<open>One order evaluated\<close>

definition demo_lib :: acme_lib where
  "demo_lib = \<lparr>al_newKey = Inr ''K'', al_register = (\<lambda>k m. Inr ''acct/1''), al_keyError = (\<lambda>k. None),
     al_order = (\<lambda>ds. Inr ([''authz/1''], ''order/1'')),
     al_authz = (\<lambda>u. Inr \<lparr>az_valid = False, az_challenges = [(''dns-01'', ''d''), (''http-01'', ''tok'')], az_uri = u, az_ident = ''a.test''\<rparr>),
     al_response = (\<lambda>t. Inr (t @ ''.thumb'')), al_set = (\<lambda>k. None), al_del = (\<lambda>k. True),
     al_accept = (\<lambda>T t. if T (acmeTokenPrefix @ t) = None then Some ''nothing there'' else None), al_waitAuthz = (\<lambda>T u. None),
     al_waitOrder = Inr, al_csr = (\<lambda>ds. Inr (str_join '','' ds, ''P'')), al_create = (\<lambda>f csr. Inr [''leaf'', ''ca'']),
     al_notAfter = (\<lambda>d. Inr (nanos (90 * 24 * 3600))), al_pem = (\<lambda>d. d @ ''.''), al_keyPEM = (\<lambda>k. Inr (k @ ''.''))\<rparr>"

definition demo_env :: acme_env where
  "demo_env = \<lparr>ae_lib = demo_lib, ae_dir = ''dir'', ae_get = None, ae_put = None, ae_store = None, ae_record = None,
     ae_check = 0, ae_stored = 5\<rparr>"

definition demo_wanting :: site where
  "demo_wanting = demo_site\<lparr>s_enabled := True, s_acmeEnabled := True, s_domains := [''a.test''], s_tlsCert := [],
     s_acmeLastTry := None\<rparr>"

definition demo_world :: acme_state where
  "demo_world = \<lparr>st_sites = [demo_wanting], st_settings = [], st_tokens = Map.empty\<rparr>"

lemma demo_client: "acme_client demo_lib ''dir'' None None [] [] = (Inr ''K'', [(''acme_account'',
    account_json \<lparr>aa_keyPEM = ''K'', aa_directory = ''dir'', aa_uri = ''acct/1'', aa_email = []\<rparr>)])"
  by code_simp

lemma account_reused_witness:
  "acme_client demo_lib ''dir'' None None ''new'' [(''acme_account'',
     account_json \<lparr>aa_keyPEM = ''K'', aa_directory = ''dir'', aa_uri = ''acct/1'', aa_email = []\<rparr>)] = (Inr ''K'', [(''acme_account'',
     account_json \<lparr>aa_keyPEM = ''K'', aa_directory = ''dir'', aa_uri = ''acct/1'', aa_email = []\<rparr>)])"
  by (rule account_reused [OF demo_client]) (simp_all add: demo_lib_def)

lemma demo_issue: "fst (Issue demo_env demo_wanting demo_world) = None"
  by code_simp

lemma demo_values: "ae_lib demo_env = demo_lib" "ae_dir demo_env = ''dir''" "ae_get demo_env = None" "ae_put demo_env = None"
    "ae_stored demo_env = 5" "ae_record demo_env = None" "al_del demo_lib k" "st_sites demo_world = [demo_wanting]"
  by (simp_all add: demo_env_def demo_lib_def demo_world_def)

lemma order_all_or_nothing_witness:
  "\<exists>chain key na. st_sites (snd (Issue demo_env demo_wanting demo_world)) =
     [certified (concat (map (al_pem demo_lib) chain)) key na 5 demo_wanting]"
proof -
  have i: "Issue demo_env demo_wanting demo_world = (None, snd (Issue demo_env demo_wanting demo_world))"
    using demo_issue by (metis prod.collapse)
  show ?thesis
    using order_all_or_nothing [OF _ i, THEN conjunct2] by (simp add: demo_values) blast
qed

lemma demo_finish: "finish_order demo_lib ds u = (if ds = [] then Inl ''a certificate needs at least one domain''
    else Inr (''leaf.ca.'', ''P.'', nanos (90 * 24 * 3600)))"
  by (simp add: finish_order_def wrap_error_def newCertificateRequest_def encodeIssued_def demo_lib_def)

lemma demo_done: "order_done demo_env s c key na \<Longrightarrow> c = ''leaf.ca.'' \<and> na = nanos (90 * 24 * 3600)"
proof -
  assume "order_done demo_env s c key na"
  then obtain u where "finish_order demo_lib (s_domains s) u = Inr (c, key, na)"
    by (auto simp: order_done_def demo_env_def)
  then show ?thesis by (simp add: demo_finish split: if_splits)
qed

lemma demo_solve: "solve_all demo_lib [''authz/1''] T = (None, T(''moswaf:acme:tok'' := None))"
  by (simp add: solveHTTP01_def demo_lib_def validate_open_def acmeTokenPrefix_def drop_token_def)

lemma demo_errors: "fst (Issue demo_env s v) \<noteq> Some []"
proof (cases "acme_client demo_lib ''dir'' None None (s_acmeEmail s) (st_settings v)")
  case (Pair r t1)
  have "r \<noteq> Inl []"
    using Pair by (auto simp: acme_client_def stored_account_def GetSetting_def query_def PutSetting_def exec_plain_def demo_lib_def
        split: option.splits if_splits)
  moreover have "fst (complete_order demo_env s u x) \<noteq> Some []" for u x
    using complete_order_cases [of demo_env s u x]
    by (auto simp: complete_order_def demo_env_def demo_finish store_issued_def StoreCertificate_def exec_affected_def
        split: if_splits prod.splits)
  moreover have "al_order demo_lib ds = Inr ([''authz/1''], ''order/1'')" for ds by (simp add: demo_lib_def)
  ultimately show ?thesis using Pair by (cases r) (simp_all add: Issue_def demo_solve demo_values del: solve_all.simps)
qed


end
