(* ===== verification/ApiPublish.thy ===== *)
theory ApiPublish
  imports ApiHttp
begin

section \<open>The API: a change and its publication\<close>

text \<open>
  What every handler that changes the configuration shares (\<open>publish\<close> of
  \<open>control/internal/api/handlers.go\<close>). Such a handler works on a table \<open>t\<close> and yields its reply, the
  new table and whether the publisher was asked. \<open>pub t\<close> is the publisher's error for the stored
  state \<open>t\<close>, \<open>None\<close> when the data plane has taken it over.

  The locale \<open>admin_change\<close> is the contract: an operator is told of success only when the change is
  stored and in force, a refused request leaves the published part of the state (\<open>view\<close>) as it was,
  and a change that was stored but not published is a 500. It is interpreted on every such handler.
\<close>

type_synonym ('a, 't) outcome = "'a reply \<times> 't \<times> bool"

text \<open>\<open>if !s.publish(w, r) { return }; writeJSON(w, code, v)\<close>.\<close>

definition publish_then :: "('t \<Rightarrow> string option) \<Rightarrow> int \<Rightarrow> 'a \<Rightarrow> 't \<Rightarrow> ('a, 't) outcome" where
  "publish_then pub code v t =
     (case pub t of
        Some e \<Rightarrow> (writeErr 500 (''saved, but could not apply it to the data plane: '' @ e), t, True)
      | None \<Rightarrow> (writeJSON code v, t, True))"

text \<open>A reply that ends the handler before it publishes.\<close>

definition refuse :: "'a reply \<Rightarrow> 't \<Rightarrow> ('a, 't) outcome" where
  "refuse r t = (r, t, False)"

text \<open>The usual end of a handler: a statement, its error replies, then the publication.\<close>

definition commit_then ::
  "('t \<Rightarrow> string option) \<Rightarrow> (store_error \<Rightarrow> 'a reply) \<Rightarrow> int \<Rightarrow> 'a \<Rightarrow> unit result \<times> 't \<Rightarrow> ('a, 't) outcome" where
  "commit_then pub fail_reply code v res =
     (case res of (Inl e, t') \<Rightarrow> refuse (fail_reply e) t' | (Inr _, t') \<Rightarrow> publish_then pub code v t')"

text \<open>\<open>errors.Is(err, store.ErrNotFound)\<close> is a 404 with its own text, any other error a 500.\<close>

definition not_found_or_500 :: "string \<Rightarrow> store_error \<Rightarrow> 'a reply" where
  "not_found_or_500 msg e = (if e = ErrNotFound then writeErr 404 msg else writeStoreErr 500 e)"

definition with_body :: "'a reply + 'r \<Rightarrow> 't \<Rightarrow> ('r \<Rightarrow> ('a, 't) outcome) \<Rightarrow> ('a, 't) outcome" where
  "with_body req t k = (case req of Inl r \<Rightarrow> refuse r t | Inr x \<Rightarrow> k x)"

definition with_result :: "(store_error \<Rightarrow> 'a reply) \<Rightarrow> 'r result \<Rightarrow> 't \<Rightarrow> ('r \<Rightarrow> ('a, 't) outcome) \<Rightarrow> ('a, 't) outcome" where
  "with_result fail_reply res t k = (case res of Inl e \<Rightarrow> refuse (fail_reply e) t | Inr x \<Rightarrow> k x)"

subsection \<open>The contract\<close>

text \<open>What the data plane decides from after the request, when it decided from \<open>live\<close> before.\<close>

definition in_force :: "('t \<Rightarrow> 'v) \<Rightarrow> ('t \<Rightarrow> string option) \<Rightarrow> 'v \<Rightarrow> ('a, 't) outcome \<Rightarrow> 'v" where
  "in_force view pub live oc = (case oc of (r, t, p) \<Rightarrow> if p \<and> pub t = None then view t else live)"

locale admin_change =
  fixes view :: "'t \<Rightarrow> 'v" and pub :: "'t \<Rightarrow> string option" and handler :: "'t \<Rightarrow> ('a, 't) outcome"
  assumes told: "handler t = (r, t', p) \<Longrightarrow> rp_code r < 400 \<Longrightarrow> p \<and> pub t' = None"
    and kept: "handler t = (r, t', False) \<Longrightarrow> view t' = view t"
    and failed: "handler t = (r, t', True) \<Longrightarrow> pub t' \<noteq> None \<Longrightarrow> rp_code r = 500"
begin

text \<open>What the operator is told is so: a success is in force, and without a 500 nothing can drift.\<close>

lemma success_in_force: "handler t = (r, t', p) \<Longrightarrow> rp_code r < 400 \<Longrightarrow> in_force view pub live (handler t) = view t'"
  using told by (auto simp: in_force_def)

lemma no_drift: "handler t = (r, t', p) \<Longrightarrow> rp_code r \<noteq> 500 \<Longrightarrow> live = view t \<Longrightarrow> in_force view pub live (handler t) = view t'"
  using kept failed by (cases p) (auto simp: in_force_def)

end

text \<open>The rules by which a handler meets the contract.\<close>

definition lawful :: "('t \<Rightarrow> 'v) \<Rightarrow> ('t \<Rightarrow> string option) \<Rightarrow> 't \<Rightarrow> ('a, 't) outcome \<Rightarrow> bool" where
  "lawful view pub t oc \<longleftrightarrow> (case oc of (r, t', p) \<Rightarrow>
     (rp_code r < 400 \<longrightarrow> p \<and> pub t' = None) \<and> (\<not> p \<longrightarrow> view t' = view t) \<and> (p \<and> pub t' \<noteq> None \<longrightarrow> rp_code r = 500))"

named_theorems lawful_rules

lemma lawful_publish [lawful_rules]: "lawful view pub t (publish_then pub code v t')"
  by (simp add: lawful_def publish_then_def split: option.split)

lemma lawful_refuse: "400 \<le> rp_code r \<Longrightarrow> view t' = view t \<Longrightarrow> lawful view pub t (refuse r t')"
  by (simp add: lawful_def refuse_def)

lemma lawful_refuse_same [lawful_rules]: "400 \<le> rp_code r \<Longrightarrow> lawful view pub t (refuse r t)"
  by (simp add: lawful_refuse)

lemma not_found_code [lawful_rules]: "400 \<le> rp_code (not_found_or_500 msg e)"
  by (simp add: not_found_or_500_def)

lemma error_code [lawful_rules]: "400 \<le> c \<Longrightarrow> 400 \<le> rp_code (writeErr c m)" "400 \<le> c \<Longrightarrow> 400 \<le> rp_code (writeStoreErr c e)"
  by simp_all

lemma lawful_commit:
  assumes "\<And>e. 400 \<le> rp_code (fail_reply e)" and "\<And>e t'. res = (Inl e, t') \<Longrightarrow> view t' = view t"
  shows "lawful view pub t (commit_then pub fail_reply code v res)"
  using assms by (auto simp: commit_then_def intro: lawful_publish lawful_refuse split: prod.split sum.split)

lemma lawful_body [lawful_rules]:
  assumes "\<And>x. lawful view pub t (k x)"
  shows "lawful view pub t (with_body (readJSON P E decode body) t k)"
  using assms by (auto simp: with_body_def intro!: lawful_refuse dest: readJSON_Inl split: sum.split)

lemma lawful_result [lawful_rules]:
  assumes "\<And>e. 400 \<le> rp_code (fail_reply e)" and "\<And>x. lawful view pub t (k x)"
  shows "lawful view pub t (with_result fail_reply res t k)"
  using assms by (auto simp: with_result_def intro: lawful_refuse split: sum.split)

lemma lawful_if [lawful_rules]:
  "(b \<Longrightarrow> lawful view pub t x) \<Longrightarrow> (\<not> b \<Longrightarrow> lawful view pub t y) \<Longrightarrow> lawful view pub t (if b then x else y)"
  by simp

lemma lawful_change:
  assumes "\<And>t. lawful view pub t (handler t)"
  shows "admin_change view pub handler"
proof
  fix t r t' p assume "handler t = (r, t', p)"
  then have l: "lawful view pub t (r, t', p)" using assms [of t] by simp
  from l show "p \<and> pub t' = None" if "rp_code r < 400" using that by (simp add: lawful_def)
next
  fix t r t' assume "handler t = (r, t', False)"
  then show "view t' = view t" using assms [of t] by (simp add: lawful_def)
next
  fix t r t' assume "handler t = (r, t', True)" "pub t' \<noteq> None"
  then show "rp_code r = 500" using assms [of t] by (simp add: lawful_def)
qed

text \<open>A statement that fails has changed nothing.\<close>

lemma exec_plain_fails: "exec_plain db t' t = (Inl e, u) \<Longrightarrow> u = t"
  by (auto simp: exec_plain_def split: option.splits)

lemma exec_affected_fails:
  "exec_affected db e0 res t = (Inl e, u) \<Longrightarrow> (fst res = 0 \<Longrightarrow> snd res = t) \<Longrightarrow> u = t"
  by (auto simp: exec_affected_def split: option.splits prod.splits if_splits)

lemma update_rows_zero: "fst (update_rows P f t) = 0 \<Longrightarrow> snd (update_rows P f t) = t"
  by (auto simp: update_rows_def filter_empty_conv intro!: map_idI)

lemma delete_rows_zero: "fst (delete_rows P t) = 0 \<Longrightarrow> snd (delete_rows P t) = t"
  by (simp add: delete_rows_none)

text \<open>The table after a handler.\<close>

lemma commit_table: "fst (snd (commit_then pub f code v res)) = snd res"
  by (simp add: commit_then_def refuse_def publish_then_def split: prod.split sum.split option.split)

lemma plain_table: "snd (exec_plain db t' t) \<in> {t, t'}"
  by (simp add: exec_plain_def split: option.split)

lemma affected_table: "snd (exec_affected db e res t) \<in> {t, snd res}"
  by (simp add: exec_affected_def split: option.split prod.split)

lemma with_body_out: "with_body req t k = (r, t', p) \<Longrightarrow> t' = t \<or> (\<exists>x. req = Inr x \<and> k x = (r, t', p))"
  by (auto simp: with_body_def refuse_def split: sum.splits)

lemma with_result_out: "with_result f res t k = (r, t', p) \<Longrightarrow> t' = t \<or> (\<exists>x. res = Inr x \<and> k x = (r, t', p))"
  by (auto simp: with_result_def refuse_def split: sum.splits)

subsection \<open>Decoding over a record\<close>

text \<open>
  \<open>json.Unmarshal\<close> into a struct that holds values: each field in turn, \<open>None\<close> when one has the
  wrong type. \<open>T\<close> parses a time.
\<close>

fun decode_steps :: "('s \<Rightarrow> 's option) list \<Rightarrow> 's \<Rightarrow> 's option" where
  "decode_steps [] s = Some s"
| "decode_steps (f # fs) s = (case f s of None \<Rightarrow> None | Some s' \<Rightarrow> decode_steps fs s')"

definition put_field ::
  "((string \<times> json) list \<Rightarrow> string \<Rightarrow> 'f \<Rightarrow> 'f option) \<Rightarrow> string \<Rightarrow> ('s \<Rightarrow> 'f) \<Rightarrow> (('f \<Rightarrow> 'f) \<Rightarrow> 's \<Rightarrow> 's) \<Rightarrow>
   (string \<times> json) list \<Rightarrow> 's \<Rightarrow> 's option" where
  "put_field over k get upd kvs s = map_option (\<lambda>v. upd (\<lambda>_. v) s) (over kvs k (get s))"

definition over_time :: "(string \<Rightarrow> int option) \<Rightarrow> (string \<times> json) list \<Rightarrow> string \<Rightarrow> int \<Rightarrow> int option" where
  "over_time T kvs k d = (case jfield k kvs of JNull \<Rightarrow> Some d | JStr s \<Rightarrow> T s | _ \<Rightarrow> None)"

text \<open>A \<open>*time.Time\<close>: a null makes it nil.\<close>

definition over_time_ptr :: "(string \<Rightarrow> int option) \<Rightarrow> (string \<times> json) list \<Rightarrow> string \<Rightarrow> int option \<Rightarrow> int option option" where
  "over_time_ptr T kvs k d = (case jlast k kvs of None \<Rightarrow> Some d | Some JNull \<Rightarrow> Some None
     | Some (JStr s) \<Rightarrow> map_option Some (T s) | Some _ \<Rightarrow> None)"

definition decode_struct :: "((string \<times> json) list \<Rightarrow> 's \<Rightarrow> 's option) \<Rightarrow> 's \<Rightarrow> json \<Rightarrow> 's option" where
  "decode_struct over s j = (case as_struct j of None \<Rightarrow> None | Some kvs \<Rightarrow> over kvs s)"

text \<open>The libraries of a handler: the JSON syntax and its errors, the case tables, the time and duration formats.\<close>

record api_env =
  en_json :: "string \<Rightarrow> json option"
  en_jerr :: "string \<Rightarrow> string"
  en_lower :: "string \<Rightarrow> string"
  en_upper :: "string \<Rightarrow> string"
  en_time :: "string \<Rightarrow> int option"
  en_duration :: "int \<Rightarrow> string"

definition read_over ::
  "api_env \<Rightarrow> ((string \<times> json) list \<Rightarrow> 's \<Rightarrow> 's option) \<Rightarrow> 's \<Rightarrow> string option \<Rightarrow> 'a reply + 's" where
  "read_over V over s body = readJSON (en_json V) (en_jerr V) (decode_struct over s) body"

lemma lawful_read [lawful_rules]:
  "(\<And>x. lawful view pub t (k x)) \<Longrightarrow> lawful view pub t (with_body (read_over V over s body) t k)"
  unfolding read_over_def by (rule lawful_body)

text \<open>The zero value of \<open>time.Time\<close>: the first of January of the year 1.\<close>

definition zero_time :: int where "zero_time = - 62135596800000000000"

subsection \<open>What a decoded record keeps\<close>

lemma put_field_other:
  "put_field over k get upd kvs s = Some s' \<Longrightarrow> (\<And>v. other (upd (\<lambda>_. v) s) = other s) \<Longrightarrow> other s' = other s"
  by (auto simp: put_field_def)

lemma decode_steps_keep:
  "decode_steps fs s = Some s' \<Longrightarrow> list_all (\<lambda>f. \<forall>s s'. f s = Some s' \<longrightarrow> other s' = other s) fs \<Longrightarrow> other s' = other s"
  by (induction fs arbitrary: s) (auto split: option.splits)

lemma jfield_absent: "jlast k kvs = None \<Longrightarrow> jfield k kvs = JNull"
proof -
  assume "jlast k kvs = None"
  then have "filter (\<lambda>(k', v). fold_name k' = fold_name k) kvs = []" by (simp add: jlast_def split: list.splits)
  then have "filter (\<lambda>(k', v). fold_name k' = fold_name k \<and> v \<noteq> JNull) kvs = []" by (auto simp: filter_empty_conv)
  then show ?thesis by (simp add: jfield_def)
qed

lemma read_over_Inr: "read_over V over s (Some b) = Inr s' \<Longrightarrow>
    \<exists>j kvs. en_json V (take 1048576 b) = Some j \<and> as_struct j = Some kvs \<and> over kvs s = Some s'"
  by (auto simp: read_over_def readJSON_def decode_struct_def Let_def split: option.splits)

end
