(* ===== verification/ApiSites.thy ===== *)
theory ApiSites
  imports ApiPublish EngineAcme
begin

section \<open>The API: sites\<close>

text \<open>
  The site handlers of \<open>control/internal/api/handlers.go\<close>. Each statement a handler makes has its own
  error argument; \<open>now\<close> is the clock and \<open>rid\<close> the five random bytes in hex. What the publisher takes
  from a row is \<open>published_site\<close>: everything but the bookkeeping of the renewal loop.
\<close>

subsection \<open>Request and reply\<close>

definition newSiteID :: "string \<Rightarrow> string" where "newSiteID rid = ''s'' @ rid"

definition sanitizeSite :: "site \<Rightarrow> site" where
  "sanitizeSite s = s\<lparr>s_tlsKey := []\<rparr>"

definition zero_site :: site where
  "zero_site = \<lparr>s_id = [], s_name = [], s_domains = [], s_upstreamScheme = [], s_upstreamHost = [], s_upstreamPort = 0,
     s_mode = [], s_challenge = [], s_rateRPS = 0, s_rateBurst = 0, s_floodRPS = 0, s_authEnabled = False,
     s_authPaths = [], s_geoMode = [], s_geoCountries = [], s_tlsCert = [], s_tlsKey = [], s_hasTLS = False,
     s_forceHTTPS = False, s_acmeEnabled = False, s_acmeEmail = [], s_certExpiresAt = None, s_acmeLastError = [],
     s_acmeLastTry = None, s_enabled = False, s_rulesOff = [], s_createdAt = zero_time, s_updatedAt = zero_time\<rparr>"

definition over_site :: "(string \<Rightarrow> int option) \<Rightarrow> (string \<times> json) list \<Rightarrow> site \<Rightarrow> site option" where
  "over_site T kvs = decode_steps
     [put_field over_string ''id'' s_id s_id_update kvs,
      put_field over_string ''name'' s_name s_name_update kvs,
      put_field over_strings ''domains'' s_domains s_domains_update kvs,
      put_field over_string ''upstream_scheme'' s_upstreamScheme s_upstreamScheme_update kvs,
      put_field over_string ''upstream_host'' s_upstreamHost s_upstreamHost_update kvs,
      put_field over_int ''upstream_port'' s_upstreamPort s_upstreamPort_update kvs,
      put_field over_string ''mode'' s_mode s_mode_update kvs,
      put_field over_string ''challenge'' s_challenge s_challenge_update kvs,
      put_field over_int ''rate_rps'' s_rateRPS s_rateRPS_update kvs,
      put_field over_int ''rate_burst'' s_rateBurst s_rateBurst_update kvs,
      put_field over_int ''flood_rps'' s_floodRPS s_floodRPS_update kvs,
      put_field over_bool ''auth_enabled'' s_authEnabled s_authEnabled_update kvs,
      put_field over_strings ''auth_paths'' s_authPaths s_authPaths_update kvs,
      put_field over_string ''geo_mode'' s_geoMode s_geoMode_update kvs,
      put_field over_strings ''geo_countries'' s_geoCountries s_geoCountries_update kvs,
      put_field over_string ''tls_cert'' s_tlsCert s_tlsCert_update kvs,
      put_field over_string ''tls_key'' s_tlsKey s_tlsKey_update kvs,
      put_field over_bool ''has_tls'' s_hasTLS s_hasTLS_update kvs,
      put_field over_bool ''force_https'' s_forceHTTPS s_forceHTTPS_update kvs,
      put_field over_bool ''acme_enabled'' s_acmeEnabled s_acmeEnabled_update kvs,
      put_field over_string ''acme_email'' s_acmeEmail s_acmeEmail_update kvs,
      put_field (over_time_ptr T) ''cert_expires_at'' s_certExpiresAt s_certExpiresAt_update kvs,
      put_field over_string ''acme_last_error'' s_acmeLastError s_acmeLastError_update kvs,
      put_field (over_time_ptr T) ''acme_last_try'' s_acmeLastTry s_acmeLastTry_update kvs,
      put_field over_bool ''enabled'' s_enabled s_enabled_update kvs,
      put_field over_strings ''rules_off'' s_rulesOff s_rulesOff_update kvs,
      put_field (over_time T) ''created_at'' s_createdAt s_createdAt_update kvs,
      put_field (over_time T) ''updated_at'' s_updatedAt s_updatedAt_update kvs]"

subsection \<open>The handlers\<close>

definition handleListSites :: "api_env \<Rightarrow> string option \<Rightarrow> site list \<Rightarrow> site list reply" where
  "handleListSites V db t = (case ListSites (en_lower V) (en_upper V) db t of
     Inl e \<Rightarrow> writeStoreErr 500 e | Inr sites \<Rightarrow> writeJSON 200 (map sanitizeSite sites))"

definition handleGetSite :: "api_env \<Rightarrow> string option \<Rightarrow> string \<Rightarrow> site list \<Rightarrow> site reply" where
  "handleGetSite V db k t = (case GetSite (en_lower V) (en_upper V) db k t of
     Inl e \<Rightarrow> not_found_or_500 ''site not found'' e | Inr site \<Rightarrow> writeJSON 200 (sanitizeSite site))"

definition default_to :: "'a \<Rightarrow> 'a \<Rightarrow> 'a \<Rightarrow> 'a" where
  "default_to zero d v = (if v = zero then d else v)"

text \<open>What \<open>handleCreateSite\<close> puts into the decoded body before it is validated.\<close>

definition new_site :: "string \<Rightarrow> site \<Rightarrow> site" where
  "new_site rid s = s\<lparr>s_id := newSiteID rid, s_enabled := True,
     s_upstreamPort := default_to 0 80 (s_upstreamPort s), s_upstreamScheme := default_to [] ''http'' (s_upstreamScheme s),
     s_mode := default_to [] ''protect'' (s_mode s), s_challenge := default_to [] ''auto'' (s_challenge s),
     s_hasTLS := (s_tlsCert s \<noteq> [] \<and> s_tlsKey s \<noteq> [])\<rparr>"

text \<open>Validation, the statement and the publication, which create and update share.\<close>

definition save_site ::
  "api_env \<Rightarrow> (site list \<Rightarrow> string option) \<Rightarrow> string option \<Rightarrow> int \<Rightarrow> int \<Rightarrow> site \<Rightarrow> site list \<Rightarrow> (site, site list) outcome" where
  "save_site V pub db now code s t =
     with_result (writeStoreErr 400) (ValidateSite (en_lower V) (en_upper V) s) t (\<lambda>s'.
       commit_then pub (writeStoreErr 500) code (sanitizeSite (s'\<lparr>s_updatedAt := now\<rparr>))
         (UpsertSite (en_lower V) db now s' t))"

definition handleCreateSite ::
  "api_env \<Rightarrow> (site list \<Rightarrow> string option) \<Rightarrow> string option \<Rightarrow> int \<Rightarrow> string \<Rightarrow> string option \<Rightarrow> site list \<Rightarrow> (site, site list) outcome" where
  "handleCreateSite V pub db now rid body t =
     with_body (read_over V (over_site (en_time V)) zero_site body) t (\<lambda>site.
       save_site V pub db now 201 (new_site rid site) t)"

text \<open>The decoded body of an update, with what it may not change taken from the stored row.\<close>

definition keep_fields :: "site \<Rightarrow> site \<Rightarrow> site" where
  "keep_fields cur i =
     (let i1 = i\<lparr>s_id := s_id cur, s_createdAt := s_createdAt cur, s_certExpiresAt := s_certExpiresAt cur,
                 s_acmeLastError := s_acmeLastError cur, s_acmeLastTry := s_acmeLastTry cur\<rparr>;
          i2 = (if s_tlsCert i1 = [] \<and> s_tlsKey i1 = [] then i1\<lparr>s_tlsCert := s_tlsCert cur, s_tlsKey := s_tlsKey cur\<rparr>
                else if s_tlsKey i1 = [] then i1\<lparr>s_tlsKey := s_tlsKey cur\<rparr>
                else i1)
      in i2\<lparr>s_hasTLS := (s_tlsCert i2 \<noteq> [] \<and> s_tlsKey i2 \<noteq> [])\<rparr>)"

definition handleUpdateSite ::
  "api_env \<Rightarrow> (site list \<Rightarrow> string option) \<Rightarrow> string option \<Rightarrow> string option \<Rightarrow> int \<Rightarrow> string \<Rightarrow> string option \<Rightarrow> site list \<Rightarrow>
   (site, site list) outcome" where
  "handleUpdateSite V pub db1 db2 now k body t =
     with_result (not_found_or_500 ''site not found'') (GetSite (en_lower V) (en_upper V) db1 k t) t (\<lambda>cur.
       with_body (read_over V (over_site (en_time V)) cur body) t (\<lambda>i. save_site V pub db2 now 200 (keep_fields cur i) t))"

definition handleDeleteSite ::
  "(site list \<Rightarrow> string option) \<Rightarrow> string option \<Rightarrow> string \<Rightarrow> site list \<Rightarrow> (string, site list) outcome" where
  "handleDeleteSite pub db k t =
     commit_then pub (not_found_or_500 ''site not found'') 200 ''deleted'' (DeleteSite db k t)"

subsection \<open>Ordering a certificate by hand\<close>

definition secs :: "int \<Rightarrow> int" where "secs d = d div 1000000000"

definition round_second :: "int \<Rightarrow> int" where "round_second d = nanos ((d + 500000000) div 1000000000)"

definition wait_reply :: "api_env \<Rightarrow> int \<Rightarrow> 'a reply" where
  "wait_reply V d = \<lparr>rp_code = 429, rp_retry = Some (secs d + 1),
     rp_body = Inl (Msg (''the last attempt was less than '' @ en_duration V ManualIssueWindow @ '' ago; wait ''
       @ en_duration V (round_second d) @ '' before asking again''))\<rparr>"

text \<open>
  After the order: its failure is recorded (whatever becomes of that statement), its success
  published and read back. \<open>reread\<close> is the error of that last read, \<open>rec\<close> that of the record.
\<close>

definition finish_issue ::
  "api_env \<Rightarrow> (acme_state \<Rightarrow> string option) \<Rightarrow> acme_env \<Rightarrow> string option \<Rightarrow> site \<Rightarrow> string option \<times> acme_state \<Rightarrow> (site, acme_state) outcome" where
  "finish_issue V pub E reread site res =
     (case res of
        (Some e, w') \<Rightarrow> refuse (writeErr 502 (''the certificate authority refused: '' @ e))
           (w'\<lparr>st_sites := snd (RecordACMEAttempt (ae_record E) (ae_stored E) (s_id site) e (st_sites w'))\<rparr>)
      | (None, w') \<Rightarrow>
          (case pub w' of
             Some e \<Rightarrow> publish_then pub 200 site w'
           | None \<Rightarrow> (case GetSite (en_lower V) (en_upper V) reread (s_id site) (st_sites w') of
                        Inl e \<Rightarrow> (writeStoreErr 500 e, w', True)
                      | Inr updated \<Rightarrow> (writeJSON 200 (sanitizeSite updated), w', True))))"

definition handleIssueCertificate where
  "handleIssueCertificate V leaf fmt pub E db reread k w =
     with_result (not_found_or_500 ''site not found'') (GetSite (en_lower V) (en_upper V) db k (st_sites w)) w (\<lambda>site.
       if \<not> s_acmeEnabled site then refuse (writeErr 400 ''automatic certificates are not enabled for this site'') w
       else if \<not> fst (CertificateWanted (en_lower V) leaf fmt site (ae_check E))
       then refuse (writeErr 409 (''this site already has a certificate that covers its domains and is not near expiry; ordering another ''
         @ ''would count against the authority's duplicate-certificate limit of five a week'')) w
       else if ManualIssueCooldown site (ae_check E) > 0 then refuse (wait_reply V (ManualIssueCooldown site (ae_check E))) w
       else finish_issue V pub E reread site (Issue E site w))"

subsection \<open>Every change keeps the contract\<close>

definition published_site :: "site \<Rightarrow> site" where
  "published_site s = s\<lparr>s_acmeLastError := [], s_acmeLastTry := None, s_createdAt := 0, s_updatedAt := 0\<rparr>"

lemma save_site_lawful [lawful_rules]: "lawful view pub t (save_site V pub db now code s t)"
  unfolding save_site_def by (intro lawful_rules lawful_commit) (auto simp: UpsertSite_def dest: exec_plain_fails)

interpretation create_site: admin_change "map published_site" pub "handleCreateSite V pub db now rid body"
  for pub V db now rid body
  by (rule lawful_change) (unfold handleCreateSite_def, intro lawful_rules)

interpretation update_site: admin_change "map published_site" pub "handleUpdateSite V pub db1 db2 now k body"
  for pub V db1 db2 now k body
  by (rule lawful_change) (unfold handleUpdateSite_def, intro lawful_rules)

interpretation delete_site: admin_change "map published_site" pub "handleDeleteSite pub db k" for pub db k
  by (rule lawful_change, unfold handleDeleteSite_def, intro lawful_commit lawful_rules)
    (auto simp: DeleteSite_def dest!: exec_affected_fails intro: delete_rows_zero)

lemma failure_not_published: "map published_site (snd (RecordACMEAttempt db now k e t)) = map published_site t"
  by (cases db) (auto simp: RecordACMEAttempt_def exec_plain_def update_rows_def published_site_def)

lemma finish_issue_lawful:
  "lawful (\<lambda>w. map published_site (st_sites w)) pub w (finish_issue V pub E reread site (Issue E site w))"
proof (cases "Issue E site w")
  case (Pair res w')
  show ?thesis
  proof (cases res)
    case None
    then show ?thesis using Pair
      by (cases "pub w'"; cases "GetSite (en_lower V) (en_upper V) reread (s_id site) (st_sites w')")
        (simp_all add: finish_issue_def lawful_publish, simp_all add: lawful_def)
  next
    case (Some e)
    then have "st_sites w' = st_sites w" using Issue_cases [of E site w] Pair by auto
    then show ?thesis using Pair Some
      by (simp add: finish_issue_def lawful_refuse failure_not_published)
  qed
qed

interpretation issue_certificate: admin_change "\<lambda>w. map published_site (st_sites w)" pub
    "handleIssueCertificate V leaf fmt pub E db reread k" for pub V leaf fmt E db reread k
  by (rule lawful_change, unfold handleIssueCertificate_def, intro lawful_rules finish_issue_lawful)
    (simp_all add: wait_reply_def)

subsection \<open>What a saved site looks like\<close>

lemma save_site_cases:
  assumes "save_site V pub db now code s t = (r, t', p)"
  shows "(\<not> p \<and> t' = t \<and> 400 \<le> rp_code r) \<or>
    (\<exists>s'. ValidateSite (en_lower V) (en_upper V) s = Inr s' \<and> p
       \<and> t' = upsert_row s_id (site_ins (en_lower V) now) (site_merge (en_lower V) now) s' t
       \<and> (case rp_body r of Inl e \<Rightarrow> rp_code r = 500 | Inr out \<Rightarrow> rp_code r = code \<and> out = sanitizeSite (s'\<lparr>s_updatedAt := now\<rparr>)))"
  using assms
  by (auto simp: save_site_def with_result_def commit_then_def refuse_def publish_then_def UpsertSite_def exec_plain_def
      split: sum.splits option.splits prod.splits)

lemma stored_valid:
  assumes "site_valid s"
  shows "site_valid (site_ins L now s)" "site_valid (site_merge L now old s)"
  using assms by (simp_all add: site_valid_def site_ins_def site_merge_def auth_paths_nonempty)

lemma upsert_all:
  "list_all Q t \<Longrightarrow> Q (ins r) \<Longrightarrow> (\<And>old. Q (merge old r)) \<Longrightarrow> list_all Q (upsert_row key ins merge r t)"
  by (auto simp: upsert_row_def list_all_iff)

text \<open>The table of sites: one row per id, every row validated.\<close>

definition sites_ok :: "site list \<Rightarrow> bool" where
  "sites_ok t \<longleftrightarrow> unique_by s_id t \<and> list_all site_valid t"

lemma save_site_ok:
  assumes "save_site V pub db now code s t = (r, t', p)" and "sites_ok t"
  shows "sites_ok t'"
  using save_site_cases [OF assms(1)]
proof (elim disjE exE conjE)
  fix s' assume v: "ValidateSite (en_lower V) (en_upper V) s = Inr s'"
    and t': "t' = upsert_row s_id (site_ins (en_lower V) now) (site_merge (en_lower V) now) s' t"
  have "site_valid s'" using ValidateSite_Inr [OF v] by simp
  then show ?thesis using assms(2) unfolding sites_ok_def t'
    by (auto intro!: sites.upsert_unique upsert_all stored_valid)
qed (simp add: assms(2))

subsection \<open>What a request may change\<close>

text \<open>Validation leaves the certificate, its bookkeeping and the switch alone.\<close>

lemma ValidateSite_keeps:
  assumes "ValidateSite L U s = Inr s'"
  shows "s_id s' = s_id s" "s_enabled s' = s_enabled s" "s_certExpiresAt s' = s_certExpiresAt s" "s_tlsCert s' = s_tlsCert s"
    "s_tlsKey s' = s_tlsKey s" "s_acmeEnabled s' = s_acmeEnabled s"
proof -
  obtain ds where v: "validate_rest L U
      (s\<lparr>s_name := trim_space (s_name s), s_upstreamHost := trim_space (s_upstreamHost s), s_domains := ds\<rparr>) = Inr s'"
    using assms by (auto simp: ValidateSite_def Let_def split: if_splits sum.splits)
  obtain e where "s' = site_paths L U ((site_defaults
      (s\<lparr>s_name := trim_space (s_name s), s_upstreamHost := trim_space (s_upstreamHost s), s_domains := ds\<rparr>))\<lparr>s_acmeEmail := e\<rparr>)"
    using validate_rest_Inr [OF v] by metis
  then show "s_id s' = s_id s" "s_enabled s' = s_enabled s" "s_certExpiresAt s' = s_certExpiresAt s" "s_tlsCert s' = s_tlsCert s"
    "s_tlsKey s' = s_tlsKey s" "s_acmeEnabled s' = s_acmeEnabled s"
    by (simp_all add: site_paths_def site_defaults_def Let_def)
qed

lemma save_site_find:
  assumes "save_site V pub db now code s t = (r, t', p)"
  shows "j \<noteq> s_id s \<Longrightarrow> find_row s_id j t' = find_row s_id j t"
    and "find_row s_id (s_id s) t = Some old \<Longrightarrow> find_row s_id (s_id s) t' = Some old \<or>
      (\<exists>s'. ValidateSite (en_lower V) (en_upper V) s = Inr s' \<and> find_row s_id (s_id s) t' = Some (site_merge (en_lower V) now old s'))"
  using save_site_cases [OF assms]
  by (auto dest: ValidateSite_keeps simp: sites.upsert_find_other sites.upsert_find_same [of _ _ _ t])
    (metis ValidateSite_keeps(1) option.simps(5) sites.upsert_find_same)

lemma refused_body: "save_site V pub db now code s t = (r, t', p) \<Longrightarrow> \<not> p \<Longrightarrow> rp_body r \<noteq> Inr out"
  by (auto simp: save_site_def with_result_def commit_then_def refuse_def publish_then_def split: sum.splits option.splits prod.splits)

lemma keep_fields_simps [simp]:
  "s_id (keep_fields cur i) = s_id cur" "s_createdAt (keep_fields cur i) = s_createdAt cur"
  "s_certExpiresAt (keep_fields cur i) = s_certExpiresAt cur" "s_enabled (keep_fields cur i) = s_enabled i"
  by (simp_all add: keep_fields_def Let_def)

lemma scan_keeps: "s_id (scanSite L U r) = s_id r" "s_certExpiresAt (scanSite L U r) = s_certExpiresAt r"
  "s_enabled (scanSite L U r) = s_enabled r" "s_tlsCert (scanSite L U r) = s_tlsCert r" "s_tlsKey (scanSite L U r) = s_tlsKey r"
  by (simp_all add: scanSite_def site_paths_def Let_def)

lemma over_site_enabled:
  assumes "over_site T kvs s = Some s'" and "jlast ''enabled'' kvs = None"
  shows "s_enabled s' = s_enabled s"
proof -
  have "over_bool kvs ''enabled'' b = Some b" for b using jfield_absent [OF assms(2)] by (simp add: over_bool_def)
  then show ?thesis using assms(1) unfolding over_site_def
    by (elim decode_steps_keep) (auto simp: put_field_def)
qed

text \<open>
  An update of a site touches that site only, and the certificate state on its row stays the
  renewal loop's: whatever the body says, the recorded expiry, the last failure and the time of the
  last attempt are those of before, as are id and creation time. A body that does not mention
  \<open>enabled\<close> neither switches the site off nor on, the table stays valid, and no reply contains a
  private key.
\<close>

theorem site_update_keeps:
  assumes "handleUpdateSite V pub db1 db2 now k (Some b) t = (r, t', p)" and "sites_ok t"
  shows "sites_ok t'
    \<and> (\<forall>out. rp_body r = Inr out \<longrightarrow> s_tlsKey out = [] \<and> s_id out = k)
    \<and> (\<forall>j. j \<noteq> k \<longrightarrow> find_row s_id j t' = find_row s_id j t)
    \<and> (case find_row s_id k t of None \<Rightarrow> rp_code r \<ge> 400 \<and> t' = t
       | Some old \<Rightarrow> (\<exists>new. find_row s_id k t' = Some new \<and> s_certExpiresAt new = s_certExpiresAt old
           \<and> s_acmeLastError new = s_acmeLastError old \<and> s_acmeLastTry new = s_acmeLastTry old \<and> s_createdAt new = s_createdAt old
           \<and> (\<forall>j kvs. en_json V (take 1048576 b) = Some j \<longrightarrow> as_struct j = Some kvs \<longrightarrow> jlast ''enabled'' kvs = None \<longrightarrow>
                s_enabled new = s_enabled old)))"
proof (cases "GetSite (en_lower V) (en_upper V) db1 k t")
  case (Inl e)
  have "find_row s_id k t = None" if "e = ErrNotFound"
    using Inl that by (auto simp: GetSite_def query_row_def split: option.splits)
  then show ?thesis using assms Inl
    by (auto simp: handleUpdateSite_def with_result_def refuse_def not_found_or_500_def split: option.splits if_splits)
next
  case (Inr cur)
  then obtain old where old: "find_row s_id k t = Some old" and cur: "cur = scanSite (en_lower V) (en_upper V) old"
    by (auto simp: GetSite_def query_row_def split: option.splits)
  have k: "s_id old = k" using find_row_Some [OF old] by simp
  show ?thesis
  proof (cases "read_over V (over_site (en_time V)) cur (Some b) :: site reply + site")
    case (Inl bad)
    then have "t' = t" "\<not> p" "r = bad" "rp_code bad = 400"
      using assms(1) Inr by (auto simp: handleUpdateSite_def with_result_def with_body_def refuse_def read_over_def dest: readJSON_Inl)
    moreover have "rp_body bad \<noteq> Inr out" for out
      using Inl by (auto simp: read_over_def readJSON_def Let_def split: option.splits)
    ultimately show ?thesis using old assms(2) by auto
  next
    case i: (Inr i)
    have s: "save_site V pub db2 now 200 (keep_fields cur i) t = (r, t', p)"
      using assms(1) Inr i by (simp add: handleUpdateSite_def with_result_def with_body_def)
    have id: "s_id (keep_fields cur i) = k" using k by (simp add: cur scan_keeps)
    obtain j kvs where body: "en_json V (take 1048576 b) = Some j" "as_struct j = Some kvs" "over_site (en_time V) kvs cur = Some i"
      using read_over_Inr [OF i] by blast
    have en: "s_enabled i = s_enabled old" if "jlast ''enabled'' kvs = None"
      using over_site_enabled [OF body(3) that] by (simp add: cur scan_keeps)
    have ok: "sites_ok t'" using save_site_ok [OF s assms(2)] .
    have others: "find_row s_id j t' = find_row s_id j t" if "j \<noteq> k" for j
      using save_site_find(1) [OF s] that id by simp
    have reply: "s_tlsKey out = [] \<and> s_id out = k" if "rp_body r = Inr out" for out
      using save_site_cases [OF s] that id refused_body [OF s]
      by (auto simp: sanitizeSite_def dest: ValidateSite_keeps)
    have "\<exists>new. find_row s_id k t' = Some new \<and> s_certExpiresAt new = s_certExpiresAt old
        \<and> s_acmeLastError new = s_acmeLastError old \<and> s_acmeLastTry new = s_acmeLastTry old \<and> s_createdAt new = s_createdAt old
        \<and> (jlast ''enabled'' kvs = None \<longrightarrow> s_enabled new = s_enabled old)"
      using save_site_find(2) [OF s, of old, unfolded id, OF old]
    proof (elim disjE exE conjE)
      fix s' assume v: "ValidateSite (en_lower V) (en_upper V) (keep_fields cur i) = Inr s'"
        and f: "find_row s_id k t' = Some (site_merge (en_lower V) now old s')"
      show ?thesis using f en ValidateSite_keeps [OF v] id
        by (simp add: site_merge_def cur scan_keeps)
    qed simp_all
    then show ?thesis using ok others reply old body(1,2) by auto
  qed
qed

definition demo_api :: api_env where
  "demo_api = \<lparr>en_json = (\<lambda>b. if b = ''name'' then Some (JObj [(''name'', JStr '' new'')])
       else if b = ''site'' then Some (JObj [(''name'', JStr ''a''), (''domains'', JArr [JStr ''a.test'']),
         (''upstream_host'', JStr ''10.0.0.1''), (''tls_cert'', JStr ''C''), (''tls_key'', JStr ''K''),
         (''acme_enabled'', JBool True), (''acme_email'', JStr ''a@b.c''), (''cert_expires_at'', JStr ''9999'')])
       else None),
     en_jerr = (\<lambda>b. ''bad''), en_lower = (\<lambda>s. s), en_upper = (\<lambda>s. s), en_time = atoi, en_duration = (\<lambda>d. itoa (secs d))\<rparr>"

lemma site_update_keeps_witness:
  "\<exists>new. find_row s_id ''abc'' (fst (snd (handleUpdateSite demo_api (\<lambda>t. None) None None 9 ''abc'' (Some ''name'') [demo_site_ok]))) = Some new
     \<and> s_certExpiresAt new = s_certExpiresAt demo_site_ok \<and> s_enabled new = s_enabled demo_site_ok"
proof -
  let ?R = "handleUpdateSite demo_api (\<lambda>t. None) None None 9 ''abc'' (Some ''name'') [demo_site_ok]"
  have r: "?R = (fst ?R, fst (snd ?R), snd (snd ?R))" by simp
  have ok: "sites_ok [demo_site_ok]" using demo_site_ok_valid by (simp add: sites_ok_def unique_by_def)
  have f: "find_row s_id ''abc'' [demo_site_ok] = Some demo_site_ok" by code_simp
  have j: "en_json demo_api (take 1048576 ''name'') = Some (JObj [(''name'', JStr '' new'')])" by (simp add: demo_api_def)
  have l: "jlast ''enabled'' [(''name'', JStr '' new'')] = None" by code_simp
  show ?thesis
    using site_update_keeps [OF r ok, THEN conjunct2, THEN conjunct2, THEN conjunct2] j l by (auto simp: f)
qed

text \<open>
  A new site takes the expiry the client sends with a pasted certificate, which the update
  refuses to. With automatic certificates on and an expiry far enough ahead, the renewal loop then
  never orders for the site, whenever the certificate really ends.
\<close>

theorem create_trusts_expiry:
  assumes "read_over V (over_site (en_time V)) zero_site body = (Inr i :: site reply + site)"
    and "handleCreateSite V pub db now rid body t = (r, t', True)" and "find_row s_id (newSiteID rid) t = None"
  shows "\<exists>row. find_row s_id (newSiteID rid) t' = Some row \<and> s_certExpiresAt row = s_certExpiresAt i
    \<and> s_tlsCert row = s_tlsCert i
    \<and> (s_tlsCert i \<noteq> [] \<and> s_certExpiresAt i = Some e \<and> later + renewBefore \<le> e \<and> domainsNotCovered (en_lower V) leaf row = []
         \<longrightarrow> \<not> fst (CertificateWanted (en_lower V) leaf fmt row later))"
proof -
  have s: "save_site V pub db now 201 (new_site rid i) t = (r, t', True)"
    using assms(1,2) by (simp add: handleCreateSite_def with_body_def)
  obtain s' where v: "ValidateSite (en_lower V) (en_upper V) (new_site rid i) = Inr s'"
    and t': "t' = upsert_row s_id (site_ins (en_lower V) now) (site_merge (en_lower V) now) s' t"
    using save_site_cases [OF s] by blast
  have k: "s_id s' = newSiteID rid" "s_certExpiresAt s' = s_certExpiresAt i" "s_tlsCert s' = s_tlsCert i"
    using ValidateSite_keeps [OF v] by (simp_all add: new_site_def)
  have "find_row s_id (newSiteID rid) t' = Some (site_ins (en_lower V) now s')"
    using sites.upsert_find_same [of s' "en_lower V" now t] assms(3) by (simp add: t' k)
  then show ?thesis using k
    by (auto simp: site_ins_def CertificateWanted_def Let_def)
qed

definition demo_posted :: site where
  "demo_posted = zero_site\<lparr>s_name := ''a'', s_domains := [''a.test''], s_upstreamHost := ''10.0.0.1'', s_tlsCert := ''C'',
     s_tlsKey := ''K'', s_acmeEnabled := True, s_acmeEmail := ''a@b.c'', s_certExpiresAt := Some 9999\<rparr>"

lemma demo_over: "over_site atoi [(''name'', JStr ''a''), (''domains'', JArr [JStr ''a.test'']),
    (''upstream_host'', JStr ''10.0.0.1''), (''tls_cert'', JStr ''C''), (''tls_key'', JStr ''K''),
    (''acme_enabled'', JBool True), (''acme_email'', JStr ''a@b.c''), (''cert_expires_at'', JStr ''9999'')] zero_site = Some demo_posted"
  by code_simp

lemma create_trusts_expiry_witness:
  "\<exists>row. find_row s_id ''s1'' (fst (snd (handleCreateSite demo_api (\<lambda>t. None) None 0 ''1'' (Some ''site'') []))) = Some row
     \<and> s_certExpiresAt row = Some 9999"
proof -
  let ?R = "handleCreateSite demo_api (\<lambda>t. None) None 0 ''1'' (Some ''site'') []"
  have i: "read_over demo_api (over_site (en_time demo_api)) zero_site (Some ''site'') = (Inr demo_posted :: site reply + site)"
    by (simp add: read_over_def readJSON_def decode_struct_def demo_api_def demo_over)
  have "case ValidateSite (\<lambda>s. s) (\<lambda>s. s) (new_site ''1'' demo_posted) of Inl e \<Rightarrow> False | Inr s \<Rightarrow> True"
    by code_simp
  moreover have V: "en_lower demo_api = (\<lambda>s. s)" "en_upper demo_api = (\<lambda>s. s)" by (simp_all add: demo_api_def)
  ultimately obtain s' where "ValidateSite (en_lower demo_api) (en_upper demo_api) (new_site ''1'' demo_posted) = Inr s'"
    unfolding V by (cases "ValidateSite (\<lambda>s. s) (\<lambda>s. s) (new_site ''1'' demo_posted)") (simp_all only: sum.case)
  then have "snd (snd ?R)"
    by (simp add: handleCreateSite_def i with_body_def save_site_def with_result_def commit_then_def publish_then_def
        UpsertSite_def exec_plain_def)
  then have r: "?R = (fst ?R, fst (snd ?R), True)" by (simp only: prod_eq_iff fst_conv snd_conv)
  have f: "find_row s_id (newSiteID ''1'') [] = None" by code_simp
  show ?thesis using create_trusts_expiry [OF i r f, of e later leaf fmt for e later leaf fmt]
    by (simp add: newSiteID_def demo_posted_def) blast
qed

end
