(* ===== verification/ApiRules.thy ===== *)
theory ApiRules
  imports ApiPublish StoreRules
begin

section \<open>The API: detection rules\<close>

text \<open>
  The rule handlers of \<open>control/internal/api/handlers.go\<close> over \<open>StoreRules\<close>. \<open>re_error\<close> is the
  regular expression compiler, \<open>rid\<close> the four random bytes of \<open>hexID(4)\<close> in hex.
\<close>

definition zero_rule :: rule where
  "zero_rule = \<lparr>ru_id = [], ru_name = [], ru_category = [], ru_target = [], ru_pattern = [], ru_action = [],
     ru_severity = [], ru_enabled = False, ru_builtin = False, ru_createdAt = zero_time\<rparr>"

definition over_rule :: "(string \<Rightarrow> int option) \<Rightarrow> (string \<times> json) list \<Rightarrow> rule \<Rightarrow> rule option" where
  "over_rule T kvs = decode_steps
     [put_field over_string ''id'' ru_id ru_id_update kvs,
      put_field over_string ''name'' ru_name ru_name_update kvs,
      put_field over_string ''category'' ru_category ru_category_update kvs,
      put_field over_string ''target'' ru_target ru_target_update kvs,
      put_field over_string ''pattern'' ru_pattern ru_pattern_update kvs,
      put_field over_string ''action'' ru_action ru_action_update kvs,
      put_field over_string ''severity'' ru_severity ru_severity_update kvs,
      put_field over_bool ''enabled'' ru_enabled ru_enabled_update kvs,
      put_field over_bool ''builtin'' ru_builtin ru_builtin_update kvs,
      put_field (over_time T) ''created_at'' ru_createdAt ru_createdAt_update kvs]"

definition handleListRules :: "string option \<Rightarrow> rule list \<Rightarrow> rule list reply" where
  "handleListRules db t = (case ListRules db t of Inl e \<Rightarrow> writeStoreErr 500 e | Inr rules \<Rightarrow> writeJSON 200 rules)"

text \<open>The id of a new rule: always in the namespace of custom rules.\<close>

definition custom_id :: "string \<Rightarrow> string \<Rightarrow> string" where
  "custom_id rid k0 = (let k = (if k0 = [] then ''custom-'' @ rid else k0)
                       in if has_prefix ''custom-'' k then k else ''custom-'' @ k)"

definition new_rule :: "string \<Rightarrow> rule \<Rightarrow> rule" where
  "new_rule rid r = r\<lparr>ru_builtin := False, ru_enabled := True, ru_id := custom_id rid (ru_id r)\<rparr>"

text \<open>\<open>db1\<close> is the error of the lookup, \<open>db2\<close> that of the statement.\<close>

definition handleCreateRule ::
  "api_env \<Rightarrow> (string \<Rightarrow> string option) \<Rightarrow> (rule list \<Rightarrow> string option) \<Rightarrow> string option \<Rightarrow> string option \<Rightarrow> int \<Rightarrow> string \<Rightarrow>
   string option \<Rightarrow> rule list \<Rightarrow> (rule, rule list) outcome" where
  "handleCreateRule V re_error pub db1 db2 now rid body t =
     with_body (read_over V (over_rule (en_time V)) zero_rule body) t (\<lambda>rule.
     with_result (writeStoreErr 400) (ValidateRule re_error (new_rule rid rule)) t (\<lambda>r.
       case GetRule db1 (ru_id r) t of
         Inr _ \<Rightarrow> refuse (writeErr 409 ''that rule id already exists'') t
       | Inl _ \<Rightarrow> commit_then pub (writeStoreErr 500) 201 r (UpsertRule db2 now r t)))"

definition handleUpdateRule ::
  "api_env \<Rightarrow> (string \<Rightarrow> string option) \<Rightarrow> (rule list \<Rightarrow> string option) \<Rightarrow> string option \<Rightarrow> string option \<Rightarrow> int \<Rightarrow> string \<Rightarrow>
   string option \<Rightarrow> rule list \<Rightarrow> (rule, rule list) outcome" where
  "handleUpdateRule V re_error pub db1 db2 now k body t =
     with_result (not_found_or_500 ''rule not found'') (GetRule db1 k t) t (\<lambda>cur.
     with_body (read_over V (over_rule (en_time V)) zero_rule body) t (\<lambda>i.
     with_result (writeStoreErr 400)
         (ValidateRule re_error (i\<lparr>ru_id := ru_id cur, ru_builtin := ru_builtin cur\<rparr>)) t (\<lambda>r.
       commit_then pub (writeStoreErr 500) 200 r (UpsertRule db2 now r t))))"

definition over_enabled :: "(string \<times> json) list \<Rightarrow> bool \<Rightarrow> bool option" where
  "over_enabled kvs b = over_bool kvs ''enabled'' b"

definition handleToggleRule ::
  "api_env \<Rightarrow> (rule list \<Rightarrow> string option) \<Rightarrow> string option \<Rightarrow> string \<Rightarrow> string option \<Rightarrow> rule list \<Rightarrow>
   (string \<times> bool, rule list) outcome" where
  "handleToggleRule V pub db k body t =
     with_body (read_over V over_enabled False body) t (\<lambda>enabled.
       commit_then pub (not_found_or_500 ''rule not found'') 200 (k, enabled) (SetRuleEnabled db k enabled t))"

definition handleDeleteRule ::
  "(rule list \<Rightarrow> string option) \<Rightarrow> string option \<Rightarrow> string \<Rightarrow> rule list \<Rightarrow> (string, rule list) outcome" where
  "handleDeleteRule pub db k t = commit_then pub (writeStoreErr 400) 200 ''deleted'' (DeleteRule db k t)"

subsection \<open>Every change keeps the contract\<close>

lemma upsert_rule_lawful: "lawful view pub t (commit_then pub (writeStoreErr 500) code r (UpsertRule db now r t))"
  by (rule lawful_commit) (auto simp: UpsertRule_def dest: exec_plain_fails)

interpretation create_rule: admin_change "\<lambda>t. t" pub "handleCreateRule V re_error pub db1 db2 now rid body"
  for pub V re_error db1 db2 now rid body
proof (rule lawful_change)
  fix t
  have "lawful (\<lambda>t. t) pub t (case GetRule db1 (ru_id r) t of Inr _ \<Rightarrow> refuse (writeErr 409 ''that rule id already exists'') t
      | Inl _ \<Rightarrow> commit_then pub (writeStoreErr 500) 201 r (UpsertRule db2 now r t))" for r
    by (simp add: upsert_rule_lawful lawful_refuse split: sum.split)
  then show "lawful (\<lambda>t. t) pub t (handleCreateRule V re_error pub db1 db2 now rid body t)"
    unfolding handleCreateRule_def by (intro lawful_rules) simp_all
qed

interpretation update_rule: admin_change "\<lambda>t. t" pub "handleUpdateRule V re_error pub db1 db2 now k body"
  for pub V re_error db1 db2 now k body
  by (rule lawful_change) (unfold handleUpdateRule_def, intro lawful_rules upsert_rule_lawful, simp_all)

interpretation toggle_rule: admin_change "\<lambda>t. t" pub "handleToggleRule V pub db k body" for pub V db k body
  by (rule lawful_change, unfold handleToggleRule_def, intro lawful_rules lawful_commit)
    (auto simp: SetRuleEnabled_def dest!: exec_affected_fails intro: update_rows_zero)

interpretation delete_rule: admin_change "\<lambda>t. t" pub "handleDeleteRule pub db k" for pub db k
  by (rule lawful_change, unfold handleDeleteRule_def, intro lawful_rules lawful_commit)
    (auto simp: DeleteRule_def dest!: exec_affected_fails intro: delete_rows_zero)

subsection \<open>The built-in rules\<close>

definition builtins :: "rule list \<Rightarrow> string list" where
  "builtins t = map ru_id (filter ru_builtin t)"

lemma upsert_builtins:
  assumes "\<not> ru_builtin r \<or> ru_id r \<in> ru_id ` set t"
  shows "builtins (upsert_row ru_id (rule_ins now) rule_merge r t) = builtins t"
proof (cases "list_ex (\<lambda>x. ru_id x = ru_id r) t")
  case True
  have "filter ru_builtin (map (\<lambda>x. if ru_id x = ru_id r then rule_merge x r else x) t)
      = map (\<lambda>x. if ru_id x = ru_id r then rule_merge x r else x) (filter ru_builtin t)"
    by (induction t) (auto simp: rule_merge_def)
  then show ?thesis using True
    by (simp add: upsert_row_def builtins_def comp_def rule_merge_def)
next
  case False
  then have "\<not> ru_builtin r" using assms by (auto simp: list_ex_iff)
  then show ?thesis using False by (simp add: upsert_row_def builtins_def rule_ins_def)
qed

lemma ValidateRule_keeps: "ValidateRule re_error r = Inr r' \<Longrightarrow>
    ru_builtin r' = ru_builtin r \<and> ru_enabled r' = ru_enabled r \<and> ru_id r' = trim_space (ru_id r)"
proof -
  have g: "(if b then Inl e else x) = Inr y \<longleftrightarrow> \<not> b \<and> x = Inr y" for b :: bool and e :: store_error and x y by simp
  assume "ValidateRule re_error r = Inr r'"
  then have "\<exists>u sev cat. r' = r\<lparr>ru_id := trim_space (ru_id r), ru_name := trim_space (ru_name r), ru_severity := sev, ru_category := cat\<rparr>"
    unfolding ValidateRule_def Let_def g
    by (cases "validatePattern re_error (ru_pattern (r\<lparr>ru_id := trim_space (ru_id r), ru_name := trim_space (ru_name r)\<rparr>))")
      (simp_all only: sum.case g prod.case simp_thms sum.distinct sum.inject, blast)
  then show ?thesis by auto
qed

definition ids_trimmed :: "rule list \<Rightarrow> bool" where
  "ids_trimmed t \<longleftrightarrow> list_all (\<lambda>r. trim_space (ru_id r) = ru_id r) t"

text \<open>
  The built-in rules are out of reach of the rule requests: creating, editing, toggling and
  deleting leave the list of built-in ids exactly as it was, whatever the bodies say and whether or
  not the database or the publisher fails.
\<close>

theorem builtin_rules_stay:
  assumes "ids_trimmed t"
  shows "builtins (fst (snd (handleCreateRule V re_error pub db1 db2 now rid body t))) = builtins t
    \<and> builtins (fst (snd (handleUpdateRule V re_error pub db1 db2 now k body t))) = builtins t
    \<and> builtins (fst (snd (handleToggleRule V pub db1 k body t))) = builtins t
    \<and> builtins (fst (snd (handleDeleteRule pub db1 k t))) = builtins t"
proof (intro conjI)
  have up: "builtins (snd (UpsertRule db2 now r t)) = builtins t" if "\<not> ru_builtin r \<or> ru_id r \<in> ru_id ` set t" for r
    using upsert_builtins [OF that] plain_table [of db2 "upsert_row ru_id (rule_ins now) rule_merge r t" t]
    by (auto simp: UpsertRule_def)
  show "builtins (fst (snd (handleCreateRule V re_error pub db1 db2 now rid body t))) = builtins t"
    by (auto simp: handleCreateRule_def with_body_def with_result_def refuse_def commit_table new_rule_def
        dest!: ValidateRule_keeps intro!: up split: sum.splits)
  show "builtins (fst (snd (handleUpdateRule V re_error pub db1 db2 now k body t))) = builtins t"
  proof (cases "GetRule db1 k t")
    case (Inr cur)
    then have "cur \<in> set t" using find_row_Some [of ru_id k t cur]
      by (auto simp: GetRule_def query_row_def split: option.splits)
    moreover from this have "trim_space (ru_id cur) = ru_id cur" using assms by (simp add: ids_trimmed_def list_all_iff)
    ultimately show ?thesis
      by (auto simp: handleUpdateRule_def Inr with_body_def with_result_def refuse_def commit_table
          dest!: ValidateRule_keeps intro!: up split: sum.splits)
  qed (simp add: handleUpdateRule_def with_result_def refuse_def)
  have "builtins (snd (SetRuleEnabled db1 k b t)) = builtins t" for b
  proof -
    have "builtins (map (\<lambda>r. if ru_id r = k then r\<lparr>ru_enabled := b\<rparr> else r) t) = builtins t"
      by (induction t) (auto simp: builtins_def)
    then show ?thesis
      by (simp add: SetRuleEnabled_def exec_affected_def update_rows_def split: option.split)
  qed
  then show "builtins (fst (snd (handleToggleRule V pub db1 k body t))) = builtins t"
    by (simp add: handleToggleRule_def with_body_def refuse_def commit_table split: sum.split)
  have "builtins (filter (\<lambda>r. \<not> (ru_id r = k \<and> \<not> ru_builtin r)) t) = builtins t"
    by (induction t) (auto simp: builtins_def)
  then show "builtins (fst (snd (handleDeleteRule pub db1 k t))) = builtins t"
    by (simp add: handleDeleteRule_def commit_table DeleteRule_def exec_affected_def delete_rows_def split: option.split)
qed

lemma builtin_rules_stay_witness:
  "builtins (fst (snd (handleDeleteRule (\<lambda>t. None) None ''sqli-union'' BuiltinRules))) = builtins BuiltinRules"
proof (rule builtin_rules_stay [THEN conjunct2, THEN conjunct2, THEN conjunct2])
  have "list_all (\<lambda>r. list_all (\<lambda>c. 33 \<le> byte_of c \<and> byte_of c < 127) (ru_id r)) BuiltinRules" by code_simp
  then show "ids_trimmed BuiltinRules" by (auto simp: ids_trimmed_def list_all_iff intro!: space_seqs_not_printable)
qed

text \<open>
  Unlike a site, a rule is edited from an empty body: an accepted edit that does not mention
  \<open>enabled\<close> switches the rule off, a built-in one too.
\<close>

theorem rule_edit_disables:
  assumes "handleUpdateRule V re_error pub db1 db2 now k (Some b) t = (r, t', True)"
    and "en_json V (take 1048576 b) = Some (JObj kvs)" and "jlast ''enabled'' kvs = None"
    and "ids_trimmed t"
  shows "\<exists>row. find_row ru_id k t' = Some row \<and> \<not> ru_enabled row"
proof -
  obtain cur where cur: "GetRule db1 k t = Inr cur"
    using assms(1) by (auto simp: handleUpdateRule_def with_result_def refuse_def split: sum.splits)
  then have c: "cur \<in> set t" "ru_id cur = k" using find_row_Some [of ru_id k t cur]
    by (auto simp: GetRule_def query_row_def split: option.splits)
  obtain i where i: "read_over V (over_rule (en_time V)) zero_rule (Some b) = (Inr i :: rule reply + rule)"
    using assms(1) by (auto simp: handleUpdateRule_def cur with_result_def with_body_def refuse_def split: sum.splits)
  obtain r' where v: "ValidateRule re_error (i\<lparr>ru_id := ru_id cur, ru_builtin := ru_builtin cur\<rparr>) = Inr r'"
    and u: "UpsertRule db2 now r' t = (Inr (), t')"
    using assms(1) by (auto simp: handleUpdateRule_def cur i with_result_def with_body_def refuse_def commit_then_def publish_then_def
        split: sum.splits prod.splits option.splits)
  have "\<not> ru_enabled i"
  proof -
    have "over_rule (en_time V) kvs zero_rule = Some i"
      using i assms(2) by (auto simp: read_over_def readJSON_def decode_struct_def Let_def split: option.splits)
    moreover have "over_bool kvs ''enabled'' b = Some b" for b using jfield_absent [OF assms(3)] by (simp add: over_bool_def)
    ultimately have "ru_enabled i = ru_enabled zero_rule" unfolding over_rule_def
      by (elim decode_steps_keep) (auto simp: put_field_def)
    then show ?thesis by (simp add: zero_rule_def)
  qed
  then have "\<not> ru_enabled r'" "ru_id r' = k" using ValidateRule_keeps [OF v] c assms(4)
    by (auto simp: ids_trimmed_def list_all_iff)
  then show ?thesis using u rules.upsert_find_same [of r' now t]
    by (auto simp: UpsertRule_def exec_plain_def rule_ins_def rule_merge_def split: option.splits)
qed

definition demo_edit :: "(string \<times> json) list" where
  "demo_edit = [(''name'', JStr ''n''), (''pattern'', JStr ''p''), (''target'', JStr ''uri''), (''action'', JStr ''deny'')]"

definition demo_rules_api :: api_env where
  "demo_rules_api = \<lparr>en_json = (\<lambda>b. Some (JObj demo_edit)), en_jerr = (\<lambda>b. []), en_lower = (\<lambda>s. s), en_upper = (\<lambda>s. s),
     en_time = atoi, en_duration = itoa\<rparr>"

definition demo_rule_row :: rule where
  "demo_rule_row = zero_rule\<lparr>ru_id := ''sqli-union'', ru_enabled := True, ru_builtin := True\<rparr>"

lemma rule_edit_disables_witness:
  "\<exists>row. find_row ru_id ''sqli-union'' (fst (snd (handleUpdateRule demo_rules_api (\<lambda>p. None) (\<lambda>t. None) None None 5
     ''sqli-union'' (Some []) [demo_rule_row]))) = Some row \<and> \<not> ru_enabled row"
proof -
  let ?R = "handleUpdateRule demo_rules_api (\<lambda>p. None) (\<lambda>t. None) None None 5 ''sqli-union'' (Some []) [demo_rule_row]"
  define d where "d = zero_rule\<lparr>ru_name := ''n'', ru_pattern := ''p'', ru_target := ''uri'', ru_action := ''deny''\<rparr>"
  have o: "over_rule (en_time demo_rules_api) demo_edit zero_rule = Some d" unfolding d_def by code_simp
  have i: "read_over demo_rules_api (over_rule (en_time demo_rules_api)) zero_rule (Some []) = (Inr d :: rule reply + rule)"
    using o by (simp add: read_over_def readJSON_def decode_struct_def demo_rules_api_def)
  have g: "GetRule None ''sqli-union'' [demo_rule_row] = Inr demo_rule_row" by code_simp
  have "case ValidateRule (\<lambda>p. None) (d\<lparr>ru_id := ru_id demo_rule_row, ru_builtin := ru_builtin demo_rule_row\<rparr>) of
      Inl e \<Rightarrow> False | Inr r \<Rightarrow> True" unfolding d_def by code_simp
  then have "snd (snd ?R)"
    by (simp add: handleUpdateRule_def with_result_def with_body_def g i commit_then_def publish_then_def UpsertRule_def
        exec_plain_def split: sum.splits)
  then have r: "?R = (fst ?R, fst (snd ?R), True)" by (simp only: prod_eq_iff fst_conv snd_conv)
  have j: "en_json demo_rules_api (take 1048576 []) = Some (JObj demo_edit)" by (simp add: demo_rules_api_def)
  have l: "jlast ''enabled'' demo_edit = None" "ids_trimmed [demo_rule_row]" by code_simp+
  show ?thesis by (rule rule_edit_disables [OF r j l])
qed

end
