(* ===== verification/ApiAccessRules.thy ===== *)
theory ApiAccessRules
  imports ApiPublish StoreAccessRules
begin

section \<open>The API: access rules\<close>

text \<open>
  The handlers of \<open>control/internal/api/accessrules.go\<close> over \<open>StoreAccessRules\<close>. \<open>rid\<close> is the five
  random bytes in hex. The counters of the data plane are read through \<open>scan\<close> (one page of keys for
  a day and a cursor, \<open>None\<close> when Redis fails) and \<open>hget\<close> (the fields of one key).
\<close>

subsection \<open>The counters\<close>

definition count_val :: "(string \<Rightarrow> int) \<Rightarrow> string \<times> string \<Rightarrow> (string \<Rightarrow> int)" where
  "count_val out e = (case e of (k, v) \<Rightarrow> (case atoi v of None \<Rightarrow> out | Some n \<Rightarrow> out(k := wrap64 (out k + n))))"

definition count_key :: "(string \<Rightarrow> (string \<times> string) list option) \<Rightarrow> (string \<Rightarrow> int) \<Rightarrow> string \<Rightarrow> (string \<Rightarrow> int)" where
  "count_key hget out key = (case hget key of None \<Rightarrow> out | Some vals \<Rightarrow> foldl count_val out vals)"

text \<open>The first argument bounds the pages, as the \<open>for\<close> of the code does.\<close>

fun hits_loop ::
  "nat \<Rightarrow> (nat \<Rightarrow> (string list \<times> nat) option) \<Rightarrow> (string \<Rightarrow> (string \<times> string) list option) \<Rightarrow> nat \<Rightarrow> (string \<Rightarrow> int) \<Rightarrow> (string \<Rightarrow> int)" where
  "hits_loop 0 scan hget cursor out = out"
| "hits_loop (Suc n) scan hget cursor out =
     (case scan cursor of
        None \<Rightarrow> out
      | Some (keys, nxt) \<Rightarrow>
          (let out' = foldl (count_key hget) out keys
           in if nxt = 0 then out' else hits_loop n scan hget nxt out'))"

definition ruleHits ::
  "(string \<Rightarrow> nat \<Rightarrow> (string list \<times> nat) option) \<Rightarrow> (string \<Rightarrow> (string \<times> string) list option) \<Rightarrow> (int \<Rightarrow> string) \<Rightarrow> int \<Rightarrow>
   access_rule list \<Rightarrow> (string \<Rightarrow> int) \<times> int" where
  "ruleHits scan hget day now rules =
     (let since = now div 86400000000000 * 86400000000000
      in if rules = [] then (\<lambda>k. 0, since)
         else (hits_loop 64 (scan (''moswaf:rulehits:'' @ day since @ '':*'')) hget 0 (\<lambda>k. 0), since))"

record listed_rule =
  lr_rule :: access_rule
  lr_hits :: int
  lr_since :: int

definition handleListAccessRules where
  "handleListAccessRules scan hget day now db siteID t =
     (case ListAccessRules db siteID t of
        Inl e \<Rightarrow> writeStoreErr 500 e
      | Inr rules \<Rightarrow> (case ruleHits scan hget day now rules of (hits, since) \<Rightarrow>
          writeJSON 200 (map (\<lambda>r. \<lparr>lr_rule = r, lr_hits = hits (ar_id r), lr_since = since\<rparr>) rules)))"

subsection \<open>Request bodies\<close>

definition decode_condition :: "json \<Rightarrow> rule_condition option" where
  "decode_condition j = (case as_struct j of None \<Rightarrow> None
     | Some kvs \<Rightarrow> (case (as_string (jfield ''field'' kvs), as_string (jfield ''op'' kvs), over_strings kvs ''values'' []) of
         (Some f, Some p, Some vs) \<Rightarrow> Some \<lparr>rc_field = f, rc_op = p, rc_values = vs\<rparr> | _ \<Rightarrow> None))"

definition over_conditions :: "(string \<times> json) list \<Rightarrow> string \<Rightarrow> rule_condition list \<Rightarrow> rule_condition list option" where
  "over_conditions kvs k d = (case jlast k kvs of None \<Rightarrow> Some d | Some j \<Rightarrow> Option.bind (as_list j) (opt_all decode_condition))"

text \<open>A \<open>*bool\<close>: a null makes it nil.\<close>

definition over_bool_ptr :: "(string \<times> json) list \<Rightarrow> string \<Rightarrow> bool option \<Rightarrow> bool option option" where
  "over_bool_ptr kvs k d = (case jlast k kvs of None \<Rightarrow> Some d | Some JNull \<Rightarrow> Some None
     | Some (JBool b) \<Rightarrow> Some (Some b) | Some _ \<Rightarrow> None)"

text \<open>\<open>ruleBody\<close>: its \<open>Enabled\<close> hides the one of the embedded rule, which stays false.\<close>

record rule_body =
  rb_rule :: access_rule
  rb_enabled :: "bool option"

definition zero_body :: rule_body where
  "zero_body = \<lparr>rb_rule = \<lparr>ar_id = [], ar_name = [], ar_action = [], ar_priority = 0, ar_enabled = False, ar_siteID = [],
     ar_conditions = [], ar_createdAt = zero_time, ar_updatedAt = zero_time\<rparr>, rb_enabled = None\<rparr>"

definition over_access :: "(string \<Rightarrow> int option) \<Rightarrow> (string \<times> json) list \<Rightarrow> access_rule \<Rightarrow> access_rule option" where
  "over_access T kvs = decode_steps
     [put_field over_string ''id'' ar_id ar_id_update kvs,
      put_field over_string ''name'' ar_name ar_name_update kvs,
      put_field over_string ''action'' ar_action ar_action_update kvs,
      put_field over_int ''priority'' ar_priority ar_priority_update kvs,
      put_field over_string ''site_id'' ar_siteID ar_siteID_update kvs,
      put_field over_conditions ''conditions'' ar_conditions ar_conditions_update kvs,
      put_field (over_time T) ''created_at'' ar_createdAt ar_createdAt_update kvs,
      put_field (over_time T) ''updated_at'' ar_updatedAt ar_updatedAt_update kvs]"

definition over_body :: "(string \<Rightarrow> int option) \<Rightarrow> (string \<times> json) list \<Rightarrow> rule_body \<Rightarrow> rule_body option" where
  "over_body T kvs b =
     (case (over_access T kvs (rb_rule b), over_bool_ptr kvs ''enabled'' (rb_enabled b)) of
        (Some r, Some e) \<Rightarrow> Some \<lparr>rb_rule = r, rb_enabled = e\<rparr> | _ \<Rightarrow> None)"

subsection \<open>The handlers\<close>

text \<open>The rule as the statement left it: \<open>UpsertAccessRule\<close> validates it in place.\<close>

definition validated :: "api_env \<Rightarrow> access_rule \<Rightarrow> access_rule" where
  "validated V r = (case ValidateAccessRule (en_lower V) (en_upper V) r of Inl e \<Rightarrow> r | Inr r' \<Rightarrow> r')"

definition save_rule ::
  "api_env \<Rightarrow> (access_rule list \<Rightarrow> string option) \<Rightarrow> string option \<Rightarrow> int \<Rightarrow> int \<Rightarrow> access_rule \<Rightarrow> access_rule list \<Rightarrow>
   (access_rule, access_rule list) outcome" where
  "save_rule V pub db now code r t =
     commit_then pub (writeStoreErr 400) code (validated V r) (UpsertAccessRule (en_lower V) (en_upper V) db now r t)"

definition new_access_rule :: "string \<Rightarrow> int \<Rightarrow> rule_body \<Rightarrow> access_rule" where
  "new_access_rule rid n b =
     (let r = (rb_rule b)\<lparr>ar_enabled := (case rb_enabled b of None \<Rightarrow> True | Some e \<Rightarrow> e), ar_id := ''r'' @ rid\<rparr>
      in if ar_priority r = 0 then r\<lparr>ar_priority := 1000 + n\<rparr> else r)"

definition handleCreateAccessRule ::
  "api_env \<Rightarrow> (access_rule list \<Rightarrow> string option) \<Rightarrow> string option \<Rightarrow> string option \<Rightarrow> int \<Rightarrow> string \<Rightarrow> string option \<Rightarrow>
   access_rule list \<Rightarrow> (access_rule, access_rule list) outcome" where
  "handleCreateAccessRule V pub db1 db2 now rid body t =
     with_body (read_over V (over_body (en_time V)) zero_body body) t (\<lambda>b.
     with_result (writeStoreErr 500) (CountAccessRules db1 t) t (\<lambda>n.
       if n \<ge> MaxAccessRules
       then refuse (writeErr 400 ''there are already the maximum number of rules; delete one first'') t
       else save_rule V pub db2 now 201 (new_access_rule rid n b) t))"

definition edited_rule :: "access_rule \<Rightarrow> rule_body \<Rightarrow> access_rule" where
  "edited_rule existing b =
     (let r = (rb_rule b)\<lparr>ar_enabled := (case rb_enabled b of None \<Rightarrow> ar_enabled existing | Some e \<Rightarrow> e), ar_id := ar_id existing\<rparr>
      in if ar_priority r = 0 then r\<lparr>ar_priority := ar_priority existing\<rparr> else r)"

definition handleUpdateAccessRule ::
  "api_env \<Rightarrow> (access_rule list \<Rightarrow> string option) \<Rightarrow> string option \<Rightarrow> string option \<Rightarrow> int \<Rightarrow> string \<Rightarrow> string option \<Rightarrow>
   access_rule list \<Rightarrow> (access_rule, access_rule list) outcome" where
  "handleUpdateAccessRule V pub db1 db2 now k body t =
     with_result (not_found_or_500 ''no such rule'') (GetAccessRule db1 k t) t (\<lambda>existing.
     with_body (read_over V (over_body (en_time V)) zero_body body) t (\<lambda>b.
       save_rule V pub db2 now 200 (edited_rule existing b) t))"

definition handleDeleteAccessRule ::
  "(access_rule list \<Rightarrow> string option) \<Rightarrow> string option \<Rightarrow> string \<Rightarrow> access_rule list \<Rightarrow> (unit, access_rule list) outcome" where
  "handleDeleteAccessRule pub db k t =
     commit_then pub (not_found_or_500 ''no such rule'') 200 () (DeleteAccessRule db k t)"

definition over_ids :: "(string \<times> json) list \<Rightarrow> string list \<Rightarrow> string list option" where
  "over_ids kvs ids = over_strings kvs ''ids'' ids"

definition handleReorderAccessRules ::
  "api_env \<Rightarrow> (access_rule list \<Rightarrow> string option) \<Rightarrow> string option \<Rightarrow> (nat \<Rightarrow> string option) \<Rightarrow> string option \<Rightarrow> int \<Rightarrow>
   string option \<Rightarrow> access_rule list \<Rightarrow> (unit, access_rule list) outcome" where
  "handleReorderAccessRules V pub db stmt commit now body t =
     with_body (read_over V over_ids [] body) t (\<lambda>ids.
       if ids = [] \<or> int (length ids) > MaxAccessRules
       then refuse (writeErr 400 ''send the full list of rule ids in the new order'') t
       else commit_then pub (writeStoreErr 500) 200 () (ReorderAccessRules db stmt commit now ids t))"

subsection \<open>Every change keeps the contract\<close>

lemma save_rule_lawful: "lawful view pub t (save_rule V pub db now code r t)"
  unfolding save_rule_def
  by (rule lawful_commit) (auto simp: UpsertAccessRule_def dest: exec_plain_fails split: sum.splits)

interpretation create_access_rule: admin_change "\<lambda>t. t" pub "handleCreateAccessRule V pub db1 db2 now rid body"
  for pub V db1 db2 now rid body
  by (rule lawful_change) (unfold handleCreateAccessRule_def, intro lawful_rules save_rule_lawful, simp_all)

interpretation update_access_rule: admin_change "\<lambda>t. t" pub "handleUpdateAccessRule V pub db1 db2 now k body"
  for pub V db1 db2 now k body
  by (rule lawful_change) (unfold handleUpdateAccessRule_def, intro lawful_rules save_rule_lawful)

interpretation delete_access_rule: admin_change "\<lambda>t. t" pub "handleDeleteAccessRule pub db k" for pub db k
  by (rule lawful_change, unfold handleDeleteAccessRule_def, intro lawful_rules lawful_commit)
    (auto simp: DeleteAccessRule_def dest!: exec_affected_fails intro: delete_rows_zero)

interpretation reorder_access_rules: admin_change "\<lambda>t. t" pub "handleReorderAccessRules V pub db stmt commit now body"
  for pub V db stmt commit now body
proof (rule lawful_change)
  fix t
  have "lawful (\<lambda>t. t) pub t (commit_then pub (writeStoreErr 500) 200 () (ReorderAccessRules db stmt commit now ids t))" for ids
    by (rule lawful_commit) (auto simp: ReorderAccessRules_def split: option.splits sum.splits)
  then show "lawful (\<lambda>t. t) pub t (handleReorderAccessRules V pub db stmt commit now body t)"
    unfolding handleReorderAccessRules_def by (intro lawful_rules) simp_all
qed

subsection \<open>The table stays valid and bounded\<close>

definition access_ok :: "access_rule \<Rightarrow> bool" where
  "access_ok r \<longleftrightarrow> ar_name r \<noteq> [] \<and> no_break (ar_name r) \<and> ar_action r \<in> {''allow'', ''deny'', ''challenge'', ''log''}
     \<and> ar_conditions r \<noteq> [] \<and> length (ar_conditions r) \<le> 10 \<and> list_all condition_ok (ar_conditions r)
     \<and> (ar_action r = ''allow'' \<longrightarrow> list_all allow_condition_ok (ar_conditions r)) \<and> 0 \<le> ar_priority r \<and> ar_priority r \<le> 100000"

definition access_table_ok :: "access_rule list \<Rightarrow> bool" where
  "access_table_ok t \<longleftrightarrow> unique_by ar_id t \<and> list_all access_ok t \<and> length t \<le> 200"

lemma save_rule_cases:
  assumes "save_rule V pub db now code r t = (rep, t', p)"
  shows "(\<not> p \<and> t' = t \<and> 400 \<le> rp_code rep) \<or> (\<exists>r'. ValidateAccessRule (en_lower V) (en_upper V) r = Inr r' \<and> p
    \<and> t' = upsert_row ar_id (ar_ins now) (ar_merge now) r' t)"
  using assms
  by (auto simp: save_rule_def commit_then_def refuse_def publish_then_def UpsertAccessRule_def exec_plain_def
      split: sum.splits option.splits prod.splits)

lemma ValidateAccessRule_priority:
  assumes "ValidateAccessRule L U r = Inr r'"
  shows "ar_priority r' = clamp_priority (ar_priority r)" "ar_enabled r' = ar_enabled r"
    "ar_siteID r' = trim_space (ar_siteID r)"
  using assms by (auto simp: ValidateAccessRule_def Let_def split: if_splits sum.splits)

lemma accepted_ok: "ValidateAccessRule L U r = Inr r' \<Longrightarrow> access_ok r'"
  unfolding access_ok_def by (drule ValidateAccessRule_Inr, elim conjE, intro conjI)

lemma upsert_access:
  assumes "access_ok r" and "list_all access_ok t"
  shows "list_all access_ok (upsert_row ar_id (ar_ins now) (ar_merge now) r t)"
proof -
  have "access_ok (ar_ins now r)" "access_ok (ar_merge now old r)" for old
    using assms(1) by (simp_all add: access_ok_def ar_ins_def ar_merge_def)
  then show ?thesis using assms(2) by (auto simp: upsert_row_def list_all_iff)
qed

lemma save_rule_ok:
  assumes "save_rule V pub db now code r t = (rep, t', p)" and "access_table_ok t"
    and "length t < 200 \<or> ar_id r \<in> ar_id ` set t"
  shows "access_table_ok t'"
  using save_rule_cases [OF assms(1)]
proof (elim disjE exE conjE)
  fix r' assume v: "ValidateAccessRule (en_lower V) (en_upper V) r = Inr r'"
    and t': "t' = upsert_row ar_id (ar_ins now) (ar_merge now) r' t"
  have "ar_id r' = ar_id r" using ValidateAccessRule_Inr [OF v] by simp
  then have "length t' \<le> 200" using assms(2,3) unfolding t'
    by (auto simp: upsert_row_def access_table_ok_def list_ex_iff)
  then show ?thesis using assms(2) accepted_ok [OF v]
    unfolding access_table_ok_def t' by (simp add: access_rules.upsert_unique upsert_access)
qed (use assms(2) in simp)

lemma create_access_ok:
  assumes "handleCreateAccessRule V pub db1 db2 now rid body t = (r, t', p)" and "access_table_ok t"
  shows "access_table_ok t'"
proof -
  have "t' = t \<or> (\<exists>b n. CountAccessRules db1 t = Inr n \<and> (if n \<ge> MaxAccessRules
       then refuse (writeErr 400 ''there are already the maximum number of rules; delete one first'') t
       else save_rule V pub db2 now 201 (new_access_rule rid n b) t) = (r, t', p))"
    using assms(1) unfolding handleCreateAccessRule_def by (blast dest: with_body_out with_result_out)
  then show ?thesis
    using assms(2) save_rule_ok [of V pub db2 now 201 _ t r t' p]
    by (auto simp: CountAccessRules_def query_def MaxAccessRules_def refuse_def split: option.splits if_splits)
qed

lemma update_access_ok:
  assumes "handleUpdateAccessRule V pub db1 db2 now k body t = (r, t', p)" and "access_table_ok t"
  shows "access_table_ok t'"
proof -
  have "t' = t \<or> (\<exists>e b. GetAccessRule db1 k t = Inr e \<and> save_rule V pub db2 now 200 (edited_rule e b) t = (r, t', p))"
    using assms(1) unfolding handleUpdateAccessRule_def by (blast dest: with_body_out with_result_out)
  then show ?thesis
  proof (elim disjE exE conjE)
    fix e b assume g: "GetAccessRule db1 k t = Inr e" and s: "save_rule V pub db2 now 200 (edited_rule e b) t = (r, t', p)"
    have "e \<in> set t" using g find_row_Some [of ar_id k t e]
      by (auto simp: GetAccessRule_def query_row_def split: option.splits)
    then have "ar_id (edited_rule e b) \<in> ar_id ` set t" by (simp add: edited_rule_def Let_def)
    then show ?thesis using save_rule_ok [OF s assms(2)] by blast
  qed (use assms(2) in simp)
qed

lemma rank_ok: "access_ok r \<Longrightarrow> 0 \<le> n \<Longrightarrow> n \<le> 100000 \<Longrightarrow> access_ok (r\<lparr>ar_priority := n, ar_updatedAt := now\<rparr>)"
  by (simp add: access_ok_def)

lemma reorder_loop_ok:
  "reorder_loop stmt now i ids t = Inr t' \<Longrightarrow> list_all access_ok t \<Longrightarrow> i + length ids \<le> 100000 \<Longrightarrow>
   list_all access_ok t' \<and> map ar_id t' = map ar_id t"
proof (induction ids arbitrary: i t)
  case (Cons k ks)
  let ?t = "map (\<lambda>r. if ar_id r = k then r\<lparr>ar_priority := int i + 1, ar_updatedAt := now\<rparr> else r) t"
  have "list_all access_ok ?t" using Cons.prems(2,3) by (auto simp: list_all_iff intro!: rank_ok)
  moreover have "map ar_id ?t = map ar_id t" by simp
  ultimately show ?case using Cons.IH [of "Suc i" ?t] Cons.prems
    by (auto simp: update_rows_def split: option.splits)
qed simp

text \<open>
  C40 Whatever the requests, the rules in the table are rules the data plane may be given: never
  more than two hundred, one per id, each with the shape validation guarantees, so that no stored
  allow rule can be fired by what a request claims about itself.
\<close>

theorem access_table_invariant:
  assumes "access_table_ok t"
  shows "access_table_ok (fst (snd (handleCreateAccessRule V pub db1 db2 now rid body t)))
    \<and> access_table_ok (fst (snd (handleUpdateAccessRule V pub db1 db2 now k body t)))
    \<and> access_table_ok (fst (snd (handleDeleteAccessRule pub db1 k t)))
    \<and> access_table_ok (fst (snd (handleReorderAccessRules V pub db1 stmt db2 now body t)))"
proof (intro conjI)
  show "access_table_ok (fst (snd (handleCreateAccessRule V pub db1 db2 now rid body t)))"
    using create_access_ok [OF _ assms] by (cases "handleCreateAccessRule V pub db1 db2 now rid body t") auto
  show "access_table_ok (fst (snd (handleUpdateAccessRule V pub db1 db2 now k body t)))"
    using update_access_ok [OF _ assms] by (cases "handleUpdateAccessRule V pub db1 db2 now k body t") auto
  have "access_table_ok (filter P t)" for P
    using assms le_trans [OF length_filter_le [of P t], of 200] unfolding access_table_ok_def unique_by_def
    by (simp add: list_all_iff distinct_map_filter)
  then show "access_table_ok (fst (snd (handleDeleteAccessRule pub db1 k t)))"
    using assms by (simp add: handleDeleteAccessRule_def commit_table DeleteAccessRule_def exec_affected_def delete_rows_def
        split: option.split)
  have "access_table_ok t'" if "reorder_loop stmt now 0 ids t = Inr t'" "length ids \<le> 200" for ids t'
    using reorder_loop_ok [OF that(1)] that(2) assms by (auto simp: access_table_ok_def unique_by_def dest: map_eq_imp_length_eq)
  then have "access_table_ok (snd (ReorderAccessRules db1 stmt db2 now ids t))" if "length ids \<le> 200" for ids
    using that assms by (auto simp: ReorderAccessRules_def split: option.splits sum.splits)
  then show "access_table_ok (fst (snd (handleReorderAccessRules V pub db1 stmt db2 now body t)))"
    using assms by (simp add: handleReorderAccessRules_def with_body_def commit_table refuse_def MaxAccessRules_def split: sum.split)
qed

lemma access_table_invariant_witness:
  "access_table_ok (fst (snd (handleDeleteAccessRule (\<lambda>t. None) None ''x'' [])))"
  by (rule access_table_invariant [THEN conjunct2, THEN conjunct2, THEN conjunct1])
    (simp add: access_table_ok_def unique_by_def)

subsection \<open>Where a rule lands\<close>

lemma last_max: "sorted (map f xs) \<Longrightarrow> x \<in> set xs \<Longrightarrow> f x \<le> (f (last xs) :: int)"
  by (induction xs) auto

lemma rule_order_last: "r \<in> set t \<Longrightarrow> ar_priority r \<le> ar_priority (last (rule_order t))"
  using rule_order_sorted [of t] last_max [of ar_priority "rule_order t" r] by simp

text \<open>
  A new rule that names no priority is listed last, so that it cannot shadow an existing one,
  exactly as long as every existing priority is below a thousand plus the number of rules: when one
  is above, the new rule is not last.
\<close>

theorem new_rule_last:
  assumes "handleCreateAccessRule V pub db1 db2 now rid body t = (rep, t', True)"
    and "read_over V (over_body (en_time V)) zero_body body = (Inr b :: access_rule reply + rule_body)"
    and "ar_priority (rb_rule b) = 0" and "''r'' @ rid \<notin> ar_id ` set t"
  shows "((\<forall>x \<in> set t. ar_priority x < 1000 + int (length t)) \<longrightarrow> ar_id (last (rule_order t')) = ''r'' @ rid)
    \<and> ((\<exists>x \<in> set t. 1000 + int (length t) < ar_priority x) \<longrightarrow> ar_id (last (rule_order t')) \<noteq> ''r'' @ rid)"
proof -
  let ?n = "int (length t)"
  have c: "CountAccessRules db1 t = Inr ?n" and lt: "?n < 200"
    and s: "save_rule V pub db2 now 201 (new_access_rule rid ?n b) t = (rep, t', True)"
    using assms(1,2) by (auto simp: handleCreateAccessRule_def with_body_def with_result_def refuse_def CountAccessRules_def
        query_def MaxAccessRules_def split: option.splits if_splits)
  obtain r' where v: "ValidateAccessRule (en_lower V) (en_upper V) (new_access_rule rid ?n b) = Inr r'"
    and t': "t' = upsert_row ar_id (ar_ins now) (ar_merge now) r' t" using save_rule_cases [OF s] by blast
  have "ar_id r' = ''r'' @ rid" using ValidateAccessRule_Inr [OF v] assms(3) by (simp add: new_access_rule_def Let_def)
  moreover have "ar_priority r' = 1000 + ?n"
    using ValidateAccessRule_priority [OF v] assms(3) lt by (simp add: new_access_rule_def Let_def clamp_priority_def)
  moreover have "t' = t @ [ar_ins now r']" using assms(4) calculation(1)
    by (simp add: t' upsert_row_def list_ex_iff) (metis imageI)
  ultimately have new: "t' = t @ [ar_ins now r']" "ar_id (ar_ins now r') = ''r'' @ rid" "ar_priority (ar_ins now r') = 1000 + ?n"
    by (simp_all add: ar_ins_def)
  have mem: "last (rule_order t') \<in> set t'" using new(1) last_in_set [of "rule_order t'"]
    by (metis append_is_Nil_conv list.discI set_empty set_rule_order)
  show ?thesis
  proof (intro conjI impI)
    assume "\<forall>x \<in> set t. ar_priority x < 1000 + ?n"
    moreover have "1000 + ?n \<le> ar_priority (last (rule_order t'))"
      using rule_order_last [of "ar_ins now r'" t'] new by simp
    ultimately have "last (rule_order t') \<notin> set t" by force
    then show "ar_id (last (rule_order t')) = ''r'' @ rid" using mem new by simp
  next
    assume "\<exists>x \<in> set t. 1000 + ?n < ar_priority x"
    then obtain x where "x \<in> set t'" "1000 + ?n < ar_priority x" using new(1) by auto
    then have "1000 + ?n < ar_priority (last (rule_order t'))" using rule_order_last by fastforce
    then have "last (rule_order t') \<in> set t" using mem new by auto
    then show "ar_id (last (rule_order t')) \<noteq> ''r'' @ rid" using assms(4) by (metis imageI)
  qed
qed

text \<open>
  An accepted edit of a rule keeps its id, and its switch and priority when the body does not
  mention them; but a body that does not mention the site makes the rule one for every site.
\<close>

theorem access_edit_exact:
  assumes "handleUpdateAccessRule V pub db1 db2 now k body t = (rep, t', True)"
    and "read_over V (over_body (en_time V)) zero_body body = (Inr b :: access_rule reply + rule_body)"
    and "find_row ar_id k t = Some old" and "access_table_ok t"
  shows "\<exists>new. find_row ar_id k t' = Some new \<and> ar_createdAt new = ar_createdAt old
    \<and> (rb_enabled b = None \<longrightarrow> ar_enabled new = ar_enabled old)
    \<and> (ar_priority (rb_rule b) = 0 \<longrightarrow> ar_priority new = ar_priority old)
    \<and> ar_siteID new = trim_space (ar_siteID (rb_rule b))"
proof -
  have g: "GetAccessRule db1 k t = Inr old"
    using assms(1,3) by (auto simp: handleUpdateAccessRule_def with_result_def refuse_def GetAccessRule_def query_row_def
        split: option.splits sum.splits)
  have s: "save_rule V pub db2 now 200 (edited_rule old b) t = (rep, t', True)"
    using assms(1,2) g by (simp add: handleUpdateAccessRule_def with_result_def with_body_def)
  obtain r' where v: "ValidateAccessRule (en_lower V) (en_upper V) (edited_rule old b) = Inr r'"
    and t': "t' = upsert_row ar_id (ar_ins now) (ar_merge now) r' t" using save_rule_cases [OF s] by blast
  have old: "old \<in> set t" "ar_id old = k" using find_row_Some [OF assms(3)] by simp_all
  then have "0 \<le> ar_priority old \<and> ar_priority old \<le> 100000"
    using assms(4) by (simp add: access_table_ok_def list_all_iff access_ok_def)
  then have "clamp_priority (ar_priority old) = ar_priority old" by (simp add: clamp_priority_def)
  moreover have "ar_id r' = k" using ValidateAccessRule_Inr [OF v] old by (simp add: edited_rule_def Let_def)
  ultimately show ?thesis using access_rules.upsert_find_same [of r' now t] assms(3) ValidateAccessRule_priority [OF v]
    by (auto simp: t' ar_merge_def edited_rule_def Let_def split: if_splits)
qed

subsection \<open>Two requests evaluated\<close>

definition demo_kvs :: "(string \<times> json) list" where
  "demo_kvs = [(''name'', JStr ''block x''), (''action'', JStr ''deny''), (''conditions'',
     JArr [JObj [(''field'', JStr ''path''), (''op'', JStr ''prefix''), (''values'', JArr [JStr ''/x''])]])]"

definition demo_access_api :: api_env where
  "demo_access_api = \<lparr>en_json = (\<lambda>b. Some (JObj demo_kvs)), en_jerr = (\<lambda>b. []), en_lower = (\<lambda>s. s), en_upper = (\<lambda>s. s),
     en_time = atoi, en_duration = itoa\<rparr>"

definition demo_body :: rule_body where
  "demo_body = zero_body\<lparr>rb_rule := (rb_rule zero_body)\<lparr>ar_name := ''block x'', ar_action := ''deny'',
     ar_conditions := [\<lparr>rc_field = ''path'', rc_op = ''prefix'', rc_values = [''/x'']\<rparr>]\<rparr>\<rparr>"

lemma demo_read: "read_over demo_access_api (over_body (en_time demo_access_api)) zero_body (Some []) =
    (Inr demo_body :: access_rule reply + rule_body)"
proof -
  have "over_body atoi demo_kvs zero_body = Some demo_body" by code_simp
  then show ?thesis by (simp add: read_over_def readJSON_def decode_struct_def demo_access_api_def)
qed

lemma demo_access_values: "ar_name (rb_rule demo_body) = ''block x''" "ar_action (rb_rule demo_body) = ''deny''"
    "ar_priority (rb_rule demo_body) = 0" "rb_enabled demo_body = None" "ar_siteID (rb_rule demo_body) = []"
    "ar_conditions (rb_rule demo_body) = [\<lparr>rc_field = ''path'', rc_op = ''prefix'', rc_values = [''/x'']\<rparr>]"
  by (simp_all add: demo_body_def zero_body_def)

lemma demo_saved:
  assumes "ar_name r = ''block x''" and "ar_action r = ''deny''"
    and "ar_conditions r = [\<lparr>rc_field = ''path'', rc_op = ''prefix'', rc_values = [''/x'']\<rparr>]"
  shows "snd (snd (save_rule demo_access_api (\<lambda>t. None) None now code r t))"
proof -
  have "map_res (validateCondition (\<lambda>s. s) (\<lambda>s. s)) [\<lparr>rc_field = ''path'', rc_op = ''prefix'', rc_values = [''/x'']\<rparr>]
      = Inr [\<lparr>rc_field = ''path'', rc_op = ''prefix'', rc_values = [''/x'']\<rparr>]" by code_simp
  moreover have "trim_space ''block x'' = ''block x''" "\<not> hasControlChar ''block x''" by code_simp+
  ultimately have "\<exists>r'. ValidateAccessRule (\<lambda>s. s) (\<lambda>s. s) r = Inr r'"
    using assms by (simp add: ValidateAccessRule_def maxAccessRuleName_def MaxRuleConditions_def)
  then show ?thesis
    by (auto simp: save_rule_def commit_then_def publish_then_def UpsertAccessRule_def exec_plain_def demo_access_api_def)
qed

lemma new_rule_last_witness:
  "ar_id (last (rule_order (fst (snd (handleCreateAccessRule demo_access_api (\<lambda>t. None) None None 7 ''1'' (Some []) [demo_rule])))))
     = ''r1''"
proof -
  let ?R = "handleCreateAccessRule demo_access_api (\<lambda>t. None) None None 7 ''1'' (Some []) [demo_rule]"
  have "snd (snd ?R)" using demo_saved [of "new_access_rule ''1'' 1 demo_body" 7 201 "[demo_rule]"]
    by (simp add: handleCreateAccessRule_def demo_read with_body_def with_result_def CountAccessRules_def query_def
        MaxAccessRules_def new_access_rule_def demo_access_values)
  then have r: "?R = (fst ?R, fst (snd ?R), True)" by (simp only: prod_eq_iff fst_conv snd_conv)
  have d: "ar_priority demo_rule < 1000 + 1" "''r'' @ ''1'' \<notin> ar_id ` set [demo_rule]" by (simp_all add: demo_rule_def)
  show ?thesis using new_rule_last [OF r demo_read _ d(2), THEN conjunct1] d(1) by (simp add: demo_access_values)
qed

definition demo_stored :: access_rule where
  "demo_stored = \<lparr>ar_id = ''r9'', ar_name = ''n'', ar_action = ''deny'', ar_priority = 7, ar_enabled = True, ar_siteID = ''s1'',
     ar_conditions = [\<lparr>rc_field = ''path'', rc_op = ''prefix'', rc_values = [''/y'']\<rparr>], ar_createdAt = 0, ar_updatedAt = 0\<rparr>"

lemma access_edit_exact_witness:
  "\<exists>new. find_row ar_id ''r9'' (fst (snd (handleUpdateAccessRule demo_access_api (\<lambda>t. None) None None 8 ''r9'' (Some []) [demo_stored])))
      = Some new \<and> ar_enabled new \<and> ar_siteID new = []"
proof -
  let ?R = "handleUpdateAccessRule demo_access_api (\<lambda>t. None) None None 8 ''r9'' (Some []) [demo_stored]"
  have g: "GetAccessRule None ''r9'' [demo_stored] = Inr demo_stored" by code_simp
  have "snd (snd ?R)" using demo_saved [of "edited_rule demo_stored demo_body" 8 200 "[demo_stored]"]
    by (simp add: handleUpdateAccessRule_def demo_read with_body_def with_result_def g edited_rule_def demo_access_values)
  then have r: "?R = (fst ?R, fst (snd ?R), True)" by (simp only: prod_eq_iff fst_conv snd_conv)
  have f: "find_row ar_id ''r9'' [demo_stored] = Some demo_stored" by code_simp
  have ok: "access_table_ok [demo_stored]"
    by (simp add: access_table_ok_def unique_by_def access_ok_def demo_stored_def condition_ok_def conditionOps_def no_break_def)
  have t: "trim_space [] = []" by code_simp
  show ?thesis using access_edit_exact [OF r demo_read f ok] by (auto simp: demo_stored_def demo_access_values t)
qed

end
