(* ===== verification/ApiSettings.thy ===== *)
theory ApiSettings
  imports ApiPublish StoreSettings StoreIps
begin

section \<open>The API: settings and address lists\<close>

text \<open>
  The settings and address handlers of \<open>control/internal/api/handlers.go\<close>. Reading the settings can
  store the defaults, so these handlers take two errors for it; what the publisher takes from the
  table is what \<open>GetSettings\<close> reads (\<open>effective\<close>), and the rows of the address lists.
\<close>

definition handleGetSettings :: "string option \<Rightarrow> string option \<Rightarrow> settings_row list \<Rightarrow> settings reply \<times> settings_row list" where
  "handleGetSettings db1 db2 t = (case GetSettings db1 db2 t of
     ((st, Some e), t') \<Rightarrow> (writeStoreErr 500 e, t') | ((st, None), t') \<Rightarrow> (writeJSON 200 st, t'))"

text \<open>\<open>cur, err := s.db.GetSettings(..)\<close>, a 500 on an error; the rest works on the table it left.\<close>

definition with_settings ::
  "string option \<Rightarrow> string option \<Rightarrow> settings_row list \<Rightarrow> (settings \<Rightarrow> settings_row list \<Rightarrow> ('a, settings_row list) outcome) \<Rightarrow>
   ('a, settings_row list) outcome" where
  "with_settings db1 db2 t k = (case GetSettings db1 db2 t of
     ((cur, Some e), t') \<Rightarrow> refuse (writeStoreErr 500 e) t' | ((cur, None), t') \<Rightarrow> k cur t')"

definition handleUpdateSettings ::
  "api_env \<Rightarrow> (settings_row list \<Rightarrow> string option) \<Rightarrow> string option \<Rightarrow> string option \<Rightarrow> string option \<Rightarrow> string option \<Rightarrow>
   settings_row list \<Rightarrow> (settings, settings_row list) outcome" where
  "handleUpdateSettings V pub db1 db2 db3 body t =
     with_settings db1 db2 t (\<lambda>cur t.
     with_body (readJSON (en_json V) (en_jerr V) (\<lambda>j. overlay_settings j cur) body) t (\<lambda>b.
     with_result (writeStoreErr 400) (ValidateSettings (en_upper V) b) t (\<lambda>b'.
       commit_then pub (writeStoreErr 500) 200 b' (SaveSettings db3 b' t))))"

definition over_enabled_flag :: "(string \<times> json) list \<Rightarrow> bool \<Rightarrow> bool option" where
  "over_enabled_flag kvs b = over_bool kvs ''enabled'' b"

definition handleUnderAttack ::
  "api_env \<Rightarrow> (settings_row list \<Rightarrow> string option) \<Rightarrow> string option \<Rightarrow> string option \<Rightarrow> string option \<Rightarrow> string option \<Rightarrow>
   settings_row list \<Rightarrow> (bool, settings_row list) outcome" where
  "handleUnderAttack V pub db1 db2 db3 body t =
     with_body (read_over V over_enabled_flag False body) t (\<lambda>enabled.
     with_settings db1 db2 t (\<lambda>cur t.
       commit_then pub (writeStoreErr 500) 200 enabled (SaveSettings db3 (cur\<lparr>st_underAttack := enabled\<rparr>) t)))"

definition handlePublish :: "('t \<Rightarrow> string option) \<Rightarrow> int \<Rightarrow> 't \<Rightarrow> (int, 't) outcome" where
  "handlePublish pub version t = publish_then pub 200 version t"

subsection \<open>Address lists\<close>

definition handleListIPs :: "string option \<Rightarrow> int \<Rightarrow> string \<Rightarrow> ip_table \<Rightarrow> ip_entry list reply" where
  "handleListIPs db now kind t = (case ListIPs db now kind t of Inl e \<Rightarrow> writeStoreErr 500 e | Inr l \<Rightarrow> writeJSON 200 l)"

record ip_request =
  iq_cidr :: string
  iq_kind :: string
  iq_reason :: string
  iq_minutes :: int

definition zero_ip_request :: ip_request where
  "zero_ip_request = \<lparr>iq_cidr = [], iq_kind = [], iq_reason = [], iq_minutes = 0\<rparr>"

definition over_ip_request :: "(string \<times> json) list \<Rightarrow> ip_request \<Rightarrow> ip_request option" where
  "over_ip_request kvs = decode_steps
     [put_field over_string ''cidr'' iq_cidr iq_cidr_update kvs,
      put_field over_string ''kind'' iq_kind iq_kind_update kvs,
      put_field over_string ''reason'' iq_reason iq_reason_update kvs,
      put_field over_int ''minutes'' iq_minutes iq_minutes_update kvs]"

text \<open>\<open>time.Duration(req.Minutes)*time.Minute\<close>: the product of two 64-bit numbers.\<close>

definition minutes_duration :: "int \<Rightarrow> int" where
  "minutes_duration m = wrap64 (m * 60000000000)"

definition handleAddIP ::
  "api_env \<Rightarrow> (ip_table \<Rightarrow> string option) \<Rightarrow> string option \<Rightarrow> int \<Rightarrow> string option \<Rightarrow> ip_table \<Rightarrow> (ip_entry, ip_table) outcome" where
  "handleAddIP V pub db now body t =
     with_body (read_over V over_ip_request zero_ip_request body) t (\<lambda>req.
       case AddIP db now (iq_cidr req) (iq_kind req) (iq_reason req) (minutes_duration (iq_minutes req)) t of
         (Inl e, t') \<Rightarrow> refuse (writeStoreErr 400 e) t'
       | (Inr entry, t') \<Rightarrow> publish_then pub 201 entry t')"

definition handleDeleteIP ::
  "(ip_table \<Rightarrow> string option) \<Rightarrow> string option \<Rightarrow> string \<Rightarrow> ip_table \<Rightarrow> (string, ip_table) outcome" where
  "handleDeleteIP pub db rawid t =
     (case atoi rawid of
        None \<Rightarrow> refuse (writeErr 400 ''invalid id'') t
      | Some i \<Rightarrow> commit_then pub (not_found_or_500 ''not found'') 200 ''deleted'' (DeleteIP db i t))"

subsection \<open>Every change keeps the contract\<close>

definition effective :: "settings_row list \<Rightarrow> settings \<times> store_error option" where
  "effective t = fst (GetSettings None None t)"

lemma default_int64: "settings_int64 DefaultSettings"
  by (simp add: settings_int64_def int64_def DefaultSettings_def)

lemma saved_find: "SaveSettings None st t = (Inr u, t') \<Longrightarrow> find_row fst settingsKey t' = Some (settingsKey, settings_json st)"
  using settings.upsert_find_same [of "(settingsKey, settings_json st)" t] find_row_Some [of fst settingsKey t]
  by (cases "find_row fst settingsKey t") (auto simp: SaveSettings_def exec_plain_def)

lemma save_fails: "SaveSettings db st t = (Inl e, t') \<Longrightarrow> t' = t"
  by (auto simp: SaveSettings_def dest: exec_plain_fails)

lemma effective_saved: "SaveSettings db st t = (Inr u, t') \<Longrightarrow> settings_int64 st \<Longrightarrow> effective t' = (st, None)"
  using saved_find [of st t u t']
  by (cases db) (auto simp: effective_def GetSettings_def overlay_settings_json SaveSettings_def exec_plain_def)

text \<open>Reading the settings changes nothing the publisher sees.\<close>

lemma reading_keeps: "effective (snd (GetSettings db1 db2 t)) = effective t"
proof (cases "db1 = None \<and> find_row fst settingsKey t = None")
  case True
  obtain r t' where s: "SaveSettings db2 DefaultSettings t = (r, t')" by (rule prod.exhaust)
  have e: "effective t = (DefaultSettings, None)"
    using True by (simp add: effective_def GetSettings_def SaveSettings_def exec_plain_def)
  have "snd (GetSettings db1 db2 t) = t'" using True s by (simp add: GetSettings_def split: sum.split)
  then show ?thesis using s e effective_saved [of db2 DefaultSettings t _ t'] default_int64 save_fails [of db2 DefaultSettings t _ t']
    by (cases r) auto
qed (auto simp: GetSettings_def split: option.splits prod.splits sum.splits)

lemma lawful_settings [lawful_rules]:
  assumes "\<And>cur u. effective u = effective t \<Longrightarrow> lawful effective pub u (k cur u)"
  shows "lawful effective pub t (with_settings db1 db2 t k)"
proof -
  obtain cur e u where g: "GetSettings db1 db2 t = ((cur, e), u)" by (metis prod.collapse)
  then have u: "effective u = effective t" using reading_keeps [of db1 db2 t] by simp
  show ?thesis using assms [OF u, of cur] u
    by (cases e) (simp_all add: with_settings_def g lawful_def refuse_def split: prod.splits)
qed

interpretation update_settings: admin_change effective pub "handleUpdateSettings V pub db1 db2 db3 body"
  for pub V db1 db2 db3 body
  by (rule lawful_change, unfold handleUpdateSettings_def, intro lawful_rules lawful_commit) (auto dest: save_fails)

interpretation under_attack: admin_change effective pub "handleUnderAttack V pub db1 db2 db3 body" for pub V db1 db2 db3 body
  by (rule lawful_change, unfold handleUnderAttack_def, intro lawful_rules lawful_commit) (auto dest: save_fails)

interpretation republish: admin_change "\<lambda>t. t" pub "handlePublish pub version" for pub :: "'t \<Rightarrow> string option" and version
  by (rule lawful_change) (unfold handlePublish_def, rule lawful_publish)

lemma AddIP_fails: "AddIP db now cidr kind reason ttl t = (Inl e, t') \<Longrightarrow> t' = t"
  by (auto simp: AddIP_def Let_def split: sum.splits if_splits option.splits)

interpretation add_ip: admin_change ipt_rows pub "handleAddIP V pub db now body" for pub V db now body
proof (rule lawful_change)
  fix t
  have "lawful ipt_rows pub t (case AddIP db now (iq_cidr req) (iq_kind req) (iq_reason req) (minutes_duration (iq_minutes req)) t of
         (Inl e, t') \<Rightarrow> refuse (writeStoreErr 400 e) t' | (Inr entry, t') \<Rightarrow> publish_then pub 201 entry t')" for req
    by (auto intro: lawful_publish lawful_refuse dest: AddIP_fails split: prod.split sum.split)
  then show "lawful ipt_rows pub t (handleAddIP V pub db now body t)" unfolding handleAddIP_def by (intro lawful_rules)
qed

interpretation delete_ip: admin_change ipt_rows pub "handleDeleteIP pub db rawid" for pub db rawid
proof (rule lawful_change)
  fix t
  have "lawful ipt_rows pub t (commit_then pub (not_found_or_500 ''not found'') 200 ''deleted'' (DeleteIP db i t))" for i
    by (intro lawful_commit not_found_code)
      (auto simp: DeleteIP_def dest!: exec_affected_fails intro: delete_rows_zero split: prod.splits)
  then show "lawful ipt_rows pub t (handleDeleteIP pub db rawid t)"
    by (simp add: handleDeleteIP_def lawful_refuse split: option.split)
qed

subsection \<open>What a request changes\<close>

lemma digits_nonneg: "list_all is_digit s \<Longrightarrow> 0 \<le> digits_value s"
proof -
  have "0 \<le> a \<Longrightarrow> list_all is_digit s \<Longrightarrow> 0 \<le> foldl (\<lambda>v c. v * 10 + (byte_of c - 48)) a s" for a :: int
    by (induction s arbitrary: a) (auto simp: is_digit_def byte_of_def)
  then show "list_all is_digit s \<Longrightarrow> 0 \<le> digits_value s" by (simp add: digits_value_def)
qed

lemma atoi_int64: "atoi s = Some i \<Longrightarrow> int64 i"
  using digits_nonneg [of "if has_prefix ''-'' s \<or> has_prefix ''+'' s then drop 1 s else s"]
  by (auto simp: atoi_def parse_int64_def int64_def Let_def split: if_splits)

lemma over_int64: "over_int kvs k d = Some i \<Longrightarrow> int64 d \<Longrightarrow> int64 i"
  by (cases "jfield k kvs") (auto simp: over_int_def dest: atoi_int64)

lemma overlay_int64: "overlay_settings j d = Some st \<Longrightarrow> settings_int64 d \<Longrightarrow> settings_int64 st"
  unfolding overlay_settings_def bind_eq_Some_conv
  by (elim exE conjE) (auto simp: settings_int64_def elim: over_int64)

lemma effective_int64: "settings_int64 (fst (effective t))"
  using default_int64 overlay_int64 [of _ DefaultSettings]
  by (auto simp: effective_def GetSettings_def SaveSettings_def exec_plain_def split: option.splits prod.splits)

lemma validated_int64: "ValidateSettings U st = Inr st' \<Longrightarrow> settings_int64 st \<Longrightarrow> settings_int64 st'"
proof -
  assume "ValidateSettings U st = Inr st'" and i: "settings_int64 st"
  then obtain ps where st': "st' = (settings_shape U st)\<lparr>st_trustedProxies := ps\<rparr>" using ValidateSettings_Inr by metis
  have "int64 (max a b)" if "int64 a" "int64 b" for a b using that by (auto simp: int64_def max_def)
  moreover have "int64 10" "int64 8" "int64 60" "int64 403" "int64 65536" "int64 7" by (simp_all add: int64_def)
  ultimately show ?thesis using i
    unfolding st' settings_int64_def settings_shape_def settings_limits_def settings_defaults_def Let_def by simp
qed

lemma with_settings_out:
  assumes "with_settings db1 db2 t k = (r, t', True)"
  shows "\<exists>cur u. effective t = (cur, None) \<and> effective u = effective t \<and> k cur u = (r, t', True)"
proof -
  obtain cur e u where g: "GetSettings db1 db2 t = ((cur, e), u)" by (metis prod.collapse)
  then have e: "e = None" and k: "k cur u = (r, t', True)"
    using assms by (auto simp: with_settings_def refuse_def split: option.splits)
  have "fst (GetSettings db1 db2 t) = effective t" if "snd (fst (GetSettings db1 db2 t)) = None"
    using that by (auto simp: effective_def GetSettings_def SaveSettings_def exec_plain_def split: option.splits prod.splits sum.splits)
  then have c: "effective t = (cur, None)" using g e by simp
  have "effective u = effective t" using reading_keeps [of db1 db2 t] g by simp
  with c k show ?thesis by blast
qed

lemma commit_then_out:
  "commit_then pub f code v res = (r, t', True) \<Longrightarrow> \<exists>u. res = (Inr u, t') \<and> (rp_code r < 400 \<longrightarrow> rp_body r = Inr v)"
  by (auto simp: commit_then_def refuse_def publish_then_def split: prod.splits sum.splits option.splits)

lemma update_settings_out:
  assumes "handleUpdateSettings V pub db1 db2 db3 (Some b) t = (r, t', True)"
  shows "\<exists>cur j st st'. effective t = (cur, None) \<and> en_json V (take 1048576 b) = Some j \<and> overlay_settings j cur = Some st
        \<and> ValidateSettings (en_upper V) st = Inr st' \<and> settings_valid st' \<and> effective t' = (st', None)
        \<and> (rp_code r < 400 \<longrightarrow> rp_body r = Inr st')"
proof -
  obtain cur u where c: "effective t = (cur, None)"
    and k: "with_body (readJSON (en_json V) (en_jerr V) (\<lambda>j. overlay_settings j cur) (Some b)) u (\<lambda>b.
     with_result (writeStoreErr 400) (ValidateSettings (en_upper V) b) u (\<lambda>b'.
       commit_then pub (writeStoreErr 500) 200 b' (SaveSettings db3 b' u))) = (r, t', True)"
    using with_settings_out [OF assms [unfolded handleUpdateSettings_def]] by blast
  obtain st where st: "readJSON (en_json V) (en_jerr V) (\<lambda>j. overlay_settings j cur) (Some b) = (Inr st :: settings reply + settings)"
    and k2: "with_result (writeStoreErr 400) (ValidateSettings (en_upper V) st) u (\<lambda>b'.
       commit_then pub (writeStoreErr 500) 200 b' (SaveSettings db3 b' u)) = (r, t', True)"
    using k by (auto simp: with_body_def refuse_def split: sum.splits)
  obtain st' where v: "ValidateSettings (en_upper V) st = Inr st'"
    and k3: "commit_then pub (writeStoreErr 500) 200 st' (SaveSettings db3 st' u) = (r, t', True)"
    using k2 by (auto simp: with_result_def refuse_def split: sum.splits)
  obtain x where s: "SaveSettings db3 st' u = (Inr x, t')" and rep: "rp_code r < 400 \<longrightarrow> rp_body r = Inr st'"
    using commit_then_out [OF k3] by blast
  obtain j where j: "en_json V (take 1048576 b) = Some j" "overlay_settings j cur = Some st"
    using st by (auto simp: readJSON_def Let_def split: option.splits)
  have "settings_int64 cur" using effective_int64 [of t] c by simp
  then have "settings_int64 st'" using overlay_int64 [OF j(2)] validated_int64 [OF v] by blast
  then show ?thesis using c j v rep effective_saved [OF s] ValidateSettings_ok [OF v] by blast
qed

lemma under_attack_out:
  assumes "handleUnderAttack V pub db1 db2 db3 body t = (r, t', True)"
  shows "\<exists>cur enabled. effective t = (cur, None) \<and> effective t' = (cur\<lparr>st_underAttack := enabled\<rparr>, None)
        \<and> (rp_code r < 400 \<longrightarrow> rp_body r = Inr enabled)"
proof -
  obtain enabled where w: "with_settings db1 db2 t (\<lambda>cur t.
       commit_then pub (writeStoreErr 500) 200 enabled (SaveSettings db3 (cur\<lparr>st_underAttack := enabled\<rparr>) t)) = (r, t', True)"
    using assms by (auto simp: handleUnderAttack_def with_body_def refuse_def split: sum.splits)
  obtain cur u where c: "effective t = (cur, None)"
    and k: "commit_then pub (writeStoreErr 500) 200 enabled (SaveSettings db3 (cur\<lparr>st_underAttack := enabled\<rparr>) u) = (r, t', True)"
    using with_settings_out [OF w] by blast
  obtain x where s: "SaveSettings db3 (cur\<lparr>st_underAttack := enabled\<rparr>) u = (Inr x, t')"
    and rep: "rp_code r < 400 \<longrightarrow> rp_body r = Inr enabled" using commit_then_out [OF k] by blast
  have "settings_int64 (cur\<lparr>st_underAttack := enabled\<rparr>)" using effective_int64 [of t] c by (simp add: settings_int64_def)
  then show ?thesis using c rep effective_saved [OF s] by blast
qed

text \<open>
  What a change of the settings stores. An accepted update stores the body laid over the settings
  in force, validated, and those are what the next reader and the publisher get; the switch for an
  attack changes that one setting and no other, in both directions, even when the stored settings
  would no longer pass validation.
\<close>

theorem settings_change_exact:
  assumes "handleUpdateSettings V pub db1 db2 db3 (Some b) t = (r, t', True)"
    and "handleUnderAttack V pub db4 db5 db6 body t' = (r2, t2, True)"
  shows "\<exists>cur j st st' enabled. effective t = (cur, None) \<and> en_json V (take 1048576 b) = Some j \<and> overlay_settings j cur = Some st
        \<and> ValidateSettings (en_upper V) st = Inr st' \<and> settings_valid st' \<and> effective t' = (st', None)
        \<and> (rp_code r < 400 \<longrightarrow> rp_body r = Inr st')
        \<and> effective t2 = (st'\<lparr>st_underAttack := enabled\<rparr>, None) \<and> (rp_code r2 < 400 \<longrightarrow> rp_body r2 = Inr enabled)"
proof -
  obtain cur j st st' where u: "effective t = (cur, None)" "en_json V (take 1048576 b) = Some j" "overlay_settings j cur = Some st"
      "ValidateSettings (en_upper V) st = Inr st'" "settings_valid st'" "effective t' = (st', None)"
      "rp_code r < 400 \<longrightarrow> rp_body r = Inr st'"
    using update_settings_out [OF assms(1)] by blast
  obtain enabled where "effective t2 = (st'\<lparr>st_underAttack := enabled\<rparr>, None)" "rp_code r2 < 400 \<longrightarrow> rp_body r2 = Inr enabled"
    using under_attack_out [OF assms(2)] u(6) by auto
  with u show ?thesis by blast
qed

lemma added_expiry:
  assumes "AddIP None now cidr kind reason ttl t = (Inr e, t')"
  shows "ip_expiresAt e = (if ttl > 0 then Some (now + ttl) else None)"
proof -
  obtain norm where n: "NormalizeCIDR cidr = Inr norm" using assms by (auto simp: AddIP_def split: sum.splits)
  define row where "row = \<lparr>ip_id = ipt_next t, ip_cidr = norm, ip_kind = kind, ip_reason = reason,
      ip_expiresAt = (if ttl > 0 then Some (now + ttl) else None), ip_createdAt = now\<rparr>"
  have k: "ip_key row = (norm, kind)" by (simp add: row_def ip_key_def)
  have "find_row ip_key (norm, kind) (upsert_row ip_key (\<lambda>e. e) ip_merge row (ipt_rows t)) = Some e"
    using assms n ips.upsert_find_same [of row "ipt_rows t", unfolded k]
    by (auto simp: AddIP_def Let_def row_def split: if_splits)
  then have "e = (case find_row ip_key (norm, kind) (ipt_rows t) of None \<Rightarrow> row | Some old \<Rightarrow> ip_merge old row)"
    using ips.upsert_find_same [of row "ipt_rows t", unfolded k] by simp
  then show ?thesis by (auto simp: ip_merge_def row_def split: option.split)
qed

text \<open>
  A ban by hand lasts as long as was asked for up to the largest number of minutes a duration can
  hold, is permanent for zero, but also for every negative number and for numbers that overflow.
\<close>

theorem ip_minutes_exact:
  assumes "AddIP None now cidr kind reason (minutes_duration m) t = (Inr e, t')" and "- (2 ^ 63) \<le> m" and "m < 2 ^ 63"
  shows "(m = 0 \<longrightarrow> ip_expiresAt e = None)
    \<and> (0 < m \<and> m \<le> 153722867 \<longrightarrow> ip_expiresAt e = Some (now + m * 60000000000))
    \<and> (- 153722867 \<le> m \<and> m < 0 \<longrightarrow> ip_expiresAt e = None)
    \<and> (m = 153722868 \<longrightarrow> ip_expiresAt e = None)"
proof -
  have "ip_expiresAt e = (if minutes_duration m > 0 then Some (now + minutes_duration m) else None)"
    using added_expiry [OF assms(1)] .
  moreover have "minutes_duration m = m * 60000000000" if "\<bar>m\<bar> \<le> 153722867"
    unfolding minutes_duration_def using that by (intro wrap64_id) auto
  moreover have "minutes_duration 153722868 \<le> 0" by (simp add: minutes_duration_def wrap64_def)
  ultimately show ?thesis by auto
qed

lemma ip_minutes_exact_witness:
  "fst (AddIP None 100 (v4_string 0xcb007109) ''black'' ''x'' (minutes_duration (- 5)) \<lparr>ipt_next = 1, ipt_rows = []\<rparr>) =
     Inr \<lparr>ip_id = 1, ip_cidr = v4_string 0xcb007109, ip_kind = ''black'', ip_reason = ''x'', ip_expiresAt = None, ip_createdAt = 100\<rparr>"
proof -
  let ?t = "\<lparr>ipt_next = 1, ipt_rows = []\<rparr>"
  obtain e t' where a: "AddIP None 100 (v4_string 0xcb007109) ''black'' ''x'' (minutes_duration (- 5)) ?t = (Inr e, t')"
      and e: "e\<lparr>ip_expiresAt := None\<rparr> =
        \<lparr>ip_id = 1, ip_cidr = v4_string 0xcb007109, ip_kind = ''black'', ip_reason = ''x'', ip_expiresAt = None, ip_createdAt = 100\<rparr>"
    by (simp add: AddIP_def NormalizeCIDR_v4 upsert_row_def find_row_def ip_key_def Let_def)
  have "ip_expiresAt e = None" using ip_minutes_exact [OF a] by simp
  then have "e = e\<lparr>ip_expiresAt := None\<rparr>" by simp
  then show ?thesis using a e by simp
qed

definition demo_settings_api :: api_env where
  "demo_settings_api = \<lparr>en_json = (\<lambda>b. Some (JObj [(''enabled'', JBool True)])), en_jerr = (\<lambda>b. []), en_lower = (\<lambda>s. s),
     en_upper = (\<lambda>s. s), en_time = atoi, en_duration = itoa\<rparr>"

lemma demo_overlay: "overlay_settings (JObj [(''enabled'', JBool True)]) DefaultSettings = Some DefaultSettings"
  by code_simp

lemma settings_change_exact_witness:
  "\<exists>st. effective (fst (snd (handleUnderAttack demo_settings_api (\<lambda>t. None) None None None (Some [])
      (fst (snd (handleUpdateSettings demo_settings_api (\<lambda>t. None) None None None (Some []) [])))))) = (st, None)
    \<and> settings_valid (st\<lparr>st_underAttack := False\<rparr>)"
proof -
  let ?U = "handleUpdateSettings demo_settings_api (\<lambda>t. None) None None None (Some []) []"
  let ?A = "handleUnderAttack demo_settings_api (\<lambda>t. None) None None None (Some []) (fst (snd ?U))"
  have v: "ValidateSettings (\<lambda>s. s) DefaultSettings = Inr DefaultSettings" by code_simp
  have up: "en_upper demo_settings_api = (\<lambda>s. s)" by (simp add: demo_settings_api_def)
  have rd: "readJSON (en_json demo_settings_api) (en_jerr demo_settings_api) (\<lambda>j. overlay_settings j DefaultSettings) (Some []) =
      Inr DefaultSettings"
    by (simp add: readJSON_def demo_settings_api_def demo_overlay)
  have g: "GetSettings None None [] = ((DefaultSettings, None), [(settingsKey, settings_json DefaultSettings)])"
    by (simp add: GetSettings_def find_row_def SaveSettings_def exec_plain_def upsert_row_def)
  have u: "?U = (writeJSON 200 DefaultSettings, [(settingsKey, settings_json DefaultSettings)], True)"
    by (simp add: handleUpdateSettings_def with_settings_def g with_body_def rd with_result_def up v commit_then_def
        publish_then_def SaveSettings_def exec_plain_def upsert_row_def)
  then have u': "?U = (writeJSON 200 DefaultSettings, fst (snd ?U), True)" by simp
  have ra: "read_over demo_settings_api over_enabled_flag False (Some []) = Inr True"
    by (simp add: read_over_def readJSON_def decode_struct_def demo_settings_api_def over_enabled_flag_def over_bool_def jfield_def)
  have g2: "GetSettings None None [(settingsKey, settings_json DefaultSettings)] =
      ((DefaultSettings, None), [(settingsKey, settings_json DefaultSettings)])"
    by (simp add: GetSettings_def find_row_def overlay_settings_json default_int64)
  have "snd (snd ?A)"
    by (simp add: u handleUnderAttack_def with_body_def ra with_settings_def g2 commit_then_def publish_then_def
        SaveSettings_def exec_plain_def)
  then have a: "?A = (fst ?A, fst (snd ?A), True)" by (simp only: prod_eq_iff fst_conv snd_conv)
  show ?thesis using settings_change_exact [OF u' a] by (fastforce simp: settings_valid_def)
qed

end
