(* ===== verification/ApiSiteUsers.thy ===== *)
theory ApiSiteUsers
  imports ApiPublish StoreSites StoreSiteUsers
begin

section \<open>The API: accounts behind a login gate\<close>

text \<open>
  \<open>control/internal/api/siteusers.go\<close> over \<open>StoreSiteUsers\<close>. \<open>site\<close> and \<open>raw\<close> are the two path values
  of the request; \<open>hash\<close> is bcrypt. What the publisher takes from the table is its rows.
\<close>

text \<open>\<open>siteUserID\<close>: the account of the path, if it is one of the site of the path.\<close>

definition siteUserID :: "string option \<Rightarrow> string \<Rightarrow> string \<Rightarrow> su_table \<Rightarrow> 'a reply + site_user" where
  "siteUserID db site raw t =
     (case atoi raw of
        None \<Rightarrow> Inl (writeErr 400 ''invalid account id'')
      | Some i \<Rightarrow> (case ListSiteUsers db site t of
                    Inl e \<Rightarrow> Inl (writeStoreErr 500 e)
                  | Inr users \<Rightarrow> (case find (\<lambda>u. su_id u = i) users of
                                   None \<Rightarrow> Inl (writeErr 404 ''no such account on this site'') | Some u \<Rightarrow> Inr u)))"

definition handleListSiteUsers :: "string option \<Rightarrow> string \<Rightarrow> su_table \<Rightarrow> site_user list reply" where
  "handleListSiteUsers db site t = (case ListSiteUsers db site t of
     Inl e \<Rightarrow> writeStoreErr 500 e | Inr users \<Rightarrow> writeJSON 200 users)"

record account_request =
  aq_username :: string
  aq_password :: string

definition over_account :: "(string \<times> json) list \<Rightarrow> account_request \<Rightarrow> account_request option" where
  "over_account kvs = decode_steps
     [put_field over_string ''username'' aq_username aq_username_update kvs,
      put_field over_string ''password'' aq_password aq_password_update kvs]"

definition zero_account :: account_request where
  "zero_account = \<lparr>aq_username = [], aq_password = []\<rparr>"

definition handleCreateSiteUser ::
  "api_env \<Rightarrow> (string \<Rightarrow> string result) \<Rightarrow> (su_table \<Rightarrow> string option) \<Rightarrow> string option \<Rightarrow> string option \<Rightarrow> int \<Rightarrow> site list \<Rightarrow>
   string \<Rightarrow> string option \<Rightarrow> su_table \<Rightarrow> (site_user, su_table) outcome" where
  "handleCreateSiteUser V hash pub db1 db2 now sites site body t =
     with_result (\<lambda>e. writeErr 404 ''no such site'') (GetSite (en_lower V) (en_upper V) db1 site sites) t (\<lambda>s.
     with_body (read_over V over_account zero_account body) t (\<lambda>b.
     with_result (writeStoreErr 400) (ValidateSiteUser (aq_username b) (aq_password b)) t (\<lambda>name.
       case CreateSiteUser hash db2 now site (aq_username b) (aq_password b) t of
         (Inl e, t') \<Rightarrow> refuse (writeStoreErr 400 e) t'
       | (Inr u, t') \<Rightarrow> publish_then pub 201 u t')))"

definition over_password :: "(string \<times> json) list \<Rightarrow> string \<Rightarrow> string option" where
  "over_password kvs p = over_string kvs ''password'' p"

text \<open>A refused statement: a 404 for a vanished account, a 400 for anything else.\<close>

definition password_error :: "store_error \<Rightarrow> 'a reply" where
  "password_error e = (if e = ErrNotFound then writeErr 404 ''no such account'' else writeStoreErr 400 e)"

definition handleSetSiteUserPassword ::
  "api_env \<Rightarrow> (string \<Rightarrow> string result) \<Rightarrow> (su_table \<Rightarrow> string option) \<Rightarrow> string option \<Rightarrow> string option \<Rightarrow> string \<Rightarrow>
   string \<Rightarrow> string option \<Rightarrow> su_table \<Rightarrow> (unit, su_table) outcome" where
  "handleSetSiteUserPassword V hash pub db1 db2 site raw body t =
     with_body (siteUserID db1 site raw t) t (\<lambda>u.
     with_body (read_over V over_password [] body) t (\<lambda>p.
       commit_then pub password_error 200 () (SetSiteUserPassword hash db2 (su_id u) p t)))"

definition handleRevokeSiteUser ::
  "(su_table \<Rightarrow> string option) \<Rightarrow> string option \<Rightarrow> string option \<Rightarrow> string \<Rightarrow> string \<Rightarrow> su_table \<Rightarrow> (unit, su_table) outcome" where
  "handleRevokeSiteUser pub db1 db2 site raw t =
     with_body (siteUserID db1 site raw t) t (\<lambda>u.
       commit_then pub (writeStoreErr 500) 200 () (RevokeSiteUserSessions db2 (su_id u) t))"

definition handleDeleteSiteUser ::
  "(su_table \<Rightarrow> string option) \<Rightarrow> string option \<Rightarrow> string option \<Rightarrow> string \<Rightarrow> string \<Rightarrow> su_table \<Rightarrow> (unit, su_table) outcome" where
  "handleDeleteSiteUser pub db1 db2 site raw t =
     with_body (siteUserID db1 site raw t) t (\<lambda>u.
       commit_then pub (writeStoreErr 500) 200 () (DeleteSiteUser db2 (su_id u) t))"

subsection \<open>Every change keeps the contract\<close>

lemma siteUserID_code: "siteUserID db site raw t = Inl r \<Longrightarrow> 400 \<le> rp_code r"
  by (auto simp: siteUserID_def split: option.splits sum.splits)

lemma lawful_account [lawful_rules]:
  assumes "\<And>u. lawful view pub t (k u)"
  shows "lawful view pub t (with_body (siteUserID db site raw t) t k)"
  using assms siteUserID_code [of db site raw t]
  by (auto simp: with_body_def intro: lawful_refuse split: sum.split)

lemma rows_fail:
  "RevokeSiteUserSessions db i t = (Inl e, t') \<Longrightarrow> sut_rows t' = sut_rows t"
  "DeleteSiteUser db i t = (Inl e, t') \<Longrightarrow> sut_rows t' = sut_rows t"
  "SetSiteUserPassword hash db i p t = (Inl e, t') \<Longrightarrow> sut_rows t' = sut_rows t"
  "CreateSiteUser hash db now site name p t = (Inl e, t') \<Longrightarrow> sut_rows t' = sut_rows t"
  by (auto simp: RevokeSiteUserSessions_def DeleteSiteUser_def SetSiteUserPassword_def CreateSiteUser_def on_rows_def Let_def
      dest!: exec_affected_fails intro: update_rows_zero delete_rows_zero split: prod.splits sum.splits if_splits option.splits)

lemma password_code: "400 \<le> rp_code (password_error e)"
  by (simp add: password_error_def)

interpretation create_account: admin_change sut_rows pub "handleCreateSiteUser V hash pub db1 db2 now sites site body"
  for pub V hash db1 db2 now sites site body
proof (rule lawful_change)
  fix t
  have "lawful sut_rows pub t (case CreateSiteUser hash db2 now site (aq_username b) (aq_password b) t of
         (Inl e, t') \<Rightarrow> refuse (writeStoreErr 400 e) t' | (Inr u, t') \<Rightarrow> publish_then pub 201 u t')" for b
    by (auto intro: lawful_publish lawful_refuse dest: rows_fail split: prod.split sum.split)
  then show "lawful sut_rows pub t (handleCreateSiteUser V hash pub db1 db2 now sites site body t)"
    unfolding handleCreateSiteUser_def by (intro lawful_rules) simp_all
qed

interpretation set_password: admin_change sut_rows pub "handleSetSiteUserPassword V hash pub db1 db2 site raw body"
  for pub V hash db1 db2 site raw body
  by (rule lawful_change, unfold handleSetSiteUserPassword_def, intro lawful_rules lawful_commit password_code)
    (auto dest: rows_fail)

interpretation revoke_account: admin_change sut_rows pub "handleRevokeSiteUser pub db1 db2 site raw" for pub db1 db2 site raw
  by (rule lawful_change, unfold handleRevokeSiteUser_def, intro lawful_rules lawful_commit) (auto dest: rows_fail)

interpretation delete_account: admin_change sut_rows pub "handleDeleteSiteUser pub db1 db2 site raw" for pub db1 db2 site raw
  by (rule lawful_change, unfold handleDeleteSiteUser_def, intro lawful_rules lawful_commit) (auto dest: rows_fail)

subsection \<open>An account is managed on its own site only\<close>

lemma siteUserID_own:
  assumes "siteUserID db site raw t = Inr u"
  shows "\<exists>row \<in> set (sut_rows t). sr_id row = su_id u \<and> sr_siteID row = site"
proof -
  obtain i users where l: "ListSiteUsers db site t = Inr users" and f: "find (\<lambda>u. su_id u = i) users = Some u"
    using assms by (auto simp: siteUserID_def split: option.splits sum.splits)
  have "u \<in> set users" using f by (auto simp: find_Some_iff)
  then obtain row where "row \<in> set (sut_rows t)" "sr_siteID row = site" "u = site_user_of row"
    using l by (auto simp: ListSiteUsers_def query_def split: option.splits)
  then show ?thesis by (intro bexI [of _ row]) (simp_all add: site_user_of_def)
qed

text \<open>The rows of every other site.\<close>

definition elsewhere :: "string \<Rightarrow> su_table \<Rightarrow> su_row list" where
  "elsewhere site t = filter (\<lambda>r. sr_siteID r \<noteq> site) (sut_rows t)"

lemma other_site:
  assumes "unique_by sr_id (sut_rows t)" and "row \<in> set (sut_rows t)" and "sr_siteID row = site" and "r \<in> set (sut_rows t)"
    and "sr_id r = sr_id row"
  shows "sr_siteID r = site"
  using assms find_row_unique [of sr_id "sut_rows t"] by (metis option.inject)

lemma elsewhere_map:
  assumes "\<And>r. r \<in> set (sut_rows t) \<Longrightarrow> sr_id r = i \<Longrightarrow> sr_siteID r = site" and "\<And>r. sr_siteID (f r) = sr_siteID r"
  shows "filter (\<lambda>r. sr_siteID r \<noteq> site) (map (\<lambda>r. if sr_id r = i then f r else r) (sut_rows t)) = elsewhere site t"
proof -
  have "filter (\<lambda>r. sr_siteID r \<noteq> site) (map (\<lambda>r. if sr_id r = i then f r else r) rows) = filter (\<lambda>r. sr_siteID r \<noteq> site) rows"
    if "\<And>r. r \<in> set rows \<Longrightarrow> sr_id r = i \<Longrightarrow> sr_siteID r = site" for rows
    using that by (induction rows) (auto simp: assms(2))
  then show ?thesis using assms(1) by (simp add: elsewhere_def)
qed

lemma elsewhere_filter:
  assumes "\<And>r. r \<in> set (sut_rows t) \<Longrightarrow> sr_id r = i \<Longrightarrow> sr_siteID r = site"
  shows "filter (\<lambda>r. sr_siteID r \<noteq> site) (filter (\<lambda>r. sr_id r \<noteq> i) (sut_rows t)) = elsewhere site t"
  using assms by (auto simp: elsewhere_def intro!: filter_cong)

lemma on_rows_table: "snd (on_rows t res) = t\<lparr>sut_rows := snd res\<rparr>"
  by (simp add: on_rows_def split: prod.split)

lemma elsewhere_statement:
  assumes "\<And>r. r \<in> set (sut_rows t) \<Longrightarrow> sr_id r = i \<Longrightarrow> sr_siteID r = site" and "\<And>r. sr_siteID (f r) = sr_siteID r"
  shows "elsewhere site (snd (on_rows t (exec_affected db e (update_rows (\<lambda>r. sr_id r = i) f (sut_rows t)) (sut_rows t)))) = elsewhere site t"
    and "elsewhere site (snd (on_rows t (exec_affected db e (delete_rows (\<lambda>r. sr_id r = i) (sut_rows t)) (sut_rows t)))) = elsewhere site t"
  using elsewhere_map [OF assms] elsewhere_filter [OF assms(1)]
    affected_table [of db e "update_rows (\<lambda>r. sr_id r = i) f (sut_rows t)" "sut_rows t"]
    affected_table [of db e "delete_rows (\<lambda>r. sr_id r = i) (sut_rows t)" "sut_rows t"]
  by (auto simp: on_rows_table elsewhere_def update_rows_def delete_rows_def)

lemma account_elsewhere:
  assumes "unique_by sr_id (sut_rows t)"
    and "\<And>u. (\<And>r. r \<in> set (sut_rows t) \<Longrightarrow> sr_id r = su_id u \<Longrightarrow> sr_siteID r = site) \<Longrightarrow> elsewhere site (fst (snd (k u))) = elsewhere site t"
  shows "elsewhere site (fst (snd (with_body (siteUserID db site raw t) t k))) = elsewhere site t"
proof (cases "siteUserID db site raw t :: 'a reply + site_user")
  case (Inr u)
  have "sr_siteID r = site" if "r \<in> set (sut_rows t)" "sr_id r = su_id u" for r
    using siteUserID_own [OF Inr] other_site [OF assms(1) _ _ that(1)] that(2) by metis
  then show ?thesis using assms(2) Inr by (simp add: with_body_def)
qed (simp add: with_body_def refuse_def)

text \<open>
  A request about an account changes accounts of the site in its path and of no other. Naming, in
  a site's path, the id of an account of another site is answered like an id that does not exist,
  and changes nothing at all.
\<close>

theorem account_requests_stay_on_site:
  assumes "unique_by sr_id (sut_rows t)"
  shows "elsewhere site (fst (snd (handleCreateSiteUser V hash pub db1 db2 now sites site body t))) = elsewhere site t
    \<and> elsewhere site (fst (snd (handleSetSiteUserPassword V hash pub db1 db2 site raw body t))) = elsewhere site t
    \<and> elsewhere site (fst (snd (handleRevokeSiteUser pub db1 db2 site raw t))) = elsewhere site t
    \<and> elsewhere site (fst (snd (handleDeleteSiteUser pub db1 db2 site raw t))) = elsewhere site t
    \<and> (atoi raw = Some i \<and> (\<forall>r \<in> set (sut_rows t). sr_id r = i \<longrightarrow> sr_siteID r \<noteq> site) \<longrightarrow>
         handleDeleteSiteUser pub None db2 site raw t = (writeErr 404 ''no such account on this site'', t, False))"
proof (intro conjI impI)
  show "elsewhere site (fst (snd (handleCreateSiteUser V hash pub db1 db2 now sites site body t))) = elsewhere site t"
    by (auto simp: handleCreateSiteUser_def with_result_def with_body_def refuse_def publish_then_def CreateSiteUser_def Let_def
        elsewhere_def split: sum.splits option.splits prod.splits)
  show "elsewhere site (fst (snd (handleSetSiteUserPassword V hash pub db1 db2 site raw body t))) = elsewhere site t"
    unfolding handleSetSiteUserPassword_def
    by (rule account_elsewhere [OF assms], simp add: with_body_def refuse_def commit_table SetSiteUserPassword_def
        elsewhere_statement split: sum.split)
  show "elsewhere site (fst (snd (handleRevokeSiteUser pub db1 db2 site raw t))) = elsewhere site t"
    unfolding handleRevokeSiteUser_def
    by (rule account_elsewhere [OF assms], simp add: commit_table RevokeSiteUserSessions_def elsewhere_statement)
  show "elsewhere site (fst (snd (handleDeleteSiteUser pub db1 db2 site raw t))) = elsewhere site t"
    unfolding handleDeleteSiteUser_def
    by (rule account_elsewhere [OF assms], simp add: commit_table DeleteSiteUser_def elsewhere_statement(2) [where f = "\<lambda>r. r"])
  assume a: "atoi raw = Some i \<and> (\<forall>r \<in> set (sut_rows t). sr_id r = i \<longrightarrow> sr_siteID r \<noteq> site)"
  then have "find (\<lambda>u. su_id u = i) (map site_user_of (order_by sr_username (filter (\<lambda>r. sr_siteID r = site) (sut_rows t)))) = None"
    by (auto simp: find_None_iff site_user_of_def)
  then show "handleDeleteSiteUser pub None db2 site raw t = (writeErr 404 ''no such account on this site'', t, False)"
    using a by (simp add: handleDeleteSiteUser_def siteUserID_def ListSiteUsers_def query_def with_body_def refuse_def)
qed

lemma account_requests_stay_on_site_witness:
  "elsewhere ''s1'' (fst (snd (handleDeleteSiteUser (\<lambda>t. None) None None ''s1'' ''1'' \<lparr>sut_next = 3, sut_rows =
     [\<lparr>sr_id = 1, sr_siteID = ''s1'', sr_username = ''a'', sr_hash = [], sr_generation = 1, sr_createdAt = 0\<rparr>,
      \<lparr>sr_id = 2, sr_siteID = ''s2'', sr_username = ''b'', sr_hash = [], sr_generation = 1, sr_createdAt = 0\<rparr>]\<rparr>)))
   = [\<lparr>sr_id = 2, sr_siteID = ''s2'', sr_username = ''b'', sr_hash = [], sr_generation = 1, sr_createdAt = 0\<rparr>]"
  by (subst account_requests_stay_on_site [THEN conjunct2, THEN conjunct2, THEN conjunct2, THEN conjunct1])
    (simp_all add: unique_by_def elsewhere_def)

end
