(* ===== verification/ApiStats.thy ===== *)
theory ApiStats
  imports ApiHttp StoreEvents StoreSites StoreSettings
begin

section \<open>The API: events and statistics\<close>

text \<open>
  The reading handlers of \<open>control/internal/api/handlers.go\<close> behind the dashboard's overview, its
  charts and the attack log. The percentages and the request rate are computed in \<open>float64\<close> and
  rounded to one and two decimals; here they are the exact quotients, rounded, in tenths and
  hundredths. \<open>pfcount\<close> is Redis: the size of the union of some sketches, 0 on an error.
\<close>

subsection \<open>The window\<close>

definition minHours :: int where "minHours = 1"
definition maxHours :: int where "maxHours = 168"

definition clampHours :: "int \<Rightarrow> int" where
  "clampHours h = (if h < minHours then minHours else if h > maxHours then maxHours else h)"

text \<open>\<open>-time.Duration(h) * time.Hour\<close>, in 64 bits.\<close>

definition hours_back :: "int \<Rightarrow> int" where
  "hours_back h = wrap64 (wrap64 (- h) * 3600000000000)"

definition hour_keys :: "string \<Rightarrow> int \<Rightarrow> int \<Rightarrow> string list" where
  "hour_keys name now_secs hours =
     map (\<lambda>h. name @ itoa ((now_secs - int h * 3600) div 3600 * 3600)) [0..<nat (hours + 1)]"

definition uniqueCounts :: "(string list \<Rightarrow> int) option \<Rightarrow> int \<Rightarrow> int \<Rightarrow> int \<times> int" where
  "uniqueCounts rdb now hours =
     (case rdb of
        None \<Rightarrow> (0, 0)
      | Some pfcount \<Rightarrow> (pfcount (hour_keys ''moswaf:uip:'' (now div 1000000000) hours),
                         pfcount (hour_keys ''moswaf:uv:'' (now div 1000000000) hours)))"

text \<open>Half away from zero, for a quotient that is not negative.\<close>

definition round_div :: "int \<Rightarrow> int \<Rightarrow> int" where
  "round_div a b = (2 * a + b) div (2 * b)"

definition rate :: "int \<Rightarrow> int \<Rightarrow> int" where
  "rate part whole = (if whole \<le> 0 then 0 else round_div (part * 1000) whole)"

definition perSecond :: "int \<Rightarrow> int \<Rightarrow> int" where
  "perSecond cnt seconds = (if seconds \<le> 0 \<or> cnt \<le> 0 then 0 else round_div (cnt * 100) seconds)"

subsection \<open>The handlers\<close>

record event_query =
  eq_site :: string
  eq_ip :: string
  eq_action :: string
  eq_severity :: string
  eq_q :: string
  eq_limit :: string
  eq_offset :: string
  eq_hours :: string

definition query_filter :: "int \<Rightarrow> event_query \<Rightarrow> event_filter" where
  "query_filter now q =
     (let h = queryInt (eq_hours q) 0
      in \<lparr>ef_site = eq_site q, ef_ip = eq_ip q, ef_action = eq_action q, ef_severity = eq_severity q, ef_search = eq_q q,
          ef_from = (if h > 0 then Some (now + hours_back h) else None), ef_to = None,
          ef_limit = queryInt (eq_limit q) 50, ef_offset = queryInt (eq_offset q) 0\<rparr>)"

record event_page =
  ep_items :: "event list"
  ep_total :: int
  ep_limit :: int
  ep_offset :: int

definition handleListEvents where
  "handleListEvents db1 db2 sat now q t =
     (let f = query_filter now q
      in case ListEvents db1 db2 sat f t of
           Inl e \<Rightarrow> writeStoreErr 500 e
         | Inr (events, n) \<Rightarrow>
             writeJSON 200 \<lparr>ep_items = events, ep_total = n, ep_limit = ef_limit f, ep_offset = ef_offset f\<rparr>)"

record overview =
  ov_hours :: int
  ov_totals :: stat_point
  ov_visitors :: int
  ov_unique_ips :: int
  ov_blocked_rate :: int
  ov_rate_4xx :: int
  ov_rate_5xx :: int
  ov_qps :: int
  ov_events :: "(string \<times> int) list"
  ov_attackers :: "bucket list"
  ov_rules :: "bucket list"
  ov_countries :: "bucket list"
  ov_sites_total :: int
  ov_sites_active :: int
  ov_under_attack :: bool
  ov_version :: int

text \<open>The errors of the seven reads, in the order they are made (the settings may also be stored).\<close>

record overview_dbs =
  od_totals :: "string option"
  od_actions :: "string option"
  od_attackers :: "string option"
  od_rules :: "string option"
  od_countries :: "string option"
  od_sites :: "string option"
  od_settings :: "string option"
  od_store :: "string option"

definition overview_of ::
  "(string list \<Rightarrow> int) option \<Rightarrow> int \<Rightarrow> int \<Rightarrow> int \<Rightarrow> stat_point \<Rightarrow> (string \<times> int) list \<Rightarrow> bucket list \<Rightarrow> bucket list \<Rightarrow>
   bucket list \<Rightarrow> site list \<Rightarrow> settings \<Rightarrow> overview" where
  "overview_of rdb version now hours totals acts attackers rules countries sites st =
     (case uniqueCounts rdb now hours of (ips, visitors) \<Rightarrow>
        \<lparr>ov_hours = hours, ov_totals = totals, ov_visitors = visitors, ov_unique_ips = ips,
         ov_blocked_rate = rate (sp_blocked totals) (sp_total totals),
         ov_rate_4xx = rate (sp_errors4xx totals) (sp_total totals),
         ov_rate_5xx = rate (sp_errors5xx totals) (sp_total totals),
         ov_qps = perSecond (sp_total totals) (hours * 3600), ov_events = acts, ov_attackers = attackers, ov_rules = rules,
         ov_countries = countries, ov_sites_total = int (length sites),
         ov_sites_active = int (length (filter (\<lambda>s. s_enabled s \<and> s_mode s \<noteq> ''off'') sites)),
         ov_under_attack = st_underAttack st, ov_version = version\<rparr>)"

definition handleOverview ::
  "(string \<Rightarrow> string) \<Rightarrow> (string \<Rightarrow> string) \<Rightarrow> (string list \<Rightarrow> int) option \<Rightarrow> int \<Rightarrow> overview_dbs \<Rightarrow> int \<Rightarrow> string \<Rightarrow>
   stat_point list \<Rightarrow> event_table \<Rightarrow> site list \<Rightarrow> settings_row list \<Rightarrow> overview reply" where
  "handleOverview L U rdb version d now raw stats evs sites settings =
     (let hours = clampHours (queryInt raw 24); since = now + hours_back hours;
          reads =
            bind_res (StatTotals (od_totals d) since stats) (\<lambda>totals.
            bind_res (CountEventsSince (od_actions d) since evs) (\<lambda>acts.
            bind_res (TopAttackers (od_attackers d) since 10 evs) (\<lambda>attackers.
            bind_res (TopRules (od_rules d) since 10 evs) (\<lambda>rules.
            bind_res (TopCountries (od_countries d) since 10 evs) (\<lambda>countries.
            bind_res (ListSites L U (od_sites d) sites) (\<lambda>ss.
              (case fst (GetSettings (od_settings d) (od_store d) settings) of
                 (st, Some e) \<Rightarrow> Inl e
               | (st, None) \<Rightarrow> Inr (overview_of rdb version now hours totals acts attackers rules countries ss st))))))))
      in case reads of Inl e \<Rightarrow> writeStoreErr 500 e | Inr ov \<Rightarrow> writeJSON 200 ov)"

definition handleTimeseries :: "string option \<Rightarrow> int \<Rightarrow> string \<Rightarrow> stat_point list \<Rightarrow> stat_point list reply" where
  "handleTimeseries db now raw stats =
     (case Timeseries db (now + hours_back (clampHours (queryInt raw 6))) stats of
        Inl e \<Rightarrow> writeStoreErr 500 e | Inr ps \<Rightarrow> writeJSON 200 ps)"

subsection \<open>The figures stay in range\<close>

lemma hours_back_clamped: "hours_back (clampHours h) = - (clampHours h * 3600000000000)"
  by (simp add: hours_back_def clampHours_def minHours_def maxHours_def wrap64_id)

lemma round_div_bounds: "0 < b \<Longrightarrow> 0 \<le> a \<Longrightarrow> a \<le> c * b \<Longrightarrow> 0 \<le> round_div a b \<and> round_div a b \<le> c"
proof -
  assume a: "0 < b" "0 \<le> a" "a \<le> c * b"
  have "(2 * a + b) div (2 * b) \<le> (2 * (c * b) + b) div (2 * b)" using a by (intro zdiv_mono1) auto
  also have "\<dots> = c" using a(1) by (intro int_div_pos_eq) (auto simp: algebra_simps)
  finally show ?thesis using a by (simp add: round_div_def pos_imp_zdiv_nonneg_iff)
qed

lemma dec_digits_head: "0 \<le> n \<Longrightarrow> hd (dec_digits n) \<noteq> CHR ''-''"
  using hd_dec_digits [of n] by (auto simp: is_digit_def byte_of_def)

lemma itoa_inject: "itoa a = itoa b \<Longrightarrow> a = b"
proof -
  assume e: "itoa a = itoa b"
  show "a = b"
  proof (cases "a < 0"; cases "b < 0")
    assume "a < 0" "b < 0"
    then have "dec_digits (- a) = dec_digits (- b)" using e by (simp add: itoa_def)
    then have "digits_value (dec_digits (- a)) = digits_value (dec_digits (- b))" by simp
    then show "a = b" using \<open>a < 0\<close> \<open>b < 0\<close> by simp
  next
    assume "\<not> a < 0" "\<not> b < 0"
    then have "digits_value (dec_digits a) = digits_value (dec_digits b)" using e by (simp add: itoa_def)
    then show "a = b" using \<open>\<not> a < 0\<close> \<open>\<not> b < 0\<close> by simp
  next
    assume "a < 0" "\<not> b < 0"
    then show "a = b" using e dec_digits_head [of b] by (cases "dec_digits b") (auto simp: itoa_def)
  next
    assume "\<not> a < 0" "b < 0"
    then show "a = b" using e dec_digits_head [of a] by (cases "dec_digits a") (auto simp: itoa_def)
  qed
qed

lemma hour_keys_distinct: "distinct (hour_keys name now hours)"
proof -
  have "inj_on (\<lambda>h. itoa ((now - int h * 3600) div 3600 * 3600)) A" for A
  proof (rule inj_onI)
    fix i j :: nat
    assume "itoa ((now - int i * 3600) div 3600 * 3600) = itoa ((now - int j * 3600) div 3600 * 3600)"
    then have "(now - int i * 3600) div 3600 = (now - int j * 3600) div 3600" by (auto dest: itoa_inject)
    moreover have "(now - int k * 3600) div 3600 = now div 3600 - int k" for k
      using div_mult_self1 [of 3600 now "- int k"] by simp
    ultimately show "i = j" by simp
  qed
  then show ?thesis by (auto simp: hour_keys_def distinct_map inj_on_def)
qed

text \<open>
  Whatever number of hours is asked for, the statistics cover between one hour and a week, the
  start of the window is exactly that long ago (no 64-bit wrap), and the union asked of Redis is over
  at most 169 distinct keys per sketch; percentages of counted traffic are percentages, and no traffic
  is 0, never a division by zero. The attack log has no such limit: three million hours back is in
  the future.
\<close>

theorem stats_window_bounded:
  "1 \<le> clampHours h \<and> clampHours h \<le> 168
   \<and> now + hours_back (clampHours h) = now - clampHours h * 3600000000000
   \<and> length (hour_keys name secs (clampHours h)) = nat (clampHours h + 1) \<and> nat (clampHours h + 1) \<le> 169
   \<and> distinct (hour_keys name secs (clampHours h))
   \<and> rate part 0 = 0 \<and> (whole \<le> 0 \<or> part < 0 \<or> part > whole \<or> 0 \<le> rate part whole \<and> rate part whole \<le> 1000)
   \<and> perSecond n 0 = 0 \<and> 0 \<le> perSecond n (clampHours h * 3600)
   \<and> now < now + hours_back 3000000"
proof -
  have c: "1 \<le> clampHours h \<and> clampHours h \<le> 168" by (simp add: clampHours_def minHours_def maxHours_def)
  have r: "0 \<le> rate part whole \<and> rate part whole \<le> 1000" if "\<not> whole \<le> 0" "\<not> part < 0" "\<not> part > whole"
    using round_div_bounds [of whole "part * 1000" 1000] that by (simp add: rate_def)
  have p: "0 \<le> perSecond n s" for s
    using pos_imp_zdiv_nonneg_iff [of "2 * s" "2 * (n * 100) + s"] by (simp add: perSecond_def round_div_def)
  have "hours_back 3000000 = 7646744073709551616" by (simp add: hours_back_def wrap64_def)
  moreover have "length (hour_keys name secs (clampHours h)) = nat (clampHours h + 1)" by (simp add: hour_keys_def)
  moreover have "nat (clampHours h + 1) \<le> 169" using c by linarith
  moreover have "rate part 0 = 0" "perSecond n 0 = 0" by (simp_all add: rate_def perSecond_def)
  moreover have "whole \<le> 0 \<or> part < 0 \<or> part > whole \<or> 0 \<le> rate part whole \<and> rate part whole \<le> 1000" using r by blast
  ultimately show ?thesis using c p [of "clampHours h * 3600"] hour_keys_distinct
    by (simp add: hours_back_clamped)
qed

end
