(* ===== verification/ApiDataplane.thy ===== *)
theory ApiDataplane
  imports ApiHttp
begin

section \<open>The API: questions the data plane answers\<close>

text \<open>
  \<open>control/internal/api/bans.go\<close> and \<open>handleTestAccessRules\<close> of \<open>accessrules.go\<close>: requests passed on
  to the data plane's internal API, whose answer is passed back. \<open>dp\<close> is that API: what becomes of a
  request, given its method, URL, token and body; a body that breaks off has its status and what came. \<open>sync\<close> is the configured address of its
  synchronisation endpoint.
\<close>

datatype dp_answer =
    BadRequest string
  | NoAnswer string
  | BrokenBody int string string
  | Answered int string

record dp_request =
  dq_method :: string
  dq_url :: string
  dq_token :: "string option"
  dq_body :: string

text \<open>The answer as it is: status and body, the body cut at a megabyte.\<close>

definition pass_back :: "int \<Rightarrow> string \<Rightarrow> string reply" where
  "pass_back code body = writeJSON code (take 1048576 body)"

text \<open>\<open>strings.Replace(s, old, new, 1)\<close>.\<close>

fun replace_first :: "string \<Rightarrow> string \<Rightarrow> string \<Rightarrow> string" where
  "replace_first old new [] = (if old = [] then new else [])"
| "replace_first old new (c # s) =
     (if has_prefix old (c # s) then new @ drop (length old) (c # s) else c # replace_first old new s)"

definition dataplaneURL :: "string \<Rightarrow> string \<Rightarrow> string" where
  "dataplaneURL sync path = replace_first ''/sync'' path sync"

definition callDataplane :: "(dp_request \<Rightarrow> dp_answer) \<Rightarrow> string \<Rightarrow> string \<Rightarrow> string reply" where
  "callDataplane dp token target =
     (case dp \<lparr>dq_method = ''GET'', dq_url = target, dq_token = (if token = [] then None else Some token), dq_body = []\<rparr> of
        BadRequest e \<Rightarrow> writeErr 500 e
      | NoAnswer e \<Rightarrow> writeErr 502 (''cannot reach the data plane: '' @ e)
      | BrokenBody code e part \<Rightarrow> writeErr 502 (''failed to read the response: '' @ e)
      | Answered code body \<Rightarrow> pass_back code body)"

text \<open>\<open>url.QueryEscape\<close>.\<close>

definition hex_upper :: "int \<Rightarrow> char" where
  "hex_upper d = char_of (if d < 10 then 48 + d else 55 + d)"

definition unreserved :: "char \<Rightarrow> bool" where
  "unreserved c \<longleftrightarrow> is_digit c \<or> is_upper c \<or> is_lower c \<or> c \<in> {CHR ''-'', CHR ''_'', CHR ''.'', CHR ''~''}"

definition escape_char :: "char \<Rightarrow> string" where
  "escape_char c = (if unreserved c then [c] else if c = CHR '' '' then ''+''
     else [CHR ''%'', hex_upper (byte_of c div 16), hex_upper (byte_of c mod 16)])"

definition query_escape :: "string \<Rightarrow> string" where
  "query_escape s = concat (map escape_char s)"

definition handleListBans :: "(dp_request \<Rightarrow> dp_answer) \<Rightarrow> string \<Rightarrow> string \<Rightarrow> string reply" where
  "handleListBans dp token sync = callDataplane dp token (dataplaneURL sync ''/bans'')"

definition handleUnban :: "(dp_request \<Rightarrow> dp_answer) \<Rightarrow> string \<Rightarrow> string \<Rightarrow> string \<Rightarrow> string reply" where
  "handleUnban dp token sync ip =
     (if ip = [] then writeErr 400 ''missing IP address''
      else callDataplane dp token (dataplaneURL sync ''/unban'' @ ''?ip='' @ query_escape ip))"

text \<open>
  \<open>handleTestAccessRules\<close>: the body has to be a JSON object (or null), and goes on as it came. A body
  that cannot be read is \<open>None\<close>; a body of the answer that cannot be read counts as far as it came.
\<close>

definition handleTestAccessRules ::
  "(string \<Rightarrow> json option) \<Rightarrow> (dp_request \<Rightarrow> dp_answer) \<Rightarrow> string \<Rightarrow> string \<Rightarrow> string option \<Rightarrow> string reply" where
  "handleTestAccessRules P dp token sync body =
     (case body of
        None \<Rightarrow> writeErr 400 ''could not read the request''
      | Some b0 \<Rightarrow>
          (let b = take 65536 b0
           in case Option.bind (P b) as_struct of
                None \<Rightarrow> writeErr 400 ''invalid JSON''
              | Some sample \<Rightarrow>
                  (case dp \<lparr>dq_method = ''POST'', dq_url = trim_suffix ''/sync'' sync @ ''/rule-test'',
                            dq_token = Some token, dq_body = b\<rparr> of
                     BadRequest e \<Rightarrow> writeErr 500 e
                   | NoAnswer e \<Rightarrow> writeErr 503 (''could not reach the firewall to run the test: '' @ e)
                   | BrokenBody code e out \<Rightarrow> pass_back code out
                   | Answered code out \<Rightarrow> pass_back code out)))"

subsection \<open>A path value cannot add to the question\<close>

lemma escape_char_safe: "set (escape_char c) \<subseteq> {d. unreserved d \<or> d = CHR ''+'' \<or> d = CHR ''%''}"
proof -
  have "unreserved (hex_upper d)" if "0 \<le> d" "d < 16" for d
  proof -
    have "d = 0 \<or> d = 1 \<or> d = 2 \<or> d = 3 \<or> d = 4 \<or> d = 5 \<or> d = 6 \<or> d = 7 \<or> d = 8 \<or> d = 9 \<or> d = 10 \<or> d = 11 \<or> d = 12
      \<or> d = 13 \<or> d = 14 \<or> d = 15" using that by arith
    then show ?thesis by (elim disjE) (simp_all add: hex_upper_def unreserved_def is_digit_def is_upper_def byte_of_def)
  qed
  moreover have "0 \<le> byte_of c div 16" "byte_of c div 16 < 16" "0 \<le> byte_of c mod 16" "byte_of c mod 16 < 16"
    using byte_of_bound [of c] by linarith+
  ultimately show ?thesis by (simp add: escape_char_def)
qed

text \<open>The receiver's reading of an escaped value.\<close>

definition hex_value :: "char \<Rightarrow> int" where
  "hex_value c = (if is_digit c then byte_of c - 48 else byte_of c - 55)"

fun query_unescape :: "string \<Rightarrow> string" where
  "query_unescape [] = []"
| "query_unescape (c # s) =
     (if c = CHR ''%'' then (case s of a # b # r \<Rightarrow> char_of (hex_value a * 16 + hex_value b) # query_unescape r | _ \<Rightarrow> c # s)
      else (if c = CHR ''+'' then CHR '' '' else c) # query_unescape s)"

lemma hex_value_upper: "0 \<le> d \<Longrightarrow> d < 16 \<Longrightarrow> hex_value (hex_upper d) = d"
proof -
  assume "0 \<le> d" "d < 16"
  then have "d = 0 \<or> d = 1 \<or> d = 2 \<or> d = 3 \<or> d = 4 \<or> d = 5 \<or> d = 6 \<or> d = 7 \<or> d = 8 \<or> d = 9 \<or> d = 10 \<or> d = 11 \<or> d = 12
      \<or> d = 13 \<or> d = 14 \<or> d = 15" by arith
  then show ?thesis by (elim disjE) (simp_all add: hex_upper_def hex_value_def is_digit_def byte_of_def)
qed

lemma char_of_byte [simp]: "char_of (byte_of c) = c"
  by (simp add: byte_of_def)

lemma unescape_escape: "query_unescape (escape_char c @ s) = c # query_unescape s"
proof -
  consider "unreserved c" | "\<not> unreserved c" "c = CHR '' ''" | "\<not> unreserved c" "c \<noteq> CHR '' ''" by blast
  then show ?thesis
  proof cases
    case 1
    then have "c \<noteq> CHR ''%''" "c \<noteq> CHR ''+''"
      by (auto simp: unreserved_def is_digit_def is_upper_def is_lower_def byte_of_def)
    then show ?thesis using 1 by (simp add: escape_char_def)
  next
    case 3
    have "0 \<le> byte_of c div 16" "byte_of c div 16 < 16" "0 \<le> byte_of c mod 16" "byte_of c mod 16 < 16"
      using byte_of_bound [of c] by linarith+
    moreover have "byte_of c div 16 * 16 + byte_of c mod 16 = byte_of c" by simp
    ultimately show ?thesis using 3 by (simp add: escape_char_def hex_value_upper)
  qed (simp add: escape_char_def)
qed

text \<open>
  Lifting a ban names exactly the address of the path. Whatever the path value contains, the
  request to the data plane carries it as the one parameter \<open>ip\<close>, escaped into characters that can
  end neither the parameter nor the query, and unescaped it is the value again; an empty value is
  refused without a request.
\<close>

theorem unban_names_the_address:
  "handleUnban dp token sync ip = (if ip = [] then writeErr 400 ''missing IP address''
       else callDataplane dp token (dataplaneURL sync ''/unban'' @ ''?ip='' @ query_escape ip))
   \<and> query_unescape (query_escape ip) = ip
   \<and> list_all (\<lambda>c. unreserved c \<or> c = CHR ''+'' \<or> c = CHR ''%'') (query_escape ip)"
proof (intro conjI)
  show "query_unescape (query_escape ip) = ip"
    by (induction ip) (simp_all add: query_escape_def unescape_escape)
  show "list_all (\<lambda>c. unreserved c \<or> c = CHR ''+'' \<or> c = CHR ''%'') (query_escape ip)"
    using escape_char_safe by (fastforce simp: query_escape_def list_all_iff)
qed (simp add: handleUnban_def)

end
