(* ===== verification/EngineGeoIP.thy ===== *)
theory EngineGeoIP
  imports GoNet
begin

section \<open>The engine: the country of an address\<close>

text \<open>
  The country dataset of \<open>control/internal/engine/geoip.go\<close>: reading it (\<open>parseCSV\<close>), looking an
  address up (\<open>Lookup\<close>, a binary search over tables ordered by upper bound), replacing it
  (\<open>Refresh\<close>) and reporting on it (\<open>Status\<close>). An IPv4 bound is a 32-bit word, an IPv6 bound two
  64-bit words as in the source. \<open>sort.Search\<close> is translated with the loop of the Go library, so
  what it returns on a table that is not ordered is what the code would get.

  The file arrives as the list of its lines and the scanner's error; the download is a parameter
  of \<open>Refresh\<close>. The mutex is left out: each operation is atomic.
\<close>

record geo_range4 =
  r4_lo :: "32 word"
  r4_hi :: "32 word"
  r4_cc :: string

record geo_range6 =
  r6_loHi :: "64 word"
  r6_loLo :: "64 word"
  r6_hiHi :: "64 word"
  r6_hiLo :: "64 word"
  r6_cc :: string

record geo_ip =
  gi_v4 :: "geo_range4 list"
  gi_v6 :: "geo_range6 list"
  gi_month :: string
  gi_loaded :: "int option"
  gi_err :: string

definition NewGeoIP :: geo_ip where
  "NewGeoIP = \<lparr>gi_v4 = [], gi_v6 = [], gi_month = [], gi_loaded = None, gi_err = []\<rparr>"

subsection \<open>Binary search\<close>

text \<open>\<open>sort.Search\<close>: the loop that keeps \<open>f\<close> false below \<open>i\<close> and true from \<open>j\<close> on.\<close>

function search_loop :: "(nat \<Rightarrow> bool) \<Rightarrow> nat \<Rightarrow> nat \<Rightarrow> nat" where
  "search_loop f i j =
     (if i < j then (let h = (i + j) div 2 in if \<not> f h then search_loop f (h + 1) j else search_loop f i h) else i)"
  by auto
termination by (relation "measure (\<lambda>(f, i, j). j - i)") auto

declare search_loop.simps [simp del]

definition sort_search :: "nat \<Rightarrow> (nat \<Rightarrow> bool) \<Rightarrow> nat" where
  "sort_search n f = search_loop f 0 n"

lemma search_loop_least:
  assumes mono: "\<forall>x y. x \<le> y \<longrightarrow> y < n \<longrightarrow> f x \<longrightarrow> f y"
  shows "i \<le> j \<Longrightarrow> j \<le> n \<Longrightarrow> \<forall>x < i. \<not> f x \<Longrightarrow> \<forall>x. j \<le> x \<longrightarrow> x < n \<longrightarrow> f x \<Longrightarrow>
    search_loop f i j \<le> n \<and> (\<forall>x < search_loop f i j. \<not> f x) \<and> (\<forall>x. search_loop f i j \<le> x \<longrightarrow> x < n \<longrightarrow> f x)"
proof (induction "j - i" arbitrary: i j rule: less_induct)
  case (less i j)
  show ?case
  proof (cases "i < j")
    case False
    then have "search_loop f i j = i" by (simp add: search_loop.simps)
    then show ?thesis using less.prems False by simp
  next
    case True
    obtain h where h: "(i + j) div 2 = h" "i \<le> h" "h < j" "h < n" using True less.prems(2) by force
    have step: "search_loop f i j = (if f h then search_loop f i h else search_loop f (h + 1) j)"
      using True by (subst search_loop.simps) (simp add: h(1) Let_def)
    show ?thesis
    proof (cases "f h")
      case True
      have "\<forall>x. h \<le> x \<longrightarrow> x < n \<longrightarrow> f x" using mono True by blast
      moreover have "h - i < j - i" and "h \<le> n" using h(2-4) by linarith+
      ultimately show ?thesis unfolding step if_P [OF True] using less.hyps h(2) less.prems(3) by blast
    next
      case False
      have "\<not> f x" if "x < h + 1" for x
      proof -
        have "x \<le> h" using that by simp
        then show ?thesis using mono h(4) False by blast
      qed
      moreover have "j - (h + 1) < j - i" and "h + 1 \<le> j" using h(2,3) by linarith+
      ultimately show ?thesis unfolding step if_not_P [OF False] using less.hyps less.prems(2,4) by blast
    qed
  qed
qed

lemma sort_search_least:
  assumes "\<forall>x y. x \<le> y \<longrightarrow> y < n \<longrightarrow> f x \<longrightarrow> f y"
  shows "sort_search n f \<le> n" "x < sort_search n f \<Longrightarrow> \<not> f x" "sort_search n f \<le> x \<Longrightarrow> x < n \<Longrightarrow> f x"
  unfolding sort_search_def using search_loop_least [OF assms, where i = 0 and j = n] by auto

text \<open>
  On a table ordered by upper bound, whose ranges are pairwise disjoint, the search finds the range
  that holds the key, if there is one.
\<close>

definition disjoint_ranges :: "('r \<Rightarrow> 'k) \<Rightarrow> ('r \<Rightarrow> 'k::linorder) \<Rightarrow> 'r list \<Rightarrow> bool" where
  "disjoint_ranges lo hi rs \<longleftrightarrow> (\<forall>i < length rs. \<forall>j < length rs. i \<noteq> j \<longrightarrow> hi (rs ! i) < lo (rs ! j) \<or> hi (rs ! j) < lo (rs ! i))"

lemma table_search:
  fixes hi lo :: "'r \<Rightarrow> 'k::linorder" and n :: "'k"
  assumes "sorted (map hi rs)"
  defines "i \<equiv> sort_search (length rs) (\<lambda>i. hi (rs ! i) \<ge> n)"
  shows "i < length rs \<Longrightarrow> n \<le> hi (rs ! i)"
    and "disjoint_ranges lo hi rs \<Longrightarrow> \<forall>r \<in> set rs. lo r \<le> hi r \<Longrightarrow>
      r \<in> set rs \<Longrightarrow> lo r \<le> n \<Longrightarrow> n \<le> hi r \<Longrightarrow> i < length rs \<and> rs ! i = r"
proof -
  have sorted: "hi (rs ! x) \<le> hi (rs ! y)" if "x \<le> y" "y < length rs" for x y
    using sorted_nth_mono [OF assms(1), of x y] that by simp
  have m: "\<forall>x y. x \<le> y \<longrightarrow> y < length rs \<longrightarrow> hi (rs ! x) \<ge> n \<longrightarrow> hi (rs ! y) \<ge> n"
    using sorted by (meson order_trans)
  note least = sort_search_least [of "length rs" "\<lambda>i. hi (rs ! i) \<ge> n", OF m, folded i_def]
  show hit: "n \<le> hi (rs ! i)" if "i < length rs" using least(3) [of i] that by simp
  assume d: "disjoint_ranges lo hi rs" and wf: "\<forall>r \<in> set rs. lo r \<le> hi r" and r: "r \<in> set rs" "lo r \<le> n" "n \<le> hi r"
  obtain k where k: "k < length rs" "rs ! k = r" using r(1) by (auto simp: in_set_conv_nth)
  have "\<not> k < i" using least(2) [of k] k r(3) by blast
  then have "i \<le> k" by simp
  then have i: "i < length rs" using k(1) by simp
  have "i = k"
  proof (rule ccontr)
    assume "i \<noteq> k"
    then have "hi (rs ! i) < lo r \<or> hi r < lo (rs ! i)" using d i k by (auto simp: disjoint_ranges_def)
    moreover have "lo (rs ! i) \<le> hi (rs ! i)" "hi (rs ! i) \<le> hi r" "n \<le> hi (rs ! i)"
      using wf i sorted [OF \<open>i \<le> k\<close> k(1)] hit k(2) by auto
    ultimately show False using r(2) by (auto dest: less_le_trans)
  qed
  then show "i < length rs \<and> rs ! i = r" using i k(2) by simp
qed

subsection \<open>Reading the file\<close>

definition geoMaxRows :: int where "geoMaxRows = 2000000"

definition known :: "string \<Rightarrow> string" where
  "known cc = (if cc = ''ZZ'' then [] else cc)"

definition is_letter :: "char \<Rightarrow> bool" where
  "is_letter c \<longleftrightarrow> is_upper c \<or> is_lower c"

definition isCountryCode :: "string \<Rightarrow> bool" where
  "isCountryCode s \<longleftrightarrow> length s = 2 \<and> list_all is_letter s"

fun be32 :: "addr \<Rightarrow> 32 word" where
  "be32 (V4 w) = w"
| "be32 (V6 w _) = ucast w"

fun be64pair :: "addr \<Rightarrow> 64 word \<times> 64 word" where
  "be64pair (V6 w _) = (ucast (drop_bit 64 w), ucast w)"
| "be64pair (V4 w) = (0, 0xffff00000000 OR ucast w)"

text \<open>One line \<open>start,end,CC\<close>: a row for one of the tables, or \<open>None\<close> for a line that is skipped.\<close>

definition parse_row :: "string \<Rightarrow> (geo_range4 + geo_range6) option" where
  "parse_row line =
     (case cut_at CHR '','' line of None \<Rightarrow> None | Some (startS, rest) \<Rightarrow>
     (case cut_at CHR '','' rest of None \<Rightarrow> None | Some (endS, ccS) \<Rightarrow>
       (let cc = trim_space ccS in
        if \<not> isCountryCode cc then None
        else case (parse_addr startS, parse_addr endS) of
          (Some a, Some b) \<Rightarrow>
            (let a = unmap_addr a; b = unmap_addr b in
             if is4 a \<noteq> is4 b then None
             else if b < a then None
             else if is4 a then Some (Inl \<lparr>r4_lo = be32 a, r4_hi = be32 b, r4_cc = cc\<rparr>)
             else Some (Inr \<lparr>r6_loHi = fst (be64pair a), r6_loLo = snd (be64pair a),
                             r6_hiHi = fst (be64pair b), r6_hiLo = snd (be64pair b), r6_cc = cc\<rparr>))
        | _ \<Rightarrow> None)))"

fun csv_loop ::
  "int \<Rightarrow> geo_range4 list \<Rightarrow> geo_range6 list \<Rightarrow> string list \<Rightarrow> string + geo_range4 list \<times> geo_range6 list" where
  "csv_loop rows v4 v6 [] = Inr (v4, v6)"
| "csv_loop rows v4 v6 (line # ls) =
     (if rows + 1 > geoMaxRows then Inl ''the dataset has more than 2000000 rows; keeping the previous one''
      else case parse_row line of
        None \<Rightarrow> csv_loop (rows + 1) v4 v6 ls
      | Some (Inl r) \<Rightarrow> csv_loop (rows + 1) (v4 @ [r]) v6 ls
      | Some (Inr r) \<Rightarrow> csv_loop (rows + 1) v4 (v6 @ [r]) ls)"

definition hi_key :: "geo_range6 \<Rightarrow> 64 word \<times> 64 word" where
  "hi_key r = (r6_hiHi r, r6_hiLo r)"

text \<open>The order \<open>hiHi\<close>, then \<open>hiLo\<close>, as one number.\<close>

definition pair_value :: "64 word \<times> 64 word \<Rightarrow> int" where
  "pair_value p = uint (fst p) * 2 ^ 64 + uint (snd p)"

definition parseCSV :: "string list \<Rightarrow> string option \<Rightarrow> string + geo_range4 list \<times> geo_range6 list" where
  "parseCSV lines scan_err =
     (case csv_loop 0 [] [] lines of
        Inl e \<Rightarrow> Inl e
      | Inr (v4, v6) \<Rightarrow>
          (case scan_err of
             Some e \<Rightarrow> Inl e
           | None \<Rightarrow>
               if v4 = [] \<and> v6 = [] then Inl ''no usable ranges in the dataset''
               else Inr (sort_key r4_hi v4, sort_key (\<lambda>r. pair_value (hi_key r)) v6)))"

subsection \<open>Looking an address up\<close>

definition lookup4 :: "geo_range4 list \<Rightarrow> 32 word \<Rightarrow> string" where
  "lookup4 v4 n =
     (let i = sort_search (length v4) (\<lambda>i. r4_hi (v4 ! i) \<ge> n)
      in if i < length v4 \<and> r4_lo (v4 ! i) \<le> n then known (r4_cc (v4 ! i)) else [])"

definition lookup6 :: "geo_range6 list \<Rightarrow> 64 word \<times> 64 word \<Rightarrow> string" where
  "lookup6 v6 p =
     (case p of (hi, lo) \<Rightarrow>
       let i = sort_search (length v6) (\<lambda>i. r6_hiHi (v6 ! i) > hi \<or> (r6_hiHi (v6 ! i) = hi \<and> r6_hiLo (v6 ! i) \<ge> lo))
       in if i < length v6 then
            (let r = v6 ! i in
             if r6_loHi r < hi \<or> (r6_loHi r = hi \<and> r6_loLo r \<le> lo) then known (r6_cc r) else [])
          else [])"

definition Lookup :: "geo_ip \<Rightarrow> string \<Rightarrow> string" where
  "Lookup g ip =
     (case parse_addr (trim_space ip) of
        None \<Rightarrow> []
      | Some a \<Rightarrow>
          (let a = unmap_addr a
           in if is4 a then lookup4 (gi_v4 g) (be32 a) else lookup6 (gi_v6 g) (be64pair a)))"

subsection \<open>What the tables hold\<close>

definition lo_key :: "geo_range6 \<Rightarrow> 64 word \<times> 64 word" where
  "lo_key r = (r6_loHi r, r6_loLo r)"

definition row4_ok :: "geo_range4 \<Rightarrow> bool" where
  "row4_ok r \<longleftrightarrow> r4_lo r \<le> r4_hi r \<and> isCountryCode (r4_cc r)"

definition row6_ok :: "geo_range6 \<Rightarrow> bool" where
  "row6_ok r \<longleftrightarrow> pair_value (lo_key r) \<le> pair_value (hi_key r) \<and> isCountryCode (r6_cc r)"

lemma pair_value_le:
  "pair_value (a, b) \<le> pair_value (c, d) \<longleftrightarrow> a < c \<or> (a = c \<and> b \<le> d)"
proof -
  have b: "uint b < 2 ^ 64" "uint d < 2 ^ 64" using uint_lt2p [of b] uint_lt2p [of d] by simp_all
  have z: "0 \<le> uint b" "0 \<le> uint d" by simp_all
  have mono: "uint x * 2 ^ 64 + 2 ^ 64 \<le> uint y * 2 ^ 64" if "uint x < uint y" for x y :: "64 word"
    using mult_right_mono [of "uint x + 1" "uint y" "2 ^ 64"] that by (simp add: distrib_right)
  consider "uint a < uint c" | "uint a = uint c" | "uint c < uint a" by linarith
  then show ?thesis
  proof cases
    case 1
    then have "pair_value (a, b) \<le> pair_value (c, d)"
      unfolding pair_value_def fst_conv snd_conv using b z mono [OF 1] by linarith
    then show ?thesis using 1 by (simp add: word_less_def)
  next
    case 2
    then show ?thesis by (simp add: pair_value_def word_less_def word_le_def word_uint_eq_iff)
  next
    case 3
    then have "pair_value (c, d) < pair_value (a, b)"
      unfolding pair_value_def fst_conv snd_conv using b z mono [OF 3] by linarith
    then show ?thesis using 3 by (simp add: word_less_def word_uint_eq_iff)
  qed
qed

lemma be64pair_value: "pair_value (be64pair (V6 w z)) = uint w"
proof -
  have "uint (drop_bit 64 w) = uint w div 2 ^ 64" by (rule trans [OF uint_drop_bit_nat [symmetric] drop_bit_eq_div])
  moreover have "0 \<le> uint w div 2 ^ 64" "uint w div 2 ^ 64 < 2 ^ 64"
    using uint_lt2p [of w] by (simp_all add: pos_imp_zdiv_nonneg_iff)
  ultimately have "take_bit 64 (uint (drop_bit 64 w)) = uint w div 2 ^ 64" by (metis take_bit_int_eq_self)
  then have "uint (ucast (drop_bit 64 w) :: 64 word) = uint w div 2 ^ 64" by (simp only: unsigned_ucast_eq) simp
  moreover have "uint (ucast w :: 64 word) = uint w mod 2 ^ 64" by (simp add: unsigned_ucast_eq take_bit_eq_mod)
  ultimately show ?thesis unfolding pair_value_def by (simp only: be64pair.simps fst_conv snd_conv div_mult_mod_eq)
qed

lemma be32_mono: "is4 a \<Longrightarrow> is4 b \<Longrightarrow> \<not> b < a \<Longrightarrow> be32 a \<le> be32 b"
  by (cases a; cases b) (auto simp: less_addr_def key_less_def word_le_def)

lemma be64_mono: "\<not> is4 a \<Longrightarrow> \<not> is4 b \<Longrightarrow> \<not> b < a \<Longrightarrow> pair_value (be64pair a) \<le> pair_value (be64pair b)"
  by (cases a; cases b) (auto simp: less_addr_def key_less_def be64pair_value simp del: be64pair.simps)

lemma parse_row_ok:
  "parse_row line = Some (Inl r4) \<Longrightarrow> row4_ok r4" "parse_row line = Some (Inr r6) \<Longrightarrow> row6_ok r6"
  unfolding parse_row_def Let_def 
  by (auto split: option.splits if_splits prod.splits simp: row4_ok_def row6_ok_def lo_key_def hi_key_def intro: be32_mono be64_mono)

lemma csv_loop_rows:
  "csv_loop n a b lines = Inr (v4, v6) \<Longrightarrow>
     v4 = a @ [r. Some (Inl r) \<leftarrow> map parse_row lines] \<and> v6 = b @ [r. Some (Inr r) \<leftarrow> map parse_row lines]"
proof (induction n a b lines rule: csv_loop.induct)
  case (2 n a b line ls)
  then show ?case by (cases "parse_row line" rule: option.exhaust [case_product sum.exhaust]) (auto split: if_splits option.splits sum.splits)
qed simp

text \<open>The tables are the rows of the file that could be read, in the order of their upper bounds.\<close>

lemma parseCSV_tables:
  assumes "parseCSV lines e = Inr (v4, v6)"
  shows "set v4 = {r. Some (Inl r) \<in> parse_row ` set lines}" "set v6 = {r. Some (Inr r) \<in> parse_row ` set lines}"
    "sorted (map r4_hi v4)" "sorted (map (\<lambda>r. pair_value (hi_key r)) v6)" "list_all row4_ok v4" "list_all row6_ok v6"
    "e = None" "\<not> (v4 = [] \<and> v6 = [])"
proof -
  obtain a b where l: "csv_loop 0 [] [] lines = Inr (a, b)" and e: "e = None" and ne: "\<not> (a = [] \<and> b = [])"
    and v: "v4 = sort_key r4_hi a" "v6 = sort_key (\<lambda>r. pair_value (hi_key r)) b"
    using assms by (auto simp: parseCSV_def split: sum.splits option.splits if_splits)
  show v4: "set v4 = {r. Some (Inl r) \<in> parse_row ` set lines}" and v6: "set v6 = {r. Some (Inr r) \<in> parse_row ` set lines}"
    using csv_loop_rows [OF l] v by (auto simp: image_iff split: option.splits sum.splits)
  show "list_all row4_ok v4" "list_all row6_ok v6"
    using parse_row_ok unfolding list_all_iff v4 v6 by (auto simp: image_iff)
  show "\<not> (v4 = [] \<and> v6 = [])" using ne v by (metis length_0_conv length_sort)
qed (use assms in \<open>auto simp: parseCSV_def split: sum.splits option.splits if_splits\<close>)

subsection \<open>Lookup is a linear search\<close>

text \<open>The reference: the first row, in any order, that holds the address.\<close>

definition holds4 :: "32 word \<Rightarrow> geo_range4 \<Rightarrow> bool" where
  "holds4 n r \<longleftrightarrow> r4_lo r \<le> n \<and> n \<le> r4_hi r"

definition holds6 :: "128 word \<Rightarrow> geo_range6 \<Rightarrow> bool" where
  "holds6 n r \<longleftrightarrow> pair_value (lo_key r) \<le> uint n \<and> uint n \<le> pair_value (hi_key r)"

definition country_of :: "geo_range4 list \<Rightarrow> geo_range6 list \<Rightarrow> addr \<Rightarrow> string" where
  "country_of v4 v6 a =
     (case unmap_addr a of
        V4 n \<Rightarrow> (case find (holds4 n) v4 of None \<Rightarrow> [] | Some r \<Rightarrow> known (r4_cc r))
      | V6 n z \<Rightarrow> (case find (holds6 n) v6 of None \<Rightarrow> [] | Some r \<Rightarrow> known (r6_cc r)))"

definition disjoint4 :: "geo_range4 list \<Rightarrow> bool" where
  "disjoint4 = disjoint_ranges r4_lo r4_hi"

definition disjoint6 :: "geo_range6 list \<Rightarrow> bool" where
  "disjoint6 = disjoint_ranges (\<lambda>r. pair_value (lo_key r)) (\<lambda>r. pair_value (hi_key r))"

text \<open>What the binary search answers, whatever the type of the rows.\<close>

lemma search_find:
  fixes hi lo :: "'r \<Rightarrow> 'k::linorder" and n :: "'k"
  assumes "sorted (map hi rs)" "disjoint_ranges lo hi rs" "\<forall>r \<in> set rs. lo r \<le> hi r"
  defines "i \<equiv> sort_search (length rs) (\<lambda>i. hi (rs ! i) \<ge> n)"
  shows "(if i < length rs \<and> lo (rs ! i) \<le> n then Some (rs ! i) else None) = find (\<lambda>r. lo r \<le> n \<and> n \<le> hi r) rs"
proof (cases "find (\<lambda>r. lo r \<le> n \<and> n \<le> hi r) rs")
  case None
  then have "\<not> (i < length rs \<and> lo (rs ! i) \<le> n)"
    using table_search(1) [OF assms(1), of n, folded i_def] by (auto simp: find_None_iff)
  then show ?thesis using None by simp
next
  case (Some r)
  then have "r \<in> set rs" "lo r \<le> n" "n \<le> hi r" by (auto simp: find_Some_iff)
  then have "i < length rs \<and> rs ! i = r" using table_search(2) [OF assms(1) assms(2,3), of r n, folded i_def] by blast
  then show ?thesis using Some \<open>lo r \<le> n\<close> by auto
qed

lemma lookup4_find:
  assumes "sorted (map r4_hi v4)" "disjoint4 v4" "list_all row4_ok v4"
  shows "lookup4 v4 n = (case find (holds4 n) v4 of None \<Rightarrow> [] | Some r \<Rightarrow> known (r4_cc r))"
proof -
  have "\<forall>r \<in> set v4. r4_lo r \<le> r4_hi r" using assms(3) by (auto simp: list_all_iff row4_ok_def)
  from search_find [OF assms(1) assms(2) [unfolded disjoint4_def] this, of n, symmetric]
  show ?thesis by (auto simp: lookup4_def Let_def holds4_def [abs_def])
qed

lemma lookup6_find:
  assumes "sorted (map (\<lambda>r. pair_value (hi_key r)) v6)" "disjoint6 v6" "list_all row6_ok v6"
  shows "lookup6 v6 (be64pair (V6 n z)) = (case find (holds6 n) v6 of None \<Rightarrow> [] | Some r \<Rightarrow> known (r6_cc r))"
proof -
  obtain h l where p: "be64pair (V6 n z) = (h, l)" by fastforce
  have v: "pair_value (h, l) = uint n" using be64pair_value [of n z] p by simp
  have hi: "r6_hiHi r > h \<or> (r6_hiHi r = h \<and> r6_hiLo r \<ge> l) \<longleftrightarrow> uint n \<le> pair_value (hi_key r)" for r
    using pair_value_le [of h l "r6_hiHi r" "r6_hiLo r"] v by (auto simp: hi_key_def)
  have lo: "r6_loHi r < h \<or> (r6_loHi r = h \<and> r6_loLo r \<le> l) \<longleftrightarrow> pair_value (lo_key r) \<le> uint n" for r
    using pair_value_le [of "r6_loHi r" "r6_loLo r" h l] v by (simp add: lo_key_def)
  have "\<forall>r \<in> set v6. pair_value (lo_key r) \<le> pair_value (hi_key r)" using assms(3) by (auto simp: list_all_iff row6_ok_def)
  from search_find [OF assms(1) assms(2) [unfolded disjoint6_def] this, of "uint n", symmetric]
  show ?thesis by (simp add: lookup6_def p hi lo Let_def holds6_def [abs_def] del: be64pair.simps)
qed

text \<open>
  C14 when the ranges of the downloaded dataset do not overlap, the binary search of the attack log
  names the country that a linear search over the rows of the file names, for every address text,
  and no country for an address in no row; IPv4 addresses written as IPv6 are looked up as IPv4.
\<close>

theorem country_lookup_exact:
  assumes "parseCSV lines e = Inr (gi_v4 g, gi_v6 g)" and "disjoint4 (gi_v4 g)" and "disjoint6 (gi_v6 g)"
  shows "Lookup g ip = (case parse_addr (trim_space ip) of None \<Rightarrow> [] | Some a \<Rightarrow> country_of (gi_v4 g) (gi_v6 g) a)"
  using lookup4_find [OF _ assms(2)] lookup6_find [OF _ assms(3)] parseCSV_tables [OF assms(1)]
  by (auto simp: Lookup_def Let_def country_of_def simp del: be64pair.simps split: option.splits addr.splits)

subsection \<open>Refreshing\<close>

definition geoURL :: "string \<Rightarrow> string" where
  "geoURL month = ''https://download.db-ip.com/free/dbip-country-lite-'' @ month @ ''.csv.gz''"

text \<open>
  One download: \<open>get\<close> answers an URL with a status and a body, \<open>gunzip\<close> yields the lines of an
  unpacked body (both cut at the limits of the source) and the scanner's error.
\<close>

definition geoMaxDownload :: nat where "geoMaxDownload = 33554432"

definition fetch ::
  "(string \<Rightarrow> string + int \<times> string) \<Rightarrow> (string \<Rightarrow> string + string list \<times> string option) \<Rightarrow> string \<Rightarrow>
   string + geo_range4 list \<times> geo_range6 list" where
  "fetch get gunzip month =
     (case get (geoURL month) of
        Inl e \<Rightarrow> Inl e
      | Inr (status, body) \<Rightarrow>
          if status \<noteq> 200 then Inl (geoURL month @ '' answered '' @ itoa status)
          else (case gunzip (take geoMaxDownload body) of
                  Inl e \<Rightarrow> Inl (''the dataset is not gzip: '' @ e)
                | Inr (lines, err) \<Rightarrow> parseCSV lines err))"

text \<open>
  The month and the one before it, from the date in UTC: \<open>now.AddDate(0, -1, 0)\<close> keeps the day, and a
  day the month does not have moves into the following month.
\<close>

definition days_in :: "int \<Rightarrow> int \<Rightarrow> int" where
  "days_in y m = (if m = 2 then (if (4 dvd y \<and> \<not> 100 dvd y) \<or> 400 dvd y then 29 else 28)
     else if m \<in> {4, 6, 9, 11} then 30 else 31)"

definition month_before :: "int \<times> int \<times> int \<Rightarrow> int \<times> int" where
  "month_before date =
     (case date of (y, m, d) \<Rightarrow>
       let (y', m') = (if m = 1 then (y - 1, 12) else (y, m - 1))
       in if d \<le> days_in y' m' then (y', m') else (y, m))"

definition month_text :: "int \<times> int \<Rightarrow> string" where
  "month_text p = dec_digits (fst p) @ ''-'' @ (if snd p < 10 then ''0'' else []) @ dec_digits (snd p)"

definition refresh_months :: "int \<times> int \<times> int \<Rightarrow> string list" where
  "refresh_months date = [month_text (fst date, fst (snd date)), month_text (month_before date)]"

fun refresh_loop ::
  "(string \<Rightarrow> string + geo_range4 list \<times> geo_range6 list) \<Rightarrow> int \<Rightarrow> string \<Rightarrow> string \<Rightarrow> string list \<Rightarrow> geo_ip \<Rightarrow> geo_ip" where
  "refresh_loop get now have last_err [] g = g\<lparr>gi_err := last_err\<rparr>"
| "refresh_loop get now have last_err (m # ms) g =
     (if m = have then g
      else case get m of
        Inl e \<Rightarrow> refresh_loop get now have e ms g
      | Inr (v4, v6) \<Rightarrow> \<lparr>gi_v4 = v4, gi_v6 = v6, gi_month = m, gi_loaded = Some now, gi_err = []\<rparr>)"

definition Refresh :: "(string \<Rightarrow> string + geo_range4 list \<times> geo_range6 list) \<Rightarrow> int \<Rightarrow> int \<times> int \<times> int \<Rightarrow> geo_ip \<Rightarrow> geo_ip" where
  "Refresh get now date g =
     (if gi_month g = hd (refresh_months date) then g
      else refresh_loop get now (gi_month g) [] (refresh_months date) g)"

record geo_status =
  gt_ranges :: nat
  gt_month :: string
  gt_loadedAt :: "int option"
  gt_lastError :: string

definition geo_status_of :: "geo_ip \<Rightarrow> geo_status" where
  "geo_status_of g = \<lparr>gt_ranges = length (gi_v4 g) + length (gi_v6 g), gt_month = gi_month g, gt_loadedAt = gi_loaded g, gt_lastError = gi_err g\<rparr>"

text \<open>
  a refresh never loses the dataset: the tables and their month are the old ones, or those of a
  month that was just downloaded; when every download fails only the error changes. The second month
  tried is the one before, except late in a month that is longer than the one before it (31 March,
  say), where it is the same month again and there is nothing to fall back to.
\<close>

theorem refresh_keeps_dataset:
  "(gi_v4 (Refresh get now (y, m, d) g) = gi_v4 g \<and> gi_v6 (Refresh get now (y, m, d) g) = gi_v6 g
      \<and> gi_month (Refresh get now (y, m, d) g) = gi_month g
    \<or> get (gi_month (Refresh get now (y, m, d) g)) = Inr (gi_v4 (Refresh get now (y, m, d) g), gi_v6 (Refresh get now (y, m, d) g))
      \<and> gi_month (Refresh get now (y, m, d) g) \<in> {month_text (y, m), month_text (month_before (y, m, d))})
   \<and> Refresh (\<lambda>_. Inl e) now (y, m, d) g \<in> {g, g\<lparr>gi_err := e\<rparr>}
   \<and> refresh_months (2025, 3, 31) = [''2025-03'', ''2025-03''] \<and> refresh_months (2025, 3, 5) = [''2025-03'', ''2025-02'']"
proof -
  have "gi_v4 g' = gi_v4 g \<and> gi_v6 g' = gi_v6 g \<and> gi_month g' = gi_month g
      \<or> get (gi_month g') = Inr (gi_v4 g', gi_v6 g') \<and> gi_month g' \<in> set ms"
    if "g' = refresh_loop get now have e ms g" for g' "have" e ms
    using that by (induction get now "have" e ms g rule: refresh_loop.induct) (auto split: sum.splits)
  from this [OF refl, of "gi_month g" "[]" "refresh_months (y, m, d)"]
  have "gi_v4 (Refresh get now (y, m, d) g) = gi_v4 g \<and> gi_v6 (Refresh get now (y, m, d) g) = gi_v6 g
      \<and> gi_month (Refresh get now (y, m, d) g) = gi_month g
    \<or> get (gi_month (Refresh get now (y, m, d) g)) = Inr (gi_v4 (Refresh get now (y, m, d) g), gi_v6 (Refresh get now (y, m, d) g))
      \<and> gi_month (Refresh get now (y, m, d) g) \<in> {month_text (y, m), month_text (month_before (y, m, d))}"
    unfolding Refresh_def by (auto simp: refresh_months_def)
  moreover have "Refresh (\<lambda>_. Inl e) now (y, m, d) g \<in> {g, g\<lparr>gi_err := e\<rparr>}"
    by (simp add: Refresh_def refresh_months_def)
  moreover have "refresh_months (2025, 3, 31) = [''2025-03'', ''2025-03'']" "refresh_months (2025, 3, 5) = [''2025-03'', ''2025-02'']"
    by code_simp+
  ultimately show ?thesis by blast
qed

definition demo_geo :: geo_ip where
  "demo_geo = \<lparr>gi_v4 = [\<lparr>r4_lo = 0x01000000, r4_hi = 0x010000ff, r4_cc = ''AU''\<rparr>], gi_v6 = [], gi_month = ''2025-03'',
    gi_loaded = Some 0, gi_err = []\<rparr>"

lemma country_lookup_exact_witness:
  "parseCSV [''1.0.0.0,1.0.0.255,AU'', ''not a row''] None = Inr (gi_v4 demo_geo, gi_v6 demo_geo)
   \<and> Lookup demo_geo ''1.0.0.7'' = ''AU''"
proof -
  have c: "parseCSV [''1.0.0.0,1.0.0.255,AU'', ''not a row''] None = Inr (gi_v4 demo_geo, gi_v6 demo_geo)" by code_simp
  have "disjoint4 (gi_v4 demo_geo)" "disjoint6 (gi_v6 demo_geo)"
    by (simp_all add: demo_geo_def disjoint4_def disjoint6_def disjoint_ranges_def)
  from country_lookup_exact [OF c this, of "''1.0.0.7''"] have "Lookup demo_geo ''1.0.0.7'' =
    (case parse_addr (trim_space ''1.0.0.7'') of None \<Rightarrow> [] | Some a \<Rightarrow> country_of (gi_v4 demo_geo) (gi_v6 demo_geo) a)" .
  also have "\<dots> = ''AU''" by code_simp
  finally show ?thesis using c by simp
qed

end
