(* ===== verification/EngineGeoSets.thy ===== *)
theory EngineGeoSets
  imports EngineGeoIP "HOL-Library.Multiset"
begin

section \<open>The engine: the address ranges of a country rule\<close>

text \<open>
  What \<open>control/internal/engine/geosets.go\<close> publishes for a list of countries: the ranges of the
  dataset that carry one of them, merged, as one flat list \<open>lo, hi, lo, hi\<close> per address family.
  \<open>merge_ranges\<close> is the loop of both families; \<open>touches\<close> says when a range joins the one before it.
  \<open>U\<close> is the upper casing of text that is not ASCII. \<open>sort.Slice\<close> leaves the order of equal lower
  bounds open; the lemmas about merging hold for every order.

  The lemmas say that the published list covers exactly the addresses of the picked ranges and, unless
  a picked range ends at 255.255.255.255, that its ranges are ordered and apart, which a binary search needs.
\<close>

record geo_set =
  gs_v4 :: "32 word list"
  gs_v6 :: "string list"

definition maxGeoRanges :: nat where "maxGeoRanges = 250000"
definition maxGeoCountries :: nat where "maxGeoCountries = 60"

definition GeoSetKey :: "string list \<Rightarrow> string" where
  "GeoSetKey countries = str_join '','' (sort countries)"

definition hex_nibble :: "int \<Rightarrow> char" where
  "hex_nibble n = (if n < 10 then char_of (48 + n) else char_of (87 + n))"

definition hex_encode :: "int list \<Rightarrow> string" where
  "hex_encode bs = concat (map (\<lambda>b. [hex_nibble (b div 16), hex_nibble (b mod 16)]) bs)"

definition word_bytes :: "64 word \<Rightarrow> int list" where
  "word_bytes w = map (\<lambda>i. uint (ucast (drop_bit (8 * i) w) :: 8 word)) (rev [0..<8])"

definition bytes16 :: "64 word \<times> 64 word \<Rightarrow> int list" where
  "bytes16 p = word_bytes (fst p) @ word_bytes (snd p)"

fun merge_ranges :: "('k::linorder \<Rightarrow> 'k \<Rightarrow> bool) \<Rightarrow> 'k list \<Rightarrow> ('k \<times> 'k) list \<Rightarrow> 'k list" where
  "merge_ranges touches out [] = out"
| "merge_ranges touches out ((lo, hi) # rs) =
     (let n = length out
      in if n > 0 \<and> touches (out ! (n - 1)) lo
         then merge_ranges touches (if hi > out ! (n - 1) then out[n - 1 := hi] else out) rs
         else merge_ranges touches (out @ [lo, hi]) rs)"

text \<open>IPv4 ranges join when they touch, in 32-bit arithmetic; IPv6 ranges only when they overlap.\<close>

definition touch4 :: "32 word \<Rightarrow> 32 word \<Rightarrow> bool" where
  "touch4 hi lo \<longleftrightarrow> lo \<le> hi + 1"

definition touch6 :: "string \<Rightarrow> string \<Rightarrow> bool" where
  "touch6 hi lo \<longleftrightarrow> lo \<le> hi"

definition wanted :: "(string \<Rightarrow> string) \<Rightarrow> string list \<Rightarrow> string \<Rightarrow> bool" where
  "wanted U countries cc \<longleftrightarrow> List.member (map (\<lambda>c. go_to_upper U (trim_space c)) countries) (go_to_upper U cc)"

definition picked4 :: "(string \<Rightarrow> string) \<Rightarrow> string list \<Rightarrow> geo_range4 list \<Rightarrow> (32 word \<times> 32 word) list" where
  "picked4 U countries v4 = map (\<lambda>r. (r4_lo r, r4_hi r)) (filter (\<lambda>r. wanted U countries (r4_cc r)) v4)"

definition picked6 :: "(string \<Rightarrow> string) \<Rightarrow> string list \<Rightarrow> geo_range6 list \<Rightarrow> (int list \<times> int list) list" where
  "picked6 U countries v6 = map (\<lambda>r. (bytes16 (lo_key r), bytes16 (hi_key r))) (filter (\<lambda>r. wanted U countries (r6_cc r)) v6)"

definition SetFor :: "(string \<Rightarrow> string) \<Rightarrow> geo_ip \<Rightarrow> string list \<Rightarrow> geo_set option" where
  "SetFor U g countries =
     (if countries = [] \<or> length countries > maxGeoCountries then None
      else if gi_v4 g = [] \<and> gi_v6 g = [] then None
      else let p4 = picked4 U countries (gi_v4 g); p6 = picked6 U countries (gi_v6 g) in
        if length p4 + length p6 > maxGeoRanges then None
        else let out = \<lparr>gs_v4 = merge_ranges touch4 [] (sort_key fst p4),
                        gs_v6 = merge_ranges touch6 [] (map (\<lambda>(lo, hi). (hex_encode lo, hex_encode hi)) (sort_key fst p6))\<rparr>
          in if gs_v4 out = [] \<and> gs_v6 out = [] then None else Some out)"

subsection \<open>Merging\<close>

definition flat :: "('k \<times> 'k) list \<Rightarrow> 'k list" where
  "flat ps = concat (map (\<lambda>(a, b). [a, b]) ps)"

lemma flat_simps [simp]: "flat [] = []" "flat (p # ps) = fst p # snd p # flat ps" "flat (ps @ qs) = flat ps @ flat qs"
  "flat ps = [] \<longleftrightarrow> ps = []" "length (flat ps) = 2 * length ps"
proof -
  show "length (flat ps) = 2 * length ps" by (induction ps) (auto simp: flat_def split: prod.splits)
  then show "flat ps = [] \<longleftrightarrow> ps = []" by (metis length_0_conv mult_is_0 zero_neq_numeral)
qed (auto simp: flat_def split: prod.splits)

lemma flat_nth: "k < length ps \<Longrightarrow> flat ps ! (2 * k) = fst (ps ! k) \<and> flat ps ! (2 * k + 1) = snd (ps ! k)"
proof (induction ps arbitrary: k)
  case (Cons p ps)
  then show ?case by (cases k) auto
qed simp

text \<open>The same loop on pairs, the last one first.\<close>

fun merge_acc :: "('k::linorder \<Rightarrow> 'k \<Rightarrow> bool) \<Rightarrow> ('k \<times> 'k) list \<Rightarrow> ('k \<times> 'k) list \<Rightarrow> ('k \<times> 'k) list" where
  "merge_acc t acc [] = acc"
| "merge_acc t [] (r # rs) = merge_acc t [r] rs"
| "merge_acc t ((a, b) # acc) ((lo, hi) # rs) =
     (if t b lo then merge_acc t ((a, max b hi) # acc) rs else merge_acc t ((lo, hi) # (a, b) # acc) rs)"

lemma merge_flat: "merge_ranges t (flat (rev acc)) rs = flat (rev (merge_acc t acc rs))"
proof (induction t acc rs rule: merge_acc.induct)
  case (2 t r rs)
  then show ?case by (cases r) simp
next
  case (3 t a b acc lo hi rs)
  have last: "flat (rev ((a, b) # acc)) ! (length (flat (rev ((a, b) # acc))) - 1) = b"
    using flat_nth [of "length acc" "rev ((a, b) # acc)"] by (simp add: nth_append)
  have upd: "(flat (rev ((a, b) # acc)))[length (flat (rev ((a, b) # acc))) - 1 := hi] = flat (rev ((a, hi) # acc))"
    by (simp add: list_update_append)
  show ?case
  proof (cases "t b lo")
    case True
    have "merge_ranges t (flat (rev ((a, b) # acc))) ((lo, hi) # rs) =
        merge_ranges t (if hi > b then flat (rev ((a, hi) # acc)) else flat (rev ((a, b) # acc))) rs"
      using True unfolding merge_ranges.simps Let_def last upd by simp
    also have "(if hi > b then flat (rev ((a, hi) # acc)) else flat (rev ((a, b) # acc))) = flat (rev ((a, max b hi) # acc))"
      by (auto simp: max_def)
    finally show ?thesis using 3(1) [OF True] True by simp
  next
    case False
    have "merge_ranges t (flat (rev ((a, b) # acc))) ((lo, hi) # rs) = merge_ranges t (flat (rev ((a, b) # acc)) @ [lo, hi]) rs"
      using False unfolding merge_ranges.simps Let_def last by simp
    then show ?thesis using 3(2) [OF False] False by simp
  qed
qed simp_all

definition in_ranges :: "('k::linorder \<times> 'k) list \<Rightarrow> 'k \<Rightarrow> bool" where
  "in_ranges ps x \<longleftrightarrow> (\<exists>p \<in> set ps. fst p \<le> x \<and> x \<le> snd p)"

lemma in_ranges_simps [simp]: "in_ranges [] x \<longleftrightarrow> False"
  "in_ranges (p # ps) x \<longleftrightarrow> fst p \<le> x \<and> x \<le> snd p \<or> in_ranges ps x" "in_ranges (rev ps) x = in_ranges ps x"
  by (auto simp: in_ranges_def)

lemma merge_acc_covers:
  "\<forall>b lo y. t b lo \<longrightarrow> y < lo \<longrightarrow> y \<le> b \<Longrightarrow> sorted (map fst rs) \<Longrightarrow>
   \<forall>r \<in> set rs. acc \<noteq> [] \<longrightarrow> fst (hd acc) \<le> fst r \<Longrightarrow>
    in_ranges (merge_acc t acc rs) x \<longleftrightarrow> in_ranges acc x \<or> in_ranges rs x"
proof (induction t acc rs rule: merge_acc.induct)
  case (3 t a b acc lo hi rs)
  have le: "a \<le> lo" and srt: "sorted (map fst rs)" "\<forall>r \<in> set rs. lo \<le> fst r" using 3(4,5) by auto
  show ?case
  proof (cases "t b lo")
    case True
    have "a \<le> x \<and> x \<le> max b hi \<longleftrightarrow> a \<le> x \<and> x \<le> b \<or> lo \<le> x \<and> x \<le> hi"
    proof (cases "x < lo")
      case True
      then show ?thesis using 3(3) \<open>t b lo\<close> by (auto simp: not_less [symmetric])
    qed (use le in \<open>auto simp: le_max_iff_disj\<close>)
    moreover have "\<forall>r \<in> set rs. fst (hd ((a, max b hi) # acc)) \<le> fst r" using srt(2) le by auto
    ultimately show ?thesis using 3(1) [OF True 3(3) srt(1)] True by auto
  next
    case False
    then show ?thesis using 3(2) [OF False 3(3) srt(1)] srt(2) by auto
  qed
qed auto

definition apart :: "('k::linorder \<times> 'k) list \<Rightarrow> bool" where
  "apart ps \<longleftrightarrow> sorted_wrt (\<lambda>p q. snd p < fst q) ps \<and> (\<forall>p \<in> set ps. fst p \<le> snd p)"

lemma merge_acc_apart:
  "\<forall>b lo. Q b \<longrightarrow> \<not> t b lo \<longrightarrow> b < lo \<Longrightarrow> \<forall>r \<in> set rs. fst r \<le> snd r \<and> Q (snd r) \<Longrightarrow>
   \<forall>r \<in> set acc. Q (snd r) \<Longrightarrow> apart (rev acc) \<Longrightarrow> apart (rev (merge_acc t acc rs))"
proof (induction t acc rs rule: merge_acc.induct)
  case (3 t a b acc lo hi rs)
  show ?case
  proof (cases "t b lo")
    case True
    have "apart (rev ((a, max b hi) # acc))" using 3(6) by (auto simp: apart_def sorted_wrt_append le_max_iff_disj)
    moreover have "Q (max b hi)" using 3(4,5) by (auto simp: max_def)
    ultimately show ?thesis using 3(1) [OF True 3(3)] 3(4,5) True by auto
  next
    case False
    have bl: "b < lo" using 3(3,5) False by simp
    have ab: "a \<le> b" using 3(6) by (simp add: apart_def)
    have "snd q < lo" if "q \<in> set acc" for q
    proof -
      have "snd q < a" using 3(6) that by (auto simp: apart_def sorted_wrt_append)
      then show ?thesis using ab bl by simp
    qed
    then have "apart (rev ((lo, hi) # (a, b) # acc))" using 3(4,6) bl by (auto simp: apart_def sorted_wrt_append)
    then show ?thesis using 3(2) [OF False 3(3)] 3(4,5) False by auto
  qed
qed (auto simp: apart_def)

lemma uint_next: "uint (b + 1 :: 32 word) = (if uint b = 4294967295 then 0 else uint b + 1)"
  using uint_lt2p [of b] by (auto simp: uint_word_ariths)

lemma touch4_gap: "touch4 b lo \<Longrightarrow> y < lo \<Longrightarrow> y \<le> b"
  using uint_lt2p [of lo] by (auto simp: touch4_def word_le_def word_less_def uint_next split: if_splits)

lemma touch4_apart: "b \<noteq> - 1 \<Longrightarrow> \<not> touch4 b lo \<Longrightarrow> b < lo"
proof -
  assume "b \<noteq> - 1" and "\<not> touch4 b lo"
  moreover have "uint (- 1 :: 32 word) = 4294967295" by (simp add: unsigned_minus_1_eq_mask mask_eq_exp_minus_1)
  ultimately have "uint b \<noteq> 4294967295" by (metis word_uint_eq_iff)
  then show "b < lo" using \<open>\<not> touch4 b lo\<close> by (simp add: touch4_def word_le_def word_less_def uint_next)
qed

lemma in_ranges_set: "set ps = set qs \<Longrightarrow> in_ranges ps x = in_ranges qs x"
  by (simp add: in_ranges_def)

text \<open>
  The published IPv4 list, for any order of the picked ranges with ascending lower bounds: the list
  covers the same addresses, and its ranges are apart when none ends at the last address.
\<close>

lemma merge4_exact:
  assumes "sorted (map fst xs)"
  obtains ps where "merge_ranges touch4 [] xs = flat ps" "\<And>x. in_ranges ps x \<longleftrightarrow> in_ranges xs x"
    "\<forall>r \<in> set xs. fst r \<le> snd r \<and> snd r \<noteq> - 1 \<Longrightarrow> apart ps"
proof
  let ?ps = "rev (merge_acc touch4 [] xs)"
  show "merge_ranges touch4 [] xs = flat ?ps" using merge_flat [of touch4 "[]"] by simp
  show "in_ranges ?ps x \<longleftrightarrow> in_ranges xs x" for x
    using merge_acc_covers [of touch4 xs "[]" x] assms touch4_gap by auto
  show "apart ?ps" if "\<forall>r \<in> set xs. fst r \<le> snd r \<and> snd r \<noteq> - 1"
    using merge_acc_apart [of "\<lambda>b. b \<noteq> - 1" touch4 xs "[]"] that touch4_apart by (auto simp: apart_def)
qed

lemma merge6_exact:
  assumes "sorted (map fst xs)"
  obtains ps where "merge_ranges touch6 [] xs = flat ps" "\<And>x. in_ranges ps x \<longleftrightarrow> in_ranges xs x"
    "\<forall>r \<in> set xs. fst r \<le> snd r \<Longrightarrow> apart ps"
proof
  let ?ps = "rev (merge_acc touch6 [] xs)"
  show "merge_ranges touch6 [] xs = flat ?ps" using merge_flat [of touch6 "[]"] by simp
  show "in_ranges ?ps x \<longleftrightarrow> in_ranges xs x" for x
    using merge_acc_covers [of touch6 xs "[]" x] assms by (force simp: touch6_def)
  show "apart ?ps" if "\<forall>r \<in> set xs. fst r \<le> snd r"
    using merge_acc_apart [of "\<lambda>b. True" touch6 xs "[]"] that by (force simp: apart_def touch6_def)
qed

subsection \<open>Hexadecimal text compares like the numbers\<close>

lemma char_less_byte: "c < d \<longleftrightarrow> byte_of c < byte_of d"
proof -
  have "byte_of x = int (of_char x)" for x by (simp add: byte_of_def of_nat_of_char)
  then show ?thesis by (simp add: less_char_def)
qed

lemma base16_less:
  fixes q r p s :: int
  assumes "0 \<le> r" "r < 16" "0 \<le> s" "s < 16"
  shows "q * 16 + r < p * 16 + s \<longleftrightarrow> q < p \<or> (q = p \<and> r < s)" "q * 16 + r = p * 16 + s \<longleftrightarrow> q = p \<and> r = s"
proof -
  show "q * 16 + r < p * 16 + s \<longleftrightarrow> q < p \<or> (q = p \<and> r < s)" using assms by auto
  have "q = p" if "q * 16 + r = p * 16 + s" using assms that by linarith
  then show "q * 16 + r = p * 16 + s \<longleftrightarrow> q = p \<and> r = s" by auto
qed

lemma nibble_less:
  assumes "0 \<le> a" "a < 16" "0 \<le> b" "b < 16"
  shows "hex_nibble a < hex_nibble b \<longleftrightarrow> a < b" "hex_nibble a = hex_nibble b \<longleftrightarrow> a = b"
proof -
  have v: "byte_of (hex_nibble n) = (if n < 10 then 48 + n else 87 + n)" if "0 \<le> n" "n < 16" for n
    using that by (simp add: hex_nibble_def)
  show "hex_nibble a < hex_nibble b \<longleftrightarrow> a < b" using assms by (auto simp: char_less_byte v)
  show "hex_nibble a = hex_nibble b \<longleftrightarrow> a = b" using assms by (auto simp: byte_of_inj [symmetric] v)
qed

lemma hex_less:
  "length bs = length cs \<Longrightarrow> \<forall>b \<in> set bs \<union> set cs. 0 \<le> b \<and> b < 256 \<Longrightarrow>
    (hex_encode bs < hex_encode cs \<longleftrightarrow> bs < cs) \<and> (hex_encode bs = hex_encode cs \<longleftrightarrow> bs = cs)"
proof (induction bs cs rule: list_induct2)
  case (Cons b bs c cs)
  have step: "hex_encode (x # xs) = hex_nibble (x div 16) # hex_nibble (x mod 16) # hex_encode xs" for x xs
    by (simp add: hex_encode_def)
  have n: "0 \<le> b div 16" "b div 16 < 16" "0 \<le> c div 16" "c div 16 < 16" using Cons.prems by auto
  have m: "0 \<le> b mod 16" "b mod 16 < 16" "0 \<le> c mod 16" "c mod 16 < 16" by auto
  have le: "b < c \<longleftrightarrow> b div 16 < c div 16 \<or> (b div 16 = c div 16 \<and> b mod 16 < c mod 16)"
    "b = c \<longleftrightarrow> b div 16 = c div 16 \<and> b mod 16 = c mod 16"
    using base16_less [OF m, of "b div 16" "c div 16"] by simp_all
  moreover have "(hex_encode bs < hex_encode cs \<longleftrightarrow> bs < cs) \<and> (hex_encode bs = hex_encode cs \<longleftrightarrow> bs = cs)" using Cons by simp
  ultimately show ?case unfolding step Cons_less_Cons list.inject nibble_less [OF n] nibble_less [OF m] by blast
qed (simp add: hex_encode_def)

abbreviation byte_value :: "int \<Rightarrow> int list \<Rightarrow> int" where
  "byte_value acc bs \<equiv> foldl (\<lambda>a b. a * 256 + b) acc bs"

lemma byte_value_acc: "byte_value acc bs = acc * 256 ^ length bs + byte_value 0 bs"
proof (induction bs arbitrary: acc)
  case (Cons b bs)
  show ?case using Cons [of "acc * 256 + b"] Cons [of b] by (simp add: distrib_right)
qed simp

lemma byte_value_bound: "\<forall>b \<in> set bs. 0 \<le> b \<and> b < 256 \<Longrightarrow> 0 \<le> byte_value 0 bs \<and> byte_value 0 bs < 256 ^ length bs"
proof (induction bs)
  case (Cons b bs)
  have "b * 256 ^ length bs + 256 ^ length bs \<le> 256 * 256 ^ length bs"
    using mult_right_mono [of "b + 1" 256 "256 ^ length bs"] Cons.prems by (simp add: distrib_right)
  moreover have "0 \<le> b * 256 ^ length bs" using Cons.prems by simp
  moreover have "byte_value 0 (b # bs) = b * 256 ^ length bs + byte_value 0 bs" using byte_value_acc [of b bs] by simp
  moreover have "0 \<le> byte_value 0 bs" "byte_value 0 bs < 256 ^ length bs" using Cons by auto
  ultimately show ?case unfolding length_Cons power_Suc by linarith
qed simp

lemma byte_value_less:
  "length bs = length cs \<Longrightarrow> \<forall>b \<in> set bs \<union> set cs. 0 \<le> b \<and> b < 256 \<Longrightarrow>
    (bs < cs \<longleftrightarrow> byte_value 0 bs < byte_value 0 cs) \<and> (bs = cs \<longleftrightarrow> byte_value 0 bs = byte_value 0 cs)"
proof (induction bs cs rule: list_induct2)
  case (Cons b bs c cs)
  let ?k = "256 ^ length bs :: int"
  have ih: "bs < cs \<longleftrightarrow> byte_value 0 bs < byte_value 0 cs" "bs = cs \<longleftrightarrow> byte_value 0 bs = byte_value 0 cs"
    using Cons by auto
  have v: "byte_value 0 (b # bs) = b * ?k + byte_value 0 bs" "byte_value 0 (c # cs) = c * ?k + byte_value 0 cs"
    using byte_value_acc [of b bs] byte_value_acc [of c cs] Cons.hyps by simp_all
  have bd: "0 \<le> byte_value 0 bs" "byte_value 0 bs < ?k" "0 \<le> byte_value 0 cs" "byte_value 0 cs < ?k"
    using byte_value_bound [of bs] byte_value_bound [of cs] Cons.prems Cons.hyps by auto
  have step: "x * ?k + ?k \<le> y * ?k" if "x < y" for x y :: int
    using mult_right_mono [of "x + 1" y ?k] that by (simp add: distrib_right)
  consider "b < c" | "b = c" | "c < b" by linarith
  then show ?case
  proof cases
    case 1
    then have "byte_value 0 (b # bs) < byte_value 0 (c # cs)" using v bd step [OF 1] by linarith
    then show ?thesis using 1 by simp
  next
    case 2
    then show ?thesis unfolding v using ih by simp
  next
    case 3
    then have "byte_value 0 (c # cs) < byte_value 0 (b # bs)" using v bd step [OF 3] by linarith
    then show ?thesis using 3 by simp
  qed
qed simp

lemma base_digits:
  assumes "0 < B"
  shows "foldl (\<lambda>a b. a * B + b) acc (map (\<lambda>i. n div B ^ i mod B) (rev [0..<k])) = acc * B ^ k + n mod (B ^ k :: int)"
proof (induction k arbitrary: acc)
  case (Suc k)
  have "n mod B ^ Suc k = B ^ k * (n div B ^ k mod B) + n mod B ^ k"
    using zmod_zmult2_eq [of B n "B ^ k"] assms by (simp add: mult.commute)
  then show ?case using Suc [of "acc * B + n div B ^ k mod B"] by (simp add: distrib_right)
qed simp

lemma word_bytes_digits: "word_bytes w = map (\<lambda>i. uint w div 256 ^ i mod 256) (rev [0..<8])"
proof -
  have "uint (ucast (drop_bit (8 * i) w) :: 8 word) = uint w div 256 ^ i mod 256" for i
    using uint_drop_bit_nat [of "8 * i" w]
    by (simp add: unsigned_ucast_eq take_bit_eq_mod drop_bit_eq_div power_mult)
  then show ?thesis by (simp add: word_bytes_def)
qed

lemma bytes16_shape:
  "length (bytes16 p) = 16" "\<forall>b \<in> set (bytes16 p). 0 \<le> b \<and> b < 256" "byte_value 0 (bytes16 p) = pair_value p"
proof -
  have b: "uint w < 256 ^ 8" for w :: "64 word" using uint_lt2p [of w] by simp
  show "length (bytes16 p) = 16" by (simp add: bytes16_def word_bytes_def)
  show "\<forall>b \<in> set (bytes16 p). 0 \<le> b \<and> b < 256" by (auto simp: bytes16_def word_bytes_digits)
  have "byte_value 0 (bytes16 p) = uint (fst p) mod 256 ^ 8 * 256 ^ 8 + uint (snd p) mod 256 ^ 8"
    unfolding bytes16_def word_bytes_digits foldl_append using base_digits [of 256] by simp
  also have "\<dots> = pair_value p" using b [of "fst p"] b [of "snd p"] by (simp add: pair_value_def mod_pos_pos_trivial)
  finally show "byte_value 0 (bytes16 p) = pair_value p" .
qed

definition addr_hex :: "64 word \<times> 64 word \<Rightarrow> string" where
  "addr_hex p = hex_encode (bytes16 p)"

lemma addr_hex_order: "addr_hex p \<le> addr_hex q \<longleftrightarrow> pair_value p \<le> pair_value q"
  and bytes16_order: "bytes16 p \<le> bytes16 q \<longleftrightarrow> pair_value p \<le> pair_value q"
proof -
  have l: "length (bytes16 p) = length (bytes16 q)" by (simp add: bytes16_shape)
  have b: "\<forall>b \<in> set (bytes16 p) \<union> set (bytes16 q). 0 \<le> b \<and> b < 256" using bytes16_shape(2) by blast
  show "bytes16 p \<le> bytes16 q \<longleftrightarrow> pair_value p \<le> pair_value q"
    using byte_value_less [OF l b] by (auto simp: bytes16_shape(3) le_less)
  then show "addr_hex p \<le> addr_hex q \<longleftrightarrow> pair_value p \<le> pair_value q"
    using hex_less [OF l b] by (auto simp: addr_hex_def le_less)
qed

subsection \<open>The published set covers the listed countries\<close>

lemma sorted_hex: "sorted (map fst xs) \<Longrightarrow> set xs \<subseteq> range (\<lambda>(p, q). (bytes16 p, bytes16 q)) \<Longrightarrow>
    sorted (map fst (map (\<lambda>(lo, hi). (hex_encode lo, hex_encode hi)) xs))"
proof (induction xs)
  case (Cons x xs)
  obtain p q where x: "x = (bytes16 p, bytes16 q)" using Cons.prems(2) by auto
  have "hex_encode (fst x) \<le> hex_encode (fst y)" if "y \<in> set xs" for y
  proof -
    have "y \<in> range (\<lambda>(p, q). (bytes16 p, bytes16 q))" using Cons.prems(2) that by auto
    then obtain p' q' where y: "y = (bytes16 p', bytes16 q')" by auto
    have "fst x \<le> fst y" using Cons.prems(1) that by auto
    then show ?thesis using addr_hex_order [of p p'] bytes16_order [of p p'] by (simp add: x y addr_hex_def)
  qed
  then show ?case using Cons by (auto split: prod.splits)
qed simp

lemma set_covers:
  assumes "SetFor U g cs = Some S"
  obtains ps4 ps6 where "gs_v4 S = flat ps4" "gs_v6 S = flat ps6" "\<not> (ps4 = [] \<and> ps6 = [])"
    "\<And>n. in_ranges ps4 n \<longleftrightarrow> (\<exists>r \<in> set (gi_v4 g). wanted U cs (r4_cc r) \<and> holds4 n r)"
    "\<And>n z. in_ranges ps6 (addr_hex (be64pair (V6 n z))) \<longleftrightarrow> (\<exists>r \<in> set (gi_v6 g). wanted U cs (r6_cc r) \<and> holds6 n r)"
    "list_all row4_ok (gi_v4 g) \<Longrightarrow> \<forall>r \<in> set (gi_v4 g). wanted U cs (r4_cc r) \<longrightarrow> r4_hi r \<noteq> - 1 \<Longrightarrow> apart ps4"
    "list_all row6_ok (gi_v6 g) \<Longrightarrow> apart ps6"
proof -
  let ?p4 = "picked4 U cs (gi_v4 g)" and ?p6 = "picked6 U cs (gi_v6 g)"
  let ?h6 = "map (\<lambda>(lo, hi). (hex_encode lo, hex_encode hi)) (sort_key fst ?p6)"
  have S: "gs_v4 S = merge_ranges touch4 [] (sort_key fst ?p4)" "gs_v6 S = merge_ranges touch6 [] ?h6"
    and ne: "\<not> (gs_v4 S = [] \<and> gs_v6 S = [])"
    using assms by (auto simp: SetFor_def Let_def split: if_splits)
  have r6: "set (sort_key fst ?p6) \<subseteq> range (\<lambda>(p, q). (bytes16 p, bytes16 q))" by (auto simp: picked6_def)
  obtain ps4 where p4: "merge_ranges touch4 [] (sort_key fst ?p4) = flat ps4" "\<And>x. in_ranges ps4 x \<longleftrightarrow> in_ranges (sort_key fst ?p4) x"
    "\<forall>r \<in> set (sort_key fst ?p4). fst r \<le> snd r \<and> snd r \<noteq> - 1 \<Longrightarrow> apart ps4" using merge4_exact [OF sorted_sort_key] by blast
  obtain ps6 where p6: "merge_ranges touch6 [] ?h6 = flat ps6" "\<And>x. in_ranges ps6 x \<longleftrightarrow> in_ranges ?h6 x"
    "\<forall>r \<in> set ?h6. fst r \<le> snd r \<Longrightarrow> apart ps6" using merge6_exact [OF sorted_hex [OF sorted_sort_key r6]] by blast
  show thesis
  proof
    show "gs_v4 S = flat ps4" "gs_v6 S = flat ps6" using S p4(1) p6(1) by simp_all
    then show "\<not> (ps4 = [] \<and> ps6 = [])" using ne by simp
    show "in_ranges ps4 n \<longleftrightarrow> (\<exists>r \<in> set (gi_v4 g). wanted U cs (r4_cc r) \<and> holds4 n r)" for n
      unfolding p4(2) by (auto simp: in_ranges_def picked4_def holds4_def)
    have "in_ranges ?h6 x \<longleftrightarrow> (\<exists>r \<in> set (gi_v6 g). wanted U cs (r6_cc r) \<and> addr_hex (lo_key r) \<le> x \<and> x \<le> addr_hex (hi_key r))" for x
      by (auto simp: in_ranges_def picked6_def addr_hex_def)
    then show "in_ranges ps6 (addr_hex (be64pair (V6 n z))) \<longleftrightarrow> (\<exists>r \<in> set (gi_v6 g). wanted U cs (r6_cc r) \<and> holds6 n r)" for n z
      unfolding p6(2) by (simp add: addr_hex_order be64pair_value holds6_def del: be64pair.simps)
    show "apart ps4" if "list_all row4_ok (gi_v4 g)" "\<forall>r \<in> set (gi_v4 g). wanted U cs (r4_cc r) \<longrightarrow> r4_hi r \<noteq> - 1"
      using that by (intro p4(3)) (auto simp: picked4_def list_all_iff row4_ok_def)
    show "apart ps6" if "list_all row6_ok (gi_v6 g)"
      using that by (intro p6(3)) (auto simp: picked6_def list_all_iff row6_ok_def addr_hex_order [unfolded addr_hex_def])
  qed
qed

subsection \<open>The name of a set\<close>

lemma wanted_set: "set cs = set ds \<Longrightarrow> wanted U cs = wanted U ds"
  by (auto simp: wanted_def fun_eq_iff)

text \<open>Two lists with the same entries have one name and one set.\<close>

lemma key_order: "mset cs = mset ds \<Longrightarrow> GeoSetKey cs = GeoSetKey ds \<and> SetFor U g cs = SetFor U g ds"
proof -
  assume m: "mset cs = mset ds"
  have "sort cs = sort ds" using m by (metis mset_sort sorted_list_of_multiset_mset)
  moreover have "wanted U cs = wanted U ds" using m by (metis wanted_set mset_eq_setD)
  then have "picked4 U cs = picked4 U ds" "picked6 U cs = picked6 U ds" by (simp_all add: picked4_def picked6_def fun_eq_iff)
  moreover have "length cs = length ds" "cs = [] \<longleftrightarrow> ds = []" using m by (auto dest: mset_eq_length)
  ultimately show ?thesis unfolding GeoSetKey_def SetFor_def by (simp only:)
qed

lemma join_split: "list_all (\<lambda>c. d \<notin> set c) cs \<Longrightarrow> cs \<noteq> [] \<Longrightarrow> split_on d (str_join [d] cs) = cs"
  by (induction "[d]" cs rule: str_join.induct) (auto simp: split_on_append)

text \<open>Lists of codes without a comma that have one name are the same list up to order.\<close>

lemma key_injective:
  assumes "list_all (\<lambda>c. CHR '','' \<notin> set c) cs" "list_all (\<lambda>c. CHR '','' \<notin> set c) ds" "cs \<noteq> []" "ds \<noteq> []"
    "GeoSetKey cs = GeoSetKey ds"
  shows "mset cs = mset ds"
proof -
  have "split_on CHR '','' (GeoSetKey xs) = sort xs" if "list_all (\<lambda>c. CHR '','' \<notin> set c) xs" "xs \<noteq> []" for xs
    using join_split [of "CHR '',''" "sort xs"] that by (simp add: GeoSetKey_def list_all_iff) (metis length_0_conv length_sort)
  then have "sort cs = sort ds" using assms by metis
  then show ?thesis by (metis mset_sort)
qed

subsection \<open>The countries of the dataset\<close>

record country_count =
  cc_code :: string
  cc_ranges :: nat

definition country_labels :: "(string \<Rightarrow> string) \<Rightarrow> geo_ip \<Rightarrow> string list" where
  "country_labels U g = map (go_to_upper U) (filter (\<lambda>cc. cc \<noteq> []) (map known (map r4_cc (gi_v4 g) @ map r6_cc (gi_v6 g))))"

definition Countries :: "(string \<Rightarrow> string) \<Rightarrow> geo_ip \<Rightarrow> country_count list" where
  "Countries U g =
     (let ls = country_labels U g
      in map (\<lambda>c. \<lparr>cc_code = c, cc_ranges = count_list ls c\<rparr>) (sort (remdups ls)))"

lemma merge_nonempty: "merge_ranges t [] rs = [] \<longleftrightarrow> rs = []"
proof -
  have "merge_acc t acc rs = [] \<longleftrightarrow> acc = [] \<and> rs = []" for acc
    by (induction t acc rs rule: merge_acc.induct) auto
  then show ?thesis using merge_flat [of t "[]" rs] by simp
qed

lemma sort_key_Nil: "sort_key f xs = [] \<longleftrightarrow> xs = []"
  by (metis length_0_conv length_sort)

lemma code_text:
  assumes "isCountryCode cc"
  shows "go_to_upper U (trim_space (go_to_upper U cc)) = go_to_upper U cc"
proof -
  have l: "is_letter c" if "c \<in> set cc" for c using assms that by (auto simp: isCountryCode_def list_all_iff)
  then have up: "is_upper (upper_char c)" if "c \<in> set cc" for c
    using that by (fastforce simp: is_letter_def upper_char_def is_upper_def is_lower_def)
  have "33 \<le> byte_of (upper_char c) \<and> byte_of (upper_char c) < 127" if "c \<in> set cc" for c
    using up [OF that] by (simp add: is_upper_def)
  then have t: "trim_space (map upper_char cc) = map upper_char cc" by (intro space_seqs_not_printable) auto
  have "is_ascii cc" "is_ascii (map upper_char cc)"
    using l up by (fastforce simp: is_ascii_def list_all_iff is_letter_def is_upper_def is_lower_def)+
  then show ?thesis using t by (simp add: go_to_upper_def)
qed

text \<open>
  every country the picker offers has ranges in the dataset, and a rule on it alone can be built as
  long as those stay within the ceiling; the number shown is the number of ranges that rule would pick.
\<close>

theorem country_picker_usable:
  assumes "list_all row4_ok (gi_v4 g)" "list_all row6_ok (gi_v6 g)" "c \<in> set (Countries U g)"
  shows "0 < cc_ranges c
    \<and> (cc_code c \<noteq> ''ZZ'' \<longrightarrow> cc_ranges c = length (picked4 U [cc_code c] (gi_v4 g)) + length (picked6 U [cc_code c] (gi_v6 g)))
    \<and> (length (picked4 U [cc_code c] (gi_v4 g)) + length (picked6 U [cc_code c] (gi_v6 g)) \<le> 250000 \<longrightarrow> SetFor U g [cc_code c] \<noteq> None)"
proof -
  let ?code = "cc_code c" and ?ccs = "map r4_cc (gi_v4 g) @ map r6_cc (gi_v6 g)"
  have ok: "isCountryCode cc" if "cc \<in> set ?ccs" for cc
    using that assms(1,2) by (auto simp: list_all_iff row4_ok_def row6_ok_def)
  have mem: "?code \<in> set (country_labels U g)" and n: "cc_ranges c = count_list (country_labels U g) ?code"
    using assms(3) by (auto simp: Countries_def Let_def)
  have pos: "0 < cc_ranges c" unfolding n using mem by (metis count_list_0_iff gr0I)
  obtain cc0 where cc0: "cc0 \<in> set ?ccs" "?code = go_to_upper U (known cc0)" "known cc0 \<noteq> []"
    using mem by (auto simp: country_labels_def)
  then have code: "?code = go_to_upper U cc0" by (simp add: known_def split: if_splits)
  have w: "wanted U [?code] cc \<longleftrightarrow> go_to_upper U cc = ?code" for cc
    using code_text [OF ok [OF cc0(1)]] by (auto simp: wanted_def code)
  have picks: "length (picked4 U [?code] (gi_v4 g)) + length (picked6 U [?code] (gi_v6 g))
      = length (filter (\<lambda>cc. go_to_upper U cc = ?code) ?ccs)"
    by (simp add: picked4_def picked6_def w filter_map comp_def)
  have "cc_ranges c = length (filter (\<lambda>cc. go_to_upper U cc = ?code) ?ccs)" if "?code \<noteq> ''ZZ''"
  proof -
    have cnt: "count_list (map f (filter P (map known xs))) k = length (filter (\<lambda>cc. f cc = k) xs)"
      if "\<forall>x \<in> set xs. f x = k \<longrightarrow> known x = x \<and> P x" "\<forall>x \<in> set xs. P (known x) \<longrightarrow> known x = x" for f P k and xs :: "string list"
      using that by (induction xs) auto
    have same: "go_to_upper U cc = ?code \<longrightarrow> known cc = cc \<and> cc \<noteq> []" if "cc \<in> set ?ccs" for cc
    proof
      assume u: "go_to_upper U cc = ?code"
      have "go_to_upper U ''ZZ'' = ''ZZ''" by (simp add: go_to_upper_def is_ascii_def byte_of_def upper_char_def is_lower_def)
      then show "known cc = cc \<and> cc \<noteq> []" using u \<open>?code \<noteq> ''ZZ''\<close> ok [OF that] by (auto simp: known_def isCountryCode_def)
    qed
    show ?thesis unfolding n country_labels_def
      by (rule cnt) (use same in \<open>blast, simp add: known_def\<close>)
  qed
  moreover have "SetFor U g [?code] \<noteq> None"
    if "length (picked4 U [?code] (gi_v4 g)) + length (picked6 U [?code] (gi_v6 g)) \<le> 250000"
  proof -
    have "filter (\<lambda>cc. go_to_upper U cc = ?code) ?ccs \<noteq> []" using cc0(1) code by (auto simp: filter_empty_conv)
    then have ne: "\<not> (picked4 U [?code] (gi_v4 g) = [] \<and> picked6 U [?code] (gi_v6 g) = [])"
      using picks by (metis add.right_neutral length_0_conv)
    then have "\<not> (gi_v4 g = [] \<and> gi_v6 g = [])" by (auto simp: picked4_def picked6_def)
    then show ?thesis using that ne
      by (simp add: SetFor_def Let_def maxGeoRanges_def maxGeoCountries_def merge_nonempty sort_key_Nil)
  qed
  ultimately show ?thesis using pos picks by simp
qed

lemma country_picker_usable_witness:
  "Countries (\<lambda>x. x) demo_geo = [\<lparr>cc_code = ''AU'', cc_ranges = 1\<rparr>] \<and> SetFor (\<lambda>x. x) demo_geo [''AU''] \<noteq> None"
proof -
  let ?c = "\<lparr>cc_code = ''AU'', cc_ranges = 1\<rparr>"
  have c: "Countries (\<lambda>x. x) demo_geo = [?c]"
    by (simp add: Countries_def country_labels_def demo_geo_def known_def go_to_upper_def is_ascii_def byte_of_def upper_char_def is_lower_def)
  moreover have "list_all row4_ok (gi_v4 demo_geo)" "list_all row6_ok (gi_v6 demo_geo)"
    by (simp_all add: demo_geo_def row4_ok_def isCountryCode_def is_letter_def is_upper_def byte_of_def)
  moreover have "length (picked4 (\<lambda>x. x) [cc_code ?c] (gi_v4 demo_geo)) + length (picked6 (\<lambda>x. x) [cc_code ?c] (gi_v6 demo_geo)) \<le> 250000"
    by (simp add: picked4_def picked6_def demo_geo_def)
  ultimately have "SetFor (\<lambda>x. x) demo_geo [cc_code ?c] \<noteq> None"
    using country_picker_usable [of demo_geo ?c "\<lambda>x. x"] by simp
  then show ?thesis using c by simp
qed

end
