(* ===== verification/DataplaneGeo.thy ===== *)
theory DataplaneGeo
  imports EngineGeoSets
begin

section \<open>The data plane: is an address in a published set\<close>

text \<open>
  The search of \<open>dataplane/lua/moswaf/geo.lua\<close> over the list the control plane published: \<open>in_v4\<close> and
  \<open>in_v6\<close> are the same loop over numbers and over strings, \<open>flat_search\<close>. The bounds of the loop are
  Lua's, counted from 1, so the entry \<open>list[i]\<close> is \<open>xs ! (i - 1)\<close>. \<open>contains\<close> answers nil (\<open>None\<close>)
  when there is no set or no list of the family; the parsing of the address text is left out, so it
  takes the address. \<open>refuses\<close> is the verdict.

  The lemmas say that the search is exact on a list whose ranges are in order and apart.
\<close>

function flat_search :: "'k::linorder list \<Rightarrow> 'k \<Rightarrow> int \<Rightarrow> int \<Rightarrow> bool" where
  "flat_search xs n lo hi =
     (if lo \<le> hi then
        (let mid = (lo + hi) div 2; i = mid * 2 - 1
         in if n < xs ! nat (i - 1) then flat_search xs n lo (mid - 1)
            else if n > xs ! nat i then flat_search xs n (mid + 1) hi
            else True)
      else False)"
  by auto
termination by (relation "measure (\<lambda>(xs, n, lo, hi). nat (hi - lo + 1))") auto

declare flat_search.simps [simp del]

definition in_flat :: "'k::linorder list \<Rightarrow> 'k \<Rightarrow> bool" where
  "in_flat xs n = flat_search xs n 1 (int (length xs) div 2)"

text \<open>\<open>util.ipv6_groups\<close> and \<open>%04x\<close> for each group.\<close>

definition v6_groups :: "128 word \<Rightarrow> int list" where
  "v6_groups w = map (\<lambda>i. uint (ucast (drop_bit (16 * i) w) :: 16 word)) (rev [0..<8])"

definition hex4 :: "int \<Rightarrow> string" where
  "hex4 g = [hex_nibble (g div 4096), hex_nibble (g div 256 mod 16), hex_nibble (g div 16 mod 16), hex_nibble (g mod 16)]"

definition v6_hex :: "128 word \<Rightarrow> string" where
  "v6_hex w = concat (map hex4 (v6_groups w))"

definition geo_contains :: "geo_set option \<Rightarrow> addr \<Rightarrow> bool option" where
  "geo_contains S a =
     (case S of None \<Rightarrow> None
      | Some S \<Rightarrow>
          (case unmap_addr a of
             V4 n \<Rightarrow> if gs_v4 S = [] then None else Some (in_flat (gs_v4 S) n)
           | V6 w _ \<Rightarrow> if gs_v6 S = [] then None else Some (in_flat (gs_v6 S) (v6_hex w))))"

definition geo_refuses :: "string \<Rightarrow> geo_set option \<Rightarrow> addr \<Rightarrow> bool" where
  "geo_refuses mode S a =
     (if mode \<noteq> ''block'' \<and> mode \<noteq> ''allow'' then False
      else case geo_contains S a of None \<Rightarrow> False | Some inside \<Rightarrow> if mode = ''block'' then inside else \<not> inside)"

lemma flat_search_step:
  assumes "1 \<le> lo" "lo \<le> hi" "hi \<le> int (length ps)"
  defines "m \<equiv> nat ((lo + hi) div 2) - 1"
  shows "flat_search (flat ps) n lo hi =
      (if n < fst (ps ! m) then flat_search (flat ps) n lo (int m)
       else if n > snd (ps ! m) then flat_search (flat ps) n (2 + int m) hi else True)"
    and "m < length ps" "lo \<le> int m + 1" "int m + 1 \<le> hi"
proof -
  have mid: "lo \<le> (lo + hi) div 2" "(lo + hi) div 2 \<le> hi" using assms(2) by linarith+
  then have e: "(lo + hi) div 2 = int m + 1" using assms(1) by (simp add: m_def)
  then show m: "m < length ps" "lo \<le> int m + 1" "int m + 1 \<le> hi" using mid assms(3) by linarith+
  have i: "nat ((int m + 1) * 2 - 1 - 1) = 2 * m" "nat ((int m + 1) * 2 - 1) = 2 * m + 1"
    using nat_int [of "2 * m"] nat_int [of "2 * m + 1"] by (simp_all add: distrib_right)
  show "flat_search (flat ps) n lo hi =
      (if n < fst (ps ! m) then flat_search (flat ps) n lo (int m)
       else if n > snd (ps ! m) then flat_search (flat ps) n (2 + int m) hi else True)"
    using assms(2) flat_nth [OF m(1)] by (subst flat_search.simps) (simp only: e i Let_def if_True, simp)
qed

lemma flat_search_exact:
  assumes "apart ps"
  shows "1 \<le> lo \<Longrightarrow> hi \<le> int (length ps) \<Longrightarrow>
    flat_search (flat ps) n lo hi \<longleftrightarrow>
      (\<exists>k < length ps. lo \<le> int k + 1 \<and> int k + 1 \<le> hi \<and> fst (ps ! k) \<le> n \<and> n \<le> snd (ps ! k))"
proof (induction "nat (hi - lo + 1)" arbitrary: lo hi rule: less_induct)
  case less
  have order: "snd (ps ! i) < fst (ps ! j)" if "i < j" "j < length ps" for i j
    using assms that by (simp add: apart_def sorted_wrt_iff_nth_less)
  have wf: "fst (ps ! i) \<le> snd (ps ! i)" if "i < length ps" for i using assms that by (simp add: apart_def)
  show ?case
  proof (cases "lo \<le> hi")
    case False
    then show ?thesis by (subst flat_search.simps) auto
  next
    case True
    obtain m where step: "flat_search (flat ps) n lo hi =
      (if n < fst (ps ! m) then flat_search (flat ps) n lo (int m)
       else if n > snd (ps ! m) then flat_search (flat ps) n (2 + int m) hi else True)"
      and m: "m < length ps" "lo \<le> int m + 1" "int m + 1 \<le> hi"
      using flat_search_step [OF less.prems(1) True less.prems(2)] by blast
    consider "n < fst (ps ! m)" | "snd (ps ! m) < n" "\<not> n < fst (ps ! m)"
      | "\<not> n < fst (ps ! m)" "\<not> snd (ps ! m) < n" by blast
    then show ?thesis
    proof cases
      case 1
      have "k < m" if "k < length ps" "fst (ps ! k) \<le> n" for k
      proof (rule ccontr)
        assume "\<not> k < m"
        then have "fst (ps ! m) \<le> fst (ps ! k)"
          using order [of m k] wf [OF m(1)] that(1) by (cases "k = m") (auto intro: order_trans less_imp_le)
        then show False using that(2) 1 by simp
      qed
      moreover have "nat (int m - lo + 1) < nat (hi - lo + 1)" "int m \<le> int (length ps)" using m by linarith+
      ultimately show ?thesis using less.hyps [of "int m" lo] less.prems(1) m(3) 1 step by fastforce
    next
      case 2
      have "m < k" if "k < length ps" "n \<le> snd (ps ! k)" for k
      proof (rule ccontr)
        assume "\<not> m < k"
        then have "snd (ps ! k) \<le> snd (ps ! m)"
          using order [of k m] wf [OF m(1)] m(1) by (cases "k = m") (auto intro: order_trans less_imp_le)
        then show False using that(2) 2 by simp
      qed
      moreover have "nat (hi - (2 + int m) + 1) < nat (hi - lo + 1)" using m by linarith
      ultimately show ?thesis using less.hyps [of hi "2 + int m"] less.prems m(2) 2 step by fastforce
    next
      case 3
      then show ?thesis using step m by (auto intro!: exI [of _ m])
    qed
  qed
qed

lemma in_flat_exact: "apart ps \<Longrightarrow> in_flat (flat ps) n \<longleftrightarrow> in_ranges ps n"
proof -
  assume "apart ps"
  then have "in_flat (flat ps) n \<longleftrightarrow> (\<exists>k < length ps. fst (ps ! k) \<le> n \<and> n \<le> snd (ps ! k))"
    unfolding in_flat_def using flat_search_exact [of ps 1 "int (length ps)" n] by auto
  then show ?thesis unfolding in_ranges_def by (metis in_set_conv_nth)
qed

subsection \<open>The text of an IPv6 address\<close>

lemma hex4_bytes: "0 \<le> g \<Longrightarrow> g < 65536 \<Longrightarrow> hex4 g = hex_encode [g div 256, g mod 256]"
proof -
  have "g div 256 div 16 = g div 4096" by (simp add: zdiv_zmult2_eq [symmetric])
  moreover have "g mod 256 = 16 * (g div 16 mod 16) + g mod 16" using zmod_zmult2_eq [of 16 g 16] by simp
  then have "g mod 256 div 16 = g div 16 mod 16" "g mod 256 mod 16 = g mod 16" by (simp_all add: mod_mod_cancel)
  ultimately show ?thesis by (simp add: hex4_def hex_encode_def)
qed

lemma group_value: "foldl (\<lambda>a b. a * 256 + b) acc (concat (map (\<lambda>g. [g div 256, g mod 256]) gs)) = foldl (\<lambda>a g. a * 65536 + g) acc (gs :: int list)"
proof (induction gs arbitrary: acc)
  case (Cons g gs)
  have "(acc * 256 + g div 256) * 256 + g mod 256 = acc * 65536 + g" by (simp add: distrib_right)
  then show ?case by (simp only: list.map concat.simps append.simps foldl.simps Cons)
qed simp

lemma v6_groups_digits: "v6_groups w = map (\<lambda>i. uint w div 65536 ^ i mod 65536) (rev [0..<8])"
proof -
  have "uint (ucast (drop_bit (16 * i) w) :: 16 word) = uint w div 65536 ^ i mod 65536" for i
    using uint_drop_bit_nat [of "16 * i" w]
    by (simp add: unsigned_ucast_eq take_bit_eq_mod drop_bit_eq_div power_mult)
  then show ?thesis by (simp add: v6_groups_def)
qed

text \<open>The text the data plane searches with is the text the control plane publishes for that address.\<close>

lemma v6_hex_addr: "v6_hex w = addr_hex (be64pair (V6 w z))"
proof -
  let ?gs = "v6_groups w"
  let ?bs = "concat (map (\<lambda>g. [g div 256, g mod 256]) ?gs)"
  have r: "0 \<le> g \<and> g < 65536" if "g \<in> set ?gs" for g using that by (auto simp: v6_groups_digits)
  have "hex_encode (concat (map (\<lambda>g. [g div 256, g mod 256]) gs)) = concat (map hex4 gs)" if "\<forall>g \<in> set gs. 0 \<le> g \<and> g < 65536" for gs
    using that hex4_bytes by (induction gs) (auto simp: hex_encode_def)
  then have h: "hex_encode ?bs = v6_hex w" using r by (simp add: v6_hex_def)
  have "foldl (\<lambda>a g. a * 65536 + g) 0 ?gs = uint w"
    using base_digits [of 65536 0 "uint w" 8] uint_lt2p [of w] by (simp add: v6_groups_digits mod_pos_pos_trivial)
  then have val: "foldl (\<lambda>a b. a * 256 + b) 0 ?bs = pair_value (be64pair (V6 w z))"
    unfolding group_value be64pair_value .
  have len: "length ?bs = length (bytes16 (be64pair (V6 w z)))" by (simp add: bytes16_shape v6_groups_def length_concat comp_def sum_list_triv del: be64pair.simps)
  have "\<forall>b \<in> set (concat (map (\<lambda>g. [g div 256, g mod 256]) gs)). 0 \<le> b \<and> b < 256"
    if "\<forall>g \<in> set gs. 0 \<le> g \<and> g < 65536" for gs :: "int list" using that by (induction gs) auto
  from this [of ?gs] have "\<forall>b \<in> set ?bs. 0 \<le> b \<and> b < 256" using r by simp
  then have "\<forall>b \<in> set ?bs \<union> set (bytes16 (be64pair (V6 w z))). 0 \<le> b \<and> b < 256"
    unfolding ball_Un by (rule conjI [OF _ bytes16_shape(2)])
  note same = byte_value_less [OF len this, THEN conjunct2]
  have "?bs = bytes16 (be64pair (V6 w z))" unfolding same bytes16_shape(3) by (rule val)
  then show ?thesis using h by (simp add: addr_hex_def)
qed

subsection \<open>What a country rule refuses\<close>

text \<open>
  The reference speaks of the rows of the dataset and of the countries of the rule only: the rows that
  carry a listed country, an address in one of them, whether the rows of its family are there at all, and
  whether there are few enough rows for the rule to be applied.
\<close>

definition listed :: "(string \<Rightarrow> string) \<Rightarrow> string list \<Rightarrow> string \<Rightarrow> bool" where
  "listed U cs cc \<longleftrightarrow> list_ex (\<lambda>c. go_to_upper U (trim_space c) = go_to_upper U cc) cs"

definition in_countries :: "(string \<Rightarrow> string) \<Rightarrow> geo_ip \<Rightarrow> string list \<Rightarrow> addr \<Rightarrow> bool" where
  "in_countries U g cs a =
     (case unmap_addr a of
        V4 n \<Rightarrow> list_ex (\<lambda>r. listed U cs (r4_cc r) \<and> holds4 n r) (gi_v4 g)
      | V6 n z \<Rightarrow> list_ex (\<lambda>r. listed U cs (r6_cc r) \<and> holds6 n r) (gi_v6 g))"

definition family_listed :: "(string \<Rightarrow> string) \<Rightarrow> geo_ip \<Rightarrow> string list \<Rightarrow> addr \<Rightarrow> bool" where
  "family_listed U g cs a =
     (case unmap_addr a of
        V4 n \<Rightarrow> list_ex (\<lambda>r. listed U cs (r4_cc r)) (gi_v4 g)
      | V6 n z \<Rightarrow> list_ex (\<lambda>r. listed U cs (r6_cc r)) (gi_v6 g))"

definition listed_rows :: "(string \<Rightarrow> string) \<Rightarrow> geo_ip \<Rightarrow> string list \<Rightarrow> nat" where
  "listed_rows U g cs =
     length (filter (\<lambda>r. listed U cs (r4_cc r)) (gi_v4 g)) + length (filter (\<lambda>r. listed U cs (r6_cc r)) (gi_v6 g))"

definition answerable :: "(string \<Rightarrow> string) \<Rightarrow> geo_ip \<Rightarrow> string list \<Rightarrow> bool" where
  "answerable U g cs \<longleftrightarrow> length cs \<le> 60 \<and> 0 < listed_rows U g cs \<and> listed_rows U g cs \<le> 250000"

definition ends_last :: "(string \<Rightarrow> string) \<Rightarrow> geo_ip \<Rightarrow> string list \<Rightarrow> bool" where
  "ends_last U g cs = list_ex (\<lambda>r. listed U cs (r4_cc r) \<and> r4_hi r = - 1) (gi_v4 g)"

lemma listed_wanted: "listed U cs = wanted U cs"
  by (auto simp: listed_def wanted_def list_ex_iff fun_eq_iff image_iff intro: sym)

lemma set_for_answerable: "SetFor U g cs \<noteq> None \<longleftrightarrow> answerable U g cs"
proof -
  have n: "length (picked4 U cs (gi_v4 g)) + length (picked6 U cs (gi_v6 g)) = listed_rows U g cs"
    by (simp add: picked4_def picked6_def listed_rows_def listed_wanted)
  have e: "picked4 U cs (gi_v4 g) = [] \<and> picked6 U cs (gi_v6 g) = [] \<longleftrightarrow> listed_rows U g cs = 0"
    unfolding n [symmetric] by simp
  have "listed_rows U g [] = 0" by (simp add: listed_rows_def listed_def)
  moreover have "listed_rows U g cs = 0" if "gi_v4 g = []" "gi_v6 g = []" using that by (simp add: listed_rows_def)
  ultimately show ?thesis using e
    by (auto simp: SetFor_def Let_def n maxGeoRanges_def maxGeoCountries_def merge_nonempty sort_key_Nil answerable_def)
qed

lemma family_set:
  assumes "SetFor U g cs = Some S"
  shows "geo_contains (Some S) a \<noteq> None \<longleftrightarrow> family_listed U g cs a"
proof -
  have "gs_v4 S \<noteq> [] \<longleftrightarrow> picked4 U cs (gi_v4 g) \<noteq> []" "gs_v6 S \<noteq> [] \<longleftrightarrow> picked6 U cs (gi_v6 g) \<noteq> []"
    using assms by (auto simp: SetFor_def Let_def merge_nonempty sort_key_Nil split: if_splits)
  then show ?thesis
    by (auto simp: geo_contains_def family_listed_def picked4_def picked6_def listed_wanted filter_empty_conv list_ex_iff split: addr.splits)
qed

lemma contains_exact:
  assumes "SetFor U g cs = Some S" "list_all row4_ok (gi_v4 g)" "list_all row6_ok (gi_v6 g)" "\<not> ends_last U g cs"
  shows "geo_contains (Some S) a \<in> {None, Some (in_countries U g cs a)}"
    "geo_contains (Some S) a = None \<Longrightarrow> \<not> in_countries U g cs a"
proof -
  obtain ps4 ps6 where S: "gs_v4 S = flat ps4" "gs_v6 S = flat ps6"
    and c4: "\<And>n. in_ranges ps4 n \<longleftrightarrow> (\<exists>r \<in> set (gi_v4 g). wanted U cs (r4_cc r) \<and> holds4 n r)"
    and c6: "\<And>n z. in_ranges ps6 (addr_hex (be64pair (V6 n z))) \<longleftrightarrow> (\<exists>r \<in> set (gi_v6 g). wanted U cs (r6_cc r) \<and> holds6 n r)"
    and apart: "apart ps4" "apart ps6"
  proof -
    have "\<forall>r \<in> set (gi_v4 g). wanted U cs (r4_cc r) \<longrightarrow> r4_hi r \<noteq> - 1" using assms(4) by (auto simp: ends_last_def list_ex_iff listed_wanted)
    then show thesis using set_covers [OF assms(1), of thesis] that assms(2,3) by blast
  qed
  have 4: "in_flat (flat ps4) n \<longleftrightarrow> list_ex (\<lambda>r. listed U cs (r4_cc r) \<and> holds4 n r) (gi_v4 g)" for n
    using in_flat_exact [OF apart(1)] c4 by (simp add: list_ex_iff Bex_def listed_wanted)
  have 6: "in_flat (flat ps6) (v6_hex n) \<longleftrightarrow> list_ex (\<lambda>r. listed U cs (r6_cc r) \<and> holds6 n r) (gi_v6 g)" for n
    using in_flat_exact [OF apart(2)] c6 by (simp add: list_ex_iff Bex_def listed_wanted v6_hex_addr [of n "[]"] del: be64pair.simps)
  show "geo_contains (Some S) a \<in> {None, Some (in_countries U g cs a)}"
    by (cases "unmap_addr a") (simp_all add: geo_contains_def in_countries_def S 4 6)
  show "\<not> in_countries U g cs a" if "geo_contains (Some S) a = None"
    using that c4 c6 by (cases "unmap_addr a") (auto simp: listed_wanted geo_contains_def in_countries_def S list_ex_iff split: if_splits)
qed

text \<open>
  for every address, a published country rule decides what the dataset says: a block rule refuses
  exactly the addresses in a row of a listed country, an allow rule none of those, and no rule refuses
  anything without a set. This needs that no listed IPv4 range ends at 255.255.255.255: the merge
  computes its end plus one in 32 bits, and the searched list is then out of order.
\<close>

theorem country_rule_exact:
  assumes "SetFor U g cs = Some S" "list_all row4_ok (gi_v4 g)" "list_all row6_ok (gi_v6 g)" "\<not> ends_last U g cs"
  shows "(geo_refuses ''block'' (Some S) a \<longleftrightarrow> in_countries U g cs a)
    \<and> (geo_refuses ''allow'' (Some S) a \<longleftrightarrow> \<not> in_countries U g cs a \<and> geo_contains (Some S) a \<noteq> None)
    \<and> \<not> geo_refuses mode None a \<and> \<not> geo_refuses ''off'' (Some S) a"
proof -
  have "geo_contains None a = None" by (simp add: geo_contains_def)
  moreover have "geo_contains (Some S) a = None \<and> \<not> in_countries U g cs a \<or> geo_contains (Some S) a = Some (in_countries U g cs a)"
    using contains_exact [OF assms, of a] by auto
  ultimately show ?thesis by (auto simp: geo_refuses_def)
qed

definition demo_set :: geo_set where
  "demo_set = \<lparr>gs_v4 = [0x01000000, 0x010000ff], gs_v6 = []\<rparr>"

lemma demo_picked:
  "picked4 (\<lambda>x. x) [''AU''] (gi_v4 demo_geo) = [(0x01000000, 0x010000ff)]" "picked6 (\<lambda>x. x) [''AU''] (gi_v6 demo_geo) = []"
  by code_simp+

lemma demo_set_for: "SetFor (\<lambda>x. x) demo_geo [''AU''] = Some demo_set"
proof -
  have "\<not> (gi_v4 demo_geo = [] \<and> gi_v6 demo_geo = [])" by (simp add: demo_geo_def)
  then show ?thesis by (simp add: SetFor_def demo_picked maxGeoCountries_def maxGeoRanges_def demo_set_def)
qed

lemma country_rule_exact_witness:
  "SetFor (\<lambda>x. x) demo_geo [''AU''] = Some demo_set
   \<and> geo_refuses ''block'' (Some demo_set) (V4 0x01000007) \<and> \<not> geo_refuses ''block'' (Some demo_set) (V4 0x02000007)"
proof -
  have "list_all row4_ok (gi_v4 demo_geo)" "list_all row6_ok (gi_v6 demo_geo)" "\<not> ends_last (\<lambda>x. x) demo_geo [''AU'']"
    by code_simp+
  note r = country_rule_exact [OF demo_set_for this]
  have "in_countries (\<lambda>x. x) demo_geo [''AU''] (V4 0x01000007)" "\<not> in_countries (\<lambda>x. x) demo_geo [''AU''] (V4 0x02000007)"
    by code_simp+
  then show ?thesis using r demo_set_for by blast
qed

definition wrap_geo :: geo_ip where
  "wrap_geo = demo_geo\<lparr>gi_v4 := [\<lparr>r4_lo = 0xe1000000, r4_hi = 0xe10000ff, r4_cc = ''AU''\<rparr>, \<lparr>r4_lo = 0xe2000000, r4_hi = 0xe20000ff, r4_cc = ''AU''\<rparr>,
     \<lparr>r4_lo = 0xe0000000, r4_hi = 0xffffffff, r4_cc = ''AU''\<rparr>]\<rparr>"

text \<open>
  with nested ranges that end at 255.255.255.255 a visitor of the blocked country is let in.
\<close>

theorem last_range_hidden:
  "\<exists>S. SetFor (\<lambda>x. x) wrap_geo [''AU''] = Some S \<and> in_countries (\<lambda>x. x) wrap_geo [''AU''] (V4 0xe7000001)
     \<and> \<not> geo_refuses ''block'' (Some S) (V4 0xe7000001)"
proof -
  let ?S = "\<lparr>gs_v4 = [0xe0000000, 0xffffffff, 0xe1000000, 0xe10000ff, 0xe2000000, 0xe20000ff], gs_v6 = []\<rparr>"
  have p: "picked4 (\<lambda>x. x) [''AU''] (gi_v4 wrap_geo) = [(0xe1000000, 0xe10000ff), (0xe2000000, 0xe20000ff), (0xe0000000, 0xffffffff)]"
    "picked6 (\<lambda>x. x) [''AU''] (gi_v6 wrap_geo) = []" by code_simp+
  have m: "merge_ranges touch4 [] (sort_key fst [(0xe1000000, 0xe10000ff), (0xe2000000, 0xe20000ff), (0xe0000000, 0xffffffff)])
      = gs_v4 ?S" by code_simp
  have "\<not> (gi_v4 wrap_geo = [] \<and> gi_v6 wrap_geo = [])" by (simp add: wrap_geo_def demo_geo_def)
  then have "SetFor (\<lambda>x. x) wrap_geo [''AU''] = Some ?S"
    unfolding SetFor_def p Let_def m by (simp add: maxGeoCountries_def maxGeoRanges_def)
  moreover have "in_countries (\<lambda>x. x) wrap_geo [''AU''] (V4 0xe7000001)" by code_simp
  moreover have "\<not> geo_refuses ''block'' (Some ?S) (V4 0xe7000001)" by code_simp
  ultimately show ?thesis by blast
qed

end
