(* ===== verification/EngineGeoResolve.thy ===== *)
theory EngineGeoResolve
  imports DataplaneGeo StoreAccessRules
begin

section \<open>The engine: which country rule applies where\<close>

text \<open>
  \<open>control/internal/engine/georesolve.go\<close>: once per publication, \<open>build\<close> registers the ranges of every
  rule that is used, \<open>forSite\<close> resolves inheritance and \<open>setFor\<close> names the set of a condition. The
  resolver is its two maps, as association lists with the newest entry first, and the global rule.
  The log lines are left out.
\<close>

record geo_resolver =
  gr_sets :: "(string \<times> geo_set) list"
  gr_failed :: "string list"
  gr_globalMode :: string
  gr_globalSet :: string

definition new_resolver :: geo_resolver where
  "new_resolver = \<lparr>gr_sets = [], gr_failed = [], gr_globalMode = [], gr_globalSet = []\<rparr>"

definition build :: "(string \<Rightarrow> string) \<Rightarrow> geo_ip \<Rightarrow> string \<Rightarrow> string list \<Rightarrow> geo_resolver \<Rightarrow> (string \<times> string) \<times> geo_resolver" where
  "build U g mode countries r =
     (if mode \<noteq> ''block'' \<and> mode \<noteq> ''allow'' then ((''off'', []), r)
      else let key = GeoSetKey countries in
        if map_of (gr_sets r) key \<noteq> None then ((mode, key), r)
        else if List.member (gr_failed r) key then ((''off'', []), r)
        else case SetFor U g countries of
          None \<Rightarrow> ((''off'', []), r\<lparr>gr_failed := key # gr_failed r\<rparr>)
        | Some S \<Rightarrow> ((mode, key), r\<lparr>gr_sets := (key, S) # gr_sets r\<rparr>))"

fun build_sites :: "(string \<Rightarrow> string) \<Rightarrow> geo_ip \<Rightarrow> site list \<Rightarrow> geo_resolver \<Rightarrow> geo_resolver" where
  "build_sites U g [] r = r"
| "build_sites U g (s # ss) r =
     build_sites U g ss
       (if \<not> s_enabled s \<or> s_geoMode s = [] then r else snd (build U g (s_geoMode s) (s_geoCountries s) r))"

fun build_conditions :: "(string \<Rightarrow> string) \<Rightarrow> geo_ip \<Rightarrow> rule_condition list \<Rightarrow> geo_resolver \<Rightarrow> geo_resolver" where
  "build_conditions U g [] r = r"
| "build_conditions U g (c # cs) r =
     build_conditions U g cs (if rc_field c = ''country'' then snd (build U g ''block'' (rc_values c) r) else r)"

fun build_rules :: "(string \<Rightarrow> string) \<Rightarrow> geo_ip \<Rightarrow> access_rule list \<Rightarrow> geo_resolver \<Rightarrow> geo_resolver" where
  "build_rules U g [] r = r"
| "build_rules U g (a # as) r =
     build_rules U g as (if \<not> ar_enabled a then r else build_conditions U g (ar_conditions a) r)"

text \<open>\<open>None\<close> is a publisher without geolocation.\<close>

definition resolveGeo ::
  "(string \<Rightarrow> string) \<Rightarrow> geo_ip option \<Rightarrow> settings \<Rightarrow> site list \<Rightarrow> access_rule list \<Rightarrow> geo_resolver" where
  "resolveGeo U geo st sites rules =
     (case geo of
        None \<Rightarrow> new_resolver
      | Some g \<Rightarrow>
          (case build U g (st_geoMode st) (st_geoCountries st) new_resolver of
             ((m, k), r) \<Rightarrow> build_rules U g rules (build_sites U g sites (r\<lparr>gr_globalMode := m, gr_globalSet := k\<rparr>))))"

definition geo_set_for :: "geo_resolver \<Rightarrow> string list \<Rightarrow> string option" where
  "geo_set_for r countries =
     (let key = GeoSetKey countries in if map_of (gr_sets r) key = None then None else Some key)"

definition forSite :: "geo_resolver \<Rightarrow> site \<Rightarrow> string \<times> string" where
  "forSite r s =
     (if s_geoMode s = [] then (gr_globalMode r, gr_globalSet r)
      else if s_geoMode s \<noteq> ''block'' \<and> s_geoMode s \<noteq> ''allow'' then (''off'', [])
      else let key = GeoSetKey (s_geoCountries s) in
        if map_of (gr_sets r) key = None then (''off'', []) else (s_geoMode s, key))"

subsection \<open>The invariant of a resolver\<close>

text \<open>
  Codes hold no comma, as the validation of rules makes them. Every set was built for a list with its
  name, and every list that failed cannot be built.
\<close>

definition codes :: "string list \<Rightarrow> bool" where
  "codes cs \<longleftrightarrow> list_all (\<lambda>c. c \<noteq> [] \<and> CHR '','' \<notin> set c) cs"

definition resolver_ok :: "(string \<Rightarrow> string) \<Rightarrow> geo_ip \<Rightarrow> geo_resolver \<Rightarrow> bool" where
  "resolver_ok U g r \<longleftrightarrow>
     (\<forall>key S. map_of (gr_sets r) key = Some S \<longrightarrow> (\<exists>cs. codes cs \<and> GeoSetKey cs = key \<and> SetFor U g cs = Some S))
     \<and> (\<forall>key \<in> set (gr_failed r). \<exists>cs. codes cs \<and> GeoSetKey cs = key \<and> SetFor U g cs = None)"

definition attempted :: "geo_resolver \<Rightarrow> string list \<Rightarrow> bool" where
  "attempted r cs \<longleftrightarrow> GeoSetKey cs \<in> fst ` set (gr_sets r) \<union> set (gr_failed r)"

definition grows :: "geo_resolver \<Rightarrow> geo_resolver \<Rightarrow> bool" where
  "grows r r' \<longleftrightarrow> fst ` set (gr_sets r) \<subseteq> fst ` set (gr_sets r') \<and> set (gr_failed r) \<subseteq> set (gr_failed r')
     \<and> gr_globalMode r' = gr_globalMode r \<and> gr_globalSet r' = gr_globalSet r"

lemma grows_refl [simp]: "grows r r" by (simp add: grows_def)

lemma grows_trans: "grows r r' \<Longrightarrow> grows r' r'' \<Longrightarrow> grows r r''" by (auto simp: grows_def)

lemma grows_attempted: "grows r r' \<Longrightarrow> attempted r cs \<Longrightarrow> attempted r' cs" by (auto simp: grows_def attempted_def)

lemma codes_key_order: "codes cs \<Longrightarrow> codes ds \<Longrightarrow> GeoSetKey cs = GeoSetKey ds \<Longrightarrow> SetFor U g cs = SetFor U g ds"
proof -
  assume c: "codes cs" "codes ds" and k: "GeoSetKey cs = GeoSetKey ds"
  have nil: "GeoSetKey xs = [] \<longleftrightarrow> xs = []" if "codes xs" for xs
  proof -
    have "str_join '','' ys = [] \<longleftrightarrow> ys = []" if "codes ys" for ys
      using that by (induction "'',''" ys rule: str_join.induct) (auto simp: codes_def)
    then show ?thesis using that by (auto simp: GeoSetKey_def codes_def list_all_iff sort_key_Nil)
  qed
  show ?thesis
  proof (cases "cs = []")
    case True
    then show ?thesis using nil c k by metis
  next
    case False
    then have "ds \<noteq> []" using nil c k by metis
    have "mset cs = mset ds"
      by (rule key_injective [OF _ _ False \<open>ds \<noteq> []\<close> k]) (use c in \<open>auto simp: codes_def list_all_iff\<close>)
    then show ?thesis using key_order by blast
  qed
qed

text \<open>What a list that was attempted has in the maps.\<close>

lemma attempted_set:
  assumes "resolver_ok U g r" "codes cs" "attempted r cs"
  shows "map_of (gr_sets r) (GeoSetKey cs) = SetFor U g cs"
proof (cases "map_of (gr_sets r) (GeoSetKey cs)")
  case (Some S)
  then show ?thesis using assms(1,2) codes_key_order unfolding resolver_ok_def by metis
next
  case None
  then have "GeoSetKey cs \<in> set (gr_failed r)" using assms(3) by (auto simp: attempted_def map_of_eq_None_iff)
  then show ?thesis using None assms(1,2) codes_key_order unfolding resolver_ok_def by metis
qed

definition active :: "string \<Rightarrow> bool" where
  "active mode \<longleftrightarrow> mode = ''block'' \<or> mode = ''allow''"

lemma build_ok:
  assumes "resolver_ok U g r" "active mode \<longrightarrow> codes cs"
  shows "resolver_ok U g (snd (build U g mode cs r)) \<and> grows r (snd (build U g mode cs r))
    \<and> (active mode \<longrightarrow> attempted (snd (build U g mode cs r)) cs)"
proof (cases "active mode \<and> map_of (gr_sets r) (GeoSetKey cs) = None \<and> GeoSetKey cs \<notin> set (gr_failed r)")
  case True
  then have m: "mode = ''block'' \<or> mode = ''allow''" by (simp add: active_def)
  have "resolver_ok U g (r\<lparr>gr_failed := GeoSetKey cs # gr_failed r\<rparr>)" if "SetFor U g cs = None"
    using assms that True by (auto simp: resolver_ok_def)
  moreover have "resolver_ok U g (r\<lparr>gr_sets := (GeoSetKey cs, S) # gr_sets r\<rparr>)" if "SetFor U g cs = Some S" for S
    using assms that True by (auto simp: resolver_ok_def)
  ultimately show ?thesis using m True
    by (auto simp: build_def Let_def grows_def attempted_def split: option.splits)
next
  case False
  then have "snd (build U g mode cs r) = r" by (auto simp: build_def Let_def active_def)
  moreover have "attempted r cs" if "active mode"
    using False that by (auto simp: attempted_def map_of_eq_None_iff)
  ultimately show ?thesis using assms by simp
qed

lemma build_mode:
  assumes "resolver_ok U g r" "active mode \<longrightarrow> codes cs"
  shows "fst (build U g mode cs r) = (if active mode \<and> SetFor U g cs \<noteq> None then (mode, GeoSetKey cs) else (''off'', []))"
proof (cases "active mode")
  case True
  then have m: "mode = ''block'' \<or> mode = ''allow''" by (simp add: active_def)
  have s: "map_of (gr_sets r) (GeoSetKey cs) = SetFor U g cs" if "attempted r cs" using attempted_set assms that True by blast
  show ?thesis
  proof (cases "attempted r cs")
    case att: True
    then show ?thesis using s [OF att] True m
      by (auto simp: build_def Let_def attempted_def map_of_eq_None_iff [symmetric])
  next
    case False
    then have "map_of (gr_sets r) (GeoSetKey cs) = None" "GeoSetKey cs \<notin> set (gr_failed r)"
      by (auto simp: attempted_def map_of_eq_None_iff)
    then show ?thesis using True m by (auto simp: build_def Let_def split: option.splits)
  qed
qed (auto simp: build_def active_def)

subsection \<open>The whole publication\<close>

text \<open>Every list a publication may build: the global rule, the rules of sites, the country conditions.\<close>

definition lists_ok :: "settings \<Rightarrow> site list \<Rightarrow> access_rule list \<Rightarrow> bool" where
  "lists_ok st sites rules \<longleftrightarrow>
     (active (st_geoMode st) \<longrightarrow> codes (st_geoCountries st))
     \<and> list_all (\<lambda>s. active (s_geoMode s) \<longrightarrow> codes (s_geoCountries s)) sites
     \<and> list_all (\<lambda>a. list_all (\<lambda>c. rc_field c = ''country'' \<longrightarrow> codes (rc_values c)) (ar_conditions a)) rules"

lemma build_sites_ok:
  "resolver_ok U g r \<Longrightarrow> list_all (\<lambda>s. active (s_geoMode s) \<longrightarrow> codes (s_geoCountries s)) ss \<Longrightarrow>
    resolver_ok U g (build_sites U g ss r) \<and> grows r (build_sites U g ss r)
    \<and> (\<forall>s \<in> set ss. s_enabled s \<longrightarrow> active (s_geoMode s) \<longrightarrow> attempted (build_sites U g ss r) (s_geoCountries s))"
proof (induction ss arbitrary: r)
  case (Cons s ss)
  let ?r = "if \<not> s_enabled s \<or> s_geoMode s = [] then r else snd (build U g (s_geoMode s) (s_geoCountries s) r)"
  have one: "resolver_ok U g ?r \<and> grows r ?r \<and> (s_enabled s \<longrightarrow> active (s_geoMode s) \<longrightarrow> attempted ?r (s_geoCountries s))"
    using build_ok [OF Cons.prems(1), of "s_geoMode s" "s_geoCountries s"] Cons.prems by (auto simp: active_def)
  have "resolver_ok U g (build_sites U g ss ?r) \<and> grows ?r (build_sites U g ss ?r)
    \<and> (\<forall>s \<in> set ss. s_enabled s \<longrightarrow> active (s_geoMode s) \<longrightarrow> attempted (build_sites U g ss ?r) (s_geoCountries s))"
    using Cons.IH [of ?r] one Cons.prems(2) by simp
  then show ?case using one grows_trans [of r ?r] grows_attempted [of ?r] by (simp only: build_sites.simps set_simps ball_simps) blast
qed simp

lemma build_conditions_ok:
  "resolver_ok U g r \<Longrightarrow> list_all (\<lambda>c. rc_field c = ''country'' \<longrightarrow> codes (rc_values c)) cs \<Longrightarrow>
    resolver_ok U g (build_conditions U g cs r) \<and> grows r (build_conditions U g cs r)
    \<and> (\<forall>c \<in> set cs. rc_field c = ''country'' \<longrightarrow> attempted (build_conditions U g cs r) (rc_values c))"
proof (induction cs arbitrary: r)
  case (Cons c cs)
  let ?r = "if rc_field c = ''country'' then snd (build U g ''block'' (rc_values c) r) else r"
  have one: "resolver_ok U g ?r \<and> grows r ?r \<and> (rc_field c = ''country'' \<longrightarrow> attempted ?r (rc_values c))"
    using build_ok [OF Cons.prems(1), of "''block''" "rc_values c"] Cons.prems by (auto simp: active_def)
  have "resolver_ok U g (build_conditions U g cs ?r) \<and> grows ?r (build_conditions U g cs ?r)
    \<and> (\<forall>c \<in> set cs. rc_field c = ''country'' \<longrightarrow> attempted (build_conditions U g cs ?r) (rc_values c))"
    using Cons.IH [of ?r] one Cons.prems(2) by simp
  then show ?case using one grows_trans [of r ?r] grows_attempted [of ?r] by (simp only: build_conditions.simps set_simps ball_simps) blast
qed simp

lemma build_rules_ok:
  "resolver_ok U g r \<Longrightarrow> list_all (\<lambda>a. list_all (\<lambda>c. rc_field c = ''country'' \<longrightarrow> codes (rc_values c)) (ar_conditions a)) as \<Longrightarrow>
    resolver_ok U g (build_rules U g as r) \<and> grows r (build_rules U g as r)
    \<and> (\<forall>a \<in> set as. ar_enabled a \<longrightarrow> (\<forall>c \<in> set (ar_conditions a). rc_field c = ''country'' \<longrightarrow> attempted (build_rules U g as r) (rc_values c)))"
proof (induction as arbitrary: r)
  case (Cons a as)
  let ?r = "if \<not> ar_enabled a then r else build_conditions U g (ar_conditions a) r"
  have one: "resolver_ok U g ?r \<and> grows r ?r
    \<and> (ar_enabled a \<longrightarrow> (\<forall>c \<in> set (ar_conditions a). rc_field c = ''country'' \<longrightarrow> attempted ?r (rc_values c)))"
    using build_conditions_ok [OF Cons.prems(1), of "ar_conditions a"] Cons.prems by auto
  have "resolver_ok U g (build_rules U g as ?r) \<and> grows ?r (build_rules U g as ?r)
    \<and> (\<forall>a \<in> set as. ar_enabled a \<longrightarrow> (\<forall>c \<in> set (ar_conditions a). rc_field c = ''country'' \<longrightarrow> attempted (build_rules U g as ?r) (rc_values c)))"
    using Cons.IH [of ?r] one Cons.prems(2) by simp
  then show ?case using one grows_trans [of r ?r] grows_attempted [of ?r] by (simp only: build_rules.simps set_simps ball_simps) blast
qed simp

lemma resolver_new: "resolver_ok U g new_resolver"
  by (simp add: resolver_ok_def new_resolver_def)

lemma resolved:
  fixes U :: "string \<Rightarrow> string" and g :: geo_ip
  assumes "lists_ok st sites rules"
  defines "r \<equiv> resolveGeo U (Some g) st sites rules"
  shows "resolver_ok U g r"
    and "(gr_globalMode r, gr_globalSet r) =
      (if active (st_geoMode st) \<and> SetFor U g (st_geoCountries st) \<noteq> None then (st_geoMode st, GeoSetKey (st_geoCountries st)) else (''off'', []))"
    and "active (st_geoMode st) \<Longrightarrow> attempted r (st_geoCountries st)"
    and "s \<in> set sites \<Longrightarrow> s_enabled s \<Longrightarrow> active (s_geoMode s) \<Longrightarrow> attempted r (s_geoCountries s)"
    and "a \<in> set rules \<Longrightarrow> ar_enabled a \<Longrightarrow> c \<in> set (ar_conditions a) \<Longrightarrow> rc_field c = ''country'' \<Longrightarrow> attempted r (rc_values c)"
proof -
  obtain m k r0 where b: "build U g (st_geoMode st) (st_geoCountries st) new_resolver = ((m, k), r0)" by (metis prod.exhaust)
  let ?r1 = "r0\<lparr>gr_globalMode := m, gr_globalSet := k\<rparr>"
  let ?r2 = "build_sites U g sites ?r1"
  have r: "r = build_rules U g rules ?r2" by (simp add: r_def resolveGeo_def b)
  have c: "active (st_geoMode st) \<longrightarrow> codes (st_geoCountries st)" using assms(1) by (simp add: lists_ok_def)
  have "resolver_ok U g r0" and att: "active (st_geoMode st) \<longrightarrow> attempted r0 (st_geoCountries st)"
    using build_ok [OF resolver_new [of U g] c] b by simp_all
  then have ok1: "resolver_ok U g ?r1" by (simp add: resolver_ok_def)
  have att1: "active (st_geoMode st) \<longrightarrow> attempted ?r1 (st_geoCountries st)" using att by (simp add: attempted_def)
  have 2: "resolver_ok U g ?r2 \<and> grows ?r1 ?r2
    \<and> (\<forall>s \<in> set sites. s_enabled s \<longrightarrow> active (s_geoMode s) \<longrightarrow> attempted ?r2 (s_geoCountries s))"
    using build_sites_ok [OF ok1] assms(1) by (simp add: lists_ok_def)
  have 3: "resolver_ok U g r \<and> grows ?r2 r
    \<and> (\<forall>a \<in> set rules. ar_enabled a \<longrightarrow> (\<forall>c \<in> set (ar_conditions a). rc_field c = ''country'' \<longrightarrow> attempted r (rc_values c)))"
    unfolding r using build_rules_ok [of U g ?r2 rules] 2 assms(1) by (simp add: lists_ok_def)
  show "resolver_ok U g r" using 3 by blast
  have g: "grows ?r1 r" using 2 3 grows_trans by blast
  then have "(gr_globalMode r, gr_globalSet r) = (m, k)" by (simp add: grows_def)
  then show "(gr_globalMode r, gr_globalSet r) =
      (if active (st_geoMode st) \<and> SetFor U g (st_geoCountries st) \<noteq> None then (st_geoMode st, GeoSetKey (st_geoCountries st)) else (''off'', []))"
    using build_mode [OF resolver_new [of U g] c] b by simp
  show "attempted r (st_geoCountries st)" if "active (st_geoMode st)" using grows_attempted [OF g] att1 that by blast
  show "attempted r (s_geoCountries s)" if "s \<in> set sites" "s_enabled s" "active (s_geoMode s)"
    using 2 3 grows_attempted that by blast
  show "attempted r (rc_values c)" if "a \<in> set rules" "ar_enabled a" "c \<in> set (ar_conditions a)" "rc_field c = ''country''"
    using 3 that by blast
qed

subsection \<open>The rule of a site, end to end\<close>

text \<open>What the operator configured for a site: its own rule, or the global one when it has none.\<close>

definition site_rule :: "settings \<Rightarrow> site \<Rightarrow> string \<times> string list" where
  "site_rule st s = (if s_geoMode s = [] then (st_geoMode st, st_geoCountries st) else (s_geoMode s, s_geoCountries s))"

text \<open>The verdict of the data plane from the published mode and set of a site.\<close>

definition site_refuses :: "geo_resolver \<Rightarrow> site \<Rightarrow> addr \<Rightarrow> bool" where
  "site_refuses r s a = geo_refuses (fst (forSite r s)) (map_of (gr_sets r) (snd (forSite r s))) a"

lemma forSite_resolved:
  fixes U :: "string \<Rightarrow> string" and g :: geo_ip
  assumes "lists_ok st sites rules" "s \<in> set sites" "s_enabled s"
  defines "r \<equiv> resolveGeo U (Some g) st sites rules"
  shows "forSite r s = (if active (fst (site_rule st s)) \<and> SetFor U g (snd (site_rule st s)) \<noteq> None
        then (fst (site_rule st s), GeoSetKey (snd (site_rule st s))) else (''off'', []))"
    and "active (fst (site_rule st s)) \<Longrightarrow> map_of (gr_sets r) (GeoSetKey (snd (site_rule st s))) = SetFor U g (snd (site_rule st s))"
proof -
  note R = resolved [OF assms(1), where U = U and g = g, folded r_def]
  have co: "active (fst (site_rule st s)) \<longrightarrow> codes (snd (site_rule st s))"
    using assms(1,2) by (auto simp: lists_ok_def site_rule_def list_all_iff)
  have att: "attempted r (snd (site_rule st s))" if "active (fst (site_rule st s))"
    using R(3) R(4) [OF assms(2,3)] that by (auto simp: site_rule_def split: if_splits)
  show m: "map_of (gr_sets r) (GeoSetKey (snd (site_rule st s))) = SetFor U g (snd (site_rule st s))"
    if "active (fst (site_rule st s))" using attempted_set [OF R(1) _ att] co that by blast
  show "forSite r s = (if active (fst (site_rule st s)) \<and> SetFor U g (snd (site_rule st s)) \<noteq> None
        then (fst (site_rule st s), GeoSetKey (snd (site_rule st s))) else (''off'', []))"
    using R(2) m by (auto simp: forSite_def site_rule_def Let_def active_def; metis)
qed

text \<open>
  C11 a country rule does on every enabled site what the dataset says, as long as no row of a listed country
  ends at the last address 255.255.255.255 (merging such a range wraps, and addresses in it can be missed).
  The rule of a site is its own one, or the global one when it has none. It is applied when it names at most
  60 countries and the dataset has between 1 and 250000 rows of them. Applied in block mode it refuses exactly
  the addresses in a row of a listed country; in allow mode exactly the addresses in none of these rows, of a
  family for which there is one. A rule that is not applied, or with another mode, refuses nobody; and which
  other rules are published changes none of this.
\<close>

theorem site_country_rule:
  assumes "lists_ok st sites rules" "s \<in> set sites" "s_enabled s"
    and "list_all row4_ok (gi_v4 g)" "list_all row6_ok (gi_v6 g)" "\<not> ends_last U g (snd (site_rule st s))"
  shows "site_refuses (resolveGeo U (Some g) st sites rules) s a \<longleftrightarrow>
    (case site_rule st s of (mode, cs) \<Rightarrow>
       answerable U g cs
       \<and> (mode = ''block'' \<and> in_countries U g cs a
          \<or> mode = ''allow'' \<and> \<not> in_countries U g cs a \<and> family_listed U g cs a))"
proof (cases "active (fst (site_rule st s)) \<and> SetFor U g (snd (site_rule st s)) \<noteq> None")
  case True
  then obtain S where S: "SetFor U g (snd (site_rule st s)) = Some S" by auto
  have "site_refuses (resolveGeo U (Some g) st sites rules) s a = geo_refuses (fst (site_rule st s)) (Some S) a"
    using forSite_resolved [OF assms(1-3)] True S by (simp add: site_refuses_def)
  moreover have "answerable U g (snd (site_rule st s))" using set_for_answerable S by blast
  ultimately show ?thesis using contains_exact [OF S assms(4-6), of a] family_set [OF S, of a] True
    by (auto simp: geo_refuses_def active_def split_beta split: option.splits)
next
  case False
  then have "forSite (resolveGeo U (Some g) st sites rules) s = (''off'', [])" 
    unfolding forSite_resolved(1) [OF assms(1-3)] by (rule if_not_P)
  moreover have "\<not> (active (fst (site_rule st s)) \<and> answerable U g (snd (site_rule st s)))"
    using False by (simp only: set_for_answerable not_False_eq_True)
  ultimately show ?thesis by (auto simp: site_refuses_def geo_refuses_def active_def split_beta)
qed

definition demo_settings_block :: settings where
  "demo_settings_block = DefaultSettings\<lparr>st_geoMode := ''block'', st_geoCountries := [''AU'']\<rparr>"

definition inheriting_site :: site where
  "inheriting_site = demo_site\<lparr>s_geoMode := []\<rparr>"

lemma site_country_rule_witness:
  "site_refuses (resolveGeo (\<lambda>x. x) (Some demo_geo) demo_settings_block [inheriting_site] []) inheriting_site (V4 0x01000007)"
proof -
  have r: "site_rule demo_settings_block inheriting_site = (''block'', [''AU''])"
    by (simp add: site_rule_def demo_settings_block_def inheriting_site_def demo_site_def)
  have "lists_ok demo_settings_block [inheriting_site] []" "s_enabled inheriting_site"
    by (simp_all add: lists_ok_def codes_def active_def demo_settings_block_def inheriting_site_def demo_site_def)
  moreover have "list_all row4_ok (gi_v4 demo_geo)" "list_all row6_ok (gi_v6 demo_geo)" "\<not> ends_last (\<lambda>x. x) demo_geo [''AU'']"
    by code_simp+
  moreover have "in_countries (\<lambda>x. x) demo_geo [''AU''] (V4 0x01000007)" by code_simp
  moreover have "answerable (\<lambda>x. x) demo_geo [''AU'']"
    unfolding set_for_answerable [symmetric] by (simp add: demo_set_for)
  ultimately show ?thesis
    using site_country_rule [of demo_settings_block "[inheriting_site]" "[]" inheriting_site demo_geo "\<lambda>x. x" "V4 0x01000007"]
    by (simp add: r)
qed

end
