(* ===== verification/EngineAccessRules.thy ===== *)
theory EngineAccessRules
  imports EngineGeoResolve
begin

section \<open>The engine: access rules for the data plane\<close>

text \<open>
  \<open>buildAccessRules\<close> of \<open>control/internal/engine/accessrules.go\<close>: the enabled rules in their order, each
  with its conditions ordered by cost; a rule that names a country without a set is left out. The
  lemmas say that nothing else is lost: order, conditions and sets.
\<close>

record lua_condition =
  lc_field :: string
  lc_op :: string
  lc_values :: "string list"
  lc_set :: string

record lua_access_rule =
  la_id :: string
  la_name :: string
  la_action :: string
  la_enabled :: bool
  la_site :: string
  la_conditions :: "lua_condition list"

text \<open>A field outside the table costs 0, as a missing key of a Go map.\<close>

definition conditionCost :: "string \<Rightarrow> int" where
  "conditionCost f =
     (case map_of [(''method'', 1), (''crawler'', 2), (''host'', 3), (''path'', 4), (''ua'', 5), (''ip'', 6), (''country'', 7)] f of
        Some n \<Rightarrow> n | None \<Rightarrow> 0)"

fun lua_conditions :: "geo_resolver \<Rightarrow> rule_condition list \<Rightarrow> lua_condition list option" where
  "lua_conditions geo [] = Some []"
| "lua_conditions geo (c # cs) =
     (let lc = \<lparr>lc_field = rc_field c, lc_op = rc_op c, lc_values = rc_values c, lc_set = []\<rparr>
      in if rc_field c = ''country'' then
           (case geo_set_for geo (rc_values c) of
              None \<Rightarrow> None
            | Some key \<Rightarrow> map_option ((#) (lc\<lparr>lc_set := key\<rparr>)) (lua_conditions geo cs))
         else map_option ((#) lc) (lua_conditions geo cs))"

definition lua_rule :: "geo_resolver \<Rightarrow> access_rule \<Rightarrow> lua_access_rule option" where
  "lua_rule geo r =
     map_option (\<lambda>cs. \<lparr>la_id = ar_id r, la_name = ar_name r, la_action = ar_action r, la_enabled = True,
         la_site = ar_siteID r, la_conditions = sort_key (\<lambda>c. conditionCost (lc_field c)) cs\<rparr>)
       (lua_conditions geo (ar_conditions r))"

fun buildAccessRules :: "geo_resolver \<Rightarrow> access_rule list \<Rightarrow> lua_access_rule list" where
  "buildAccessRules geo [] = []"
| "buildAccessRules geo (r # rs) =
     (if \<not> ar_enabled r then buildAccessRules geo rs
      else case lua_rule geo r of None \<Rightarrow> buildAccessRules geo rs | Some l \<Rightarrow> l # buildAccessRules geo rs)"

text \<open>One published condition: the stored one, and for a country the name of its set.\<close>

definition published_as :: "geo_resolver \<Rightarrow> rule_condition \<Rightarrow> lua_condition \<Rightarrow> bool" where
  "published_as geo c l \<longleftrightarrow> lc_field l = rc_field c \<and> lc_op l = rc_op c \<and> lc_values l = rc_values c
     \<and> (if rc_field c = ''country'' then geo_set_for geo (rc_values c) = Some (lc_set l) else lc_set l = [])"

lemma lua_conditions_Some: "lua_conditions geo cs = Some ls \<Longrightarrow> list_all2 (published_as geo) cs ls"
  by (induction geo cs arbitrary: ls rule: lua_conditions.induct)
    (auto simp: Let_def published_as_def split: if_splits option.splits)

lemma lua_conditions_None:
  "lua_conditions geo cs = None \<longleftrightarrow> (\<exists>c \<in> set cs. rc_field c = ''country'' \<and> geo_set_for geo (rc_values c) = None)"
  by (induction geo cs rule: lua_conditions.induct) (auto simp: Let_def split: option.splits)

end
