(* ===== verification/DataplaneRules.thy ===== *)
theory DataplaneRules
  imports EngineAccessRules
begin

section \<open>The data plane: the first access rule that matches\<close>

text \<open>
  The evaluation of \<open>dataplane/lua/moswaf/accessrules.lua\<close> over the published rules. A subject is what
  a condition is tested against; \<open>sj_addr\<close> is its address when the text parses. \<open>ip_in\<close> stands for
  \<open>util.ip_in_list\<close>, which is not modelled. A set that is missing or a field that is not known makes the
  condition false.

  The property is the composition of the publication with the evaluation: the rule that decides a
  request is the first one in the stored order whose conditions all hold.
\<close>

record subject =
  sj_ip :: string
  sj_addr :: "addr option"
  sj_crawler :: "string option"
  sj_path :: string
  sj_host :: string
  sj_ua :: string
  sj_method :: string

definition any_of :: "('a \<Rightarrow> bool) \<Rightarrow> 'a list \<Rightarrow> bool" where
  "any_of p vs \<longleftrightarrow> list_ex p vs"

text \<open>The conditions that need no set.\<close>

definition plain_holds :: "(string \<Rightarrow> string list \<Rightarrow> bool) \<Rightarrow> subject \<Rightarrow> string \<Rightarrow> string \<Rightarrow> string list \<Rightarrow> bool" where
  "plain_holds ip_in sj field op vals =
     (if field = ''ip'' then ip_in (sj_ip sj) vals
      else if field = ''method'' then any_of (\<lambda>v. sj_method sj = v) vals
      else if field = ''crawler'' then (sj_crawler sj \<noteq> None) = (vals \<noteq> [] \<and> hd vals = ''true'')
      else if field = ''path'' then
        any_of (\<lambda>v. if op = ''prefix'' then has_prefix v (sj_path sj)
          else if op = ''equals'' then sj_path sj = v else str_contains v (sj_path sj)) vals
      else if field = ''host'' then
        any_of (\<lambda>v. if op = ''equals'' then sj_host sj = v
          else sj_host sj = v \<or> has_suffix (CHR ''.'' # v) (sj_host sj)) vals
      else if field = ''ua'' then
        any_of (\<lambda>v. if op = ''equals'' then sj_ua sj = v else str_contains v (sj_ua sj)) vals
      else False)"

definition set_holds :: "subject \<Rightarrow> geo_set option \<Rightarrow> bool" where
  "set_holds sj S = (case sj_addr sj of None \<Rightarrow> False | Some a \<Rightarrow> geo_contains S a = Some True)"

definition lua_holds :: "(string \<Rightarrow> string list \<Rightarrow> bool) \<Rightarrow> (string \<times> geo_set) list \<Rightarrow> subject \<Rightarrow> lua_condition \<Rightarrow> bool" where
  "lua_holds ip_in sets sj c =
     (if lc_field c = ''country'' then set_holds sj (map_of sets (lc_set c))
      else plain_holds ip_in sj (lc_field c) (lc_op c) (lc_values c))"

definition lua_matches :: "(string \<Rightarrow> string list \<Rightarrow> bool) \<Rightarrow> (string \<times> geo_set) list \<Rightarrow> subject \<Rightarrow> lua_access_rule \<Rightarrow> bool" where
  "lua_matches ip_in sets sj r \<longleftrightarrow> la_conditions r \<noteq> [] \<and> list_all (lua_holds ip_in sets sj) (la_conditions r)"

definition lua_match ::
  "(string \<Rightarrow> string list \<Rightarrow> bool) \<Rightarrow> (string \<times> geo_set) list \<Rightarrow> string \<Rightarrow> subject \<Rightarrow> lua_access_rule list \<Rightarrow> lua_access_rule option" where
  "lua_match ip_in sets site sj rules =
     find (\<lambda>r. la_enabled r \<and> (la_site r = [] \<or> la_site r = site) \<and> lua_matches ip_in sets sj r) rules"

subsection \<open>The reference: the stored rules\<close>

text \<open>
  A country condition is true of an address in a row of a listed country, when there are between 1 and 250000
  such rows and at most 60 countries are listed: beyond that the control plane gives no answer.
\<close>

definition condition_holds ::
  "(string \<Rightarrow> string) \<Rightarrow> geo_ip \<Rightarrow> (string \<Rightarrow> string list \<Rightarrow> bool) \<Rightarrow> subject \<Rightarrow> rule_condition \<Rightarrow> bool" where
  "condition_holds U g ip_in sj c =
     (if rc_field c = ''country'' then
        (case sj_addr sj of None \<Rightarrow> False | Some a \<Rightarrow> answerable U g (rc_values c) \<and> in_countries U g (rc_values c) a)
      else plain_holds ip_in sj (rc_field c) (rc_op c) (rc_values c))"

definition rule_applies ::
  "(string \<Rightarrow> string) \<Rightarrow> geo_ip \<Rightarrow> (string \<Rightarrow> string list \<Rightarrow> bool) \<Rightarrow> string \<Rightarrow> subject \<Rightarrow> access_rule \<Rightarrow> bool" where
  "rule_applies U g ip_in site sj r \<longleftrightarrow>
     ar_enabled r \<and> (ar_siteID r = [] \<or> ar_siteID r = site) \<and> ar_conditions r \<noteq> []
     \<and> list_all (condition_holds U g ip_in sj) (ar_conditions r)"

subsection \<open>Publication and evaluation together\<close>

definition no_wrap :: "(string \<Rightarrow> string) \<Rightarrow> geo_ip \<Rightarrow> access_rule list \<Rightarrow> bool" where
  "no_wrap U g rules \<longleftrightarrow>
     list_all (\<lambda>a. list_all (\<lambda>c. rc_field c = ''country'' \<longrightarrow> \<not> ends_last U g (rc_values c)) (ar_conditions a)) rules"

text \<open>The sets a resolver holds for the conditions of a rule.\<close>

definition sets_for :: "(string \<Rightarrow> string) \<Rightarrow> geo_ip \<Rightarrow> geo_resolver \<Rightarrow> access_rule \<Rightarrow> bool" where
  "sets_for U g geo a \<longleftrightarrow> (\<forall>c \<in> set (ar_conditions a). rc_field c = ''country'' \<longrightarrow>
     map_of (gr_sets geo) (GeoSetKey (rc_values c)) = SetFor U g (rc_values c) \<and> \<not> ends_last U g (rc_values c))"

lemma published_holds:
  assumes "published_as geo c l" "list_all row4_ok (gi_v4 g)" "list_all row6_ok (gi_v6 g)"
    and "rc_field c = ''country'' \<longrightarrow> map_of (gr_sets geo) (GeoSetKey (rc_values c)) = SetFor U g (rc_values c) \<and> \<not> ends_last U g (rc_values c)"
  shows "lua_holds ip_in (gr_sets geo) sj l = condition_holds U g ip_in sj c"
proof (cases "rc_field c = ''country''")
  case True
  then obtain S where S: "SetFor U g (rc_values c) = Some S" and set: "map_of (gr_sets geo) (lc_set l) = Some S"
    using assms(1,4) by (auto simp: published_as_def geo_set_for_def Let_def split: if_splits)
  have "geo_contains (Some S) a = Some True \<longleftrightarrow> in_countries U g (rc_values c) a" for a
    using contains_exact [OF S assms(2,3), of a] True assms(4) by auto
  moreover have "answerable U g (rc_values c)" using set_for_answerable S by blast
  ultimately show ?thesis using True assms(1) set
    by (auto simp: lua_holds_def condition_holds_def set_holds_def published_as_def split: option.splits)
qed (use assms(1) in \<open>simp add: lua_holds_def condition_holds_def published_as_def\<close>)

lemma rule_published:
  fixes site :: string and sj :: subject and ip_in :: "string \<Rightarrow> string list \<Rightarrow> bool"
  assumes "sets_for U g geo a" "list_all row4_ok (gi_v4 g)" "list_all row6_ok (gi_v6 g)" "ar_enabled a"
  defines "hit \<equiv> \<lambda>r. la_enabled r \<and> (la_site r = [] \<or> la_site r = site) \<and> lua_matches ip_in (gr_sets geo) sj r"
  shows "case lua_rule geo a of None \<Rightarrow> \<not> rule_applies U g ip_in site sj a
    | Some r \<Rightarrow> la_id r = ar_id a \<and> hit r = rule_applies U g ip_in site sj a"
proof (cases "lua_conditions geo (ar_conditions a)")
  case None
  then obtain c where c: "c \<in> set (ar_conditions a)" "rc_field c = ''country''" "geo_set_for geo (rc_values c) = None"
    using lua_conditions_None by blast
  then have "SetFor U g (rc_values c) = None"
    using assms(1) by (auto simp: sets_for_def geo_set_for_def Let_def split: if_splits)
  then have "\<not> answerable U g (rc_values c)" using set_for_answerable by blast
  then have "\<not> condition_holds U g ip_in sj c" using c(2) by (simp add: condition_holds_def split: option.splits)
  then show ?thesis using None c(1) by (auto simp: lua_rule_def rule_applies_def list_all_iff)
next
  case (Some ls)
  then have l2: "list_all2 (published_as geo) (ar_conditions a) ls" by (rule lua_conditions_Some)
  have "list_all2 (\<lambda>c l. lua_holds ip_in (gr_sets geo) sj l = condition_holds U g ip_in sj c) (ar_conditions a) ls"
    by (rule list.rel_mono_strong [OF l2]) (use published_holds [OF _ assms(2,3)] assms(1) in \<open>auto simp: sets_for_def\<close>)
  then have "list_all (lua_holds ip_in (gr_sets geo) sj) ls = list_all (condition_holds U g ip_in sj) (ar_conditions a)"
    by (induction rule: list_all2_induct) auto
  moreover have "ls = [] \<longleftrightarrow> ar_conditions a = []" using l2 by (cases ls) auto
  ultimately show ?thesis using Some assms(4)
    by (auto simp: lua_rule_def rule_applies_def hit_def lua_matches_def list_all_iff sort_key_Nil)
qed

lemma first_published:
  assumes "list_all (\<lambda>a. ar_enabled a \<longrightarrow> sets_for U g geo a) rules" "list_all row4_ok (gi_v4 g)" "list_all row6_ok (gi_v6 g)"
  shows "map_option la_id (lua_match ip_in (gr_sets geo) site sj (buildAccessRules geo rules))
    = map_option ar_id (find (rule_applies U g ip_in site sj) rules)"
  using assms(1)
proof (induction rules)
  case (Cons a as)
  have off: "\<not> rule_applies U g ip_in site sj a" if "\<not> ar_enabled a" using that by (simp add: rule_applies_def)
  show ?case using rule_published [of U g geo a, where site = site and ip_in = ip_in and sj = sj] Cons assms(2,3) off
    by (auto simp: lua_match_def split: option.splits)
qed (simp add: lua_match_def)

text \<open>
  C13 when no row of a country listed in a stored condition ends at the last address 255.255.255.255 (merging
  such a range wraps), the access rule that decides a request in the data plane is the first rule of the stored
  order that is enabled, belongs to the site or to all sites, has a condition and has all its conditions true
  of the request. A country condition is true for the addresses in the rows of the listed countries, when
  there are between 1 and 250000 such rows and at most 60 countries, and false otherwise. Leaving a rule out
  of the publication because a country has no set, or testing cheap conditions first, changes no decision.
\<close>

theorem access_decision_exact:
  assumes "lists_ok st sites rules" "no_wrap U g rules" "list_all row4_ok (gi_v4 g)" "list_all row6_ok (gi_v6 g)"
  defines "geo \<equiv> resolveGeo U (Some g) st sites rules"
  shows "map_option la_id (lua_match ip_in (gr_sets geo) site sj (buildAccessRules geo rules))
    = map_option ar_id (find (rule_applies U g ip_in site sj) rules)"
proof (rule first_published [OF _ assms(3,4)])
  note R = resolved [OF assms(1), where U = U and g = g, folded geo_def]
  have "sets_for U g geo a" if "a \<in> set rules" "ar_enabled a" for a
    unfolding sets_for_def using attempted_set [OF R(1) _ R(5) [OF that]] assms(1,2) that(1)
    by (auto simp: lists_ok_def no_wrap_def list_all_iff)
  then show "list_all (\<lambda>a. ar_enabled a \<longrightarrow> sets_for U g geo a) rules" by (simp add: list_all_iff)
qed

definition demo_block_rule :: access_rule where
  "demo_block_rule = \<lparr>ar_id = ''r1'', ar_name = ''b'', ar_action = ''block'', ar_priority = 1, ar_enabled = True, ar_siteID = [],
     ar_conditions = [\<lparr>rc_field = ''country'', rc_op = ''in'', rc_values = [''AU'']\<rparr>, \<lparr>rc_field = ''method'', rc_op = ''in'', rc_values = [''POST'']\<rparr>],
     ar_createdAt = 0, ar_updatedAt = 0\<rparr>"

definition demo_subject :: subject where
  "demo_subject = \<lparr>sj_ip = ''1.0.0.7'', sj_addr = Some (V4 0x01000007), sj_crawler = None, sj_path = ''/'', sj_host = ''h'', sj_ua = [], sj_method = ''POST''\<rparr>"

lemma access_decision_exact_witness:
  "let geo = resolveGeo (\<lambda>x. x) (Some demo_geo) DefaultSettings [] [demo_block_rule]
   in map_option la_id (lua_match (\<lambda>_ _. False) (gr_sets geo) ''s'' demo_subject (buildAccessRules geo [demo_block_rule])) = Some ''r1''"
proof -
  have h: "lists_ok DefaultSettings [] [demo_block_rule]" "no_wrap (\<lambda>x. x) demo_geo [demo_block_rule]"
    "list_all row4_ok (gi_v4 demo_geo)" "list_all row6_ok (gi_v6 demo_geo)"
    by code_simp+
  have "in_countries (\<lambda>x. x) demo_geo [''AU''] (V4 0x01000007)" by code_simp
  moreover have "answerable (\<lambda>x. x) demo_geo [''AU'']"
    unfolding set_for_answerable [symmetric] by (simp add: demo_set_for)
  ultimately have "rule_applies (\<lambda>x. x) demo_geo (\<lambda>_ _. False) ''s'' demo_subject demo_block_rule"
    by (simp add: rule_applies_def demo_block_rule_def demo_subject_def condition_holds_def plain_holds_def any_of_def)
  moreover have "ar_id demo_block_rule = ''r1''" by (simp add: demo_block_rule_def)
  ultimately show ?thesis unfolding Let_def access_decision_exact [OF h] by simp
qed

end
