(* ===== verification/EngineNginx.thy ===== *)
theory EngineNginx
  imports StoreSites
begin

section \<open>The engine: the nginx configuration of a site\<close>

text \<open>
  \<open>control/internal/engine/nginxconf.go\<close>: the file of one site as the list of its lines
  (\<open>render_lines\<close>, with the shared parts \<open>body_lines\<close> and \<open>acme_lines\<close>), the checks before it
  (\<open>renderSite\<close>), and the rewriting of all files (\<open>WriteSiteConfigs\<close>). \<open>ValidateSite\<close> works on the site in
  place, so the site written is the one it returns. The two directories are association lists from
  names to contents; \<open>io_fail\<close> says which file operation fails with what error, and \<open>io_left\<close> what a
  failed write leaves. \<open>etxt\<close> is the text of an error.

  The lemmas say that a value of the site can neither add a line nor open or close a block, that a
  complete run leaves exactly the files of the enabled sites, and what a failed one leaves.
\<close>

definition dq :: string where "dq = [CHR 0x22]"

definition id_char :: "char \<Rightarrow> bool" where
  "id_char c \<longleftrightarrow> is_lower c \<or> is_digit c"

definition id_valid :: "string \<Rightarrow> bool" where
  "id_valid s \<longleftrightarrow> (case s of [] \<Rightarrow> False
     | c # cs \<Rightarrow> id_char c \<and> 3 \<le> length cs \<and> length cs \<le> 31 \<and> list_all (\<lambda>c. id_char c \<or> c = CHR ''-'') cs)"

text \<open>\<open>strings.NewReplacer\<close>: a line break becomes a blank, a NUL disappears.\<close>

definition sanitizeComment :: "string \<Rightarrow> string" where
  "sanitizeComment v = concat (map (\<lambda>c. if c = CHR 0x0A \<or> c = CHR 0x0D then '' '' else if c = CHR 0x00 then [] else [c]) v)"

definition loginPath :: string where "loginPath = ''/__moswaf/login''"
definition logoutPath :: string where "logoutPath = ''/__moswaf/logout''"
definition authBackendPath :: string where "authBackendPath = ''/__moswaf_auth_backend''"

record site_render =
  so_certsDir :: string
  so_httpPort :: int
  so_httpsPort :: int
  so_control :: string

text \<open>\<open>^[A-Za-z0-9._-]+:[0-9]{1,5}$\<close>\<close>

definition control_valid :: "string \<Rightarrow> bool" where
  "control_valid v =
     (case cut_at CHR '':'' v of
        None \<Rightarrow> False
      | Some (h, p) \<Rightarrow> h \<noteq> [] \<and> list_all (\<lambda>c. is_upper c \<or> is_lower c \<or> is_digit c \<or> c = CHR ''.'' \<or> c = CHR ''_'' \<or> c = CHR ''-'') h
          \<and> p \<noteq> [] \<and> length p \<le> 5 \<and> list_all is_digit p)"

definition normalized :: "site_render \<Rightarrow> site_render" where
  "normalized o1 =
     (let o2 = (if so_httpPort o1 = 0 then o1\<lparr>so_httpPort := 80\<rparr> else o1);
          o3 = (if so_httpsPort o2 = 0 then o2\<lparr>so_httpsPort := 443\<rparr> else o2)
      in if so_control o3 = [] \<or> \<not> control_valid (so_control o3) then o3\<lparr>so_control := ''mgmt:9444''\<rparr> else o3)"

subsection \<open>The lines of the file\<close>

definition server_names :: "site \<Rightarrow> string" where
  "server_names s = str_join '' '' (s_domains s)"

definition upstream_name :: "site \<Rightarrow> string" where
  "upstream_name s = ''moswaf_up_'' @ map (\<lambda>c. if c = CHR ''-'' then CHR ''_'' else c) (s_id s)"

definition proxy_target :: "site \<Rightarrow> string" where
  "proxy_target s = s_upstreamScheme s @ ''://'' @ upstream_name s"

text \<open>\<open>filepath.Join\<close> of a directory that is clean already: it would first shorten a path with \<open>..\<close>, \<open>.\<close> or a doubled slash.\<close>

definition crt_path :: "site_render \<Rightarrow> site \<Rightarrow> string" where
  "crt_path opt s = so_certsDir opt @ ''/'' @ s_id s @ ''.crt''"

definition key_path :: "site_render \<Rightarrow> site \<Rightarrow> string" where
  "key_path opt s = so_certsDir opt @ ''/'' @ s_id s @ ''.key''"

definition header_lines :: "site \<Rightarrow> string list" where
  "header_lines s =
    [''# ===================================================================='',
     ''# MosWAF - '' @ sanitizeComment (s_name s) @ '' ('' @ s_id s @ '')'',
     ''# Generated automatically by the control plane. Do not edit by hand.'',
     ''# ===================================================================='',
     [],
     ''upstream '' @ upstream_name s @ '' {'',
     ''    server '' @ s_upstreamHost s @ '':'' @ itoa (s_upstreamPort s) @ '' max_fails=3 fail_timeout=10s;'',
     ''    keepalive 32;'',
     ''}'',
     []]"

definition gate_lines :: "string \<Rightarrow> site \<Rightarrow> string list" where
  "gate_lines ind s =
    [ind @ ''set $moswaf_site '' @ dq @ s_id s @ dq @ '';'',
     ind @ ''set $moswaf_client_ip $remote_addr;'',
     ind @ ''limit_conn moswaf_conn 200;'',
     ind @ ''limit_req  zone=moswaf_hard burst=200 nodelay;'',
     [],
     ind @ ''access_by_lua_block { require('' @ dq @ ''moswaf.access'' @ dq @ '').run() }'',
     ind @ ''log_by_lua_block    { require('' @ dq @ ''moswaf.log'' @ dq @ '').run() }'',
     []]"

definition login_lines :: "string \<Rightarrow> site_render \<Rightarrow> string list" where
  "login_lines ind opt =
    [ind @ ''location = '' @ loginPath @ '' {'',
     ind @ ''    access_by_lua_block { require('' @ dq @ ''moswaf.access'' @ dq @ '').login() }'',
     ind @ ''    limit_req zone=moswaf_hard burst=10 nodelay;'',
     ind @ ''    limit_conn moswaf_conn 10;'',
     ind @ ''    set $moswaf_auth_site  '' @ dq @ dq @ '';'',
     ind @ ''    set $moswaf_auth_ip    '' @ dq @ dq @ '';'',
     ind @ ''    set $moswaf_auth_token '' @ dq @ dq @ '';'',
     ind @ ''    content_by_lua_block { require('' @ dq @ ''moswaf.login'' @ dq @ '').serve() }'',
     ind @ ''}'',
     [],
     ind @ ''location = '' @ logoutPath @ '' {'',
     ind @ ''    access_by_lua_block { require('' @ dq @ ''moswaf.access'' @ dq @ '').login() }'',
     ind @ ''    content_by_lua_block { require('' @ dq @ ''moswaf.login'' @ dq @ '').logout() }'',
     ind @ ''}'',
     [],
     ind @ ''location = '' @ authBackendPath @ '' {'',
     ind @ ''    internal;'',
     ind @ ''    access_by_lua_block { return }'',
     ind @ ''    proxy_set_header Host           $host;'',
     ind @ ''    proxy_set_header X-MosWAF-Site  $moswaf_auth_site;'',
     ind @ ''    proxy_set_header X-MosWAF-IP    $moswaf_auth_ip;'',
     ind @ ''    proxy_set_header X-MosWAF-Token $moswaf_auth_token;'',
     ind @ ''    proxy_set_header Content-Type   '' @ dq @ ''application/json'' @ dq @ '';'',
     ind @ ''    proxy_set_header Cookie         '' @ dq @ dq @ '';'',
     ind @ ''    proxy_set_header Authorization  '' @ dq @ dq @ '';'',
     ind @ ''    set $moswaf_mgmt '' @ dq @ so_control opt @ dq @ '';'',
     ind @ ''    proxy_pass http://$moswaf_mgmt/internal/site-login;'',
     ind @ ''}'',
     []]"

definition proxy_lines :: "string \<Rightarrow> site \<Rightarrow> string list" where
  "proxy_lines ind s =
    [ind @ ''location / {'',
     ind @ ''    proxy_set_header Host             $host;'',
     ind @ ''    proxy_set_header X-Real-IP        $moswaf_client_ip;'',
     ind @ ''    proxy_set_header X-Forwarded-For  $moswaf_client_ip;'',
     ind @ ''    proxy_set_header X-Forwarded-Host $host;'',
     ind @ ''    proxy_set_header X-Forwarded-Port $server_port;'',
     ind @ ''    proxy_pass '' @ proxy_target s @ '';'']
    @ (if s_upstreamScheme s = ''https'' then
    [ind @ ''    proxy_ssl_server_name on;'',
     ind @ ''    proxy_ssl_name '' @ s_upstreamHost s @ '';''] else [])
    @ [ind @ ''}'']"

definition body_lines :: "string \<Rightarrow> site_render \<Rightarrow> site \<Rightarrow> string list" where
  "body_lines ind opt s = gate_lines ind s @ login_lines ind opt @ proxy_lines ind s"

definition acme_lines :: "string \<Rightarrow> string list" where
  "acme_lines ind =
    [ind @ ''location /.well-known/acme-challenge/ {'',
     ind @ ''    access_by_lua_block { return }'',
     ind @ ''    limit_req zone=moswaf_hard burst=10 nodelay;'',
     ind @ ''    limit_conn moswaf_conn 10;'',
     ind @ ''    content_by_lua_block { require('' @ dq @ ''moswaf.acme'' @ dq @ '').serve() }'',
     ind @ ''}'']"

definition listen_lines :: "site_render \<Rightarrow> site \<Rightarrow> string list" where
  "listen_lines opt s =
    [''server {'',
     ''    listen '' @ itoa (so_httpPort opt) @ '';'',
     ''    server_name '' @ server_names s @ '';'']"

definition tls_lines :: "site_render \<Rightarrow> site \<Rightarrow> string list" where
  "tls_lines opt s =
    [''server {'',
     ''    listen '' @ itoa (so_httpsPort opt) @ '' ssl;'',
     ''    http2 on;'',
     ''    server_name '' @ server_names s @ '';'',
     [],
     ''    ssl_certificate     '' @ crt_path opt s @ '';'',
     ''    ssl_certificate_key '' @ key_path opt s @ '';'',
     ''    ssl_protocols       TLSv1.2 TLSv1.3;'',
     ''    ssl_ciphers         ECDHE-ECDSA-AES128-GCM-SHA256:ECDHE-RSA-AES128-GCM-SHA256:ECDHE-ECDSA-AES256-GCM-SHA384:ECDHE-RSA-AES256-GCM-SHA384:ECDHE-ECDSA-CHACHA20-POLY1305:ECDHE-RSA-CHACHA20-POLY1305;'',
     ''    ssl_prefer_server_ciphers off;'',
     ''    ssl_session_cache   shared:MosWAF:10m;'',
     ''    ssl_session_timeout 1d;'',
     ''    ssl_session_tickets off;'']
    @ (if s_forceHTTPS s then [''    add_header Strict-Transport-Security '' @ dq @ ''max-age=31536000'' @ dq @ '' always;''] else [])
    @ [[]]"

definition render_lines :: "site_render \<Rightarrow> site \<Rightarrow> string list" where
  "render_lines opt s =
     header_lines s
     @ (if s_hasTLS s then
          listen_lines opt s @ acme_lines ''    ''
          @ (if s_forceHTTPS s then [''    location / { return 301 https://$host$request_uri; }''] else body_lines ''    '' opt s)
          @ [''}'', []] @ tls_lines opt s @ acme_lines ''    '' @ [[]] @ body_lines ''    '' opt s @ [''}'']
        else listen_lines opt s @ acme_lines ''    '' @ [[]] @ body_lines ''    '' opt s @ [''}''])"

definition file_text :: "string list \<Rightarrow> string" where
  "file_text ls = concat (map (\<lambda>l. l @ [CHR 0x0A]) ls)"

definition renderSite :: "(string \<Rightarrow> string) \<Rightarrow> (string \<Rightarrow> string) \<Rightarrow> site \<Rightarrow> site_render \<Rightarrow> (site \<times> string) result" where
  "renderSite L U s opt =
     (if \<not> id_valid (s_id s) then Inl (InvalidValue ''invalid site id'' (s_id s))
      else case ValidateSite L U s of
        Inl e \<Rightarrow> Inl e
      | Inr s' \<Rightarrow> Inr (s', file_text (render_lines (normalized opt) s')))"

subsection \<open>Writing the files\<close>

type_synonym dir = "(string \<times> string) list"

record files =
  fl_sites :: dir
  fl_certs :: dir

datatype file_op = MkSites | MkCerts | WriteCert string | WriteSite string | RenameSite string | ReadSites
  | RemoveSite string | RemoveCert string

record io =
  io_fail :: "file_op \<Rightarrow> string option"
  io_left :: "file_op \<Rightarrow> string option"

definition dir_del :: "string \<Rightarrow> dir \<Rightarrow> dir" where
  "dir_del n d = filter (\<lambda>(k, v). k \<noteq> n) d"

definition dir_put :: "string \<Rightarrow> string \<Rightarrow> dir \<Rightarrow> dir" where
  "dir_put n v d = (n, v) # dir_del n d"

text \<open>\<open>os.WriteFile\<close>: on an error the file keeps its contents or holds what had been written.\<close>

definition write_file :: "io \<Rightarrow> file_op \<Rightarrow> string \<Rightarrow> string \<Rightarrow> dir \<Rightarrow> string option \<times> dir" where
  "write_file X op n v d =
     (case io_fail X op of
        None \<Rightarrow> (None, dir_put n v d)
      | Some e \<Rightarrow> (Some e, (case io_left X op of None \<Rightarrow> d | Some w \<Rightarrow> dir_put n w d)))"

definition rename_file :: "io \<Rightarrow> file_op \<Rightarrow> string \<Rightarrow> string \<Rightarrow> dir \<Rightarrow> string option \<times> dir" where
  "rename_file X op a b d =
     (case io_fail X op of
        Some e \<Rightarrow> (Some e, d)
      | None \<Rightarrow> (case map_of d a of None \<Rightarrow> (Some ''no such file or directory'', d) | Some v \<Rightarrow> (None, dir_put b v (dir_del a d))))"

text \<open>\<open>_ = os.Remove(...)\<close>: an error is ignored.\<close>

definition remove_file :: "io \<Rightarrow> file_op \<Rightarrow> string \<Rightarrow> dir \<Rightarrow> dir" where
  "remove_file X op n d = (if io_fail X op = None then dir_del n d else d)"

definition conf_name :: "string \<Rightarrow> string" where "conf_name k = k @ ''.conf''"
definition tmp_name :: "string \<Rightarrow> string" where "tmp_name k = ''.'' @ conf_name k @ ''.tmp''"

text \<open>The certificate and the key of one site.\<close>

definition write_certs :: "io \<Rightarrow> site \<Rightarrow> files \<Rightarrow> string option \<times> files" where
  "write_certs X s fs =
     (if \<not> s_hasTLS s then (None, fs)
      else case write_file X (WriteCert (s_id s @ ''.crt'')) (s_id s @ ''.crt'') (s_tlsCert s) (fl_certs fs) of
        (Some e, d) \<Rightarrow> (Some e, fs\<lparr>fl_certs := d\<rparr>)
      | (None, d) \<Rightarrow>
          (case write_file X (WriteCert (s_id s @ ''.key'')) (s_id s @ ''.key'') (s_tlsKey s) d of
             (e, d') \<Rightarrow> (e, fs\<lparr>fl_certs := d'\<rparr>)))"

text \<open>The file of one site: written under a temporary name, then renamed.\<close>

definition write_conf :: "io \<Rightarrow> string \<Rightarrow> string \<Rightarrow> files \<Rightarrow> string option \<times> files" where
  "write_conf X k conf fs =
     (case write_file X (WriteSite k) (tmp_name k) conf (fl_sites fs) of
        (Some e, d) \<Rightarrow> (Some e, fs\<lparr>fl_sites := d\<rparr>)
      | (None, d) \<Rightarrow> (case rename_file X (RenameSite k) (tmp_name k) (conf_name k) d of (e, d') \<Rightarrow> (e, fs\<lparr>fl_sites := d'\<rparr>)))"

record render_env =
  re_lower :: "string \<Rightarrow> string"
  re_upper :: "string \<Rightarrow> string"
  re_text :: "store_error \<Rightarrow> string"
  re_io :: io
  re_opt :: site_render

fun write_loop :: "render_env \<Rightarrow> site list \<Rightarrow> string list \<Rightarrow> files \<Rightarrow> (string + string list) \<times> files" where
  "write_loop R [] keep fs = (Inr keep, fs)"
| "write_loop R (s # ss) keep fs =
     (if \<not> s_enabled s then write_loop R ss keep fs
      else case renderSite (re_lower R) (re_upper R) s (re_opt R) of
        Inl e \<Rightarrow> (Inl (''site '' @ (if id_valid (s_id s) then trim_space (s_name s) else s_name s) @ '': '' @ re_text R e), fs)
      | Inr (s', conf) \<Rightarrow>
          (case write_certs (re_io R) s' fs of
             (Some e, fs') \<Rightarrow> (Inl e, fs')
           | (None, fs') \<Rightarrow>
               (case write_conf (re_io R) (s_id s') conf fs' of
                  (Some e, fs'') \<Rightarrow> (Inl e, fs'')
                | (None, fs'') \<Rightarrow> write_loop R ss (conf_name (s_id s') # keep) fs'')))"

text \<open>The files of a site that is gone: \<open>n\<close> is the name of its configuration.\<close>

definition remove_stale :: "io \<Rightarrow> string list \<Rightarrow> string \<Rightarrow> files \<Rightarrow> files" where
  "remove_stale X keep n fs =
     (if has_suffix ''.conf'' n \<and> \<not> List.member keep n then
        (let k = trim_suffix ''.conf'' n
         in fs\<lparr>fl_sites := remove_file X (RemoveSite n) n (fl_sites fs),
               fl_certs := remove_file X (RemoveCert (k @ ''.key'')) (k @ ''.key'')
                 (remove_file X (RemoveCert (k @ ''.crt'')) (k @ ''.crt'') (fl_certs fs))\<rparr>)
      else fs)"

definition WriteSiteConfigs :: "render_env \<Rightarrow> site list \<Rightarrow> files \<Rightarrow> string option \<times> files" where
  "WriteSiteConfigs R sites fs =
     (case io_fail (re_io R) MkSites of Some e \<Rightarrow> (Some e, fs) | None \<Rightarrow>
     (case io_fail (re_io R) MkCerts of Some e \<Rightarrow> (Some e, fs) | None \<Rightarrow>
     (case write_loop R sites [] fs of
        (Inl e, fs') \<Rightarrow> (Some e, fs')
      | (Inr keep, fs') \<Rightarrow>
          (case io_fail (re_io R) ReadSites of
             Some e \<Rightarrow> (Some e, fs')
           | None \<Rightarrow> (None, fold (remove_stale (re_io R) keep) (map fst (fl_sites fs')) fs')))))"

subsection \<open>The lines hold no line break and their blocks are balanced\<close>

definition clean :: "string \<Rightarrow> bool" where
  "clean v \<longleftrightarrow> list_all (\<lambda>c. c \<noteq> CHR 0x0A \<and> c \<noteq> CHR ''{'' \<and> c \<noteq> CHR ''}'') v"

fun delta :: "string \<Rightarrow> int" where
  "delta [] = 0"
| "delta (c # s) = (if c = CHR ''{'' then 1 else if c = CHR ''}'' then - 1 else 0) + delta s"

text \<open>The depth after a line; a comment does not count, and a depth below 0 is an error.\<close>

definition brace_step :: "int option \<Rightarrow> string \<Rightarrow> int option" where
  "brace_step d l = (case d of None \<Rightarrow> None | Some n \<Rightarrow>
     if has_prefix ''#'' l then Some n else if n + delta l < 0 then None else Some (n + delta l))"

definition depth :: "int option \<Rightarrow> string list \<Rightarrow> int option" where
  "depth d ls = foldl brace_step d ls"

definition one_line :: "string \<Rightarrow> bool" where
  "one_line l \<longleftrightarrow> CHR 0x0A \<notin> set l"

lemma delta_append [simp]: "delta (a @ b) = delta a + delta b" by (induction a) auto

lemma delta_clean: "clean v \<Longrightarrow> delta v = 0" by (induction v) (auto simp: clean_def)

lemma clean_line: "clean v \<Longrightarrow> CHR 0x0A \<notin> set v" by (auto simp: clean_def list_all_iff)

lemma clean_append [simp]: "clean (a @ b) \<longleftrightarrow> clean a \<and> clean b" by (simp add: clean_def)

lemma clean_itoa: "clean (itoa n)"
proof -
  have "clean v" if "list_all is_digit v" for v using that by (auto simp: clean_def list_all_iff is_digit_def byte_of_def)
  moreover have "list_all is_digit (dec_digits (- n))" if "n < 0" using dec_digits_digits that by simp
  ultimately show ?thesis using dec_digits_digits [of n] by (auto simp: itoa_def clean_def)
qed

lemma depth_simps [simp]: "depth d [] = d" "depth d (l # ls) = depth (brace_step d l) ls" "depth d (xs @ ys) = depth (depth d xs) ys"
  by (simp_all add: depth_def)

text \<open>The values of a site that passed the checks.\<close>

definition clean_site :: "site \<Rightarrow> bool" where
  "clean_site s \<longleftrightarrow> clean (s_id s) \<and> list_all clean (s_domains s) \<and> clean (s_upstreamHost s) \<and> s_upstreamScheme s \<in> {''http'', ''https''}"

definition clean_opt :: "site_render \<Rightarrow> bool" where
  "clean_opt opt \<longleftrightarrow> clean (so_certsDir opt) \<and> clean (so_control opt)"

lemma clean_names: "clean_site s \<Longrightarrow> clean (server_names s)"
proof -
  have "clean (str_join '' '' ds)" if "list_all clean ds" for ds
    using that by (induction "'' ''" ds rule: str_join.induct) (auto simp: clean_def)
  then show "clean_site s \<Longrightarrow> clean (server_names s)" by (simp add: clean_site_def server_names_def)
qed

lemma clean_upstream: "clean_site s \<Longrightarrow> clean (upstream_name s)"
  by (auto simp: clean_site_def upstream_name_def clean_def list_all_iff)

lemma header_depth: "clean_site s \<Longrightarrow> depth (Some 0) (header_lines s) = Some 0"
  using delta_clean [OF clean_upstream, of s] delta_clean [OF clean_itoa]
  by (simp add: header_lines_def brace_step_def has_prefix_single clean_site_def delta_clean)

lemma gate_depth: "clean_site s \<Longrightarrow> 0 \<le> d \<Longrightarrow> depth (Some d) (gate_lines ''    '' s) = Some d"
  by (simp add: gate_lines_def brace_step_def has_prefix_single clean_site_def delta_clean dq_def)

lemma login_depth: "clean_opt opt \<Longrightarrow> 0 \<le> d \<Longrightarrow> depth (Some d) (login_lines ''    '' opt) = Some d"
  by (simp add: login_lines_def brace_step_def has_prefix_single clean_opt_def delta_clean dq_def loginPath_def logoutPath_def authBackendPath_def)

lemma proxy_depth: "clean_site s \<Longrightarrow> 0 \<le> d \<Longrightarrow> depth (Some d) (proxy_lines ''    '' s) = Some d"
  using delta_clean [OF clean_upstream, of s]
  by (auto simp: proxy_lines_def proxy_target_def brace_step_def has_prefix_single clean_site_def delta_clean)

lemma acme_depth: "0 \<le> d \<Longrightarrow> depth (Some d) (acme_lines ''    '') = Some d"
  by (simp add: acme_lines_def brace_step_def has_prefix_single dq_def)

lemma listen_depth: "clean_site s \<Longrightarrow> depth (Some 0) (listen_lines opt s) = Some 1"
  using delta_clean [OF clean_names, of s] delta_clean [OF clean_itoa]
  by (simp add: listen_lines_def brace_step_def has_prefix_single)

lemma tls_depth: "clean_site s \<Longrightarrow> clean_opt opt \<Longrightarrow> depth (Some 0) (tls_lines opt s) = Some 1"
  using delta_clean [OF clean_names, of s] delta_clean [OF clean_itoa]
  by (simp add: tls_lines_def brace_step_def has_prefix_single crt_path_def key_path_def clean_site_def clean_opt_def delta_clean dq_def)

lemma render_depth:
  assumes "clean_site s" "clean_opt opt"
  shows "depth (Some 0) (render_lines opt s) = Some 0"
proof -
  have b: "depth (Some 1) (body_lines ''    '' opt s) = Some 1"
    using gate_depth [OF assms(1)] login_depth [OF assms(2)] proxy_depth [OF assms(1)] by (simp add: body_lines_def)
  have c: "brace_step (Some 1) ''}'' = Some 0" "brace_step (Some d) [] = (if d < 0 then None else Some d)" for d
    by (simp_all add: brace_step_def has_prefix_single)
  have r: "brace_step (Some 1) ''    location / { return 301 https://$host$request_uri; }'' = Some 1"
    by (simp add: brace_step_def has_prefix_single)
  show ?thesis
    by (simp add: render_lines_def header_depth [OF assms(1)] listen_depth [OF assms(1)] acme_depth tls_depth [OF assms] b c r)
qed

lemma one_line_simps [simp]: "one_line []" "one_line (c # s) \<longleftrightarrow> c \<noteq> CHR 0x0A \<and> one_line s" "one_line (a @ b) \<longleftrightarrow> one_line a \<and> one_line b"
  by (auto simp: one_line_def)

lemma one_line_clean: "clean v \<Longrightarrow> one_line v" by (simp add: one_line_def clean_line)

lemma one_line_comment: "one_line (sanitizeComment v)" by (auto simp: one_line_def sanitizeComment_def)

lemma render_one_line:
  assumes "clean_site s" "clean_opt opt"
  shows "list_all one_line (render_lines opt s)"
proof -
  have v: "one_line (s_id s)" "one_line (s_upstreamHost s)" "one_line (upstream_name s)" "one_line (server_names s)"
    "one_line (so_certsDir opt)" "one_line (so_control opt)" "one_line (itoa n)" "one_line (s_upstreamScheme s)" for n
    using assms clean_upstream clean_names clean_itoa one_line_clean by (auto simp: clean_site_def clean_opt_def)
  have "list_all one_line (header_lines s)" by (simp add: header_lines_def v one_line_comment)
  moreover have "list_all one_line (body_lines ''    '' opt s)"
    by (simp add: body_lines_def gate_lines_def login_lines_def proxy_lines_def proxy_target_def dq_def loginPath_def logoutPath_def
        authBackendPath_def v)
  moreover have "list_all one_line (acme_lines ''    '')" by (simp add: acme_lines_def dq_def)
  moreover have "list_all one_line (listen_lines opt s)" "list_all one_line (tls_lines opt s)"
    by (simp_all add: listen_lines_def tls_lines_def crt_path_def key_path_def dq_def v)
  ultimately show ?thesis by (simp add: render_lines_def)
qed

lemma file_text_lines: "list_all one_line ls \<Longrightarrow> split_on CHR 0x0A (file_text ls) = ls @ [[]]"
  by (induction ls) (simp_all add: file_text_def one_line_def split_on_append)

lemma clean_control: "clean (so_control (normalized opt))"
proof -
  have "clean v" if "control_valid v" for v
  proof (cases "cut_at CHR '':'' v")
    case None
    then show ?thesis using that by (simp add: control_valid_def)
  next
    case (Some hp)
    obtain h p where hp: "hp = (h, p)" by (cases hp)
    have "list_all (\<lambda>c. is_upper c \<or> is_lower c \<or> is_digit c \<or> c = CHR ''.'' \<or> c = CHR ''_'' \<or> c = CHR ''-'') h" "list_all is_digit p"
      using that Some hp by (simp_all add: control_valid_def)
    then have "clean h" "clean p" by (auto simp: clean_def list_all_iff is_upper_def is_lower_def is_digit_def byte_of_def)
    then show ?thesis using cut_at_Some [OF Some [unfolded hp]] by (simp add: clean_def)
  qed
  then show ?thesis by (auto simp: normalized_def Let_def clean_def [of "''mgmt:9444''"])
qed

lemma certsDir_normalized: "so_certsDir (normalized opt) = so_certsDir opt"
  by (simp add: normalized_def Let_def)

lemma clean_not_forbidden:
  "\<not> contains_any domain_forbidden d \<Longrightarrow> \<not> hasControlChar d \<Longrightarrow> clean d"
  "\<not> contains_any host_forbidden d \<Longrightarrow> \<not> hasControlChar d \<Longrightarrow> clean d"
  by (auto simp: contains_any_iff domain_forbidden_def host_forbidden_def hasControlChar_def list_ex_iff clean_def list_all_iff)

lemma valid_clean:
  assumes "site_valid s" "id_valid (s_id s)"
  shows "clean_site s"
proof -
  have "clean (s_id s)"
    using assms(2) by (auto simp: id_valid_def id_char_def clean_def list_all_iff is_lower_def is_digit_def byte_of_def split: list.splits)
  then show ?thesis using assms(1) clean_not_forbidden
    unfolding clean_site_def site_valid_def by (auto simp: list_all_iff)
qed

text \<open>
  C15 whatever a site holds, its configuration is exactly the lines the generator wrote: no value adds a
  line break, so no directive can be injected as a line of its own, and outside comments the braces are
  balanced and never close a block the generator did not open, so every directive stays in the server
  block it was written in. The file names a site with a valid id that passed the validation.
\<close>

theorem site_config_contained:
  assumes "renderSite L U s opt = Inr (s', conf)" "clean (so_certsDir opt)"
  shows "split_on CHR 0x0A conf = render_lines (normalized opt) s' @ [[]]
    \<and> depth (Some 0) (render_lines (normalized opt) s') = Some 0
    \<and> s_id s' = s_id s \<and> id_valid (s_id s) \<and> site_valid s'"
proof -
  have v: "id_valid (s_id s)" "ValidateSite L U s = Inr s'" "conf = file_text (render_lines (normalized opt) s')"
    using assms(1) by (auto simp: renderSite_def split: if_splits sum.splits)
  then have s': "site_valid s'" "s_id s' = s_id s" using ValidateSite_Inr by blast+
  then have c: "clean_site s'" using valid_clean v(1) by simp
  have o: "clean_opt (normalized opt)" using assms(2) by (simp add: clean_opt_def clean_control certsDir_normalized)
  show ?thesis using file_text_lines [OF render_one_line [OF c o]] render_depth [OF c o] s' v by simp
qed

definition demo_render :: site_render where
  "demo_render = \<lparr>so_certsDir = ''/certs'', so_httpPort = 0, so_httpsPort = 0, so_control = ''bad value;''\<rparr>"

definition demo_named :: site where
  "demo_named = demo_site\<lparr>s_id := ''abcd''\<rparr>"

lemma demo_named_renders:
  "renderSite (\<lambda>x. x) (\<lambda>x. x) demo_named demo_render = Inr (demo_site_ok\<lparr>s_id := ''abcd''\<rparr>,
     file_text (render_lines (normalized demo_render) (demo_site_ok\<lparr>s_id := ''abcd''\<rparr>)))"
proof -
  have "ValidateSite (\<lambda>x. x) (\<lambda>x. x) demo_named = Inr (demo_site_ok\<lparr>s_id := ''abcd''\<rparr>)" by code_simp
  moreover have "id_valid (s_id demo_named)" by code_simp
  ultimately show ?thesis by (simp add: renderSite_def)
qed

lemma site_config_contained_witness:
  "split_on CHR 0x0A (file_text (render_lines (normalized demo_render) (demo_site_ok\<lparr>s_id := ''abcd''\<rparr>)))
    = render_lines (normalized demo_render) (demo_site_ok\<lparr>s_id := ''abcd''\<rparr>) @ [[]]"
proof -
  have "clean (so_certsDir demo_render)" by (simp add: demo_render_def clean_def)
  then show ?thesis using site_config_contained [OF demo_named_renders] by blast
qed

subsection \<open>What a run leaves in the directories\<close>

lemma dir_lookup [simp]:
  "map_of (dir_del n d) m = (if m = n then None else map_of d m)"
  "map_of (dir_put n v d) m = (if m = n then Some v else map_of d m)"
proof -
  show del: "map_of (dir_del n d) m = (if m = n then None else map_of d m)" by (induction d) (auto simp: dir_del_def)
  show "map_of (dir_put n v d) m = (if m = n then Some v else map_of d m)" by (simp add: dir_put_def del)
qed

lemma file_names [simp]:
  "conf_name a = conf_name b \<longleftrightarrow> a = b" "tmp_name a \<noteq> conf_name b" "conf_name b \<noteq> tmp_name a"
  "a @ ''.crt'' \<noteq> b @ ''.key''" "a @ ''.key'' \<noteq> b @ ''.crt''"
proof -
  show "conf_name a = conf_name b \<longleftrightarrow> a = b" by (simp add: conf_name_def)
  have "last (tmp_name a) \<noteq> last (conf_name b)" by (simp add: tmp_name_def conf_name_def)
  then show "tmp_name a \<noteq> conf_name b" "conf_name b \<noteq> tmp_name a" by force+
  show "a @ ''.crt'' \<noteq> b @ ''.key''" "a @ ''.key'' \<noteq> b @ ''.crt''" by simp_all
qed

text \<open>The files of an enabled site are those of its validated form.\<close>

definition written :: "render_env \<Rightarrow> site \<Rightarrow> files \<Rightarrow> bool" where
  "written R s fs = (case renderSite (re_lower R) (re_upper R) s (re_opt R) of
     Inl e \<Rightarrow> False
   | Inr (s', conf) \<Rightarrow> map_of (fl_sites fs) (conf_name (s_id s)) = Some conf
       \<and> (s_hasTLS s' \<longrightarrow> map_of (fl_certs fs) (s_id s @ ''.crt'') = Some (s_tlsCert s')
            \<and> map_of (fl_certs fs) (s_id s @ ''.key'') = Some (s_tlsKey s')))"

lemma render_id: "renderSite L U s opt = Inr (s', conf) \<Longrightarrow> s_id s' = s_id s"
  by (auto simp: renderSite_def split: if_splits sum.splits dest!: ValidateSite_Inr)

lemma write_file_None [simp]: "write_file X op n v d = (None, d') \<longleftrightarrow> io_fail X op = None \<and> d' = dir_put n v d"
  by (auto simp: write_file_def split: option.splits)

lemma rename_file_None [simp]:
  "rename_file X op a b (dir_put a v d) = (None, d') \<longleftrightarrow> io_fail X op = None \<and> d' = dir_put b v (dir_del a (dir_put a v d))"
  by (auto simp: rename_file_def split: option.splits)

lemma write_certs_None:
  assumes "write_certs X s fs = (None, fs')"
  shows "fl_sites fs' = fl_sites fs"
    and "s_hasTLS s \<Longrightarrow> map_of (fl_certs fs') (s_id s @ ''.crt'') = Some (s_tlsCert s) \<and> map_of (fl_certs fs') (s_id s @ ''.key'') = Some (s_tlsKey s)"
    and "n \<noteq> s_id s @ ''.crt'' \<Longrightarrow> n \<noteq> s_id s @ ''.key'' \<Longrightarrow> map_of (fl_certs fs') n = map_of (fl_certs fs) n"
proof -
  have "fs' = (if s_hasTLS s then fs\<lparr>fl_certs := dir_put (s_id s @ ''.key'') (s_tlsKey s) (dir_put (s_id s @ ''.crt'') (s_tlsCert s) (fl_certs fs))\<rparr> else fs)"
    using assms by (simp add: write_certs_def split: if_splits option.splits prod.splits)
  then show "fl_sites fs' = fl_sites fs"
    and "s_hasTLS s \<Longrightarrow> map_of (fl_certs fs') (s_id s @ ''.crt'') = Some (s_tlsCert s) \<and> map_of (fl_certs fs') (s_id s @ ''.key'') = Some (s_tlsKey s)"
    and "n \<noteq> s_id s @ ''.crt'' \<Longrightarrow> n \<noteq> s_id s @ ''.key'' \<Longrightarrow> map_of (fl_certs fs') n = map_of (fl_certs fs) n"
    by (simp_all del: map_of.simps)
qed

lemma write_conf_None:
  assumes "write_conf X k conf fs = (None, fs')"
  shows "fl_certs fs' = fl_certs fs" and "map_of (fl_sites fs') (conf_name k) = Some conf"
    and "n \<noteq> conf_name k \<Longrightarrow> n \<noteq> tmp_name k \<Longrightarrow> map_of (fl_sites fs') n = map_of (fl_sites fs) n"
proof -
  have "fs' = fs\<lparr>fl_sites := dir_put (conf_name k) conf (dir_del (tmp_name k) (dir_put (tmp_name k) conf (fl_sites fs)))\<rparr>"
    using assms by (simp add: write_conf_def split: option.splits prod.splits)
  then show "fl_certs fs' = fl_certs fs" and "map_of (fl_sites fs') (conf_name k) = Some conf"
    and "n \<noteq> conf_name k \<Longrightarrow> n \<noteq> tmp_name k \<Longrightarrow> map_of (fl_sites fs') n = map_of (fl_sites fs) n"
    by simp_all
qed

lemma written_iff:
  "renderSite (re_lower R) (re_upper R) s (re_opt R) = Inr (s', conf) \<Longrightarrow>
    written R s fs \<longleftrightarrow> map_of (fl_sites fs) (conf_name (s_id s)) = Some conf
       \<and> (s_hasTLS s' \<longrightarrow> map_of (fl_certs fs) (s_id s @ ''.crt'') = Some (s_tlsCert s')
            \<and> map_of (fl_certs fs) (s_id s @ ''.key'') = Some (s_tlsKey s'))"
  by (simp add: written_def)

lemma written_frame:
  assumes "map_of (fl_sites fs2) (conf_name (s_id t)) = map_of (fl_sites fs) (conf_name (s_id t))"
    and "map_of (fl_certs fs2) (s_id t @ ''.crt'') = map_of (fl_certs fs) (s_id t @ ''.crt'')"
    and "map_of (fl_certs fs2) (s_id t @ ''.key'') = map_of (fl_certs fs) (s_id t @ ''.key'')"
    and "written R t fs"
  shows "written R t fs2"
  using assms(4) unfolding written_def by (simp add: assms(1-3) split: sum.splits prod.splits)

lemma write_one:
  assumes "renderSite (re_lower R) (re_upper R) s (re_opt R) = Inr (s', conf)"
    and "write_certs X s' fs = (None, fs1)" "write_conf X (s_id s') conf fs1 = (None, fs2)"
  shows "written R s fs2" and "s_id t \<noteq> s_id s \<Longrightarrow> written R t fs \<Longrightarrow> written R t fs2"
proof -
  note id = render_id [OF assms(1)]
  note c = write_certs_None [OF assms(2), unfolded id] and w = write_conf_None [OF assms(3), unfolded id]
  show "written R s fs2" using c(2) w(1,2) by (simp add: written_iff [OF assms(1)])
  show "written R t fs2" if "s_id t \<noteq> s_id s" "written R t fs"
    by (rule written_frame [OF _ _ _ that(2)]) (use that(1) c(1,3) w(1,3) in simp_all)
qed

text \<open>One step of the loop over an enabled site.\<close>

lemma write_loop_step:
  assumes "write_loop R (s # ss) keep fs = (Inr keep', fs')" "s_enabled s"
  obtains s' conf fs1 fs2 where "renderSite (re_lower R) (re_upper R) s (re_opt R) = Inr (s', conf)"
    "write_certs (re_io R) s' fs = (None, fs1)" "write_conf (re_io R) (s_id s') conf fs1 = (None, fs2)"
    "write_loop R ss (conf_name (s_id s) # keep) fs2 = (Inr keep', fs')"
  using assms by (auto simp: render_id split: sum.splits prod.splits option.splits)

lemma write_loop_written:
  "write_loop R ss keep fs = (Inr keep', fs') \<Longrightarrow> distinct (map s_id (filter s_enabled ss)) \<Longrightarrow>
    set keep' = set keep \<union> (\<lambda>s. conf_name (s_id s)) ` set (filter s_enabled ss)
    \<and> (\<forall>s \<in> set ss. s_enabled s \<longrightarrow> written R s fs')
    \<and> (\<forall>t. s_id t \<notin> s_id ` set (filter s_enabled ss) \<longrightarrow> written R t fs \<longrightarrow> written R t fs')
    \<and> (\<forall>k. k \<notin> s_id ` set (filter s_enabled ss) \<longrightarrow> map_of (fl_sites fs') (conf_name k) = map_of (fl_sites fs) (conf_name k))"
proof (induction ss arbitrary: keep fs)
  case (Cons s ss)
  show ?case
  proof (cases "s_enabled s")
    case False
    then show ?thesis using Cons by auto
  next
    case True
    obtain s' conf fs1 fs2 where r: "renderSite (re_lower R) (re_upper R) s (re_opt R) = Inr (s', conf)"
      and c: "write_certs (re_io R) s' fs = (None, fs1)" "write_conf (re_io R) (s_id s') conf fs1 = (None, fs2)"
      and l: "write_loop R ss (conf_name (s_id s) # keep) fs2 = (Inr keep', fs')"
      using write_loop_step [OF Cons.prems(1) True] .
    have "distinct (map s_id (filter s_enabled ss))" "s_id s \<notin> s_id ` set (filter s_enabled ss)"
      using Cons.prems(2) True by auto
    note IH = Cons.IH [OF l this(1)] this(2)
    note w = write_one [OF r c]
    have "written R s fs'" using IH w(1) by blast
    moreover have "written R t fs'" if "s_id t \<notin> s_id ` set (filter s_enabled (s # ss))" "written R t fs" for t
      using that w(2) [of t] IH True by auto
    moreover have "map_of (fl_sites fs2) (conf_name k) = map_of (fl_sites fs) (conf_name k)" if "k \<noteq> s_id s" for k
      using write_conf_None(3) [OF c(2), of "conf_name k"] write_certs_None(1) [OF c(1)] that render_id [OF r] by simp
    ultimately show ?thesis using IH True by auto
  qed
qed auto

text \<open>Whatever fails, the loop leaves every configuration file in place.\<close>

lemma write_conf_keeps:
  "map_of (fl_sites fs) (conf_name m) \<noteq> None \<Longrightarrow> map_of (fl_sites (snd (write_conf X k conf fs))) (conf_name m) \<noteq> None"
  by (auto simp: write_conf_def write_file_def rename_file_def split: option.splits)

lemma write_certs_keeps [simp]: "fl_sites (snd (write_certs X s fs)) = fl_sites fs"
  by (simp add: write_certs_def split: option.splits prod.splits)

lemma write_loop_keeps:
  "map_of (fl_sites fs) (conf_name m) \<noteq> None \<Longrightarrow> map_of (fl_sites (snd (write_loop R ss keep fs))) (conf_name m) \<noteq> None"
proof (induction ss arbitrary: keep fs)
  case (Cons s ss)
  show ?case
  proof (cases "s_enabled s")
    case True
    show ?thesis
    proof (cases "renderSite (re_lower R) (re_upper R) s (re_opt R)")
      case (Inr b)
      obtain s' conf where r: "renderSite (re_lower R) (re_upper R) s (re_opt R) = Inr (s', conf)" using Inr by (cases b) simp
      obtain e1 fs1 where c: "write_certs (re_io R) s' fs = (e1, fs1)" by fastforce
      obtain e2 fs2 where w: "write_conf (re_io R) (s_id s') conf fs1 = (e2, fs2)" by fastforce
      have 1: "map_of (fl_sites fs1) (conf_name m) \<noteq> None" using Cons.prems write_certs_keeps [of "re_io R" s' fs] by (simp add: c)
      have 2: "map_of (fl_sites fs2) (conf_name m) \<noteq> None" using write_conf_keeps [OF 1, of "re_io R" "s_id s'" conf] by (simp add: w)
      show ?thesis using True 1 2 Cons.IH [OF 2] by (simp add: r c w split: option.splits)
    qed (use True Cons.prems in simp)
  qed (use Cons in simp)
qed simp

lemma no_io_fail:
  assumes "\<And>op. io_fail X op = None"
  shows "fst (write_certs X t f) = None" "fst (write_conf X k v f) = None"
  by (simp_all add: write_certs_def write_conf_def write_file_def rename_file_def assms)

lemma write_loop_fail:
  assumes "write_loop R ss keep fs = (Inl e, fs')" "\<And>op. io_fail (re_io R) op = None"
  shows "\<exists>s \<in> set ss. s_enabled s \<and> (\<exists>x. renderSite (re_lower R) (re_upper R) s (re_opt R) = Inl x)"
  using assms
proof (induction ss arbitrary: keep fs)
  case (Cons s ss)
  note c = no_io_fail [OF Cons.prems(2)]
  show ?case
  proof (cases "s_enabled s \<and> (\<exists>x. renderSite (re_lower R) (re_upper R) s (re_opt R) = Inl x)")
    case False
    have "\<exists>keep2 fs2. write_loop R ss keep2 fs2 = (Inl e, fs')"
    proof (cases "s_enabled s")
      case True
      then obtain s' conf where r: "renderSite (re_lower R) (re_upper R) s (re_opt R) = Inr (s', conf)"
        using False by (metis (no_types) surj_pair sumE)
      obtain fs1 where f1: "write_certs (re_io R) s' fs = (None, fs1)" using c(1) by (metis prod.collapse)
      obtain fs2 where f2: "write_conf (re_io R) (s_id s') conf fs1 = (None, fs2)" using c(2) by (metis prod.collapse)
      show ?thesis using Cons.prems(1) True by (auto simp: r f1 f2)
    qed (use Cons.prems(1) in auto)
    then show ?thesis using Cons.IH [OF _ Cons.prems(2)] by auto
  qed auto
qed simp

lemma WriteSiteConfigs_total:
  assumes "\<And>op. io_fail (re_io R) op = None"
    and "\<And>s. s \<in> set sites \<Longrightarrow> s_enabled s \<Longrightarrow> \<exists>x. renderSite (re_lower R) (re_upper R) s (re_opt R) = Inr x"
  shows "fst (WriteSiteConfigs R sites fs) = None"
proof -
  obtain r fs1 where l: "write_loop R sites [] fs = (r, fs1)" by fastforce
  show ?thesis
  proof (cases r)
    case (Inl e)
    then show ?thesis using write_loop_fail [OF l [unfolded Inl] assms(1)] assms(2) by (metis Inl_Inr_False)
  qed (use l in \<open>simp add: WriteSiteConfigs_def assms(1)\<close>)
qed

text \<open>The clean-up touches only names that are not kept.\<close>

lemma has_suffix_trim: "has_suffix p s \<Longrightarrow> s = trim_suffix p s @ p"
proof -
  have *: "has_prefix a b \<Longrightarrow> b = a @ drop (length a) b" for a b
    by (metis append_take_drop_id has_prefix_def)
  assume "has_suffix p s"
  then have "rev (rev s) = rev (rev p @ drop (length (rev p)) (rev s))" using * [of "rev p" "rev s"] by (simp add: has_suffix_def)
  then show ?thesis using \<open>has_suffix p s\<close> by (simp add: trim_suffix_def rev_drop)
qed

lemma remove_stale_other:
  assumes "List.member keep (conf_name k)"
  shows "map_of (fl_sites (remove_stale X keep n fs)) (conf_name k) = map_of (fl_sites fs) (conf_name k)"
    and "map_of (fl_certs (remove_stale X keep n fs)) (k @ ''.crt'') = map_of (fl_certs fs) (k @ ''.crt'')"
    and "map_of (fl_certs (remove_stale X keep n fs)) (k @ ''.key'') = map_of (fl_certs fs) (k @ ''.key'')"
proof -
  have "n = conf_name (trim_suffix ''.conf'' n)" if "has_suffix ''.conf'' n" for n
    using that has_suffix_trim unfolding conf_name_def by metis
  then have "k \<noteq> trim_suffix ''.conf'' n" if "has_suffix ''.conf'' n" "\<not> List.member keep n"
    using that assms by metis
  then show "map_of (fl_sites (remove_stale X keep n fs)) (conf_name k) = map_of (fl_sites fs) (conf_name k)"
    and "map_of (fl_certs (remove_stale X keep n fs)) (k @ ''.crt'') = map_of (fl_certs fs) (k @ ''.crt'')"
    and "map_of (fl_certs (remove_stale X keep n fs)) (k @ ''.key'') = map_of (fl_certs fs) (k @ ''.key'')"
    using assms by (auto simp: remove_stale_def remove_file_def Let_def)
qed

lemma fold_stale_other:
  assumes "List.member keep (conf_name k)"
  shows "map_of (fl_sites (fold (remove_stale X keep) ns fs)) (conf_name k) = map_of (fl_sites fs) (conf_name k)"
    and "map_of (fl_certs (fold (remove_stale X keep) ns fs)) (k @ ''.crt'') = map_of (fl_certs fs) (k @ ''.crt'')"
    and "map_of (fl_certs (fold (remove_stale X keep) ns fs)) (k @ ''.key'') = map_of (fl_certs fs) (k @ ''.key'')"
  by (induction ns arbitrary: fs) (simp_all add: remove_stale_other [OF assms])

lemma conf_name_suffix [simp]: "has_suffix ''.conf'' (conf_name k)"
  by (simp add: conf_name_def has_suffix_def has_prefix_def)

lemma trim_conf_name [simp]: "trim_suffix ''.conf'' (conf_name k) = k"
  by (simp add: conf_name_def trim_suffix_def has_suffix_def has_prefix_def)

lemma remove_stale_none:
  "map_of (fl_sites fs) m = None \<Longrightarrow> map_of (fl_sites (remove_stale X keep n fs)) m = None"
  "map_of (fl_certs fs) m = None \<Longrightarrow> map_of (fl_certs (remove_stale X keep n fs)) m = None"
  by (auto simp: remove_stale_def remove_file_def Let_def)

lemma fold_stale_none:
  "map_of (fl_sites fs) m = None \<Longrightarrow> map_of (fl_sites (fold (remove_stale X keep) ns fs)) m = None"
  "map_of (fl_certs fs) m = None \<Longrightarrow> map_of (fl_certs (fold (remove_stale X keep) ns fs)) m = None"
  by (induction ns arbitrary: fs) (simp_all add: remove_stale_none)

lemma fold_stale_gone:
  assumes "conf_name k \<in> set ns" "\<not> List.member keep (conf_name k)" "\<And>op. io_fail X op = None"
  shows "map_of (fl_sites (fold (remove_stale X keep) ns fs)) (conf_name k) = None
    \<and> map_of (fl_certs (fold (remove_stale X keep) ns fs)) (k @ ''.crt'') = None
    \<and> map_of (fl_certs (fold (remove_stale X keep) ns fs)) (k @ ''.key'') = None"
  using assms(1)
proof (induction ns arbitrary: fs)
  case (Cons n ns)
  show ?case
  proof (cases "n = conf_name k")
    case True
    have "map_of (fl_sites (remove_stale X keep n fs)) (conf_name k) = None"
      "map_of (fl_certs (remove_stale X keep n fs)) (k @ ''.crt'') = None"
      "map_of (fl_certs (remove_stale X keep n fs)) (k @ ''.key'') = None"
      using assms(2,3) by (simp_all add: True remove_stale_def remove_file_def Let_def)
    then show ?thesis by (simp add: fold_stale_none)
  qed (use Cons in auto)
qed simp

definition fresh_conf :: "site list \<Rightarrow> string \<Rightarrow> bool" where
  "fresh_conf sites n \<longleftrightarrow> List.member (map (\<lambda>s. conf_name (s_id s)) (filter s_enabled sites)) n"

lemma written_conf: "written R s fs \<Longrightarrow> map_of (fl_sites fs) (conf_name (s_id s)) \<noteq> None"
  by (auto simp: written_def split: sum.splits)

text \<open>The clean-up after the loop, over the files as the loop left them.\<close>

lemma clean_up_exact:
  fixes fs1 :: files
  defines "gone X keep \<equiv> fold (remove_stale X keep) (map fst (fl_sites fs1)) fs1"
  assumes "\<And>op. io_fail X op = None" "\<And>k. List.member keep (conf_name k) \<Longrightarrow> map_of (fl_sites fs1) (conf_name k) \<noteq> None"
  shows "map_of (fl_sites (gone X keep)) (conf_name k) \<noteq> None \<longleftrightarrow> List.member keep (conf_name k)"
    and "List.member keep (conf_name (s_id s)) \<Longrightarrow> written R s fs1 \<Longrightarrow> written R s (gone X keep)"
    and "map_of (fl_sites fs1) (conf_name k) \<noteq> None \<Longrightarrow> \<not> List.member keep (conf_name k) \<Longrightarrow>
      map_of (fl_certs (gone X keep)) (k @ ''.crt'') = None \<and> map_of (fl_certs (gone X keep)) (k @ ''.key'') = None"
proof -
  have in_names: "conf_name k \<in> set (map fst (fl_sites fs1))" if "map_of (fl_sites fs1) (conf_name k) \<noteq> None" for k
    using that by (metis list.set_map map_of_eq_None_iff)
  show "map_of (fl_sites (gone X keep)) (conf_name k) \<noteq> None \<longleftrightarrow> List.member keep (conf_name k)"
  proof (cases "List.member keep (conf_name k)")
    case True
    then show ?thesis using assms(3) by (simp add: gone_def fold_stale_other)
  next
    case False
    then show ?thesis using fold_stale_gone [OF in_names False assms(2)] fold_stale_none(1) [of fs1 "conf_name k"]
      unfolding gone_def by metis
  qed
  show "written R s (gone X keep)" if "List.member keep (conf_name (s_id s))" "written R s fs1"
    unfolding gone_def by (rule written_frame [OF fold_stale_other [OF that(1)] that(2)])
  show "map_of (fl_certs (gone X keep)) (k @ ''.crt'') = None \<and> map_of (fl_certs (gone X keep)) (k @ ''.key'') = None"
    if "map_of (fl_sites fs1) (conf_name k) \<noteq> None" "\<not> List.member keep (conf_name k)"
    using fold_stale_gone [OF in_names [OF that(1)] that(2) assms(2)] unfolding gone_def by blast
qed

text \<open>
  C16 when no file operation fails, a run over sites with different ids either succeeds or stops at an
  enabled site that does not render. A successful run leaves for every enabled site exactly its rendered
  configuration, with its certificate and key when the site serves TLS; no other configuration file is
  left; and the certificate and the key of every configuration it removed are removed with it. A run that
  stops has removed no configuration file.
\<close>

theorem site_files_exact:
  assumes "\<And>op. io_fail (re_io R) op = None" "distinct (map s_id sites)"
  shows "case WriteSiteConfigs R sites fs of
      (None, fs') \<Rightarrow> (\<forall>s \<in> set sites. s_enabled s \<longrightarrow> written R s fs')
        \<and> (\<forall>k. map_of (fl_sites fs') (conf_name k) \<noteq> None \<longleftrightarrow> fresh_conf sites (conf_name k))
        \<and> (\<forall>k. map_of (fl_sites fs) (conf_name k) \<noteq> None \<and> \<not> fresh_conf sites (conf_name k) \<longrightarrow>
             map_of (fl_certs fs') (k @ ''.crt'') = None \<and> map_of (fl_certs fs') (k @ ''.key'') = None)
    | (Some e, fs') \<Rightarrow> (\<exists>s \<in> set sites. s_enabled s \<and> (\<exists>x. renderSite (re_lower R) (re_upper R) s (re_opt R) = Inl x))
        \<and> (\<forall>k. map_of (fl_sites fs) (conf_name k) \<noteq> None \<longrightarrow> map_of (fl_sites fs') (conf_name k) \<noteq> None)"
proof -
  obtain r fs1 where l: "write_loop R sites [] fs = (r, fs1)" by fastforce
  show ?thesis
  proof (cases r)
    case (Inl e)
    then show ?thesis using write_loop_fail [OF l [unfolded Inl] assms(1)] write_loop_keeps [of fs _ R sites "[]"] l
      by (simp add: WriteSiteConfigs_def assms(1))
  next
    case (Inr keep)
    have "distinct (map s_id (filter s_enabled sites))" using assms(2) by (simp add: distinct_map_filter)
    note w = write_loop_written [OF l [unfolded Inr] this]
    have fr: "fresh_conf sites n \<longleftrightarrow> List.member keep n" for n
      using w by (auto simp: fresh_conf_def)
    have kept: "map_of (fl_sites fs1) (conf_name k) \<noteq> None" if k: "List.member keep (conf_name k)" for k
    proof -
      obtain s where "s \<in> set sites" "s_enabled s" "s_id s = k" using k w by auto
      then show ?thesis using w written_conf by blast
    qed
    note u = clean_up_exact [OF assms(1) kept]
    have "written R s (fold (remove_stale (re_io R) keep) (map fst (fl_sites fs1)) fs1)" if "s \<in> set sites" "s_enabled s" for s
      by (rule u(2)) (use that w in auto)
    moreover have "map_of (fl_sites fs1) (conf_name k) \<noteq> None"
      if "map_of (fl_sites fs) (conf_name k) \<noteq> None" "\<not> List.member keep (conf_name k)" for k
    proof -
      have "k \<notin> s_id ` set (filter s_enabled sites)" using that(2) w by auto
      then show ?thesis using w that(1) by simp
    qed
    ultimately show ?thesis using u(1,3) by (simp add: WriteSiteConfigs_def assms(1) l Inr fr)
  qed
qed

definition demo_io :: io where
  "demo_io = \<lparr>io_fail = (\<lambda>op. None), io_left = (\<lambda>op. None)\<rparr>"

definition demo_render_env :: render_env where
  "demo_render_env = \<lparr>re_lower = (\<lambda>x. x), re_upper = (\<lambda>x. x), re_text = (\<lambda>e. ''error''), re_io = demo_io, re_opt = demo_render\<rparr>"

lemma site_files_exact_witness:
  "case WriteSiteConfigs demo_render_env [demo_named] \<lparr>fl_sites = [(''old.conf'', ''x'')], fl_certs = [(''old.key'', ''k'')]\<rparr> of
     (None, fs') \<Rightarrow> written demo_render_env demo_named fs' \<and> map_of (fl_certs fs') ''old.key'' = None
   | (Some e, fs') \<Rightarrow> False"
proof -
  have n: "io_fail (re_io demo_render_env) op = None" for op by (simp add: demo_render_env_def demo_io_def)
  have e: "s_enabled demo_named" by code_simp
  have d: "distinct (map s_id [demo_named])" by simp
  have r: "renderSite (re_lower demo_render_env) (re_upper demo_render_env) demo_named (re_opt demo_render_env) \<noteq> Inl x" for x
    by (simp add: demo_render_env_def demo_named_renders)
  have o: "\<not> fresh_conf [demo_named] (conf_name ''old'')" by code_simp
  have old: "map_of (fl_sites \<lparr>fl_sites = [(''old.conf'', ''x'')], fl_certs = [(''old.key'', ''k'')]\<rparr>) (conf_name ''old'') \<noteq> None"
    by (simp add: conf_name_def)
  show ?thesis
    using site_files_exact [OF n d, of "\<lparr>fl_sites = [(''old.conf'', ''x'')], fl_certs = [(''old.key'', ''k'')]\<rparr>"] e r o old
    by (force split: prod.splits option.splits)
qed

text \<open>
  A site that stops serving TLS keeps its certificate and its private key on disk: the loop writes them
  only when TLS is on, and the clean-up looks only at configuration files that are no longer wanted.
\<close>

lemma key_stays_without_tls:
  assumes "renderSite (re_lower R) (re_upper R) s (re_opt R) = Inr (s', conf)" "\<not> s_hasTLS s'" "s_enabled s"
    and "\<And>op. io_fail (re_io R) op = None"
  shows "map_of (fl_certs (snd (WriteSiteConfigs R [s] fs))) (s_id s @ ''.key'') = map_of (fl_certs fs) (s_id s @ ''.key'')"
proof -
  note id = render_id [OF assms(1)]
  have c: "write_certs (re_io R) s' fs = (None, fs)" by (simp add: write_certs_def assms(2))
  obtain fs1 where w: "write_conf (re_io R) (s_id s) conf fs = (None, fs1)"
    using no_io_fail(2) [OF assms(4)] by (metis prod.collapse)
  have "List.member [conf_name (s_id s)] (conf_name (s_id s))" by simp
  then show ?thesis
    using fold_stale_other(3) write_conf_None(1) [OF w] by (simp add: WriteSiteConfigs_def assms id c w)
qed

end
