(* ===== verification/EnginePublisher.thy ===== *)
theory EnginePublisher
  imports EngineNginx DataplaneRules StoreSettings StoreRules StoreIps StoreSiteUsers
begin

section \<open>The engine: publishing the configuration\<close>

text \<open>
  \<open>control/internal/engine/publisher.go\<close>: one publication reads every table, builds the document the
  data plane decides from (\<open>lua_config\<close>, field by field as in the source), stores it in Redis, writes
  the nginx files and only then moves the version and notifies the proxy. \<open>tables\<close> is the database,
  \<open>deployed\<close> what is outside it. Each read and the write to Redis can fail (\<open>pub_db\<close>). The document is
  kept as a value: \<open>json.Marshal\<close> cannot fail on these types. The warning about trusted proxies is a
  log line and left out; the notification is counted.

  The lemmas say what a successful publication leaves outside the database and what a failed one does.
\<close>

record lua_site =
  ls_id :: string
  ls_name :: string
  ls_mode :: string
  ls_challenge :: string
  ls_rateRPS :: int
  ls_rateBurst :: int
  ls_floodRPS :: int
  ls_rulesOff :: "string list"
  ls_authEnabled :: bool
  ls_authPaths :: "string list"
  ls_authUsers :: "int \<rightharpoonup> int"
  ls_geoMode :: string
  ls_geoSet :: string

record lua_rule_entry =
  lr_id :: string
  lr_name :: string
  lr_target :: string
  lr_pattern :: string
  lr_action :: string
  lr_severity :: string
  lr_enabled :: bool

record lua_crawler =
  lw_ua :: string
  lw_prefixes :: "string list"

record lua_config =
  cf_version :: int
  cf_internalToken :: string
  cf_settings :: settings
  cf_sites :: "string \<rightharpoonup> lua_site"
  cf_rules :: "lua_rule_entry list"
  cf_blacklist :: "string list"
  cf_whitelist :: "string list"
  cf_crawlers :: "(string \<times> lua_crawler) list option"
  cf_geoSets :: "(string \<times> geo_set) list"
  cf_accessRules :: "lua_access_rule list"

subsection \<open>The document\<close>

text \<open>The lists of the crawlers, empty ones left out; \<open>None\<close> without crawlers. A missing user agent is empty.\<close>

definition crawlerConfig :: "((string \<times> string list) list \<times> (string \<times> string) list) option \<Rightarrow> (string \<times> lua_crawler) list option" where
  "crawlerConfig c =
     map_option (\<lambda>(ranges, ua). map (\<lambda>(n, ps). (n, \<lparr>lw_ua = (case map_of ua n of Some u \<Rightarrow> u | None \<Rightarrow> []), lw_prefixes = ps\<rparr>))
       (filter (\<lambda>(n, ps). ps \<noteq> []) ranges)) c"

text \<open>The gate is on only when somebody can get through it.\<close>

definition site_entry :: "(string \<Rightarrow> string) \<Rightarrow> (string \<Rightarrow> int \<rightharpoonup> int) \<Rightarrow> geo_resolver \<Rightarrow> site \<Rightarrow> lua_site" where
  "site_entry L gens geo s =
     (let users = gens (s_id s); mk = forSite geo s in
      \<lparr>ls_id = s_id s, ls_name = s_name s, ls_mode = s_mode s, ls_challenge = s_challenge s, ls_rateRPS = s_rateRPS s,
       ls_rateBurst = s_rateBurst s, ls_floodRPS = s_floodRPS s, ls_rulesOff = s_rulesOff s,
       ls_authEnabled = (s_authEnabled s \<and> users \<noteq> Map.empty), ls_authPaths = NormaliseAuthPaths L (s_authPaths s),
       ls_authUsers = users, ls_geoMode = fst mk, ls_geoSet = snd mk\<rparr>)"

fun site_entries :: "(string \<Rightarrow> string) \<Rightarrow> (string \<Rightarrow> int \<rightharpoonup> int) \<Rightarrow> geo_resolver \<Rightarrow> site list \<Rightarrow> (string \<rightharpoonup> lua_site) \<Rightarrow> (string \<rightharpoonup> lua_site)" where
  "site_entries L gens geo [] m = m"
| "site_entries L gens geo (s # ss) m =
     site_entries L gens geo ss (if \<not> s_enabled s then m else m(s_id s \<mapsto> site_entry L gens geo s))"

definition rule_entry :: "rule \<Rightarrow> lua_rule_entry" where
  "rule_entry r = \<lparr>lr_id = ru_id r, lr_name = ru_name r, lr_target = ru_target r, lr_pattern = ru_pattern r,
     lr_action = ru_action r, lr_severity = ru_severity r, lr_enabled = True\<rparr>"

record tables =
  tb_settings :: "settings_row list"
  tb_sites :: "site list"
  tb_rules :: "rule list"
  tb_ips :: ip_table
  tb_accounts :: su_table
  tb_access :: "access_rule list"

record pub_db =
  pd_settings :: "string option"
  pd_defaults :: "string option"
  pd_sites :: "string option"
  pd_rules :: "string option"
  pd_black :: "string option"
  pd_white :: "string option"
  pd_accounts :: "string option"
  pd_access :: "string option"
  pd_redis :: "string option"

record pub_env =
  pe_render :: render_env
  pe_sitesGeo :: "geo_ip option"
  pe_crawlers :: "((string \<times> string list) list \<times> (string \<times> string) list) option"
  pe_token :: string
  pe_millis :: int
  pe_now :: int
  pe_sync :: string

record deployed =
  dp_config :: "lua_config option"
  dp_files :: files
  dp_version :: int
  dp_notified :: nat

definition read_step :: "(store_error \<Rightarrow> string) \<Rightarrow> string \<Rightarrow> 'a result \<Rightarrow> string + 'a" where
  "read_step etxt what res = (case res of Inl e \<Rightarrow> Inl (what @ '': '' @ etxt e) | Inr x \<Rightarrow> Inr x)"

text \<open>Everything the publication reads, in the order of the source.\<close>

record snapshot =
  sn_settings :: settings
  sn_sites :: "site list"
  sn_rules :: "rule list"
  sn_blacks :: "ip_entry list"
  sn_whites :: "ip_entry list"
  sn_generations :: "string \<Rightarrow> int \<rightharpoonup> int"
  sn_access :: "access_rule list"

definition read_settings :: "pub_env \<Rightarrow> pub_db \<Rightarrow> tables \<Rightarrow> (string + settings) \<times> tables" where
  "read_settings P db tb =
     (case GetSettings (pd_settings db) (pd_defaults db) (tb_settings tb) of
        ((st, None), t) \<Rightarrow> (Inr st, tb\<lparr>tb_settings := t\<rparr>)
      | ((st, Some e), t) \<Rightarrow> (Inl (''reading settings: '' @ re_text (pe_render P) e), tb\<lparr>tb_settings := t\<rparr>))"

definition read_tables :: "pub_env \<Rightarrow> pub_db \<Rightarrow> settings \<Rightarrow> tables \<Rightarrow> string + snapshot" where
  "read_tables P db st tb =
     (let L = re_lower (pe_render P); U = re_upper (pe_render P); E = re_text (pe_render P) in
      bind_res (read_step E ''reading sites'' (ListSites L U (pd_sites db) (tb_sites tb))) (\<lambda>sites.
      bind_res (read_step E ''reading rules'' (ListRules (pd_rules db) (tb_rules tb))) (\<lambda>rules.
      bind_res (read_step E ''reading the blocklist'' (ListIPs (pd_black db) (pe_now P) ''black'' (tb_ips tb))) (\<lambda>blacks.
      bind_res (read_step E ''reading the allowlist'' (ListIPs (pd_white db) (pe_now P) ''white'' (tb_ips tb))) (\<lambda>whites.
      bind_res (read_step E ''reading the site accounts'' (SiteGenerations (pd_accounts db) (tb_accounts tb))) (\<lambda>gens.
      bind_res (read_step E ''reading the access rules'' (ListAccessRules (pd_access db) [] (tb_access tb))) (\<lambda>acc.
        Inr \<lparr>sn_settings = st, sn_sites = sites, sn_rules = rules, sn_blacks = blacks, sn_whites = whites,
             sn_generations = gens, sn_access = acc\<rparr>)))))))"

definition config_of :: "pub_env \<Rightarrow> snapshot \<Rightarrow> lua_config" where
  "config_of P n =
     (let geo = resolveGeo (re_upper (pe_render P)) (pe_sitesGeo P) (sn_settings n) (sn_sites n) (sn_access n) in
      \<lparr>cf_version = pe_millis P, cf_internalToken = pe_token P, cf_settings = sn_settings n,
       cf_sites = site_entries (re_lower (pe_render P)) (sn_generations n) geo (sn_sites n) Map.empty,
       cf_rules = map rule_entry (filter ru_enabled (sn_rules n)),
       cf_blacklist = map ip_cidr (sn_blacks n), cf_whitelist = map ip_cidr (sn_whites n),
       cf_crawlers = crawlerConfig (pe_crawlers P), cf_geoSets = gr_sets geo,
       cf_accessRules = buildAccessRules geo (sn_access n)\<rparr>)"

definition notifyProxy :: "string \<Rightarrow> deployed \<Rightarrow> deployed" where
  "notifyProxy url d = (if url = [] then d else d\<lparr>dp_notified := dp_notified d + 1\<rparr>)"

text \<open>Redis, the files, the version: the last part of \<open>Publish\<close>.\<close>

definition deploy :: "pub_env \<Rightarrow> pub_db \<Rightarrow> snapshot \<Rightarrow> deployed \<Rightarrow> string option \<times> deployed" where
  "deploy P db n d =
     (case pd_redis db of
        Some e \<Rightarrow> (Some (''publishing the config to redis: '' @ e), d)
      | None \<Rightarrow>
          (let d1 = d\<lparr>dp_config := Some (config_of P n)\<rparr> in
           case WriteSiteConfigs (pe_render P) (sn_sites n) (dp_files d1) of
             (Some e, fs) \<Rightarrow> (Some (''writing the nginx config: '' @ e), d1\<lparr>dp_files := fs\<rparr>)
           | (None, fs) \<Rightarrow> (None, notifyProxy (pe_sync P) (d1\<lparr>dp_files := fs, dp_version := pe_millis P\<rparr>))))"

definition Publish :: "pub_env \<Rightarrow> pub_db \<Rightarrow> tables \<Rightarrow> deployed \<Rightarrow> string option \<times> tables \<times> deployed" where
  "Publish P db tb d =
     (case read_settings P db tb of
        (Inl e, tb') \<Rightarrow> (Some e, tb', d)
      | (Inr st, tb') \<Rightarrow>
          (case read_tables P db st tb' of
             Inl e \<Rightarrow> (Some e, tb', d)
           | Inr n \<Rightarrow> (case deploy P db n d of (err, d') \<Rightarrow> (err, tb', d'))))"

subsection \<open>What the document holds\<close>

text \<open>The snapshot of tables that can be read.\<close>

definition snapshot_of :: "pub_env \<Rightarrow> settings \<Rightarrow> tables \<Rightarrow> snapshot" where
  "snapshot_of P st tb =
     \<lparr>sn_settings = st,
      sn_sites = map (scanSite (re_lower (pe_render P)) (re_upper (pe_render P))) (order_by s_createdAt (tb_sites tb)),
      sn_rules = order_by actionOrder (order_by (\<lambda>r. \<not> ru_builtin r) (order_by ru_category (order_by ru_id (tb_rules tb)))),
      sn_blacks = order_by (\<lambda>e. - ip_createdAt e) (filter (\<lambda>e. live (pe_now P) e \<and> ip_kind e = ''black'') (ipt_rows (tb_ips tb))),
      sn_whites = order_by (\<lambda>e. - ip_createdAt e) (filter (\<lambda>e. live (pe_now P) e \<and> ip_kind e = ''white'') (ipt_rows (tb_ips tb))),
      sn_generations = (\<lambda>site uid. generation_of (tb_accounts tb) site uid),
      sn_access = rule_order (tb_access tb)\<rparr>"

definition reads_ok :: "pub_db \<Rightarrow> bool" where
  "reads_ok db \<longleftrightarrow> pd_sites db = None \<and> pd_rules db = None \<and> pd_black db = None \<and> pd_white db = None
     \<and> pd_accounts db = None \<and> pd_access db = None"

lemma read_step_query [simp]:
  "read_step E w (query db x) = (case db of None \<Rightarrow> Inr x | Some msg \<Rightarrow> Inl (w @ '': '' @ E (DbFailed msg)))"
  by (simp add: read_step_def query_def split: option.split)

lemma read_tables_iff: "read_tables P db st tb = Inr n \<longleftrightarrow> reads_ok db \<and> n = snapshot_of P st tb"
proof -
  have g: "generation_of t = (\<lambda>site uid. (case query None x of Inr g \<Rightarrow> g site uid))"
    if "SiteGenerations None t = query None x" for t x
    using that by (auto simp: generation_of_def query_def fun_eq_iff)
  show ?thesis
    by (cases "pd_sites db"; cases "pd_rules db"; cases "pd_black db"; cases "pd_white db"; cases "pd_accounts db"; cases "pd_access db")
      (auto simp: read_tables_def Let_def ListSites_def ListRules_def ListIPs_def SiteGenerations_def ListAccessRules_def bind_res_def
        reads_ok_def snapshot_of_def generation_of_def query_def read_step_def)
qed

lemma site_entries_find:
  "unique_by s_id ss \<Longrightarrow> site_entries L gens geo ss m k =
     (case find_row s_id k ss of None \<Rightarrow> m k | Some s \<Rightarrow> if s_enabled s then Some (site_entry L gens geo s) else m k)"
proof (induction ss arbitrary: m)
  case (Cons s ss)
  have u: "unique_by s_id ss" "find_row s_id (s_id s) ss = None"
    using Cons.prems by (auto simp: unique_by_def find_row_None)
  show ?case using Cons.IH [OF u(1)] u(2)
    by (cases "s_id s = k") (auto simp: find_row_def split: option.splits)
qed (simp add: find_row_def)

lemma order_unique: "unique_by key xs \<Longrightarrow> unique_by key (order_by f xs)"
  by (simp add: unique_by_def distinct_map)

lemma scan_id [simp]: "s_id (scanSite L U r) = s_id r" "s_enabled (scanSite L U r) = s_enabled r"
  by (simp_all add: scanSite_def site_paths_def Let_def)

lemma scan_sites_unique: "unique_by s_id t \<Longrightarrow> unique_by s_id (map (scanSite L U) (order_by f t))"
  using order_unique [of s_id t f] by (simp add: unique_by_def comp_def)

subsection \<open>A publication that succeeds\<close>

lemma read_settings_Inr:
  assumes "read_settings P db tb = (Inr st, tb')"
  shows "fst (GetSettings None None (tb_settings tb)) = (st, None)" "snapshot_of P st tb' = snapshot_of P st tb"
proof -
  obtain t' where g: "GetSettings (pd_settings db) (pd_defaults db) (tb_settings tb) = ((st, None), t')" and tb': "tb' = tb\<lparr>tb_settings := t'\<rparr>"
    using assms by (auto simp: read_settings_def split: prod.splits option.splits)
  show "fst (GetSettings None None (tb_settings tb)) = (st, None)"
    using g by (auto simp: GetSettings_def SaveSettings_def exec_plain_def split: option.splits sum.splits prod.splits)
  show "snapshot_of P st tb' = snapshot_of P st tb" by (simp add: snapshot_of_def tb')
qed

lemma Publish_ok:
  assumes "Publish P db tb d = (None, tb', d')"
  obtains st fs where "fst (GetSettings None None (tb_settings tb)) = (st, None)" "reads_ok db"
    "WriteSiteConfigs (pe_render P) (sn_sites (snapshot_of P st tb)) (dp_files d) = (None, fs)"
    "d' = notifyProxy (pe_sync P) (d\<lparr>dp_config := Some (config_of P (snapshot_of P st tb)), dp_files := fs, dp_version := pe_millis P\<rparr>)"
proof -
  obtain st where s: "read_settings P db tb = (Inr st, tb')" and t: "reads_ok db" "deploy P db (snapshot_of P st tb') d = (None, d')"
    using assms by (auto simp: Publish_def read_tables_iff split: prod.splits sum.splits)
  show ?thesis using that [of st] t read_settings_Inr [OF s] by (auto simp: deploy_def Let_def split: option.splits prod.splits)
qed

lemma notify_fields [simp]:
  "dp_config (notifyProxy u d) = dp_config d" "dp_files (notifyProxy u d) = dp_files d" "dp_version (notifyProxy u d) = dp_version d"
  by (simp_all add: notifyProxy_def)

lemma WriteSiteConfigs_ok:
  assumes "WriteSiteConfigs R sites fs = (None, fs')" "unique_by s_id sites" "s \<in> set sites" "s_enabled s"
  shows "written R s fs'"
proof -
  obtain keep fs1 where l: "write_loop R sites [] fs = (Inr keep, fs1)"
    and f: "fs' = fold (remove_stale (re_io R) keep) (map fst (fl_sites fs1)) fs1"
    using assms(1) by (auto simp: WriteSiteConfigs_def split: option.splits prod.splits sum.splits)
  have "distinct (map s_id (filter s_enabled sites))" using assms(2) by (simp add: unique_by_def distinct_map_filter)
  note w = write_loop_written [OF l this]
  then have "List.member keep (conf_name (s_id s))" using assms(3,4) by auto
  note o = fold_stale_other [OF this]
  show ?thesis unfolding f by (rule written_frame [OF o]) (use w assms(3,4) in blast)
qed

text \<open>The published entry of a stored site: the decisions are those of its row, its accounts those stored for it.\<close>

definition entry_matches :: "(string \<Rightarrow> string) \<Rightarrow> su_table \<Rightarrow> site \<Rightarrow> lua_site \<Rightarrow> bool" where
  "entry_matches L acc r e \<longleftrightarrow> ls_mode e = s_mode r \<and> ls_challenge e = s_challenge r \<and> ls_rateRPS e = s_rateRPS r
     \<and> ls_rateBurst e = s_rateBurst r \<and> ls_floodRPS e = s_floodRPS r \<and> ls_rulesOff e = s_rulesOff r
     \<and> ls_authPaths e = NormaliseAuthPaths L (NormaliseAuthPaths L (s_authPaths r))
     \<and> ls_authUsers e = generation_of acc (s_id r)
     \<and> (ls_authEnabled e \<longleftrightarrow> s_authEnabled r \<and> list_ex (\<lambda>a. sr_siteID a = s_id r) (sut_rows acc))"

lemma generations_empty:
  assumes "unique_by sr_id (sut_rows acc)"
  shows "generation_of acc k = Map.empty \<longleftrightarrow> \<not> list_ex (\<lambda>a. sr_siteID a = k) (sut_rows acc)"
proof
  assume e: "generation_of acc k = Map.empty"
  have False if "a \<in> set (sut_rows acc)" "sr_siteID a = k" for a
    using generation_of_row [OF assms, of k "sr_id a"] find_row_unique [OF assms that(1)] that(2) e by simp
  then show "\<not> list_ex (\<lambda>a. sr_siteID a = k) (sut_rows acc)" by (auto simp: list_ex_iff)
next
  assume n: "\<not> list_ex (\<lambda>a. sr_siteID a = k) (sut_rows acc)"
  have "generation_of acc k uid = None" for uid
    using generation_of_row [OF assms, of k uid] n find_row_Some [of sr_id uid "sut_rows acc"]
    by (auto simp: list_ex_iff split: option.splits)
  then show "generation_of acc k = Map.empty" by blast
qed

lemma site_entry_matches:
  "unique_by sr_id (sut_rows acc) \<Longrightarrow> entry_matches L acc r (site_entry L (\<lambda>site uid. generation_of acc site uid) geo (scanSite L U r))"
  using generations_empty [of acc "s_id r"]
  by (simp add: entry_matches_def site_entry_def Let_def scanSite_def site_paths_def)

text \<open>
  C5 a publication that reports success has put the stored configuration in force. The document the data
  plane reads has exactly the enabled sites, each with the modes, limits and account generations stored
  for it and with its login gate on only when an account exists; exactly the enabled detection rules;
  exactly the addresses listed and not expired; the stored settings. The nginx file of every enabled
  site is on disk, and the version the dashboard reports is that of the document.
\<close>

theorem publish_faithful:
  assumes "Publish P db tb d = (None, tb', d')"
    and "unique_by s_id (tb_sites tb)" "unique_by sr_id (sut_rows (tb_accounts tb))"
  shows "\<exists>c. dp_config d' = Some c \<and> dp_version d' = cf_version c
    \<and> (\<forall>k. case find_row s_id k (tb_sites tb) of
         None \<Rightarrow> cf_sites c k = None
       | Some r \<Rightarrow> if \<not> s_enabled r then cf_sites c k = None
           else (\<exists>e. cf_sites c k = Some e \<and> entry_matches (re_lower (pe_render P)) (tb_accounts tb) r e)
             \<and> written (pe_render P) (scanSite (re_lower (pe_render P)) (re_upper (pe_render P)) r) (dp_files d'))
    \<and> set (cf_rules c) = rule_entry ` set (filter ru_enabled (tb_rules tb))
    \<and> set (cf_blacklist c) = ip_cidr ` set (filter (\<lambda>e. live (pe_now P) e \<and> ip_kind e = ''black'') (ipt_rows (tb_ips tb)))
    \<and> set (cf_whitelist c) = ip_cidr ` set (filter (\<lambda>e. live (pe_now P) e \<and> ip_kind e = ''white'') (ipt_rows (tb_ips tb)))
    \<and> fst (GetSettings None None (tb_settings tb)) = (cf_settings c, None)"
proof -
  obtain st fs where st: "fst (GetSettings None None (tb_settings tb)) = (st, None)"
    and w: "WriteSiteConfigs (pe_render P) (sn_sites (snapshot_of P st tb)) (dp_files d) = (None, fs)"
    and d': "d' = notifyProxy (pe_sync P) (d\<lparr>dp_config := Some (config_of P (snapshot_of P st tb)), dp_files := fs, dp_version := pe_millis P\<rparr>)"
    using Publish_ok [OF assms(1)] .
  let ?L = "re_lower (pe_render P)" and ?U = "re_upper (pe_render P)" and ?c = "config_of P (snapshot_of P st tb)"
  let ?ss = "map (scanSite ?L ?U) (order_by s_createdAt (tb_sites tb))"
  have u: "unique_by s_id ?ss" by (rule scan_sites_unique [OF assms(2)])
  have site: "case find_row s_id k (tb_sites tb) of
         None \<Rightarrow> cf_sites ?c k = None
       | Some r \<Rightarrow> if \<not> s_enabled r then cf_sites ?c k = None
           else (\<exists>e. cf_sites ?c k = Some e \<and> entry_matches ?L (tb_accounts tb) r e) \<and> written (pe_render P) (scanSite ?L ?U r) fs" for k
  proof (cases "find_row s_id k (tb_sites tb)")
    case None
    then have "find_row s_id k ?ss = None" by (auto simp: find_row_None)
    then show ?thesis using None by (simp add: config_of_def Let_def snapshot_of_def site_entries_find [OF u])
  next
    case (Some r)
    then have r: "s_id r = k" "r \<in> set (tb_sites tb)" by (auto dest: find_row_Some)
    then have f: "find_row s_id k ?ss = Some (scanSite ?L ?U r)" using find_row_unique [OF u, of "scanSite ?L ?U r"] by simp
    have "written (pe_render P) (scanSite ?L ?U r) fs" if "s_enabled r"
      by (rule WriteSiteConfigs_ok [OF w]) (use u r(2) that in \<open>simp_all add: snapshot_of_def\<close>)
    then show ?thesis using Some f site_entry_matches [OF assms(3)]
      by (simp add: config_of_def Let_def snapshot_of_def site_entries_find [OF u])
  qed
  have fs: "dp_files d' = fs" by (simp add: d')
  have "dp_config d' = Some ?c \<and> dp_version d' = cf_version ?c" by (simp add: d' config_of_def Let_def)
  moreover have "set (cf_rules ?c) = rule_entry ` set (filter ru_enabled (tb_rules tb))"
    "set (cf_blacklist ?c) = ip_cidr ` set (filter (\<lambda>e. live (pe_now P) e \<and> ip_kind e = ''black'') (ipt_rows (tb_ips tb)))"
    "set (cf_whitelist ?c) = ip_cidr ` set (filter (\<lambda>e. live (pe_now P) e \<and> ip_kind e = ''white'') (ipt_rows (tb_ips tb)))"
    "fst (GetSettings None None (tb_settings tb)) = (cf_settings ?c, None)"
    by (simp_all add: config_of_def Let_def snapshot_of_def st)
  ultimately show ?thesis using site unfolding fs by blast
qed

definition demo_tables :: tables where
  "demo_tables = \<lparr>tb_settings = [], tb_sites = [demo_named], tb_rules = [],
     tb_ips = \<lparr>ipt_next = 1, ipt_rows = []\<rparr>, tb_accounts = \<lparr>sut_next = 1, sut_rows = []\<rparr>, tb_access = []\<rparr>"

definition demo_pub_db :: pub_db where
  "demo_pub_db = \<lparr>pd_settings = None, pd_defaults = None, pd_sites = None, pd_rules = None, pd_black = None, pd_white = None,
     pd_accounts = None, pd_access = None, pd_redis = None\<rparr>"

definition demo_pub_env :: pub_env where
  "demo_pub_env = \<lparr>pe_render = demo_render_env, pe_sitesGeo = None, pe_crawlers = None, pe_token = ''t'', pe_millis = 5, pe_now = 0, pe_sync = ''s''\<rparr>"

definition demo_deployed :: deployed where
  "demo_deployed = \<lparr>dp_config = None, dp_files = \<lparr>fl_sites = [], fl_certs = []\<rparr>, dp_version = 0, dp_notified = 0\<rparr>"

lemma demo_publish_ok: "fst (Publish demo_pub_env demo_pub_db demo_tables demo_deployed) = None"
proof -
  obtain t where s: "read_settings demo_pub_env demo_pub_db demo_tables = (Inr DefaultSettings, t)"
    by (simp add: read_settings_def demo_pub_db_def demo_tables_def GetSettings_def SaveSettings_def exec_plain_def find_row_def)
  have n: "read_tables demo_pub_env demo_pub_db DefaultSettings t = Inr (snapshot_of demo_pub_env DefaultSettings t)"
    by (simp add: read_tables_iff reads_ok_def demo_pub_db_def)
  have sites: "sn_sites (snapshot_of demo_pub_env DefaultSettings t) = [scanSite (\<lambda>x. x) (\<lambda>x. x) demo_named]"
    using read_settings_Inr(2) [OF s] by (simp add: snapshot_of_def demo_tables_def demo_pub_env_def demo_render_env_def)
  have "\<not> isl (ValidateSite (\<lambda>x. x) (\<lambda>x. x) (scanSite (\<lambda>x. x) (\<lambda>x. x) demo_named))" by code_simp
  then have "\<exists>y. ValidateSite (\<lambda>x. x) (\<lambda>x. x) (scanSite (\<lambda>x. x) (\<lambda>x. x) demo_named) = Inr y"
    by (metis isl_def sum.exhaust_sel)
  moreover have "id_valid (s_id (scanSite (\<lambda>x. x) (\<lambda>x. x) demo_named))" by code_simp
  ultimately have "\<exists>x. renderSite (\<lambda>x. x) (\<lambda>x. x) (scanSite (\<lambda>x. x) (\<lambda>x. x) demo_named) demo_render = Inr x"
    by (auto simp: renderSite_def)
  then have w: "fst (WriteSiteConfigs demo_render_env (sn_sites (snapshot_of demo_pub_env DefaultSettings t)) fs) = None" for fs
    using WriteSiteConfigs_total [of demo_render_env "[scanSite (\<lambda>x. x) (\<lambda>x. x) demo_named]" fs]
    by (simp add: sites) (simp add: demo_render_env_def demo_io_def)
  obtain fs2 where "WriteSiteConfigs demo_render_env (sn_sites (snapshot_of demo_pub_env DefaultSettings t)) (dp_files demo_deployed) = (None, fs2)"
    using w by (metis prod.collapse)
  moreover have "pe_render demo_pub_env = demo_render_env" by (simp add: demo_pub_env_def)
  ultimately have "fst (deploy demo_pub_env demo_pub_db (snapshot_of demo_pub_env DefaultSettings t) demo_deployed) = None"
    by (simp add: deploy_def Let_def demo_pub_db_def)
  then show ?thesis by (auto simp: Publish_def s n split: prod.splits)
qed

lemma publish_faithful_witness:
  "\<exists>tb' d' c e. Publish demo_pub_env demo_pub_db demo_tables demo_deployed = (None, tb', d') \<and> dp_config d' = Some c
     \<and> cf_sites c ''abcd'' = Some e \<and> ls_mode e = s_mode demo_named \<and> \<not> ls_authEnabled e"
proof -
  obtain tb' d' where p: "Publish demo_pub_env demo_pub_db demo_tables demo_deployed = (None, tb', d')"
    using demo_publish_ok by (metis prod.collapse)
  have u: "unique_by s_id (tb_sites demo_tables)" "unique_by sr_id (sut_rows (tb_accounts demo_tables))"
    by (simp_all add: demo_tables_def unique_by_def)
  have f: "find_row s_id ''abcd'' (tb_sites demo_tables) = Some demo_named" by (simp add: demo_tables_def find_row_def demo_named_def)
  have en: "s_enabled demo_named" "sut_rows (tb_accounts demo_tables) = []" by (simp_all add: demo_named_def demo_site_def demo_tables_def)
  show ?thesis
    using publish_faithful [OF p u] f en p by (fastforce simp: entry_matches_def dest: spec [of _ "''abcd''"])
qed

subsection \<open>A publication that fails\<close>

text \<open>
  C6 a publication that fails never moves the version and never notifies the proxy. Before the write to
  Redis it leaves everything the data plane uses as it was; once that write is done, only the nginx files
  can fail, and then the document in force is already the new one.
\<close>

theorem publish_failure:
  assumes "Publish P db tb d = (Some e, tb', d')"
  shows "dp_version d' = dp_version d \<and> dp_notified d' = dp_notified d
    \<and> (dp_config d' = dp_config d \<and> dp_files d' = dp_files d
       \<or> (\<exists>st fs x. fst (GetSettings None None (tb_settings tb)) = (st, None) \<and> reads_ok db \<and> pd_redis db = None
            \<and> dp_config d' = Some (config_of P (snapshot_of P st tb))
            \<and> WriteSiteConfigs (pe_render P) (sn_sites (snapshot_of P st tb)) (dp_files d) = (Some x, fs)
            \<and> dp_files d' = fs))"
proof (cases "read_settings P db tb")
  case (Pair r t)
  show ?thesis
  proof (cases r)
    case (Inl x)
    then show ?thesis using assms Pair by (auto simp: Publish_def)
  next
    case (Inr st)
    then have st: "fst (GetSettings None None (tb_settings tb)) = (st, None)" "snapshot_of P st t = snapshot_of P st tb"
      using read_settings_Inr [of P db tb st t] Pair by auto
    show ?thesis
    proof (cases "read_tables P db st t")
      case (Inr n)
      then have n: "reads_ok db" "n = snapshot_of P st tb" using read_tables_iff st(2) by auto
      have "deploy P db n d = (Some e, d')"
        using assms Pair \<open>r = Inr st\<close> Inr by (auto simp: Publish_def split: prod.splits)
      then show ?thesis using st(1) n by (auto simp: deploy_def Let_def split: option.splits prod.splits)
    qed (use assms Pair Inr in \<open>auto simp: Publish_def\<close>)
  qed
qed

lemma publish_failure_witness:
  "case Publish demo_pub_env (demo_pub_db\<lparr>pd_redis := Some ''down''\<rparr>) demo_tables demo_deployed of
     (None, tb', d') \<Rightarrow> False | (Some e, tb', d') \<Rightarrow> dp_version d' = 0 \<and> dp_config d' = None"
proof -
  obtain e tb' d' where p: "Publish demo_pub_env (demo_pub_db\<lparr>pd_redis := Some ''down''\<rparr>) demo_tables demo_deployed = (Some e, tb', d')"
  proof -
    obtain t where s: "read_settings demo_pub_env (demo_pub_db\<lparr>pd_redis := Some ''down''\<rparr>) demo_tables = (Inr DefaultSettings, t)"
      by (simp add: read_settings_def demo_pub_db_def demo_tables_def GetSettings_def SaveSettings_def exec_plain_def find_row_def)
    have "read_tables demo_pub_env (demo_pub_db\<lparr>pd_redis := Some ''down''\<rparr>) DefaultSettings t = Inr (snapshot_of demo_pub_env DefaultSettings t)"
      by (simp add: read_tables_iff reads_ok_def demo_pub_db_def)
    then show ?thesis using that s by (simp add: Publish_def deploy_def)
  qed
  show ?thesis using publish_failure [OF p] by (simp add: p) (simp add: demo_deployed_def)
qed

end
