(* ===== verification/EngineConsumer.thy ===== *)
theory EngineConsumer
  imports EngineGeoIP StoreEvents StoreIps StoreSettings "HOL-Library.Sublist"
begin

section \<open>The engine: the event consumer\<close>

text \<open>
  \<open>control/internal/engine/consumer.go\<close>: the batch that moves events from the Redis queue into the
  table (\<open>drain\<close>), one pass over the per-minute counters (\<open>collect_pass\<close>, the body of the ticker loop),
  and one run of the janitor (\<open>janitor_run\<close>). The queue is the Redis list, its head first: the data
  plane pushes at the head, the consumer pops at the tail. Every call to Redis and to the database can
  fail. \<open>fl\<close> reads a floating-point literal, \<open>geo\<close> is \<open>None\<close> without the dataset. The loops around
  them, which only wait, are left out, and the log lines.

  The lemmas say that events are recorded at most once and in order, that a queue nobody writes to is
  emptied, that a row of the statistics is the sum over the hosts, and what the janitor removes.
\<close>

definition batchSize :: nat where "batchSize = 500"
definition statPrefix :: string where "statPrefix = ''moswaf:stat:''"

record rawEvent =
  rw_ts :: int
  rw_ray :: string
  rw_site :: string
  rw_ip :: string
  rw_method :: string
  rw_host :: string
  rw_uri :: string
  rw_ua :: string
  rw_referer :: string
  rw_action :: string
  rw_reason :: string
  rw_ruleID :: string
  rw_ruleName :: string
  rw_severity :: string
  rw_status :: int
  rw_rt :: string

definition zero_event :: rawEvent where
  "zero_event = \<lparr>rw_ts = 0, rw_ray = [], rw_site = [], rw_ip = [], rw_method = [], rw_host = [], rw_uri = [], rw_ua = [],
     rw_referer = [], rw_action = [], rw_reason = [], rw_ruleID = [], rw_ruleName = [], rw_severity = [], rw_status = 0, rw_rt = ''0''\<rparr>"

fun as_float :: "(string \<Rightarrow> string option) \<Rightarrow> json \<Rightarrow> string option" where
  "as_float fl JNull = Some ''0''"
| "as_float fl (JNum lit) = fl lit"
| "as_float fl _ = None"

fun run_fields :: "('s \<Rightarrow> 's option) list \<Rightarrow> 's \<Rightarrow> 's option" where
  "run_fields [] s = Some s"
| "run_fields (f # fs) s = Option.bind (f s) (run_fields fs)"

text \<open>\<open>json.Unmarshal\<close> into a zero \<open>rawEvent\<close>, field by field with the names of the tags.\<close>

definition decode_raw_event :: "(string \<Rightarrow> json option) \<Rightarrow> (string \<Rightarrow> string option) \<Rightarrow> string \<Rightarrow> rawEvent option" where
  "decode_raw_event parse fl raw = Option.bind (Option.bind (parse raw) as_struct) (\<lambda>kvs.
     let str = (\<lambda>k put s. map_option (\<lambda>v. put (\<lambda>_. v) s) (as_string (jfield k kvs)))
     in run_fields
       [\<lambda>s. map_option (\<lambda>v. s\<lparr>rw_ts := v\<rparr>) (as_int (jfield ''ts'' kvs)),
        str ''ray'' rw_ray_update, str ''site'' rw_site_update, str ''ip'' rw_ip_update, str ''method'' rw_method_update,
        str ''host'' rw_host_update, str ''uri'' rw_uri_update, str ''ua'' rw_ua_update, str ''referer'' rw_referer_update,
        str ''action'' rw_action_update, str ''reason'' rw_reason_update, str ''rule_id'' rw_ruleID_update,
        str ''rule_name'' rw_ruleName_update, str ''severity'' rw_severity_update,
        \<lambda>s. map_option (\<lambda>v. s\<lparr>rw_status := v\<rparr>) (as_int (jfield ''status'' kvs)),
        \<lambda>s. map_option (\<lambda>v. s\<lparr>rw_rt := v\<rparr>) (as_float fl (jfield ''rt'' kvs))]
       zero_event)"

text \<open>What stays the same between two batches: the libraries, the clock and the dataset.\<close>

record consumer_env =
  ce_parse :: "string \<Rightarrow> json option"
  ce_float :: "string \<Rightarrow> string option"
  ce_now :: int
  ce_geo :: "geo_ip option"

definition event_of :: "consumer_env \<Rightarrow> rawEvent \<Rightarrow> event" where
  "event_of E r =
     \<lparr>ev_id = 0, ev_ts = (if rw_ts r = 0 then ce_now E else rw_ts r * 1000000000), ev_ray = rw_ray r, ev_site = rw_site r,
      ev_ip = rw_ip r, ev_method = rw_method r, ev_host = rw_host r, ev_uri = rw_uri r, ev_ua = rw_ua r,
      ev_referer = rw_referer r, ev_action = rw_action r, ev_reason = rw_reason r, ev_ruleID = rw_ruleID r,
      ev_ruleName = rw_ruleName r, ev_severity = rw_severity r, ev_status = rw_status r, ev_rt = rw_rt r,
      ev_country = (case ce_geo E of None \<Rightarrow> [] | Some g \<Rightarrow> Lookup g (rw_ip r))\<rparr>"

definition events_of :: "consumer_env \<Rightarrow> string list \<Rightarrow> event list" where
  "events_of E items = map (event_of E) (List.map_filter (decode_raw_event (ce_parse E) (ce_float E)) items)"

record consumer =
  cs_queue :: "string list"
  cs_events :: event_table

text \<open>
  \<open>RPOP key 500\<close>. A failed call is its message and whether Redis had already popped when the
  connection broke; it is reported like a failed statement.
\<close>

definition drain :: "consumer_env \<Rightarrow> (string \<times> bool) option \<Rightarrow> string option \<Rightarrow> consumer \<Rightarrow> nat result \<times> consumer" where
  "drain E redis db c =
     (let items = take batchSize (rev (cs_queue c));
          popped = c\<lparr>cs_queue := take (length (cs_queue c) - batchSize) (cs_queue c)\<rparr>
      in case redis of
           Some (e, lost) \<Rightarrow> (Inl (DbFailed e), if lost then popped else c)
         | None \<Rightarrow>
             if items = [] then (Inr 0, c)
             else (case InsertEvents db (events_of E items) (cs_events c) of
                 (Inl e, t) \<Rightarrow> (Inl e, popped\<lparr>cs_events := t\<rparr>)
               | (Inr _, t) \<Rightarrow> (Inr (length items), popped\<lparr>cs_events := t\<rparr>)))"

subsection \<open>The statistics\<close>

definition statMinute :: "string \<Rightarrow> int option" where
  "statMinute key =
     (let rest = trim_prefix statPrefix key;
          head = (case cut_at CHR '':'' rest of None \<Rightarrow> rest | Some (h, _) \<Rightarrow> h)
      in atoi head)"

definition zero_point :: "int \<Rightarrow> stat_point" where
  "zero_point secs = \<lparr>sp_minute = secs * 1000000000, sp_total = 0, sp_blocked = 0, sp_challenged = 0, sp_monitored = 0,
     sp_errors4xx = 0, sp_blocked4xx = 0, sp_errors5xx = 0, sp_pageViews = 0\<rparr>"

text \<open>One counter of a hash; a missing field reads as the empty string, an unreadable one as what ParseInt returns.\<close>

definition num :: "(string \<times> string) list \<Rightarrow> string \<Rightarrow> int" where
  "num vals k = fst (parse_int64 (case map_of vals k of None \<Rightarrow> [] | Some v \<Rightarrow> v))"

definition add_vals :: "(string \<times> string) list \<Rightarrow> stat_point \<Rightarrow> stat_point" where
  "add_vals vals p = \<lparr>sp_minute = sp_minute p, sp_total = wrap64 (sp_total p + num vals ''total''),
     sp_blocked = wrap64 (sp_blocked p + num vals ''blocked''),
     sp_challenged = wrap64 (sp_challenged p + num vals ''challenged''),
     sp_monitored = wrap64 (sp_monitored p + num vals ''monitored''),
     sp_errors4xx = wrap64 (sp_errors4xx p + num vals ''errors_4xx''),
     sp_blocked4xx = wrap64 (sp_blocked4xx p + num vals ''blocked_4xx''),
     sp_errors5xx = wrap64 (sp_errors5xx p + num vals ''errors_5xx''),
     sp_pageViews = wrap64 (sp_pageViews p + num vals ''page_views'')\<rparr>"

type_synonym minutes = "(int \<times> stat_point) list"

definition absorbStat :: "(string \<Rightarrow> (string \<times> string) list option) \<Rightarrow> string \<Rightarrow> minutes \<Rightarrow> minutes" where
  "absorbStat hgetall key into =
     (case statMinute key of
        None \<Rightarrow> into
      | Some secs \<Rightarrow>
          (case hgetall key of
             None \<Rightarrow> into
           | Some vals \<Rightarrow>
               if vals = [] then into
               else (secs, add_vals vals (case map_of into secs of None \<Rightarrow> zero_point secs | Some p \<Rightarrow> p))
                      # filter (\<lambda>(m, p). m \<noteq> secs) into))"

text \<open>The pages of SCAN in the order they come; a failed call ends the scan, and so does the last page.\<close>

fun scan_keys :: "(string + string list) list \<Rightarrow> string list" where
  "scan_keys [] = []"
| "scan_keys (Inl e # pages) = []"
| "scan_keys (Inr keys # pages) = keys @ scan_keys pages"

fun upsert_all :: "(int \<Rightarrow> string option) \<Rightarrow> minutes \<Rightarrow> stat_point list \<Rightarrow> stat_point list" where
  "upsert_all db [] t = t"
| "upsert_all db ((m, p) # ps) t = upsert_all db ps (snd (UpsertStat (db m) p t))"

definition collect_pass ::
  "(string \<Rightarrow> (string \<times> string) list option) \<Rightarrow> (string + string list) list \<Rightarrow> (int \<Rightarrow> string option) \<Rightarrow> stat_point list \<Rightarrow> stat_point list" where
  "collect_pass hgetall pages db t = upsert_all db (fold (absorbStat hgetall) (scan_keys pages) []) t"

subsection \<open>The janitor\<close>

record janitor_db =
  jd_settings :: "string option"
  jd_defaults :: "string option"
  jd_events :: "string option"
  jd_stats :: "string option"
  jd_ips :: "string option"

record kept =
  kp_settings :: "settings_row list"
  kp_events :: event_table
  kp_stats :: "stat_point list"
  kp_ips :: ip_table

text \<open>The run, and whether it asks for a publication (\<open>OnChange\<close>).\<close>

definition janitor_run :: "janitor_db \<Rightarrow> int \<Rightarrow> kept \<Rightarrow> bool \<times> kept" where
  "janitor_run db now k =
     (case GetSettings (jd_settings db) (jd_defaults db) (kp_settings k) of
        ((st, err), rows) \<Rightarrow>
          (let days = (if err = None \<and> st_logRetainDays st > 0 then st_logRetainDays st else 7);
               evs = snd (PurgeOldEvents (jd_events db) now days (kp_events k));
               stats = snd (PurgeOldStats (jd_stats db) now (wrap64 (days * 2)) (kp_stats k))
           in case PurgeExpiredIPs (jd_ips db) now (kp_ips k) of
                (res, ips) \<Rightarrow>
                  ((case res of Inl e \<Rightarrow> False | Inr n \<Rightarrow> n > 0),
                   \<lparr>kp_settings = rows, kp_events = evs, kp_stats = stats, kp_ips = ips\<rparr>)))"

subsection \<open>Events are recorded at most once, in order\<close>

text \<open>The steps of the queue: a push by a data plane, a batch of the consumer that may fail anywhere.\<close>

inductive consumer_step :: "(string \<Rightarrow> json option) \<Rightarrow> (string \<Rightarrow> string option) \<Rightarrow> string list \<times> consumer \<Rightarrow> string list \<times> consumer \<Rightarrow> bool"
  for parse fl where
  push: "consumer_step parse fl (ps, c) (ps @ [x], c\<lparr>cs_queue := x # cs_queue c\<rparr>)"
| batch: "ce_parse E = parse \<Longrightarrow> ce_float E = fl \<Longrightarrow> drain E redis db c = (r, c') \<Longrightarrow> consumer_step parse fl (ps, c) (ps, c')"

inductive_cases consumer_stepE: "consumer_step parse fl (ps, c) (ps', c')"

text \<open>The row is what the consumer makes of the item, at some time and with some dataset.\<close>

definition row_of :: "(string \<Rightarrow> json option) \<Rightarrow> (string \<Rightarrow> string option) \<Rightarrow> string \<Rightarrow> event \<Rightarrow> bool" where
  "row_of parse fl raw e \<longleftrightarrow> (\<exists>E r. ce_parse E = parse \<and> ce_float E = fl \<and> decode_raw_event parse fl raw = Some r \<and> e\<lparr>ev_id := 0\<rparr> = event_of E r)"

definition recorded_from :: "(string \<Rightarrow> json option) \<Rightarrow> (string \<Rightarrow> string option) \<Rightarrow> string list \<Rightarrow> event list \<Rightarrow> bool" where
  "recorded_from parse fl items es \<longleftrightarrow> (\<exists>zs. subseq zs items \<and> list_all2 (row_of parse fl) zs es)"

lemma batch_rows:
  "ce_parse E = parse \<Longrightarrow> ce_float E = fl \<Longrightarrow> recorded_from parse fl items (number_events n (events_of E items))"
proof (induction items arbitrary: n)
  case (Cons raw items)
  show ?case
  proof (cases "decode_raw_event parse fl raw")
    case None
    have "number_events n (events_of E (raw # items)) = number_events n (events_of E items)"
      using None Cons.prems by (simp add: events_of_def List.map_filter_simps)
    then show ?thesis using Cons.IH [OF Cons.prems, of n] by (auto simp: recorded_from_def)
  next
    case (Some r)
    obtain zs where z: "subseq zs items" "list_all2 (row_of parse fl) zs (number_events (n + 1) (events_of E items))"
      using Cons.IH [OF Cons.prems, of "n + 1"] by (auto simp: recorded_from_def)
    have "row_of parse fl raw ((event_of E r)\<lparr>ev_id := n\<rparr>)"
      unfolding row_of_def by (rule exI [of _ E], rule exI [of _ r]) (simp add: Cons.prems Some event_of_def)
    then have "list_all2 (row_of parse fl) (raw # zs) (number_events n (events_of E (raw # items)))"
      using z(2) Some Cons.prems by (simp add: events_of_def List.map_filter_simps)
    then show ?thesis using z(1) unfolding recorded_from_def by blast
  qed
qed (simp add: recorded_from_def events_of_def List.map_filter_simps)

lemma recorded_append:
  "recorded_from parse fl xs es \<Longrightarrow> recorded_from parse fl ys fs \<Longrightarrow> recorded_from parse fl (xs @ ys) (es @ fs)"
  unfolding recorded_from_def by (metis list_all2_appendI list_emb_append_mono)

lemma recorded_more: "recorded_from parse fl xs es \<Longrightarrow> recorded_from parse fl (xs @ ys) es"
  using recorded_append [of parse fl xs es ys "[]"] by (auto simp: recorded_from_def)

text \<open>What a batch takes off the queue, and what it adds to the table.\<close>

lemma drain_out:
  assumes "drain E redis db c = (r, c')"
  shows "\<exists>items. rev (cs_queue c) = items @ rev (cs_queue c')
    \<and> evt_rows (cs_events c') \<in> {evt_rows (cs_events c), evt_rows (cs_events c) @ number_events (evt_next (cs_events c)) (events_of E items)}"
proof -
  let ?q = "cs_queue c"
  have q: "rev ?q = take batchSize (rev ?q) @ rev (take (length ?q - batchSize) ?q)"
    using append_take_drop_id [of batchSize "rev ?q"] by (cases "batchSize \<le> length ?q") (simp_all add: rev_take)
  have "cs_queue c' = ?q \<and> cs_events c' = cs_events c \<or> cs_queue c' = take (length ?q - batchSize) ?q
      \<and> evt_rows (cs_events c') \<in> {evt_rows (cs_events c), evt_rows (cs_events c) @ number_events (evt_next (cs_events c)) (events_of E (take batchSize (rev ?q)))}"
    using assms by (auto simp: drain_def Let_def InsertEvents_def exec_plain_def split: option.splits if_splits prod.splits sum.splits)
  then show ?thesis
  proof
    assume "cs_queue c' = ?q \<and> cs_events c' = cs_events c"
    then show ?thesis by (intro exI [of _ "[]"]) simp
  next
    assume "cs_queue c' = take (length ?q - batchSize) ?q
      \<and> evt_rows (cs_events c') \<in> {evt_rows (cs_events c), evt_rows (cs_events c) @ number_events (evt_next (cs_events c)) (events_of E (take batchSize (rev ?q)))}"
    then show ?thesis using q by (intro exI [of _ "take batchSize (rev ?q)"]) simp
  qed
qed

definition queue_inv :: "(string \<Rightarrow> json option) \<Rightarrow> (string \<Rightarrow> string option) \<Rightarrow> string list \<times> consumer \<Rightarrow> bool" where
  "queue_inv parse fl s \<longleftrightarrow> (\<exists>taken. fst s = taken @ rev (cs_queue (snd s)) \<and> recorded_from parse fl taken (evt_rows (cs_events (snd s))))"

lemma queue_step: "consumer_step parse fl s s' \<Longrightarrow> queue_inv parse fl s \<Longrightarrow> queue_inv parse fl s'"
proof (induction rule: consumer_step.induct)
  case (push ps c x)
  then show ?case by (auto simp: queue_inv_def)
next
  case (batch E redis db c r c' ps)
  obtain taken where t: "ps = taken @ rev (cs_queue c)" "recorded_from parse fl taken (evt_rows (cs_events c))"
    using batch.prems by (auto simp: queue_inv_def)
  obtain items where i: "rev (cs_queue c) = items @ rev (cs_queue c')"
    "evt_rows (cs_events c') \<in> {evt_rows (cs_events c), evt_rows (cs_events c) @ number_events (evt_next (cs_events c)) (events_of E items)}"
    using drain_out [OF batch.hyps(3)] by blast
  have "recorded_from parse fl (taken @ items) (evt_rows (cs_events c'))"
    using i(2) recorded_more [OF t(2)] recorded_append [OF t(2) batch_rows [OF batch.hyps(1,2)]] by auto
  then show ?case using t(1) i(1) by (auto simp: queue_inv_def)
qed

lemma queue_reach: "(consumer_step parse fl)\<^sup>*\<^sup>* s s' \<Longrightarrow> queue_inv parse fl s \<Longrightarrow> queue_inv parse fl s'"
  by (induction rule: rtranclp_induct) (auto intro: queue_step)

definition empty_consumer :: consumer where
  "empty_consumer = \<lparr>cs_queue = [], cs_events = \<lparr>evt_next = 1, evt_rows = []\<rparr>\<rparr>"

text \<open>
  C17 however pushes, batches and failures of Redis and the database interleave, every row of the event
  log is one item a data plane pushed, no item is recorded twice, and the rows keep the order of the
  pushes: the log is a subsequence of what was pushed and is no longer queued.
\<close>

theorem events_at_most_once:
  assumes "(consumer_step parse fl)\<^sup>*\<^sup>* ([], empty_consumer) (ps, c)"
  shows "\<exists>taken zs. ps = taken @ rev (cs_queue c) \<and> subseq zs taken \<and> list_all2 (row_of parse fl) zs (evt_rows (cs_events c))"
proof -
  have "queue_inv parse fl ([], empty_consumer)" by (simp add: queue_inv_def recorded_from_def empty_consumer_def)
  then have "queue_inv parse fl (ps, c)"
    using queue_reach [OF assms] by blast
  then show ?thesis by (auto simp: queue_inv_def recorded_from_def)
qed

lemma three_steps: "r a b \<Longrightarrow> r b c \<Longrightarrow> r c d \<Longrightarrow> r\<^sup>*\<^sup>* a d"
  by (meson converse_rtranclp_into_rtranclp rtranclp.rtrancl_refl)

definition demo_consumer_env :: consumer_env where
  "demo_consumer_env = \<lparr>ce_parse = (\<lambda>raw. if raw = ''bad'' then None else Some JNull),
     ce_float = Some, ce_now = 9, ce_geo = None\<rparr>"

lemma events_at_most_once_witness:
  "\<exists>c. (consumer_step (ce_parse demo_consumer_env) Some)\<^sup>*\<^sup>* ([], empty_consumer) ([''a'', ''bad''], c)
     \<and> length (evt_rows (cs_events c)) = 1
     \<and> (\<exists>taken zs. [''a'', ''bad''] = taken @ rev (cs_queue c) \<and> subseq zs taken
          \<and> list_all2 (row_of (ce_parse demo_consumer_env) Some) zs (evt_rows (cs_events c)))"
proof -
  let ?S = "consumer_step (ce_parse demo_consumer_env) Some"
  let ?c2 = "empty_consumer\<lparr>cs_queue := [''bad'', ''a'']\<rparr>"
  let ?c3 = "snd (drain demo_consumer_env None None ?c2)"
  have "?S ([], empty_consumer) ([] @ [''a''], empty_consumer\<lparr>cs_queue := ''a'' # cs_queue empty_consumer\<rparr>)" by (rule consumer_step.push)
  then have s1: "?S ([], empty_consumer) ([''a''], empty_consumer\<lparr>cs_queue := [''a'']\<rparr>)" by (simp add: empty_consumer_def)
  have "?S ([''a''], empty_consumer\<lparr>cs_queue := [''a'']\<rparr>)
      ([''a''] @ [''bad''], (empty_consumer\<lparr>cs_queue := [''a'']\<rparr>)\<lparr>cs_queue := ''bad'' # cs_queue (empty_consumer\<lparr>cs_queue := [''a'']\<rparr>)\<rparr>)"
    by (rule consumer_step.push)
  then have s2: "?S ([''a''], empty_consumer\<lparr>cs_queue := [''a'']\<rparr>) ([''a'', ''bad''], ?c2)" by simp
  have s3: "?S ([''a'', ''bad''], ?c2) ([''a'', ''bad''], ?c3)"
    by (rule consumer_step.batch [where E = demo_consumer_env and redis = None and db = None, OF refl _ prod.collapse [symmetric]])
      (simp add: demo_consumer_env_def)
  have r: "?S\<^sup>*\<^sup>* ([], empty_consumer) ([''a'', ''bad''], ?c3)"  by (rule three_steps [where r = ?S, OF s1 s2 s3])
  have "decode_raw_event (ce_parse demo_consumer_env) Some ''a'' \<noteq> None" "decode_raw_event (ce_parse demo_consumer_env) Some ''bad'' = None"
    by (simp_all add: decode_raw_event_def demo_consumer_env_def jfield_def Let_def)
  moreover have "ce_float demo_consumer_env = Some" by (simp add: demo_consumer_env_def)
  moreover have "length (number_events n es) = length es" for n es by (induction es arbitrary: n) simp_all
  ultimately have "length (evt_rows (cs_events ?c3)) = 1"
    by (auto simp: drain_def Let_def batchSize_def InsertEvents_def exec_plain_def events_of_def List.map_filter_simps empty_consumer_def)
  then show ?thesis using r events_at_most_once [OF r] by blast
qed

subsection \<open>A queue that nobody writes to is emptied\<close>

text \<open>The loop of \<open>consumeEvents\<close> while nothing fails: \<open>n\<close> batches.\<close>

primrec batches :: "consumer_env \<Rightarrow> nat \<Rightarrow> consumer \<Rightarrow> consumer" where
  "batches E 0 c = c"
| "batches E (Suc n) c = batches E n (snd (drain E None None c))"

lemma number_events_append:
  "number_events n (xs @ ys) = number_events n xs @ number_events (n + int (length xs)) ys"
  by (induction xs arbitrary: n) (simp_all add: algebra_simps)

lemma events_of_append: "events_of E (xs @ ys) = events_of E xs @ events_of E ys"
  by (induction xs) (simp_all add: events_of_def List.map_filter_simps split: option.split)

lemma drain_good:
  "snd (drain E None None c) =
     c\<lparr>cs_queue := take (length (cs_queue c) - batchSize) (cs_queue c),
       cs_events := \<lparr>evt_next = evt_next (cs_events c) + int (length (events_of E (take batchSize (rev (cs_queue c))))),
         evt_rows = evt_rows (cs_events c) @ number_events (evt_next (cs_events c)) (events_of E (take batchSize (rev (cs_queue c))))\<rparr>\<rparr>"
  by (cases "cs_events c") (auto simp: drain_def Let_def InsertEvents_def exec_plain_def batchSize_def events_of_def)

lemma batches_good:
  "batches E n c =
     c\<lparr>cs_queue := take (length (cs_queue c) - n * batchSize) (cs_queue c),
       cs_events := \<lparr>evt_next = evt_next (cs_events c) + int (length (events_of E (take (n * batchSize) (rev (cs_queue c))))),
         evt_rows = evt_rows (cs_events c) @ number_events (evt_next (cs_events c)) (events_of E (take (n * batchSize) (rev (cs_queue c))))\<rparr>\<rparr>"
proof (induction n arbitrary: c)
  case 0
  then show ?case by (cases c) (simp add: events_of_def)
next
  case (Suc n)
  let ?q = "cs_queue c"
  have r: "rev (take (length ?q - batchSize) ?q) = drop batchSize (rev ?q)"
    by (cases "batchSize \<le> length ?q") (simp_all add: rev_take)
  have shorter: "take (length (take a ?q) - m) (take a ?q) = take (a - m) ?q" if "a \<le> length ?q" for a m
    using that by (simp add: min_def)
  have "take (batchSize + n * batchSize) (rev ?q) = take batchSize (rev ?q) @ take (n * batchSize) (drop batchSize (rev ?q))"
    by (rule take_add)
  then show ?case
    using Suc.IH [of "snd (drain E None None c)"] shorter [of "length ?q - batchSize" "n * batchSize"]
    by (simp add: drain_good r events_of_append number_events_append add.assoc)
qed

text \<open>
  C18 as long as Redis and the database answer, the consumer catches up: a queue of n items that nobody
  writes to is empty after n/500 batches, rounded up, and the log has gained exactly the items that
  decode, oldest first, with consecutive numbers. A corrupt item costs nothing but itself.
\<close>

theorem queue_drains:
  "(let k = (length (cs_queue c) + batchSize - 1) div batchSize; c' = batches E k c in
     cs_queue c' = [] \<and> evt_rows (cs_events c') =
       evt_rows (cs_events c) @ number_events (evt_next (cs_events c)) (events_of E (rev (cs_queue c))))"
proof -
  let ?k = "(length (cs_queue c) + batchSize - 1) div batchSize"
  have "length (cs_queue c) \<le> ?k * batchSize" by (simp add: batchSize_def)
  then show ?thesis by (simp add: Let_def batches_good)
qed

text \<open>A batch that could not be inserted is gone: it had left the queue before the insertion was tried.\<close>

lemma failed_insert_loses:
  assumes "cs_queue c \<noteq> []" "events_of E (take batchSize (rev (cs_queue c))) \<noteq> []"
  shows "drain E None (Some e) c = (Inl (DbFailed e), c\<lparr>cs_queue := take (length (cs_queue c) - batchSize) (cs_queue c)\<rparr>)"
  using assms by (simp add: drain_def Let_def InsertEvents_def exec_plain_def batchSize_def)

subsection \<open>A row of the statistics is the sum over the hosts\<close>

definition contributes :: "(string \<Rightarrow> (string \<times> string) list option) \<Rightarrow> int \<Rightarrow> string \<Rightarrow> bool" where
  "contributes hget secs key \<longleftrightarrow> statMinute key = Some secs \<and> hget key \<noteq> None \<and> hget key \<noteq> Some []"

definition host_sum :: "(string \<Rightarrow> (string \<times> string) list option) \<Rightarrow> string list \<Rightarrow> int \<Rightarrow> string \<Rightarrow> int" where
  "host_sum hget keys secs f = sum_list (map (\<lambda>k. num (the (hget k)) f) (filter (contributes hget secs) keys))"

text \<open>The row of a minute from its counters.\<close>

definition point_of :: "int \<Rightarrow> (string \<Rightarrow> int) \<Rightarrow> stat_point" where
  "point_of secs f = \<lparr>sp_minute = secs * 1000000000, sp_total = wrap64 (f ''total''), sp_blocked = wrap64 (f ''blocked''),
     sp_challenged = wrap64 (f ''challenged''), sp_monitored = wrap64 (f ''monitored''), sp_errors4xx = wrap64 (f ''errors_4xx''),
     sp_blocked4xx = wrap64 (f ''blocked_4xx''), sp_errors5xx = wrap64 (f ''errors_5xx''), sp_pageViews = wrap64 (f ''page_views'')\<rparr>"

lemma wrap64_add: "wrap64 (wrap64 a + b) = wrap64 (a + b)"
proof -
  have "(wrap64 a + b + 2 ^ 63) mod 2 ^ 64 = (((a + 2 ^ 63) mod 2 ^ 64) + b) mod 2 ^ 64" by (simp add: wrap64_def)
  also have "\<dots> = (a + 2 ^ 63 + b) mod 2 ^ 64" by (rule mod_add_left_eq)
  also have "a + 2 ^ 63 + b = a + b + 2 ^ 63" by simp
  finally have "(wrap64 a + b + 2 ^ 63) mod 2 ^ 64 - 2 ^ 63 = (a + b + 2 ^ 63) mod 2 ^ 64 - 2 ^ 63" by (rule arg_cong)
  then show ?thesis by (simp only: wrap64_def [symmetric])
qed

lemma add_vals_point: "add_vals vals (point_of secs f) = point_of secs (\<lambda>k. f k + num vals k)"
  by (simp add: add_vals_def point_of_def wrap64_add)

lemma zero_point_of: "zero_point secs = point_of secs (\<lambda>k. 0)"
  by (simp add: zero_point_def point_of_def wrap64_def)

lemma absorb_out:
  "map_of (absorbStat hget k into) secs =
     (if contributes hget secs k
      then Some (add_vals (the (hget k)) (case map_of into secs of None \<Rightarrow> zero_point secs | Some p \<Rightarrow> p)) else map_of into secs)"
proof -
  have f: "map_of (filter (\<lambda>(m, p). m \<noteq> s) into) m' = (if m' = s then None else map_of into m')" for s m'
    by (induction into) auto
  show ?thesis by (auto simp: absorbStat_def contributes_def f split: option.split)
qed

lemma absorbed:
  "map_of (fold (absorbStat hget) keys []) secs =
     (if filter (contributes hget secs) keys = [] then None else Some (point_of secs (host_sum hget keys secs)))"
proof (induction keys rule: rev_induct)
  case (snoc k keys)
  have "host_sum hget (keys @ [k]) secs = (\<lambda>f. host_sum hget keys secs f + num (the (hget k)) f)" if "contributes hget secs k"
    using that by (simp add: host_sum_def fun_eq_iff)
  moreover have "host_sum hget (keys @ [k]) secs = host_sum hget keys secs" if "\<not> contributes hget secs k"
    using that by (simp add: host_sum_def fun_eq_iff)
  moreover have "host_sum hget keys secs = (\<lambda>f. 0)" if "filter (contributes hget secs) keys = []"
    by (simp add: host_sum_def that fun_eq_iff)
  ultimately show ?case using snoc by (auto simp: absorb_out add_vals_point zero_point_of)
qed simp

lemma absorbed_distinct: "distinct (map fst into) \<Longrightarrow> distinct (map fst (fold (absorbStat hget) keys into))"
proof (induction keys arbitrary: into)
  case (Cons k keys)
  have "distinct (map fst (absorbStat hget k into))"
    using Cons.prems by (auto simp: absorbStat_def distinct_map_filter split: option.split)
  then show ?case using Cons.IH by simp
qed simp

lemma upsert_all_find:
  "distinct (map fst ps) \<Longrightarrow> \<forall>(m, p) \<in> set ps. sp_minute p = m * 1000000000 \<Longrightarrow>
   find_row sp_minute (secs * 1000000000) (upsert_all db ps t) =
     (case map_of ps secs of
        None \<Rightarrow> find_row sp_minute (secs * 1000000000) t
      | Some p \<Rightarrow> if db secs \<noteq> None then find_row sp_minute (secs * 1000000000) t
          else Some (case find_row sp_minute (secs * 1000000000) t of None \<Rightarrow> p | Some old \<Rightarrow> stat_merge old p))"
proof (induction db ps t rule: upsert_all.induct)
  case (2 db m p ps t)
  have one: "find_row sp_minute (secs * 1000000000) (snd (UpsertStat (db m) p t)) =
      (if secs \<noteq> m \<or> db m \<noteq> None then find_row sp_minute (secs * 1000000000) t
       else Some (case find_row sp_minute (secs * 1000000000) t of None \<Rightarrow> p | Some old \<Rightarrow> stat_merge old p))"
    using flush_stat_find [of "secs * 1000000000" p t] 2(3) by (cases "db m") (auto simp: UpsertStat_def exec_plain_def)
  have "map_of ps m = None" using 2(2) by (auto simp: map_of_eq_None_iff)
  then show ?case using 2(1) 2(2,3) one by (auto split: option.split)
qed simp

text \<open>
  The reference is over the set of keys: a key is of a minute when what follows \<open>moswaf:stat:\<close>, up to the next
  colon if there is one, is its number. A current data plane adds a colon and the host, an old one adds nothing.
\<close>

definition minute_key :: "int \<Rightarrow> string \<Rightarrow> bool" where
  "minute_key secs k \<longleftrightarrow> has_prefix ''moswaf:stat:'' k \<and> atoi (takeWhile (\<lambda>c. c \<noteq> CHR '':'') (drop 12 k)) = Some secs"

definition reporters :: "(string \<Rightarrow> (string \<times> string) list option) \<Rightarrow> string list \<Rightarrow> int \<Rightarrow> string set" where
  "reporters hget keys secs = {k \<in> set keys. minute_key secs k \<and> (case hget k of None \<Rightarrow> False | Some vals \<Rightarrow> vals \<noteq> [])}"

definition reported_sum :: "(string \<Rightarrow> (string \<times> string) list option) \<Rightarrow> string list \<Rightarrow> int \<Rightarrow> string \<Rightarrow> int" where
  "reported_sum hget keys secs f = (\<Sum>k \<in> reporters hget keys secs. num (the (hget k)) f)"

lemma minute_key_parsed: "has_prefix ''moswaf:stat:'' k \<Longrightarrow> minute_key secs k \<longleftrightarrow> statMinute k = Some secs"
proof -
  assume p: "has_prefix ''moswaf:stat:'' k"
  have t: "takeWhile (\<lambda>c. c \<noteq> d) r = (case cut_at d r of None \<Rightarrow> r | Some (h, _) \<Rightarrow> h)" for d and r :: string
  proof (cases "cut_at d r")
    case None
    moreover from None have "takeWhile (\<lambda>c. c \<noteq> d) r = r" by (auto simp: cut_at_None takeWhile_eq_all_conv)
    ultimately show ?thesis by simp
  next
    case (Some x)
    have "takeWhile (\<lambda>c. c \<noteq> d) (a @ d # b) = a" if "d \<notin> set a" for a b using that by (induction a) auto
    then show ?thesis using Some cut_at_Some [of d r "fst x" "snd x"] by (auto simp: split_beta)
  qed
  have "trim_prefix statPrefix k = drop 12 k" using p by (simp add: trim_prefix_def statPrefix_def numeral_eq_Suc)
  then show ?thesis using p by (simp only: minute_key_def statMinute_def t Let_def simp_thms)
qed

lemma reporters_contribute:
  assumes "list_all (has_prefix ''moswaf:stat:'') keys"
  shows "reporters hget keys secs = set (filter (contributes hget secs) keys)"
  using assms minute_key_parsed by (auto simp: reporters_def contributes_def list_all_iff split: option.splits)

text \<open>
  C20 when SCAN returns each key once, and only keys with the prefix asked for, then after a pass the row of a
  minute that some host reported, and that the database could write, is the sum over the keys of that minute
  of what their hashes hold, in 64-bit arithmetic, merged by maximum with what the row held. Every other
  minute - nobody reported it, or its write failed - keeps its row. Keys of both shapes count, with the host
  and without; a key that is no minute and a hash that cannot be read or is empty count nothing. (A key that
  SCAN returns twice is added twice: \<open>repeated_key_doubles\<close>.)
\<close>

theorem stats_sum_hosts:
  assumes "distinct (scan_keys pages)" "list_all (has_prefix ''moswaf:stat:'') (scan_keys pages)"
  shows "let keys = scan_keys pages; m = secs * 1000000000 in
   find_row sp_minute m (collect_pass hget pages db t) =
     (if reporters hget keys secs = {} \<or> db secs \<noteq> None then find_row sp_minute m t
      else let p = point_of secs (reported_sum hget keys secs) in
        Some (case find_row sp_minute m t of None \<Rightarrow> p | Some old \<Rightarrow> stat_merge old p))"
proof -
  let ?into = "fold (absorbStat hget) (scan_keys pages) []"
  have d: "distinct (map fst ?into)" by (rule absorbed_distinct) simp
  have "sp_minute p = m * 1000000000" if "(m, p) \<in> set ?into" for m p
    using absorbed [of hget "scan_keys pages" m] map_of_is_SomeI [OF d that] by (auto simp: point_of_def split: if_splits)
  then have m: "\<forall>(m, p) \<in> set ?into. sp_minute p = m * 1000000000" by blast
  note r = reporters_contribute [OF assms(2), of hget secs]
  have "host_sum hget (scan_keys pages) secs = reported_sum hget (scan_keys pages) secs"
    unfolding host_sum_def reported_sum_def r fun_eq_iff using assms(1) by (simp add: sum_list_distinct_conv_sum_set)
  moreover have "reporters hget (scan_keys pages) secs = {} \<longleftrightarrow> filter (contributes hget secs) (scan_keys pages) = []"
    unfolding r by (auto simp: filter_empty_conv)
  ultimately show ?thesis
    using upsert_all_find [OF d m, of secs db t] absorbed [of hget "scan_keys pages" secs]
    by (simp only: collect_pass_def Let_def) (simp split: if_splits)
qed

definition demo_hashes :: "string \<Rightarrow> (string \<times> string) list option" where
  "demo_hashes k = (if k = ''moswaf:stat:60:a'' then Some [(''total'', ''3'')] else if k = ''moswaf:stat:60'' then Some [(''total'', ''4'')] else None)"

lemma stats_sum_hosts_witness:
  "map_option sp_total (find_row sp_minute 60000000000
     (collect_pass demo_hashes [Inr [''moswaf:stat:60:a''], Inr [''moswaf:stat:60'']] (\<lambda>m. None) [])) = Some 7"
proof -
  let ?keys = "[''moswaf:stat:60:a'', ''moswaf:stat:60'']"
  have k: "scan_keys [Inr [''moswaf:stat:60:a''], Inr [''moswaf:stat:60'']] = ?keys" by simp
  have "distinct ?keys" "list_all (has_prefix ''moswaf:stat:'') ?keys" by (simp_all add: has_prefix_def)
  note t = stats_sum_hosts [of "[Inr [''moswaf:stat:60:a''], Inr [''moswaf:stat:60'']]", unfolded k, OF this,
    of 60 demo_hashes "\<lambda>m. None" "[]"]
  have n: "minute_key 60 ''moswaf:stat:60:a''" "minute_key 60 ''moswaf:stat:60''" by code_simp+
  then have r: "reporters demo_hashes ?keys 60 = set ?keys"
    by (auto simp: reporters_def demo_hashes_def)
  have v: "num [(''total'', ''3'')] ''total'' = 3" "num [(''total'', ''4'')] ''total'' = 4" by code_simp+
  have "reported_sum demo_hashes ?keys 60 ''total'' = 7" by (simp add: reported_sum_def r v demo_hashes_def)
  then show ?thesis using t by (simp add: r Let_def find_row_def point_of_def wrap64_def)
qed

text \<open>
  SCAN may report a key twice. The pass adds its counters twice, and the merge by maximum keeps the
  doubled row for good.
\<close>

lemma repeated_key_doubles:
  assumes "statMinute k = Some secs" "hget k = Some vals" "vals \<noteq> []" "0 \<le> num vals ''total''" "num vals ''total'' < 2 ^ 62"
  shows "map_of (fold (absorbStat hget) (scan_keys [Inr [k], Inr [k]]) []) secs \<noteq> None
    \<and> sp_total (the (map_of (fold (absorbStat hget) (scan_keys [Inr [k], Inr [k]]) []) secs)) = 2 * num vals ''total''"
proof -
  have c: "contributes hget secs k" using assms by (simp add: contributes_def)
  have "wrap64 (2 * num vals ''total'') = 2 * num vals ''total''" using assms(4,5) by (intro wrap64_id) simp_all
  moreover have "host_sum hget [k, k] secs ''total'' = 2 * num vals ''total''" using c assms(2) by (simp add: host_sum_def)
  moreover have "scan_keys [Inr [k], Inr [k]] = [k, k]" by simp
  moreover have "filter (contributes hget secs) [k, k] \<noteq> []" using c by simp
  ultimately show ?thesis unfolding absorbed by (simp add: point_of_def del: filter.simps)
qed

subsection \<open>What the janitor removes\<close>

text \<open>
  when the database answers, a run of the janitor keeps exactly the events of the last days the
  settings ask for (7 without a positive number), exactly the statistics of twice as many, and exactly the
  addresses that have not expired. It asks for a publication exactly when it removed an address, and no
  list the publisher can read then or later is changed by it.
\<close>

theorem janitor_exact:
  "let st = fst (fst (GetSettings None None (kp_settings k)));
       days = (if snd (fst (GetSettings None None (kp_settings k))) = None \<and> st_logRetainDays st > 0 then st_logRetainDays st else 7) in
   case janitor_run \<lparr>jd_settings = None, jd_defaults = None, jd_events = None, jd_stats = None, jd_ips = None\<rparr> now k of
     (publish, k') \<Rightarrow>
       evt_rows (kp_events k') = filter (\<lambda>e. now - days * day_nanos \<le> ev_ts e) (evt_rows (kp_events k))
       \<and> kp_stats k' = filter (\<lambda>p. now - wrap64 (days * 2) * day_nanos \<le> sp_minute p) (kp_stats k)
       \<and> ipt_rows (kp_ips k') = filter (live now) (ipt_rows (kp_ips k))
       \<and> publish = (ipt_rows (kp_ips k') \<noteq> ipt_rows (kp_ips k))
       \<and> (\<forall>d kind. ListIPs None (now + int d) kind (kp_ips k') = ListIPs None (now + int d) kind (kp_ips k))"
proof -
  obtain st err rows where g: "GetSettings None None (kp_settings k) = ((st, err), rows)" by (metis prod.exhaust)
  have live: "(\<lambda>e. case ip_expiresAt e of None \<Rightarrow> False | Some x \<Rightarrow> x \<le> now) = (\<lambda>e. \<not> live now e)"
    by (auto simp: live_def fun_eq_iff split: option.split)
  have days: "(if 0 < n then n else 7) \<le> 0 \<longleftrightarrow> False" for n :: int by simp
  have "filter (\<lambda>e. live (now + int d) e \<and> P e) (filter (live now) es) = filter (\<lambda>e. live (now + int d) e \<and> P e) es" for d P es
    by (induction es) (auto simp: live_def split: option.splits)
  then have l: "ListIPs None (now + int d) kind (t\<lparr>ipt_rows := filter (live now) (ipt_rows t)\<rparr>) = ListIPs None (now + int d) kind t" for d kind t
    by (simp add: ListIPs_def query_def)
  have p: "PurgeExpiredIPs None now t = (Inr (length (filter (\<lambda>e. \<not> live now e) (ipt_rows t))), t\<lparr>ipt_rows := filter (live now) (ipt_rows t)\<rparr>)" for t
    unfolding PurgeExpiredIPs_def live by (simp add: delete_rows_def)
  have n: "filter (\<lambda>e. \<not> live now e) es = [] \<longleftrightarrow> filter (live now) es = es" for es
    by (auto simp: filter_id_conv filter_empty_conv)
  show ?thesis
    by (simp add: janitor_run_def g Let_def p n l PurgeOldEvents_def PurgeOldStats_def delete_rows_def exec_plain_def not_less)
qed

end
