(* ===== verification/EngineCrawlers.thy ===== *)
theory EngineCrawlers
  imports GoNet GoJson
begin

section \<open>The engine: the published crawler ranges\<close>

text \<open>
  \<open>control/internal/engine/crawlerlist.go\<close>, the validation of a published list (\<open>ValidatePrefix\<close>,
  \<open>ValidateRanges\<close>), and \<open>control/internal/engine/crawlers.go\<close>, the lists in use (\<open>loadBundled\<close>,
  \<open>fetchOne\<close>, \<open>Refresh\<close>, \<open>Status\<close>, \<open>UAFor\<close>). The totals are floating point in the source; they are sums
  of at most 4096 powers of two below \<open>2 ^ 21\<close>, which a float64 holds exactly, so they are naturals here.
  A map is an association list with one entry per name. The timer around \<open>Refresh\<close> is left out.

  The lemmas bound the address space a list can exempt, whoever published it, and say that no failure
  ever empties a list.
\<close>

definition minIPv4Bits :: nat where "minIPv4Bits = 12"
definition minIPv6Bits :: nat where "minIPv6Bits = 48"
definition maxIPv4Addresses :: nat where "maxIPv4Addresses = 2 ^ 22"
definition maxIPv6Subnets :: nat where "maxIPv6Subnets = 2 ^ 20"
definition maxPrefixes :: nat where "maxPrefixes = 4096"

datatype prefix_error = EmptyPrefix | NotARange string | MappedShort string ipprefix | TooBroad string ipprefix

datatype ranges_error = TooMany string nat | TooMuchV4 string nat | TooMuchV6 string nat | NothingUsable string

definition normalisePrefix :: "ipprefix \<Rightarrow> bool \<Rightarrow> ipprefix option" where
  "normalisePrefix p m =
     (if \<not> m then Some p
      else if pfx_bits p \<ge> 96 then Some (prefix_from (unmap_addr (pfx_addr p)) (pfx_bits p - 96))
      else None)"

definition ValidatePrefix :: "string \<Rightarrow> prefix_error + ipprefix" where
  "ValidatePrefix raw =
     (let s = trim_space raw in
      if s = [] then Inl EmptyPrefix
      else case parse_prefix s of
        None \<Rightarrow> Inl (NotARange s)
      | Some p \<Rightarrow>
          (case normalisePrefix (masked p) (is4in6 (pfx_addr p)) of
             None \<Rightarrow> Inl (MappedShort s (masked p))
           | Some p' \<Rightarrow>
               if is4 (pfx_addr p') then (if pfx_bits p' < minIPv4Bits then Inl (TooBroad s p') else Inr p')
               else if pfx_bits p' < minIPv6Bits then Inl (TooBroad s p') else Inr p'))"

definition ipv4Size :: "ipprefix \<Rightarrow> nat" where
  "ipv4Size p = (if \<not> is4 (pfx_addr p) then 0 else 2 ^ (32 - pfx_bits p))"

definition ipv6Subnets :: "ipprefix \<Rightarrow> nat" where
  "ipv6Subnets p = (if is4 (pfx_addr p) \<or> pfx_bits p > 64 then 0 else 2 ^ (64 - pfx_bits p))"

text \<open>The loop: what was accepted and rejected so far, the totals, the strings seen.\<close>

record range_state =
  rs_out :: "string list"
  rs_rejected :: "prefix_error list"
  rs_total :: nat
  rs_totalV6 :: nat
  rs_seen :: "string list"

definition range_step :: "string \<Rightarrow> range_state \<Rightarrow> range_state" where
  "range_step r st =
     (case ValidatePrefix r of
        Inl e \<Rightarrow> st\<lparr>rs_rejected := rs_rejected st @ [e]\<rparr>
      | Inr p \<Rightarrow>
          (let s = prefix_string p in
           if List.member (rs_seen st) s then st
           else st\<lparr>rs_seen := s # rs_seen st, rs_total := rs_total st + ipv4Size p,
                   rs_totalV6 := rs_totalV6 st + ipv6Subnets p, rs_out := rs_out st @ [s]\<rparr>))"

definition empty_ranges :: range_state where
  "empty_ranges = \<lparr>rs_out = [], rs_rejected = [], rs_total = 0, rs_totalV6 = 0, rs_seen = []\<rparr>"

definition ValidateRanges :: "string \<Rightarrow> string list \<Rightarrow> ranges_error + string list \<times> prefix_error list" where
  "ValidateRanges name raw =
     (if length raw > maxPrefixes then Inl (TooMany name (length raw))
      else let st = fold range_step raw empty_ranges in
        if rs_total st > maxIPv4Addresses then Inl (TooMuchV4 name (rs_total st))
        else if rs_totalV6 st > maxIPv6Subnets then Inl (TooMuchV6 name (rs_totalV6 st))
        else if rs_out st = [] then Inl (NothingUsable name)
        else Inr (sort (rs_out st), rs_rejected st))"

subsection \<open>The lists in use\<close>

record crawler_source =
  cr_name :: string
  cr_url :: string
  cr_ua :: string

definition defaultCrawlerSources :: "crawler_source list" where
  "defaultCrawlerSources =
     [\<lparr>cr_name = ''googlebot'', cr_url = ''https://developers.google.com/static/crawling/ipranges/common-crawlers.json'', cr_ua = ''googlebot''\<rparr>,
      \<lparr>cr_name = ''google-special'', cr_url = ''https://developers.google.com/static/crawling/ipranges/special-crawlers.json'', cr_ua = ''google''\<rparr>,
      \<lparr>cr_name = ''bingbot'', cr_url = ''https://www.bing.com/toolbox/bingbot.json'', cr_ua = ''bingbot''\<rparr>,
      \<lparr>cr_name = ''applebot'', cr_url = ''https://search.developer.apple.com/applebot.json'', cr_ua = ''applebot''\<rparr>]"

record source_status =
  ss_name :: string
  ss_origin :: string
  ss_ranges :: nat
  ss_fetchedAt :: "int option"
  ss_lastError :: string

record crawlers =
  cw_current :: "(string \<times> string list) list"
  cw_status :: "(string \<times> source_status) list"

definition put_entry :: "string \<Rightarrow> 'v \<Rightarrow> (string \<times> 'v) list \<Rightarrow> (string \<times> 'v) list" where
  "put_entry k v m = (k, v) # filter (\<lambda>(k', v'). k' \<noteq> k) m"

text \<open>\<open>bundled\<close> is the decoded snapshot, \<open>None\<close> when it does not decode; a refused list is skipped.\<close>

fun load_lists :: "(string \<times> string list) list \<Rightarrow> crawlers \<Rightarrow> crawlers" where
  "load_lists [] c = c"
| "load_lists ((name, prefixes) # rest) c =
     (case ValidateRanges name prefixes of
        Inl e \<Rightarrow> load_lists rest c
      | Inr (good, rejected) \<Rightarrow> load_lists rest
          (c\<lparr>cw_current := put_entry name good (cw_current c),
             cw_status := put_entry name \<lparr>ss_name = name, ss_origin = ''bundled'', ss_ranges = length good,
               ss_fetchedAt = None, ss_lastError = []\<rparr> (cw_status c)\<rparr>))"

definition loadBundled :: "(string \<times> string list) list option \<Rightarrow> crawlers \<Rightarrow> crawlers" where
  "loadBundled bundled c = (case bundled of None \<Rightarrow> c | Some ls \<Rightarrow> load_lists ls c)"

definition NewCrawlers :: "(string \<times> string list) list option \<Rightarrow> crawlers" where
  "NewCrawlers bundled = loadBundled bundled \<lparr>cw_current = [], cw_status = []\<rparr>"

definition Status_crawlers :: "crawlers \<Rightarrow> source_status list" where
  "Status_crawlers c = sort_key ss_name (map snd (cw_status c))"

definition Ranges :: "crawlers \<Rightarrow> (string \<times> string list) list" where
  "Ranges c = cw_current c"

fun UAFor :: "crawler_source list \<Rightarrow> (string \<times> string) list" where
  "UAFor [] = []"
| "UAFor (s # ss) = (if map_of (UAFor ss) (cr_name s) = None then (cr_name s, cr_ua s) # UAFor ss else UAFor ss)"

text \<open>
  One download. \<open>get\<close> answers an URL with a status and a body, or the error of the request; the read of
  the body can fail (\<open>Inl\<close> inside). \<open>errtext\<close> is the text of a refused list.
\<close>

definition crawlerMaxBody :: nat where "crawlerMaxBody = 4194304"

record web =
  wb_get :: "string \<Rightarrow> string + int \<times> (string + string)"
  wb_json :: "string \<Rightarrow> json option"
  wb_jerr :: "string \<Rightarrow> string"
  wb_errtext :: "ranges_error \<Rightarrow> string"

definition decode_entry :: "json \<Rightarrow> (string \<times> string) option" where
  "decode_entry j = Option.bind (as_struct j) (\<lambda>kvs.
     Option.bind (as_string (jfield ''ipv4Prefix'' kvs)) (\<lambda>v4.
     map_option (\<lambda>v6. (v4, v6)) (as_string (jfield ''ipv6Prefix'' kvs))))"

definition decode_published :: "json \<Rightarrow> (string \<times> string) list option" where
  "decode_published j = Option.bind (as_struct j) (\<lambda>kvs.
     Option.bind (as_list (jslice ''prefixes'' kvs)) (opt_all decode_entry))"

definition raw_prefixes :: "(string \<times> string) list \<Rightarrow> string list" where
  "raw_prefixes ps = concat (map (\<lambda>(v4, v6). (if v4 \<noteq> [] then [v4] else []) @ (if v6 \<noteq> [] then [v6] else [])) ps)"

definition fetchOne :: "web \<Rightarrow> crawler_source \<Rightarrow> string + string list" where
  "fetchOne W src =
     (case wb_get W (cr_url src) of
        Inl e \<Rightarrow> Inl e
      | Inr (status, answer) \<Rightarrow>
          if status \<noteq> 200 then Inl (cr_url src @ '' answered '' @ itoa status)
          else (case answer of
             Inl e \<Rightarrow> Inl e
           | Inr full \<Rightarrow>
               (let body = take (crawlerMaxBody + 1) full in
                if length body > crawlerMaxBody then Inl (cr_url src @ '' answered with more than '' @ itoa (int crawlerMaxBody) @ '' bytes'')
                else case Option.bind (wb_json W body) decode_published of
                  None \<Rightarrow> Inl (cr_url src @ '' did not answer with a range list: '' @ wb_jerr W body)
                | Some doc \<Rightarrow>
                    (case ValidateRanges (cr_name src) (raw_prefixes doc) of
                       Inl e \<Rightarrow> Inl (wb_errtext W e)
                     | Inr (good, rejected) \<Rightarrow> Inr good))))"

definition refresh_one :: "web \<Rightarrow> int \<Rightarrow> crawler_source \<Rightarrow> crawlers \<Rightarrow> crawlers" where
  "refresh_one W now src c =
     (case fetchOne W src of
        Inl e \<Rightarrow> c\<lparr>cw_status := put_entry (cr_name src)
          (case map_of (cw_status c) (cr_name src) of
             Some st \<Rightarrow> st\<lparr>ss_lastError := e\<rparr>
           | None \<Rightarrow> \<lparr>ss_name = cr_name src, ss_origin = ''none'', ss_ranges = 0, ss_fetchedAt = None, ss_lastError = e\<rparr>) (cw_status c)\<rparr>
      | Inr good \<Rightarrow> c\<lparr>cw_current := put_entry (cr_name src) good (cw_current c),
          cw_status := put_entry (cr_name src) \<lparr>ss_name = cr_name src, ss_origin = ''fetched'', ss_ranges = length good,
            ss_fetchedAt = Some now, ss_lastError = []\<rparr> (cw_status c)\<rparr>)"

text \<open>\<open>now\<close> gives the time each source is done; the sources are tried in their order.\<close>

definition Refresh_crawlers :: "web \<Rightarrow> (crawler_source \<Rightarrow> int) \<Rightarrow> crawler_source list \<Rightarrow> crawlers \<Rightarrow> crawlers" where
  "Refresh_crawlers W now sources c = fold (\<lambda>src. refresh_one W (now src) src) sources c"

subsection \<open>What one entry exempts\<close>

text \<open>The IPv6 form of an IPv4 address; a range that is written in it covers the IPv4 address.\<close>

definition map6 :: "32 word \<Rightarrow> 128 word" where
  "map6 w = push_bit 32 0xffff OR ucast w"

definition entry_covers :: "ipprefix \<Rightarrow> addr \<Rightarrow> bool" where
  "entry_covers q a \<longleftrightarrow> prefix_contains q a \<or> (case a of V4 w \<Rightarrow> prefix_contains q (V6 (map6 w) []) | V6 w z \<Rightarrow> False)"

lemma mapped_word: "drop_bit 32 w = (0xffff :: 128 word) \<Longrightarrow> w = map6 (ucast w)"
proof -
  assume d: "drop_bit 32 w = 0xffff"
  have "w = push_bit 32 (drop_bit 32 w) OR ucast (ucast w :: 32 word)"
    by (rule bit_word_eqI) (auto simp: bit_simps not_less)
  then show ?thesis by (simp add: d map6_def)
qed

lemma bit_low: "i < 32 \<Longrightarrow> bit (push_bit 32 m OR ucast (x :: 32 word) :: 128 word) i = bit x i"
  by (auto simp: bit_simps)

lemma bit_high: "32 \<le> i \<Longrightarrow> bit (push_bit 32 m OR ucast (x :: 32 word) :: 128 word) i = bit (push_bit 32 m :: 128 word) i"
  by (auto simp: bit_simps dest: bit_imp_le_length)

lemma bit_map6: "bit (map6 x) i = (if i < 32 then bit x i else bit (push_bit 32 0xffff :: 128 word) i)"
  unfolding map6_def using bit_low [of i "0xffff" x] bit_high [of i "0xffff" x] by (cases "i < 32") auto

lemma drop_map6:
  assumes "n \<le> 32"
  shows "drop_bit n (map6 x) = drop_bit n (map6 y) \<longleftrightarrow> drop_bit n x = drop_bit n y"
proof
  assume l: "drop_bit n (map6 x) = drop_bit n (map6 y)"
  show "drop_bit n x = drop_bit n y"
  proof (rule bit_word_eqI)
    fix i assume "i < LENGTH(32)"
    have "bit (drop_bit n (map6 x)) i = bit (drop_bit n (map6 y)) i" by (simp add: l)
    then show "bit (drop_bit n x) i = bit (drop_bit n y) i"
      by (cases "n + i < 32") (auto simp: bit_map6 bit_drop_bit_eq dest: bit_imp_le_length)
  qed
next
  assume r: "drop_bit n x = drop_bit n y"
  show "drop_bit n (map6 x) = drop_bit n (map6 y)"
  proof (rule bit_word_eqI)
    fix i assume "i < LENGTH(128)"
    have "bit (drop_bit n x) i = bit (drop_bit n y) i" by (simp add: r)
    then show "bit (drop_bit n (map6 x)) i = bit (drop_bit n (map6 y)) i"
      by (cases "n + i < 32") (auto simp: bit_map6 bit_drop_bit_eq dest: bit_imp_le_length)
  qed
qed

lemma ValidatePrefix_Inr:
  assumes "ValidatePrefix raw = Inr p"
  obtains q where "parse_prefix (trim_space raw) = Some q" "(if is4 (pfx_addr p) then minIPv4Bits else minIPv6Bits) \<le> pfx_bits p"
    "normalisePrefix (masked q) (is4in6 (pfx_addr q)) = Some p"
  using assms by (auto simp: ValidatePrefix_def Let_def not_less split: if_splits option.splits)

lemma normal_covers:
  assumes "normalisePrefix (masked q) (is4in6 (pfx_addr q)) = Some p" "pfx_bits q \<le> bit_len (pfx_addr q)" "prefix_contains p a"
  shows "entry_covers q a"
proof (cases "is4in6 (pfx_addr q)")
  case False
  then show ?thesis using assms masked_contains [of q a] by (simp add: normalisePrefix_def entry_covers_def)
next
  case True
  then obtain w z where w: "pfx_addr q = V6 w z" "drop_bit 32 w = 0xffff" by (cases "pfx_addr q") auto
  obtain b where q: "q = Prefix (V6 w z) b" using w(1) by (cases q) simp
  have b: "96 \<le> b" "b \<le> 128" using assms(1,2) True by (auto simp: normalisePrefix_def q split: if_splits)
  let ?m = "push_bit (128 - b) (drop_bit (128 - b) w)"
  have m: "drop_bit 32 ?m = 0xffff"
  proof -
    have "drop_bit 32 ?m = drop_bit 32 w" using b by (intro bit_word_eqI) (auto simp: bit_simps dest: bit_imp_le_length)
    then show ?thesis using w(2) by simp
  qed
  have p: "p = Prefix (V4 (ucast ?m)) (b - 96)"
    using assms(1) w(2) b m by (simp add: normalisePrefix_def q masked_def prefix_from_def)
  then obtain x where a: "a = V4 x" using assms(3) by (cases a) simp_all
  have e: "32 - (b - 96) = 128 - b" using b by simp
  have "drop_bit (128 - b) x = drop_bit (128 - b) (ucast ?m)" using assms(3) unfolding p a prefix_contains_V4 e .
  then have "drop_bit (128 - b) (map6 x) = drop_bit (128 - b) (map6 (ucast ?m))" using drop_map6 b by simp
  also have "map6 (ucast ?m) = ?m" by (rule mapped_word [symmetric, OF m])
  finally have "drop_bit (128 - b) (map6 x) = drop_bit (128 - b) w" by simp
  then show ?thesis by (simp add: entry_covers_def a q prefix_contains_V6 del: prefix_contains.simps)
qed

subsection \<open>What a list exempts\<close>

text \<open>The loop keeps the prefixes behind the strings, and the totals are their sums.\<close>

definition ranges_inv :: "string list \<Rightarrow> range_state \<Rightarrow> ipprefix list \<Rightarrow> bool" where
  "ranges_inv raw st ps \<longleftrightarrow> rs_out st = map prefix_string ps \<and> distinct (rs_out st) \<and> set (rs_seen st) = set (rs_out st)
     \<and> rs_total st = sum_list (map ipv4Size ps) \<and> rs_totalV6 st = sum_list (map ipv6Subnets ps) \<and> length ps \<le> length raw
     \<and> list_all (\<lambda>p. list_ex (\<lambda>r. ValidatePrefix r = Inr p) raw) ps
     \<and> list_all (\<lambda>r. case ValidatePrefix r of Inl e \<Rightarrow> List.member (rs_rejected st) e | Inr p \<Rightarrow> List.member (rs_out st) (prefix_string p)) raw"

lemma ranges_step:
  assumes "ranges_inv raw st ps"
  shows "\<exists>ps'. ranges_inv (raw @ [r]) (range_step r st) ps'"
proof (cases "ValidatePrefix r")
  case (Inl e)
  have "ranges_inv (raw @ [r]) (range_step r st) ps"
    using assms Inl by (auto simp: ranges_inv_def range_step_def list_all_iff list_ex_iff split: sum.splits)
  then show ?thesis by blast
next
  case (Inr p)
  show ?thesis
  proof (cases "List.member (rs_seen st) (prefix_string p)")
    case True
    have "ranges_inv (raw @ [r]) (range_step r st) ps"
      using assms Inr True by (auto simp: ranges_inv_def range_step_def Let_def list_all_iff list_ex_iff split: sum.splits)
    then show ?thesis by blast
  next
    case False
    have "ranges_inv (raw @ [r]) (range_step r st) (ps @ [p])"
      using assms Inr False
      by (auto simp: ranges_inv_def range_step_def Let_def list_all_iff list_ex_iff split: sum.splits)
    then show ?thesis by blast
  qed
qed

lemma ranges_fold: "\<exists>ps. ranges_inv raw (fold range_step raw empty_ranges) ps"
proof (induction raw rule: rev_induct)
  case Nil
  show ?case by (rule exI [of _ "[]"]) (simp add: ranges_inv_def empty_ranges_def)
next
  case (snoc r raw)
  then obtain ps where "ranges_inv raw (fold range_step raw empty_ranges) ps" by blast
  from ranges_step [OF this, of r] show ?case by simp
qed

lemma card_UN_sum: "(\<And>x. x \<in> set xs \<Longrightarrow> card (B x) \<le> f x) \<Longrightarrow> card (\<Union>x \<in> set xs. B x) \<le> sum_list (map f xs)"
proof (induction xs)
  case (Cons x xs)
  have "card (\<Union>y \<in> set xs. B y) \<le> sum_list (map f xs)" using Cons.prems by (intro Cons.IH) simp
  moreover have "card (B x) \<le> f x" using Cons.prems by simp
  moreover have "card (\<Union>y \<in> set (x # xs). B y) \<le> card (B x) + card (\<Union>y \<in> set xs. B y)" by (simp add: card_Un_le)
  ultimately show ?case by simp
qed simp

lemma exempt4: "card {a. prefix_contains p (V4 a)} \<le> ipv4Size p"
proof (cases p)
  case (Prefix q b)
  then show ?thesis using card_drop_bit_block [of "32 - b"]
    by (cases q) (auto simp: ipv4Size_def prefix_contains_V4 simp del: prefix_contains.simps(1,2))
qed

definition subnets64 :: "ipprefix \<Rightarrow> 128 word set" where
  "subnets64 p = {h. \<exists>a. prefix_contains p (V6 a []) \<and> h = drop_bit 64 a}"

lemma exempt6: "pfx_bits p \<le> 128 \<Longrightarrow> card (subnets64 p) \<le> ipv6Subnets p + 1"
proof (cases p)
  case (Prefix q b)
  assume b: "pfx_bits p \<le> 128"
  show ?thesis
  proof (cases q)
    case (V4 w)
    then show ?thesis by (simp add: subnets64_def Prefix)
  next
    case (V6 w z)
    show ?thesis
    proof (cases "b \<le> 64")
      case True
      have d: "drop_bit (64 - b) (drop_bit 64 a) = drop_bit (128 - b) a" for a :: "128 word" using True by simp
      have "subnets64 p \<subseteq> {h. drop_bit (64 - b) h = drop_bit (128 - b) w}"
        using d by (auto simp: subnets64_def Prefix V6 prefix_contains_V6 simp del: prefix_contains.simps(1,2) drop_bit_drop_bit)
      then have "card (subnets64 p) \<le> card {h. drop_bit (64 - b) h = drop_bit (128 - b) w}" by (rule card_mono [rotated]) simp
      also have "\<dots> \<le> 2 ^ (64 - b)" by (rule card_drop_bit_block)
      finally show ?thesis using True by (simp add: ipv6Subnets_def Prefix V6)
    next
      case False
      have d: "drop_bit (b - 64) (drop_bit (128 - b) a) = drop_bit 64 a" for a :: "128 word" using False b by (simp add: Prefix)
      have "subnets64 p \<subseteq> {drop_bit 64 w}"
      proof
        fix h assume "h \<in> subnets64 p"
        then obtain a where a: "drop_bit (128 - b) a = drop_bit (128 - b) w" "h = drop_bit 64 a"
          by (auto simp: subnets64_def Prefix V6 prefix_contains_V6 simp del: prefix_contains.simps(1,2))
        have "drop_bit (b - 64) (drop_bit (128 - b) a) = drop_bit (b - 64) (drop_bit (128 - b) w)" by (simp only: a(1))
        then show "h \<in> {drop_bit 64 w}" using a(2) by (simp only: d) simp
      qed
      then have "card (subnets64 p) \<le> card {drop_bit 64 w}" by (rule card_mono [rotated]) simp
      then show ?thesis by simp
    qed
  qed
qed

text \<open>An accepted list comes from prefixes that passed one by one and are not too many.\<close>

lemma accepted_list:
  assumes "ValidateRanges name raw = Inr (out, rejected)"
  obtains ps where "out = sort (map prefix_string ps)" "distinct out" "out \<noteq> []" "length ps \<le> maxPrefixes"
    "sum_list (map ipv4Size ps) \<le> maxIPv4Addresses" "sum_list (map ipv6Subnets ps) \<le> maxIPv6Subnets"
    "\<forall>p \<in> set ps. \<exists>r \<in> set raw. ValidatePrefix r = Inr p"
    "\<forall>r \<in> set raw. case ValidatePrefix r of Inl e \<Rightarrow> e \<in> set rejected | Inr p \<Rightarrow> prefix_string p \<in> set out"
proof -
  define st where "st = fold range_step raw empty_ranges"
  obtain ps where i: "ranges_inv raw st ps" using ranges_fold st_def by blast
  have v: "length raw \<le> maxPrefixes" "rs_total st \<le> maxIPv4Addresses" "rs_totalV6 st \<le> maxIPv6Subnets" "rs_out st \<noteq> []"
    "out = sort (rs_out st)" "rejected = rs_rejected st"
    using assms unfolding ValidateRanges_def Let_def st_def [symmetric] by (auto split: if_splits)
  have "\<forall>r \<in> set raw. case ValidatePrefix r of Inl e \<Rightarrow> e \<in> set rejected | Inr p \<Rightarrow> prefix_string p \<in> set out"
    using i v(5,6) by (auto simp: ranges_inv_def list_all_iff split: sum.splits)
  moreover have "out \<noteq> []" using v(4,5) by (metis length_0_conv length_sort)
  ultimately show ?thesis using that [of ps] i v by (auto simp: ranges_inv_def list_all_iff list_ex_iff)
qed

definition exempts :: "ipprefix list \<Rightarrow> addr \<Rightarrow> bool" where
  "exempts ps a \<longleftrightarrow> list_ex (\<lambda>p. prefix_contains p a) ps"

lemma parsed_bits: "parse_prefix s = Some q \<Longrightarrow> pfx_bits q \<le> bit_len (pfx_addr q)"
  by (auto simp: parse_prefix_def prefix_from_def split: option.splits if_splits prod.splits)

lemma entry_facts:
  assumes "ValidatePrefix r = Inr p"
  shows "\<exists>q. parse_prefix (trim_space r) = Some q \<and> (\<forall>a. prefix_contains p a \<longrightarrow> entry_covers q a)"
    and "(if is4 (pfx_addr p) then 12 else 48) \<le> pfx_bits p" and "pfx_bits p \<le> 128"
proof -
  obtain q where q: "parse_prefix (trim_space r) = Some q" "(if is4 (pfx_addr p) then minIPv4Bits else minIPv6Bits) \<le> pfx_bits p"
    "normalisePrefix (masked q) (is4in6 (pfx_addr q)) = Some p"
    by (rule ValidatePrefix_Inr [OF assms])
  have b: "pfx_bits q \<le> bit_len (pfx_addr q)" by (rule parsed_bits [OF q(1)])
  show "\<exists>q. parse_prefix (trim_space r) = Some q \<and> (\<forall>a. prefix_contains p a \<longrightarrow> entry_covers q a)"
    using q(1) normal_covers [OF q(3) b] by blast
  show "(if is4 (pfx_addr p) then 12 else 48) \<le> pfx_bits p" using q(2) by (simp add: minIPv4Bits_def minIPv6Bits_def split: if_splits)
  have "bit_len (pfx_addr q) \<le> 128" by (cases "pfx_addr q") simp_all
  then show "pfx_bits p \<le> 128" using q(3) b by (auto simp: normalisePrefix_def prefix_from_def split: if_splits)
qed

text \<open>
  C37 whatever a source publishes, an accepted list exempts little: at most 4,194,304 IPv4 addresses, and
  addresses of at most 1,048,576 + 4096 IPv6 /64 networks, however the entries overlap; no single entry
  is wider than /12 or /48. And it exempts nothing the source did not name: every exempted address lies
  in an entry of the document, read as IPv4 when it was written as an IPv4-mapped range. The list is not
  empty, sorted and without repetitions, and every entry of the document is in it or among the rejected.
\<close>

theorem crawler_list_bounded:
  assumes "ValidateRanges name raw = Inr (out, rejected)"
  shows "\<exists>ps. out = sort (map prefix_string ps) \<and> out \<noteq> [] \<and> distinct out
    \<and> card {a. exempts ps (V4 a)} \<le> 4194304
    \<and> card {h. \<exists>a. exempts ps (V6 a []) \<and> h = drop_bit 64 a} \<le> 1048576 + 4096
    \<and> (\<forall>p \<in> set ps. (if is4 (pfx_addr p) then 12 else 48) \<le> pfx_bits p)
    \<and> (\<forall>a. exempts ps a \<longrightarrow> (\<exists>r \<in> set raw. \<exists>q. parse_prefix (trim_space r) = Some q \<and> entry_covers q a))
    \<and> (\<forall>r \<in> set raw. case ValidatePrefix r of Inl e \<Rightarrow> e \<in> set rejected | Inr p \<Rightarrow> prefix_string p \<in> set out)"
proof -
  obtain ps where ps: "out = sort (map prefix_string ps)" "distinct out" "out \<noteq> []" "length ps \<le> maxPrefixes"
    "sum_list (map ipv4Size ps) \<le> maxIPv4Addresses" "sum_list (map ipv6Subnets ps) \<le> maxIPv6Subnets"
    and src: "\<forall>p \<in> set ps. \<exists>r \<in> set raw. ValidatePrefix r = Inr p"
    and all: "\<forall>r \<in> set raw. case ValidatePrefix r of Inl e \<Rightarrow> e \<in> set rejected | Inr p \<Rightarrow> prefix_string p \<in> set out"
    by (rule accepted_list [OF assms])
  have entry: "\<exists>r \<in> set raw. \<exists>q. parse_prefix (trim_space r) = Some q \<and> (\<forall>a. prefix_contains p a \<longrightarrow> entry_covers q a)"
    and narrow: "(if is4 (pfx_addr p) then 12 else 48) \<le> pfx_bits p" and bits: "pfx_bits p \<le> 128" if "p \<in> set ps" for p
    using src that entry_facts [of _ p] by blast+
  have "card (\<Union>p \<in> set ps. {a. prefix_contains p (V4 a)}) \<le> sum_list (map ipv4Size ps)"
    by (rule card_UN_sum) (rule exempt4)
  also have "(\<Union>p \<in> set ps. {a. prefix_contains p (V4 a)}) = {a. exempts ps (V4 a)}" by (auto simp: exempts_def list_ex_iff)
  finally have v4: "card {a. exempts ps (V4 a)} \<le> 4194304" using ps(5) by (simp add: maxIPv4Addresses_def)
  have "card (\<Union>p \<in> set ps. subnets64 p) \<le> sum_list (map (\<lambda>p. ipv6Subnets p + 1) ps)"
    by (rule card_UN_sum) (rule exempt6 [OF bits])
  also have "\<dots> = sum_list (map ipv6Subnets ps) + length ps" by (induction ps) simp_all
  also have "\<dots> \<le> 1048576 + 4096" using ps(4,6) by (simp add: maxIPv6Subnets_def maxPrefixes_def)
  also have "(\<Union>p \<in> set ps. subnets64 p) = {h. \<exists>a. exempts ps (V6 a []) \<and> h = drop_bit 64 a}"
    by (auto simp: exempts_def list_ex_iff subnets64_def)
  finally have v6: "card {h. \<exists>a. exempts ps (V6 a []) \<and> h = drop_bit 64 a} \<le> 1048576 + 4096" .
  have "\<exists>r \<in> set raw. \<exists>q. parse_prefix (trim_space r) = Some q \<and> entry_covers q a" if "exempts ps a" for a
    using that entry by (auto simp: exempts_def list_ex_iff) blast
  then show ?thesis using ps(1-3) v4 v6 narrow all by blast
qed

lemma demo_list: "ValidateRanges ''c'' [''10.1.2.3/24'', ''0.0.0.0/0'', ''::ffff:10.1.2.0/120''] =
    Inr ([''10.1.2.0/24''], [TooBroad ''0.0.0.0/0'' (Prefix (V4 0) 0)])"
proof -
  have t: "trim_space ''10.1.2.3/24'' = ''10.1.2.3/24''" "trim_space ''0.0.0.0/0'' = ''0.0.0.0/0''"
    "trim_space ''::ffff:10.1.2.0/120'' = ''::ffff:10.1.2.0/120''"
    by code_simp+
  have p: "parse_prefix ''10.1.2.3/24'' = Some (Prefix (V4 0x0A010203) 24)" "parse_prefix ''0.0.0.0/0'' = Some (Prefix (V4 0) 0)"
    "parse_prefix ''::ffff:10.1.2.0/120'' = Some (Prefix (V6 0xFFFF0A010200 []) 120)"
    by code_simp+
  have m: "masked (Prefix (V4 0x0A010203) 24) = Prefix (V4 0x0A010200) 24" "masked (Prefix (V4 0) 0) = Prefix (V4 0) 0"
    "masked (Prefix (V6 0xFFFF0A010200 []) 120) = Prefix (V6 0xFFFF0A010200 []) 120"
    by (simp_all add: masked_def)
  have "prefix_string (Prefix (V4 0x0A010200) 24) = ''10.1.2.0/24''" by code_simp
  then have v: "ValidatePrefix ''10.1.2.3/24'' = Inr (Prefix (V4 0x0A010200) 24)"
    "ValidatePrefix ''0.0.0.0/0'' = Inl (TooBroad ''0.0.0.0/0'' (Prefix (V4 0) 0))"
    "ValidatePrefix ''::ffff:10.1.2.0/120'' = Inr (Prefix (V4 0x0A010200) 24)"
    "prefix_string (Prefix (V4 0x0A010200) 24) = ''10.1.2.0/24''"
    by (simp_all add: ValidatePrefix_def t p m minIPv4Bits_def normalisePrefix_def prefix_from_def)
  show ?thesis
    by (simp add: ValidateRanges_def maxPrefixes_def maxIPv4Addresses_def maxIPv6Subnets_def empty_ranges_def range_step_def Let_def v
        ipv4Size_def ipv6Subnets_def)
qed

lemma crawler_list_bounded_witness:
  "\<exists>ps. [''10.1.2.0/24''] = sort (map prefix_string ps) \<and> card {a. exempts ps (V4 a)} \<le> 4194304
    \<and> (\<forall>a. exempts ps a \<longrightarrow> (\<exists>r \<in> {''10.1.2.3/24'', ''0.0.0.0/0'', ''::ffff:10.1.2.0/120''}. \<exists>q. parse_prefix (trim_space r) = Some q \<and> entry_covers q a))"
  using crawler_list_bounded [OF demo_list] by (simp only: list.set) blast

subsection \<open>The lists in use\<close>

text \<open>Every list in use was accepted by the validation, under its own name.\<close>

definition crawlers_ok :: "crawlers \<Rightarrow> bool" where
  "crawlers_ok c \<longleftrightarrow> (\<forall>n ps. map_of (cw_current c) n = Some ps \<longrightarrow> (\<exists>raw rejected. ValidateRanges n raw = Inr (ps, rejected)))"

lemma put_entry_find [simp]: "map_of (put_entry k v m) n = (if n = k then Some v else map_of m n)"
proof -
  have "map_of (filter (\<lambda>(k', v'). k' \<noteq> k) m) n = (if n = k then None else map_of m n)" by (induction m) auto
  then show ?thesis by (simp add: put_entry_def)
qed

lemma load_ok: "crawlers_ok c \<Longrightarrow> crawlers_ok (load_lists ls c)"
proof (induction ls arbitrary: c)
  case (Cons l ls)
  obtain name prefixes where l: "l = (name, prefixes)" by (cases l)
  show ?case
  proof (cases "ValidateRanges name prefixes")
    case (Inr b)
    obtain good rejected where b: "b = (good, rejected)" by (cases b)
    have "crawlers_ok (c\<lparr>cw_current := put_entry name good (cw_current c), cw_status := st\<rparr>)" for st
      using Cons.prems Inr b unfolding crawlers_ok_def by (auto split: if_splits)
    then show ?thesis using Cons.IH by (simp add: l Inr b)
  qed (use Cons in \<open>simp add: l\<close>)
qed simp

lemma fetch_ok: "fetchOne W src = Inr good \<Longrightarrow> \<exists>raw rejected. ValidateRanges (cr_name src) raw = Inr (good, rejected)"
  by (auto simp: fetchOne_def Let_def split: sum.splits if_splits option.splits prod.splits)

lemma refresh_one_current:
  "map_of (cw_current (refresh_one W now src c)) n =
     (if n = cr_name src then (case fetchOne W src of Inl e \<Rightarrow> map_of (cw_current c) n | Inr good \<Rightarrow> Some good) else map_of (cw_current c) n)"
  by (simp add: refresh_one_def split: sum.split)

lemma refresh_ok: "crawlers_ok c \<Longrightarrow> crawlers_ok (Refresh_crawlers W now srcs c)"
proof -
  have "crawlers_ok (refresh_one W t src c)" if "crawlers_ok c" for t src c
    using that fetch_ok [of W src] by (auto simp: crawlers_ok_def refresh_one_current split: sum.splits if_splits)
  then show "crawlers_ok c \<Longrightarrow> ?thesis"
    unfolding Refresh_crawlers_def by (induction srcs arbitrary: c) simp_all
qed

lemma find_named: "distinct (map f xs) \<Longrightarrow> x \<in> set xs \<Longrightarrow> find (\<lambda>y. f y = f x) xs = Some x"
  by (induction xs) auto

lemma refresh_current:
  assumes "distinct (map cr_name srcs)"
  shows "map_of (cw_current (Refresh_crawlers W now srcs c)) n =
    (case find (\<lambda>s. cr_name s = n) srcs of
       None \<Rightarrow> map_of (cw_current c) n
     | Some src \<Rightarrow> (case fetchOne W src of Inl e \<Rightarrow> map_of (cw_current c) n | Inr good \<Rightarrow> Some good))"
  using assms unfolding Refresh_crawlers_def
proof (induction srcs arbitrary: c)
  case (Cons s srcs)
  have "find (\<lambda>t. cr_name t = n) srcs = None" if "cr_name s = n"
    unfolding find_None_iff using Cons.prems that by (auto simp: image_iff)
  then show ?case using Cons.IH [of "refresh_one W (now s) s c"] Cons.prems
    by (cases "cr_name s = n"; cases "find (\<lambda>t. cr_name t = n) srcs") (simp_all add: refresh_one_current cong: sum.case_cong)
qed simp

lemma accepted_not_empty: "ValidateRanges n raw = Inr (ps, rejected) \<Longrightarrow> ps \<noteq> []"
  by (rule accepted_list) simp_all

text \<open>The runs of the refresh loop, one web after the other.\<close>

fun refreshes :: "(web \<times> (crawler_source \<Rightarrow> int)) list \<Rightarrow> crawlers \<Rightarrow> crawlers" where
  "refreshes [] c = c"
| "refreshes ((W, now) # ws) c = refreshes ws (Refresh_crawlers W now defaultCrawlerSources c)"

lemma default_distinct: "distinct (map cr_name defaultCrawlerSources)"
  by (simp add: defaultCrawlerSources_def)

lemma refreshes_ok: "crawlers_ok c \<Longrightarrow> crawlers_ok (refreshes ws c)"
  by (induction ws c rule: refreshes.induct) (simp_all add: refresh_ok)

lemma refreshes_keep: "map_of (cw_current c) n \<noteq> None \<Longrightarrow> map_of (cw_current (refreshes ws c)) n \<noteq> None"
proof (induction ws c rule: refreshes.induct)
  case (2 W now ws c)
  have "map_of (cw_current (Refresh_crawlers W now defaultCrawlerSources c)) n \<noteq> None"
    using 2(2) by (auto simp: refresh_current [OF default_distinct] split: option.splits sum.splits)
  then show ?case using 2(1) by simp
qed simp

text \<open>
  C38 from the bundled snapshot on, through any number of refreshes and whatever the network answers, a
  crawler that once had a list keeps one: a source that fails, lies or publishes too much leaves the list
  in use as it was. Every list in use was accepted by the validation, so it is not empty and exempts no
  more than the bound.
\<close>

theorem crawlers_never_emptied:
  "let c = refreshes ws (NewCrawlers bundled) in
     (\<forall>n ps. map_of (cw_current c) n = Some ps \<longrightarrow> ps \<noteq> [] \<and> (\<exists>raw rejected. ValidateRanges n raw = Inr (ps, rejected)))
     \<and> (\<forall>n. map_of (cw_current (NewCrawlers bundled)) n \<noteq> None \<longrightarrow> map_of (cw_current c) n \<noteq> None)
     \<and> (\<forall>W now. list_all (\<lambda>src. map_of (cw_current (Refresh_crawlers W now defaultCrawlerSources c)) (cr_name src)
            = (case fetchOne W src of Inl e \<Rightarrow> map_of (cw_current c) (cr_name src) | Inr good \<Rightarrow> Some good)) defaultCrawlerSources)"
proof -
  have "crawlers_ok \<lparr>cw_current = [], cw_status = []\<rparr>" by (simp add: crawlers_ok_def)
  then have "crawlers_ok (NewCrawlers bundled)" by (simp add: NewCrawlers_def loadBundled_def load_ok split: option.split)
  then have ok: "crawlers_ok (refreshes ws (NewCrawlers bundled))" by (rule refreshes_ok)
  have keep: "map_of (cw_current (Refresh_crawlers W now defaultCrawlerSources c)) (cr_name src)
      = (case fetchOne W src of Inl e \<Rightarrow> map_of (cw_current c) (cr_name src) | Inr good \<Rightarrow> Some good)"
    if "src \<in> set defaultCrawlerSources" for W now src c
    by (simp only: refresh_current [OF default_distinct] find_named [OF default_distinct that] option.case)
  show ?thesis
    unfolding Let_def list_all_iff using ok accepted_not_empty refreshes_keep keep unfolding crawlers_ok_def by blast
qed

definition demo_bundled :: "(string \<times> string list) list" where
  "demo_bundled = [(''c'', [''10.1.2.3/24'', ''0.0.0.0/0'', ''::ffff:10.1.2.0/120''])]"

definition demo_web :: web where
  "demo_web = \<lparr>wb_get = (\<lambda>url. Inr (503, Inr [])), wb_json = (\<lambda>b. None), wb_jerr = (\<lambda>b. ''no json''), wb_errtext = (\<lambda>e. ''refused'')\<rparr>"

lemma crawlers_never_emptied_witness:
  "case map_of (cw_current (refreshes [(demo_web, (\<lambda>src. 7))] (NewCrawlers (Some demo_bundled)))) ''c'' of
     None \<Rightarrow> False | Some ps \<Rightarrow> ps \<noteq> []"
proof -
  have "map_of (cw_current (NewCrawlers (Some demo_bundled))) ''c'' \<noteq> None"
    by (simp add: NewCrawlers_def loadBundled_def demo_bundled_def demo_list)
  then show ?thesis
    using crawlers_never_emptied [where ws = "[(demo_web, (\<lambda>src. 7))]" and bundled = "Some demo_bundled"]
    unfolding Let_def by (force split: option.splits)
qed

end
