(* ===== verification/ControlMain.thy ===== *)
theory ControlMain
  imports Config StoreUsers EnginePublisher ApiHttp
begin

section \<open>The control plane: starting up\<close>

text \<open>
  \<open>control/cmd/moswafd/main.go\<close>: what the command line selects (\<open>moswafd\<close>), the first account
  (\<open>ensureAdmin\<close>), the dashboard certificate (\<open>loadOrCreateCert\<close>), the two one-shot commands, and the
  start-up sequence of \<open>run\<close> up to the point where it serves, with the error of every step. The database
  is the tables of the components. \<open>gen\<close> makes a key pair in PEM, \<open>pair\<close> is \<open>tls.X509KeyPair\<close>. Serving,
  the background loops and the shutdown are left out.

  The lemmas say that a start that succeeds leaves an account to sign in with and never touches an
  existing one, and which partial failure of the certificate is permanent.
\<close>

record boot_db =
  bd_open :: "string option"
  bd_migrate :: "string option"
  bd_seed :: "string \<Rightarrow> string option"
  bd_count :: "string option"
  bd_create :: "string option"
  bd_ping :: "string option"

record boot_env =
  bt_hash :: "string \<Rightarrow> string result"
  bt_now :: int
  bt_random :: "int list option"
  bt_text :: "store_error \<Rightarrow> string"
  bt_pub :: pub_env
  bt_pub_db :: pub_db
  bt_io :: io
  bt_gen :: "string + string \<times> string"

record boot_world =
  wo_users :: user_table
  wo_tables :: tables
  wo_deployed :: deployed
  wo_adminTLS :: dir

definition ensureAdmin ::
  "(string \<Rightarrow> string result) \<Rightarrow> string option \<Rightarrow> string option \<Rightarrow> int \<Rightarrow> int list option \<Rightarrow> control_config \<Rightarrow> user_table \<Rightarrow> unit result \<times> user_table" where
  "ensureAdmin hash db1 db2 now rnd cfg t =
     (case CountUsers db1 t of
        Inl e \<Rightarrow> (Inl e, t)
      | Inr n \<Rightarrow>
          if n > 0 then (Inr (), t)
          else if cg_adminPassword cfg = [] then
            (case rnd of
               None \<Rightarrow> (Inl (Invalid ''the random source failed''), t)
             | Some buf \<Rightarrow> CreateUser hash db2 now (cg_adminUser cfg) (hex_text buf) t)
          else CreateUser hash db2 now (cg_adminUser cfg) (cg_adminPassword cfg) t)"

definition doResetPassword ::
  "(string \<Rightarrow> string result) \<Rightarrow> string option \<Rightarrow> string option \<Rightarrow> int \<Rightarrow> control_config \<Rightarrow> string \<Rightarrow> user_table \<Rightarrow> int \<times> user_table" where
  "doResetPassword hash db1 db2 now cfg pass t =
     (if db1 \<noteq> None then (1, t)
      else case SetPassword hash db2 now (cg_adminUser cfg) pass t of (Inl e, t') \<Rightarrow> (1, t') | (Inr _, t') \<Rightarrow> (0, t'))"

definition health_url :: "string \<Rightarrow> string" where
  "health_url listen =
     (let host0 = (case split_host listen of None \<Rightarrow> [] | Some h \<Rightarrow> h);
          port = (if split_host listen = None then ''9443'' else (case cut_last CHR '':'' listen of None \<Rightarrow> [] | Some (h, p) \<Rightarrow> p));
          host = (if host0 = [] then ''127.0.0.1'' else host0)
      in ''https://'' @ host @ '':'' @ port @ ''/api/health'')"

text \<open>\<open>get\<close> is the status of the answer, or the error of the request.\<close>

definition doHealthcheck :: "(string \<Rightarrow> string + int) \<Rightarrow> string \<Rightarrow> int" where
  "doHealthcheck get listen = (case get (health_url listen) of Inl e \<Rightarrow> 1 | Inr code \<Rightarrow> if code \<noteq> 200 then 1 else 0)"

text \<open>The directory of the dashboard: \<open>cert.pem\<close> decides whether there is a certificate.\<close>

definition loadOrCreateCert ::
  "io \<Rightarrow> (string \<Rightarrow> string \<Rightarrow> string + 'c) \<Rightarrow> string + string \<times> string \<Rightarrow> dir \<Rightarrow> (string + 'c) \<times> dir" where
  "loadOrCreateCert X pair gen d =
     (case io_fail X MkCerts of
        Some e \<Rightarrow> (Inl e, d)
      | None \<Rightarrow>
          (case map_of d ''cert.pem'' of
             Some crt \<Rightarrow> ((case map_of d ''key.pem'' of None \<Rightarrow> Inl ''open key.pem: no such file or directory'' | Some k \<Rightarrow> pair crt k), d)
           | None \<Rightarrow>
               (case gen of
                  Inl e \<Rightarrow> (Inl e, d)
                | Inr (crt, key) \<Rightarrow>
                    (case write_file X (WriteCert ''cert.pem'') ''cert.pem'' crt d of
                       (Some e, d1) \<Rightarrow> (Inl e, d1)
                     | (None, d1) \<Rightarrow>
                         (case write_file X (WriteCert ''key.pem'') ''key.pem'' key d1 of
                            (Some e, d2) \<Rightarrow> (Inl e, d2)
                          | (None, d2) \<Rightarrow> (pair crt key, d2))))))"

text \<open>
  \<open>run\<close> up to serving: the error that ends it, and the warning of a failed first publication. The goroutines
  started on the way are the loops of \<open>EngineLoops\<close>; they touch no account and are left out here.
\<close>

definition run_control :: "boot_env \<Rightarrow> boot_db \<Rightarrow> (string \<Rightarrow> string \<Rightarrow> string + 'c) \<Rightarrow> control_config \<Rightarrow> boot_world \<Rightarrow> (string + 'c \<times> string option) \<times> boot_world" where
  "run_control B db pair cfg w0 =
     (case bd_open db of Some e \<Rightarrow> (Inl e, w0) | None \<Rightarrow>
     (case bd_migrate db of Some e \<Rightarrow> (Inl e, w0) | None \<Rightarrow>
     (case SeedRules (bd_seed db) (bt_now B) (tb_rules (wo_tables w0)) of (seeded, rules) \<Rightarrow>
       let w1 = w0\<lparr>wo_tables := (wo_tables w0)\<lparr>tb_rules := rules\<rparr>\<rparr> in
     (case seeded of Inl e \<Rightarrow> (Inl (bt_text B e), w1) | Inr _ \<Rightarrow>
     (case ensureAdmin (bt_hash B) (bd_count db) (bd_create db) (bt_now B) (bt_random B) cfg (wo_users w1) of (adm, users) \<Rightarrow>
       let w2 = w1\<lparr>wo_users := users\<rparr> in
     (case adm of Inl e \<Rightarrow> (Inl (bt_text B e), w2) | Inr _ \<Rightarrow>
     (case bd_ping db of Some e \<Rightarrow> (Inl (''cannot connect to redis: '' @ e), w2) | None \<Rightarrow>
     (case Publish (bt_pub B) (bt_pub_db B) (wo_tables w2) (wo_deployed w2) of (warning, tb, dp) \<Rightarrow>
       let w3 = w2\<lparr>wo_tables := tb, wo_deployed := dp\<rparr> in
     (case loadOrCreateCert (bt_io B) pair (bt_gen B) (wo_adminTLS w3) of (cert, d) \<Rightarrow>
       let w4 = w3\<lparr>wo_adminTLS := d\<rparr> in
     (case cert of Inl e \<Rightarrow> (Inl (''chung chi dashboard: '' @ e), w4) | Inr c \<Rightarrow> (Inr (c, warning), w4)))))))))))"

datatype command = ShowVersion | Healthcheck | ResetPassword string | Serve

datatype 'c outcome_main = Printed | Exited int | RefusedToStart secret_error | FailedToStart string | Serving 'c "string option"

text \<open>The flags are looked at in this order; the secrets are checked only before serving.\<close>

definition select_command :: "bool \<Rightarrow> bool \<Rightarrow> string \<Rightarrow> command" where
  "select_command version health reset =
     (if version then ShowVersion else if health then Healthcheck else if reset \<noteq> [] then ResetPassword reset else Serve)"

definition moswafd ::
  "boot_env \<Rightarrow> boot_db \<Rightarrow> (string \<Rightarrow> string \<Rightarrow> string + 'c) \<Rightarrow> (string \<Rightarrow> string + int) \<Rightarrow> string option \<Rightarrow> bool \<Rightarrow> control_config \<Rightarrow> command \<Rightarrow> boot_world \<Rightarrow>
   'c outcome_main \<times> boot_world" where
  "moswafd B db pair get setpw jwt_first cfg cmd w =
     (case cmd of
        ShowVersion \<Rightarrow> (Printed, w)
      | Healthcheck \<Rightarrow> (Exited (doHealthcheck get (cg_listen cfg)), w)
      | ResetPassword p \<Rightarrow>
          (case doResetPassword (bt_hash B) (bd_open db) setpw (bt_now B) cfg p (wo_users w) of (code, t) \<Rightarrow> (Exited code, w\<lparr>wo_users := t\<rparr>))
      | Serve \<Rightarrow>
          (case Validate_config jwt_first cfg of
             Some e \<Rightarrow> (RefusedToStart e, w)
           | None \<Rightarrow> (case run_control B db pair cfg w of (Inl e, w') \<Rightarrow> (FailedToStart e, w') | (Inr (c, warning), w') \<Rightarrow> (Serving c warning, w'))))"

subsection \<open>The accounts after a start\<close>

lemma ensureAdmin_out:
  assumes "ensureAdmin hash db1 db2 now rnd cfg t = (res, t')"
  shows "urt_rows t \<noteq> [] \<longrightarrow> t' = t"
    and "res = Inr u \<Longrightarrow> urt_rows t = [] \<Longrightarrow> \<exists>h. (\<exists>p. hash p = Inr h \<and> (cg_adminPassword cfg \<noteq> [] \<longrightarrow> p = cg_adminPassword cfg))
      \<and> urt_rows t' = [\<lparr>ur_id = urt_next t, ur_username = cg_adminUser cfg, ur_hash = h, ur_createdAt = now, ur_updatedAt = now\<rparr>]"
  using assms
  by (auto simp: ensureAdmin_def CountUsers_def query_def CreateUser_def exec_plain_def split: option.splits if_splits sum.splits)

lemma run_users:
  assumes "run_control B db pair cfg w = (res, w')"
  shows "wo_users w' = wo_users w \<or> wo_users w' = snd (ensureAdmin (bt_hash B) (bd_count db) (bd_create db) (bt_now B) (bt_random B) cfg (wo_users w))"
    and "res = Inr x \<Longrightarrow> fst (ensureAdmin (bt_hash B) (bd_count db) (bd_create db) (bt_now B) (bt_random B) cfg (wo_users w)) = Inr ()
      \<and> wo_users w' = snd (ensureAdmin (bt_hash B) (bd_count db) (bd_create db) (bt_now B) (bt_random B) cfg (wo_users w))"
  using assms
  by (auto simp: run_control_def Let_def split: option.splits prod.splits sum.splits)


definition demo_boot_env :: boot_env where
  "demo_boot_env = \<lparr>bt_hash = (\<lambda>p. Inr (''h'' @ p)), bt_now = 0, bt_random = None, bt_text = (\<lambda>e. ''error''), bt_pub = demo_pub_env,
     bt_pub_db = demo_pub_db, bt_io = demo_io, bt_gen = Inr (''C'', ''K'')\<rparr>"

definition demo_boot_db :: boot_db where
  "demo_boot_db = \<lparr>bd_open = None, bd_migrate = None, bd_seed = (\<lambda>k. None), bd_count = None, bd_create = None, bd_ping = None\<rparr>"

definition demo_config :: control_config where
  "demo_config = (Load (\<lambda>k. if k = ''MOSWAF_ADMIN_PASSWORD'' then ''pass'' else ''0123456789abcdef'') None None)"


subsection \<open>A half-written certificate\<close>

text \<open>
  When the key cannot be written after the certificate was, the certificate stays: every later start
  finds it, does not make a new pair, and fails for want of the key.
\<close>

lemma half_certificate_is_permanent:
  assumes "io_fail X MkCerts = None" "map_of d ''cert.pem'' = None" "map_of d ''key.pem'' = None"
    and "io_fail X (WriteCert ''cert.pem'') = None" "io_fail X (WriteCert ''key.pem'') = Some e" "io_left X (WriteCert ''key.pem'') = None"
    and "loadOrCreateCert X pair (Inr (crt, key)) d = (r, d')" "io_fail Y MkCerts = None"
  shows "r = Inl e \<and> loadOrCreateCert Y pair gen d' = (Inl ''open key.pem: no such file or directory'', d')"
  using assms by (auto simp: loadOrCreateCert_def write_file_def)

text \<open>The health check of a control plane listening on an IPv6 address asks for a URL without the brackets.\<close>

lemma health_url_ipv6: "health_url ''[::1]:9443'' = ''https://::1:9443/api/health'' \<and> health_url '':9443'' = ''https://127.0.0.1:9443/api/health''"
  by code_simp

end
