(* ===== verification/ApiServer.thy ===== *)
theory ApiServer
  imports ApiAuth ApiDataplane EngineGeoSets EngineCrawlers
begin

section \<open>The API: routing and the middleware\<close>

text \<open>
  \<open>Handler\<close> of \<open>control/internal/api/server.go\<close>: the three nested multiplexers as one function from the
  method and the escaped path to what answers, with the routes in the order of the source. A multiplexer
  redirects a path that is not clean, decodes each segment (\<open>un\<close>) and lets the most specific pattern win;
  no two routes here match the same request, which is a lemma, so the order does not matter. Of the
  middleware \<open>recoverer\<close> is modelled, and the headers \<open>secureHeaders\<close> adds; logging is left out. With them the
  handlers of \<open>geo.go\<close>, of the health check and of the system status.
\<close>

datatype seg = Lit string | Wild

record route =
  rt_method :: string
  rt_path :: "seg list"
  rt_handler :: string

definition mk_route :: "string \<Rightarrow> seg list \<Rightarrow> string \<Rightarrow> route" where
  "mk_route m p h = \<lparr>rt_method = m, rt_path = p, rt_handler = h\<rparr>"

definition auth_routes :: "route list" where
  "auth_routes =
    [mk_route ''GET'' [Lit ''api'', Lit ''auth'', Lit ''me''] ''handleMe'',
     mk_route ''POST'' [Lit ''api'', Lit ''auth'', Lit ''password''] ''handleChangePassword'',
     mk_route ''GET'' [Lit ''api'', Lit ''sites''] ''handleListSites'',
     mk_route ''POST'' [Lit ''api'', Lit ''sites''] ''handleCreateSite'',
     mk_route ''GET'' [Lit ''api'', Lit ''sites'', Wild] ''handleGetSite'',
     mk_route ''PUT'' [Lit ''api'', Lit ''sites'', Wild] ''handleUpdateSite'',
     mk_route ''DELETE'' [Lit ''api'', Lit ''sites'', Wild] ''handleDeleteSite'',
     mk_route ''POST'' [Lit ''api'', Lit ''sites'', Wild, Lit ''certificate''] ''handleIssueCertificate'',
     mk_route ''GET'' [Lit ''api'', Lit ''sites'', Wild, Lit ''users''] ''handleListSiteUsers'',
     mk_route ''POST'' [Lit ''api'', Lit ''sites'', Wild, Lit ''users''] ''handleCreateSiteUser'',
     mk_route ''PUT'' [Lit ''api'', Lit ''sites'', Wild, Lit ''users'', Wild, Lit ''password''] ''handleSetSiteUserPassword'',
     mk_route ''POST'' [Lit ''api'', Lit ''sites'', Wild, Lit ''users'', Wild, Lit ''revoke''] ''handleRevokeSiteUser'',
     mk_route ''DELETE'' [Lit ''api'', Lit ''sites'', Wild, Lit ''users'', Wild] ''handleDeleteSiteUser'',
     mk_route ''GET'' [Lit ''api'', Lit ''rules''] ''handleListRules'',
     mk_route ''POST'' [Lit ''api'', Lit ''rules''] ''handleCreateRule'',
     mk_route ''PUT'' [Lit ''api'', Lit ''rules'', Wild] ''handleUpdateRule'',
     mk_route ''POST'' [Lit ''api'', Lit ''rules'', Wild, Lit ''toggle''] ''handleToggleRule'',
     mk_route ''DELETE'' [Lit ''api'', Lit ''rules'', Wild] ''handleDeleteRule'',
     mk_route ''GET'' [Lit ''api'', Lit ''access-rules''] ''handleListAccessRules'',
     mk_route ''POST'' [Lit ''api'', Lit ''access-rules''] ''handleCreateAccessRule'',
     mk_route ''PUT'' [Lit ''api'', Lit ''access-rules'', Wild] ''handleUpdateAccessRule'',
     mk_route ''DELETE'' [Lit ''api'', Lit ''access-rules'', Wild] ''handleDeleteAccessRule'',
     mk_route ''POST'' [Lit ''api'', Lit ''access-rules'', Lit ''reorder''] ''handleReorderAccessRules'',
     mk_route ''POST'' [Lit ''api'', Lit ''access-rules'', Lit ''test''] ''handleTestAccessRules'',
     mk_route ''GET'' [Lit ''api'', Lit ''ips''] ''handleListIPs'',
     mk_route ''POST'' [Lit ''api'', Lit ''ips''] ''handleAddIP'',
     mk_route ''DELETE'' [Lit ''api'', Lit ''ips'', Wild] ''handleDeleteIP'',
     mk_route ''GET'' [Lit ''api'', Lit ''bans''] ''handleListBans'',
     mk_route ''DELETE'' [Lit ''api'', Lit ''bans'', Wild] ''handleUnban'',
     mk_route ''GET'' [Lit ''api'', Lit ''events''] ''handleListEvents'',
     mk_route ''GET'' [Lit ''api'', Lit ''geo'', Lit ''countries''] ''handleListCountries'',
     mk_route ''GET'' [Lit ''api'', Lit ''stats'', Lit ''overview''] ''handleOverview'',
     mk_route ''GET'' [Lit ''api'', Lit ''stats'', Lit ''timeseries''] ''handleTimeseries'',
     mk_route ''GET'' [Lit ''api'', Lit ''settings''] ''handleGetSettings'',
     mk_route ''PUT'' [Lit ''api'', Lit ''settings''] ''handleUpdateSettings'',
     mk_route ''POST'' [Lit ''api'', Lit ''settings'', Lit ''under-attack''] ''handleUnderAttack'',
     mk_route ''POST'' [Lit ''api'', Lit ''system'', Lit ''publish''] ''handlePublish'',
     mk_route ''GET'' [Lit ''api'', Lit ''system'', Lit ''status''] ''handleSystemStatus'']"

fun seg_match :: "seg \<Rightarrow> string \<Rightarrow> bool" where
  "seg_match (Lit s) x = (x = s)"
| "seg_match Wild x = (x \<noteq> [])"

definition path_match :: "seg list \<Rightarrow> string list \<Rightarrow> bool" where
  "path_match p segs = list_all2 seg_match p segs"

definition method_match :: "string \<Rightarrow> string \<Rightarrow> bool" where
  "method_match rm m \<longleftrightarrow> m = rm \<or> rm = ''GET'' \<and> m = ''HEAD''"

definition route_match :: "string \<Rightarrow> string list \<Rightarrow> route \<Rightarrow> bool" where
  "route_match m segs r \<longleftrightarrow> method_match (rt_method r) m \<and> path_match (rt_path r) segs"

datatype answerer = Route string | MethodNotAllowed | NotFound

definition authed :: "string \<Rightarrow> string list \<Rightarrow> answerer" where
  "authed m segs =
     (case find (route_match m segs) auth_routes of
        Some r \<Rightarrow> Route (rt_handler r)
      | None \<Rightarrow> if list_ex (\<lambda>r. path_match (rt_path r) segs) auth_routes then MethodNotAllowed else NotFound)"

datatype target = Redirect | Spa | Login | Health | Guarded answerer

definition is_clean :: "string \<Rightarrow> bool" where
  "is_clean path \<longleftrightarrow> has_prefix ''/'' path
     \<and> (let segs = split_on CHR ''/'' (drop 1 path)
        in list_all (\<lambda>s. s \<noteq> ''.'' \<and> s \<noteq> ''..'') segs \<and> list_all (\<lambda>s. s \<noteq> []) (butlast segs))"

definition api_mux :: "string \<Rightarrow> string list \<Rightarrow> target" where
  "api_mux m segs =
     (if m = ''POST'' \<and> segs = [''api'', ''auth'', ''login''] then Login
      else if method_match ''GET'' m \<and> segs = [''api'', ''health''] then Health
      else Guarded (authed m segs))"

definition dispatch :: "(string \<Rightarrow> string) \<Rightarrow> string \<Rightarrow> string \<Rightarrow> target" where
  "dispatch un m path =
     (if m \<noteq> ''CONNECT'' \<and> \<not> is_clean path then Redirect
      else let segs = map un (split_on CHR ''/'' (drop 1 path)) in
        if segs = [''api''] then Redirect
        else if hd segs = ''api'' then api_mux m segs
        else Spa)"

subsection \<open>Answering a request\<close>

text \<open>A handler that panics answers nothing; \<open>None\<close> is a panic, and what it had done to the state stays.\<close>

definition recoverer :: "'a reply option \<times> 's \<Rightarrow> 'a reply \<times> 's" where
  "recoverer res = (case res of (None, s) \<Rightarrow> (writeErr 500 ''internal error'', s) | (Some r, s) \<Rightarrow> (r, s))"

definition secureHeaders :: "(string \<times> string) list" where
  "secureHeaders =
     [(''X-Content-Type-Options'', ''nosniff''), (''X-Frame-Options'', ''DENY''), (''Referrer-Policy'', ''no-referrer''),
      (''Content-Security-Policy'', ''default-src 'self'; img-src 'self' data:; style-src 'self' 'unsafe-inline'; connect-src '' @ [CHR 0x27] @ ''self'' @ [CHR 0x27]),
      (''Strict-Transport-Security'', ''max-age=31536000'')]"

text \<open>
  The handlers are arguments: \<open>login\<close> and \<open>health\<close> for the public routes, \<open>spa\<close> for the dashboard, \<open>run\<close> for a
  route of the authenticated multiplexer; \<open>auth\<close> is what \<open>requireAuth\<close> decides from the state.
\<close>

record ('a, 's) handlers =
  hd_login :: "'s \<Rightarrow> 'a reply option \<times> 's"
  hd_health :: "'s \<Rightarrow> 'a reply option \<times> 's"
  hd_spa :: "'s \<Rightarrow> 'a reply option \<times> 's"
  hd_run :: "string \<Rightarrow> user \<Rightarrow> 's \<Rightarrow> 'a reply option \<times> 's"

definition answer :: "('s \<Rightarrow> 'a reply + user) \<Rightarrow> ('a, 's) handlers \<Rightarrow> target \<Rightarrow> 's \<Rightarrow> 'a reply option \<times> 's" where
  "answer auth H t s =
     (case t of
        Redirect \<Rightarrow> (Some (writeErr 301 []), s)
      | Spa \<Rightarrow> hd_spa H s
      | Login \<Rightarrow> hd_login H s
      | Health \<Rightarrow> hd_health H s
      | Guarded a \<Rightarrow>
          (case auth s of
             Inl r \<Rightarrow> (Some r, s)
           | Inr u \<Rightarrow>
               (case a of
                  Route h \<Rightarrow> hd_run H h u s
                | MethodNotAllowed \<Rightarrow> (Some (writeErr 405 ''Method Not Allowed''), s)
                | NotFound \<Rightarrow> (Some (writeErr 404 ''404 page not found''), s))))"

definition Handler :: "(string \<Rightarrow> string) \<Rightarrow> ('s \<Rightarrow> 'a reply + user) \<Rightarrow> ('a, 's) handlers \<Rightarrow> string \<Rightarrow> string \<Rightarrow> 's \<Rightarrow> 'a reply \<times> 's" where
  "Handler un auth H m path s = recoverer (answer auth H (dispatch un m path) s)"

subsection \<open>The remaining handlers\<close>

datatype health_out = HealthOk | Degraded string

definition handleHealth :: "string option \<Rightarrow> health_out reply" where
  "handleHealth ping = (case ping of Some e \<Rightarrow> writeJSON 503 (Degraded e) | None \<Rightarrow> writeJSON 200 HealthOk)"

record countries_out =
  co_ready :: bool
  co_countries :: "country_count list"
  co_dataset :: geo_status

definition zero_status :: geo_status where
  "zero_status = \<lparr>gt_ranges = 0, gt_month = [], gt_loadedAt = None, gt_lastError = []\<rparr>"

definition handleListCountries :: "(string \<Rightarrow> string) \<Rightarrow> geo_ip option \<Rightarrow> countries_out reply" where
  "handleListCountries U geo =
     (let countries = (case geo of None \<Rightarrow> [] | Some g \<Rightarrow> Countries U g);
          status = (case geo of None \<Rightarrow> zero_status | Some g \<Rightarrow> geo_status_of g)
      in writeJSON 200 \<lparr>co_ready = (length countries > 0), co_countries = countries, co_dataset = status\<rparr>)"

datatype dataplane_health = Unknown | DpBody "(string \<times> json) list" | DpOk | Unreachable string

record system_out =
  sy_version :: int
  sy_database :: string
  sy_redis :: string
  sy_dataplane :: dataplane_health
  sy_queue :: "nat option"
  sy_crawlers :: "source_status list option"
  sy_geoip :: "geo_status option"

text \<open>\<open>dp\<close> asks the data plane: the body of its health page, or the error of the request.\<close>

definition handleSystemStatus ::
  "(string \<Rightarrow> json option) \<Rightarrow> (string \<Rightarrow> string + string) \<Rightarrow> string \<Rightarrow> int \<Rightarrow> string option \<Rightarrow> string option \<Rightarrow> string + nat \<Rightarrow>
   crawlers option \<Rightarrow> geo_ip option \<Rightarrow> system_out reply" where
  "handleSystemStatus parse dp sync version db rdb queue crawl geo =
     writeJSON 200
       \<lparr>sy_version = version,
        sy_database = (case db of None \<Rightarrow> ''ok'' | Some e \<Rightarrow> ''error: '' @ e),
        sy_redis = (case rdb of None \<Rightarrow> ''ok'' | Some e \<Rightarrow> ''error: '' @ e),
        sy_dataplane = (case dp (replace_first ''/sync'' ''/healthz'' sync) of
            Inl e \<Rightarrow> Unreachable e
          | Inr body \<Rightarrow> (case Option.bind (parse body) as_struct of Some kvs \<Rightarrow> DpBody kvs | None \<Rightarrow> DpOk)),
        sy_queue = (case queue of Inl e \<Rightarrow> None | Inr n \<Rightarrow> Some n),
        sy_crawlers = (let st = (case crawl of None \<Rightarrow> [] | Some c \<Rightarrow> Status_crawlers c) in if st = [] then None else Some st),
        sy_geoip = map_option geo_status_of geo\<rparr>"

subsection \<open>No request matches two routes\<close>

fun seg_meets :: "seg \<Rightarrow> seg \<Rightarrow> bool" where
  "seg_meets (Lit s) (Lit t) = (s = t)"
| "seg_meets _ _ = True"

definition routes_meet :: "route \<Rightarrow> route \<Rightarrow> bool" where
  "routes_meet r q \<longleftrightarrow> rt_method r = rt_method q \<and> list_all2 seg_meets (rt_path r) (rt_path q)"

fun all_apart :: "route list \<Rightarrow> bool" where
  "all_apart [] = True"
| "all_apart (r # rs) = (list_all (\<lambda>q. \<not> routes_meet r q) rs \<and> all_apart rs)"

lemma segs_meet: "list_all2 seg_match p segs \<Longrightarrow> list_all2 seg_match q segs \<Longrightarrow> list_all2 seg_meets p q"
proof (induction p arbitrary: q segs)
  case (Cons a p)
  then obtain x xs b q' where "segs = x # xs" "q = b # q'" "seg_match a x" "seg_match b x"
    "list_all2 seg_match p xs" "list_all2 seg_match q' xs"
    by (auto simp: list_all2_Cons1 list_all2_Cons2)
  then show ?case using Cons.IH by (cases a; cases b) auto
qed simp

lemma routes_apart: "all_apart auth_routes"
  by code_simp

lemma all_apart_unique: "all_apart rs \<Longrightarrow> r \<in> set rs \<Longrightarrow> q \<in> set rs \<Longrightarrow> routes_meet r q \<Longrightarrow> r = q"
proof (induction rs)
  case (Cons a rs)
  have sym: "routes_meet r q \<longleftrightarrow> routes_meet q r" for r q
    by (auto simp: routes_meet_def list_all2_conv_all_nth) (metis seg_meets.elims(1) seg_meets.simps)+
  show ?case using Cons sym by (auto simp: list_all_iff)
qed simp

lemma route_unique:
  assumes "r \<in> set auth_routes" "q \<in> set auth_routes" "route_match m segs r" "route_match m segs q"
  shows "r = q"
proof (rule all_apart_unique [OF routes_apart assms(1,2)])
  have "rt_method r \<in> {''GET'', ''POST'', ''PUT'', ''DELETE''}" if "r \<in> set auth_routes" for r
    using that by (auto simp: auth_routes_def mk_route_def)
  then have "rt_method r = rt_method q" using assms by (fastforce simp: route_match_def method_match_def)
  then show "routes_meet r q" using assms(3,4) segs_meet by (auto simp: routes_meet_def route_match_def path_match_def)
qed

subsection \<open>What a request can reach\<close>

lemma find_Some_in: "find P xs = Some x \<Longrightarrow> x \<in> set xs \<and> P x"
  by (induction xs) (auto split: if_splits)

lemma authed_route:
  assumes "authed m segs = Route h"
  shows "\<exists>r. r \<in> set auth_routes \<and> route_match m segs r \<and> rt_handler r = h"
  using assms find_Some_in by (fastforce simp: authed_def split: option.splits if_splits)

lemma auth_refusal: "requireAuth jwt trunc db now h us = Inl r \<Longrightarrow> rp_code r = 401"
  by (auto simp: requireAuth_def split: if_splits option.splits sum.splits)

lemma authed_cases:
  "r \<in> set auth_routes \<Longrightarrow> route_match m segs r \<Longrightarrow> authed m segs = Route (rt_handler r)"
  "\<forall>r \<in> set auth_routes. \<not> route_match m segs r \<Longrightarrow> authed m segs \<in> {MethodNotAllowed, NotFound}"
proof -
  show "authed m segs = Route (rt_handler r)" if r: "r \<in> set auth_routes" "route_match m segs r"
  proof (cases "find (route_match m segs) auth_routes")
    case None
    then show ?thesis using r by (auto simp: find_None_iff)
  next
    case (Some q)
    then have "q = r" using find_Some_in [OF Some] route_unique [OF _ r(1) _ r(2)] by blast
    then show ?thesis using Some by (simp add: authed_def)
  qed
  show "authed m segs \<in> {MethodNotAllowed, NotFound}" if "\<forall>r \<in> set auth_routes. \<not> route_match m segs r"
  proof -
    have "find (route_match m segs) auth_routes = None" using that by (auto simp: find_None_iff)
    then show ?thesis by (simp add: authed_def)
  qed
qed

text \<open>
  C21 what a request reaches is decided by its method and its decoded path alone, and nothing under /api but
  two routes answers without a valid session. A path that is not clean, and /api itself, is redirected; outside
  /api the dashboard files answer; exactly POST /api/auth/login reaches the sign-in and exactly GET and HEAD of
  /api/health the health check. Every other request, read or write, is refused with 401 and changes nothing
  when \<open>requireAuth\<close> does not accept its bearer token; otherwise the handler of the one route that matches it
  runs, for the account of the token, and a request that matches no route gets 404 or 405 and changes nothing.
\<close>

theorem api_guarded:
  fixes H :: "('a, 's) handlers"
  shows "let segs = map un (split_on CHR ''/'' (drop 1 path)); auth = \<lambda>s. requireAuth jwt trunc db now h (users s);
      rep = Handler un auth H m path s
    in if m \<noteq> ''CONNECT'' \<and> \<not> is_clean path \<or> segs = [''api''] then snd rep = s \<and> rp_code (fst rep) = 301
       else if hd segs \<noteq> ''api'' then rep = recoverer (hd_spa H s)
       else if m = ''POST'' \<and> segs = [''api'', ''auth'', ''login''] then rep = recoverer (hd_login H s)
       else if m \<in> {''GET'', ''HEAD''} \<and> segs = [''api'', ''health''] then rep = recoverer (hd_health H s)
       else (\<forall>r. auth s = Inl r \<longrightarrow> rep = (r, s) \<and> rp_code r = 401)
          \<and> (\<forall>u. auth s = Inr u \<longrightarrow>
               (\<forall>r \<in> set auth_routes. route_match m segs r \<longrightarrow> rep = recoverer (hd_run H (rt_handler r) u s))
               \<and> ((\<forall>r \<in> set auth_routes. \<not> route_match m segs r) \<longrightarrow> snd rep = s \<and> rp_code (fst rep) \<in> {404, 405}))"
proof -
  let ?segs = "map un (split_on CHR ''/'' (drop 1 path))" and ?auth = "\<lambda>s. requireAuth jwt trunc db now h (users s) :: 'a reply + user"
  consider (moved) "m \<noteq> ''CONNECT'' \<and> \<not> is_clean path \<or> ?segs = [''api'']"
    | (served) "m = ''CONNECT'' \<or> is_clean path" "?segs \<noteq> [''api'']" by blast
  then show ?thesis
  proof cases
    case moved
    then have "dispatch un m path = Redirect" by (auto simp: dispatch_def)
    then show ?thesis using moved by (simp add: Let_def Handler_def answer_def recoverer_def)
  next
    case served
    then have d: "dispatch un m path = (if hd ?segs = ''api'' then api_mux m ?segs else Spa)"
      by (auto simp: dispatch_def Let_def)
    have g: "recoverer (answer ?auth H (Guarded (authed m ?segs)) s) = rep \<Longrightarrow>
      (\<forall>r. ?auth s = Inl r \<longrightarrow> rep = (r, s) \<and> rp_code r = 401)
          \<and> (\<forall>u. ?auth s = Inr u \<longrightarrow>
               (\<forall>r \<in> set auth_routes. route_match m ?segs r \<longrightarrow> rep = recoverer (hd_run H (rt_handler r) u s))
               \<and> ((\<forall>r \<in> set auth_routes. \<not> route_match m ?segs r) \<longrightarrow> snd rep = s \<and> rp_code (fst rep) \<in> {404, 405}))" for rep
      using auth_refusal [of jwt trunc db now h "users s"] authed_cases(1) [of _ m ?segs] authed_cases(2) [of m ?segs]
      by (auto simp: answer_def recoverer_def)
    show ?thesis using served d g [OF refl]
      by (auto simp: Let_def Handler_def api_mux_def method_match_def answer_def recoverer_def)
  qed
qed

definition any_token :: "int \<Rightarrow> string \<Rightarrow> (claims \<times> bool) option" where
  "any_token now raw = Some ([(''sub'', JStr ''1''), (''usr'', JStr ''admin''), (''iat'', JNum ''9'')], True)"

definition one_admin :: user_table where
  "one_admin = \<lparr>urt_next = 2, urt_rows = [\<lparr>ur_id = 1, ur_username = ''admin'', ur_hash = ''h'', ur_createdAt = 0, ur_updatedAt = 0\<rparr>]\<rparr>"

definition demo_handlers :: "(unit, bool) handlers" where
  "demo_handlers = \<lparr>hd_login = (\<lambda>s. (None, s)), hd_health = (\<lambda>s. (None, s)), hd_spa = (\<lambda>s. (None, s)),
     hd_run = (\<lambda>h u s. (Some (writeJSON 200 ()), h = ''handleDeleteSite''))\<rparr>"

lemma api_guarded_witness:
  "Handler (\<lambda>x. x) (\<lambda>s. requireAuth any_token (\<lambda>l. 9) None 0 ''Bearer t'' one_admin) demo_handlers ''DELETE'' ''/api/sites/abc'' False
      = (writeJSON 200 (), True)
   \<and> snd (Handler (\<lambda>x. x) (\<lambda>s. requireAuth any_token (\<lambda>l. 9) None 0 [] one_admin) demo_handlers ''GET'' ''/api/sites/abc'' False) = False"
proof -
  have segs: "split_on CHR ''/'' (drop 1 ''/api/sites/abc'') = [''api'', ''sites'', ''abc'']" by code_simp
  have clean: "is_clean ''/api/sites/abc''" by code_simp
  let ?r = "mk_route ''DELETE'' [Lit ''api'', Lit ''sites'', Wild] ''handleDeleteSite''"
  have r: "?r \<in> set auth_routes" "route_match ''DELETE'' [''api'', ''sites'', ''abc''] ?r"
    by (simp add: auth_routes_def) code_simp
  have "\<not> isl (requireAuth any_token (\<lambda>l. 9) None 0 ''Bearer t'' one_admin :: unit reply + user)" by code_simp
  then obtain u where u: "requireAuth any_token (\<lambda>l. 9) None 0 ''Bearer t'' one_admin = (Inr u :: unit reply + user)"
    by (cases "requireAuth any_token (\<lambda>l. 9) None 0 ''Bearer t'' one_admin :: unit reply + user") auto
  have "isl (requireAuth any_token (\<lambda>l. 9) None 0 [] one_admin :: unit reply + user)" by code_simp
  then obtain e where e: "requireAuth any_token (\<lambda>l. 9) None 0 [] one_admin = (Inl e :: unit reply + user)" by (auto simp: isl_def)
  show ?thesis
    using api_guarded [of "\<lambda>x. x" "''/api/sites/abc''" any_token "\<lambda>l. 9" None 0 "''Bearer t''" "\<lambda>s. one_admin" demo_handlers "''DELETE''" False]
      api_guarded [of "\<lambda>x. x" "''/api/sites/abc''" any_token "\<lambda>l. 9" None 0 "[]" "\<lambda>s. one_admin" demo_handlers "''GET''" False] r
    by (simp add: segs clean u e Let_def list.map_ident) (simp add: demo_handlers_def recoverer_def mk_route_def)
qed

end
