(* ===== verification/StoreSchema.thy ===== *)
theory StoreSchema
  imports StoreSettings
begin

section \<open>The store: connection and schema\<close>

text \<open>
  \<open>control/internal/store/store.go\<close>: \<open>Open\<close>, which waits for Postgres, and \<open>Migrate\<close>, which sends the text
  \<open>schema\<close> at every start. The text is a list of statements here, in its order and with its columns; the
  interpreter is what Postgres documents of the four kinds of statement. They run as one transaction, so an
  error undoes all of them. A row is a map from columns to the text of their values; the rows of
  \<open>settings\<close> are kept as JSON values, because the last statement looks into them.

  The lemmas say when the text runs through, what it leaves, and that nothing stored is lost; the
  properties state that for any earlier installation, and that every column the statements of
  \<open>control/internal/store\<close> name is there afterwards.
\<close>

subsection \<open>Waiting for the database\<close>

text \<open>The answers of up to 30 pings, \<open>None\<close> for one that succeeded; the seconds slept are counted.\<close>

fun open_loop :: "nat \<Rightarrow> (nat \<Rightarrow> string option) \<Rightarrow> string \<Rightarrow> nat \<Rightarrow> nat \<Rightarrow> (string + unit) \<times> nat" where
  "open_loop 0 ping last_err i slept = (Inl (''cannot connect to postgres: '' @ last_err), slept)"
| "open_loop (Suc n) ping last_err i slept =
     (case ping i of None \<Rightarrow> (Inr (), slept) | Some e \<Rightarrow> open_loop n ping e (i + 1) (slept + 1))"

definition Open :: "string option \<Rightarrow> string option \<Rightarrow> (nat \<Rightarrow> string option) \<Rightarrow> (string + unit) \<times> nat" where
  "Open parse_err pool_err ping =
     (case parse_err of
        Some e \<Rightarrow> (Inl (''invalid dsn: '' @ e), 0)
      | None \<Rightarrow>
          (case pool_err of
             Some e \<Rightarrow> (Inl (''cannot create the pool: '' @ e), 0)
           | None \<Rightarrow> open_loop 30 ping [] 0 0))"

subsection \<open>The statements\<close>

record column =
  co_name :: string
  co_type :: string
  co_notNull :: bool
  co_default :: "string option"

definition mk_column :: "string \<Rightarrow> string \<Rightarrow> bool \<Rightarrow> string option \<Rightarrow> column" where
  "mk_column n t nn d = \<lparr>co_name = n, co_type = t, co_notNull = nn, co_default = d\<rparr>"

definition quoted :: "string \<Rightarrow> string" where
  "quoted s = [CHR 0x27] @ s @ [CHR 0x27]"

text \<open>A table has columns, the groups that are unique and the tables it refers to.\<close>

datatype ddl =
    CreateTable string "column list" "string list list" "string list"
  | AddColumn string column
  | CreateIndex string string "string list"
  | MoveRates

record pg_table =
  pt_columns :: "column list"
  pt_unique :: "string list list"
  pt_rows :: "(string \<rightharpoonup> string) list"

record database =
  sd_tables :: "(string \<times> pg_table) list"
  sd_indexes :: "(string \<times> string \<times> string list) list"
  sd_settings :: "settings_row list"

text \<open>The text of \<open>schema\<close>.\<close>

definition schema :: "ddl list" where
  "schema =
    [CreateTable ''users''
       [mk_column ''id'' ''BIGSERIAL'' True (Some ''nextval''),
        mk_column ''username'' ''TEXT'' True None,
        mk_column ''password_hash'' ''TEXT'' True None,
        mk_column ''created_at'' ''TIMESTAMPTZ'' True (Some ''now()''),
        mk_column ''updated_at'' ''TIMESTAMPTZ'' True (Some ''now()'')]
       [[''id''], [''username'']] [],
     CreateTable ''sites''
       [mk_column ''id'' ''TEXT'' True None,
        mk_column ''name'' ''TEXT'' True None,
        mk_column ''domains'' ''JSONB'' True (Some (quoted ''[]'')),
        mk_column ''upstream_scheme'' ''TEXT'' True (Some (quoted ''http'')),
        mk_column ''upstream_host'' ''TEXT'' True None,
        mk_column ''upstream_port'' ''INT'' True (Some ''80''),
        mk_column ''mode'' ''TEXT'' True (Some (quoted ''protect'')),
        mk_column ''challenge'' ''TEXT'' True (Some (quoted ''auto'')),
        mk_column ''rate_rps'' ''INT'' True (Some ''0''),
        mk_column ''rate_burst'' ''INT'' True (Some ''0''),
        mk_column ''tls_cert'' ''TEXT'' True (Some (quoted [])),
        mk_column ''tls_key'' ''TEXT'' True (Some (quoted [])),
        mk_column ''force_https'' ''BOOLEAN'' True (Some ''false''),
        mk_column ''enabled'' ''BOOLEAN'' True (Some ''true''),
        mk_column ''rules_off'' ''JSONB'' True (Some (quoted ''[]'')),
        mk_column ''created_at'' ''TIMESTAMPTZ'' True (Some ''now()''),
        mk_column ''updated_at'' ''TIMESTAMPTZ'' True (Some ''now()'')]
       [[''id'']] [],
     CreateTable ''rules''
       [mk_column ''id'' ''TEXT'' True None,
        mk_column ''name'' ''TEXT'' True None,
        mk_column ''category'' ''TEXT'' True (Some (quoted ''custom'')),
        mk_column ''target'' ''TEXT'' True (Some (quoted ''any'')),
        mk_column ''pattern'' ''TEXT'' True None,
        mk_column ''action'' ''TEXT'' True (Some (quoted ''deny'')),
        mk_column ''severity'' ''TEXT'' True (Some (quoted ''medium'')),
        mk_column ''enabled'' ''BOOLEAN'' True (Some ''true''),
        mk_column ''builtin'' ''BOOLEAN'' True (Some ''false''),
        mk_column ''created_at'' ''TIMESTAMPTZ'' True (Some ''now()'')]
       [[''id'']] [],
     CreateTable ''ip_entries''
       [mk_column ''id'' ''BIGSERIAL'' True (Some ''nextval''),
        mk_column ''cidr'' ''TEXT'' True None,
        mk_column ''kind'' ''TEXT'' True None,
        mk_column ''reason'' ''TEXT'' True (Some (quoted [])),
        mk_column ''expires_at'' ''TIMESTAMPTZ'' False None,
        mk_column ''created_at'' ''TIMESTAMPTZ'' True (Some ''now()'')]
       [[''id''], [''cidr'', ''kind'']] [],
     CreateTable ''events''
       [mk_column ''id'' ''BIGSERIAL'' True (Some ''nextval''),
        mk_column ''ts'' ''TIMESTAMPTZ'' True None,
        mk_column ''ray'' ''TEXT'' True (Some (quoted [])),
        mk_column ''site'' ''TEXT'' True (Some (quoted [])),
        mk_column ''ip'' ''TEXT'' True (Some (quoted [])),
        mk_column ''method'' ''TEXT'' True (Some (quoted [])),
        mk_column ''host'' ''TEXT'' True (Some (quoted [])),
        mk_column ''uri'' ''TEXT'' True (Some (quoted [])),
        mk_column ''ua'' ''TEXT'' True (Some (quoted [])),
        mk_column ''referer'' ''TEXT'' True (Some (quoted [])),
        mk_column ''action'' ''TEXT'' True (Some (quoted [])),
        mk_column ''reason'' ''TEXT'' True (Some (quoted [])),
        mk_column ''rule_id'' ''TEXT'' True (Some (quoted [])),
        mk_column ''rule_name'' ''TEXT'' True (Some (quoted [])),
        mk_column ''severity'' ''TEXT'' True (Some (quoted [])),
        mk_column ''status'' ''INT'' True (Some ''0''),
        mk_column ''rt'' ''DOUBLE PRECISION'' True (Some ''0'')]
       [[''id'']] [],
     CreateIndex ''events_ts_idx'' ''events'' [''ts''],
     CreateIndex ''events_ip_idx'' ''events'' [''ip''],
     CreateIndex ''events_site_idx'' ''events'' [''site''],
     CreateIndex ''events_action_idx'' ''events'' [''action''],
     CreateTable ''stats_minute''
       [mk_column ''minute'' ''TIMESTAMPTZ'' True None,
        mk_column ''total'' ''BIGINT'' True (Some ''0''),
        mk_column ''blocked'' ''BIGINT'' True (Some ''0''),
        mk_column ''challenged'' ''BIGINT'' True (Some ''0''),
        mk_column ''monitored'' ''BIGINT'' True (Some ''0'')]
       [[''minute'']] [],
     CreateTable ''settings''
       [mk_column ''key'' ''TEXT'' True None,
        mk_column ''value'' ''JSONB'' True None]
       [[''key'']] [],
     AddColumn ''sites'' (mk_column ''acme_enabled'' ''BOOLEAN'' True (Some ''false'')),
     AddColumn ''sites'' (mk_column ''acme_email'' ''TEXT'' True (Some (quoted []))),
     AddColumn ''sites'' (mk_column ''cert_expires_at'' ''TIMESTAMPTZ'' False None),
     AddColumn ''sites'' (mk_column ''acme_last_error'' ''TEXT'' True (Some (quoted []))),
     AddColumn ''sites'' (mk_column ''acme_last_try'' ''TIMESTAMPTZ'' False None),
     AddColumn ''sites'' (mk_column ''flood_rps'' ''INT'' True (Some ''0'')),
     AddColumn ''stats_minute'' (mk_column ''errors_4xx'' ''BIGINT'' True (Some ''0'')),
     AddColumn ''stats_minute'' (mk_column ''blocked_4xx'' ''BIGINT'' True (Some ''0'')),
     AddColumn ''stats_minute'' (mk_column ''errors_5xx'' ''BIGINT'' True (Some ''0'')),
     AddColumn ''stats_minute'' (mk_column ''page_views'' ''BIGINT'' True (Some ''0'')),
     AddColumn ''events'' (mk_column ''country'' ''CHAR(2)'' True (Some (quoted []))),
     CreateTable ''site_users''
       [mk_column ''id'' ''BIGSERIAL'' True (Some ''nextval''),
        mk_column ''site_id'' ''TEXT'' True None,
        mk_column ''username'' ''TEXT'' True None,
        mk_column ''password_hash'' ''TEXT'' True None,
        mk_column ''generation'' ''BIGINT'' True (Some ''1''),
        mk_column ''created_at'' ''TIMESTAMPTZ'' True (Some ''now()'')]
       [[''id''], [''site_id'', ''username'']] [''sites''],
     CreateIndex ''site_users_site_idx'' ''site_users'' [''site_id''],
     AddColumn ''sites'' (mk_column ''auth_enabled'' ''BOOLEAN'' True (Some ''false'')),
     AddColumn ''sites'' (mk_column ''auth_paths'' ''JSONB'' True (Some (quoted (''['' @ [CHR 0x22] @ ''/'' @ [CHR 0x22] @ '']'')))),
     AddColumn ''sites'' (mk_column ''geo_mode'' ''TEXT'' True (Some (quoted []))),
     AddColumn ''sites'' (mk_column ''geo_countries'' ''JSONB'' True (Some (quoted ''[]''))),
     CreateTable ''access_rules''
       [mk_column ''id'' ''TEXT'' True None,
        mk_column ''name'' ''TEXT'' True None,
        mk_column ''action'' ''TEXT'' True None,
        mk_column ''priority'' ''INTEGER'' True (Some ''1000''),
        mk_column ''enabled'' ''BOOLEAN'' True (Some ''true''),
        mk_column ''site_id'' ''TEXT'' True (Some (quoted [])),
        mk_column ''conditions'' ''JSONB'' True (Some (quoted ''[]'')),
        mk_column ''created_at'' ''TIMESTAMPTZ'' True (Some ''now()''),
        mk_column ''updated_at'' ''TIMESTAMPTZ'' True (Some ''now()'')]
       [[''id'']] [],
     CreateIndex ''access_rules_order_idx'' ''access_rules'' [''priority'', ''created_at''],
     MoveRates]"

text \<open>
  \<open>value->>'k'\<close>: the last member of that name, a number as its text, a string as it is. Arrays and
  objects have a text that starts with a bracket; only the bracket matters here.
\<close>

definition jsonb_text :: "string \<Rightarrow> json \<Rightarrow> string option" where
  "jsonb_text k j =
     (case j of
        JObj kvs \<Rightarrow>
          (case map_of (rev kvs) k of
             Some (JNum n) \<Rightarrow> Some n | Some (JStr s) \<Rightarrow> Some s | Some (JBool b) \<Rightarrow> Some (if b then ''true'' else ''false'')
           | Some (JArr xs) \<Rightarrow> Some ''['' | Some (JObj x) \<Rightarrow> Some ''{'' | _ \<Rightarrow> None)
      | _ \<Rightarrow> None)"

definition jsonb_set :: "string \<Rightarrow> json \<Rightarrow> json \<Rightarrow> json" where
  "jsonb_set k v j =
     (case j of
        JObj kvs \<Rightarrow> if List.member (map fst kvs) k then JObj (map (\<lambda>(k', x). if k' = k then (k', v) else (k', x)) kvs)
                    else JObj (kvs @ [(k, v)])
      | _ \<Rightarrow> j)"

definition old_rates :: "settings_row \<Rightarrow> bool" where
  "old_rates r \<longleftrightarrow> fst r = ''global'' \<and> jsonb_text ''global_rate_rps'' (snd r) = Some ''60''
     \<and> jsonb_text ''global_rate_burst'' (snd r) = Some ''120''"

definition new_rates :: "settings_row \<Rightarrow> settings_row" where
  "new_rates r = (fst r, jsonb_set ''global_rate_burst'' (JNum ''300'') (jsonb_set ''global_rate_rps'' (JNum ''20'') (snd r)))"

definition missing :: "string \<Rightarrow> string" where
  "missing n = ''relation '' @ n @ '' does not exist''"

definition column_names :: "pg_table \<Rightarrow> string list" where
  "column_names t = map co_name (pt_columns t)"

text \<open>A new column has its default in every row, NULL without one.\<close>

definition add_column :: "column \<Rightarrow> pg_table \<Rightarrow> pg_table" where
  "add_column c t = t\<lparr>pt_columns := pt_columns t @ [c], pt_rows := map (\<lambda>r. r(co_name c := co_default c)) (pt_rows t)\<rparr>"

definition set_table :: "string \<Rightarrow> (pg_table \<Rightarrow> pg_table) \<Rightarrow> database \<Rightarrow> database" where
  "set_table n f db = db\<lparr>sd_tables := map (\<lambda>(k, t). (k, if k = n then f t else t)) (sd_tables db)\<rparr>"

fun run_ddl :: "ddl \<Rightarrow> database \<Rightarrow> string + database" where
  "run_ddl (CreateTable n cols uniq refs) db =
     (if map_of (sd_tables db) n \<noteq> None then Inr db
      else if \<not> list_all (\<lambda>r. map_of (sd_tables db) r \<noteq> None) refs then Inl (missing n)
      else Inr (db\<lparr>sd_tables := sd_tables db @ [(n, \<lparr>pt_columns = cols, pt_unique = uniq, pt_rows = []\<rparr>)]\<rparr>))"
| "run_ddl (AddColumn n c) db =
     (case map_of (sd_tables db) n of
        None \<Rightarrow> Inl (missing n)
      | Some t \<Rightarrow>
          if List.member (column_names t) (co_name c) then Inr db
          else if co_notNull c \<and> co_default c = None \<and> pt_rows t \<noteq> [] then Inl (''column '' @ co_name c @ '' contains null values'')
          else Inr (set_table n (add_column c) db))"
| "run_ddl (CreateIndex i n cols) db =
     (if map_of (sd_indexes db) i \<noteq> None then Inr db
      else case map_of (sd_tables db) n of
        None \<Rightarrow> Inl (missing n)
      | Some t \<Rightarrow> if list_all (List.member (column_names t)) cols then Inr (db\<lparr>sd_indexes := sd_indexes db @ [(i, n, cols)]\<rparr>)
                  else Inl (''no such column of '' @ n))"
| "run_ddl MoveRates db =
     (if map_of (sd_tables db) ''settings'' = None then Inl (missing ''settings'')
      else Inr (db\<lparr>sd_settings := map (\<lambda>r. if old_rates r then new_rates r else r) (sd_settings db)\<rparr>))"

fun run_all :: "ddl list \<Rightarrow> database \<Rightarrow> string + database" where
  "run_all [] db = Inr db"
| "run_all (s # ss) db = bind_res (run_ddl s db) (run_all ss)"

text \<open>The text is one transaction; \<open>net\<close> is an error of the connection.\<close>

definition Migrate :: "string option \<Rightarrow> database \<Rightarrow> string option \<times> database" where
  "Migrate net db =
     (case net of
        Some e \<Rightarrow> (Some (''failed to create the schema: '' @ e), db)
      | None \<Rightarrow>
          (case run_all schema db of
             Inl e \<Rightarrow> (Some (''failed to create the schema: '' @ e), db)
           | Inr db' \<Rightarrow> (None, db')))"

subsection \<open>The columns the statements of the store name\<close>

text \<open>
  For every table: the columns its statements read, write, filter or sort by, those an INSERT fills, and
  the group its ON CONFLICT names (empty without one).
\<close>

record table_use =
  tu_table :: string
  tu_columns :: "string list"
  tu_insert :: "string list"
  tu_conflict :: "string list"

definition site_use :: table_use where
  "site_use = \<lparr>tu_table = ''sites'',
     tu_columns = [''id'', ''name'', ''domains'', ''upstream_scheme'', ''upstream_host'', ''upstream_port'', ''mode'', ''challenge'',
       ''rate_rps'', ''rate_burst'', ''flood_rps'', ''tls_cert'', ''tls_key'', ''force_https'', ''enabled'', ''rules_off'',
       ''created_at'', ''updated_at'', ''acme_enabled'', ''acme_email'', ''cert_expires_at'', ''acme_last_error'', ''acme_last_try'',
       ''auth_enabled'', ''auth_paths'', ''geo_mode'', ''geo_countries''],
     tu_insert = [''id'', ''name'', ''domains'', ''upstream_scheme'', ''upstream_host'', ''upstream_port'', ''mode'', ''challenge'',
       ''rate_rps'', ''rate_burst'', ''flood_rps'', ''tls_cert'', ''tls_key'', ''force_https'', ''enabled'', ''rules_off'',
       ''acme_enabled'', ''acme_email'', ''cert_expires_at'', ''auth_enabled'', ''auth_paths'', ''geo_mode'', ''geo_countries'', ''updated_at''],
     tu_conflict = [''id'']\<rparr>"

definition rule_use :: table_use where
  "rule_use = \<lparr>tu_table = ''rules'',
     tu_columns = [''id'', ''name'', ''category'', ''target'', ''pattern'', ''action'', ''severity'', ''enabled'', ''builtin'', ''created_at''],
     tu_insert = [''id'', ''name'', ''category'', ''target'', ''pattern'', ''action'', ''severity'', ''enabled'', ''builtin''],
     tu_conflict = [''id'']\<rparr>"

definition ip_use :: table_use where
  "ip_use = \<lparr>tu_table = ''ip_entries'',
     tu_columns = [''id'', ''cidr'', ''kind'', ''reason'', ''expires_at'', ''created_at''],
     tu_insert = [''cidr'', ''kind'', ''reason'', ''expires_at''], tu_conflict = [''cidr'', ''kind'']\<rparr>"

definition event_use :: table_use where
  "event_use = \<lparr>tu_table = ''events'',
     tu_columns = [''id'', ''ts'', ''ray'', ''site'', ''ip'', ''method'', ''host'', ''uri'', ''ua'', ''referer'', ''action'', ''reason'',
       ''rule_id'', ''rule_name'', ''severity'', ''status'', ''rt'', ''country''],
     tu_insert = [''ts'', ''ray'', ''site'', ''ip'', ''method'', ''host'', ''uri'', ''ua'', ''referer'', ''action'', ''reason'',
       ''rule_id'', ''rule_name'', ''severity'', ''status'', ''rt'', ''country''], tu_conflict = []\<rparr>"

definition stat_use :: table_use where
  "stat_use = \<lparr>tu_table = ''stats_minute'',
     tu_columns = [''minute'', ''total'', ''blocked'', ''challenged'', ''monitored'', ''errors_4xx'', ''blocked_4xx'', ''errors_5xx'', ''page_views''],
     tu_insert = [''minute'', ''total'', ''blocked'', ''challenged'', ''monitored'', ''errors_4xx'', ''blocked_4xx'', ''errors_5xx'', ''page_views''],
     tu_conflict = [''minute'']\<rparr>"

definition settings_use :: table_use where
  "settings_use = \<lparr>tu_table = ''settings'', tu_columns = [''key'', ''value''], tu_insert = [''key'', ''value''], tu_conflict = [''key'']\<rparr>"

definition user_use :: table_use where
  "user_use = \<lparr>tu_table = ''users'', tu_columns = [''id'', ''username'', ''password_hash'', ''created_at'', ''updated_at''],
     tu_insert = [''username'', ''password_hash''], tu_conflict = [''username'']\<rparr>"

definition account_use :: table_use where
  "account_use = \<lparr>tu_table = ''site_users'', tu_columns = [''id'', ''site_id'', ''username'', ''password_hash'', ''generation'', ''created_at''],
     tu_insert = [''site_id'', ''username'', ''password_hash''], tu_conflict = []\<rparr>"

definition access_use :: table_use where
  "access_use = \<lparr>tu_table = ''access_rules'',
     tu_columns = [''id'', ''name'', ''action'', ''priority'', ''enabled'', ''site_id'', ''conditions'', ''created_at'', ''updated_at''],
     tu_insert = [''id'', ''name'', ''action'', ''priority'', ''enabled'', ''site_id'', ''conditions'', ''updated_at''], tu_conflict = [''id'']\<rparr>"

definition store_uses :: "table_use list" where
  "store_uses = [user_use, site_use, rule_use, ip_use, event_use, stat_use, settings_use, account_use, access_use]"

text \<open>
  A table serves its statements: every column is there, an INSERT that leaves a column out leaves one
  that has a default or may be NULL, and the conflict group is unique.
\<close>

definition serves :: "pg_table \<Rightarrow> table_use \<Rightarrow> bool" where
  "serves t u \<longleftrightarrow> list_all (List.member (column_names t)) (tu_columns u @ tu_insert u)
     \<and> list_all (\<lambda>c. List.member (tu_insert u) (co_name c) \<or> \<not> co_notNull c \<or> co_default c \<noteq> None) (pt_columns t)
     \<and> (tu_conflict u = [] \<or> List.member (pt_unique t) (tu_conflict u))"

subsection \<open>What an earlier installation looks like\<close>

text \<open>
  The tables as the releases made them, given on their own and not taken from the text: the columns and unique
  groups a table had when it first came out, and the columns later releases put beside them. The first
  release had seven tables; \<open>site_users\<close> and \<open>access_rules\<close> came later.
\<close>

definition released :: "(string \<times> column list \<times> string list list \<times> column list) list" where
  "released =
    [(''settings'', [mk_column ''key'' ''TEXT'' True None, mk_column ''value'' ''JSONB'' True None], [[''key'']], []),
     (''stats_minute'',
       mk_column ''minute'' ''TIMESTAMPTZ'' True None #
         map (\<lambda>c. mk_column c ''BIGINT'' True (Some ''0'')) [''total'', ''blocked'', ''challenged'', ''monitored''],
       [[''minute'']],
       map (\<lambda>c. mk_column c ''BIGINT'' True (Some ''0'')) [''errors_4xx'', ''blocked_4xx'', ''errors_5xx'', ''page_views'']),
     (''events'',
       [mk_column ''id'' ''BIGSERIAL'' True (Some ''nextval''), mk_column ''ts'' ''TIMESTAMPTZ'' True None] @
         map (\<lambda>c. mk_column c ''TEXT'' True (Some (quoted [])))
           [''ray'', ''site'', ''ip'', ''method'', ''host'', ''uri'', ''ua'', ''referer'', ''action'', ''reason'', ''rule_id'', ''rule_name'', ''severity''] @
         [mk_column ''status'' ''INT'' True (Some ''0''), mk_column ''rt'' ''DOUBLE PRECISION'' True (Some ''0'')],
       [[''id'']],
       [mk_column ''country'' ''CHAR(2)'' True (Some (quoted []))]),
     (''ip_entries'',
       [mk_column ''id'' ''BIGSERIAL'' True (Some ''nextval''), mk_column ''cidr'' ''TEXT'' True None, mk_column ''kind'' ''TEXT'' True None,
        mk_column ''reason'' ''TEXT'' True (Some (quoted [])), mk_column ''expires_at'' ''TIMESTAMPTZ'' False None,
        mk_column ''created_at'' ''TIMESTAMPTZ'' True (Some ''now()'')],
       [[''id''], [''cidr'', ''kind'']], []),
     (''rules'',
       [mk_column ''id'' ''TEXT'' True None, mk_column ''name'' ''TEXT'' True None, mk_column ''category'' ''TEXT'' True (Some (quoted ''custom'')),
        mk_column ''target'' ''TEXT'' True (Some (quoted ''any'')), mk_column ''pattern'' ''TEXT'' True None,
        mk_column ''action'' ''TEXT'' True (Some (quoted ''deny'')), mk_column ''severity'' ''TEXT'' True (Some (quoted ''medium'')),
        mk_column ''enabled'' ''BOOLEAN'' True (Some ''true''), mk_column ''builtin'' ''BOOLEAN'' True (Some ''false''),
        mk_column ''created_at'' ''TIMESTAMPTZ'' True (Some ''now()'')],
       [[''id'']], []),
     (''sites'',
       [mk_column ''id'' ''TEXT'' True None, mk_column ''name'' ''TEXT'' True None, mk_column ''domains'' ''JSONB'' True (Some (quoted ''[]'')),
        mk_column ''upstream_scheme'' ''TEXT'' True (Some (quoted ''http'')), mk_column ''upstream_host'' ''TEXT'' True None,
        mk_column ''upstream_port'' ''INT'' True (Some ''80''), mk_column ''mode'' ''TEXT'' True (Some (quoted ''protect'')),
        mk_column ''challenge'' ''TEXT'' True (Some (quoted ''auto'')), mk_column ''rate_rps'' ''INT'' True (Some ''0''),
        mk_column ''rate_burst'' ''INT'' True (Some ''0''), mk_column ''tls_cert'' ''TEXT'' True (Some (quoted [])),
        mk_column ''tls_key'' ''TEXT'' True (Some (quoted [])), mk_column ''force_https'' ''BOOLEAN'' True (Some ''false''),
        mk_column ''enabled'' ''BOOLEAN'' True (Some ''true''), mk_column ''rules_off'' ''JSONB'' True (Some (quoted ''[]'')),
        mk_column ''created_at'' ''TIMESTAMPTZ'' True (Some ''now()''), mk_column ''updated_at'' ''TIMESTAMPTZ'' True (Some ''now()'')],
       [[''id'']],
       [mk_column ''acme_enabled'' ''BOOLEAN'' True (Some ''false''), mk_column ''acme_email'' ''TEXT'' True (Some (quoted [])),
        mk_column ''cert_expires_at'' ''TIMESTAMPTZ'' False None, mk_column ''acme_last_error'' ''TEXT'' True (Some (quoted [])),
        mk_column ''acme_last_try'' ''TIMESTAMPTZ'' False None, mk_column ''flood_rps'' ''INT'' True (Some ''0''),
        mk_column ''auth_enabled'' ''BOOLEAN'' True (Some ''false''),
        mk_column ''auth_paths'' ''JSONB'' True (Some (quoted (''['' @ [CHR 0x22] @ ''/'' @ [CHR 0x22] @ '']''))),
        mk_column ''geo_mode'' ''TEXT'' True (Some (quoted [])), mk_column ''geo_countries'' ''JSONB'' True (Some (quoted ''[]''))]),
     (''users'',
       [mk_column ''id'' ''BIGSERIAL'' True (Some ''nextval''), mk_column ''username'' ''TEXT'' True None,
        mk_column ''password_hash'' ''TEXT'' True None, mk_column ''created_at'' ''TIMESTAMPTZ'' True (Some ''now()''),
        mk_column ''updated_at'' ''TIMESTAMPTZ'' True (Some ''now()'')],
       [[''id''], [''username'']], []),
     (''site_users'',
       [mk_column ''id'' ''BIGSERIAL'' True (Some ''nextval''), mk_column ''site_id'' ''TEXT'' True None, mk_column ''username'' ''TEXT'' True None,
        mk_column ''password_hash'' ''TEXT'' True None, mk_column ''generation'' ''BIGINT'' True (Some ''1''),
        mk_column ''created_at'' ''TIMESTAMPTZ'' True (Some ''now()'')],
       [[''id''], [''site_id'', ''username'']], []),
     (''access_rules'',
       [mk_column ''id'' ''TEXT'' True None, mk_column ''name'' ''TEXT'' True None, mk_column ''action'' ''TEXT'' True None,
        mk_column ''priority'' ''INTEGER'' True (Some ''1000''), mk_column ''enabled'' ''BOOLEAN'' True (Some ''true''),
        mk_column ''site_id'' ''TEXT'' True (Some (quoted [])), mk_column ''conditions'' ''JSONB'' True (Some (quoted ''[]'')),
        mk_column ''created_at'' ''TIMESTAMPTZ'' True (Some ''now()''), mk_column ''updated_at'' ''TIMESTAMPTZ'' True (Some ''now()'')],
       [[''id'']], [])]"

definition full_columns :: "string \<Rightarrow> column list" where
  "full_columns n = (case map_of released n of None \<Rightarrow> [] | Some (cols, uniq, later) \<Rightarrow> cols @ later)"

text \<open>
  A table that some release made: all it had when it came out, and of what was put beside it later, any part.
  Tables that no release made are of no concern.
\<close>

definition table_ok :: "string \<Rightarrow> pg_table \<Rightarrow> bool" where
  "table_ok n t = (case map_of released n of
       None \<Rightarrow> True
     | Some (cols, uniq, later) \<Rightarrow> list_all (List.member (pt_columns t)) cols \<and> list_all (List.member (pt_unique t)) uniq
         \<and> list_all (List.member (cols @ later)) (pt_columns t))"

definition from_release :: "database \<Rightarrow> bool" where
  "from_release db \<longleftrightarrow> list_all (\<lambda>(n, t). table_ok n t) (sd_tables db)"

text \<open>Nothing stored is lost: tables, rows and the values of their columns stay; so do settings but for the two rates.\<close>

definition grown :: "pg_table \<Rightarrow> pg_table \<Rightarrow> bool" where
  "grown t t' \<longleftrightarrow> set (pt_columns t) \<subseteq> set (pt_columns t') \<and> pt_unique t' = pt_unique t
     \<and> list_all2 (\<lambda>r r'. \<forall>c \<in> set (column_names t). r' c = r c) (pt_rows t) (pt_rows t')"

definition data_kept :: "database \<Rightarrow> database \<Rightarrow> bool" where
  "data_kept db db' \<longleftrightarrow>
     (\<forall>n t. map_of (sd_tables db) n = Some t \<longrightarrow> (\<exists>t'. map_of (sd_tables db') n = Some t' \<and> grown t t'))
     \<and> (\<forall>i x. map_of (sd_indexes db) i = Some x \<longrightarrow> map_of (sd_indexes db') i = Some x)
     \<and> list_all2 (\<lambda>r r'. r' = r \<or> old_rates r \<and> r' = new_rates r) (sd_settings db) (sd_settings db')"

subsection \<open>The text runs through\<close>

text \<open>What a statement leaves behind.\<close>

fun in_place :: "database \<Rightarrow> ddl \<Rightarrow> bool" where
  "in_place db (CreateTable n cols uniq refs) = (map_of (sd_tables db) n \<noteq> None)"
| "in_place db (AddColumn n c) = (case map_of (sd_tables db) n of None \<Rightarrow> False | Some t \<Rightarrow> c \<in> set (pt_columns t))"
| "in_place db (CreateIndex i n cols) = (map_of (sd_indexes db) i \<noteq> None)"
| "in_place db MoveRates = (map_of (sd_tables db) ''settings'' \<noteq> None \<and> (\<forall>r \<in> set (sd_settings db). \<not> old_rates r))"

text \<open>The columns a list of statements adds to a table, and whether it creates the table.\<close>

fun added_to :: "string \<Rightarrow> ddl list \<Rightarrow> column list" where
  "added_to n [] = []"
| "added_to n (AddColumn m c # ss) = (if m = n then [c] else []) @ added_to n ss"
| "added_to n (_ # ss) = added_to n ss"

fun creates :: "string \<Rightarrow> ddl list \<Rightarrow> bool" where
  "creates n [] = False"
| "creates n (CreateTable m cols uniq refs # ss) = (m = n \<or> creates n ss)"
| "creates n (_ # ss) = creates n ss"

text \<open>What has to hold of a list of statements for it to run: \<open>ks\<close> are the tables made before.\<close>

fun plan_ok :: "string list \<Rightarrow> ddl list \<Rightarrow> bool" where
  "plan_ok ks [] = True"
| "plan_ok ks (CreateTable n cols uniq refs # ss) =
     (map_of released n \<noteq> None \<and> table_ok n \<lparr>pt_columns = cols, pt_unique = uniq, pt_rows = []\<rparr> \<and> list_all (List.member ks) refs \<and> plan_ok (n # ks) ss)"
| "plan_ok ks (AddColumn n c # ss) =
     (List.member ks n \<and> List.member (full_columns n) c \<and> (\<not> co_notNull c \<or> co_default c \<noteq> None) \<and> plan_ok ks ss)"
| "plan_ok ks (CreateIndex i n cols # ss) =
     (List.member ks n \<and> (case map_of released n of None \<Rightarrow> False
        | Some (cs, uniq, later) \<Rightarrow> list_all (List.member (map co_name cs)) cols) \<and> plan_ok ks ss)"
| "plan_ok ks (MoveRates # ss) = (List.member ks ''settings'' \<and> plan_ok ks ss)"

lemma schema_plan: "plan_ok [] schema"
  by code_simp

lemma full_distinct: "list_all (\<lambda>u. distinct (map co_name (full_columns (tu_table u)))) store_uses"
  by code_simp

lemma rates_moved: "old_rates r \<Longrightarrow> \<not> old_rates (new_rates r)"
proof -
  assume r: "old_rates r"
  obtain k j where kj: "r = (k, j)" by (cases r)
  then obtain kvs where j: "j = JObj kvs" using r by (cases j) (auto simp: old_rates_def jsonb_text_def)
  have m: "map_of (map (\<lambda>(k', x). if k' = a then (k', v) else (k', x)) xs) a = (if a \<in> fst ` set xs then Some v else None)"
    for a v and xs :: "(string \<times> json) list" by (induction xs) auto
  have other: "map_of (map (\<lambda>(k', x). if k' = a then (k', v) else (k', x)) xs) b = map_of xs b" if "a \<noteq> b"
    for a b v and xs :: "(string \<times> json) list" using that by (induction xs) auto
  have set: "jsonb_text a (jsonb_set a (JNum v) (JObj xs)) = Some v" for a v xs
    by (auto simp: jsonb_text_def jsonb_set_def rev_map m image_iff)
  have keep: "jsonb_text b (jsonb_set a v (JObj xs)) = jsonb_text b (JObj xs)" if "a \<noteq> b" for a b v xs
    using that by (auto simp: jsonb_text_def jsonb_set_def rev_map other)
  have obj: "\<exists>ys. jsonb_set a v (JObj xs) = JObj ys" for a v xs by (simp add: jsonb_set_def)
  obtain ys where "jsonb_set ''global_rate_rps'' (JNum ''20'') j = JObj ys" using obj j by blast
  then have "jsonb_text ''global_rate_burst'' (snd (new_rates r)) = Some ''300''"
    by (simp add: new_rates_def kj set)
  then show ?thesis by (simp add: old_rates_def)
qed

lemma grown_refl [simp]: "grown t t"
  by (simp add: grown_def list_all2_refl)

lemma grown_trans: "grown t u \<Longrightarrow> grown u v \<Longrightarrow> grown t v"
proof -
  assume a: "grown t u" and b: "grown u v"
  have sub: "set (column_names t) \<subseteq> set (column_names u)" using a by (auto simp: grown_def column_names_def)
  have "list_all2 (\<lambda>r r''. \<forall>c \<in> set (column_names t). r'' c = r c) (pt_rows t) (pt_rows v)"
    by (rule list_all2_trans [of "\<lambda>r r'. \<forall>c \<in> set (column_names t). r' c = r c" "\<lambda>r r'. \<forall>c \<in> set (column_names u). r' c = r c"])
      (use a b sub in \<open>auto simp: grown_def\<close>)
  then show ?thesis using a b by (auto simp: grown_def)
qed

lemma kept_refl [simp]: "data_kept db db"
  by (simp add: data_kept_def list_all2_refl)

lemma kept_trans: "data_kept a b \<Longrightarrow> data_kept b c \<Longrightarrow> data_kept a c"
proof -
  assume ab: "data_kept a b" and bc: "data_kept b c"
  have "list_all2 (\<lambda>r r'. r' = r \<or> old_rates r \<and> r' = new_rates r) (sd_settings a) (sd_settings c)"
    by (rule list_all2_trans [of "\<lambda>r r'. r' = r \<or> old_rates r \<and> r' = new_rates r" "\<lambda>r r'. r' = r \<or> old_rates r \<and> r' = new_rates r"])
      (use ab bc rates_moved in \<open>auto simp: data_kept_def\<close>)
  then show ?thesis using ab bc unfolding data_kept_def by (meson grown_trans)
qed

lemma list_partner: "list_all2 P xs ys \<Longrightarrow> y \<in> set ys \<Longrightarrow> \<exists>x \<in> set xs. P x y"
  by (induction rule: list_all2_induct) auto

lemma kept_table: "data_kept db db' \<Longrightarrow> map_of (sd_tables db) n = Some t \<Longrightarrow> \<exists>t'. map_of (sd_tables db') n = Some t' \<and> grown t t'"
  by (simp add: data_kept_def)

lemma kept_in_place:
  assumes "data_kept db db'" "in_place db s"
  shows "in_place db' s"
proof (cases s)
  case (CreateTable n cols uniq refs)
  then show ?thesis using assms(2) kept_table [OF assms(1), of n] by auto
next
  case (AddColumn n c)
  then obtain t where "map_of (sd_tables db) n = Some t" "c \<in> set (pt_columns t)" using assms(2) by (auto split: option.splits)
  then show ?thesis using kept_table [OF assms(1), of n t] by (auto simp: AddColumn grown_def)
next
  case (CreateIndex i n cols)
  then show ?thesis using assms by (auto simp: data_kept_def)
next
  case MoveRates
  have "\<not> old_rates r'" if "r' \<in> set (sd_settings db')" for r'
  proof -
    have "list_all2 (\<lambda>r r'. r' = r \<or> old_rates r \<and> r' = new_rates r) (sd_settings db) (sd_settings db')"
      using assms(1) by (simp add: data_kept_def)
    from list_partner [OF this that] show ?thesis using assms(2) by (auto simp: MoveRates)
  qed
  then show ?thesis using assms(2) kept_table [OF assms(1), of "''settings''"] by (auto simp: MoveRates)
qed

lemma in_place_again: "in_place db s \<Longrightarrow> run_ddl s db = Inr db"
proof (cases s)
  case MoveRates
  assume "in_place db s"
  then have "map_of (sd_tables db) ''settings'' \<noteq> None" "map (\<lambda>r. if old_rates r then new_rates r else r) (sd_settings db) = sd_settings db"
    by (auto simp: MoveRates intro!: map_idI)
  then show ?thesis by (simp add: MoveRates)
qed (auto simp: column_names_def split: option.splits)

lemma all_again: "list_all (in_place db) ss \<Longrightarrow> run_all ss db = Inr db"
  by (induction ss) (simp_all add: in_place_again bind_res_def)

text \<open>The tables of an earlier release stay such tables.\<close>

lemma release_table: "from_release db \<Longrightarrow> map_of (sd_tables db) n = Some t \<Longrightarrow> table_ok n t"
  by (auto simp: from_release_def list_all_iff dest!: map_of_SomeD)

lemma map_of_set_table:
  "map_of (sd_tables (set_table n f db)) k = (if k = n then map_option f (map_of (sd_tables db) n) else map_of (sd_tables db) k)"
proof -
  have "map_of (map (\<lambda>(k, t). (k, if k = n then f t else t)) ts) k = (if k = n then map_option f (map_of ts n) else map_of ts k)" for ts
    by (induction ts) auto
  then show ?thesis by (simp add: set_table_def)
qed

lemma add_column_ok: "table_ok n t \<Longrightarrow> c \<in> set (full_columns n) \<Longrightarrow> table_ok n (add_column c t)"
  by (auto simp: table_ok_def full_columns_def add_column_def list_all_iff split: option.splits)

lemma grown_add: "co_name c \<notin> set (column_names t) \<Longrightarrow> grown t (add_column c t)"
  by (auto simp: grown_def add_column_def list_all2_map2 intro!: list_all2_refl)

lemma kept_tables:
  assumes "\<And>n t. map_of (sd_tables db) n = Some t \<Longrightarrow> \<exists>t'. map_of (sd_tables db') n = Some t' \<and> grown t t'"
    and "\<And>i x. map_of (sd_indexes db) i = Some x \<Longrightarrow> map_of (sd_indexes db') i = Some x"
    and "sd_settings db' = sd_settings db"
  shows "data_kept db db'"
  using assms by (simp add: data_kept_def list_all2_refl)

text \<open>The step of each statement on a database of an earlier release.\<close>

lemma create_runs:
  assumes "from_release db" "table_ok n \<lparr>pt_columns = cols, pt_unique = uniq, pt_rows = []\<rparr>" "\<forall>r \<in> set refs. map_of (sd_tables db) r \<noteq> None"
  shows "\<exists>db'. run_ddl (CreateTable n cols uniq refs) db = Inr db' \<and> from_release db' \<and> data_kept db db'
    \<and> in_place db' (CreateTable n cols uniq refs)"
proof (cases "map_of (sd_tables db) n")
  case None
  let ?t = "\<lparr>pt_columns = cols, pt_unique = uniq, pt_rows = []\<rparr>"
  let ?db = "db\<lparr>sd_tables := sd_tables db @ [(n, ?t)]\<rparr>"
  have "from_release ?db" using assms(1,2) by (simp add: from_release_def)
  moreover have "data_kept db ?db" by (rule kept_tables) (auto simp: map_add_Some_iff)
  moreover have "in_place ?db (CreateTable n cols uniq refs)" using None by (simp add: map_add_def)
  ultimately show ?thesis using None assms(3) by (simp add: list_all_iff map_add_def)
qed (use assms(1) in simp)

lemma add_runs:
  assumes "from_release db" "c \<in> set (full_columns n)" "distinct (map co_name (full_columns n))" "map_of released n \<noteq> None"
    and "\<not> co_notNull c \<or> co_default c \<noteq> None" "map_of (sd_tables db) n \<noteq> None"
  shows "\<exists>db'. run_ddl (AddColumn n c) db = Inr db' \<and> from_release db' \<and> data_kept db db' \<and> in_place db' (AddColumn n c)"
proof -
  obtain t where t: "map_of (sd_tables db) n = Some t" using assms(6) by auto
  have ok: "table_ok n t" using release_table [OF assms(1) t] .
  show ?thesis
  proof (cases "co_name c \<in> set (column_names t)")
    case True
    then obtain c' where c': "c' \<in> set (pt_columns t)" "co_name c' = co_name c" by (auto simp: column_names_def)
    then have "c' \<in> set (full_columns n)" using ok assms(4) by (auto simp: table_ok_def full_columns_def list_all_iff)
    then have "c' = c" using c'(2) assms(2,3) by (meson distinct_map inj_onD)
    then show ?thesis using True c'(1) assms(1) t by simp
  next
    case False
    let ?db = "set_table n (add_column c) db"
    have "from_release ?db"
      using assms(1) add_column_ok [OF _ assms(2)] unfolding from_release_def set_table_def list_all_iff
      by (fastforce split: if_splits)
    moreover have "data_kept db ?db"
    proof (rule kept_tables)
      fix m u assume u: "map_of (sd_tables db) m = Some u"
      show "\<exists>t'. map_of (sd_tables ?db) m = Some t' \<and> grown u t'"
        using u t grown_add [OF False] by (cases "m = n") (simp_all add: map_of_set_table)
    qed (simp_all add: set_table_def)
    moreover have "in_place ?db (AddColumn n c)" by (simp add: map_of_set_table t add_column_def)
    ultimately show ?thesis using False assms(5) t by auto
  qed
qed

lemma index_runs:
  assumes "from_release db" "map_of released n = Some (cs, uniq, later)" "list_all (List.member (map co_name cs)) cols"
    and "map_of (sd_tables db) n \<noteq> None"
  shows "\<exists>db'. run_ddl (CreateIndex i n cols) db = Inr db' \<and> from_release db' \<and> data_kept db db' \<and> in_place db' (CreateIndex i n cols)"
proof -
  obtain t where t: "map_of (sd_tables db) n = Some t" using assms(4) by auto
  have "set cs \<subseteq> set (pt_columns t)" using release_table [OF assms(1) t] assms(2) by (auto simp: table_ok_def list_all_iff)
  then have "co_name ` set cs \<subseteq> set (column_names t)" by (auto simp: column_names_def)
  then have "list_all (List.member (column_names t)) cols" using assms(3) by (auto simp: list_all_iff)
  moreover have "data_kept db (db\<lparr>sd_indexes := sd_indexes db @ [(i, n, cols)]\<rparr>)"
    by (rule kept_tables) (auto simp: map_add_Some_iff)
  moreover have "from_release (db\<lparr>sd_indexes := x\<rparr>)" for x using assms(1) by (simp add: from_release_def)
  ultimately show ?thesis using t assms(1) by (cases "map_of (sd_indexes db) i") (auto simp: map_add_def)
qed

lemma rates_run:
  assumes "from_release db" "map_of (sd_tables db) ''settings'' \<noteq> None"
  shows "\<exists>db'. run_ddl MoveRates db = Inr db' \<and> from_release db' \<and> data_kept db db' \<and> in_place db' MoveRates"
proof -
  have "list_all2 (\<lambda>r r'. r' = r \<or> old_rates r \<and> r' = new_rates r) rs (map (\<lambda>r. if old_rates r then new_rates r else r) rs)" for rs
    by (simp add: list_all2_map2 list_all2_refl)
  then show ?thesis using assms by (auto simp: data_kept_def from_release_def dest: rates_moved)
qed

definition tables_there :: "string list \<Rightarrow> database \<Rightarrow> bool" where
  "tables_there ks db \<longleftrightarrow> (\<forall>k \<in> set ks. k \<in> set (map tu_table store_uses) \<and> map_of (sd_tables db) k \<noteq> None)"

lemma there_kept: "tables_there ks db \<Longrightarrow> data_kept db db' \<Longrightarrow> tables_there ks db'"
  by (fastforce simp: tables_there_def data_kept_def)

lemma released_tables: "map_of released n \<noteq> None \<longleftrightarrow> n \<in> set (map tu_table store_uses)"
proof -
  have "set (map tu_table store_uses) = fst ` set released"
    by (auto simp: released_def store_uses_def site_use_def rule_use_def ip_use_def event_use_def stat_use_def settings_use_def
        user_use_def account_use_def access_use_def)
  then show ?thesis by (auto simp: map_of_eq_None_iff)
qed

lemma run_after:
  assumes d: "run_ddl s db = Inr d" "data_kept db d" "in_place d s"
    and rest: "\<exists>db'. run_all ss d = Inr db' \<and> from_release db' \<and> data_kept d db' \<and> list_all (in_place db') ss"
  shows "\<exists>db'. run_all (s # ss) db = Inr db' \<and> from_release db' \<and> data_kept db db' \<and> list_all (in_place db') (s # ss)"
proof -
  obtain db' where r: "run_all ss d = Inr db'" "from_release db'" "data_kept d db'" "list_all (in_place db') ss" using rest by blast
  have "run_all (s # ss) db = Inr db'" by (simp only: run_all.simps d(1) bind_res_def sum.case r(1))
  then show ?thesis using r kept_trans [OF d(2) r(3)] kept_in_place [OF r(3) d(3)] by (intro exI [of _ db']) simp
qed

lemma plan_runs:
  assumes "plan_ok ks ss" "from_release db" "tables_there ks db"
  shows "\<exists>db'. run_all ss db = Inr db' \<and> from_release db' \<and> data_kept db db' \<and> list_all (in_place db') ss"
  using assms
proof (induction ks ss arbitrary: db rule: plan_ok.induct)
  case (2 ks n cols uniq refs ss)
  have refs: "\<forall>r \<in> set refs. map_of (sd_tables db) r \<noteq> None" using 2(2,4) by (auto simp: list_all_iff tables_there_def)
  have ok: "table_ok n \<lparr>pt_columns = cols, pt_unique = uniq, pt_rows = []\<rparr>" using 2(2) by simp
  obtain d where d: "run_ddl (CreateTable n cols uniq refs) db = Inr d" "from_release d" "data_kept db d"
    "in_place d (CreateTable n cols uniq refs)" using create_runs [OF 2(3) ok refs] by blast
  have "n \<in> set (map tu_table store_uses)" using 2(2) released_tables [of n] by simp
  then have "tables_there (n # ks) d" using there_kept [OF 2(4) d(3)] d(4) by (simp add: tables_there_def)
  then have "\<exists>db'. run_all ss d = Inr db' \<and> from_release db' \<and> data_kept d db' \<and> list_all (in_place db') ss"
    using 2(1) [OF _ d(2)] 2(2) by auto
  then show ?case by (rule run_after [OF d(1,3,4)])
next
  case (3 ks n c ss)
  have n: "n \<in> set (map tu_table store_uses)" "map_of (sd_tables db) n \<noteq> None" using 3(2,4) by (auto simp: tables_there_def)
  then have f: "distinct (map co_name (full_columns n))" using full_distinct by (auto simp: list_all_iff)
  obtain d where d: "run_ddl (AddColumn n c) db = Inr d" "from_release d" "data_kept db d" "in_place d (AddColumn n c)"
    using add_runs [OF 3(3) _ f _ _ n(2)] 3(2) n(1) released_tables [of n] by auto
  have "\<exists>db'. run_all ss d = Inr db' \<and> from_release db' \<and> data_kept d db' \<and> list_all (in_place db') ss"
    using 3(1) [OF _ d(2) there_kept [OF 3(4) d(3)]] 3(2) by auto
  then show ?case by (rule run_after [OF d(1,3,4)])
next
  case (4 ks i n cols ss)
  have n: "map_of (sd_tables db) n \<noteq> None" using 4(2,4) by (auto simp: tables_there_def)
  obtain cs uniq later where c: "map_of released n = Some (cs, uniq, later)" "list_all (List.member (map co_name cs)) cols"
    using 4(2) by (auto split: option.splits)
  obtain d where d: "run_ddl (CreateIndex i n cols) db = Inr d" "from_release d" "data_kept db d" "in_place d (CreateIndex i n cols)"
    using index_runs [OF 4(3) c n] by blast
  have "\<exists>db'. run_all ss d = Inr db' \<and> from_release db' \<and> data_kept d db' \<and> list_all (in_place db') ss"
    using 4(1) [OF _ d(2) there_kept [OF 4(4) d(3)]] 4(2) by auto
  then show ?case by (rule run_after [OF d(1,3,4)])
next
  case (5 ks ss)
  obtain d where d: "run_ddl MoveRates db = Inr d" "from_release d" "data_kept db d" "in_place d MoveRates"
    using rates_run [OF 5(3)] 5(2,4) by (auto simp: tables_there_def)
  have "\<exists>db'. run_all ss d = Inr db' \<and> from_release db' \<and> data_kept d db' \<and> list_all (in_place db') ss"
    using 5(1) [OF _ d(2) there_kept [OF 5(4) d(3)]] 5(2) by auto
  then show ?case by (rule run_after [OF d(1,3,4)])
qed simp

text \<open>Afterwards a table has exactly the columns of all releases, so whether it serves its statements can be computed.\<close>

definition full_table :: "string \<Rightarrow> pg_table" where
  "full_table n = \<lparr>pt_columns = full_columns n,
     pt_unique = (case map_of released n of None \<Rightarrow> [] | Some (cols, uniq, later) \<Rightarrow> uniq), pt_rows = []\<rparr>"

lemma full_serves: "list_all (\<lambda>u. serves (full_table (tu_table u)) u) store_uses"
  by code_simp

lemma added_in_place: "list_all (in_place db) ss \<Longrightarrow> map_of (sd_tables db) n = Some t \<Longrightarrow> set (added_to n ss) \<subseteq> set (pt_columns t)"
  by (induction n ss rule: added_to.induct) (auto split: if_splits)

lemma created_in_place: "list_all (in_place db) ss \<Longrightarrow> creates n ss \<Longrightarrow> map_of (sd_tables db) n \<noteq> None"
  by (induction n ss rule: creates.induct) auto

text \<open>What came out later is added by the text, and every table is created.\<close>

lemma later_added: "list_all (\<lambda>(n, cols, uniq, later). list_all (List.member (added_to n schema)) later \<and> creates n schema) released"
  by code_simp

lemma in_place_serves:
  assumes "list_all (in_place db) schema" "from_release db" "u \<in> set store_uses"
  shows "\<exists>t. map_of (sd_tables db) (tu_table u) = Some t \<and> serves t u"
proof -
  let ?n = "tu_table u"
  obtain cols uniq later where c: "map_of released ?n = Some (cols, uniq, later)" using released_tables [of ?n] assms(3) by auto
  then have l: "set later \<subseteq> set (added_to ?n schema)" "creates ?n schema"
    using later_added map_of_SomeD [OF c] by (auto simp: list_all_iff)
  obtain t where t: "map_of (sd_tables db) ?n = Some t" using created_in_place [OF assms(1) l(2)] by auto
  have "set (pt_columns t) = set (full_columns ?n)" "set uniq \<subseteq> set (pt_unique t)"
    using release_table [OF assms(2) t] c l(1) added_in_place [OF assms(1) t] by (auto simp: table_ok_def full_columns_def list_all_iff)
  moreover have "serves (full_table ?n) u" using full_serves assms(3) by (simp add: list_all_iff)
  ultimately have "serves t u" using c by (auto simp: serves_def full_table_def column_names_def list_all_iff)
  then show ?thesis using t by blast
qed

text \<open>
  C32 an upgrade works from every earlier release and loses nothing. On an empty database, or one whose
  tables were made by any release of the program - each with all it had when it came out and any part of the
  columns put beside it later - the schema text runs through; afterwards every column that a statement of
  the store names exists, every INSERT names the columns that need a value, every ON CONFLICT has its
  unique group; every row keeps the values of its columns, and of the settings only rates of exactly 60 and
  120 are replaced. Running it again on what it left changes nothing. (Settings saved in between are looked at
  again: rates of 60 and 120 are replaced at every start, also where an operator chose them.)
\<close>

theorem schema_upgrade:
  assumes "from_release db"
  shows "\<exists>db'. Migrate None db = (None, db') \<and> data_kept db db'
    \<and> list_all (\<lambda>u. case map_of (sd_tables db') (tu_table u) of None \<Rightarrow> False | Some t \<Rightarrow> serves t u) store_uses
    \<and> Migrate None db' = (None, db')"
proof -
  obtain db' where r: "run_all schema db = Inr db'" "from_release db'" "data_kept db db'" "list_all (in_place db') schema"
    using plan_runs [OF schema_plan assms] by (auto simp: tables_there_def)
  have "list_all (\<lambda>u. case map_of (sd_tables db') (tu_table u) of None \<Rightarrow> False | Some t \<Rightarrow> serves t u) store_uses"
    unfolding list_all_iff using in_place_serves [OF r(4,2)] by fastforce
  then show ?thesis using r all_again [OF r(4)] by (simp add: Migrate_def)
qed

text \<open>An installation of the first release, with one minute of statistics and the old rates.\<close>

definition first_release :: database where
  "first_release = \<lparr>sd_tables = [(''stats_minute'', \<lparr>pt_columns = [mk_column ''minute'' ''TIMESTAMPTZ'' True None,
         mk_column ''total'' ''BIGINT'' True (Some ''0''), mk_column ''blocked'' ''BIGINT'' True (Some ''0''),
         mk_column ''challenged'' ''BIGINT'' True (Some ''0''), mk_column ''monitored'' ''BIGINT'' True (Some ''0'')],
       pt_unique = [[''minute'']], pt_rows = [[''minute'' \<mapsto> ''5'', ''total'' \<mapsto> ''9'']]\<rparr>)],
     sd_indexes = [], sd_settings = [(''global'', JObj [(''global_rate_rps'', JNum ''60''), (''global_rate_burst'', JNum ''120'')])]\<rparr>"

lemma schema_upgrade_witness:
  "\<exists>db'. Migrate None first_release = (None, db') \<and> data_kept first_release db' \<and> Migrate None db' = (None, db')"
proof -
  have "from_release first_release" by code_simp
  then show ?thesis using schema_upgrade by blast
qed

text \<open>
  The replacement of the rates is part of every start, not of one upgrade: an operator who chooses 60 and
  120 and saves them finds 20 and 300 after the next restart.
\<close>

lemma find_related:
  "list_all2 P xs ys \<Longrightarrow> (\<And>x y. P x y \<Longrightarrow> key y = key x) \<Longrightarrow> find_row key k xs = Some x \<Longrightarrow>
    \<exists>y. find_row key k ys = Some y \<and> P x y"
  by (induction rule: list_all2_induct) (auto simp: find_row_Cons find_row_def split: if_splits)

lemma saved_settings_found: "find_row fst ''global'' (snd (SaveSettings None st t)) = Some (''global'', settings_json st)"
  using settings.upsert_find_same [of "(''global'', settings_json st)" t]
  by (auto simp: SaveSettings_def exec_plain_def settingsKey_def dest: find_row_Some split: option.splits)

lemma moved_rates_json:
  assumes "st_globalRateRPS st = 60" "st_globalRateBurst st = 120"
  shows "old_rates (''global'', settings_json st)"
    and "new_rates (''global'', settings_json st) = (''global'', settings_json (st\<lparr>st_globalRateRPS := 20, st_globalRateBurst := 300\<rparr>))"
proof -
  have i: "itoa 60 = ''60''" "itoa 120 = ''120''" "itoa 20 = ''20''" "itoa 300 = ''300''" by code_simp+
  show "old_rates (''global'', settings_json st)"
    using assms by (simp add: old_rates_def settings_json_def jsonb_text_def i)
  show "new_rates (''global'', settings_json st) = (''global'', settings_json (st\<lparr>st_globalRateRPS := 20, st_globalRateBurst := 300\<rparr>))"
    using assms by (simp add: new_rates_def settings_json_def jsonb_set_def i)
qed

lemma chosen_rates_lost:
  assumes "settings_int64 st" "st_globalRateRPS st = 60" "st_globalRateBurst st = 120"
    and "from_release db" "sd_settings db = snd (SaveSettings None st t)" "Migrate None db = (None, db')"
  shows "fst (GetSettings None None (sd_settings db')) = (st\<lparr>st_globalRateRPS := 20, st_globalRateBurst := 300\<rparr>, None)"
proof -
  let ?st = "st\<lparr>st_globalRateRPS := 20, st_globalRateBurst := 300\<rparr>"
  obtain d where r: "run_all schema db = Inr d" "data_kept db d" "list_all (in_place d) schema"
    using plan_runs [OF schema_plan assms(4)] by (auto simp: tables_there_def)
  have "d = db'" using r(1) assms(6) by (simp add: Migrate_def)
  moreover have "in_place d MoveRates" using r(3) unfolding schema_def by simp
  ultimately have n: "\<forall>r \<in> set (sd_settings db'). \<not> old_rates r" and k: "data_kept db db'" using r(2) by simp_all
  have l: "list_all2 (\<lambda>r r'. r' = r \<or> old_rates r \<and> r' = new_rates r) (sd_settings db) (sd_settings db')"
    using k by (simp add: data_kept_def)
  have key: "fst y = fst x" if "y = x \<or> old_rates x \<and> y = new_rates x" for x y using that by (auto simp: new_rates_def)
  obtain y where y: "find_row fst ''global'' (sd_settings db') = Some y"
    "y = (''global'', settings_json st) \<or> y = new_rates (''global'', settings_json st)"
    using find_related [OF l key saved_settings_found [of st t, folded assms(5)]] by blast
  moreover have "\<not> old_rates y" using n find_row_Some [OF y(1)] by blast
  ultimately have "find_row fst ''global'' (sd_settings db') = Some (''global'', settings_json ?st)"
    using moved_rates_json [OF assms(2,3)] by auto
  moreover have "settings_int64 ?st" using assms(1) by (simp add: settings_int64_def int64_def)
  ultimately show ?thesis by (simp add: GetSettings_def settingsKey_def overlay_settings_json)
qed

subsection \<open>Waiting ends\<close>

lemma open_loop_out:
  "(\<forall>i < n. ping (k + i) \<noteq> None) \<and> open_loop n ping e k s = (Inl (''cannot connect to postgres: '' @
      (if n = 0 then e else the (ping (k + n - 1)))), s + n)
   \<or> (\<exists>i < n. ping (k + i) = None \<and> (\<forall>j < i. ping (k + j) \<noteq> None) \<and> open_loop n ping e k s = (Inr (), s + i))"
proof (induction n ping e k s rule: open_loop.induct)
  case (2 n ping last_err i slept)
  show ?case
  proof (cases "ping i")
    case None
    then show ?thesis by (intro disjI2 exI [of _ 0]) simp
  next
    case (Some e)
    from 2 [OF Some] show ?thesis
    proof (elim disjE exE conjE)
      assume a: "\<forall>j < n. ping (i + 1 + j) \<noteq> None"
        and o: "open_loop n ping e (i + 1) (slept + 1) = (Inl (''cannot connect to postgres: '' @
          (if n = 0 then e else the (ping (i + 1 + n - 1)))), slept + 1 + n)"
      have "\<forall>j < Suc n. ping (i + j) \<noteq> None" using a Some by (auto simp: less_Suc_eq_0_disj)
      then show ?thesis using o Some by (cases n) simp_all
    next
      fix j assume j: "j < n" "ping (i + 1 + j) = None" "\<forall>m < j. ping (i + 1 + m) \<noteq> None"
        and o: "open_loop n ping e (i + 1) (slept + 1) = (Inr (), slept + 1 + j)"
      have "\<forall>m < Suc j. ping (i + m) \<noteq> None" using j(3) Some by (auto simp: less_Suc_eq_0_disj)
      then show ?thesis using j(1,2) o Some by (intro disjI2 exI [of _ "Suc j"]) simp
    qed
  qed
qed simp

text \<open>
  the wait for the database always ends. It returns with the connection at the first ping that is
  answered, after one second of sleep for each that was not, and gives up with the last error after thirty;
  a connection string or a pool that cannot be used is reported at once.
\<close>

theorem open_ends:
  "case Open parse_err pool_err ping of
     (Inr u, slept) \<Rightarrow> parse_err = None \<and> pool_err = None \<and> slept < 30 \<and> ping slept = None \<and> list_all (\<lambda>i. ping i \<noteq> None) [0..<slept]
   | (Inl e, slept) \<Rightarrow> slept \<le> 30 \<and> (slept = (if parse_err = None \<and> pool_err = None then 30 else 0))
       \<and> list_all (\<lambda>i. ping i \<noteq> None) [0..<slept]"
  using open_loop_out [of 30 ping 0 "[]" 0]
  by (auto simp: Open_def list_all_iff split: option.split)

end
