(* ===== verification/ApiSiteTable.thy ===== *)
theory ApiSiteTable
  imports ApiSites EnginePublisher
begin

section \<open>The site table through every operation\<close>

text \<open>
  What one component stores another has to accept: the handlers of sites, the certificate order and the
  renewal loop write rows of the table \<open>sites\<close>, and the publisher validates every row again before it
  writes a line of nginx configuration (\<open>renderSite\<close> of \<open>control/internal/engine/nginxconf.go\<close> calls
  \<open>ValidateSite\<close> of \<open>control/internal/store/sites.go\<close>). One row that fails there stops the publication
  of all of them, so the two have to agree.

  \<open>site_checks\<close> is what \<open>ValidateSite\<close> accepts, exactly, and \<open>normal_site\<close> what it makes of it. The table
  is well formed when its ids are unique and every row can be rendered; the lemmas say that every operation
  on the table keeps it so, and the properties that it then never stands in the way of a publication.
\<close>

subsection \<open>What validation accepts\<close>

definition lower_domain :: "(string \<Rightarrow> string) \<Rightarrow> string \<Rightarrow> string" where
  "lower_domain L d = go_to_lower L (trim_space d)"

definition domain_ok :: "string \<Rightarrow> bool" where
  "domain_ok d \<longleftrightarrow> d \<noteq> [] \<and> \<not> contains_any domain_forbidden d \<and> \<not> hasControlChar d"

definition host_ok :: "string \<Rightarrow> bool" where
  "host_ok h \<longleftrightarrow> h \<noteq> [] \<and> \<not> contains_any host_forbidden h \<and> \<not> hasControlChar h"

definition email_ok :: "string \<Rightarrow> bool" where
  "email_ok e \<longleftrightarrow> e \<noteq> [] \<and> str_contains ''@'' e \<and> \<not> hasControlChar e"

definition site_checks :: "(string \<Rightarrow> string) \<Rightarrow> site \<Rightarrow> bool" where
  "site_checks L s \<longleftrightarrow>
     trim_space (s_name s) \<noteq> [] \<and> \<not> hasControlChar (trim_space (s_name s))
     \<and> s_domains s \<noteq> [] \<and> list_all (\<lambda>d. domain_ok (lower_domain L d)) (s_domains s)
     \<and> host_ok (trim_space (s_upstreamHost s)) \<and> 0 < s_upstreamPort s \<and> s_upstreamPort s \<le> 65535
     \<and> 0 \<le> s_rateRPS s \<and> 0 \<le> s_rateBurst s
     \<and> ((s_tlsCert s = []) = (s_tlsKey s = []))
     \<and> (s_forceHTTPS s \<longrightarrow> s_tlsCert s \<noteq> [] \<or> s_acmeEnabled s)
     \<and> (s_authEnabled s \<longrightarrow> s_tlsCert s \<noteq> [] \<or> s_acmeEnabled s)
     \<and> (s_acmeEnabled s \<longrightarrow> email_ok (trim_space (s_acmeEmail s))
          \<and> list_all (\<lambda>d. checkACMEDomain (lower_domain L d) = Inr ()) (s_domains s))"

definition trimmed_site :: "(string \<Rightarrow> string) \<Rightarrow> site \<Rightarrow> site" where
  "trimmed_site L s = s\<lparr>s_name := trim_space (s_name s), s_upstreamHost := trim_space (s_upstreamHost s),
     s_domains := map (lower_domain L) (s_domains s)\<rparr>"

definition normal_site :: "(string \<Rightarrow> string) \<Rightarrow> (string \<Rightarrow> string) \<Rightarrow> site \<Rightarrow> site" where
  "normal_site L U s =
     site_paths L U ((site_defaults (trimmed_site L s))
       \<lparr>s_acmeEmail := (if s_acmeEnabled s then trim_space (s_acmeEmail s) else s_acmeEmail s)\<rparr>)"

lemma check_acme_iff:
  "check_acme s = Inr s' \<longleftrightarrow>
     s' = s\<lparr>s_acmeEmail := (if s_acmeEnabled s then trim_space (s_acmeEmail s) else s_acmeEmail s)\<rparr>
     \<and> (s_acmeEnabled s \<longrightarrow> email_ok (trim_space (s_acmeEmail s)) \<and> list_all (\<lambda>d. checkACMEDomain d = Inr ()) (s_domains s))"
proof -
  have c: "check_all checkACMEDomain (s_domains s) = Inr u \<longleftrightarrow> list_all (\<lambda>d. checkACMEDomain d = Inr ()) (s_domains s)" for u
    by (simp add: check_all_Inr list_all_iff)
  show ?thesis
  proof (cases "check_all checkACMEDomain (s_domains s)")
    case (Inl e)
    then have "\<not> list_all (\<lambda>d. checkACMEDomain d = Inr ()) (s_domains s)" using c by fastforce
    then show ?thesis using Inl by (auto simp: check_acme_def Let_def)
  next
    case (Inr u)
    then have "list_all (\<lambda>d. checkACMEDomain d = Inr ()) (s_domains s)" using c by blast
    then show ?thesis using Inr by (auto simp: check_acme_def email_ok_def Let_def)
  qed
qed

lemma validate_rest_iff:
  "validate_rest L U s = Inr s' \<longleftrightarrow>
     host_ok (s_upstreamHost s) \<and> 0 < s_upstreamPort s \<and> s_upstreamPort s \<le> 65535
     \<and> 0 \<le> s_rateRPS s \<and> 0 \<le> s_rateBurst s \<and> ((s_tlsCert s = []) = (s_tlsKey s = []))
     \<and> (s_forceHTTPS s \<longrightarrow> s_tlsCert s \<noteq> [] \<or> s_acmeEnabled s) \<and> (s_authEnabled s \<longrightarrow> s_tlsCert s \<noteq> [] \<or> s_acmeEnabled s)
     \<and> (\<exists>s2. check_acme (site_defaults s) = Inr s2 \<and> s' = site_paths L U s2)"
proof -
  have same: "s_rateRPS (site_defaults s) = s_rateRPS s" "s_rateBurst (site_defaults s) = s_rateBurst s"
    "s_tlsCert (site_defaults s) = s_tlsCert s" "s_tlsKey (site_defaults s) = s_tlsKey s"
    "s_forceHTTPS (site_defaults s) = s_forceHTTPS s" "s_acmeEnabled (site_defaults s) = s_acmeEnabled s"
    "s_authEnabled (site_defaults s) = s_authEnabled s"
    by (simp_all add: site_defaults_def)
  have keep: "s_authEnabled (site_paths L U x) = s_authEnabled x" "s_tlsCert (site_paths L U x) = s_tlsCert x"
    "s_acmeEnabled (site_paths L U x) = s_acmeEnabled x" for x
    by (simp_all add: site_paths_def Let_def)
  have k: "s_authEnabled s2 = s_authEnabled s \<and> s_tlsCert s2 = s_tlsCert s \<and> s_acmeEnabled s2 = s_acmeEnabled s"
    if "check_acme (site_defaults s) = Inr s2" for s2
    using that unfolding check_acme_iff by (simp add: same)
  show ?thesis
    using k by (cases "check_acme (site_defaults s)") (auto simp: validate_rest_def Let_def same keep host_ok_def not_less not_le)
qed

lemma clean_domains_iff:
  "map_res (clean_domain L) ds = Inr ds' \<longleftrightarrow> ds' = map (lower_domain L) ds \<and> list_all (\<lambda>d. domain_ok (lower_domain L d)) ds"
proof
  assume "map_res (clean_domain L) ds = Inr ds'"
  then have "list_all2 (\<lambda>x y. clean_domain L x = Inr y) ds ds'" by (rule map_res_Inr)
  then show "ds' = map (lower_domain L) ds \<and> list_all (\<lambda>d. domain_ok (lower_domain L d)) ds"
    by (induction rule: list_all2_induct) (auto simp: clean_domain_Inr lower_domain_def domain_ok_def)
next
  assume "ds' = map (lower_domain L) ds \<and> list_all (\<lambda>d. domain_ok (lower_domain L d)) ds"
  moreover have "list_all (\<lambda>d. domain_ok (lower_domain L d)) ds \<Longrightarrow> map_res (clean_domain L) ds = Inr (map (lower_domain L) ds)"
    by (induction ds) (auto simp: clean_domain_def lower_domain_def domain_ok_def Let_def)
  ultimately show "map_res (clean_domain L) ds = Inr ds'" by simp
qed

lemma trimmed_simps [simp]:
  "s_name (trimmed_site L s) = trim_space (s_name s)" "s_domains (trimmed_site L s) = map (lower_domain L) (s_domains s)"
  "s_upstreamHost (trimmed_site L s) = trim_space (s_upstreamHost s)" "s_upstreamPort (trimmed_site L s) = s_upstreamPort s"
  "s_rateRPS (trimmed_site L s) = s_rateRPS s" "s_rateBurst (trimmed_site L s) = s_rateBurst s"
  "s_tlsCert (trimmed_site L s) = s_tlsCert s" "s_tlsKey (trimmed_site L s) = s_tlsKey s"
  "s_forceHTTPS (trimmed_site L s) = s_forceHTTPS s" "s_acmeEnabled (trimmed_site L s) = s_acmeEnabled s"
  "s_authEnabled (trimmed_site L s) = s_authEnabled s" "s_acmeEmail (trimmed_site L s) = s_acmeEmail s"
  "s_id (trimmed_site L s) = s_id s"
  by (simp_all add: trimmed_site_def)

lemma ValidateSite_iff: "ValidateSite L U s = Inr s' \<longleftrightarrow> site_checks L s \<and> s' = normal_site L U s"
proof -
  let ?t = "s\<lparr>s_name := trim_space (s_name s), s_upstreamHost := trim_space (s_upstreamHost s)\<rparr>"
  have "ValidateSite L U s = Inr s' \<longleftrightarrow> trim_space (s_name s) \<noteq> [] \<and> \<not> hasControlChar (trim_space (s_name s)) \<and> s_domains s \<noteq> []
      \<and> (\<exists>ds. map_res (clean_domain L) (s_domains s) = Inr ds \<and> validate_rest L U (?t\<lparr>s_domains := ds\<rparr>) = Inr s')"
    by (cases "map_res (clean_domain L) (s_domains s)") (auto simp: ValidateSite_def Let_def)
  also have "\<dots> \<longleftrightarrow> trim_space (s_name s) \<noteq> [] \<and> \<not> hasControlChar (trim_space (s_name s)) \<and> s_domains s \<noteq> []
      \<and> list_all (\<lambda>d. domain_ok (lower_domain L d)) (s_domains s) \<and> validate_rest L U (trimmed_site L s) = Inr s'"
    by (auto simp: clean_domains_iff trimmed_site_def)
  also have "\<dots> \<longleftrightarrow> site_checks L s \<and> s' = normal_site L U s"
  proof -
    have d: "s_acmeEnabled (site_defaults x) = s_acmeEnabled x" "s_acmeEmail (site_defaults x) = s_acmeEmail x"
      "s_domains (site_defaults x) = s_domains x" for x by (simp_all add: site_defaults_def)
    show ?thesis
      unfolding validate_rest_iff check_acme_iff site_checks_def normal_site_def d trimmed_simps by (auto simp: list_all_iff)
  qed
  finally show ?thesis .
qed

text \<open>The case table of strings.ToLower leaves a lower-case trimmed text as it is.\<close>

definition lower_stable :: "(string \<Rightarrow> string) \<Rightarrow> bool" where
  "lower_stable L \<longleftrightarrow> (\<forall>d. lower_domain L (lower_domain L d) = lower_domain L d)"

lemma checks_cong:
  assumes "s_name r = s_name s" "s_domains r = s_domains s" "s_upstreamHost r = s_upstreamHost s"
    "s_upstreamPort r = s_upstreamPort s" "s_rateRPS r = s_rateRPS s" "s_rateBurst r = s_rateBurst s"
    "s_tlsCert r = s_tlsCert s" "s_tlsKey r = s_tlsKey s" "s_forceHTTPS r = s_forceHTTPS s"
    "s_authEnabled r = s_authEnabled s" "s_acmeEnabled r = s_acmeEnabled s" "s_acmeEmail r = s_acmeEmail s"
  shows "site_checks L r = site_checks L s"
  using assms by (simp add: site_checks_def)

text \<open>What the table and its readers do to a row does not matter to the checks.\<close>

lemma checks_stored [simp]:
  "site_checks L (scanSite L' U r) = site_checks L r"
  "site_checks L (site_ins L' now r) = site_checks L r"
  "site_checks L (site_merge L' now old r) = site_checks L r"
  by (rule checks_cong; simp add: scanSite_def site_paths_def site_ins_def site_merge_def Let_def)+

lemma checks_normal:
  assumes "site_checks L s" "lower_stable L"
  shows "site_checks L (normal_site L U s)"
proof -
  have f: "s_name (normal_site L U s) = trim_space (s_name s)" "s_domains (normal_site L U s) = map (lower_domain L) (s_domains s)"
    "s_upstreamHost (normal_site L U s) = trim_space (s_upstreamHost s)" "s_upstreamPort (normal_site L U s) = s_upstreamPort s"
    "s_rateRPS (normal_site L U s) = s_rateRPS s" "s_rateBurst (normal_site L U s) = s_rateBurst s"
    "s_tlsCert (normal_site L U s) = s_tlsCert s" "s_tlsKey (normal_site L U s) = s_tlsKey s"
    "s_forceHTTPS (normal_site L U s) = s_forceHTTPS s" "s_authEnabled (normal_site L U s) = s_authEnabled s"
    "s_acmeEnabled (normal_site L U s) = s_acmeEnabled s"
    "s_acmeEmail (normal_site L U s) = (if s_acmeEnabled s then trim_space (s_acmeEmail s) else s_acmeEmail s)"
    by (simp_all add: normal_site_def site_paths_def site_defaults_def Let_def)
  have l: "lower_domain L (lower_domain L d) = lower_domain L d" for d using assms(2) by (simp add: lower_stable_def)
  show ?thesis using assms(1) unfolding site_checks_def f by (auto simp: list_all_iff l)
qed

subsection \<open>Validation against a rule written from the outside\<close>

text \<open>
  The rule as an operator could be told it, with the characters as byte values and no function of the program
  in it but \<open>TrimSpace\<close>, \<open>ToLower\<close>, \<open>ParseIP\<close> and \<open>Split\<close> of the standard library. No text may have a byte below 32
  other than the tab (9), or 127. A domain may have none of space, double and single quote, dollar, slash, colon,
  semicolon, backslash and braces; an upstream host none of these but the colon.
\<close>

definition printable :: "string \<Rightarrow> bool" where
  "printable v \<longleftrightarrow> list_all (\<lambda>c. byte_of c = 9 \<or> 32 \<le> byte_of c \<and> byte_of c \<noteq> 127) v"

definition free_of :: "int list \<Rightarrow> string \<Rightarrow> bool" where
  "free_of bad v \<longleftrightarrow> list_all (\<lambda>c. byte_of c \<notin> set bad) v"

text \<open>A domain a certificate can be ordered for, a final dot aside.\<close>

definition orderable :: "string \<Rightarrow> bool" where
  "orderable d \<longleftrightarrow>
     (let t = (if d \<noteq> [] \<and> last d = CHR ''.'' then butlast d else d) in
      CHR ''*'' \<notin> set d \<and> net_parse_ip t = None \<and> CHR ''.'' \<in> set t \<and> length t \<le> 253
      \<and> list_all (\<lambda>l. 1 \<le> length l \<and> length l \<le> 63 \<and> hd l \<noteq> CHR ''-'' \<and> last l \<noteq> CHR ''-'') (split_on CHR ''.'' t))"

definition acceptable_site :: "(string \<Rightarrow> string) \<Rightarrow> site \<Rightarrow> bool" where
  "acceptable_site L s \<longleftrightarrow>
     (let name = trim_space (s_name s); host = trim_space (s_upstreamHost s); mail = trim_space (s_acmeEmail s);
          domains = map (\<lambda>d. go_to_lower L (trim_space d)) (s_domains s);
          https = (s_tlsCert s \<noteq> [] \<or> s_acmeEnabled s) in
      name \<noteq> [] \<and> printable name
      \<and> domains \<noteq> [] \<and> list_all (\<lambda>d. d \<noteq> [] \<and> printable d \<and> free_of [32, 34, 36, 39, 47, 58, 59, 92, 123, 125] d) domains
      \<and> host \<noteq> [] \<and> printable host \<and> free_of [32, 34, 36, 39, 47, 59, 92, 123, 125] host
      \<and> s_upstreamPort s \<in> {1..65535} \<and> 0 \<le> s_rateRPS s \<and> 0 \<le> s_rateBurst s
      \<and> (s_tlsCert s = [] \<longleftrightarrow> s_tlsKey s = [])
      \<and> (s_forceHTTPS s \<or> s_authEnabled s \<longrightarrow> https)
      \<and> (s_acmeEnabled s \<longrightarrow> CHR ''@'' \<in> set mail \<and> printable mail \<and> list_all orderable domains))"

lemma printable_iff: "printable v \<longleftrightarrow> \<not> hasControlChar v"
proof -
  have "byte_of CHR 0x0A = 10" "byte_of CHR 0x0D = 13" "byte_of CHR 0x00 = 0" "byte_of CHR 0x09 = 9" by (simp_all add: byte_of_def)
  then have "c = CHR 0x0A \<longrightarrow> byte_of c = 10" "c = CHR 0x0D \<longrightarrow> byte_of c = 13" "c = CHR 0x00 \<longrightarrow> byte_of c = 0"
    "c = CHR 0x09 \<longleftrightarrow> byte_of c = 9" for c using byte_of_inj [of c "CHR 0x09"] by auto
  then show ?thesis by (fastforce simp: printable_def hasControlChar_def list_all_iff list_ex_iff)
qed

lemma free_of_iff: "free_of (map byte_of cs) v \<longleftrightarrow> \<not> contains_any cs v"
  by (auto simp: free_of_def contains_any_iff list_all_iff image_iff byte_of_inj)

lemma free_of_set: "set bad = set bad' \<Longrightarrow> free_of bad v = free_of bad' v"
  by (simp add: free_of_def)

lemma contains_char: "str_contains [c] v \<longleftrightarrow> c \<in> set v"
  by (auto simp: str_contains_iff in_set_conv_decomp)

lemma check_labels_iff:
  "check_labels d ls = Inr () \<longleftrightarrow> list_all (\<lambda>l. 1 \<le> length l \<and> length l \<le> 63 \<and> hd l \<noteq> CHR ''-'' \<and> last l \<noteq> CHR ''-'') ls"
  by (induction ls) (auto simp: has_prefix_single has_suffix_single Suc_le_eq)

lemma orderable_iff: "orderable d \<longleftrightarrow> checkACMEDomain d = Inr ()"
proof -
  have t: "trim_suffix ''.'' d = (if d \<noteq> [] \<and> last d = CHR ''.'' then butlast d else d)"
    by (simp add: trim_suffix_def has_suffix_single butlast_conv_take)
  show ?thesis unfolding checkACMEDomain_def t
    by (auto simp: orderable_def Let_def contains_char check_labels_iff)
qed

lemma acceptable_checks: "site_checks L s \<longleftrightarrow> acceptable_site L s"
proof -
  have "byte_of CHR '' '' = 32" "byte_of CHR ''/'' = 47" "byte_of CHR 0x5C = 92" "byte_of CHR '':'' = 58" "byte_of CHR '';'' = 59"
    "byte_of CHR ''{'' = 123" "byte_of CHR ''}'' = 125" "byte_of CHR 0x22 = 34" "byte_of CHR 0x27 = 39" "byte_of CHR ''$'' = 36"
    by (simp_all add: byte_of_def)
  then have "set (map byte_of domain_forbidden) = set [32, 34, 36, 39, 47, 58, 59, 92, 123, 125]"
    "set (map byte_of host_forbidden) = set [32, 34, 36, 39, 47, 59, 92, 123, 125]"
    by (auto simp: domain_forbidden_def host_forbidden_def)
  note bad = free_of_set [OF this(1), unfolded free_of_iff, symmetric] free_of_set [OF this(2), unfolded free_of_iff, symmetric]
  show ?thesis
    unfolding site_checks_def acceptable_site_def domain_ok_def host_ok_def email_ok_def lower_domain_def Let_def bad
      printable_iff orderable_iff contains_char
    by (auto simp: list_all_iff)
qed

text \<open>
  C31 ValidateSite accepts a site exactly when its name and every domain and the upstream host are not empty after
  trimming and lower-casing and hold no control character but the tab, the domains none of the ten and the host none
  of the nine characters that mean something in an nginx file, there is a domain, the port is one, the rates are
  not negative, the certificate is whole, there is or will be a certificate where HTTPS is forced or a login
  gate is on, and automatic certificates have an address with an @ and domains that can be ordered: no wildcard,
  no IP address, a dot, at most 253 characters, labels of 1 to 63 that neither start nor end with a hyphen. What
  it makes of the site is the trimmed and lower-cased form, with http, protect and auto for a scheme, mode or
  challenge that is none, its paths and countries in normal form; and that form passes again, as the publisher
  needs. (The case table of ToLower has to leave a lower-case trimmed text as it is.)
\<close>

theorem validation_is_stable:
  assumes "lower_stable L"
  shows "((\<exists>s'. ValidateSite L U s = Inr s') \<longleftrightarrow> acceptable_site L s)
    \<and> (\<forall>s'. ValidateSite L U s = Inr s' \<longrightarrow>
         (let (geoMode, geoCountries) = NormaliseSiteGeo U (s_geoMode s) (s_geoCountries s) in
          s' = s\<lparr>s_name := trim_space (s_name s), s_upstreamHost := trim_space (s_upstreamHost s),
            s_domains := map (\<lambda>d. go_to_lower L (trim_space d)) (s_domains s),
            s_upstreamScheme := (if s_upstreamScheme s \<in> {''http'', ''https''} then s_upstreamScheme s else ''http''),
            s_mode := (if s_mode s \<in> {''protect'', ''monitor'', ''off''} then s_mode s else ''protect''),
            s_challenge := (if s_challenge s \<in> {''auto'', ''always'', ''off''} then s_challenge s else ''auto''),
            s_acmeEmail := (if s_acmeEnabled s then trim_space (s_acmeEmail s) else s_acmeEmail s),
            s_authPaths := NormaliseAuthPaths L (s_authPaths s), s_geoMode := geoMode, s_geoCountries := geoCountries\<rparr>)
         \<and> (\<exists>s''. ValidateSite L U (scanSite L U (site_ins L now s')) = Inr s''))"
proof (intro conjI allI impI)
  show "(\<exists>s'. ValidateSite L U s = Inr s') \<longleftrightarrow> acceptable_site L s" by (simp add: ValidateSite_iff acceptable_checks)
  fix s' assume v: "ValidateSite L U s = Inr s'"
  show "\<exists>s''. ValidateSite L U (scanSite L U (site_ins L now s')) = Inr s''"
    using v checks_normal [OF _ assms, of s U] by (simp add: ValidateSite_iff)
  have "s' = normal_site L U s" using v by (simp add: ValidateSite_iff)
  then show "let (geoMode, geoCountries) = NormaliseSiteGeo U (s_geoMode s) (s_geoCountries s) in
          s' = s\<lparr>s_name := trim_space (s_name s), s_upstreamHost := trim_space (s_upstreamHost s),
            s_domains := map (\<lambda>d. go_to_lower L (trim_space d)) (s_domains s),
            s_upstreamScheme := (if s_upstreamScheme s \<in> {''http'', ''https''} then s_upstreamScheme s else ''http''),
            s_mode := (if s_mode s \<in> {''protect'', ''monitor'', ''off''} then s_mode s else ''protect''),
            s_challenge := (if s_challenge s \<in> {''auto'', ''always'', ''off''} then s_challenge s else ''auto''),
            s_acmeEmail := (if s_acmeEnabled s then trim_space (s_acmeEmail s) else s_acmeEmail s),
            s_authPaths := NormaliseAuthPaths L (s_authPaths s), s_geoMode := geoMode, s_geoCountries := geoCountries\<rparr>"
    by (simp add: normal_site_def site_paths_def site_defaults_def trimmed_site_def one_of_def lower_domain_def Let_def split_beta)
qed

text \<open>Lower casing an ASCII text makes no space out of anything, so a trimmed text stays trimmed.\<close>

lemma lower_char_ascii: "byte_of c < 128 \<Longrightarrow> byte_of (lower_char c) < 128"
  by (simp add: lower_char_def is_upper_def)

lemma ascii_lower: "is_ascii s \<Longrightarrow> is_ascii (map lower_char s)"
  by (simp add: is_ascii_def list_all_iff lower_char_ascii)

lemma space_not_lower: "list_all (list_all (\<lambda>x. \<not> is_lower x)) (space_seqs @ map rev space_seqs)"
  by code_simp

lemma lower_char_same: "\<not> is_lower (lower_char c) \<Longrightarrow> lower_char c = c"
  by (auto simp: lower_char_def is_lower_def is_upper_def split: if_splits)

lemma leading_lower:
  assumes "leading_seq qs s = None" "list_all (list_all (\<lambda>x. \<not> is_lower x)) qs"
  shows "leading_seq qs (map lower_char s) = None"
proof (rule ccontr)
  assume "leading_seq qs (map lower_char s) \<noteq> None"
  then obtain q where q: "q \<in> set qs" "q \<noteq> []" "has_prefix q (map lower_char s)" by (auto dest!: leading_seq_Some)
  then obtain r where r: "map lower_char s = q @ r" by (auto simp: has_prefix_iff)
  obtain a b where s: "s = a @ b" "map lower_char a = q" using r by (auto simp: map_eq_append_conv)
  have "\<not> is_lower (lower_char c)" if "c \<in> set a" for c
  proof -
    have "lower_char c \<in> set q" using that s(2) by force
    then show ?thesis using q(1) assms(2) by (auto simp only: list_all_iff)
  qed
  then have "map lower_char a = a" by (intro map_idI) (simp add: lower_char_same)
  then show False using q(1,2) s assms(1) by (auto simp: leading_seq_def find_None_iff has_prefix_iff)
qed

lemma trim_lower: "trim_space s = s \<Longrightarrow> trim_space (map lower_char s) = map lower_char s"
proof -
  assume t: "trim_space s = s"
  let ?l = "trim_left_of space_seqs s"
  have a: "list_all (list_all (\<lambda>x. \<not> is_lower x)) space_seqs" "list_all (list_all (\<lambda>x. \<not> is_lower x)) (map rev space_seqs)"
    using space_not_lower by (simp_all only: list_all_append)
  obtain r where "?l = s @ r" using trim_right_of_prefix [of ?l space_seqs] t by (auto simp: trim_space_def)
  then have left: "leading_seq space_seqs s = None"
    using trim_left_of_fix [of space_seqs s] by (metis leading_seq_None_prefix)
  then have "?l = s" by (rule trim_left_of_noop)
  then have "rev (trim_left_of (map rev space_seqs) (rev s)) = s" using t by (simp add: trim_space_def trim_right_of_def)
  then have right: "leading_seq (map rev space_seqs) (rev s) = None"
    using trim_left_of_fix [of "map rev space_seqs" "rev s"] by (metis rev_rev_ident)
  show ?thesis
    using leading_lower [OF left a(1)] leading_lower [OF right a(2)]
    by (simp add: trim_space_def trim_right_of_def trim_left_of_noop rev_map)
qed

lemma lower_ascii_stable:
  assumes "\<And>s. L s = s"
  shows "lower_stable L"
proof -
  have "lower_domain L (lower_domain L d) = lower_domain L d" for d
  proof (cases "is_ascii (trim_space d)")
    case True
    have "trim_space (map lower_char (trim_space d)) = map lower_char (trim_space d)" by (rule trim_lower) simp
    then show ?thesis using ascii_lower [OF True] by (simp add: lower_domain_def go_to_lower_def True comp_def)
  qed (simp add: lower_domain_def go_to_lower_def assms)
  then show ?thesis by (simp add: lower_stable_def)
qed

subsection \<open>The table\<close>

text \<open>A row the publisher can render, and a table of such rows under unique ids.\<close>

definition renderable :: "(string \<Rightarrow> string) \<Rightarrow> site \<Rightarrow> bool" where
  "renderable L r \<longleftrightarrow> id_valid (s_id r) \<and> site_checks L r"

definition site_table_ok :: "(string \<Rightarrow> string) \<Rightarrow> site list \<Rightarrow> bool" where
  "site_table_ok L t \<longleftrightarrow> unique_by s_id t \<and> list_all (renderable L) t"

lemma renderable_renders: "renderable L r \<Longrightarrow> \<exists>x. renderSite L U (scanSite L U r) opt = Inr x"
proof -
  assume r: "renderable L r"
  then have "ValidateSite L U (scanSite L U r) = Inr (normal_site L U (scanSite L U r))"
    by (simp add: ValidateSite_iff renderable_def)
  then show ?thesis using r by (simp add: renderSite_def renderable_def scan_keeps)
qed

lemma table_render:
  assumes "site_table_ok L t" "s \<in> set (map (scanSite L U) (order_by s_createdAt t))"
  shows "\<exists>x. renderSite L U s opt = Inr x"
  using assms renderable_renders by (auto simp: site_table_ok_def list_all_iff)

lemma save_site_table:
  assumes "save_site V pub db now code s t = (r, t', p)" "site_table_ok (en_lower V) t"
    and "lower_stable (en_lower V)" "id_valid (s_id s)"
  shows "site_table_ok (en_lower V) t'"
  using save_site_cases [OF assms(1)]
proof (elim disjE exE conjE)
  fix s' assume v: "ValidateSite (en_lower V) (en_upper V) s = Inr s'"
    and t': "t' = upsert_row s_id (site_ins (en_lower V) now) (site_merge (en_lower V) now) s' t"
  have "site_checks (en_lower V) s'" using v checks_normal [OF _ assms(3)] by (simp add: ValidateSite_iff)
  then have "renderable (en_lower V) (site_ins (en_lower V) now s')" "renderable (en_lower V) (site_merge (en_lower V) now old s')" for old
    using assms(4) ValidateSite_keeps(1) [OF v] by (simp_all add: renderable_def, simp_all add: site_ins_def site_merge_def)
  then show ?thesis using assms(2) unfolding site_table_ok_def t' by (auto intro!: sites.upsert_unique upsert_all)
qed (simp add: assms(2))

subsection \<open>The operations\<close>

text \<open>The random part of a new id: ten hexadecimal digits.\<close>

definition hex_id :: "string \<Rightarrow> bool" where
  "hex_id rid \<longleftrightarrow> length rid = 10 \<and> list_all (\<lambda>c. is_digit c \<or> c \<in> set ''abcdef'') rid"

text \<open>The encoders of the certificate and the key write a PEM block, which is not empty.\<close>

definition pem_ok :: "acme_lib \<Rightarrow> bool" where
  "pem_ok X \<longleftrightarrow> (\<forall>der. al_pem X der \<noteq> []) \<and> (\<forall>k. al_keyPEM X k \<noteq> Inr [])"

inductive site_step :: "api_env \<Rightarrow> site list \<Rightarrow> site list \<Rightarrow> bool" for V where
  created: "hex_id rid \<Longrightarrow> site_step V t (fst (snd (handleCreateSite V pub db now rid body t)))"
| updated: "site_step V t (fst (snd (handleUpdateSite V pub db1 db2 now k body t)))"
| deleted: "site_step V t (fst (snd (handleDeleteSite pub db k t)))"
| ordered: "st_sites w = t \<Longrightarrow> pem_ok (ae_lib E) \<Longrightarrow>
    site_step V t (st_sites (fst (snd (handleIssueCertificate V leaf fmt pub E db reread k w))))"
| swept: "st_sites w = t \<Longrightarrow> (\<And>k. pem_ok (ae_lib (E k))) \<Longrightarrow>
    site_step V t (st_sites (snd (sweep (en_lower V) (en_upper V) leaf fmt db E w)))"

lemma hex_id_valid: "hex_id rid \<Longrightarrow> id_valid (newSiteID rid)"
proof -
  assume h: "hex_id rid"
  have l: "list_all id_char ''sabcdef''" by code_simp
  then have "id_char CHR ''s''" "\<And>c. c \<in> set ''abcdef'' \<Longrightarrow> id_char c" by (auto simp only: list_all_iff list.set)
  moreover have "id_char c" if "is_digit c" for c using that by (simp add: id_char_def)
  ultimately have "id_char CHR ''s''" "list_all id_char rid" using h unfolding hex_id_def list_all_iff by blast+
  then show ?thesis using h by (auto simp: hex_id_def id_valid_def newSiteID_def list_all_iff)
qed

lemma update_rows_table:
  assumes "site_table_ok L t" "\<And>r. s_id (f r) = s_id r" "\<And>r. site_checks L r \<Longrightarrow> site_checks L (f r)"
  shows "site_table_ok L (map (\<lambda>r. if P r then f r else r) t)"
proof -
  have "map s_id (map (\<lambda>r. if P r then f r else r) t) = map s_id t" using assms(2) by auto
  moreover have "list_all (renderable L) (map (\<lambda>r. if P r then f r else r) t)"
    using assms unfolding site_table_ok_def by (auto simp: renderable_def list_all_iff)
  ultimately show ?thesis using assms(1) unfolding site_table_ok_def unique_by_def by metis
qed

lemma certified_checks: "site_checks L r \<Longrightarrow> c \<noteq> [] \<Longrightarrow> k \<noteq> [] \<Longrightarrow> site_checks L (certified c k na now r)"
  by (simp add: site_checks_def certified_def)

lemma failure_table: "site_table_ok L t \<Longrightarrow> site_table_ok L (snd (RecordACMEAttempt db now k e t))"
proof -
  assume t: "site_table_ok L t"
  have "site_checks L (r\<lparr>s_acmeLastError := e, s_acmeLastTry := Some now\<rparr>) = site_checks L r" for r
    by (rule checks_cong) simp_all
  then show ?thesis using t
    by (cases db) (simp_all add: RecordACMEAttempt_def exec_plain_def update_rows_def update_rows_table)
qed

lemma Issue_table:
  assumes "site_table_ok L (st_sites w)" "pem_ok (ae_lib E)"
  shows "site_table_ok L (st_sites (snd (Issue E s w)))"
  using Issue_cases [of E s w]
proof (elim disjE exE conjE)
  fix c key na
  assume d: "order_done E s c key na"
    and t: "st_sites (snd (Issue E s w)) = map (\<lambda>r. if s_id r = s_id s then certified c key na (ae_stored E) r else r) (st_sites w)"
  have "c \<noteq> [] \<and> key \<noteq> []"
    using d assms(2) unfolding order_done_def pem_ok_def by (auto dest!: finish_order_Inr)
  then show ?thesis unfolding t by (intro update_rows_table [OF assms(1)]) (simp_all add: certified_checks)
qed (simp add: assms(1))

lemma sweep_loop_table:
  assumes "site_table_ok L (st_sites w)" "\<And>k. pem_ok (ae_lib (E k))"
  shows "site_table_ok L (st_sites (snd (sweep_loop K leaf fmt E ss b w)))"
  using assms(1)
proof (induction ss arbitrary: b w)
  case (Cons s ss)
  have I: "site_table_ok L (st_sites (snd (Issue (E (s_id s)) s w)))" using Issue_table [OF Cons.prems assms(2)] .
  obtain res w' where i: "Issue (E (s_id s)) s w = (res, w')" by (rule prod.exhaust)
  have "site_table_ok L (st_sites (recordFailure (E (s_id s)) s e w'))" for e
    using I i by (simp add: recordFailure_def failure_table)
  then show ?case using Cons.IH Cons.prems I i by (cases res) (simp_all add: sweep_loop.simps(2))
qed simp

lemma finish_table:
  assumes "site_table_ok L (st_sites (snd res))"
  shows "site_table_ok L (st_sites (fst (snd (finish_issue V pub E reread site res))))"
  using assms by (cases res)
    (auto simp: finish_issue_def refuse_def publish_then_def failure_table split: option.split sum.split)

lemma site_step_table:
  assumes "site_step V t t'" "site_table_ok (en_lower V) t" "lower_stable (en_lower V)"
  shows "site_table_ok (en_lower V) t'"
  using assms(1)
proof cases
  case (created rid pub db now body)
  obtain r u p where h: "handleCreateSite V pub db now rid body t = (r, u, p)" by (rule prod_cases3)
  have "u = t \<or> (\<exists>x. save_site V pub db now 201 (new_site rid x) t = (r, u, p))"
    using h unfolding handleCreateSite_def by (auto dest: with_body_out)
  moreover have "id_valid (s_id (new_site rid x))" for x using hex_id_valid [OF created(2)] by (simp add: new_site_def)
  ultimately show ?thesis using assms(2,3) h created(1) by (auto dest: save_site_table)
next
  case (updated pub db1 db2 now k body)
  obtain r u p where h: "handleUpdateSite V pub db1 db2 now k body t = (r, u, p)" by (rule prod_cases3)
  have "u = t \<or> (\<exists>cur x. GetSite (en_lower V) (en_upper V) db1 k t = Inr cur \<and> save_site V pub db2 now 200 (keep_fields cur x) t = (r, u, p))"
    using h unfolding handleUpdateSite_def by (auto dest!: with_result_out with_body_out)
  moreover have "id_valid (s_id cur)" if "GetSite (en_lower V) (en_upper V) db1 k t = Inr cur" for cur
    using that assms(2) find_row_Some [of s_id k t]
    by (auto simp: GetSite_def query_row_def site_table_ok_def renderable_def list_all_iff scan_keeps split: option.splits)
  ultimately show ?thesis using assms(2,3) h updated by (auto dest: save_site_table)
next
  case (deleted pub db k)
  have "t' = t \<or> t' = filter (\<lambda>r. s_id r \<noteq> k) t"
    using affected_table [of db ErrNotFound "delete_rows (\<lambda>r. s_id r = k) t" t] deleted
    by (auto simp: handleDeleteSite_def commit_table DeleteSite_def delete_rows_def)
  then show ?thesis using assms(2)
    by (auto simp: site_table_ok_def unique_by_def list_all_iff distinct_map_filter)
next
  case (ordered w E leaf fmt pub db reread k)
  have "site_table_ok (en_lower V) (st_sites (snd (Issue E s w)))" for s
    using Issue_table ordered(2,3) assms(2) by simp
  then show ?thesis using ordered(2) assms(2) unfolding ordered(1) handleIssueCertificate_def
    by (auto simp: with_result_def refuse_def finish_table split: sum.split)
next
  case (swept w E leaf fmt db)
  then show ?thesis using assms(2) by (auto simp: sweep_def sweep_loop_table split: sum.split)
qed

lemma site_steps_table:
  "(site_step V)\<^sup>*\<^sup>* [] t \<Longrightarrow> lower_stable (en_lower V) \<Longrightarrow> site_table_ok (en_lower V) t"
  by (induction rule: rtranclp_induct) (auto simp: site_step_table, simp add: site_table_ok_def unique_by_def)

definition demo_table :: "site list" where
  "demo_table = fst (snd (handleCreateSite demo_api (\<lambda>t. None) None 0 ''0123456789'' (Some ''site'') []))"

lemma demo_table_reached: "(site_step demo_api)\<^sup>*\<^sup>* [] demo_table" "lower_stable (en_lower demo_api)" "demo_table \<noteq> []"
proof -
  have "hex_id ''0123456789''" by code_simp
  then show "(site_step demo_api)\<^sup>*\<^sup>* [] demo_table" unfolding demo_table_def by (intro r_into_rtranclp created)
  have V: "en_lower demo_api = (\<lambda>s. s)" "en_upper demo_api = (\<lambda>s. s)" by (simp_all add: demo_api_def)
  then show "lower_stable (en_lower demo_api)" by (simp add: lower_ascii_stable)
  have i: "read_over demo_api (over_site (en_time demo_api)) zero_site (Some ''site'') = (Inr demo_posted :: site reply + site)"
    by (simp add: read_over_def readJSON_def decode_struct_def demo_api_def demo_over)
  have "site_checks (\<lambda>s. s) (new_site ''0123456789'' demo_posted)" by code_simp
  then have "ValidateSite (en_lower demo_api) (en_upper demo_api) (new_site ''0123456789'' demo_posted)
      = Inr (normal_site (\<lambda>s. s) (\<lambda>s. s) (new_site ''0123456789'' demo_posted))"
    unfolding V ValidateSite_iff by simp
  then show "demo_table \<noteq> []"
    by (simp add: demo_table_def handleCreateSite_def i with_body_def save_site_def with_result_def commit_then_def publish_then_def
        UpsertSite_def exec_plain_def upsert_row_def)
qed

text \<open>
  C10 the table of sites is well formed whatever the handlers, the certificate orders and the renewal loop
  do to it, in any order and with any failure of the database: ids are unique and valid file names, and
  every row can be rendered, so no stored site ever makes the generator refuse.
\<close>

theorem site_rows_renderable:
  assumes "(site_step V)\<^sup>*\<^sup>* [] t" "lower_stable (en_lower V)"
  shows "unique_by s_id t
    \<and> list_all (\<lambda>r. id_valid (s_id r) \<and> site_checks (en_lower V) r) t
    \<and> (case ListSites (en_lower V) (en_upper V) None t of Inl e \<Rightarrow> False
       | Inr sites \<Rightarrow> list_all (\<lambda>s. \<not> isl (renderSite (en_lower V) (en_upper V) s opt)) sites)"
proof -
  have ok: "site_table_ok (en_lower V) t" using site_steps_table [OF assms] .
  have "list_all (\<lambda>s. \<not> isl (renderSite (en_lower V) (en_upper V) s opt)) (map (scanSite (en_lower V) (en_upper V)) (order_by s_createdAt t))"
    unfolding list_all_iff using table_render [OF ok] by (metis sum.disc(2))
  moreover have "list_all (\<lambda>r. id_valid (s_id r) \<and> site_checks (en_lower V) r) t"
    using ok by (simp add: site_table_ok_def renderable_def list_all_iff)
  ultimately show ?thesis using ok by (simp add: ListSites_def query_def site_table_ok_def)
qed

lemma site_rows_renderable_witness:
  "demo_table \<noteq> [] \<and> list_all (\<lambda>r. id_valid (s_id r) \<and> site_checks (en_lower demo_api) r) demo_table"
  using site_rows_renderable [OF demo_table_reached(1,2), of demo_render] demo_table_reached(3) by blast

text \<open>With such a table a publication can only fail for a reason outside the program.\<close>

lemma table_publishable:
  assumes "site_table_ok (re_lower (pe_render P)) (tb_sites tb)" "reads_ok db" "pd_redis db = None"
    and "snd (fst (GetSettings (pd_settings db) (pd_defaults db) (tb_settings tb))) = None"
    and "\<And>op. io_fail (re_io (pe_render P)) op = None"
  shows "fst (Publish P db tb d) = None"
proof -
  obtain st t1 where g: "GetSettings (pd_settings db) (pd_defaults db) (tb_settings tb) = ((st, None), t1)"
    using assms(4) by (metis prod.collapse)
  let ?tb = "tb\<lparr>tb_settings := t1\<rparr>"
  have n: "read_tables P db st ?tb = Inr (snapshot_of P st ?tb)" using assms(2) by (simp add: read_tables_iff)
  have "fst (WriteSiteConfigs (pe_render P) (sn_sites (snapshot_of P st ?tb)) fs) = None" for fs
    by (rule WriteSiteConfigs_total [OF assms(5)]) (rule table_render [OF assms(1)], simp add: snapshot_of_def)
  then show ?thesis
    by (auto simp: Publish_def read_settings_def g n deploy_def assms(3) Let_def split: prod.splits option.splits)
      (metis fst_conv option.distinct(1))
qed

lemma validation_is_stable_witness:
  "acceptable_site (\<lambda>x. x) demo_named \<and> (\<exists>s'. ValidateSite (\<lambda>x. x) (\<lambda>x. x) demo_named = Inr s'
     \<and> (\<exists>s''. ValidateSite (\<lambda>x. x) (\<lambda>x. x) (scanSite (\<lambda>x. x) (\<lambda>x. x) (site_ins (\<lambda>x. x) 0 s')) = Inr s''))"
proof -
  have "lower_stable (\<lambda>x. x)" by (simp add: lower_ascii_stable)
  moreover have "site_checks (\<lambda>x. x) demo_named" by code_simp
  then have "acceptable_site (\<lambda>x. x) demo_named" by (simp only: acceptable_checks)
  ultimately show ?thesis using validation_is_stable [of "\<lambda>x. x" "\<lambda>x. x" demo_named] by blast
qed

end
