(* ===== verification/ApiBookkeeping.thy ===== *)
theory ApiBookkeeping
  imports ApiSites ApiSettings EnginePublisher
begin

section \<open>The order of a certificate and what is published\<close>

text \<open>
  \<open>handleIssueCertificate\<close> of \<open>control/internal/api/handlers.go\<close> works on the sites, the settings (where the
  account of the certificate authority is kept) and the challenge tokens. A failed order records its text and
  time on the row of the site (\<open>RecordACMEAttempt\<close>). The lemmas show that these two columns reach neither the
  document nor the files of a publication, that no order changes the settings in force, and so that the handler
  meets the contract of \<open>ApiPublish\<close> for what the publisher reads.
\<close>

definition quiet :: "site \<Rightarrow> site" where
  "quiet s = s\<lparr>s_acmeLastError := [], s_acmeLastTry := None\<rparr>"

named_theorems quiet_simps

lemma quiet_fields [quiet_simps]:
  "s_id (quiet s) = s_id s" "s_name (quiet s) = s_name s" "s_domains (quiet s) = s_domains s"
  "s_upstreamScheme (quiet s) = s_upstreamScheme s" "s_upstreamHost (quiet s) = s_upstreamHost s"
  "s_upstreamPort (quiet s) = s_upstreamPort s" "s_mode (quiet s) = s_mode s" "s_challenge (quiet s) = s_challenge s"
  "s_rateRPS (quiet s) = s_rateRPS s" "s_rateBurst (quiet s) = s_rateBurst s" "s_floodRPS (quiet s) = s_floodRPS s"
  "s_authEnabled (quiet s) = s_authEnabled s" "s_authPaths (quiet s) = s_authPaths s" "s_geoMode (quiet s) = s_geoMode s"
  "s_geoCountries (quiet s) = s_geoCountries s" "s_tlsCert (quiet s) = s_tlsCert s" "s_tlsKey (quiet s) = s_tlsKey s"
  "s_hasTLS (quiet s) = s_hasTLS s" "s_forceHTTPS (quiet s) = s_forceHTTPS s" "s_acmeEnabled (quiet s) = s_acmeEnabled s"
  "s_acmeEmail (quiet s) = s_acmeEmail s" "s_enabled (quiet s) = s_enabled s" "s_rulesOff (quiet s) = s_rulesOff s"
  "s_createdAt (quiet s) = s_createdAt s"
  by (simp_all add: quiet_def)

lemma quiet_idem [simp]: "quiet (quiet s) = quiet s"
  by (simp add: quiet_def)

text \<open>Changes of other columns commute with \<open>quiet\<close>.\<close>

lemma quiet_updates [quiet_simps]:
  "(quiet s)\<lparr>s_name := n\<rparr> = quiet (s\<lparr>s_name := n\<rparr>)" "(quiet s)\<lparr>s_upstreamHost := n\<rparr> = quiet (s\<lparr>s_upstreamHost := n\<rparr>)"
  "(quiet s)\<lparr>s_domains := ds\<rparr> = quiet (s\<lparr>s_domains := ds\<rparr>)" "(quiet s)\<lparr>s_hasTLS := b\<rparr> = quiet (s\<lparr>s_hasTLS := b\<rparr>)"
  by (simp_all add: quiet_def)

lemma paths_quiet [quiet_simps]: "site_paths L U (quiet s) = quiet (site_paths L U s)"
  by (simp add: site_paths_def Let_def quiet_def)

lemma defaults_quiet [quiet_simps]: "site_defaults (quiet s) = quiet (site_defaults s)"
  by (simp add: site_defaults_def Let_def quiet_def)

lemma scan_quiet [quiet_simps]: "scanSite L U (quiet s) = quiet (scanSite L U s)"
  by (simp add: scanSite_def Let_def quiet_simps)

subsection \<open>The document\<close>

lemma insort_quiet: "insort_key s_createdAt (quiet x) (map quiet xs) = map quiet (insort_key s_createdAt x xs)"
  by (induction xs) (simp_all add: quiet_simps)

lemma order_quiet: "order_by s_createdAt (map quiet xs) = map quiet (order_by s_createdAt xs)"
  by (induction xs) (simp_all add: insort_quiet)

lemma entry_quiet [quiet_simps]: "site_entry L gens geo (quiet s) = site_entry L gens geo s"
  by (simp add: site_entry_def forSite_def Let_def quiet_simps)

lemma entries_quiet: "site_entries L gens geo (map quiet ss) m = site_entries L gens geo ss m"
  by (induction ss arbitrary: m) (simp_all add: quiet_simps)

lemma build_quiet: "build_sites U g (map quiet ss) r = build_sites U g ss r"
  by (induction ss arbitrary: r) (simp_all add: quiet_simps)

lemma resolve_quiet: "resolveGeo U geo st (map quiet ss) as = resolveGeo U geo st ss as"
  by (simp add: resolveGeo_def build_quiet split: option.split prod.split)

definition quiet_snapshot :: "snapshot \<Rightarrow> snapshot" where
  "quiet_snapshot n = n\<lparr>sn_sites := map quiet (sn_sites n)\<rparr>"

lemma config_quiet: "config_of P (quiet_snapshot n) = config_of P n"
  by (simp add: config_of_def quiet_snapshot_def resolve_quiet entries_quiet)

subsection \<open>The files\<close>

definition on_result :: "('a \<Rightarrow> 'b) \<Rightarrow> 'a result \<Rightarrow> 'b result" where
  "on_result f r = (case r of Inl e \<Rightarrow> Inl e | Inr x \<Rightarrow> Inr (f x))"

lemma on_result_simps [simp]: "on_result f (Inl e) = Inl e" "on_result f (Inr x) = Inr (f x)"
  by (simp_all add: on_result_def)

lemma acme_quiet: "check_acme (quiet s) = on_result quiet (check_acme s)"
  by (auto simp: check_acme_def quiet_simps Let_def quiet_def split: sum.splits option.splits)

lemma rest_quiet: "validate_rest L U (quiet s) = on_result quiet (validate_rest L U s)"
  by (cases "check_acme (site_defaults s)") (simp_all add: validate_rest_def Let_def quiet_simps acme_quiet)

lemma validate_quiet: "ValidateSite L U (quiet s) = on_result quiet (ValidateSite L U s)"
  by (cases "map_res (clean_domain L) (s_domains s)") (simp_all add: ValidateSite_def Let_def quiet_simps rest_quiet)

lemma lines_quiet: "render_lines opt (quiet s) = render_lines opt s"
  by (simp add: render_lines_def header_lines_def gate_lines_def proxy_lines_def body_lines_def listen_lines_def tls_lines_def
      server_names_def upstream_name_def proxy_target_def crt_path_def key_path_def quiet_simps)

lemma render_quiet: "renderSite L U (quiet s) opt = on_result (\<lambda>(s', c). (quiet s', c)) (renderSite L U s opt)"
  by (cases "ValidateSite L U s") (simp_all add: renderSite_def validate_quiet lines_quiet quiet_simps)

lemma certs_quiet: "write_certs X (quiet s) fs = write_certs X s fs"
  by (simp add: write_certs_def quiet_simps split: option.split prod.split)

lemma loop_quiet: "write_loop R (map quiet ss) keep fs = write_loop R ss keep fs"
proof (induction ss arbitrary: keep fs)
  case (Cons s ss)
  show ?case
  proof (cases "renderSite (re_lower R) (re_upper R) s (re_opt R)")
    case (Inl e)
    then show ?thesis by (simp add: render_quiet quiet_simps Cons.IH)
  next
    case (Inr x)
    obtain s' c where x: "x = (s', c)" by (rule prod.exhaust)
    show ?thesis
      by (simp add: render_quiet quiet_simps Cons.IH Inr x certs_quiet split: prod.split option.split)
  qed
qed simp

lemma files_quiet: "WriteSiteConfigs R (map quiet ss) fs = WriteSiteConfigs R ss fs"
  unfolding WriteSiteConfigs_def loop_quiet ..

subsection \<open>The settings in force\<close>

lemma account_not_global: "''acme_account'' \<noteq> settingsKey"
  by (simp add: settingsKey_def)

lemma put_account_effective: "effective (snd (PutSetting db ''acme_account'' v t)) = effective t"
proof (cases db)
  case None
  have "find_row fst settingsKey (upsert_row fst (\<lambda>r. r) (\<lambda>old r. (fst old, snd r)) (''acme_account'', v) t) = find_row fst settingsKey t"
    using account_not_global by (intro settings.upsert_find_other) simp
  then show ?thesis using None
    by (simp add: effective_def GetSettings_def PutSetting_def exec_plain_def SaveSettings_def query_def split: option.split prod.split sum.split)
qed (simp add: PutSetting_def exec_plain_def)

lemma client_effective: "effective (snd (acme_client X dir db1 db2 email t)) = effective t"
proof -
  have "effective t' = effective t" if "PutSetting db2 ''acme_account'' v t = (r, t')" for v r t'
    using put_account_effective [of db2 v t] that by simp
  then show ?thesis
    by (auto simp: acme_client_def split: sum.split option.split prod.split)
qed

lemma order_effective: "effective (st_settings (snd (Issue E s w))) = effective (st_settings w)"
  using client_effective [of "ae_lib E" "ae_dir E" "ae_get E" "ae_put E" "s_acmeEmail s" "st_settings w"]
  by (auto simp: Issue_def complete_order_def split: prod.split sum.split option.split)

subsection \<open>The contract of the order\<close>

lemma failure_quiet: "map quiet (snd (RecordACMEAttempt db now k e t)) = map quiet t"
  by (cases db) (auto simp: RecordACMEAttempt_def exec_plain_def update_rows_def quiet_def)

text \<open>What the publisher reads of the state an order works on.\<close>

definition order_view :: "acme_state \<Rightarrow> site list \<times> settings \<times> store_error option" where
  "order_view w = (map quiet (st_sites w), effective (st_settings w))"

lemma finish_order_lawful: "lawful order_view pub w (finish_issue V pub E reread site (Issue E site w))"
proof (cases "Issue E site w")
  case (Pair res w')
  show ?thesis
  proof (cases res)
    case None
    then show ?thesis using Pair
      by (cases "pub w'"; cases "GetSite (en_lower V) (en_upper V) reread (s_id site) (st_sites w')")
        (simp_all add: finish_issue_def lawful_publish, simp_all add: lawful_def)
  next
    case (Some e)
    then have "st_sites w' = st_sites w" "effective (st_settings w') = effective (st_settings w)"
      using Issue_cases [of E site w] order_effective [of E site w] Pair by auto
    then show ?thesis using Pair Some
      by (simp add: finish_issue_def lawful_refuse failure_quiet order_view_def)
  qed
qed

interpretation manual_order: admin_change order_view pub "handleIssueCertificate V leaf fmt pub E db reread k"
  for pub V leaf fmt E db reread k
  by (rule lawful_change, unfold handleIssueCertificate_def, intro lawful_rules finish_order_lawful)
    (simp_all add: wait_reply_def)

lemma order_keeps_settings:
  "effective (st_settings (fst (snd (handleIssueCertificate V leaf fmt pub E db reread k w)))) = effective (st_settings w)"
proof -
  have "effective (st_settings (fst (snd (finish_issue V pub E reread site (Issue E site w))))) = effective (st_settings w)" for site
    using order_effective [of E site w]
    by (cases "Issue E site w") (auto simp: finish_issue_def refuse_def publish_then_def split: option.split sum.split)
  then show ?thesis
    by (auto simp: handleIssueCertificate_def with_result_def refuse_def split: sum.split)
qed

end
