(* ===== verification/ApiSystem.thy ===== *)
theory ApiSystem
  imports ApiSiteTable ApiBookkeeping ApiRules ApiAccessRules ApiSettings ApiSiteUsers
begin

section \<open>The API and the publisher together\<close>

text \<open>
  What an operator's request does end to end: the handlers of \<open>control/internal/api\<close> run on the tables of
  the store, and the publisher they ask is \<open>Publish\<close> of \<open>control/internal/engine/publisher.go\<close> on those
  tables, whose result is the document, the files and the version the data plane works from. \<open>serve\<close> is one
  request, chosen as the multiplexer chooses the handler; \<open>serve_all\<close> is a sequence of them, each with the
  environment of its moment (clock, failures of Postgres and Redis, file system).

  A deletion of a site takes its accounts along (ON DELETE CASCADE of the schema). The order of a certificate works
  on the sites, on the settings, where the account of the certificate authority is kept, and on the challenge
  tokens in Redis; what it records of a failure is not published (\<open>ApiBookkeeping\<close>).

  The locale \<open>published_part\<close> is the contract between a handler's own table and all tables: how it is taken
  out and put back, and which part of it the publisher reads. Its lemmas lift the contract of
  \<open>ApiPublish\<close>, which every handler meets, to the whole system; it is interpreted for each table.
\<close>

subsection \<open>The state and the requests\<close>

record sys =
  sy_tables :: tables
  sy_deployed :: deployed
  sy_tokens :: tokens

text \<open>The moment of a request: the libraries of the API, the publisher's environment, the errors of the statements.\<close>

record server =
  sv_api :: api_env
  sv_pub :: pub_env
  sv_reads :: pub_db
  sv_db1 :: "string option"
  sv_db2 :: "string option"
  sv_db3 :: "string option"
  sv_stmt :: "nat \<Rightarrow> string option"
  sv_now :: int
  sv_hash :: "string \<Rightarrow> string result"
  sv_regex :: "string \<Rightarrow> string option"
  sv_leaf :: "string \<Rightarrow> string list option"
  sv_fmt :: "int \<Rightarrow> string"
  sv_acme :: acme_env
  sv_reread :: "string option"

datatype request =
    CreateSite string "string option" | UpdateSite string "string option" | DropSite string
  | NewRule string "string option" | EditRule string "string option" | ToggleRule string "string option" | RemoveRule string
  | NewAccess string "string option" | EditAccess string "string option" | RemoveAccess string | ReorderAccess "string option"
  | PutSettings "string option" | UnderAttack "string option"
  | AddAddress "string option" | RemoveAddress string
  | NewAccount string "string option" | AccountPassword string string "string option"
  | RevokeAccount string string | RemoveAccount string string
  | IssueCertificate string
  | Republish

subsection \<open>One request\<close>

text \<open>
  A handler works on one part of the state, \<open>put\<close> back into it; what it asks of the publisher is the error of
  publishing the tables as they are then. When it asked, the publication happens.
\<close>

definition run_change ::
  "(sys \<Rightarrow> 't) \<Rightarrow> ('t \<Rightarrow> sys \<Rightarrow> sys) \<Rightarrow> server \<Rightarrow> (('t \<Rightarrow> string option) \<Rightarrow> 't \<Rightarrow> ('a, 't) outcome) \<Rightarrow> sys \<Rightarrow> int \<times> sys" where
  "run_change get put S h s =
     (let publish = (\<lambda>t. Publish (sv_pub S) (sv_reads S) (sy_tables (put t s)) (sy_deployed s))
      in case h (\<lambda>t. fst (publish t)) (get s) of
           (r, t', asked) \<Rightarrow>
             if asked then (case publish t' of (err, tb, d) \<Rightarrow> (rp_code r, (put t' s)\<lparr>sy_tables := tb, sy_deployed := d\<rparr>))
             else (rp_code r, put t' s))"

text \<open>The accounts of a site go with it.\<close>

definition cascade :: "site list \<Rightarrow> site list \<Rightarrow> su_table \<Rightarrow> su_table" where
  "cascade old new acc = acc\<lparr>sut_rows := filter (\<lambda>r. \<not> (List.member (map s_id old) (sr_siteID r) \<and> \<not> List.member (map s_id new) (sr_siteID r))) (sut_rows acc)\<rparr>"

definition put_sites :: "site list \<Rightarrow> tables \<Rightarrow> tables" where
  "put_sites t tb = tb\<lparr>tb_sites := t, tb_accounts := cascade (tb_sites tb) t (tb_accounts tb)\<rparr>"

definition put_table :: "('t \<Rightarrow> tables \<Rightarrow> tables) \<Rightarrow> 't \<Rightarrow> sys \<Rightarrow> sys" where
  "put_table put t s = s\<lparr>sy_tables := put t (sy_tables s)\<rparr>"

abbreviation on_table :: "(tables \<Rightarrow> 't) \<Rightarrow> ('t \<Rightarrow> tables \<Rightarrow> tables) \<Rightarrow> server \<Rightarrow>
    (('t \<Rightarrow> string option) \<Rightarrow> 't \<Rightarrow> ('a, 't) outcome) \<Rightarrow> sys \<Rightarrow> int \<times> sys" where
  "on_table get put \<equiv> run_change (\<lambda>s. get (sy_tables s)) (put_table put)"

abbreviation on_sites :: "server \<Rightarrow> ((site list \<Rightarrow> string option) \<Rightarrow> site list \<Rightarrow> ('a, site list) outcome) \<Rightarrow> sys \<Rightarrow> int \<times> sys" where
  "on_sites \<equiv> on_table tb_sites put_sites"

abbreviation on_rules :: "server \<Rightarrow> ((rule list \<Rightarrow> string option) \<Rightarrow> rule list \<Rightarrow> ('a, rule list) outcome) \<Rightarrow> sys \<Rightarrow> int \<times> sys" where
  "on_rules \<equiv> on_table tb_rules (\<lambda>t tb. tb\<lparr>tb_rules := t\<rparr>)"

abbreviation on_access :: "server \<Rightarrow> ((access_rule list \<Rightarrow> string option) \<Rightarrow> access_rule list \<Rightarrow> ('a, access_rule list) outcome) \<Rightarrow> sys \<Rightarrow> int \<times> sys" where
  "on_access \<equiv> on_table tb_access (\<lambda>t tb. tb\<lparr>tb_access := t\<rparr>)"

abbreviation on_settings :: "server \<Rightarrow> ((settings_row list \<Rightarrow> string option) \<Rightarrow> settings_row list \<Rightarrow> ('a, settings_row list) outcome) \<Rightarrow> sys \<Rightarrow> int \<times> sys" where
  "on_settings \<equiv> on_table tb_settings (\<lambda>t tb. tb\<lparr>tb_settings := t\<rparr>)"

abbreviation on_addresses :: "server \<Rightarrow> ((ip_table \<Rightarrow> string option) \<Rightarrow> ip_table \<Rightarrow> ('a, ip_table) outcome) \<Rightarrow> sys \<Rightarrow> int \<times> sys" where
  "on_addresses \<equiv> on_table tb_ips (\<lambda>t tb. tb\<lparr>tb_ips := t\<rparr>)"

abbreviation on_accounts :: "server \<Rightarrow> ((su_table \<Rightarrow> string option) \<Rightarrow> su_table \<Rightarrow> ('a, su_table) outcome) \<Rightarrow> sys \<Rightarrow> int \<times> sys" where
  "on_accounts \<equiv> on_table tb_accounts (\<lambda>t tb. tb\<lparr>tb_accounts := t\<rparr>)"

text \<open>The state a certificate is ordered on. No site is added or removed, so no account goes.\<close>

definition get_order :: "sys \<Rightarrow> acme_state" where
  "get_order s = \<lparr>st_sites = tb_sites (sy_tables s), st_settings = tb_settings (sy_tables s), st_tokens = sy_tokens s\<rparr>"

definition put_order :: "acme_state \<Rightarrow> sys \<Rightarrow> sys" where
  "put_order w s = s\<lparr>sy_tables := (sy_tables s)\<lparr>tb_sites := st_sites w, tb_settings := st_settings w\<rparr>, sy_tokens := st_tokens w\<rparr>"

fun serve :: "server \<Rightarrow> request \<Rightarrow> sys \<Rightarrow> int \<times> sys" where
  "serve S (CreateSite rid body) s = on_sites S (\<lambda>pub. handleCreateSite (sv_api S) pub (sv_db1 S) (sv_now S) rid body) s"
| "serve S (UpdateSite k body) s = on_sites S (\<lambda>pub. handleUpdateSite (sv_api S) pub (sv_db1 S) (sv_db2 S) (sv_now S) k body) s"
| "serve S (DropSite k) s = on_sites S (\<lambda>pub. handleDeleteSite pub (sv_db1 S) k) s"
| "serve S (NewRule rid body) s = on_rules S (\<lambda>pub. handleCreateRule (sv_api S) (sv_regex S) pub (sv_db1 S) (sv_db2 S) (sv_now S) rid body) s"
| "serve S (EditRule k body) s = on_rules S (\<lambda>pub. handleUpdateRule (sv_api S) (sv_regex S) pub (sv_db1 S) (sv_db2 S) (sv_now S) k body) s"
| "serve S (ToggleRule k body) s = on_rules S (\<lambda>pub. handleToggleRule (sv_api S) pub (sv_db1 S) k body) s"
| "serve S (RemoveRule k) s = on_rules S (\<lambda>pub. handleDeleteRule pub (sv_db1 S) k) s"
| "serve S (NewAccess rid body) s = on_access S (\<lambda>pub. handleCreateAccessRule (sv_api S) pub (sv_db1 S) (sv_db2 S) (sv_now S) rid body) s"
| "serve S (EditAccess k body) s = on_access S (\<lambda>pub. handleUpdateAccessRule (sv_api S) pub (sv_db1 S) (sv_db2 S) (sv_now S) k body) s"
| "serve S (RemoveAccess k) s = on_access S (\<lambda>pub. handleDeleteAccessRule pub (sv_db1 S) k) s"
| "serve S (ReorderAccess body) s = on_access S (\<lambda>pub. handleReorderAccessRules (sv_api S) pub (sv_db1 S) (sv_stmt S) (sv_db2 S) (sv_now S) body) s"
| "serve S (PutSettings body) s = on_settings S (\<lambda>pub. handleUpdateSettings (sv_api S) pub (sv_db1 S) (sv_db2 S) (sv_db3 S) body) s"
| "serve S (UnderAttack body) s = on_settings S (\<lambda>pub. handleUnderAttack (sv_api S) pub (sv_db1 S) (sv_db2 S) (sv_db3 S) body) s"
| "serve S (AddAddress body) s = on_addresses S (\<lambda>pub. handleAddIP (sv_api S) pub (sv_db1 S) (sv_now S) body) s"
| "serve S (RemoveAddress raw) s = on_addresses S (\<lambda>pub. handleDeleteIP pub (sv_db1 S) raw) s"
| "serve S (NewAccount k body) s = on_accounts S (\<lambda>pub. handleCreateSiteUser (sv_api S) (sv_hash S) pub (sv_db1 S) (sv_db2 S) (sv_now S)
     (tb_sites (sy_tables s)) k body) s"
| "serve S (AccountPassword k raw body) s = on_accounts S (\<lambda>pub. handleSetSiteUserPassword (sv_api S) (sv_hash S) pub (sv_db1 S) (sv_db2 S) k raw body) s"
| "serve S (RevokeAccount k raw) s = on_accounts S (\<lambda>pub. handleRevokeSiteUser pub (sv_db1 S) (sv_db2 S) k raw) s"
| "serve S (RemoveAccount k raw) s = on_accounts S (\<lambda>pub. handleDeleteSiteUser pub (sv_db1 S) (sv_db2 S) k raw) s"
| "serve S (IssueCertificate k) s = run_change get_order put_order S
     (\<lambda>pub. handleIssueCertificate (sv_api S) (sv_leaf S) (sv_fmt S) pub (sv_acme S) (sv_db1 S) (sv_reread S) k) s"
| "serve S Republish s = on_rules S (\<lambda>pub. handlePublish pub (pe_millis (sv_pub S))) s"

fun serve_all :: "(server \<times> request) list \<Rightarrow> sys \<Rightarrow> int list \<times> sys" where
  "serve_all [] s = ([], s)"
| "serve_all ((S, q) # qs) s = (case serve S q s of (code, s1) \<Rightarrow> (case serve_all qs s1 of (cs, s2) \<Rightarrow> (code # cs, s2)))"

subsection \<open>What the data plane works from\<close>

text \<open>
  The document is the one of these tables, made in the environment \<open>P\<close>; the version is its own, and the
  files are those of a complete run over its sites.
\<close>

definition deployed_from :: "pub_env \<Rightarrow> tables \<Rightarrow> deployed \<Rightarrow> bool" where
  "deployed_from P tb d \<longleftrightarrow> (case effective (tb_settings tb) of
       (st, Some e) \<Rightarrow> False
     | (st, None) \<Rightarrow>
         dp_config d = Some (config_of P (snapshot_of P st tb)) \<and> dp_version d = pe_millis P
         \<and> (\<exists>fs. WriteSiteConfigs (pe_render P) (sn_sites (snapshot_of P st tb)) fs = (None, dp_files d)))"

text \<open>The part of the tables the publisher reads; \<open>v\<close> is what counts of a site.\<close>

definition same_tables :: "(site \<Rightarrow> site) \<Rightarrow> tables \<Rightarrow> tables \<Rightarrow> bool" where
  "same_tables v tb tb' \<longleftrightarrow> effective (tb_settings tb') = effective (tb_settings tb) \<and> map v (tb_sites tb') = map v (tb_sites tb)
     \<and> tb_rules tb' = tb_rules tb \<and> ipt_rows (tb_ips tb') = ipt_rows (tb_ips tb)
     \<and> sut_rows (tb_accounts tb') = sut_rows (tb_accounts tb) \<and> tb_access tb' = tb_access tb"

text \<open>What a request may leave behind when it is refused: an order of a certificate records its failure, the others nothing.\<close>

fun kept_part :: "request \<Rightarrow> site \<Rightarrow> site" where
  "kept_part (IssueCertificate k) = quiet"
| "kept_part q = (\<lambda>s. s)"

lemma kept_part_cases: "kept_part q = quiet \<or> kept_part q = (\<lambda>s. s)"
  by (cases q) simp_all

lemma generation_rows: "sut_rows t = sut_rows u \<Longrightarrow> generation_of t = generation_of u"
  by (simp add: generation_of_def SiteGenerations_def fun_eq_iff)

lemma snapshot_same: "same_tables quiet tb tb' \<Longrightarrow> quiet_snapshot (snapshot_of P st tb') = quiet_snapshot (snapshot_of P st tb)"
proof -
  assume a: "same_tables quiet tb tb'"
  let ?scan = "scanSite (re_lower (pe_render P)) (re_upper (pe_render P))"
  have q: "map quiet (map ?scan (order_by s_createdAt t)) = map ?scan (order_by s_createdAt (map quiet t))" for t
    by (simp add: order_quiet quiet_simps)
  show ?thesis using a generation_rows [of "tb_accounts tb'" "tb_accounts tb"]
    unfolding same_tables_def snapshot_of_def quiet_snapshot_def by (simp add: q del: map_map)
qed

lemma deployed_same:
  assumes "deployed_from P tb d" and same: "same_tables (kept_part q) tb tb'"
  shows "deployed_from P tb' d"
proof -
  have s: "same_tables quiet tb tb'" using same kept_part_cases [of q] by (auto simp: same_tables_def)
  have e: "effective (tb_settings tb') = effective (tb_settings tb)" using s by (simp add: same_tables_def)
  have "config_of P (snapshot_of P st tb') = config_of P (snapshot_of P st tb)" for st
    using config_quiet snapshot_same [OF s] by metis
  moreover have "WriteSiteConfigs R (sn_sites (snapshot_of P st tb')) fs = WriteSiteConfigs R (sn_sites (snapshot_of P st tb)) fs" for R st fs
    using files_quiet snapshot_same [OF s, of P st] by (metis quiet_snapshot_def snapshot.select_convs(2) snapshot.surjective snapshot.update_convs(2))
  ultimately show ?thesis using assms(1) by (simp only: deployed_from_def e)
qed

lemma published_deploys:
  assumes "Publish P db tb d = (None, tb', d')"
  shows "deployed_from P tb' d'"
proof -
  obtain st where s: "read_settings P db tb = (Inr st, tb')" and d: "deploy P db (snapshot_of P st tb') d = (None, d')"
    using assms by (auto simp: Publish_def read_tables_iff split: prod.splits sum.splits)
  obtain t' where g: "GetSettings (pd_settings db) (pd_defaults db) (tb_settings tb) = ((st, None), t')" and tb': "tb' = tb\<lparr>tb_settings := t'\<rparr>"
    using s by (auto simp: read_settings_def split: prod.splits option.splits)
  have "effective t' = effective (tb_settings tb)" using reading_keeps [of "pd_settings db" "pd_defaults db" "tb_settings tb"] g by simp
  then have "effective (tb_settings tb') = (st, None)" using read_settings_Inr(1) [OF s] by (simp add: tb' effective_def)
  then show ?thesis using d by (auto simp: deployed_from_def deploy_def Let_def split: option.splits prod.splits)
qed

subsection \<open>The contract of a table\<close>

text \<open>What a request may do: succeed and be in force, or leave the published part alone, or be a 500.\<close>

definition change_ok :: "(site \<Rightarrow> site) \<Rightarrow> server \<Rightarrow> sys \<Rightarrow> int \<times> sys \<Rightarrow> bool" where
  "change_ok v S s out \<longleftrightarrow> (case out of (code, s') \<Rightarrow>
     (code < 400 \<longrightarrow> deployed_from (sv_pub S) (sy_tables s') (sy_deployed s'))
     \<and> (400 \<le> code \<and> code \<noteq> 500 \<longrightarrow> deployed_from (sv_pub S) (sy_tables s') (sy_deployed s')
          \<or> sy_deployed s' = sy_deployed s \<and> same_tables v (sy_tables s) (sy_tables s')))"

locale published_part =
  fixes get :: "sys \<Rightarrow> 't" and put :: "'t \<Rightarrow> sys \<Rightarrow> sys" and view :: "'t \<Rightarrow> 'v" and v :: "site \<Rightarrow> site"
  assumes same: "view t = view (get s) \<Longrightarrow> same_tables v (sy_tables s) (sy_tables (put t s))"
    and running: "sy_deployed (put t s) = sy_deployed s"
begin

lemma change_lawful:
  assumes "\<And>pub. lawful view pub (get s) (h pub (get s))"
  shows "change_ok v S s (run_change get put S h s)"
proof -
  let ?p = "\<lambda>t. Publish (sv_pub S) (sv_reads S) (sy_tables (put t s)) (sy_deployed s)"
  obtain r t' asked where h: "h (\<lambda>t. fst (?p t)) (get s) = (r, t', asked)" by (rule prod_cases3)
  obtain err tb d where p: "?p t' = (err, tb, d)" by (rule prod_cases3)
  have "lawful view (\<lambda>t. fst (?p t)) (get s) (r, t', asked)"
    using assms [of "\<lambda>t. fst (?p t)"] by (simp only: h)
  then have l: "rp_code r < 400 \<longrightarrow> asked \<and> err = None" "\<not> asked \<longrightarrow> view t' = view (get s)"
    "asked \<and> err \<noteq> None \<longrightarrow> rp_code r = 500"
    unfolding lawful_def prod.case p fst_conv by blast+
  show ?thesis
  proof (cases asked)
    case True
    have run: "run_change get put S h s = (rp_code r, (put t' s)\<lparr>sy_tables := tb, sy_deployed := d\<rparr>)"
      by (simp only: run_change_def Let_def h p True prod.case if_True)
    show ?thesis
    proof (cases err)
      case None
      have "deployed_from (sv_pub S) tb d" by (rule published_deploys) (use p None in simp)
      then show ?thesis by (simp add: run change_ok_def)
    next
      case (Some e)
      then have "rp_code r = 500" using l(3) True by simp
      then show ?thesis by (simp add: run change_ok_def)
    qed
  next
    case False
    have run: "run_change get put S h s = (rp_code r, put t' s)"
      by (simp only: run_change_def Let_def h prod.case False if_False)
    have "\<not> rp_code r < 400" using l(1) False by blast
    moreover have "same_tables v (sy_tables s) (sy_tables (put t' s))" by (rule same) (use l(2) False in blast)
    ultimately show ?thesis using running [of t' s] by (simp add: run change_ok_def)
  qed
qed

end

lemma cascade_same [simp]: "cascade old old acc = acc"
  by (simp add: cascade_def)

interpretation site_part: published_part "\<lambda>s. tb_sites (sy_tables s)" "put_table put_sites" "\<lambda>t. t" "\<lambda>s. s"
  by unfold_locales (simp_all add: same_tables_def put_sites_def put_table_def)

interpretation rule_part: published_part "\<lambda>s. tb_rules (sy_tables s)" "put_table (\<lambda>t tb. tb\<lparr>tb_rules := t\<rparr>)" "\<lambda>t. t" "\<lambda>s. s"
  by unfold_locales (simp_all add: same_tables_def put_table_def)

interpretation access_part: published_part "\<lambda>s. tb_access (sy_tables s)" "put_table (\<lambda>t tb. tb\<lparr>tb_access := t\<rparr>)" "\<lambda>t. t" "\<lambda>s. s"
  by unfold_locales (simp_all add: same_tables_def put_table_def)

interpretation settings_part: published_part "\<lambda>s. tb_settings (sy_tables s)" "put_table (\<lambda>t tb. tb\<lparr>tb_settings := t\<rparr>)" effective "\<lambda>s. s"
  by unfold_locales (simp_all add: same_tables_def put_table_def)

interpretation address_part: published_part "\<lambda>s. tb_ips (sy_tables s)" "put_table (\<lambda>t tb. tb\<lparr>tb_ips := t\<rparr>)" ipt_rows "\<lambda>s. s"
  by unfold_locales (simp_all add: same_tables_def put_table_def)

interpretation account_part: published_part "\<lambda>s. tb_accounts (sy_tables s)" "put_table (\<lambda>t tb. tb\<lparr>tb_accounts := t\<rparr>)" sut_rows "\<lambda>s. s"
  by unfold_locales (simp_all add: same_tables_def put_table_def)

interpretation order_part: published_part get_order put_order order_view quiet
  by unfold_locales (simp_all add: same_tables_def order_view_def get_order_def put_order_def)

text \<open>The contract of \<open>ApiPublish\<close> as the premise the locale takes.\<close>

lemma lawful_of:
  assumes a: "admin_change view pub handler"
  shows "lawful view pub t (handler t)"
proof -
  obtain r t' p where h: "handler t = (r, t', p)" by (rule prod_cases3)
  have "p \<and> pub t' = None" if "rp_code r < 400" by (rule admin_change.told [OF a h that])
  moreover have "view t' = view t" if "\<not> p" by (rule admin_change.kept [OF a, of t r t']) (use h that in simp)
  moreover have "rp_code r = 500" if "p" "pub t' \<noteq> None" by (rule admin_change.failed [OF a, of t r t']) (use h that in simp_all)
  ultimately show ?thesis unfolding lawful_def h prod.case by blast
qed

lemma create_site_same: "lawful (\<lambda>t. t) pub t (handleCreateSite V pub db now rid body t)"
  unfolding handleCreateSite_def by (intro lawful_rules)

lemma update_site_same: "lawful (\<lambda>t. t) pub t (handleUpdateSite V pub db1 db2 now k body t)"
  unfolding handleUpdateSite_def by (intro lawful_rules)

lemma delete_site_same: "lawful (\<lambda>t. t) pub t (handleDeleteSite pub db k t)"
  unfolding handleDeleteSite_def
  by (intro lawful_commit lawful_rules) (auto simp: DeleteSite_def dest!: exec_affected_fails intro: delete_rows_zero)

lemmas site_lawful = create_site_same update_site_same delete_site_same

lemma serve_ok: "change_ok (kept_part q) S s (serve S q s)"
proof (cases q)
  case (CreateSite rid body)
  show ?thesis unfolding CreateSite serve.simps kept_part.simps by (rule site_part.change_lawful) (rule site_lawful)
next
  case (UpdateSite k body)
  show ?thesis unfolding UpdateSite serve.simps kept_part.simps by (rule site_part.change_lawful) (rule site_lawful)
next
  case (DropSite k)
  show ?thesis unfolding DropSite serve.simps kept_part.simps by (rule site_part.change_lawful) (rule site_lawful)
next
  case (NewRule rid body)
  show ?thesis unfolding NewRule serve.simps kept_part.simps by (rule rule_part.change_lawful, rule lawful_of) (rule create_rule.admin_change_axioms)
next
  case (EditRule k body)
  show ?thesis unfolding EditRule serve.simps kept_part.simps by (rule rule_part.change_lawful, rule lawful_of) (rule update_rule.admin_change_axioms)
next
  case (ToggleRule k body)
  show ?thesis unfolding ToggleRule serve.simps kept_part.simps by (rule rule_part.change_lawful, rule lawful_of) (rule toggle_rule.admin_change_axioms)
next
  case (RemoveRule k)
  show ?thesis unfolding RemoveRule serve.simps kept_part.simps by (rule rule_part.change_lawful, rule lawful_of) (rule delete_rule.admin_change_axioms)
next
  case (NewAccess rid body)
  show ?thesis unfolding NewAccess serve.simps kept_part.simps by (rule access_part.change_lawful, rule lawful_of) (rule create_access_rule.admin_change_axioms)
next
  case (EditAccess k body)
  show ?thesis unfolding EditAccess serve.simps kept_part.simps by (rule access_part.change_lawful, rule lawful_of) (rule update_access_rule.admin_change_axioms)
next
  case (RemoveAccess k)
  show ?thesis unfolding RemoveAccess serve.simps kept_part.simps by (rule access_part.change_lawful, rule lawful_of) (rule delete_access_rule.admin_change_axioms)
next
  case (ReorderAccess body)
  show ?thesis unfolding ReorderAccess serve.simps kept_part.simps by (rule access_part.change_lawful, rule lawful_of) (rule reorder_access_rules.admin_change_axioms)
next
  case (PutSettings body)
  show ?thesis unfolding PutSettings serve.simps kept_part.simps by (rule settings_part.change_lawful, rule lawful_of) (rule update_settings.admin_change_axioms)
next
  case (UnderAttack body)
  show ?thesis unfolding UnderAttack serve.simps kept_part.simps by (rule settings_part.change_lawful, rule lawful_of) (rule under_attack.admin_change_axioms)
next
  case (AddAddress body)
  show ?thesis unfolding AddAddress serve.simps kept_part.simps by (rule address_part.change_lawful, rule lawful_of) (rule add_ip.admin_change_axioms)
next
  case (RemoveAddress raw)
  show ?thesis unfolding RemoveAddress serve.simps kept_part.simps by (rule address_part.change_lawful, rule lawful_of) (rule delete_ip.admin_change_axioms)
next
  case (NewAccount k body)
  show ?thesis unfolding NewAccount serve.simps kept_part.simps by (rule account_part.change_lawful, rule lawful_of) (rule create_account.admin_change_axioms)
next
  case (AccountPassword k raw body)
  show ?thesis unfolding AccountPassword serve.simps kept_part.simps by (rule account_part.change_lawful, rule lawful_of) (rule set_password.admin_change_axioms)
next
  case (RevokeAccount k raw)
  show ?thesis unfolding RevokeAccount serve.simps kept_part.simps by (rule account_part.change_lawful, rule lawful_of) (rule revoke_account.admin_change_axioms)
next
  case (RemoveAccount k raw)
  show ?thesis unfolding RemoveAccount serve.simps kept_part.simps by (rule account_part.change_lawful, rule lawful_of) (rule delete_account.admin_change_axioms)
next
  case (IssueCertificate k)
  show ?thesis unfolding IssueCertificate serve.simps kept_part.simps
    by (rule order_part.change_lawful, rule lawful_of) (rule manual_order.admin_change_axioms)
next
  case Republish
  show ?thesis unfolding Republish serve.simps kept_part.simps by (rule rule_part.change_lawful, rule lawful_of) (rule republish.admin_change_axioms)
qed

subsection \<open>What the operator is told\<close>

text \<open>
  C7 whatever an operator asks for, the answer says what the data plane does. A success means that its
  document, files and version were made from the tables as they are now, the change included. A refusal
  means that nothing changed: the data plane works from what it had, and no table it is made from moved - but
  for the text and time of a failed order of a certificate, which are recorded on the row of its site and
  not published - or the publication itself succeeded. Only a 500 leaves the two apart, and it says so.
\<close>

theorem change_in_force:
  assumes "serve S q s = (code, s')"
  shows "(code < 400 \<longrightarrow> deployed_from (sv_pub S) (sy_tables s') (sy_deployed s'))
    \<and> (400 \<le> code \<and> code \<noteq> 500 \<longrightarrow> deployed_from (sv_pub S) (sy_tables s') (sy_deployed s')
         \<or> sy_deployed s' = sy_deployed s \<and> same_tables (kept_part q) (sy_tables s) (sy_tables s'))"
  using serve_ok [of q S s] by (simp add: assms change_ok_def)

definition demo_server :: server where
  "demo_server = \<lparr>sv_api = demo_api, sv_pub = demo_pub_env, sv_reads = demo_pub_db, sv_db1 = None, sv_db2 = None, sv_db3 = None,
     sv_stmt = (\<lambda>k. None), sv_now = 0, sv_hash = Inr, sv_regex = (\<lambda>p. None), sv_leaf = (\<lambda>c. None), sv_fmt = itoa, sv_acme = demo_env, sv_reread = None\<rparr>"

definition demo_sys :: sys where
  "demo_sys = \<lparr>sy_tables = demo_tables, sy_deployed = demo_deployed, sy_tokens = Map.empty\<rparr>"

lemma demo_republish: "fst (serve demo_server Republish demo_sys) = 200"
proof -
  obtain tb d where p: "Publish demo_pub_env demo_pub_db demo_tables demo_deployed = (None, tb, d)"
    using demo_publish_ok by (metis prod.collapse)
  have "demo_tables\<lparr>tb_rules := tb_rules demo_tables\<rparr> = demo_tables" by simp
  then show ?thesis by (simp add: run_change_def put_table_def demo_server_def demo_sys_def handlePublish_def publish_then_def p)
qed

lemma change_in_force_witness:
  "fst (serve demo_server Republish demo_sys) = 200 \<and> (case snd (serve demo_server Republish demo_sys) of s' \<Rightarrow>
     deployed_from demo_pub_env (sy_tables s') (sy_deployed s'))"
proof -
  obtain s' where s: "serve demo_server Republish demo_sys = (200, s')"
    using demo_republish by (metis prod.collapse)
  have "sv_pub demo_server = demo_pub_env" by (simp add: demo_server_def)
  then show ?thesis using change_in_force [OF s] by (simp only: s fst_conv snd_conv)
qed

subsection \<open>Sequences of requests\<close>

definition in_step :: "sys \<Rightarrow> bool" where
  "in_step s \<longleftrightarrow> (\<exists>P. deployed_from P (sy_tables s) (sy_deployed s))"

lemma serve_in_step:
  assumes "serve S q s = (code, s')"
  shows "code < 400 \<Longrightarrow> in_step s'" "in_step s \<Longrightarrow> code \<noteq> 500 \<Longrightarrow> in_step s'"
proof -
  have ok: "change_ok (kept_part q) S s (code, s')" using serve_ok [of q S s] by (simp only: assms)
  show a: "code < 400 \<Longrightarrow> in_step s'" using ok unfolding change_ok_def in_step_def prod.case by blast
  assume s: "in_step s" "code \<noteq> 500"
  show "in_step s'"
  proof (cases "code < 400")
    case False
    then have "deployed_from (sv_pub S) (sy_tables s') (sy_deployed s') \<or> sy_deployed s' = sy_deployed s \<and> same_tables (kept_part q) (sy_tables s) (sy_tables s')"
      using ok s(2) unfolding change_ok_def prod.case by linarith
    then show ?thesis using s(1) deployed_same unfolding in_step_def by metis
  qed (rule a)
qed

lemma serve_all_Cons:
  assumes "serve_all ((S, q) # qs) s = (cs, s')"
  obtains c s1 cs1 where "serve S q s = (c, s1)" "serve_all qs s1 = (cs1, s')" "cs = c # cs1"
  using assms by (auto split: prod.splits)

lemma serve_all_quiet: "serve_all qs s = (cs, s') \<Longrightarrow> in_step s \<Longrightarrow> 500 \<notin> set cs \<Longrightarrow> in_step s'"
proof (induction qs arbitrary: s cs)
  case (Cons x qs)
  obtain S q where x: "x = (S, q)" by (rule prod.exhaust)
  obtain c s1 cs1 where 1: "serve S q s = (c, s1)" "serve_all qs s1 = (cs1, s')" "cs = c # cs1"
    using serve_all_Cons Cons.prems(1) unfolding x by blast
  have "in_step s1" using serve_in_step(2) [OF 1(1)] Cons.prems(2,3) 1(3) by simp
  then show ?case using Cons.IH [OF 1(2)] Cons.prems(3) 1(3) by simp
qed simp

text \<open>
  C8 the data plane follows the tables through any sequence of requests, each in an environment of its
  own: when it was in step before and no answer was a 500, and again from the first success after the
  last 500, it works from the sites, rules, settings, addresses, accounts and access rules as stored.
\<close>

theorem data_plane_follows:
  assumes "serve_all qs s = (cs, s')"
    and "in_step s \<and> 500 \<notin> set cs \<or> (\<exists>k < length cs. cs ! k < 400 \<and> 500 \<notin> set (drop k cs))"
  shows "in_step s'"
  using assms
proof (induction qs arbitrary: s cs)
  case (Cons x qs)
  obtain S q where x: "x = (S, q)" by (rule prod.exhaust)
  obtain c s1 cs1 where 1: "serve S q s = (c, s1)" "serve_all qs s1 = (cs1, s')" "cs = c # cs1"
    using serve_all_Cons Cons.prems(1) unfolding x by blast
  show ?case
    using Cons.prems(2)
  proof (elim disjE exE conjE)
    assume "in_step s" "500 \<notin> set cs"
    then show ?thesis using serve_all_quiet [OF Cons.prems(1)] by blast
  next
    fix k assume k: "k < length cs" "cs ! k < 400" "500 \<notin> set (drop k cs)"
    show ?thesis
    proof (cases k)
      case 0
      then show ?thesis using serve_all_quiet [OF 1(2)] serve_in_step(1) [OF 1(1)] k 1(3) by simp
    next
      case (Suc j)
      then show ?thesis using Cons.IH [OF 1(2)] k 1(3) by auto
    qed
  qed
qed auto

lemma data_plane_follows_witness: "in_step (snd (serve_all [(demo_server, Republish)] demo_sys))"
proof -
  obtain s' where s: "serve demo_server Republish demo_sys = (200, s')"
    using demo_republish by (metis prod.collapse)
  have "serve_all [(demo_server, Republish)] demo_sys = ([200], s')" by (simp only: serve_all.simps s prod.case)
  from data_plane_follows [OF this] show ?thesis by (simp only: \<open>serve_all _ _ = _\<close>) simp
qed

subsection \<open>No sequence of requests blocks the next publication\<close>

text \<open>The id of a new site is the one \<open>newSiteID\<close> makes, a certificate comes as \<open>encoding/pem\<close> writes it, and the texts are of one library.\<close>

definition request_ok :: "(string \<Rightarrow> string) \<Rightarrow> server \<times> request \<Rightarrow> bool" where
  "request_ok L x \<longleftrightarrow> (case x of (S, q) \<Rightarrow> en_lower (sv_api S) = L \<and> (case q of CreateSite rid body \<Rightarrow> hex_id rid | IssueCertificate k \<Rightarrow> pem_ok (ae_lib (sv_acme S)) | other \<Rightarrow> True))"

lemma publish_keeps_sites: "Publish P db tb d = (err, tb', d') \<Longrightarrow> tb_sites tb' = tb_sites tb"
  by (auto simp: Publish_def read_settings_def split: prod.splits option.splits sum.splits)

lemma publish_keeps_settings:
  assumes "Publish P db tb d = (err, tb', d')"
  shows "effective (tb_settings tb') = effective (tb_settings tb)"
proof -
  obtain st e t' where g: "GetSettings (pd_settings db) (pd_defaults db) (tb_settings tb) = ((st, e), t')" by (metis prod.collapse)
  then have "tb_settings tb' = t'" using assms by (auto simp: Publish_def read_settings_def split: prod.splits option.splits sum.splits)
  then show ?thesis using reading_keeps [of "pd_settings db" "pd_defaults db" "tb_settings tb"] g by simp
qed

text \<open>A part of the tables that no publication changes is what the handler and \<open>put\<close> make it.\<close>

lemma run_change_part:
  assumes keeps: "\<And>P db tb d err tb' d'. Publish P db tb d = (err, tb', d') \<Longrightarrow> v tb' = v tb"
  shows "\<exists>pub. v (sy_tables (snd (run_change get put S h s))) = v (sy_tables (put (fst (snd (h pub (get s)))) s))"
proof -
  let ?p = "\<lambda>t. Publish (sv_pub S) (sv_reads S) (sy_tables (put t s)) (sy_deployed s)"
  obtain r t' asked where h: "h (\<lambda>t. fst (?p t)) (get s) = (r, t', asked)" by (rule prod_cases3)
  obtain err tb d where p: "?p t' = (err, tb, d)" by (rule prod_cases3)
  have "v (sy_tables (snd (run_change get put S h s))) = v (sy_tables (put t' s))"
  proof (cases asked)
    case True
    then show ?thesis using keeps [OF p]
      by (simp add: run_change_def h p)
  next
    case False
    then show ?thesis by (simp add: run_change_def h)
  qed
  then show ?thesis using h by (intro exI [of _ "\<lambda>t. fst (?p t)"]) (simp only: fst_conv snd_conv)
qed

lemma other_sites:
  assumes "\<And>t tb. tb_sites (put t tb) = tb_sites tb"
  shows "tb_sites (sy_tables (snd (on_table get put S h s))) = tb_sites (sy_tables s)"
  using run_change_part [of tb_sites "\<lambda>s. get (sy_tables s)" "put_table put" S h s, OF publish_keeps_sites] assms
  by (auto simp: put_table_def)

lemma other_settings:
  assumes "\<And>t tb. tb_settings (put t tb) = tb_settings tb"
  shows "effective (tb_settings (sy_tables (snd (on_table get put S h s)))) = effective (tb_settings (sy_tables s))"
  using run_change_part [of "\<lambda>tb. effective (tb_settings tb)" "\<lambda>s. get (sy_tables s)" "put_table put" S h s, OF publish_keeps_settings] assms
  by (auto simp: put_table_def)

lemma own_sites:
  "\<exists>pub. tb_sites (sy_tables (snd (on_sites S h s))) = fst (snd (h pub (tb_sites (sy_tables s))))"
  using run_change_part [of tb_sites "\<lambda>s. tb_sites (sy_tables s)" "put_table put_sites" S h s, OF publish_keeps_sites]
  by (simp add: put_sites_def put_table_def)

lemma own_settings:
  "\<exists>pub. effective (tb_settings (sy_tables (snd (on_settings S h s)))) = effective (fst (snd (h pub (tb_settings (sy_tables s)))))"
  using run_change_part [of "\<lambda>tb. effective (tb_settings tb)" "\<lambda>s. tb_settings (sy_tables s)" "put_table (\<lambda>t tb. tb\<lparr>tb_settings := t\<rparr>)" S h s,
      OF publish_keeps_settings]
  by (simp add: put_table_def)

lemma order_sites:
  "\<exists>pub. tb_sites (sy_tables (snd (run_change get_order put_order S h s))) = st_sites (fst (snd (h pub (get_order s))))"
  using run_change_part [of tb_sites get_order put_order S h s, OF publish_keeps_sites] by (simp add: put_order_def)

lemma order_settings:
  "\<exists>pub. effective (tb_settings (sy_tables (snd (run_change get_order put_order S h s)))) = effective (st_settings (fst (snd (h pub (get_order s)))))"
  using run_change_part [of "\<lambda>tb. effective (tb_settings tb)" get_order put_order S h s, OF publish_keeps_settings]
  by (simp add: put_order_def)

lemma serve_sites:
  assumes "site_table_ok L (tb_sites (sy_tables s))" "lower_stable L" "request_ok L (S, q)"
  shows "site_table_ok L (tb_sites (sy_tables (snd (serve S q s))))"
proof -
  have L: "en_lower (sv_api S) = L" using assms(3) by (simp add: request_ok_def)
  have step: "site_table_ok L t'" if "site_step (sv_api S) (tb_sites (sy_tables s)) t'" for t'
    using site_step_table [OF that] assms(1,2) by (simp only: L)
  have own: "site_table_ok L (tb_sites (sy_tables (snd (on_sites S h s))))"
    if "\<And>pub. site_step (sv_api S) (tb_sites (sy_tables s)) (fst (snd (h pub (tb_sites (sy_tables s)))))" for h
    using own_sites [of S h s] step that by metis
  have other: "site_table_ok L (tb_sites (sy_tables (snd (on_table get put S h s))))"
    if "\<And>t tb. tb_sites (put t tb) = tb_sites tb" for get put and h :: "('t \<Rightarrow> string option) \<Rightarrow> 't \<Rightarrow> ('a, 't) outcome"
    unfolding other_sites [of put get S h s, OF that] by (rule assms(1))
  show ?thesis
  proof (cases q)
    case (CreateSite rid body)
    then have "hex_id rid" using assms(3) by (simp add: request_ok_def)
    then show ?thesis unfolding CreateSite serve.simps by (intro own site_step.created)
  next
    case (UpdateSite k body)
    show ?thesis unfolding UpdateSite serve.simps by (intro own site_step.updated)
  next
    case (DropSite k)
    show ?thesis unfolding DropSite serve.simps by (intro own site_step.deleted)
  next
    case (IssueCertificate k)
    then have pem: "pem_ok (ae_lib (sv_acme S))" using assms(3) by (simp add: request_ok_def)
    have w: "st_sites (get_order s) = tb_sites (sy_tables s)" by (simp add: get_order_def)
    show ?thesis unfolding IssueCertificate serve.simps
      using order_sites [of S _ s] step [OF site_step.ordered [OF w pem]] by metis
  qed (simp_all only: serve.simps, (rule other, simp)+)
qed

text \<open>The settings stay readable: what a handler stores it can read again.\<close>

lemma update_settings_readable:
  assumes "snd (effective t) = None"
  shows "snd (effective (fst (snd (handleUpdateSettings V pub db1 db2 db3 body t)))) = None"
proof -
  obtain r t' p where h: "handleUpdateSettings V pub db1 db2 db3 body t = (r, t', p)" by (rule prod_cases3)
  show ?thesis
  proof (cases p)
    case True
    show ?thesis
    proof (cases body)
      case None
      have "\<not> p" using h None
        by (auto simp: handleUpdateSettings_def with_settings_def with_body_def readJSON_def refuse_def split: prod.splits option.splits)
      then show ?thesis using True by simp
    next
      case (Some b)
      then show ?thesis using update_settings_out h True by (metis fst_conv snd_conv)
    qed
  next
    case False
    then show ?thesis using update_settings.kept [of V pub db1 db2 db3 body t r t'] h assms by simp
  qed
qed

lemma under_attack_readable:
  assumes "snd (effective t) = None"
  shows "snd (effective (fst (snd (handleUnderAttack V pub db1 db2 db3 body t)))) = None"
proof -
  obtain r t' p where h: "handleUnderAttack V pub db1 db2 db3 body t = (r, t', p)" by (rule prod_cases3)
  show ?thesis
  proof (cases p)
    case True
    then show ?thesis using under_attack_out [of V pub db1 db2 db3 body t r t'] h by auto
  next
    case False
    then show ?thesis using under_attack.kept [of V pub db1 db2 db3 body t r t'] h assms by simp
  qed
qed

lemma serve_settings:
  assumes "snd (effective (tb_settings (sy_tables s))) = None"
  shows "snd (effective (tb_settings (sy_tables (snd (serve S q s))))) = None"
proof -
  have own: "snd (effective (tb_settings (sy_tables (snd (on_settings S h s))))) = None"
    if "\<And>pub. snd (effective (fst (snd (h pub (tb_settings (sy_tables s)))))) = None" for h
    using own_settings [of S h s] that by metis
  have other: "snd (effective (tb_settings (sy_tables (snd (on_table get put S h s))))) = None"
    if "\<And>t tb. tb_settings (put t tb) = tb_settings tb" for get put and h :: "('t \<Rightarrow> string option) \<Rightarrow> 't \<Rightarrow> ('a, 't) outcome"
    unfolding other_settings [of put get S h s, OF that] by (rule assms)
  show ?thesis
  proof (cases q)
    case (PutSettings body)
    show ?thesis unfolding PutSettings serve.simps by (intro own update_settings_readable assms)
  next
    case (UnderAttack body)
    show ?thesis unfolding UnderAttack serve.simps by (intro own under_attack_readable assms)
  next
    case (IssueCertificate k)
    have "effective (st_settings (get_order s)) = effective (tb_settings (sy_tables s))" by (simp add: get_order_def)
    then show ?thesis unfolding IssueCertificate serve.simps
      using order_settings [of S _ s] order_keeps_settings assms by metis
  qed (simp_all only: serve.simps, (rule other, simp add: put_sites_def)+)
qed

text \<open>Tables the publisher can always read and render.\<close>

definition tables_ok :: "(string \<Rightarrow> string) \<Rightarrow> tables \<Rightarrow> bool" where
  "tables_ok L tb \<longleftrightarrow> site_table_ok L (tb_sites tb) \<and> snd (effective (tb_settings tb)) = None"

lemma serve_all_tables:
  "serve_all qs s = (cs, s') \<Longrightarrow> tables_ok L (sy_tables s) \<Longrightarrow> lower_stable L \<Longrightarrow> list_all (request_ok L) qs \<Longrightarrow>
     tables_ok L (sy_tables s')"
proof (induction qs arbitrary: s cs)
  case (Cons x qs)
  obtain S q where x: "x = (S, q)" by (rule prod.exhaust)
  obtain c s1 cs1 where 1: "serve S q s = (c, s1)" "serve_all qs s1 = (cs1, s')"
    using serve_all_Cons Cons.prems(1) unfolding x by blast
  have "tables_ok L (sy_tables s1)"
    using serve_sites [of L s S q] serve_settings [of s S q] 1(1) Cons.prems(2-4) x by (simp add: tables_ok_def)
  then show ?case using Cons.IH [OF 1(2)] Cons.prems(3,4) by simp
qed simp

text \<open>
  C9 no sequence of requests, whatever was posted and whatever failed on the way, leads to tables that
  cannot be published: starting from well-formed tables, a publication asked for afterwards, when the
  reads, Redis and the files do not fail at that moment, answers 200 and is in force.
\<close>

theorem always_publishable:
  assumes "serve_all qs s = (cs, s')" "tables_ok L (sy_tables s)" "lower_stable L" "list_all (request_ok L) qs"
    and "re_lower (pe_render (sv_pub S)) = L" "reads_ok (sv_reads S)" "pd_redis (sv_reads S) = None"
    and "pd_settings (sv_reads S) = None" "pd_defaults (sv_reads S) = None"
    and "\<And>op. io_fail (re_io (pe_render (sv_pub S))) op = None"
  shows "\<exists>s2. serve S Republish s' = (200, s2) \<and> deployed_from (sv_pub S) (sy_tables s2) (sy_deployed s2)"
proof -
  have ok: "tables_ok L (sy_tables s')" using serve_all_tables [OF assms(1-4)] .
  have "snd (fst (GetSettings (pd_settings (sv_reads S)) (pd_defaults (sv_reads S)) (tb_settings (sy_tables s')))) = None"
    using ok assms(8,9) by (simp add: tables_ok_def effective_def)
  then have "fst (Publish (sv_pub S) (sv_reads S) (sy_tables s') (sy_deployed s')) = None"
    using table_publishable [of "sv_pub S" "sy_tables s'"] ok assms(5-7,10) unfolding tables_ok_def by blast
  then obtain tb d where p: "Publish (sv_pub S) (sv_reads S) (sy_tables s') (sy_deployed s') = (None, tb, d)"
    by (metis prod.collapse)
  then have "serve S Republish s' = (200, s'\<lparr>sy_tables := tb, sy_deployed := d\<rparr>)"
    by (simp add: run_change_def put_table_def handlePublish_def publish_then_def)
  then show ?thesis using published_deploys [OF p] by simp
qed

lemma always_publishable_witness:
  "\<exists>s2. serve demo_server Republish (snd (serve_all [(demo_server, CreateSite ''0123456789'' (Some ''site''))] demo_sys)) = (200, s2)"
proof -
  obtain cs s' where r: "serve_all [(demo_server, CreateSite ''0123456789'' (Some ''site''))] demo_sys = (cs, s')" by (rule prod.exhaust)
  have V: "en_lower (sv_api demo_server) = (\<lambda>x. x)" "sv_pub demo_server = demo_pub_env" "sv_reads demo_server = demo_pub_db"
    by (simp_all add: demo_server_def demo_api_def)
  have "site_checks (\<lambda>x. x) demo_named" "id_valid (s_id demo_named)" by code_simp+
  then have ok: "tables_ok (\<lambda>x. x) (sy_tables demo_sys)"
    by (simp add: tables_ok_def site_table_ok_def demo_sys_def demo_tables_def unique_by_def renderable_def
        effective_def GetSettings_def SaveSettings_def exec_plain_def find_row_def)
  have hex: "hex_id ''0123456789''" by code_simp
  have req: "list_all (request_ok (\<lambda>x. x)) [(demo_server, CreateSite ''0123456789'' (Some ''site''))]"
    using hex by (simp add: request_ok_def V(1))
  have st: "lower_stable (\<lambda>x. x)" by (rule lower_ascii_stable) simp
  have "\<exists>s2. serve demo_server Republish s' = (200, s2) \<and> deployed_from demo_pub_env (sy_tables s2) (sy_deployed s2)"
    using always_publishable [OF r ok st req, of demo_server] unfolding V
    by (simp add: reads_ok_def demo_pub_db_def demo_pub_env_def demo_render_env_def demo_io_def del: serve.simps)
  then show ?thesis by (simp only: r snd_conv) blast
qed

end
