(* ===== verification/EngineLoops.thy ===== *)
theory EngineLoops
  imports EngineAcme EngineConsumer EngineCrawlers EngineGeoIP
begin

section \<open>The background loops of the control plane\<close>

text \<open>
  The goroutines the control plane starts once and stops with its context: the certificate sweep
  (\<open>Run\<close> of \<open>control/internal/engine/acme.go\<close>), the refresh of the crawler lists (\<open>Start\<close> of
  \<open>crawlers.go\<close>) and of the dataset (\<open>Start\<close> of \<open>geoip.go\<close>), and of \<open>consumer.go\<close> the janitor, the
  collection of statistics and the consumer of events.

  Times are nanoseconds. A pass is what the other theories of the engine model; here it is a function of
  the time it starts at, with the time it takes and whether it asks for a publication. A loop is run with
  fuel, one unit for a pass; its last result says whether it returned. When the context is cancelled at the
  very moment a timer fires, \<open>select\<close> takes either: \<open>pick\<close> decides. The four timers are set again after the
  pass; the ticker of the statistics keeps its beat and holds one tick back while a pass runs.

  The locale \<open>background\<close> is what any of them keeps, \<open>paced\<close> what those with a timer keep besides; they are
  interpreted on the two kinds of waiting the code uses.
\<close>

definition sec :: int where "sec = 1000000000"

record 's task =
  tk_work :: "int \<Rightarrow> 's \<Rightarrow> bool \<times> 's"
  tk_takes :: "int \<Rightarrow> nat"

text \<open>One pass: when it starts, when it ends, whether it asked for a publication.\<close>

record round =
  rn_start :: int
  rn_end :: int
  rn_asked :: bool

text \<open>Whether \<open>select\<close> returns, waiting from \<open>now\<close> for a timer that fires at \<open>fire\<close>; \<open>c\<close> is the cancellation.\<close>

definition stops :: "(int \<Rightarrow> bool) \<Rightarrow> int option \<Rightarrow> int \<Rightarrow> int \<Rightarrow> bool" where
  "stops pick c now fire = (case c of None \<Rightarrow> False | Some d \<Rightarrow> now < fire \<and> d < fire \<or> d \<le> fire \<and> pick fire)"

text \<open>\<open>again\<close> is when the timer fires after a pass, by the start and the end of that pass.\<close>

fun loop_rounds ::
  "(int \<Rightarrow> int \<Rightarrow> int) \<Rightarrow> 's task \<Rightarrow> (int \<Rightarrow> bool) \<Rightarrow> int option \<Rightarrow> nat \<Rightarrow> int \<Rightarrow> int \<Rightarrow> 's \<Rightarrow> round list \<times> 's \<times> bool" where
  "loop_rounds again W pick c 0 now fire s = ([], s, False)"
| "loop_rounds again W pick c (Suc n) now fire s =
     (if stops pick c now fire then ([], s, True)
      else (let e = fire + int (tk_takes W fire) in
            case tk_work W fire s of (asked, s1) \<Rightarrow>
              (case loop_rounds again W pick c n e (again fire e) s1 of
                 (rs, s2, returned) \<Rightarrow> (\<lparr>rn_start = fire, rn_end = e, rn_asked = asked\<rparr> # rs, s2, returned))))"

text \<open>\<open>timer.Reset(p)\<close> after the pass; a ticker made at \<open>t\<close> with period \<open>p\<close>.\<close>

definition reset_timer :: "int \<Rightarrow> int \<Rightarrow> int \<Rightarrow> int" where
  "reset_timer p r e = e + p"

definition next_tick :: "int \<Rightarrow> int \<Rightarrow> int \<Rightarrow> int \<Rightarrow> int" where
  "next_tick t p r e = max e (t + ((r - t) div p + 1) * p)"

subsection \<open>The loops\<close>

definition Certifier_Run ::
  "(string \<Rightarrow> string) \<Rightarrow> (string \<Rightarrow> string) \<Rightarrow> (string \<Rightarrow> string list option) \<Rightarrow> (int \<Rightarrow> string) \<Rightarrow> (int \<Rightarrow> string option) \<Rightarrow>
   (int \<Rightarrow> string \<Rightarrow> acme_env) \<Rightarrow> (int \<Rightarrow> nat) \<Rightarrow> (int \<Rightarrow> bool) \<Rightarrow> int option \<Rightarrow> nat \<Rightarrow> int \<Rightarrow> acme_state \<Rightarrow> round list \<times> acme_state \<times> bool" where
  "Certifier_Run L U leaf fmt db E takes pick c n t0 w =
     loop_rounds (reset_timer (6 * 3600 * sec)) \<lparr>tk_work = (\<lambda>t. sweep L U leaf fmt (db t) (E t)), tk_takes = takes\<rparr>
       pick c n t0 (t0 + 30 * sec) w"

definition Crawlers_Start ::
  "(int \<Rightarrow> web) \<Rightarrow> (crawler_source \<Rightarrow> int) \<Rightarrow> crawler_source list \<Rightarrow> bool \<Rightarrow> (int \<Rightarrow> nat) \<Rightarrow> (int \<Rightarrow> bool) \<Rightarrow> int option \<Rightarrow> nat \<Rightarrow> int \<Rightarrow> crawlers \<Rightarrow>
   round list \<times> crawlers \<times> bool" where
  "Crawlers_Start W now sources after takes pick c n t0 cw =
     loop_rounds (reset_timer (12 * 3600 * sec)) \<lparr>tk_work = (\<lambda>t cw. (after, Refresh_crawlers (W t) now sources cw)), tk_takes = takes\<rparr>
       pick c n t0 (t0 + 30 * sec) cw"

definition GeoIP_Start ::
  "(int \<Rightarrow> string \<Rightarrow> string + geo_range4 list \<times> geo_range6 list) \<Rightarrow> (int \<Rightarrow> int \<times> int \<times> int) \<Rightarrow> (int \<Rightarrow> nat) \<Rightarrow> (int \<Rightarrow> bool) \<Rightarrow> int option \<Rightarrow> nat \<Rightarrow> int \<Rightarrow> geo_ip \<Rightarrow>
   round list \<times> geo_ip \<times> bool" where
  "GeoIP_Start get date takes pick c n t0 g =
     loop_rounds (reset_timer (24 * 3600 * sec)) \<lparr>tk_work = (\<lambda>t g. (False, Refresh (get t) t (date t) g)), tk_takes = takes\<rparr>
       pick c n t0 (t0 + 60 * sec) g"

definition janitor :: "(int \<Rightarrow> janitor_db) \<Rightarrow> (int \<Rightarrow> nat) \<Rightarrow> (int \<Rightarrow> bool) \<Rightarrow> int option \<Rightarrow> nat \<Rightarrow> int \<Rightarrow> kept \<Rightarrow> round list \<times> kept \<times> bool" where
  "janitor db takes pick c n t0 k =
     loop_rounds (reset_timer (3600 * sec)) \<lparr>tk_work = (\<lambda>t k. janitor_run (db t) t k), tk_takes = takes\<rparr> pick c n t0 (t0 + 60 * sec) k"

definition collectStats ::
  "(int \<Rightarrow> string \<Rightarrow> (string \<times> string) list option) \<Rightarrow> (int \<Rightarrow> (string + string list) list) \<Rightarrow> (int \<Rightarrow> int \<Rightarrow> string option) \<Rightarrow>
   (int \<Rightarrow> nat) \<Rightarrow> (int \<Rightarrow> bool) \<Rightarrow> int option \<Rightarrow> nat \<Rightarrow> int \<Rightarrow> stat_point list \<Rightarrow> round list \<times> stat_point list \<times> bool" where
  "collectStats hgetall pages db takes pick c n t0 t =
     loop_rounds (next_tick t0 (20 * sec))
       \<lparr>tk_work = (\<lambda>now t. (False, collect_pass (hgetall now) (pages now) (db now) t)), tk_takes = takes\<rparr> pick c n t0 (t0 + 20 * sec) t"

subsection \<open>What every loop keeps\<close>

text \<open>Passes follow one another and the state is what they make of it, one after the other.\<close>

fun in_turn :: "round list \<Rightarrow> bool" where
  "in_turn [] = True"
| "in_turn [r] = (rn_start r \<le> rn_end r)"
| "in_turn (r # q # rs) = (rn_start r \<le> rn_end r \<and> rn_end r \<le> rn_start q \<and> in_turn (q # rs))"

fun gaps :: "int \<Rightarrow> round list \<Rightarrow> bool" where
  "gaps p (r # q # rs) = (rn_end r + p \<le> rn_start q \<and> gaps p (q # rs))"
| "gaps p rs = True"

lemma round_first:
  "loop_rounds again W pick c n now fire s = (r # rs, s', b) \<Longrightarrow> rn_start r = fire \<and> rn_end r = fire + int (tk_takes W fire)"
  by (cases n) (auto simp: Let_def split: if_splits prod.splits)

lemma loop_rounds_Suc:
  assumes "loop_rounds again W pick c (Suc n) now fire s = (rs, s', b)"
  obtains "stops pick c now fire" "rs = []" "s' = s" "b"
  | asked s1 rs1 where "\<not> stops pick c now fire" "tk_work W fire s = (asked, s1)"
      "loop_rounds again W pick c n (fire + int (tk_takes W fire)) (again fire (fire + int (tk_takes W fire))) s1 = (rs1, s', b)"
      "rs = \<lparr>rn_start = fire, rn_end = fire + int (tk_takes W fire), rn_asked = asked\<rparr> # rs1"
  using assms by (auto simp: Let_def split: if_splits prod.splits)

locale background =
  fixes again :: "int \<Rightarrow> int \<Rightarrow> int"
  assumes forward: "r \<le> e \<Longrightarrow> e \<le> again r e"
begin

lemma rounds_in_turn: "loop_rounds again W pick c n now fire s = (rs, s', b) \<Longrightarrow> in_turn rs"
proof (induction n arbitrary: now fire s rs)
  case (Suc n)
  from Suc.prems show ?case
  proof (cases rule: loop_rounds_Suc)
    case (2 asked s1 rs1)
    have "in_turn rs1" using Suc.IH [OF 2(3)] .
    then show ?thesis using 2 forward [of fire "fire + int (tk_takes W fire)"]
      by (cases rs1) (auto dest: round_first)
  qed simp
qed simp

lemma rounds_state: "loop_rounds again W pick c n now fire s = (rs, s', b) \<Longrightarrow> s' = fold (\<lambda>r s. snd (tk_work W (rn_start r) s)) rs s"
proof (induction n arbitrary: now fire s rs)
  case (Suc n)
  from Suc.prems show ?case by (cases rule: loop_rounds_Suc) (auto dest: Suc.IH)
qed simp

end

text \<open>A loop whose timer is set after the pass: at least \<open>gap\<close> between passes, and it ends after a cancellation.\<close>

locale paced = background +
  fixes gap :: int
  assumes positive: "0 < gap" and spaced: "r \<le> e \<Longrightarrow> e + gap \<le> again r e"
begin

lemma rounds_gaps: "loop_rounds again W pick c n now fire s = (rs, s', b) \<Longrightarrow> gaps gap rs"
proof (induction n arbitrary: now fire s rs)
  case (Suc n)
  from Suc.prems show ?case
  proof (cases rule: loop_rounds_Suc)
    case (2 asked s1 rs1)
    have "gaps gap rs1" using Suc.IH [OF 2(3)] .
    then show ?thesis using 2 spaced [of fire "fire + int (tk_takes W fire)"] by (cases rs1) (auto dest: round_first)
  qed simp
qed simp

lemma none_after:
  "loop_rounds again W pick (Some d) n now fire s = (rs, s', b) \<Longrightarrow> now < fire \<Longrightarrow> r \<in> set rs \<Longrightarrow> fire \<le> rn_start r \<and> rn_start r \<le> d"
proof (induction n arbitrary: now fire s rs)
  case (Suc n)
  from Suc.prems(1) show ?case
  proof (cases rule: loop_rounds_Suc)
    case (2 asked s1 rs1)
    let ?e = "fire + int (tk_takes W fire)"
    have le: "fire \<le> d" using 2(1) Suc.prems(2) by (auto simp: stops_def)
    have "?e + gap \<le> again fire ?e" by (rule spaced) simp
    then have "?e < again fire ?e" "fire \<le> again fire ?e" using positive by simp_all
    then show ?thesis using Suc.IH [OF 2(3)] Suc.prems(3) 2(4) le by fastforce
  qed (use Suc.prems(3) in simp)
qed simp

lemma returns:
  "loop_rounds again W pick (Some d) (Suc m) now fire s = (rs, s', b) \<Longrightarrow> now < fire \<Longrightarrow> d < fire + int m * gap \<Longrightarrow> b"
proof (induction m arbitrary: now fire s rs)
  case 0
  from 0(1) show ?case
  proof (cases rule: loop_rounds_Suc)
    case (2 asked s1 rs1)
    then show ?thesis using 0(2,3) by (simp add: stops_def)
  qed simp
next
  case (Suc m)
  from Suc.prems(1) show ?case
  proof (cases rule: loop_rounds_Suc)
    case (2 asked s1 rs1)
    let ?e = "fire + int (tk_takes W fire)"
    have g: "?e + gap \<le> again fire ?e" by (rule spaced) simp
    have "d < fire + gap + int m * gap" using Suc.prems(3) by (simp add: algebra_simps)
    then have "d < again fire ?e + int m * gap" using g by simp
    moreover have "?e < again fire ?e" using g positive by simp
    ultimately show ?thesis using Suc.IH [OF 2(3)] by blast
  qed simp
qed

end

lemma reset_forward: "0 < p \<Longrightarrow> paced (reset_timer p) p"
  by unfold_locales (simp_all add: reset_timer_def)

interpretation sweep_timer: paced "reset_timer (6 * 3600 * sec)" "6 * 3600 * sec"
  by (rule reset_forward) (simp add: sec_def)

interpretation crawler_timer: paced "reset_timer (12 * 3600 * sec)" "12 * 3600 * sec"
  by (rule reset_forward) (simp add: sec_def)

interpretation geo_timer: paced "reset_timer (24 * 3600 * sec)" "24 * 3600 * sec"
  by (rule reset_forward) (simp add: sec_def)

interpretation janitor_timer: paced "reset_timer (3600 * sec)" "3600 * sec"
  by (rule reset_forward) (simp add: sec_def)

interpretation ticker: background "next_tick t p" for t p
  by unfold_locales (simp add: next_tick_def)

text \<open>What is said of a loop with a timer: the first pass is at \<open>t0 + first\<close>, the others \<open>p\<close> after the one before.\<close>

definition orderly :: "int \<Rightarrow> int \<Rightarrow> int \<Rightarrow> round list \<Rightarrow> bool" where
  "orderly fire p d rs \<longleftrightarrow> in_turn rs \<and> gaps p rs \<and> list_all (\<lambda>r. fire \<le> rn_start r \<and> rn_start r \<le> d) rs"

lemma enough_fuel:
  fixes p d fire :: int
  assumes "nat (d - t0) \<le> m" "1 \<le> p" "t0 < fire"
  shows "d < fire + int m * p"
proof -
  have "d - t0 \<le> int m" using assms(1) by linarith
  moreover have "int m * 1 \<le> int m * p" using assms(2) by (intro mult_left_mono) simp_all
  ultimately show ?thesis using assms(3) by linarith
qed

context paced begin

lemma whole_loop:
  assumes "nat (d - t0) < n" "0 < first"
  shows "case loop_rounds again W pick (Some d) n t0 (t0 + first) s of (rs, s', b) \<Rightarrow>
    b \<and> orderly (t0 + first) gap d rs \<and> s' = fold (\<lambda>r s. snd (tk_work W (rn_start r) s)) rs s"
proof -
  obtain rs s' b where r: "loop_rounds again W pick (Some d) n t0 (t0 + first) s = (rs, s', b)" by (metis prod.collapse)
  obtain m where m: "n = Suc m" using assms(1) by (cases n) simp_all
  have fire: "t0 < t0 + first" using assms(2) by simp
  have "d < t0 + first + int m * gap" by (rule enough_fuel [OF _ _ fire]) (use assms(1) m positive in simp_all)
  then have "b" using returns [OF r [unfolded m] fire] by blast
  moreover have "orderly (t0 + first) gap d rs"
    using rounds_in_turn [OF r] rounds_gaps [OF r] none_after [OF r fire] by (simp add: orderly_def list_all_iff)
  ultimately show ?thesis using rounds_state [OF r] r by simp
qed

end

text \<open>A ticker: no pass before its tick.\<close>

lemma ticks:
  assumes "0 < p"
  shows "loop_rounds (next_tick t p) W pick c n now fire s = (rs, s', b) \<Longrightarrow> t + int (j + 1) * p \<le> fire \<Longrightarrow>
     i < length rs \<Longrightarrow> t + int (j + 1 + i) * p \<le> rn_start (rs ! i)"
proof (induction n arbitrary: now fire s rs i j)
  case (Suc n)
  from Suc.prems(1) show ?case
  proof (cases rule: loop_rounds_Suc)
    case (2 asked s1 rs1)
    let ?e = "fire + int (tk_takes W fire)"
    have "int (j + 1) \<le> (fire - t) div p"
      using zdiv_mono1 [of "int (j + 1) * p" "fire - t" p] Suc.prems(2) assms by simp
    then have "int (j + 1 + 1) * p \<le> ((fire - t) div p + 1) * p" using assms by (intro mult_right_mono) simp_all
    then have "t + int (j + 1 + 1) * p \<le> next_tick t p fire ?e" by (simp add: next_tick_def max_def)
    then have "k < length rs1 \<Longrightarrow> t + int (j + 1 + 1 + k) * p \<le> rn_start (rs1 ! k)" for k
      using Suc.IH [OF 2(3), of "j + 1" k] by simp
    then show ?thesis using Suc.prems(2,3) 2(4) by (cases i) (auto simp: algebra_simps)
  qed (use Suc.prems(3) in simp)
qed simp

text \<open>After a cancellation a pass starts only on a tick that was held back while the pass before it ran.\<close>

lemma held_tick:
  "loop_rounds (next_tick t p) W pick (Some d) n now fire s = (rs, s', b) \<Longrightarrow> now \<le> fire \<Longrightarrow> i < length rs \<Longrightarrow> d < rn_start (rs ! i) \<Longrightarrow>
     (if i = 0 then now = fire else rn_start (rs ! i) = rn_end (rs ! (i - 1)))"
proof (induction n arbitrary: now fire s rs i)
  case (Suc n)
  from Suc.prems(1) show ?case
  proof (cases rule: loop_rounds_Suc)
    case (2 asked s1 rs1)
    let ?e = "fire + int (tk_takes W fire)"
    have e: "?e \<le> next_tick t p fire ?e" by (simp add: next_tick_def)
    show ?thesis
    proof (cases i)
      case 0
      then show ?thesis using 2(1,4) Suc.prems(2,4) by (auto simp: stops_def)
    next
      case (Suc j)
      have "if j = 0 then ?e = next_tick t p fire ?e else rn_start (rs1 ! j) = rn_end (rs1 ! (j - 1))"
        by (rule Suc.IH [OF 2(3) e]) (use Suc.prems(3,4) 2(4) Suc in simp_all)
      moreover have "j < length rs1" using Suc.prems(3) 2(4) Suc by simp
      ultimately show ?thesis using 2(3,4) Suc by (cases rs1; cases j) (auto dest: round_first)
    qed
  qed (use Suc.prems(3) in simp)
qed simp

text \<open>Passes shorter than the period keep the beat, and the loop ends as those with a timer do.\<close>

lemma on_the_beat:
  assumes "0 < p" "\<And>r. int (tk_takes W r) < p"
  shows "loop_rounds (next_tick t p) W pick (Some d) n now (t + int (j + 1) * p) s = (rs, s', b) \<Longrightarrow> now < t + int (j + 1) * p \<Longrightarrow>
     i < length rs \<Longrightarrow> rn_start (rs ! i) = t + int (j + 1 + i) * p \<and> rn_start (rs ! i) \<le> d"
    and "loop_rounds (next_tick t p) W pick (Some d) n now (t + int (j + 1) * p) s = (rs, s', b) \<Longrightarrow> now < t + int (j + 1) * p \<Longrightarrow>
     d < t + int (j + n) * p \<Longrightarrow> 0 < n \<Longrightarrow> b"
proof -
  have next_beat: "next_tick t p (t + int (k + 1) * p) (t + int (k + 1) * p + int (tk_takes W r)) = t + int (k + 1 + 1) * p"
    and before: "t + int (k + 1) * p + int (tk_takes W r) < t + int (k + 1 + 1) * p" for k r
  proof -
    have "(t + int (k + 1) * p - t) div p = int (k + 1)" using assms(1) by simp
    then show "next_tick t p (t + int (k + 1) * p) (t + int (k + 1) * p + int (tk_takes W r)) = t + int (k + 1 + 1) * p"
      using assms(2) [of r] by (simp add: next_tick_def algebra_simps max_def)
    show "t + int (k + 1) * p + int (tk_takes W r) < t + int (k + 1 + 1) * p" using assms(2) [of r] by (simp add: algebra_simps)
  qed
  show "loop_rounds (next_tick t p) W pick (Some d) n now (t + int (j + 1) * p) s = (rs, s', b) \<Longrightarrow> now < t + int (j + 1) * p \<Longrightarrow>
     i < length rs \<Longrightarrow> rn_start (rs ! i) = t + int (j + 1 + i) * p \<and> rn_start (rs ! i) \<le> d"
  proof (induction n arbitrary: now s rs i j)
    case (Suc n)
    from Suc.prems(1) show ?case
    proof (cases rule: loop_rounds_Suc)
      case (2 asked s1 rs1)
      have le: "t + int (j + 1) * p \<le> d" using 2(1) Suc.prems(2) by (auto simp: stops_def)
      show ?thesis
      proof (cases i)
        case (Suc k)
        have "rn_start (rs1 ! k) = t + int (j + 1 + 1 + k) * p \<and> rn_start (rs1 ! k) \<le> d"
          by (rule Suc.IH [OF 2(3) [unfolded next_beat] before]) (use Suc.prems(3) 2(4) Suc in simp)
        then show ?thesis using 2(4) Suc by simp
      qed (use le 2(4) in simp)
    qed (use Suc.prems(3) in simp)
  qed simp
  show "loop_rounds (next_tick t p) W pick (Some d) n now (t + int (j + 1) * p) s = (rs, s', b) \<Longrightarrow> now < t + int (j + 1) * p \<Longrightarrow>
     d < t + int (j + n) * p \<Longrightarrow> 0 < n \<Longrightarrow> b"
  proof (induction n arbitrary: now s rs j)
    case (Suc n)
    from Suc.prems(1) show ?case
    proof (cases rule: loop_rounds_Suc)
      case (2 asked s1 rs1)
      have "n \<noteq> 0"
      proof
        assume "n = 0"
        then show False using 2(1) Suc.prems(2,3) by (auto simp: stops_def)
      qed
      then show ?thesis using Suc.IH [OF 2(3) [unfolded next_beat] before] Suc.prems(3) by simp
    qed simp
  qed simp
qed

text \<open>What is said of the loop with the ticker: its passes are one to a tick, and when they are short, on the tick.\<close>

definition ticking :: "int \<Rightarrow> int \<Rightarrow> int \<Rightarrow> round list \<Rightarrow> bool" where
  "ticking t p d rs \<longleftrightarrow> in_turn rs \<and>
     (\<forall>i < length rs. t + int (i + 1) * p \<le> rn_start (rs ! i)
        \<and> (rn_start (rs ! i) \<le> d \<or> 0 < i \<and> rn_start (rs ! i) = rn_end (rs ! (i - 1))))"

definition keeps_beat :: "int \<Rightarrow> int \<Rightarrow> int \<Rightarrow> round list \<Rightarrow> bool" where
  "keeps_beat t p d rs \<longleftrightarrow> (\<forall>i < length rs. rn_start (rs ! i) = t + int (i + 1) * p \<and> rn_start (rs ! i) \<le> d)"

lemma ticker_loop:
  assumes "0 < p" "nat (d - t) < n"
  shows "case loop_rounds (next_tick t p) W pick (Some d) n t (t + p) s of (rs, s', b) \<Rightarrow>
    ticking t p d rs \<and> s' = fold (\<lambda>r s. snd (tk_work W (rn_start r) s)) rs s
    \<and> ((\<forall>r. int (tk_takes W r) < p) \<longrightarrow> b \<and> keeps_beat t p d rs)"
proof -
  obtain rs s' b where r: "loop_rounds (next_tick t p) W pick (Some d) n t (t + p) s = (rs, s', b)" by (metis prod.collapse)
  have r0: "loop_rounds (next_tick t p) W pick (Some d) n t (t + int (0 + 1) * p) s = (rs, s', b)" using r by simp
  have now: "t < t + int (0 + 1) * p" using assms(1) by simp
  have "t + int (i + 1) * p \<le> rn_start (rs ! i)" if "i < length rs" for i
    using ticks [OF assms(1) r, of 0 i] that by simp
  moreover have "rn_start (rs ! i) \<le> d \<or> 0 < i \<and> rn_start (rs ! i) = rn_end (rs ! (i - 1))" if "i < length rs" for i
    using held_tick [OF r _ that] assms(1) by (cases "rn_start (rs ! i) \<le> d") (auto split: if_splits)
  ultimately have "ticking t p d rs" using ticker.rounds_in_turn [OF r] by (simp add: ticking_def)
  moreover have "b \<and> keeps_beat t p d rs" if short: "\<And>r. int (tk_takes W r) < p"
  proof
    have "d - t < int n" using assms(2) by linarith
    also have "int n * 1 \<le> int n * p" using assms(1) by (intro mult_left_mono) simp_all
    finally have "d < t + int (0 + n) * p" by simp
    then show "b" using on_the_beat(2) [OF assms(1) short r0 now] assms(2) by simp
    have "rn_start (rs ! i) = t + int (i + 1) * p \<and> rn_start (rs ! i) \<le> d" if "i < length rs" for i
      using on_the_beat(1) [OF assms(1) short r0 now that] by simp
    then show "keeps_beat t p d rs" unfolding keeps_beat_def by blast
  qed
  ultimately show ?thesis using ticker.rounds_state [OF r] unfolding r prod.case by blast
qed

text \<open>
  C28 the background work is paced and stops. The four loops with a timer - certificates, crawler lists, dataset,
  janitor - whatever their passes do and however long they take, start them one after the other, the first
  after its delay and the next never sooner than the period after the end of the one before; once the
  context is cancelled they start nothing later and return. The loop of the statistics has a ticker: its passes
  follow one another and never outnumber the ticks of twenty seconds, and after the cancellation one starts only
  on a tick that was held back while the pass before it ran, at the moment that pass ends (then \<open>select\<close> may
  take the tick). When every pass is shorter than twenty seconds no tick is held back: each pass is on
  its tick, none starts after the cancellation, and this loop returns as well. The state each loop leaves is
  what its passes made of it in turn.
\<close>

theorem background_loops_stop:
  assumes "nat (d - t0) < n"
  shows "(case Certifier_Run L U leaf fmt db E takes pick (Some d) n t0 w of (rs, w', returned) \<Rightarrow>
       returned \<and> orderly (t0 + 30 * sec) (6 * 3600 * sec) d rs \<and> w' = fold (\<lambda>r w. snd (sweep L U leaf fmt (db (rn_start r)) (E (rn_start r)) w)) rs w)
    \<and> (case Crawlers_Start W now sources after takes pick (Some d) n t0 cw of (rs, cw', returned) \<Rightarrow>
       returned \<and> orderly (t0 + 30 * sec) (12 * 3600 * sec) d rs \<and> cw' = fold (\<lambda>r. Refresh_crawlers (W (rn_start r)) now sources) rs cw)
    \<and> (case GeoIP_Start get date takes pick (Some d) n t0 g of (rs, g', returned) \<Rightarrow>
       returned \<and> orderly (t0 + 60 * sec) (24 * 3600 * sec) d rs \<and> g' = fold (\<lambda>r. Refresh (get (rn_start r)) (rn_start r) (date (rn_start r))) rs g)
    \<and> (case janitor jdb takes pick (Some d) n t0 k of (rs, k', returned) \<Rightarrow>
       returned \<and> orderly (t0 + 60 * sec) (3600 * sec) d rs \<and> k' = fold (\<lambda>r k. snd (janitor_run (jdb (rn_start r)) (rn_start r) k)) rs k)
    \<and> (case collectStats hgetall pages udb stat_takes pick (Some d) n t0 t of (rs, t', returned) \<Rightarrow>
       ticking t0 (20 * sec) d rs \<and> t' = fold (\<lambda>r. collect_pass (hgetall (rn_start r)) (pages (rn_start r)) (udb (rn_start r))) rs t
       \<and> ((\<forall>r. int (stat_takes r) < 20 * sec) \<longrightarrow> returned \<and> keeps_beat t0 (20 * sec) d rs))"
proof (intro conjI)
  have pos: "0 < 30 * sec" "0 < 60 * sec" "0 < 20 * sec" by (simp_all add: sec_def)
  show "case Certifier_Run L U leaf fmt db E takes pick (Some d) n t0 w of (rs, w', returned) \<Rightarrow>
       returned \<and> orderly (t0 + 30 * sec) (6 * 3600 * sec) d rs \<and> w' = fold (\<lambda>r w. snd (sweep L U leaf fmt (db (rn_start r)) (E (rn_start r)) w)) rs w"
    using sweep_timer.whole_loop [OF assms pos(1), where W = "\<lparr>tk_work = (\<lambda>t. sweep L U leaf fmt (db t) (E t)), tk_takes = takes\<rparr>" and pick = pick and s = w] by (simp add: Certifier_Run_def)
  show "case Crawlers_Start W now sources after takes pick (Some d) n t0 cw of (rs, cw', returned) \<Rightarrow>
       returned \<and> orderly (t0 + 30 * sec) (12 * 3600 * sec) d rs \<and> cw' = fold (\<lambda>r. Refresh_crawlers (W (rn_start r)) now sources) rs cw"
    using crawler_timer.whole_loop [OF assms pos(1), where W = "\<lparr>tk_work = (\<lambda>t cw. (after, Refresh_crawlers (W t) now sources cw)), tk_takes = takes\<rparr>" and pick = pick and s = cw] by (simp add: Crawlers_Start_def)
  show "case GeoIP_Start get date takes pick (Some d) n t0 g of (rs, g', returned) \<Rightarrow>
       returned \<and> orderly (t0 + 60 * sec) (24 * 3600 * sec) d rs \<and> g' = fold (\<lambda>r. Refresh (get (rn_start r)) (rn_start r) (date (rn_start r))) rs g"
    using geo_timer.whole_loop [OF assms pos(2), where W = "\<lparr>tk_work = (\<lambda>t g. (False, Refresh (get t) t (date t) g)), tk_takes = takes\<rparr>" and pick = pick and s = g] by (simp add: GeoIP_Start_def)
  show "case janitor jdb takes pick (Some d) n t0 k of (rs, k', returned) \<Rightarrow>
       returned \<and> orderly (t0 + 60 * sec) (3600 * sec) d rs \<and> k' = fold (\<lambda>r k. snd (janitor_run (jdb (rn_start r)) (rn_start r) k)) rs k"
    using janitor_timer.whole_loop [OF assms pos(2), where W = "\<lparr>tk_work = (\<lambda>t k. janitor_run (jdb t) t k), tk_takes = takes\<rparr>" and pick = pick and s = k] by (simp add: janitor_def)
  show "case collectStats hgetall pages udb stat_takes pick (Some d) n t0 t of (rs, t', returned) \<Rightarrow>
       ticking t0 (20 * sec) d rs \<and> t' = fold (\<lambda>r. collect_pass (hgetall (rn_start r)) (pages (rn_start r)) (udb (rn_start r))) rs t
       \<and> ((\<forall>r. int (stat_takes r) < 20 * sec) \<longrightarrow> returned \<and> keeps_beat t0 (20 * sec) d rs)"
    using ticker_loop [OF pos(3) assms, where pick = pick and s = t
        and W = "\<lparr>tk_work = (\<lambda>now t. (False, collect_pass (hgetall now) (pages now) (udb now) t)), tk_takes = stat_takes\<rparr>"]
    by (simp add: collectStats_def)
qed

subsection \<open>The consumer of events\<close>

text \<open>One turn of the loop: what the data plane pushed before it, the answers it gets and how long it takes.\<close>

record event_turn =
  tn_env :: consumer_env
  tn_redis :: "(string \<times> bool) option"
  tn_db :: "string option"
  tn_pushed :: "string list"
  tn_takes :: nat

text \<open>How many turns took a full batch, how many less than one, and how many failed.\<close>

record tally =
  ty_full :: nat
  ty_idle :: nat
  ty_failed :: nat

definition no_turns :: tally where
  "no_turns = \<lparr>ty_full = 0, ty_idle = 0, ty_failed = 0\<rparr>"

definition pause :: int where "pause = 300000000"

definition ctx_done :: "int option \<Rightarrow> int \<Rightarrow> bool" where
  "ctx_done c now = (case c of None \<Rightarrow> False | Some d \<Rightarrow> d \<le> now)"

definition pushed :: "string list \<Rightarrow> consumer \<Rightarrow> consumer" where
  "pushed items q = q\<lparr>cs_queue := items @ cs_queue q\<rparr>"

definition count :: "(tally \<Rightarrow> tally) \<Rightarrow> tally \<times> 'r \<Rightarrow> tally \<times> 'r" where
  "count f res = (case res of (y, r) \<Rightarrow> (f y, r))"

text \<open>A failed batch sleeps two seconds whatever happens; the pause after a short one ends with the context.\<close>

fun consumeEvents ::
  "(nat \<Rightarrow> event_turn) \<Rightarrow> (int \<Rightarrow> bool) \<Rightarrow> int option \<Rightarrow> nat \<Rightarrow> nat \<Rightarrow> int \<Rightarrow> consumer \<Rightarrow> tally \<times> int \<times> consumer \<times> bool" where
  "consumeEvents T pick c 0 i now q = (no_turns, now, q, False)"
| "consumeEvents T pick c (Suc n) i now q =
     (if ctx_done c now then (no_turns, now, q, True)
      else (let e = now + int (tn_takes (T i)) in
            case drain (tn_env (T i)) (tn_redis (T i)) (tn_db (T i)) (pushed (tn_pushed (T i)) q) of
              (Inl err, q1) \<Rightarrow> count (ty_failed_update Suc) (consumeEvents T pick c n (Suc i) (e + 2 * sec) q1)
            | (Inr k, q1) \<Rightarrow>
                if k < batchSize then
                  (if stops pick c e (e + pause) then (no_turns\<lparr>ty_idle := 1\<rparr>, e, q1, True)
                   else count (ty_idle_update Suc) (consumeEvents T pick c n (Suc i) (e + pause) q1))
                else count (ty_full_update Suc) (consumeEvents T pick c n (Suc i) e q1)))"

lemma count_eq: "count f res = (y, r) \<Longrightarrow> \<exists>y0. res = (y0, r) \<and> y = f y0"
  by (cases res) (simp add: count_def)

lemma drain_queue:
  assumes "drain E redis db q = (res, q')"
  shows "length (cs_queue q') \<le> length (cs_queue q)"
    and "res = Inr k \<Longrightarrow> \<not> k < batchSize \<Longrightarrow> length (cs_queue q') + batchSize \<le> length (cs_queue q)"
  using assms by (auto simp: drain_def Let_def batchSize_def split: option.splits if_splits sum.splits prod.splits)

text \<open>The cases of one turn.\<close>

lemma consume_Suc:
  assumes "consumeEvents T pick c (Suc n) i now q = (y, t', q', b)"
  obtains "ctx_done c now" "y = no_turns" "t' = now" "q' = q" "b"
  | err q1 y0 where "\<not> ctx_done c now" "drain (tn_env (T i)) (tn_redis (T i)) (tn_db (T i)) (pushed (tn_pushed (T i)) q) = (Inl err, q1)"
      "consumeEvents T pick c n (Suc i) (now + int (tn_takes (T i)) + 2 * sec) q1 = (y0, t', q', b)" "y = ty_failed_update Suc y0"
  | k q1 where "\<not> ctx_done c now" "drain (tn_env (T i)) (tn_redis (T i)) (tn_db (T i)) (pushed (tn_pushed (T i)) q) = (Inr k, q1)"
      "k < batchSize" "y = no_turns\<lparr>ty_idle := 1\<rparr>" "t' = now + int (tn_takes (T i))" "q' = q1" "b"
  | k q1 y0 where "\<not> ctx_done c now" "drain (tn_env (T i)) (tn_redis (T i)) (tn_db (T i)) (pushed (tn_pushed (T i)) q) = (Inr k, q1)"
      "k < batchSize" "consumeEvents T pick c n (Suc i) (now + int (tn_takes (T i)) + pause) q1 = (y0, t', q', b)" "y = ty_idle_update Suc y0"
  | k q1 y0 where "\<not> ctx_done c now" "drain (tn_env (T i)) (tn_redis (T i)) (tn_db (T i)) (pushed (tn_pushed (T i)) q) = (Inr k, q1)"
      "\<not> k < batchSize" "consumeEvents T pick c n (Suc i) (now + int (tn_takes (T i))) q1 = (y0, t', q', b)" "y = ty_full_update Suc y0"
proof (cases "ctx_done c now")
  case True
  have "(no_turns, now, q, True) = (y, t', q', b)" using assms by (simp only: consumeEvents.simps True if_True)
  then show ?thesis using that(1) [OF True] by simp
next
  case False
  let ?i = "T i"
  let ?e = "now + int (tn_takes ?i)"
  obtain res q1 where d: "drain (tn_env ?i) (tn_redis ?i) (tn_db ?i) (pushed (tn_pushed ?i) q) = (res, q1)" by (rule prod.exhaust)
  show ?thesis
  proof (cases res)
    case (Inl err)
    have "count (ty_failed_update Suc) (consumeEvents T pick c n (Suc i) (?e + 2 * sec) q1) = (y, t', q', b)"
      using assms by (simp only: consumeEvents.simps Let_def False if_False d Inl prod.case sum.case)
    from count_eq [OF this] show ?thesis using that(2) [OF False d [unfolded Inl]] by blast
  next
    case (Inr k)
    note d' = d [unfolded Inr]
    consider "k < batchSize" "stops pick c ?e (?e + pause)" | "k < batchSize" "\<not> stops pick c ?e (?e + pause)" | "\<not> k < batchSize" by blast
    then show ?thesis
    proof cases
      case 1
      have "(no_turns\<lparr>ty_idle := 1\<rparr>, ?e, q1, True) = (y, t', q', b)"
        using assms by (simp only: consumeEvents.simps Let_def False if_False d' prod.case sum.case 1 if_True)
      then show ?thesis using that(3) [OF False d' 1(1)] by simp
    next
      case 2
      have "count (ty_idle_update Suc) (consumeEvents T pick c n (Suc i) (?e + pause) q1) = (y, t', q', b)"
        using assms by (simp only: consumeEvents.simps Let_def False if_False d' prod.case sum.case 2 if_True)
      from count_eq [OF this] show ?thesis using that(4) [OF False d' 2(1)] by blast
    next
      case 3
      have "count (ty_full_update Suc) (consumeEvents T pick c n (Suc i) ?e q1) = (y, t', q', b)"
        using assms by (simp only: consumeEvents.simps Let_def False if_False d' prod.case sum.case 3)
      from count_eq [OF this] show ?thesis using that(5) [OF False d' 3] by blast
    qed
  qed
qed

definition pushed_in :: "(nat \<Rightarrow> event_turn) \<Rightarrow> nat \<Rightarrow> nat \<Rightarrow> nat" where
  "pushed_in T i n = sum_list (map (\<lambda>j. length (tn_pushed (T j))) [i..<i + n])"

lemma pushed_in_Suc: "pushed_in T i (Suc n) = length (tn_pushed (T i)) + pushed_in T (Suc i) n"
proof -
  have "[i..<i + Suc n] = i # [Suc i..<Suc i + n]" by (subst upt_conv_Cons) simp_all
  then show ?thesis by (simp add: pushed_in_def)
qed

lemma consume_bounds:
  "consumeEvents T pick c n i now q = (y, t', q', b) \<Longrightarrow>
     ty_full y * batchSize + length (cs_queue q') \<le> length (cs_queue q) + pushed_in T i n
     \<and> int (ty_idle y) * pause + int (ty_failed y) * (2 * sec) \<le> t' - now + pause"
proof (induction n arbitrary: i now q y)
  case 0
  then show ?case by (auto simp: no_turns_def pushed_in_def pause_def)
next
  case (Suc n)
  let ?p = "pushed (tn_pushed (T i)) q"
  have len: "length (cs_queue ?p) = length (tn_pushed (T i)) + length (cs_queue q)" by (simp add: pushed_def)
  from Suc.prems show ?case
  proof (cases rule: consume_Suc)
    case 1
    then show ?thesis by (simp add: no_turns_def pause_def)
  next
    case (2 err q1 y0)
    then show ?thesis using Suc.IH [OF 2(3)] drain_queue(1) [OF 2(2)] len by (simp add: pushed_in_Suc distrib_right) 
  next
    case (3 k q1)
    then show ?thesis using drain_queue(1) [OF 3(2)] len by (simp add: pushed_in_Suc no_turns_def)
  next
    case (4 k q1 y0)
    then show ?thesis using Suc.IH [OF 4(4)] drain_queue(1) [OF 4(2)] len by (simp add: pushed_in_Suc distrib_right)
  next
    case (5 k q1 y0)
    then show ?thesis using Suc.IH [OF 5(4)] drain_queue(2) [OF 5(2) refl 5(3)] len by (simp add: pushed_in_Suc distrib_right)
  qed
qed

lemma consume_returns:
  "consumeEvents T pick (Some d) n i now q = (y, t', q', b) \<Longrightarrow> (\<And>m. length (cs_queue q) + pushed_in T i m < batchSize * x) \<Longrightarrow>
     d - now \<le> pause * int k \<Longrightarrow> x + k \<le> n \<Longrightarrow> b"
proof (induction n arbitrary: i now q y x k)
  case 0
  then show ?case by (metis add_is_0 le_zero_eq mult_0_right not_less_zero)
next
  case (Suc n)
  let ?p = "pushed (tn_pushed (T i)) q"
  have len: "length (cs_queue ?p) = length (tn_pushed (T i)) + length (cs_queue q)" by (simp add: pushed_def)
  have here: "length (cs_queue ?p) + pushed_in T (Suc i) m < batchSize * x" for m
    using Suc.prems(2) [of "Suc m"] len by (simp add: pushed_in_Suc)
  have waiting: b
    if go: "\<not> ctx_done (Some d) now" and q1: "length (cs_queue q1) \<le> length (cs_queue ?p)" and w: "pause \<le> w"
      and rec: "consumeEvents T pick (Some d) n (Suc i) (now + w) q1 = (y0, t', q', b)" for q1 w y0
  proof -
    have "0 < d - now" using go by (simp add: ctx_done_def)
    then obtain k0 where k: "k = Suc k0" using Suc.prems(3) by (cases k) (auto simp: pause_def)
    have "length (cs_queue q1) + pushed_in T (Suc i) m < batchSize * x" for m using here [of m] q1 by linarith
    moreover have "d - (now + w) \<le> pause * int k0" using Suc.prems(3) w by (simp add: k algebra_simps)
    moreover have "x + k0 \<le> n" using Suc.prems(4) k by simp
    ultimately show b using Suc.IH [OF rec] by blast
  qed
  from Suc.prems(1) show ?case
  proof (cases rule: consume_Suc)
    case (2 err q1 y0)
    show ?thesis
      by (rule waiting [OF 2(1) drain_queue(1) [OF 2(2)], of "int (tn_takes (T i)) + 2 * sec"])
        (use 2(3) in \<open>simp_all add: pause_def sec_def add.assoc\<close>)
  next
    case (4 k' q1 y0)
    show ?thesis
      by (rule waiting [OF 4(1) drain_queue(1) [OF 4(2)], of "int (tn_takes (T i)) + pause"])
        (use 4(4) in \<open>simp_all add: add.assoc\<close>)
  next
    case (5 k' q1 y0)
    note less = drain_queue(2) [OF 5(2) refl 5(3)]
    obtain x0 where x: "x = Suc x0" using here [of 0] by (cases x) simp_all
    have "length (cs_queue q1) + pushed_in T (Suc i) m < batchSize * x0" for m using here [of m] less by (simp add: x)
    moreover have "d - (now + int (tn_takes (T i))) \<le> pause * int k" using Suc.prems(3) by simp
    moreover have "x0 + k \<le> n" using Suc.prems(4) x by simp
    ultimately show ?thesis using Suc.IH [OF 5(4)] by blast
  qed simp_all
qed

text \<open>
  C19 the event loop neither spins nor hangs. Turns with a full batch are paid for by five hundred items each,
  whatever fails in between; every other turn by a pause, three tenths of a second after a short batch and
  two seconds after a failure. When the context is cancelled and the data plane has pushed what it will, the
  loop returns: after one turn for every started five hundred items and one for every started pause that
  was left until then.
\<close>

theorem consumer_paced:
  assumes "\<And>m. length (cs_queue q) + pushed_in T 0 m < batchSize * x" "d - t0 \<le> pause * int k" "x + k \<le> n"
  shows "case consumeEvents T pick (Some d) n 0 t0 q of (y, t', q', returned) \<Rightarrow>
     returned \<and> ty_full y * batchSize + length (cs_queue q') \<le> length (cs_queue q) + pushed_in T 0 n
     \<and> int (ty_idle y) * pause + int (ty_failed y) * (2 * sec) \<le> t' - t0 + pause"
proof -
  obtain y t' q' b where r: "consumeEvents T pick (Some d) n 0 t0 q = (y, t', q', b)" by (metis prod.collapse)
  show ?thesis using consume_bounds [OF r] consume_returns [OF r assms] by (simp add: r)
qed

text \<open>The dataset and the statistics, cancelled a second after the first pass over the dataset.\<close>

lemma background_loops_stop_witness:
  "(case GeoIP_Start (\<lambda>t m. Inl ''down'') (\<lambda>t. (2025, 1, 1)) (\<lambda>t. 7) (\<lambda>t. True) (Some (61 * sec)) (Suc (nat (61 * sec))) 0 NewGeoIP of
     (rs, g', returned) \<Rightarrow> returned \<and> orderly (0 + 60 * sec) (24 * 3600 * sec) (61 * sec) rs
       \<and> g' = fold (\<lambda>r. Refresh (\<lambda>m. Inl ''down'') (rn_start r) (2025, 1, 1)) rs NewGeoIP)
   \<and> (case collectStats (\<lambda>t k. None) (\<lambda>t. []) (\<lambda>t m. None) (\<lambda>t. 9) (\<lambda>t. True) (Some (61 * sec)) (Suc (nat (61 * sec))) 0 [] of
     (rs, t', returned) \<Rightarrow> returned \<and> keeps_beat 0 (20 * sec) (61 * sec) rs)"
proof -
  have n: "nat (61 * sec - 0) < Suc (nat (61 * sec))" by simp
  note stop = background_loops_stop [OF n, where get = "\<lambda>t m. Inl ''down''" and date = "\<lambda>t. (2025, 1, 1)" and takes = "\<lambda>t. 7"
      and pick = "\<lambda>t. True" and g = NewGeoIP and hgetall = "\<lambda>t k. None" and pages = "\<lambda>t. []" and udb = "\<lambda>t m. None" and stat_takes = "\<lambda>t. 9" and t = "[]"]
  have "\<forall>r :: int. int 9 < 20 * sec" by (simp add: sec_def)
  then show ?thesis using stop [THEN conjunct2, THEN conjunct2, THEN conjunct1] stop [THEN conjunct2, THEN conjunct2, THEN conjunct2, THEN conjunct2]
    by (auto split: prod.splits)
qed

lemma consumer_paced_witness:
  "case consumeEvents (\<lambda>i. \<lparr>tn_env = demo_consumer_env, tn_redis = Some (''down'', False), tn_db = None, tn_pushed = [], tn_takes = 0\<rparr>)
      (\<lambda>t. True) (Some 0) 1 0 0 \<lparr>cs_queue = [''x''], cs_events = \<lparr>evt_next = 1, evt_rows = []\<rparr>\<rparr> of (y, t', q', returned) \<Rightarrow> returned"
proof -
  let ?T = "\<lambda>i :: nat. \<lparr>tn_env = demo_consumer_env, tn_redis = Some (''down'', False), tn_db = None, tn_pushed = [], tn_takes = 0\<rparr>"
  let ?q = "\<lparr>cs_queue = [''x''], cs_events = \<lparr>evt_next = 1, evt_rows = []\<rparr>\<rparr>"
  have "length (cs_queue ?q) + pushed_in ?T 0 m < batchSize * 1" for m
  proof -
    have "pushed_in ?T 0 m = 0" by (simp add: pushed_in_def sum_list_eq_0_iff)
    then show ?thesis by (simp add: batchSize_def)
  qed
  then have len: "length (cs_queue ?q) + pushed_in ?T 0 m < batchSize * 1" for m .
  obtain y t' q' b where r: "consumeEvents ?T (\<lambda>t. True) (Some 0) 1 0 0 ?q = (y, t', q', b)" by (metis prod.collapse)
  have "b" using consumer_paced [OF len, of 0 0 0 1 "\<lambda>t. True"] by (simp only: r prod.case)
  then show ?thesis by (simp only: r prod.case)
qed

end
