(* ===== verification/CountryStart.thy ===== *)
theory CountryStart
  imports EnginePublisher
begin

section \<open>Country rules after a start\<close>

text \<open>
  The start-up of \<open>control/cmd/moswafd/main.go\<close> publishes before there is a dataset, and the resolver of
  \<open>control/internal/engine/georesolve.go\<close> turns every rule off whose ranges cannot be built. The lemmas follow
  this through the resolver, the sites and the access rules to what is published without ranges. (The loop that
  loads the dataset, in \<open>EngineLoops\<close>, asks for no publication after it.)
\<close>

definition no_ranges :: "geo_ip option \<Rightarrow> bool" where
  "no_ranges geo \<longleftrightarrow> (case geo of None \<Rightarrow> True | Some g \<Rightarrow> gi_v4 g = [] \<and> gi_v6 g = [])"

subsection \<open>What is published without ranges\<close>

lemma build_none:
  assumes "gi_v4 g = []" "gi_v6 g = []" "gr_sets r = []"
  shows "fst (fst (build U g m cs r)) = ''off''" "gr_sets (snd (build U g m cs r)) = []"
    and "gr_globalMode (snd (build U g m cs r)) = gr_globalMode r"
  using assms by (simp_all add: build_def SetFor_def Let_def)

lemma build_sites_none:
  "gi_v4 g = [] \<Longrightarrow> gi_v6 g = [] \<Longrightarrow> gr_sets r = [] \<Longrightarrow>
     gr_sets (build_sites U g ss r) = [] \<and> gr_globalMode (build_sites U g ss r) = gr_globalMode r"
  by (induction ss arbitrary: r) (simp_all add: build_none)

lemma build_conditions_none:
  "gi_v4 g = [] \<Longrightarrow> gi_v6 g = [] \<Longrightarrow> gr_sets r = [] \<Longrightarrow>
     gr_sets (build_conditions U g cs r) = [] \<and> gr_globalMode (build_conditions U g cs r) = gr_globalMode r"
  by (induction cs arbitrary: r) (simp_all add: build_none)

lemma build_rules_none:
  "gi_v4 g = [] \<Longrightarrow> gi_v6 g = [] \<Longrightarrow> gr_sets r = [] \<Longrightarrow>
     gr_sets (build_rules U g as r) = [] \<and> gr_globalMode (build_rules U g as r) = gr_globalMode r"
  by (induction as arbitrary: r) (simp_all add: build_conditions_none)

lemma resolve_none:
  assumes "no_ranges geo"
  shows "gr_sets (resolveGeo U geo st ss as) = []" "gr_globalMode (resolveGeo U geo st ss as) \<in> {[], ''off''}"
proof -
  have "gr_sets (resolveGeo U geo st ss as) = [] \<and> gr_globalMode (resolveGeo U geo st ss as) \<in> {[], ''off''}"
  proof (cases geo)
    case None
    then show ?thesis by (simp add: resolveGeo_def new_resolver_def)
  next
    case (Some g)
    then have g: "gi_v4 g = []" "gi_v6 g = []" using assms by (simp_all add: no_ranges_def)
    obtain m k r where b: "build U g (st_geoMode st) (st_geoCountries st) new_resolver = ((m, k), r)" by (metis prod.collapse)
    have n: "gr_sets new_resolver = []" by (simp add: new_resolver_def)
    have "m = ''off''" "gr_sets r = []" using build_none(1,2) [OF g n, of U "st_geoMode st" "st_geoCountries st"] b by simp_all
    then show ?thesis
      using build_sites_none [OF g, of "r\<lparr>gr_globalMode := m, gr_globalSet := k\<rparr>" U ss] build_rules_none [OF g]
      by (simp add: resolveGeo_def Some b)
  qed
  then show "gr_sets (resolveGeo U geo st ss as) = []" "gr_globalMode (resolveGeo U geo st ss as) \<in> {[], ''off''}" by simp_all
qed

lemma site_mode_none: "gr_sets r = [] \<Longrightarrow> gr_globalMode r \<in> {[], ''off''} \<Longrightarrow> fst (forSite r s) \<in> {[], ''off''}"
  by (auto simp: forSite_def Let_def)

lemma entries_all:
  assumes "\<And>k e. m k = Some e \<Longrightarrow> Q e" "\<And>s. Q (site_entry L gens geo s)" "site_entries L gens geo ss m k = Some e"
  shows "Q e"
  using assms(1,3)
proof (induction ss arbitrary: m)
  case (Cons s ss)
  show ?case
    by (rule Cons.IH [of "if \<not> s_enabled s then m else m(s_id s \<mapsto> site_entry L gens geo s)"])
      (use Cons.prems assms(2) in \<open>auto split: if_splits\<close>)
qed simp

lemma conditions_none: "gr_sets r = [] \<Longrightarrow> lua_conditions r cs = Some ls \<Longrightarrow> list_all (\<lambda>x. lc_field x \<noteq> ''country'') ls"
  by (induction cs arbitrary: ls) (auto simp: Let_def geo_set_for_def split: if_splits)

lemma rules_none: "gr_sets r = [] \<Longrightarrow> list_all (\<lambda>l. list_all (\<lambda>x. lc_field x \<noteq> ''country'') (la_conditions l)) (buildAccessRules r as)"
  by (induction as) (auto simp: lua_rule_def list_all_iff split: option.splits dest!: conditions_none)

lemma published_document: "Publish P db tb d = (None, tb', d') \<Longrightarrow> \<exists>n. dp_config d' = Some (config_of P n)"
  by (auto simp: Publish_def deploy_def Let_def notifyProxy_def split: prod.splits sum.splits option.splits if_splits)

text \<open>
  C12 without ranges no country rule refuses anybody. Any publication that succeeds while there is no dataset
  or one without ranges, as at the start, deploys a configuration with no set of addresses, no site entry that
  refuses an address for its country - whatever set is looked up - and no access rule with a condition on the
  country: every rule written for a country, also the ones that block, is off until the next publication.
\<close>

theorem country_rules_wait:
  assumes "Publish P db tb d = (None, tb', d')" "no_ranges (pe_sitesGeo P)"
  shows "case dp_config d' of None \<Rightarrow> False | Some c \<Rightarrow>
       cf_geoSets c = []
       \<and> (\<forall>k e S a. cf_sites c k = Some e \<longrightarrow> \<not> geo_refuses (ls_geoMode e) S a)
       \<and> list_all (\<lambda>l. list_all (\<lambda>x. lc_field x \<noteq> ''country'') (la_conditions l)) (cf_accessRules c)"
proof -
  obtain m where m: "dp_config d' = Some (config_of P m)" using published_document [OF assms(1)] by blast
  let ?r = "resolveGeo (re_upper (pe_render P)) (pe_sitesGeo P) (sn_settings m) (sn_sites m) (sn_access m)"
  note none = resolve_none [OF assms(2), of "re_upper (pe_render P)" "sn_settings m" "sn_sites m" "sn_access m"]
  have off: "ls_geoMode e \<in> {[], ''off''}" if "cf_sites (config_of P m) k = Some e" for k e
    by (rule entries_all [where m = Map.empty and Q = "\<lambda>e. ls_geoMode e \<in> {[], ''off''}"])
      (use that site_mode_none [OF none] in \<open>auto simp: config_of_def Let_def site_entry_def\<close>)
  have "\<not> geo_refuses (ls_geoMode e) S a" if "cf_sites (config_of P m) k = Some e" for k e S a
    using off [OF that] by (auto simp: geo_refuses_def)
  moreover have "cf_geoSets (config_of P m) = []" "cf_accessRules (config_of P m) = buildAccessRules ?r (sn_access m)"
    using none(1) by (simp_all add: config_of_def Let_def)
  ultimately show ?thesis using m rules_none [OF none(1)] by simp
qed

lemma country_rules_wait_witness:
  "case Publish demo_pub_env demo_pub_db demo_tables demo_deployed of (err, tb', d') \<Rightarrow>
     err = None \<and> (case dp_config d' of None \<Rightarrow> False | Some c \<Rightarrow> cf_geoSets c = [])"
proof -
  obtain tb' d' where p: "Publish demo_pub_env demo_pub_db demo_tables demo_deployed = (None, tb', d')"
    using demo_publish_ok by (metis prod.collapse)
  have "no_ranges (pe_sitesGeo demo_pub_env)" by (simp add: no_ranges_def demo_pub_env_def)
  from country_rules_wait [OF p this] show ?thesis by (auto simp: p split: option.splits)
qed

end
