(* ===== verification/ApiDashboard.thy ===== *)
theory ApiDashboard
  imports ApiServer
begin

section \<open>The API: the dashboard and the access log\<close>

text \<open>
  What is left of \<open>control/internal/api/server.go\<close>: the files of the dashboard (\<open>spaHandler\<close>) and the access
  log (\<open>logging\<close> with its \<open>statusWriter\<close>). The embedded file system is a parameter, the set of names
  \<open>fs.Stat\<close> finds in it; the file server of the standard library gets the path computed here.
\<close>

datatype dashboard =
    NoFiles
  | NotBuilt int
  | File string string

definition immutable :: string where "immutable = ''public, max-age=31536000, immutable''"

text \<open>The name looked for, and the cache header that goes with it.\<close>

definition spa_name :: "string \<Rightarrow> string" where
  "spa_name path = (let p = trim_prefix ''/'' path in if p = [] then ''index.html'' else p)"

definition spa_cache :: "string \<Rightarrow> string" where
  "spa_cache p = (if has_prefix ''assets/'' p then immutable else ''no-cache'')"

text \<open>\<open>sub_err\<close> is the error of \<open>fs.Sub\<close>; the path handed to the file server is the one of the request or the root.\<close>

definition spaHandler :: "bool \<Rightarrow> (string \<Rightarrow> bool) \<Rightarrow> string \<Rightarrow> dashboard" where
  "spaHandler sub_err found path =
     (if sub_err then NoFiles
      else if \<not> found ''index.html'' then NotBuilt 503
      else let p = spa_name path in File (if found p then path else ''/'') (spa_cache p))"

text \<open>A response writer that remembers the last code written; 200 when none was.\<close>

fun statusWriter :: "int \<Rightarrow> int list \<Rightarrow> int" where
  "statusWriter code [] = code"
| "statusWriter code (c # cs) = statusWriter c cs"

definition logging :: "string \<Rightarrow> string \<Rightarrow> int list \<Rightarrow> (string \<times> string \<times> int) option" where
  "logging m path written = (if has_prefix ''/api/'' path then Some (m, path, statusWriter 200 written) else None)"

subsection \<open>What they do\<close>

lemma statusWriter_last: "statusWriter c cs = last (c # cs)"
  by (induction cs arbitrary: c) auto

text \<open>Every path of the dashboard gets a file: its own when it has one, the page otherwise.\<close>

lemma spa_served:
  assumes "\<not> sub_err" "found ''index.html''"
  shows "\<exists>path' cache. spaHandler sub_err found path = File path' cache
    \<and> (path' = ''/'' \<and> \<not> found (spa_name path) \<or> path' = path \<and> found (spa_name path))
    \<and> found (spa_name path')"
  using assms by (auto simp: spaHandler_def Let_def spa_name_def trim_prefix_def has_prefix_def)

text \<open>
  The cache header is chosen by the name that was asked for and not by the file that is served: for an asset
  that does not exist, the page itself is sent with a year of immutable caching.
\<close>

lemma missing_asset_cached:
  assumes "found ''index.html''" "\<not> found (''assets/'' @ n)"
  shows "spaHandler False found (''/assets/'' @ n) = File ''/'' immutable"
proof -
  have n: "spa_name (''/assets/'' @ n) = ''assets/'' @ n" by (simp add: spa_name_def trim_prefix_def has_prefix_def)
  have c: "spa_cache (''assets/'' @ n) = immutable" by (simp add: spa_cache_def has_prefix_def)
  show ?thesis unfolding spaHandler_def n Let_def c using assms by simp
qed

end
