(* ===== verification/Spec2Isabelle.thy ===== *)
theory Spec2Isabelle
  imports KAgent StoreSiteUsers StoreSites StoreIps StoreSettings StoreAccessRules StoreRules StoreEvents
    StoreUsers ApiAuth ApiSiteLogin EngineAcme ApiSites ApiRules ApiAccessRules ApiSettings ApiSiteUsers
    ApiStats ApiDataplane
    DataplaneRules EnginePublisher EngineConsumer EngineCrawlers ControlMain ApiServer
    StoreSchema ApiSiteTable ApiSystem EngineLoops CountryStart ApiDashboard
begin

text \<open>
  MosWAF, the control plane and the ban agent (Go, under \<open>control/\<close>): a model of the program and the theorems
  that make it correct.

  \<^bold>\<open>The program.\<close> An nginx data plane (Lua, \<open>dataplane/\<close>) filters the traffic of protected sites. The control
  plane \<open>moswafd\<close> keeps the configuration in Postgres, serves the dashboard and its API, and after every change
  publishes: one JSON document into Redis, which the Lua code reads, and one nginx file for each site. In the
  background it moves the events of the data plane from a Redis queue into Postgres, adds up statistics, orders
  certificates by ACME, and refreshes a country dataset and lists of crawler addresses. The ban agent
  \<open>moswaf-kbans\<close> runs on the host: it hears of bans from Redis, lets nftables drop the addresses, and reconciles
  the kernel with the ban list on a timer.

  \<^bold>\<open>How the model is made.\<close> Definitions carry the names of the Go functions and are translated branch by branch,
  errors included. A struct is a record, a fallible call a sum (\<open>Inl\<close> the error), a Go map an association list
  or a map, a Go string a list of bytes. Machine integers are words where bits matter, and integers with
  the wrap-around written out where only overflow does. State is passed explicitly: a table of Postgres is the
  list of its rows with the sequence of its ids, and every statement has its own error, so that any of them can
  fail. Clock, random source, bcrypt, the MAC and JWT libraries, regular expressions, the JSON syntax, the HTTP and
  ACME clients, nft, Redis and the file system are parameters; what a theorem needs of them is a hypothesis of
  the theorem, and its witness gives a concrete instance. An operation that the code puts under a mutex is
  atomic; the two threads of the ban agent are interleaved command by command.

  \<^bold>\<open>Foundations.\<close>
    \<^item> \<open>Prelude\<close>: Go strings, trimming, splitting, decimal numbers, 64-bit wrap-around, fallible maps over lists.
    \<^item> \<open>GoNet\<close>: \<open>net/netip\<close> and \<open>net\<close> as far as used: parsing and printing of addresses and prefixes,
      containment. \<open>GoJson\<close>: decoding of a JSON value into a struct, field by field.
    \<^item> \<open>StoreTable\<close>: rows, statements and upserts; the locale \<open>keyed_table\<close> is interpreted on every table that
      has a unique key. \<open>Normaliser\<close>: the contract of a function applied on writing and on reading.

  \<^bold>\<open>The ban agent\<close> (\<open>control/cmd/moswaf-kbans\<close>). \<open>KTombstones\<close> (\<open>tombstone.go\<close>: recent releases, with the locale
  \<open>release_notes\<close>), \<open>KAllowlist\<close> (\<open>allowlist.go\<close>: addresses that are never dropped), \<open>KNft\<close> (\<open>nftables.go\<close>: every
  command for nft and the reading of its answers), \<open>KPublish\<close> (\<open>publish.go\<close>: its reports in Redis) and \<open>KAgent\<close>
  (\<open>main.go\<close>: configuration, \<open>preflight\<close>, \<open>apply\<close>, \<open>reconcile\<close>, and the two threads: the cycle of the timer, with
  its fetches, its two listings and the commands it makes, any of which can fail, and the feed of messages; their
  steps interleave in any way). Shown: no command ever asks for a drop of a protected address, in any
  interleaving; a reconcile makes the kernel hold what is banned and nothing else; no run of messages and
  reconciles within two intervals puts a released address back.

  \<^bold>\<open>The store\<close> (\<open>control/internal/store\<close>). One theory for each file: \<open>StoreModels\<close>, \<open>StoreSites\<close>, \<open>StoreRules\<close>,
  \<open>StoreAccessRules\<close>, \<open>StoreIps\<close>, \<open>StoreSettings\<close>, \<open>StoreSiteUsers\<close>, \<open>StoreUsers\<close>, \<open>StoreEvents\<close>, and \<open>StoreSchema\<close>
  for \<open>store.go\<close>. Validation is characterised exactly; what is written is what is read; the text of the schema
  is a list of statements that is run on a database of any release - the tables of the releases are given on
  their own - where it keeps the rows and ends with every column the other files name.

  \<^bold>\<open>The API\<close> (\<open>control/internal/api\<close>).
    \<^item> \<open>ApiHttp\<close>, \<open>ApiServer\<close> and \<open>ApiDashboard\<close> (\<open>server.go\<close>, \<open>geo.go\<close>): decoding and replies, the multiplexers
      with the session middleware in front of them, the health check, the system status, the files of the
      dashboard and the access log. Shown: what answers a request, in every case; without a valid session only
      sign-in, the health check and the files of the dashboard do.
    \<^item> \<open>LoginGuard\<close>, \<open>ApiAuth\<close> (\<open>auth.go\<close>) and \<open>ApiSiteLogin\<close> (\<open>sitelogin.go\<close>): the counters against guessing
      (locale \<open>limiter\<close>: failures, the reaper and evictions), tokens, sign-in, password changes, and the sessions of a site, which
      \<open>DataplaneAuth\<close> (\<open>auth.lua\<close>) verifies. Shown: the lockout, the lifetime of tokens, and that the data
      plane accepts a cookie for its site and its hours, until the password of its account is changed, its sessions
      are revoked or it is deleted (of the MAC only the messages that meet are taken to differ).
    \<^item> \<open>ApiPublish\<close> and the handlers \<open>ApiSites\<close>, \<open>ApiRules\<close>, \<open>ApiAccessRules\<close>, \<open>ApiSettings\<close>, \<open>ApiSiteUsers\<close>
      (\<open>handlers.go\<close>, \<open>accessrules.go\<close>, \<open>siteusers.go\<close>): the locale \<open>admin_change\<close> states what an operator may
      rely on; it is interpreted on every handler that changes something. \<open>ApiStats\<close> and \<open>ApiDataplane\<close>
      (\<open>bans.go\<close>) are the handlers that only read or ask.

  \<^bold>\<open>The engine\<close> (\<open>control/internal/engine\<close>).
    \<^item> \<open>EngineGeoIP\<close>, \<open>EngineGeoSets\<close>, \<open>EngineGeoResolve\<close>, \<open>EngineAccessRules\<close> (\<open>geoip.go\<close>, \<open>geosets.go\<close>,
      \<open>georesolve.go\<close>, \<open>accessrules.go\<close>): the dataset, the merged ranges of a list of countries, and which rule
      applies where. \<open>DataplaneGeo\<close>, which also says independently what a list of countries covers, and \<open>DataplaneRules\<close> (\<open>geo.lua\<close>, \<open>accessrules.lua\<close>) evaluate what was
      published, and the verdict is the one of the stored rules.
    \<^item> \<open>EngineNginx\<close> (\<open>nginxconf.go\<close>): the text of a site as its lines, and the writing and removal of the
      files. \<open>EnginePublisher\<close> (\<open>publisher.go\<close>): a publication from the tables to document, files and version.
    \<^item> \<open>EngineAcme\<close> (\<open>acme.go\<close>): which sites need a certificate, an order, a sweep. \<open>EngineConsumer\<close>
      (\<open>consumer.go\<close>): events, counters, retention. \<open>EngineCrawlers\<close> (\<open>crawlerlist.go\<close>, \<open>crawlers.go\<close>).
    \<^item> \<open>EngineLoops\<close>: the timers around them, in virtual time, with the locales \<open>background\<close> and \<open>paced\<close>.

  \<^bold>\<open>Start-up.\<close> \<open>Config\<close> (\<open>config.go\<close>) and \<open>ControlMain\<close> (\<open>cmd/moswafd/main.go\<close>): the environment, the secrets, the
  steps up to serving, the first account, the password reset, the certificate of the dashboard.

  \<^bold>\<open>Across components.\<close> \<open>ApiSiteTable\<close>: the site table through the handlers, the certificate orders and the
  sweep, as a step relation whose reachable tables the publisher can always render. \<open>ApiSystem\<close>: every request
  that changes the configuration, certificate orders included, run on all tables with the publication it asks
  for (locale \<open>published_part\<close>, interpreted on each part): a success is in force, a refusal changes nothing the
  data plane sees, and no sequence of requests makes publishing impossible; \<open>ApiBookkeeping\<close> shows that what an
  order records of its failure is not published. \<open>CountryStart\<close>: what is published before the dataset is there.

  \<^bold>\<open>Bounds and fuel.\<close> Opening the database pings at most 30 times; a batch of events is 500 items; a body is
  read up to 1 MiB; the guard holds 50000 keys; a crawler list and a published set have the limits of the
  source. Structural recursion and measures give termination; the only fuel is in \<open>EngineLoops\<close>, for loops that
  run until they are cancelled, and there the theorems say how much is enough for the loop to have returned.

  \<^bold>\<open>Not modelled.\<close> Signals, listening, timeouts and the shutdown of the HTTP servers; log lines; the deadline of
  an ACME order; the embedding of the dashboard (\<open>web/embed.go\<close>) and the file server of the standard library;
  the cancellation of a context inside a single statement, which shows as an error of that statement; true
  concurrency inside an operation. Of the Lua data plane only what the control plane relies on is modelled:
  the verification of site sessions, the search in a set and the evaluation of access rules. The Vue
  dashboard, the installation scripts, the container files and the tests are not.
\<close>

end
